(* ===== verification/Prelude.thy ===== *)
theory Prelude
  imports Main "HOL-Library.Word" "HOL-Library.Monad_Syntax"
begin

unbundle bit_operations_syntax

text \<open>
  What the components share: the machine types of the 32-bit ARM target, memory objects as byte
  lists with checked access, the copy of a block between two objects, and generic lemmas on
  words, lists and options.

  A memory object (an array, a malloc'ed block, or the whole RAM) is a \<^typ>\<open>8 word list\<close>; a
  pointer into it is an offset of type \<^typ>\<open>nat\<close>. Reading or writing outside an object is
  undefined in C; here it is the value \<^term>\<open>None\<close>, so a theorem whose conclusion is
  \<open>Some _\<close> also says that the code stays within its objects.
\<close>

section \<open>Machine types\<close>

type_synonym byte = "8 word"
type_synonym u16 = "16 word"
type_synonym u32 = "32 word"
type_synonym mem = "byte list"

named_theorems mem_simps "unfolding of checked loads, stores and block copies"
named_theorems unat_simps "natural-number readings of word operations"

section \<open>Checked memory access\<close>

definition load :: "'a list \<Rightarrow> nat \<Rightarrow> 'a option" where
  "load m i = (if i < length m then Some (m ! i) else None)"

definition store :: "'a list \<Rightarrow> nat \<Rightarrow> 'a \<Rightarrow> 'a list option" where
  "store m i b = (if i < length m then Some (m[i := b]) else None)"

text \<open>The standard library's \<open>memcpy (dst + d, src + s, n)\<close> between two distinct objects.\<close>

definition copy_bytes :: "'a list \<Rightarrow> nat \<Rightarrow> 'a list \<Rightarrow> nat \<Rightarrow> nat \<Rightarrow> 'a list option" where
  "copy_bytes dst d src s n =
     (if d + n \<le> length dst \<and> s + n \<le> length src
      then Some (take d dst @ take n (drop s src) @ drop (d + n) dst) else None)"

lemma load_Some [mem_simps]: "i < length m \<Longrightarrow> load m i = Some (m ! i)"
  by (simp add: load_def)

lemma load_None [mem_simps]: "\<not> i < length m \<Longrightarrow> load m i = None"
  by (simp add: load_def)

lemma load_eq_Some_iff: "load m i = Some b \<longleftrightarrow> i < length m \<and> m ! i = b"
  by (simp add: load_def)

lemma store_Some [mem_simps]: "i < length m \<Longrightarrow> store m i b = Some (m[i := b])"
  by (simp add: store_def)

lemma store_None [mem_simps]: "\<not> i < length m \<Longrightarrow> store m i b = None"
  by (simp add: store_def)

lemma store_eq_Some_iff: "store m i b = Some m' \<longleftrightarrow> i < length m \<and> m' = m[i := b]"
  by (auto simp: store_def)

lemma copy_bytes_Some [mem_simps]:
  "d + n \<le> length dst \<Longrightarrow> s + n \<le> length src \<Longrightarrow>
     copy_bytes dst d src s n = Some (take d dst @ take n (drop s src) @ drop (d + n) dst)"
  by (simp add: copy_bytes_def)

lemma copy_bytes_zero: "d \<le> length dst \<Longrightarrow> s \<le> length src \<Longrightarrow> copy_bytes dst d src s 0 = Some dst"
  by (simp add: copy_bytes_def)

lemma length_copy_bytes: "copy_bytes dst d src s n = Some r \<Longrightarrow> length r = length dst"
  by (auto simp: copy_bytes_def split: if_splits)

lemma nth_copy_bytes:
  assumes "copy_bytes dst d src s n = Some r" and "i < length dst"
  shows "r ! i = (if d \<le> i \<and> i < d + n then src ! (s + (i - d)) else dst ! i)"
  using assms by (auto simp: copy_bytes_def nth_append split: if_splits)

section \<open>Words read as natural numbers\<close>

lemma unat_and_1023 [unat_simps]: "unat ((x :: u32) AND 1023) = unat x mod 1024"
proof -
  have "x AND 1023 = take_bit 10 x"
    by (simp add: take_bit_eq_mask mask_eq_exp_minus_1)
  then show ?thesis
    by (simp add: unat_mod take_bit_eq_mod)
qed

lemma unat_and_1023_u16 [unat_simps]: "unat ((x :: u16) AND 1023) = unat x mod 1024"
proof -
  have "x AND 1023 = take_bit 10 x"
    by (simp add: take_bit_eq_mask mask_eq_exp_minus_1)
  then show ?thesis
    by (simp add: unat_mod take_bit_eq_mod)
qed

lemma unat_ucast_u16 [unat_simps]: "unat (ucast (x :: u32) :: u16) = unat x mod 65536"
  by (simp add: unsigned_ucast_eq take_bit_eq_mod)

lemma unat_ucast_u32 [unat_simps]: "unat (ucast (x :: u16) :: u32) = unat x"
proof -
  have "unat x < 2 ^ 16" using unsigned_less [of x, where ?'a = nat] by simp
  then show ?thesis by (simp add: unsigned_ucast_eq take_bit_eq_mod)
qed

lemma unat_add_u32: "unat ((x :: u32) + y) = (unat x + unat y) mod 4294967296"
  by (simp add: unat_word_ariths)

lemma mod_add_diff: "(b :: nat) \<le> a \<Longrightarrow> a < m \<Longrightarrow> (a + m - b) mod m = a - b"
proof -
  assume "b \<le> a" and "a < m"
  then have "a + m - b = (a - b) + m" and "a - b < m" by simp_all
  then show ?thesis by (metis mod_add_self2 mod_less)
qed

lemma unat_sub_u32: "unat ((x :: u32) - y) = (unat x + 4294967296 - unat y) mod 4294967296"
proof (cases "y \<le> x")
  case True
  then have "unat (x - y) = unat x - unat y" and "unat y \<le> unat x"
    by (simp_all add: unat_sub word_le_nat_alt)
  moreover have "unat x < 4294967296" using unsigned_less [of x, where ?'a = nat] by simp
  ultimately show ?thesis by (simp add: mod_add_diff)
next
  case False
  then have lt: "unat x < unat y" by (simp add: word_le_nat_alt)
  then have "unat (x - y) = 4294967296 + unat x - unat y"
    by (simp add: unat_sub_if')
  moreover have "unat y < 4294967296" using unsigned_less [of y, where ?'a = nat] by simp
  ultimately show ?thesis using lt by simp
qed

lemma unat_sub_u16: "unat ((x :: u16) - y) = (unat x + 65536 - unat y) mod 65536"
proof (cases "y \<le> x")
  case True
  then have "unat (x - y) = unat x - unat y" and "unat y \<le> unat x"
    by (simp_all add: unat_sub word_le_nat_alt)
  moreover have "unat x < 65536" using unsigned_less [of x, where ?'a = nat] by simp
  ultimately show ?thesis by (simp add: mod_add_diff)
next
  case False
  then have lt: "unat x < unat y" by (simp add: word_le_nat_alt)
  then have "unat (x - y) = 65536 + unat x - unat y"
    by (simp add: unat_sub_if')
  moreover have "unat y < 65536" using unsigned_less [of y, where ?'a = nat] by simp
  ultimately show ?thesis using lt by simp
qed

lemma unat_lt_u16 [simp]: "unat (x :: u16) < 65536"
  using unsigned_less [of x, where ?'a = nat] by simp

lemma unat_lt_u32 [simp]: "unat (x :: u32) < 4294967296"
  using unsigned_less [of x, where ?'a = nat] by simp

lemma unat_lt_u8 [simp]: "unat (x :: byte) < 256"
  using unsigned_less [of x, where ?'a = nat] by simp

section \<open>Ring positions\<close>

lemma ring_pos_inj:
  assumes "(i :: nat) < m" and "j < m"
  shows "(a + i) mod m = (a + j) mod m \<longleftrightarrow> i = j"
proof
  assume "(a + i) mod m = (a + j) mod m"
  then have "int ((a + i) mod m) = int ((a + j) mod m)" by simp
  then have "(int a + int i) mod int m = (int a + int j) mod int m" by (simp add: zmod_int)
  then have "int i mod int m = int j mod int m" by (simp add: mod_eq_dvd_iff)
  then show "i = j" using assms by (simp flip: zmod_int)
qed simp

lemma ring_pos_cases:
  assumes "(p :: nat) < m" and "k < m"
  shows "(p + k) mod m = (if p + k < m then p + k else p + k - m)"
  using assms by (simp add: mod_if)

section \<open>Lists\<close>

lemma nth_map_upt_shift: "i < n \<Longrightarrow> map (\<lambda>i. f (i + k)) [0..<n] ! i = f (i + k)"
  by simp

lemma take_map_upt: "k \<le> n \<Longrightarrow> take k (map f [0..<n]) = map f [0..<k]"
  by (simp add: take_map)

lemma drop_map_upt: "k \<le> n \<Longrightarrow> drop k (map f [0..<n]) = map (\<lambda>i. f (i + k)) [0..<n - k]"
  by (rule nth_equalityI) (auto simp: add.commute)

text \<open>Keeping the last \<open>c\<close> elements, in two steps.\<close>

lemma drop_lastn_append:
  "drop (length (drop (length u - c) u @ v) - c) (drop (length u - c) u @ v)
     = drop (length (u @ v) - c) (u @ v)"
proof (cases "length u \<le> c")
  case True
  then show ?thesis by simp
next
  case False
  then have "drop (length u - c) u @ v = drop (length u - c) (u @ v)" by simp
  then show ?thesis using False by (simp del: drop_append add: add.commute)
qed

section \<open>Counted loops that may fail\<close>

text \<open>\<open>for (i = 0; i < n; i++) body\<close> is \<open>foldM body [0..<n]\<close>.\<close>

fun foldM :: "('a \<Rightarrow> 's \<Rightarrow> 's option) \<Rightarrow> 'a list \<Rightarrow> 's \<Rightarrow> 's option" where
  "foldM f [] s = Some s"
| "foldM f (x # xs) s = do { s1 \<leftarrow> f x s; foldM f xs s1 }"

lemma foldM_Nil: "foldM f [] = Some"
  by (rule ext) simp

lemma foldM_append: "foldM f (xs @ ys) s = do { s1 \<leftarrow> foldM f xs s; foldM f ys s1 }"
  by (induction xs arbitrary: s) (auto split: bind_splits)

lemma foldM_Some: "(\<And>x s. x \<in> set xs \<Longrightarrow> f x s = Some (g x s)) \<Longrightarrow> foldM f xs s = Some (fold g xs s)"
  by (induction xs arbitrary: s) simp_all

lemma foldM_upto_inv:
  assumes "I 0 s" and "\<And>k s. k < n \<Longrightarrow> I k s \<Longrightarrow> \<exists>s'. f k s = Some s' \<and> I (Suc k) s'"
  shows "\<exists>s'. foldM f [0..<n] s = Some s' \<and> I n s'"
  using assms
proof (induction n)
  case (Suc n)
  then obtain s1 where s1: "foldM f [0..<n] s = Some s1" "I n s1" by fastforce
  moreover obtain s' where "f n s1 = Some s'" "I (Suc n) s'" using Suc.prems(2) s1(2) by blast
  ultimately show ?case by (auto simp: foldM_append)
qed simp

lemma foldM_keeps:
  assumes "foldM f xs s = Some s'" and "Q s" and "\<And>x s s'. f x s = Some s' \<Longrightarrow> Q s \<Longrightarrow> Q s'"
  shows "Q s'"
  using assms(1,2)
proof (induction xs arbitrary: s)
  case (Cons x xs)
  then obtain s1 where "f x s = Some s1" "foldM f xs s1 = Some s'" by (auto simp: bind_eq_Some_conv)
  then show ?case using Cons.IH [of s1] Cons.prems(2) assms(3) by blast
qed simp

lemma foldM_cong_inv:
  assumes "Q s" and "\<And>x s. x \<in> set xs \<Longrightarrow> Q s \<Longrightarrow> f x s = g x s"
    and "\<And>x s s'. x \<in> set xs \<Longrightarrow> Q s \<Longrightarrow> g x s = Some s' \<Longrightarrow> Q s'"
  shows "foldM f xs s = foldM g xs s"
  using assms
proof (induction xs arbitrary: s)
  case (Cons x xs)
  show ?case
  proof (cases "g x s")
    case (Some s')
    then have "Q s'" using Cons.prems(1) Cons.prems(3) [of x s s'] by simp
    then have "foldM f xs s' = foldM g xs s'"
      by (rule Cons.IH) (use Cons.prems(2) Cons.prems(3) in \<open>meson list.set_intros(2)\<close>)+
    then show ?thesis using Some Cons.prems(1) Cons.prems(2) [of x s] by simp
  qed (use Cons.prems(1) Cons.prems(2) [of x s] in simp)
qed simp

text \<open>Two nested counted loops are one loop over the positions in row order.\<close>

lemma foldM_nested:
  assumes "0 < c"
  shows "foldM (\<lambda>r. foldM (g r) [0..<c]) [0..<n] s = foldM (\<lambda>k. g (k div c) (k mod c)) [0..<n * c] s"
proof (induction n)
  case (Suc n)
  have "[0..<Suc n * c] = [0..<n * c] @ map (\<lambda>i. n * c + i) [0..<c]"
    using upt_add_eq_append [of 0 "n * c" c] by (simp add: add.commute map_add_upt)
  moreover have "foldM f (map h xs) s = foldM (\<lambda>x. f (h x)) xs s" for f :: "nat \<Rightarrow> 'a \<Rightarrow> 'a option" and h and xs :: "nat list" and s
    by (induction xs arbitrary: s) (auto split: bind_splits)
  moreover have "foldM (\<lambda>x. g ((n * c + x) div c) ((n * c + x) mod c)) [0..<c] s1 = foldM (g n) [0..<c] s1" for s1
    by (rule foldM_cong_inv [where Q = "\<lambda>_. True"]) (use assms in auto)
  ultimately show ?case using Suc by (simp add: foldM_append foldM_Nil)
qed simp

end
