(* ===== verification/Byte_Queue.thy ===== *)
theory Byte_Queue
  imports Prelude
begin

text \<open>
  The contracts of the two ring buffers of the repository, as locales, and what a client can rely
  on. \<open>byte_source\<close> is the reading side both share; \<open>bounded_queue\<close> adds a writer that refuses what
  does not fit (\<open>buff_in\<close> of cycle_buff/buff.c), \<open>overwriting_queue\<close> one that drops the oldest
  bytes (\<open>buf_push\<close> of lib/circbuf.c). \<open>limit\<close> is the longest block one call can carry.
\<close>

datatype queue_op = Put "byte list" | Get nat

fun op_within :: "nat \<Rightarrow> queue_op \<Rightarrow> bool" where
  "op_within l (Put xs) = (length xs \<le> l)"
| "op_within l (Get k) = (k \<le> l)"

text \<open>
  A run of operations against a provider: the bytes the writer was told were accepted, the bytes
  the reader got, and the final state.
\<close>

fun queue_run ::
  "('s \<Rightarrow> byte list \<Rightarrow> (nat \<times> 's) option) \<Rightarrow> ('s \<Rightarrow> nat \<Rightarrow> (byte list \<times> 's) option) \<Rightarrow> 's \<Rightarrow>
     queue_op list \<Rightarrow> (byte list \<times> byte list \<times> 's) option" where
  "queue_run put get s [] = Some ([], [], s)"
| "queue_run put get s (Put xs # ops) =
     (case put s xs of None \<Rightarrow> None
      | Some (n, s1) \<Rightarrow>
          map_option (\<lambda>(acc, del, s2). (take n xs @ acc, del, s2)) (queue_run put get s1 ops))"
| "queue_run put get s (Get k # ops) =
     (case get s k of None \<Rightarrow> None
      | Some (ys, s1) \<Rightarrow>
          map_option (\<lambda>(acc, del, s2). (acc, ys @ del, s2)) (queue_run put get s1 ops))"

locale byte_source =
  fixes inv :: "'s \<Rightarrow> bool"
    and contents :: "'s \<Rightarrow> byte list"
    and get :: "'s \<Rightarrow> nat \<Rightarrow> (byte list \<times> 's) option"
    and limit :: nat
  assumes get_law:
    "inv s \<Longrightarrow> k \<le> limit \<Longrightarrow>
       \<exists>s'. get s k = Some (take k (contents s), s') \<and> inv s' \<and> contents s' = drop k (contents s)"
begin

lemma get_twice:
  assumes "inv s" and "j \<le> limit" and "k \<le> limit"
  shows "\<exists>s1 s2 xs ys. get s j = Some (xs, s1) \<and> get s1 k = Some (ys, s2) \<and> inv s2
     \<and> xs @ ys = take (j + k) (contents s) \<and> contents s2 = drop (j + k) (contents s)"
proof -
  obtain s1 where 1: "get s j = Some (take j (contents s), s1)" "inv s1"
      "contents s1 = drop j (contents s)"
    using get_law [OF assms(1,2)] by auto
  obtain s2 where 2: "get s1 k = Some (take k (contents s1), s2)" "inv s2"
      "contents s2 = drop k (contents s1)"
    using get_law [OF 1(2) assms(3)] by auto
  show ?thesis
    using 1 2 by (auto simp: take_add add.commute)
qed

end

locale bounded_queue = byte_source +
  fixes put :: "'a \<Rightarrow> byte list \<Rightarrow> (nat \<times> 'a) option"
    and capacity :: nat
  assumes put_law:
    "inv s \<Longrightarrow> length xs \<le> limit \<Longrightarrow>
       \<exists>s'. put s xs = Some (min (length xs) (capacity - length (contents s)), s') \<and> inv s'
         \<and> contents s' = contents s @ take (capacity - length (contents s)) xs"
    and contents_bound: "inv s \<Longrightarrow> length (contents s) \<le> capacity"
begin

text \<open>
  No byte is lost, duplicated or reordered over any interleaving of writes and reads: what was in
  the queue followed by what was accepted is what was delivered followed by what is left.
\<close>

lemma run_conserves:
  assumes "inv s" and "list_all (op_within limit) ops"
  shows "\<exists>acc del s'. queue_run put get s ops = Some (acc, del, s') \<and> inv s'
     \<and> contents s @ acc = del @ contents s'"
  using assms
proof (induction ops arbitrary: s)
  case Nil
  then show ?case by simp
next
  case (Cons a ops)
  show ?case
  proof (cases a)
    case (Put xs)
    with Cons.prems have "length xs \<le> limit" by simp
    from put_law [OF Cons.prems(1) this] obtain s1 where
      s1: "put s xs = Some (min (length xs) (capacity - length (contents s)), s1)" "inv s1"
        "contents s1 = contents s @ take (capacity - length (contents s)) xs" by auto
    from Cons.IH [OF s1(2)] Cons.prems(2) obtain acc del s2 where
      "queue_run put get s1 ops = Some (acc, del, s2)" "inv s2"
        "contents s1 @ acc = del @ contents s2" by auto
    moreover have "take (min (length xs) (capacity - length (contents s))) xs
        = take (capacity - length (contents s)) xs" by (simp add: min_def)
    ultimately show ?thesis using Put s1 by simp
  next
    case (Get k)
    with Cons.prems have "k \<le> limit" by simp
    from get_law [OF Cons.prems(1) this] obtain s1 where
      s1: "get s k = Some (take k (contents s), s1)" "inv s1" "contents s1 = drop k (contents s)"
      by auto
    from Cons.IH [OF s1(2)] Cons.prems(2) obtain acc del s2 where
      s2: "queue_run put get s1 ops = Some (acc, del, s2)" "inv s2"
        "contents s1 @ acc = del @ contents s2" by auto
    have "contents s @ acc = take k (contents s) @ del @ contents s2"
      using s1(3) s2(3) by (metis append.assoc append_take_drop_id)
    then show ?thesis using Get s1 s2 by simp
  qed
qed

end

locale overwriting_queue = byte_source +
  fixes put :: "'a \<Rightarrow> byte list \<Rightarrow> (nat \<times> 'a) option"
    and capacity :: nat
  assumes put_law:
    "inv s \<Longrightarrow> length xs \<le> limit \<Longrightarrow>
       \<exists>s'. put s xs = Some (length xs, s') \<and> inv s'
         \<and> contents s' = drop (length (contents s @ xs) - capacity) (contents s @ xs)"
    and contents_bound: "inv s \<Longrightarrow> length (contents s) \<le> capacity"
begin

text \<open>Any number of writes leaves the last \<open>capacity\<close> bytes of everything written.\<close>

lemma puts_keep_last:
  assumes "inv s" and "list_all (\<lambda>xs. length xs \<le> limit) xss"
  shows "\<exists>acc s'. queue_run put get s (map Put xss) = Some (acc, [], s') \<and> inv s'
     \<and> acc = concat xss
     \<and> contents s' = drop (length (contents s @ concat xss) - capacity) (contents s @ concat xss)"
  using assms
proof (induction xss arbitrary: s)
  case Nil
  then show ?case using contents_bound by simp
next
  case (Cons xs xss)
  then have "length xs \<le> limit" by simp
  from put_law [OF Cons.prems(1) this] obtain s1 where
    s1: "put s xs = Some (length xs, s1)" "inv s1"
      "contents s1 = drop (length (contents s @ xs) - capacity) (contents s @ xs)" by auto
  from Cons.IH [OF s1(2)] Cons.prems(2) obtain s2 where
    s2: "queue_run put get s1 (map Put xss) = Some (concat xss, [], s2)" "inv s2"
      "contents s2 = drop (length (contents s1 @ concat xss) - capacity) (contents s1 @ concat xss)"
    by auto
  have "contents s2 = drop (length ((contents s @ xs) @ concat xss) - capacity)
      ((contents s @ xs) @ concat xss)"
    unfolding s2(3) s1(3) by (rule drop_lastn_append)
  then show ?case using s1 s2 by simp
qed

end

end
