(* ===== verification/Cycle_Buff.thy ===== *)
theory Cycle_Buff
  imports Byte_Queue
begin

unbundle bit_operations_syntax

text \<open>
  cycle_buff/buff.c and buff.h: a circular byte buffer with free-running 32-bit \<open>in\<close>, \<open>out\<close> and
  \<open>trial\<close> counters, masked to the buffer size on access. The three counters split the stored bytes
  into those sent but unacknowledged (between \<open>out\<close> and \<open>trial\<close>) and those not yet sent (between
  \<open>trial\<close> and \<open>in\<close>). The caller's data is an object of its own, \<^term>\<open>None\<close> for a null pointer.
\<close>

section \<open>The buffer and its operations\<close>

definition CBUFFLEN :: nat where
  "CBUFFLEN = 0x400"

record CBUFF =
  cb_len :: u16
  cb_in :: u32
  cb_out :: u32
  cb_trial :: u32
  cb_data :: "byte list"

definition minw :: "u16 \<Rightarrow> u16 \<Rightarrow> u16" where
  "minw a b = (if a < b then a else b)"

definition buff_clrtrial :: "CBUFF \<Rightarrow> CBUFF" where
  "buff_clrtrial bp = bp\<lparr>cb_trial := cb_out bp\<rparr>"

text \<open>
  \<open>bp->len - 1\<close> is computed in \<open>int\<close> and converted to the unsigned 32-bit type of the counters, so
  a zero length gives the mask \<open>0xffffffff\<close>.
\<close>

definition len_mask :: "CBUFF \<Rightarrow> u32" where
  "len_mask bp = ucast (cb_len bp) - 1"

definition buff_dlen :: "CBUFF \<Rightarrow> u16" where
  "buff_dlen bp = ucast ((cb_in bp - cb_out bp) AND len_mask bp)"

definition buff_untriedlen :: "CBUFF \<Rightarrow> u16" where
  "buff_untriedlen bp = ucast ((cb_in bp - cb_trial bp) AND len_mask bp)"

definition buff_trylen :: "CBUFF \<Rightarrow> u16" where
  "buff_trylen bp = ucast ((cb_trial bp - cb_out bp) AND len_mask bp)"

definition buff_freelen :: "CBUFF \<Rightarrow> u16" where
  "buff_freelen bp = (if cb_len bp \<noteq> 0 then cb_len bp - 1 - buff_dlen bp else 0)"

text \<open>
  \<open>buff_init\<close> writes the counters of the buffer it is given but the length of the global \<open>cbuff\<close>:
  the store of buffers makes the difference visible.
\<close>

definition buff_init :: "(nat \<Rightarrow> CBUFF) \<Rightarrow> nat \<Rightarrow> nat \<Rightarrow> u32 \<Rightarrow> (nat \<Rightarrow> CBUFF)" where
  "buff_init h cbuff bp start =
     (let h1 = h(bp := (h bp)\<lparr>cb_out := start, cb_in := start, cb_trial := start\<rparr>)
      in h1(cbuff := (h1 cbuff)\<lparr>cb_len := of_nat CBUFFLEN\<rparr>))"

definition buff_in :: "CBUFF \<Rightarrow> byte list option \<Rightarrow> u16 \<Rightarrow> (u16 \<times> CBUFF) option" where
  "buff_in bp data len =
     (let inp = ucast (cb_in bp) AND (cb_len bp - 1);
          n = minw len (buff_freelen bp);
          n1 = minw n (cb_len bp - inp);
          n2 = n - n1
      in do {
        d1 \<leftarrow> (case data of Some src \<Rightarrow>
                if n1 \<noteq> 0 then copy_bytes (cb_data bp) (unat inp) src 0 (unat n1)
                else Some (cb_data bp) | None \<Rightarrow> Some (cb_data bp));
        d2 \<leftarrow> (case data of Some src \<Rightarrow>
                if n2 \<noteq> 0 then copy_bytes d1 0 src (unat n1) (unat n2) else Some d1 | None \<Rightarrow> Some d1);
        Some (n, bp\<lparr>cb_data := d2, cb_in := cb_in bp + ucast n\<rparr>)
      })"

definition buff_inb :: "CBUFF \<Rightarrow> byte \<Rightarrow> (byte \<times> CBUFF) option" where
  "buff_inb bp b =
     (let inp = ucast (cb_in bp) AND (cb_len bp - 1)
      in do {
        d \<leftarrow> store (cb_data bp) (unat inp) b;
        Some (1, bp\<lparr>cb_data := d, cb_in := cb_in bp + 1\<rparr>)
      })"

text \<open>The standard library's \<open>strlen\<close> on an object; \<^term>\<open>None\<close> when it has no terminator.\<close>

definition c_strlen :: "byte list \<Rightarrow> nat option" where
  "c_strlen str = (if 0 \<in> set str then Some (length (takeWhile (\<lambda>b. b \<noteq> 0) str)) else None)"

definition buff_instr :: "CBUFF \<Rightarrow> byte list \<Rightarrow> (u16 \<times> CBUFF) option" where
  "buff_instr bp str = do { n \<leftarrow> c_strlen str; buff_in bp (Some str) (of_nat n) }"

text \<open>
  Copying out of the ring from masked position \<open>pos\<close>, as \<open>buff_try\<close> and \<open>buff_out\<close> both do; the
  result is the destination object (\<^term>\<open>None\<close> inside for a null pointer).
\<close>

definition copy_out :: "CBUFF \<Rightarrow> u16 \<Rightarrow> u16 \<Rightarrow> byte list option \<Rightarrow> byte list option option" where
  "copy_out bp pos n data =
     (let n1 = minw n (cb_len bp - pos);
          n2 = n - n1
      in case data of None \<Rightarrow> Some None
         | Some dst \<Rightarrow> do {
             e1 \<leftarrow> (if n1 \<noteq> 0 then copy_bytes dst 0 (cb_data bp) (unat pos) (unat n1) else Some dst);
             e2 \<leftarrow> (if n2 \<noteq> 0 then copy_bytes e1 (unat n1) (cb_data bp) 0 (unat n2) else Some e1);
             Some (Some e2)
           })"

definition buff_try ::
  "CBUFF \<Rightarrow> byte list option \<Rightarrow> u16 \<Rightarrow> (u16 \<times> byte list option \<times> CBUFF) option" where
  "buff_try bp data maxlen =
     (let trial = ucast (cb_trial bp) AND (cb_len bp - 1);
          n = minw maxlen (buff_untriedlen bp)
      in do {
        e \<leftarrow> copy_out bp trial n data;
        Some (n, e, bp\<lparr>cb_trial := cb_trial bp + ucast n\<rparr>)
      })"

definition buff_out ::
  "CBUFF \<Rightarrow> byte list option \<Rightarrow> u16 \<Rightarrow> (u16 \<times> byte list option \<times> CBUFF) option" where
  "buff_out bp data maxlen =
     (let outp = ucast (cb_out bp) AND (cb_len bp - 1);
          n = minw maxlen (buff_dlen bp)
      in do {
        e \<leftarrow> copy_out bp outp n data;
        let bp1 = bp\<lparr>cb_out := cb_out bp + ucast n\<rparr>;
        Some (n, e, if buff_untriedlen bp1 \<noteq> 0 then bp1\<lparr>cb_trial := cb_out bp1\<rparr> else bp1)
      })"

definition buff_outb :: "CBUFF \<Rightarrow> (byte \<times> byte \<times> CBUFF) option" where
  "buff_outb bp =
     (let outp = ucast (cb_out bp) AND (cb_len bp - 1)
      in do {
        b \<leftarrow> load (cb_data bp) (unat outp);
        Some (1, b, bp\<lparr>cb_out := cb_out bp + 1\<rparr>)
      })"

definition buff_retry :: "CBUFF \<Rightarrow> u16 \<Rightarrow> u16 \<times> CBUFF" where
  "buff_retry bp len =
     (let l = minw len (buff_trylen bp) in (l, bp\<lparr>cb_trial := cb_trial bp - ucast l\<rparr>))"

text \<open>
  The demonstration program of cycle_buff/app.c: what it prints, for the indeterminate value \<open>tmp\<close>
  its uninitialised variable holds.
\<close>

datatype app_line = Cbuff_test_start | Put_1_byte_a | Cbuff_size u16 | Out_1_byte byte

definition app_main :: "CBUFF \<Rightarrow> byte \<Rightarrow> (app_line list \<times> byte \<times> CBUFF) option" where
  "app_main cbuff tmp =
     (let c0 = buff_init (\<lambda>_. cbuff) 0 0 0 0
      in do {
        (r1, c1) \<leftarrow> buff_inb c0 97;
        (r2, tmp', c2) \<leftarrow> buff_outb c1;
        Some ([Cbuff_test_start, Put_1_byte_a, Cbuff_size (buff_dlen c1), Out_1_byte tmp,
               Cbuff_size (buff_dlen c2)], tmp', c2)
      })"

section \<open>Invariant and abstraction\<close>

text \<open>
  The buffer is initialised, the stored bytes fit with one slot to spare, and the trial pointer
  lies between \<open>out\<close> and \<open>in\<close>. The counters themselves may wrap around at any point.
\<close>

definition cb_wf :: "CBUFF \<Rightarrow> bool" where
  "cb_wf bp \<longleftrightarrow> cb_len bp = of_nat CBUFFLEN \<and> length (cb_data bp) = CBUFFLEN
     \<and> unat (cb_in bp - cb_out bp) < CBUFFLEN
     \<and> unat (cb_trial bp - cb_out bp) \<le> unat (cb_in bp - cb_out bp)"

definition cb_contents :: "CBUFF \<Rightarrow> byte list" where
  "cb_contents bp =
     map (\<lambda>i. cb_data bp ! ((unat (cb_out bp) + i) mod CBUFFLEN)) [0..<unat (cb_in bp - cb_out bp)]"

lemma length_cb_contents [simp]: "length (cb_contents bp) = unat (cb_in bp - cb_out bp)"
  by (simp add: cb_contents_def)

lemma cb_wfD:
  assumes "cb_wf bp"
  shows "cb_len bp = 1024" and "length (cb_data bp) = 1024"
    and "unat (cb_in bp - cb_out bp) < 1024"
    and "unat (cb_trial bp - cb_out bp) \<le> unat (cb_in bp - cb_out bp)"
    and "len_mask bp = 1023"
  using assms by (simp_all add: cb_wf_def CBUFFLEN_def len_mask_def)

lemma unat_minw [unat_simps]: "unat (minw a b) = min (unat a) (unat b)"
  by (simp add: minw_def word_less_nat_alt min_def)

lemma minw_zero [simp]: "minw 0 x = 0" "minw x 0 = 0"
  by (simp_all add: minw_def word_gt_0)

lemma unat_diff_chain:
  fixes a b c :: u32
  assumes "unat (b - a) \<le> unat (c - a)"
  shows "unat (c - b) = unat (c - a) - unat (b - a)"
proof -
  have "c - b = (c - a) - (b - a)" by simp
  then show ?thesis using assms by (simp only: unat_sub word_le_nat_alt)
qed

text \<open>The four length queries are the lengths of the abstract parts.\<close>

lemma unat_dlen:
  assumes "cb_wf bp" shows "unat (buff_dlen bp) = length (cb_contents bp)"
  using cb_wfD [OF assms] by (simp add: buff_dlen_def unat_simps)

lemma unat_trylen:
  assumes "cb_wf bp" shows "unat (buff_trylen bp) = unat (cb_trial bp - cb_out bp)"
  using cb_wfD [OF assms] by (simp add: buff_trylen_def unat_simps)

lemma unat_untriedlen:
  assumes "cb_wf bp"
  shows "unat (buff_untriedlen bp) = length (cb_contents bp) - unat (cb_trial bp - cb_out bp)"
  using cb_wfD [OF assms] unat_diff_chain [of "cb_trial bp" "cb_out bp" "cb_in bp"]
  by (simp add: buff_untriedlen_def unat_simps)

lemma unat_freelen:
  assumes "cb_wf bp" shows "unat (buff_freelen bp) = 1023 - length (cb_contents bp)"
proof -
  have d: "unat (buff_dlen bp) = length (cb_contents bp)" "length (cb_contents bp) < 1024"
    using unat_dlen [OF assms] cb_wfD [OF assms] by simp_all
  then have "buff_dlen bp \<le> 1023" by (simp add: word_le_nat_alt)
  then show ?thesis using d cb_wfD(1) [OF assms] by (simp add: buff_freelen_def unat_sub)
qed

lemma unat_ring_pos:
  assumes "cb_wf bp"
  shows "unat ((ucast (x :: u32) :: u16) AND (cb_len bp - 1)) = unat x mod 1024"
proof -
  have "unat x mod 65536 mod 1024 = unat x mod 1024" by (rule mod_mod_cancel) simp
  then show ?thesis using cb_wfD(1) [OF assms] by (simp add: unat_simps)
qed

lemma unat_counter_pos:
  "unat ((x :: u32) + y) mod 1024 = (unat x + unat y) mod 1024"
  by (simp add: unat_add_u32 mod_mod_cancel)

section \<open>Copying into and out of the ring\<close>

lemma ring_copy_in:
  assumes len: "length d = 1024" and pos: "pos < 1024" and n: "n \<le> 1024" "n \<le> length src"
  defines "n1 \<equiv> min n (1024 - pos)"
  shows "\<exists>d1 d2. copy_bytes d pos src 0 n1 = Some d1 \<and> copy_bytes d1 0 src n1 (n - n1) = Some d2
     \<and> length d2 = 1024
     \<and> (\<forall>k < 1024. d2 ! ((pos + k) mod 1024) = (if k < n then src ! k else d ! ((pos + k) mod 1024)))"
proof -
  have b: "pos + n1 \<le> 1024" "n1 \<le> n" using pos by (simp_all add: n1_def)
  obtain d1 where d1: "copy_bytes d pos src 0 n1 = Some d1"
    using b len n by (simp add: copy_bytes_Some)
  then have l1: "length d1 = 1024" using len length_copy_bytes by fastforce
  obtain d2 where d2: "copy_bytes d1 0 src n1 (n - n1) = Some d2"
    using b n l1 by (simp add: copy_bytes_Some)
  then have l2: "length d2 = 1024" using l1 length_copy_bytes by fastforce
  have "d2 ! ((pos + k) mod 1024) = (if k < n then src ! k else d ! ((pos + k) mod 1024))"
    if "k < 1024" for k
  proof -
    let ?j = "(pos + k) mod 1024"
    have "d2 ! ?j = (if ?j < n - n1 then src ! (n1 + ?j) else d1 ! ?j)"
      and "d1 ! ?j = (if pos \<le> ?j \<and> ?j < pos + n1 then src ! (?j - pos) else d ! ?j)"
      using nth_copy_bytes [OF d1, of ?j] nth_copy_bytes [OF d2, of ?j] len l1 by simp_all
    then show ?thesis
      using pos n that unfolding n1_def ring_pos_cases [OF pos that] by (auto simp: min_def)
  qed
  then show ?thesis using d1 d2 l2 by blast
qed

lemma ring_copy_out:
  assumes len: "length d = 1024" and pos: "pos < 1024" and n: "n \<le> 1024" "n \<le> length dst"
  defines "n1 \<equiv> min n (1024 - pos)"
  shows "\<exists>e1. copy_bytes dst 0 d pos n1 = Some e1
     \<and> copy_bytes e1 n1 d 0 (n - n1)
         = Some (map (\<lambda>i. d ! ((pos + i) mod 1024)) [0..<n] @ drop n dst)"
proof -
  have b: "pos + n1 \<le> 1024" "n1 \<le> n" using pos by (simp_all add: n1_def)
  obtain e1 where e1: "copy_bytes dst 0 d pos n1 = Some e1"
    using b len n by (simp add: copy_bytes_Some)
  then have l1: "length e1 = length dst" using length_copy_bytes by fastforce
  obtain e2 where e2: "copy_bytes e1 n1 d 0 (n - n1) = Some e2"
    using b n len l1 by (simp add: copy_bytes_Some)
  then have l2: "length e2 = length dst" using l1 length_copy_bytes by fastforce
  have "e2 = map (\<lambda>i. d ! ((pos + i) mod 1024)) [0..<n] @ drop n dst"
  proof (rule nth_equalityI)
    fix i assume i: "i < length e2"
    have "e2 ! i = (if n1 \<le> i \<and> i < n1 + (n - n1) then d ! (i - n1) else e1 ! i)"
      and "e1 ! i = (if i < n1 then d ! (pos + i) else dst ! i)"
      using nth_copy_bytes [OF e1, of i] nth_copy_bytes [OF e2, of i] i l1 l2 by simp_all
    then show "e2 ! i = (map (\<lambda>i. d ! ((pos + i) mod 1024)) [0..<n] @ drop n dst) ! i"
      using pos n i l2 ring_pos_cases [OF pos, of i] unfolding n1_def
      by (auto simp: nth_append min_def add.commute)
  qed (use l2 n in simp)
  then show ?thesis using e1 e2 by blast
qed

lemma copy_out_ring:
  assumes wf: "cb_wf bp" and n: "unat n \<le> 1024" "unat n \<le> length dst" and pos: "unat pos < 1024"
  shows "copy_out bp pos n (Some dst) =
     Some (Some (map (\<lambda>i. cb_data bp ! ((unat pos + i) mod 1024)) [0..<unat n] @ drop (unat n) dst))"
proof -
  let ?n1 = "minw n (cb_len bp - pos)"
  have "pos \<le> 1024" using pos by (simp add: word_le_nat_alt)
  then have n1: "unat ?n1 = min (unat n) (1024 - unat pos)"
    using cb_wfD(1) [OF wf] by (simp add: unat_simps unat_sub)
  moreover from this have "?n1 \<le> n" by (simp add: word_le_nat_alt)
  then have n2: "unat (n - ?n1) = unat n - unat ?n1" by (simp add: unat_sub)
  obtain e1 where e1: "copy_bytes dst 0 (cb_data bp) (unat pos) (unat ?n1) = Some e1"
    and e2: "copy_bytes e1 (unat ?n1) (cb_data bp) 0 (unat (n - ?n1))
      = Some (map (\<lambda>i. cb_data bp ! ((unat pos + i) mod 1024)) [0..<unat n] @ drop (unat n) dst)"
    using ring_copy_out [OF cb_wfD(2) [OF wf] pos n] unfolding n1 n2 by blast
  have "(if ?n1 \<noteq> 0 then copy_bytes dst 0 (cb_data bp) (unat pos) (unat ?n1) else Some dst) = Some e1"
    using e1 by (auto simp: copy_bytes_def split: if_splits)
  moreover have "(if n - ?n1 \<noteq> 0 then copy_bytes e1 (unat ?n1) (cb_data bp) 0 (unat (n - ?n1))
      else Some e1) = copy_bytes e1 (unat ?n1) (cb_data bp) 0 (unat (n - ?n1))"
    using e2 by (auto simp: copy_bytes_def split: if_splits)
  ultimately show ?thesis using e2 by (simp add: copy_out_def Let_def)
qed

section \<open>What each operation does to the stored bytes\<close>

lemma cb_contents_nth:
  assumes "i < length (cb_contents bp)"
  shows "cb_contents bp ! i = cb_data bp ! ((unat (cb_out bp) + i) mod 1024)"
  using assms by (simp add: cb_contents_def CBUFFLEN_def)

text \<open>The masked \<open>in\<close>, \<open>trial\<close> positions, relative to \<open>out\<close>.\<close>

lemma counter_pos_rel:
  "unat (x :: u32) mod 1024 = (unat (o' :: u32) + unat (x - o')) mod 1024"
proof -
  have "x = o' + (x - o')" by simp
  then show ?thesis using unat_counter_pos [of o' "x - o'"] by simp
qed

lemma advance_in:
  assumes "unat (i - o') + unat (n :: u16) < 1024"
  shows "unat ((i :: u32) + ucast n - o') = unat (i - o') + unat n"
proof -
  define d where "d = i - o'"
  then have e: "i + ucast n - o' = d + ucast n" by simp
  show ?thesis unfolding e using assms by (simp add: unat_add_u32 unat_simps flip: d_def)
qed

lemma advance_out:
  assumes "unat (n :: u16) \<le> unat (i - o')"
  shows "unat ((i :: u32) - (o' + ucast n)) = unat (i - o') - unat n"
proof -
  define d where "d = i - o'"
  then have e: "i - (o' + ucast n) = d - ucast n" by simp
  have "(ucast n :: u32) \<le> d"
    using assms by (simp add: word_le_nat_alt unat_simps d_def)
  then show ?thesis unfolding e by (simp add: unat_sub unat_simps flip: d_def)
qed

lemma cb_contents_extend:
  fixes n :: u16
  assumes wf: "cb_wf bp" and fits: "length (cb_contents bp) + unat n < 1024"
    and n: "unat n \<le> length src"
    and d: "\<And>k. k < 1024 \<Longrightarrow> d ! ((unat (cb_out bp) + length (cb_contents bp) + k) mod 1024)
        = (if k < unat n then src ! k
           else cb_data bp ! ((unat (cb_out bp) + length (cb_contents bp) + k) mod 1024))"
  shows "cb_contents (bp\<lparr>cb_data := d, cb_in := cb_in bp + ucast n\<rparr>)
     = cb_contents bp @ take (unat n) src"
proof (rule nth_equalityI)
  let ?bp' = "bp\<lparr>cb_data := d, cb_in := cb_in bp + ucast n\<rparr>"
  let ?used = "length (cb_contents bp)"
  have used': "unat (cb_in ?bp' - cb_out ?bp') = ?used + unat n"
    using advance_in [of "cb_in bp" "cb_out bp" n] fits by simp
  then show "length (cb_contents ?bp') = length (cb_contents bp @ take (unat n) src)"
    using n by simp
  fix i assume "i < length (cb_contents ?bp')"
  then have i: "i < ?used + unat n" by (simp only: length_cb_contents used')
  define k where "k = (i + 1024 - ?used) mod 1024"
  have k: "k = (if i < ?used then i + 1024 - ?used else i - ?used)"
    using i fits by (simp add: k_def mod_if)
  have "(unat (cb_out bp) + ?used + k) mod 1024
      = (unat (cb_out bp) + ?used + (i + 1024 - ?used)) mod 1024"
    unfolding k_def by (simp only: mod_add_right_eq)
  also have "unat (cb_out bp) + ?used + (i + 1024 - ?used) = unat (cb_out bp) + i + 1024"
    using fits by simp
  finally have pk: "(unat (cb_out bp) + ?used + k) mod 1024 = (unat (cb_out bp) + i) mod 1024"
    by simp
  have "cb_contents ?bp' ! i = d ! ((unat (cb_out bp) + ?used + k) mod 1024)"
    using i used' by (simp only: pk) (simp add: cb_contents_nth)
  also have "\<dots> = (if k < unat n then src ! k else cb_data bp ! ((unat (cb_out bp) + i) mod 1024))"
    using d [of k] by (simp only: pk) (simp add: k_def)
  also have "\<dots> = (cb_contents bp @ take (unat n) src) ! i"
    using i fits k by (auto simp: nth_append cb_contents_nth)
  finally show "cb_contents ?bp' ! i = (cb_contents bp @ take (unat n) src) ! i" .
qed

lemma buff_in_copies:
  assumes wf: "cb_wf bp" and len: "unat len \<le> length src"
  defines "n \<equiv> minw len (buff_freelen bp)"
  shows "\<exists>d. buff_in bp (Some src) len = Some (n, bp\<lparr>cb_data := d, cb_in := cb_in bp + ucast n\<rparr>)
     \<and> length d = 1024
     \<and> (\<forall>k < 1024. d ! ((unat (cb_out bp) + length (cb_contents bp) + k) mod 1024)
          = (if k < unat n then src ! k
             else cb_data bp ! ((unat (cb_out bp) + length (cb_contents bp) + k) mod 1024)))"
proof -
  let ?inp = "ucast (cb_in bp) AND (cb_len bp - 1) :: u16"
  let ?n1 = "minw n (cb_len bp - ?inp)"
  have pos: "unat ?inp = (unat (cb_out bp) + length (cb_contents bp)) mod 1024"
    using unat_ring_pos [OF wf, of "cb_in bp"] counter_pos_rel [of "cb_in bp" "cb_out bp"] by simp
  have n: "unat n \<le> 1024" "unat n \<le> length src"
    using len by (simp_all add: n_def unat_simps unat_freelen [OF wf])
  have n1: "unat ?n1 = min (unat n) (1024 - unat ?inp)"
    using cb_wfD(1) [OF wf] pos by (simp add: unat_simps unat_sub word_le_nat_alt)
  then have "?n1 \<le> n" by (simp add: word_le_nat_alt)
  then have n2: "unat (n - ?n1) = unat n - unat ?n1" by (simp add: unat_sub)
  have "unat ?inp < 1024" using pos by simp
  from ring_copy_in [OF cb_wfD(2) [OF wf] this n] obtain d1 d where
    d1: "copy_bytes (cb_data bp) (unat ?inp) src 0 (unat ?n1) = Some d1"
    and d: "copy_bytes d1 0 src (unat ?n1) (unat (n - ?n1)) = Some d" "length d = 1024"
    and dk: "\<And>k. k < 1024 \<Longrightarrow> d ! ((unat ?inp + k) mod 1024)
        = (if k < unat n then src ! k else cb_data bp ! ((unat ?inp + k) mod 1024))"
    unfolding n1 n2 by blast
  have "(if ?n1 \<noteq> 0 then copy_bytes (cb_data bp) (unat ?inp) src 0 (unat ?n1)
      else Some (cb_data bp)) = Some d1"
    using d1 by (auto simp: copy_bytes_def split: if_splits)
  moreover have "(if n - ?n1 \<noteq> 0 then copy_bytes d1 0 src (unat ?n1) (unat (n - ?n1))
      else Some d1) = Some d"
    using d by (auto simp: copy_bytes_def split: if_splits)
  ultimately have "buff_in bp (Some src) len = Some (n, bp\<lparr>cb_data := d, cb_in := cb_in bp + ucast n\<rparr>)"
    unfolding buff_in_def Let_def n_def [symmetric] by simp
  then show ?thesis using d(2) dk unfolding pos mod_add_left_eq by blast
qed

lemma buff_in_spec:
  assumes wf: "cb_wf bp" and len: "unat len \<le> length src"
  shows "\<exists>n bp'. buff_in bp (Some src) len = Some (n, bp')
     \<and> unat n = min (unat len) (1023 - length (cb_contents bp)) \<and> cb_wf bp'
     \<and> cb_contents bp' = cb_contents bp @ take (unat n) src
     \<and> cb_out bp' = cb_out bp \<and> cb_trial bp' = cb_trial bp"
proof -
  define n where "n = minw len (buff_freelen bp)"
  from buff_in_copies [OF assms] obtain d where
    eq: "buff_in bp (Some src) len = Some (n, bp\<lparr>cb_data := d, cb_in := cb_in bp + ucast n\<rparr>)"
    and d: "length d = 1024"
      "\<And>k. k < 1024 \<Longrightarrow> d ! ((unat (cb_out bp) + length (cb_contents bp) + k) mod 1024)
        = (if k < unat n then src ! k
           else cb_data bp ! ((unat (cb_out bp) + length (cb_contents bp) + k) mod 1024))"
    unfolding n_def by blast
  have n: "unat n = min (unat len) (1023 - length (cb_contents bp))"
    by (simp add: n_def unat_simps unat_freelen [OF wf])
  then have fits: "length (cb_contents bp) + unat n < 1024" and "unat n \<le> length src"
    using cb_wfD(3) [OF wf] len by simp_all
  note ext = cb_contents_extend [OF wf this d(2)]
  have "cb_wf (bp\<lparr>cb_data := d, cb_in := cb_in bp + ucast n\<rparr>)"
    using wf d(1) fits advance_in [of "cb_in bp" "cb_out bp" n] by (simp add: cb_wf_def CBUFFLEN_def)
  then show ?thesis using eq n ext by simp
qed

lemma contents_segment:
  assumes "j + k \<le> length (cb_contents bp)"
  shows "map (\<lambda>i. cb_data bp ! ((unat (cb_out bp) + j + i) mod 1024)) [0..<k]
     = take k (drop j (cb_contents bp))"
  using assms by (intro nth_equalityI) (simp_all add: cb_contents_nth ac_simps)

lemma buff_try_spec:
  assumes wf: "cb_wf bp" and dst: "unat maxlen \<le> length dst"
  shows "\<exists>n bp'. buff_try bp (Some dst) maxlen =
        Some (n, Some (take (unat n) (drop (unat (buff_trylen bp)) (cb_contents bp)) @ drop (unat n) dst), bp')
     \<and> unat n = min (unat maxlen) (unat (buff_untriedlen bp)) \<and> cb_wf bp'
     \<and> cb_contents bp' = cb_contents bp
     \<and> unat (buff_trylen bp') = unat (buff_trylen bp) + unat n"
proof -
  note w = cb_wfD [OF wf]
  let ?t = "unat (cb_trial bp - cb_out bp)"
  define pos where "pos = (ucast (cb_trial bp) AND (cb_len bp - 1) :: u16)"
  define n where "n = minw maxlen (buff_untriedlen bp)"
  let ?bp' = "bp\<lparr>cb_trial := cb_trial bp + ucast n\<rparr>"
  have n: "unat n = min (unat maxlen) (unat (buff_untriedlen bp))" by (simp add: n_def unat_simps)
  have fits: "?t + unat n \<le> length (cb_contents bp)"
    using n w(4) unat_untriedlen [OF wf] by simp
  have pos: "unat pos = (unat (cb_out bp) + ?t) mod 1024"
    using unat_ring_pos [OF wf] counter_pos_rel [of "cb_trial bp" "cb_out bp"] by (simp add: pos_def)
  have "copy_out bp pos n (Some dst) =
      Some (Some (map (\<lambda>i. cb_data bp ! ((unat pos + i) mod 1024)) [0..<unat n] @ drop (unat n) dst))"
    by (rule copy_out_ring [OF wf]) (use fits w(3) n dst pos in simp_all)
  also have "map (\<lambda>i. cb_data bp ! ((unat pos + i) mod 1024)) [0..<unat n]
      = take (unat n) (drop ?t (cb_contents bp))"
    unfolding pos mod_add_left_eq by (rule contents_segment [OF fits])
  finally have eq: "buff_try bp (Some dst) maxlen =
      Some (n, Some (take (unat n) (drop ?t (cb_contents bp)) @ drop (unat n) dst), ?bp')"
    unfolding buff_try_def Let_def n_def [symmetric] pos_def [symmetric] by simp
  have t': "unat (cb_trial ?bp' - cb_out ?bp') = ?t + unat n"
    using advance_in [of "cb_trial bp" "cb_out bp" n] fits w(3) by simp
  then have wf': "cb_wf ?bp'" using wf fits by (simp add: cb_wf_def)
  show ?thesis
    using eq n wf' t' by (simp add: unat_trylen [OF wf] unat_trylen [OF wf'] cb_contents_def)
qed

lemma buff_retry_spec:
  assumes wf: "cb_wf bp" and r: "buff_retry bp len = (l, bp')"
  shows "unat l = min (unat len) (unat (buff_trylen bp))" and "cb_wf bp'"
    and "cb_contents bp' = cb_contents bp"
    and "unat (buff_trylen bp') = unat (buff_trylen bp) - unat l"
proof -
  from r have l: "l = minw len (buff_trylen bp)" and bp': "bp' = bp\<lparr>cb_trial := cb_trial bp - ucast l\<rparr>"
    by (auto simp: buff_retry_def Let_def)
  show min: "unat l = min (unat len) (unat (buff_trylen bp))" by (simp add: l unat_simps)
  let ?t = "cb_trial bp - cb_out bp"
  have e: "cb_trial bp - ucast l - cb_out bp = cb_trial bp - (cb_out bp + ucast l)"
    by (simp add: algebra_simps)
  have le: "unat l \<le> unat ?t" using min unat_trylen [OF wf] by simp
  then have t': "unat (cb_trial bp' - cb_out bp') = unat ?t - unat l"
    by (simp add: bp' e advance_out)
  then show wf': "cb_wf bp'" using wf by (auto simp: bp' cb_wf_def)
  show "cb_contents bp' = cb_contents bp" by (simp add: bp' cb_contents_def)
  show "unat (buff_trylen bp') = unat (buff_trylen bp) - unat l"
    using t' by (simp add: unat_trylen [OF wf] unat_trylen [OF wf'])
qed

lemma cb_contents_advance:
  fixes n :: u16
  assumes n: "unat n \<le> length (cb_contents bp)"
    and bp': "cb_data bp' = cb_data bp" "cb_in bp' = cb_in bp" "cb_out bp' = cb_out bp + ucast n"
  shows "cb_contents bp' = drop (unat n) (cb_contents bp)"
proof (rule nth_equalityI)
  show len: "length (cb_contents bp') = length (drop (unat n) (cb_contents bp))"
    using n by (simp add: bp' advance_out)
  fix i assume i: "i < length (cb_contents bp')"
  have "unat (cb_out bp + ucast n) mod 1024 = (unat (cb_out bp) + unat n) mod 1024"
    by (simp add: unat_counter_pos unat_simps)
  then have "(unat (cb_out bp + ucast n) + i) mod 1024 = (unat (cb_out bp) + unat n + i) mod 1024"
    by (rule mod_add_cong) simp
  then have "(unat (cb_out bp + ucast n) + i) mod 1024 = (unat (cb_out bp) + (unat n + i)) mod 1024"
    by (simp only: add.assoc)
  then show "cb_contents bp' ! i = drop (unat n) (cb_contents bp) ! i"
    using i len by (simp add: cb_contents_nth bp' del: length_cb_contents)
qed

lemma buff_out_spec:
  assumes wf: "cb_wf bp" and dst: "unat maxlen \<le> length dst"
  shows "\<exists>n bp'. buff_out bp (Some dst) maxlen =
        Some (n, Some (take (unat n) (cb_contents bp) @ drop (unat n) dst), bp')
     \<and> unat n = min (unat maxlen) (length (cb_contents bp)) \<and> cb_wf bp'
     \<and> cb_contents bp' = drop (unat n) (cb_contents bp)
     \<and> buff_trylen bp' = (if buff_untriedlen bp = 0 then buff_trylen bp - n else 0)"
proof -
  note w = cb_wfD [OF wf]
  define pos where "pos = (ucast (cb_out bp) AND (cb_len bp - 1) :: u16)"
  define n where "n = minw maxlen (buff_dlen bp)"
  let ?bp1 = "bp\<lparr>cb_out := cb_out bp + ucast n\<rparr>"
  let ?bp' = "if buff_untriedlen ?bp1 \<noteq> 0 then ?bp1\<lparr>cb_trial := cb_out ?bp1\<rparr> else ?bp1"
  have n: "unat n = min (unat maxlen) (length (cb_contents bp))"
    by (simp add: n_def unat_simps unat_dlen [OF wf])
  then have fits: "0 + unat n \<le> length (cb_contents bp)" by simp
  have pos: "unat pos = unat (cb_out bp) mod 1024"
    using unat_ring_pos [OF wf] by (simp add: pos_def)
  have "copy_out bp pos n (Some dst) =
      Some (Some (map (\<lambda>i. cb_data bp ! ((unat pos + i) mod 1024)) [0..<unat n] @ drop (unat n) dst))"
    by (rule copy_out_ring [OF wf]) (use fits w(3) n dst pos in simp_all)
  also have "map (\<lambda>i. cb_data bp ! ((unat pos + i) mod 1024)) [0..<unat n] = take (unat n) (cb_contents bp)"
    using contents_segment [OF fits] unfolding pos mod_add_left_eq by simp
  finally have eq: "buff_out bp (Some dst) maxlen =
      Some (n, Some (take (unat n) (cb_contents bp) @ drop (unat n) dst), ?bp')"
    unfolding buff_out_def Let_def n_def [symmetric] pos_def [symmetric] by simp
  have u: "buff_untriedlen ?bp1 = buff_untriedlen bp"
    by (simp add: buff_untriedlen_def len_mask_def)
  have c': "cb_contents ?bp' = drop (unat n) (cb_contents bp)"
    by (rule cb_contents_advance) (use fits in simp_all)
  have d': "unat (cb_in bp - (cb_out bp + ucast n)) = unat (cb_in bp - cb_out bp) - unat n"
    using fits by (simp add: advance_out)
  have "cb_wf ?bp' \<and> buff_trylen ?bp' = (if buff_untriedlen bp = 0 then buff_trylen bp - n else 0)"
  proof (cases "buff_untriedlen bp = 0")
    case True
    then have t: "unat (cb_trial bp - cb_out bp) = unat (cb_in bp - cb_out bp)"
      using unat_untriedlen [OF wf] w(4) by simp
    then have t': "unat (cb_trial bp - (cb_out bp + ucast n)) = unat (cb_trial bp - cb_out bp) - unat n"
      using fits by (simp add: advance_out)
    then have wf': "cb_wf ?bp1" using wf d' t by (simp add: cb_wf_def less_imp_diff_less)
    have le: "n \<le> buff_trylen bp" using fits t by (simp add: word_le_nat_alt unat_trylen [OF wf])
    have "unat (buff_trylen ?bp1) = unat (buff_trylen bp - n)"
      using t' by (simp add: unat_sub [OF le] unat_trylen [OF wf] unat_trylen [OF wf'])
    then have "buff_trylen ?bp1 = buff_trylen bp - n" by (simp only: word_unat_eq_iff)
    then show ?thesis using True u wf' by simp
  next
    case False
    then show ?thesis using u wf d' by (simp add: cb_wf_def buff_trylen_def less_imp_diff_less)
  qed
  then show ?thesis using eq n c' by blast
qed

section \<open>The buffer as a bounded queue\<close>

text \<open>Calls of \<open>buff_in\<close> and \<open>buff_out\<close> with a whole block and with a fresh destination of the size
  asked for.\<close>

definition cb_put :: "CBUFF \<Rightarrow> byte list \<Rightarrow> (nat \<times> CBUFF) option" where
  "cb_put bp xs = map_option (\<lambda>(n, bp'). (unat n, bp')) (buff_in bp (Some xs) (of_nat (length xs)))"

definition cb_get :: "CBUFF \<Rightarrow> nat \<Rightarrow> (byte list \<times> CBUFF) option" where
  "cb_get bp k =
     (case buff_out bp (Some (replicate k 0)) (of_nat k) of
        Some (n, Some dst, bp') \<Rightarrow> Some (take (unat n) dst, bp')
      | _ \<Rightarrow> None)"

lemma unat_of_nat_u16: "n \<le> 65535 \<Longrightarrow> unat (of_nat n :: u16) = n"
  by (simp add: unat_of_nat)

interpretation cbq: bounded_queue cb_wf cb_contents cb_get 65535 cb_put 1023
proof
  fix s :: CBUFF and k :: nat
  assume wf: "cb_wf s" and k: "k \<le> 65535"
  have "unat (of_nat k :: u16) \<le> length (replicate k (0 :: byte))"
    using k by (simp add: unat_of_nat_u16)
  from buff_out_spec [OF wf this] obtain n bp' where
    o': "buff_out s (Some (replicate k 0)) (of_nat k) =
        Some (n, Some (take (unat n) (cb_contents s) @ drop (unat n) (replicate k 0)), bp')"
    and n: "unat n = min k (length (cb_contents s))" and "cb_wf bp'"
    and "cb_contents bp' = drop (unat n) (cb_contents s)"
    unfolding unat_of_nat_u16 [OF k] by blast
  moreover have "take (unat n) (cb_contents s) = take k (cb_contents s)"
    and "drop (unat n) (cb_contents s) = drop k (cb_contents s)"
    unfolding n by (simp_all add: min_def)
  ultimately show "\<exists>s'. cb_get s k = Some (take k (cb_contents s), s') \<and> cb_wf s'
      \<and> cb_contents s' = drop k (cb_contents s)"
    using n by (simp add: cb_get_def)
next
  fix s :: CBUFF and xs :: "byte list"
  assume wf: "cb_wf s" and l: "length xs \<le> 65535"
  have "unat (of_nat (length xs) :: u16) \<le> length xs" using l by (simp add: unat_of_nat_u16)
  from buff_in_spec [OF wf this] obtain n bp' where
    "buff_in s (Some xs) (of_nat (length xs)) = Some (n, bp')"
    and n: "unat n = min (length xs) (1023 - length (cb_contents s))" and "cb_wf bp'"
    and "cb_contents bp' = cb_contents s @ take (unat n) xs"
    unfolding unat_of_nat_u16 [OF l] by blast
  moreover have "take (unat n) xs = take (1023 - length (cb_contents s)) xs"
    unfolding n by (simp add: min_def)
  ultimately show "\<exists>s'. cb_put s xs = Some (min (length xs) (1023 - length (cb_contents s)), s')
      \<and> cb_wf s' \<and> cb_contents s' = cb_contents s @ take (1023 - length (cb_contents s)) xs"
    by (simp add: cb_put_def)
next
  fix s :: CBUFF
  assume "cb_wf s"
  from cb_wfD(3) [OF this] show "length (cb_contents s) \<le> 1023" by simp
qed

lemma buff_inb_spec:
  assumes wf: "cb_wf bp"
  shows "\<exists>bp'. buff_inb bp b = Some (1, bp')
     \<and> (length (cb_contents bp) < 1023 \<longrightarrow> cb_wf bp' \<and> cb_contents bp' = cb_contents bp @ [b])
     \<and> (length (cb_contents bp) = 1023 \<longrightarrow> buff_dlen bp' = 0)"
proof -
  note w = cb_wfD [OF wf]
  let ?p = "(unat (cb_out bp) + length (cb_contents bp)) mod 1024"
  let ?bp' = "bp\<lparr>cb_data := (cb_data bp)[?p := b], cb_in := cb_in bp + 1\<rparr>"
  have "unat (ucast (cb_in bp) AND (cb_len bp - 1) :: u16) = ?p"
    using unat_ring_pos [OF wf, of "cb_in bp"] counter_pos_rel [of "cb_in bp" "cb_out bp"] by simp
  then have eq: "buff_inb bp b = Some (1, ?bp')"
    by (simp add: buff_inb_def Let_def store_Some w(2))
  have "cb_wf ?bp' \<and> cb_contents ?bp' = cb_contents bp @ [b]" if room: "length (cb_contents bp) < 1023"
  proof -
    have in1: "cb_in bp + 1 = cb_in bp + ucast (1 :: u16)" by simp
    have fits: "length (cb_contents bp) + unat (1 :: u16) < 1024" using room by simp
    have "cb_contents ?bp' = cb_contents bp @ take (unat (1 :: u16)) [b]"
      unfolding in1
    proof (rule cb_contents_extend [OF wf fits])
      fix k :: nat assume "k < 1024"
      then show "(cb_data bp)[?p := b] ! ((unat (cb_out bp) + length (cb_contents bp) + k) mod 1024)
          = (if k < unat (1 :: u16) then [b] ! k
             else cb_data bp ! ((unat (cb_out bp) + length (cb_contents bp) + k) mod 1024))"
        using ring_pos_inj [of 0 1024 k "unat (cb_out bp) + length (cb_contents bp)"] w(2)
        by (simp add: nth_list_update)
    qed simp
    moreover have "cb_wf ?bp'"
      using wf fits advance_in [of "cb_in bp" "cb_out bp" 1] by (simp add: cb_wf_def CBUFFLEN_def)
    ultimately show ?thesis by simp
  qed
  moreover have "buff_dlen ?bp' = 0" if full: "length (cb_contents bp) = 1023"
  proof -
    have "cb_in bp - cb_out bp = 1023" using full by (simp add: word_unat_eq_iff)
    then have e: "cb_in bp + 1 - cb_out bp = 1024" by (simp add: algebra_simps)
    show ?thesis by (simp add: buff_dlen_def len_mask_def w(1) e)
  qed
  ultimately show ?thesis using eq by blast
qed

lemma takeWhile_prefix_len:
  "take n (takeWhile P xs) = take n xs" if "n \<le> length (takeWhile P xs)"
  using that by (metis take_append takeWhile_dropWhile_id diff_is_0_eq take0 append_Nil2)

section \<open>Properties\<close>

text \<open>An initialised empty buffer, as the zeroed global \<open>cbuff\<close> is after \<open>buff_init\<close>.\<close>

definition cb_zero :: "u32 \<Rightarrow> CBUFF" where
  "cb_zero start = \<lparr>cb_len = 0, cb_in = start, cb_out = start, cb_trial = start,
     cb_data = replicate CBUFFLEN 0\<rparr>"

definition cb_fresh :: "u32 \<Rightarrow> CBUFF" where
  "cb_fresh start = (cb_zero start)\<lparr>cb_len := of_nat CBUFFLEN\<rparr>"

lemma cb_wf_fresh: "cb_wf (cb_fresh start)"
  by (simp add: cb_wf_def cb_fresh_def cb_zero_def CBUFFLEN_def)

lemma cb_contents_fresh: "cb_contents (cb_fresh start) = []"
  by (simp add: cb_contents_def cb_fresh_def cb_zero_def)

text \<open>Three bytes stored, two of them on trial.\<close>

definition cb_on_trial :: CBUFF where
  "cb_on_trial = (cb_fresh 0)\<lparr>cb_in := 3, cb_trial := 2\<rparr>"

lemma cb_wf_on_trial: "cb_wf cb_on_trial"
  by (simp add: cb_wf_def cb_on_trial_def cb_fresh_def cb_zero_def CBUFFLEN_def)

text \<open>C8 (stream integrity): starting from any well-formed buffer, every interleaving of \<open>buff_in\<close>
  and \<open>buff_out\<close> calls stays inside the data array, keeps the invariant, and loses, duplicates or
  reorders no byte: the initial contents followed by the accepted bytes equal the delivered bytes
  followed by the final contents, even when the 32-bit counters wrap.\<close>

theorem cb_stream_conserved:
  assumes "cb_wf bp" and "list_all (op_within 65535) ops"
  shows "\<exists>acc del bp'. queue_run cb_put cb_get bp ops = Some (acc, del, bp') \<and> cb_wf bp'
     \<and> cb_contents bp @ acc = del @ cb_contents bp'"
  by (rule cbq.run_conserves [OF assms])

theorem cb_stream_conserved_witness:
  "\<exists>acc del bp'. queue_run cb_put cb_get (cb_fresh 4294967290) [Put [1, 2, 3], Get 2, Put [4], Get 9]
     = Some (acc, del, bp') \<and> cb_wf bp' \<and> acc = del @ cb_contents bp'"
  using cb_stream_conserved [of "cb_fresh 4294967290" "[Put [1, 2, 3], Get 2, Put [4], Get 9]"]
  by (simp add: cb_wf_fresh cb_contents_fresh)

text \<open>(length accounting): in a well-formed buffer the data length is the trial length plus the
  untried length, and with the free length it adds up to 1023.\<close>

theorem buff_lengths_add_up:
  assumes "cb_wf bp"
  shows "unat (buff_dlen bp) = unat (buff_trylen bp) + unat (buff_untriedlen bp)
     \<and> unat (buff_dlen bp) + unat (buff_freelen bp) = 1023"
  using cb_wfD [OF assms]
  by (simp_all add: unat_dlen [OF assms] unat_trylen [OF assms] unat_untriedlen [OF assms]
      unat_freelen [OF assms])

theorem buff_lengths_add_up_witness:
  "unat (buff_dlen cb_on_trial) = unat (buff_trylen cb_on_trial) + unat (buff_untriedlen cb_on_trial)
   \<and> unat (buff_dlen cb_on_trial) + unat (buff_freelen cb_on_trial) = 1023"
  by (rule buff_lengths_add_up [OF cb_wf_on_trial])

text \<open>(retransmission): after \<open>buff_try\<close> has handed out a block, rewinding by its length with
  \<open>buff_retry\<close> and trying again yields the same block from the same stored bytes.\<close>

theorem buff_retry_resends:
  assumes "cb_wf bp" and "unat maxlen \<le> length dst"
  shows "\<exists>n blk bp1 bp2 bp3. buff_try bp (Some dst) maxlen = Some (n, Some blk, bp1)
     \<and> buff_retry bp1 n = (n, bp2) \<and> cb_contents bp2 = cb_contents bp
     \<and> buff_try bp2 (Some dst) maxlen = Some (n, Some blk, bp3)"
proof -
  from buff_try_spec [OF assms] obtain n bp1 where
    t: "buff_try bp (Some dst) maxlen = Some (n, Some (take (unat n)
        (drop (unat (buff_trylen bp)) (cb_contents bp)) @ drop (unat n) dst), bp1)"
    and n: "unat n = min (unat maxlen) (unat (buff_untriedlen bp))"
    and wf1: "cb_wf bp1" and c1: "cb_contents bp1 = cb_contents bp"
    and tl: "unat (buff_trylen bp1) = unat (buff_trylen bp) + unat n" by blast
  obtain l bp2 where r: "buff_retry bp1 n = (l, bp2)" by (cases "buff_retry bp1 n")
  note rs = buff_retry_spec [OF wf1 r]
  have l: "l = n" using rs(1) tl by (simp add: word_unat_eq_iff)
  have tl2: "unat (buff_trylen bp2) = unat (buff_trylen bp)" using rs(4) tl l by simp
  have c2: "cb_contents bp2 = cb_contents bp" using rs(3) c1 by simp
  have "unat (buff_untriedlen bp2) = unat (buff_untriedlen bp)"
    using unat_untriedlen [OF rs(2)] unat_untriedlen [OF assms(1)] unat_trylen [OF rs(2)]
      unat_trylen [OF assms(1)] tl2 c2 by (simp del: length_cb_contents)
  moreover from buff_try_spec [OF rs(2) assms(2)] obtain n' bp3 where
    t3: "buff_try bp2 (Some dst) maxlen = Some (n', Some (take (unat n')
        (drop (unat (buff_trylen bp2)) (cb_contents bp2)) @ drop (unat n') dst), bp3)"
    and n': "unat n' = min (unat maxlen) (unat (buff_untriedlen bp2))" by blast
  ultimately have "n' = n" using n by (simp add: word_unat_eq_iff)
  then show ?thesis using t r l c2 t3 tl2 by auto
qed

theorem buff_retry_resends_witness:
  "\<exists>n blk bp1 bp2 bp3. buff_try cb_on_trial (Some [0, 0]) 2 = Some (n, Some blk, bp1)
     \<and> buff_retry bp1 n = (n, bp2) \<and> cb_contents bp2 = cb_contents cb_on_trial
     \<and> buff_try bp2 (Some [0, 0]) 2 = Some (n, Some blk, bp3)"
  by (rule buff_retry_resends [OF cb_wf_on_trial]) simp

text \<open>(acknowledging data): \<open>buff_out\<close> delivers the oldest bytes; what it does to the bytes on
  trial depends on whether untried data remains. With none, the trial length shrinks by the bytes
  removed; otherwise it drops to zero, so bytes sent but not yet acknowledged count as unsent.\<close>

theorem buff_out_trial_window:
  assumes "cb_wf bp" and "unat maxlen \<le> length dst"
  shows "\<exists>n bp'. buff_out bp (Some dst) maxlen =
        Some (n, Some (take (unat n) (cb_contents bp) @ drop (unat n) dst), bp')
     \<and> unat n = min (unat maxlen) (length (cb_contents bp))
     \<and> cb_contents bp' = drop (unat n) (cb_contents bp)
     \<and> buff_trylen bp' = (if buff_untriedlen bp = 0 then buff_trylen bp - n else 0)"
  using buff_out_spec [OF assms] by blast

theorem buff_out_trial_window_witness:
  "buff_trylen cb_on_trial = 2 \<and> buff_untriedlen cb_on_trial = 1 \<and>
   (\<exists>n e bp'. buff_out cb_on_trial (Some [0]) 1 = Some (n, e, bp') \<and> n = 1 \<and> buff_trylen bp' = 0)"
proof -
  have "buff_trylen cb_on_trial = 2" and u: "buff_untriedlen cb_on_trial = 1"
    by (simp_all add: buff_trylen_def buff_untriedlen_def len_mask_def cb_on_trial_def cb_fresh_def
        cb_zero_def CBUFFLEN_def)
  moreover have "length (cb_contents cb_on_trial) = 3"
    by (simp add: cb_on_trial_def cb_fresh_def cb_zero_def)
  ultimately show ?thesis
    using buff_out_trial_window [OF cb_wf_on_trial, of 1 "[0]"] by (auto simp: word_unat_eq_iff)
qed

text \<open>(initialisation): \<open>buff_init\<close> makes the global buffer an empty well-formed one, but any other
  buffer keeps its old length: a zeroed one still has none and then accepts no byte at all.\<close>

theorem buff_init_only_global:
  assumes "length (cb_data (h cbuff)) = CBUFFLEN" and "bp \<noteq> cbuff" and "cb_len (h bp) = 0"
  shows "cb_wf (buff_init h cbuff cbuff start cbuff)
     \<and> cb_contents (buff_init h cbuff cbuff start cbuff) = []
     \<and> (\<exists>bp'. buff_in (buff_init h cbuff bp start bp) (Some data) len = Some (0, bp'))"
  using assms
  by (simp add: buff_init_def Let_def cb_wf_def cb_contents_def CBUFFLEN_def buff_in_def
      buff_freelen_def)

theorem buff_init_only_global_witness:
  "cb_wf (buff_init (\<lambda>_. cb_zero 0) 0 0 5 0)
   \<and> cb_contents (buff_init (\<lambda>_. cb_zero 0) 0 0 5 0) = []
   \<and> (\<exists>bp'. buff_in (buff_init (\<lambda>_. cb_zero 0) 0 1 5 1) (Some [1, 2]) 2 = Some (0, bp'))"
  by (rule buff_init_only_global) (simp_all add: cb_zero_def)

text \<open>(single bytes): \<open>buff_inb\<close> appends its byte while there is room, but it has no check: on a
  full buffer it makes the whole 1023 stored bytes disappear.\<close>

theorem buff_inb_unchecked:
  assumes "cb_wf bp"
  shows "\<exists>bp'. buff_inb bp b = Some (1, bp')
     \<and> (length (cb_contents bp) < 1023 \<longrightarrow> cb_wf bp' \<and> cb_contents bp' = cb_contents bp @ [b])
     \<and> (length (cb_contents bp) = 1023 \<longrightarrow> buff_dlen bp' = 0)"
  by (rule buff_inb_spec [OF assms])

theorem buff_inb_unchecked_witness:
  "\<exists>bp'. buff_inb (cb_fresh 0) 9 = Some (1, bp') \<and> cb_contents bp' = [9]"
  using buff_inb_unchecked [OF cb_wf_fresh, of 0 9] by (auto simp: cb_contents_fresh)

text \<open>(the demonstration program): on a zeroed buffer \<open>app.c\<close> reports sizes 1 and 0 and ends with
  the byte it stored in \<open>tmp\<close>, but the line announcing the byte read shows the value \<open>tmp\<close> had before
  \<open>buff_outb\<close> wrote it.\<close>

theorem app_main_prints_stale_byte:
  "\<exists>c. app_main (cb_zero 0) tmp = Some ([Cbuff_test_start, Put_1_byte_a, Cbuff_size 1, Out_1_byte tmp,
     Cbuff_size 0], 97, c)"
  by (simp add: app_main_def Let_def buff_init_def buff_inb_def buff_outb_def buff_dlen_def len_mask_def
      cb_zero_def CBUFFLEN_def store_def load_def)

text \<open>(strings): \<open>buff_instr\<close> appends the characters before the terminator, as many as there is
  room for, and never the terminator itself.\<close>

theorem buff_instr_appends:
  assumes "cb_wf bp" and "c_strlen str = Some k" and "k \<le> 65535"
  shows "\<exists>n bp'. buff_instr bp str = Some (n, bp') \<and> cb_wf bp'
     \<and> cb_contents bp' = cb_contents bp
         @ take (1023 - length (cb_contents bp)) (takeWhile (\<lambda>b. b \<noteq> 0) str)"
proof -
  have k: "k = length (takeWhile (\<lambda>b. b \<noteq> 0) str)"
    using assms(2) by (auto simp: c_strlen_def split: if_splits)
  then have "unat (of_nat k :: u16) \<le> length str"
    using assms(3) by (simp add: unat_of_nat_u16 length_takeWhile_le)
  from buff_in_spec [OF assms(1) this] obtain n bp' where
    i: "buff_in bp (Some str) (of_nat k) = Some (n, bp')" "cb_wf bp'"
      "cb_contents bp' = cb_contents bp @ take (unat n) str"
    and n: "unat n = min k (1023 - length (cb_contents bp))"
    unfolding unat_of_nat_u16 [OF assms(3)] by blast
  have "take (unat n) str = take (unat n) (takeWhile (\<lambda>b. b \<noteq> 0) str)"
    by (rule takeWhile_prefix_len [symmetric]) (simp add: n k)
  also have "\<dots> = take (1023 - length (cb_contents bp)) (takeWhile (\<lambda>b. b \<noteq> 0) str)"
    unfolding n k by (simp add: min_def)
  finally show ?thesis using i assms(2) by (simp add: buff_instr_def)
qed

theorem buff_instr_appends_witness:
  "\<exists>n bp'. buff_instr (cb_fresh 0) [104, 105, 0, 7] = Some (n, bp') \<and> cb_contents bp' = [104, 105]"
  using buff_instr_appends [OF cb_wf_fresh, of "[104, 105, 0, 7]" 2 0]
  by (auto simp: cb_contents_fresh c_strlen_def)

end
