(* ===== verification/Ctype.thy ===== *)
theory Ctype
  imports Prelude
begin

unbundle bit_operations_syntax

text \<open>
  lib/ctype.c and include/linux/ctype.h: the character class table and the predicates and case
  conversions read off it.
\<close>

definition C_U :: byte where "C_U = 0x01"
definition C_L :: byte where "C_L = 0x02"
definition C_D :: byte where "C_D = 0x04"
definition C_C :: byte where "C_C = 0x08"
definition C_P :: byte where "C_P = 0x10"
definition C_S :: byte where "C_S = 0x20"
definition C_X :: byte where "C_X = 0x40"
definition C_SP :: byte where "C_SP = 0x80"

lemmas ctype_flags = C_U_def C_L_def C_D_def C_C_def C_P_def C_S_def C_X_def C_SP_def

definition ctype_table :: "byte list" where
  "ctype_table =
     [C_C, C_C, C_C, C_C, C_C, C_C, C_C, C_C,
      C_C, C_C OR C_S, C_C OR C_S, C_C OR C_S, C_C OR C_S, C_C OR C_S, C_C, C_C,
      C_C, C_C, C_C, C_C, C_C, C_C, C_C, C_C,
      C_C, C_C, C_C, C_C, C_C, C_C, C_C, C_C,
      C_S OR C_SP, C_P, C_P, C_P, C_P, C_P, C_P, C_P,
      C_P, C_P, C_P, C_P, C_P, C_P, C_P, C_P,
      C_D, C_D, C_D, C_D, C_D, C_D, C_D, C_D,
      C_D, C_D, C_P, C_P, C_P, C_P, C_P, C_P,
      C_P, C_U OR C_X, C_U OR C_X, C_U OR C_X, C_U OR C_X, C_U OR C_X, C_U OR C_X, C_U,
      C_U, C_U, C_U, C_U, C_U, C_U, C_U, C_U,
      C_U, C_U, C_U, C_U, C_U, C_U, C_U, C_U,
      C_U, C_U, C_U, C_P, C_P, C_P, C_P, C_P,
      C_P, C_L OR C_X, C_L OR C_X, C_L OR C_X, C_L OR C_X, C_L OR C_X, C_L OR C_X, C_L,
      C_L, C_L, C_L, C_L, C_L, C_L, C_L, C_L,
      C_L, C_L, C_L, C_L, C_L, C_L, C_L, C_L,
      C_L, C_L, C_L, C_P, C_P, C_P, C_P, C_C,
      0, 0, 0, 0, 0, 0, 0, 0, 0, 0, 0, 0, 0, 0, 0, 0,
      0, 0, 0, 0, 0, 0, 0, 0, 0, 0, 0, 0, 0, 0, 0, 0,
      C_S OR C_SP, C_P, C_P, C_P, C_P, C_P, C_P, C_P, C_P, C_P, C_P, C_P, C_P, C_P, C_P, C_P,
      C_P, C_P, C_P, C_P, C_P, C_P, C_P, C_P, C_P, C_P, C_P, C_P, C_P, C_P, C_P, C_P,
      C_U, C_U, C_U, C_U, C_U, C_U, C_U, C_U, C_U, C_U, C_U, C_U, C_U, C_U, C_U, C_U,
      C_U, C_U, C_U, C_U, C_U, C_U, C_U, C_P, C_U, C_U, C_U, C_U, C_U, C_U, C_U, C_L,
      C_L, C_L, C_L, C_L, C_L, C_L, C_L, C_L, C_L, C_L, C_L, C_L, C_L, C_L, C_L, C_L,
      C_L, C_L, C_L, C_L, C_L, C_L, C_L, C_P, C_L, C_L, C_L, C_L, C_L, C_L, C_L, C_L]"

definition ismask :: "byte \<Rightarrow> byte" where
  "ismask x = ctype_table ! unat x"

definition isalnum :: "byte \<Rightarrow> bool" where "isalnum c \<longleftrightarrow> ismask c AND (C_U OR C_L OR C_D) \<noteq> 0"
definition isalpha :: "byte \<Rightarrow> bool" where "isalpha c \<longleftrightarrow> ismask c AND (C_U OR C_L) \<noteq> 0"
definition isdigit :: "byte \<Rightarrow> bool" where "isdigit c \<longleftrightarrow> ismask c AND C_D \<noteq> 0"
definition islower :: "byte \<Rightarrow> bool" where "islower c \<longleftrightarrow> ismask c AND C_L \<noteq> 0"
definition isspace :: "byte \<Rightarrow> bool" where "isspace c \<longleftrightarrow> ismask c AND C_S \<noteq> 0"
definition isupper :: "byte \<Rightarrow> bool" where "isupper c \<longleftrightarrow> ismask c AND C_U \<noteq> 0"
definition isxdigit :: "byte \<Rightarrow> bool" where "isxdigit c \<longleftrightarrow> ismask c AND (C_D OR C_X) \<noteq> 0"
definition isblank :: "byte \<Rightarrow> bool" where "isblank c \<longleftrightarrow> c = 32 \<or> c = 9"

lemmas ctype_defs = isalnum_def isalpha_def isdigit_def islower_def isspace_def isupper_def
  isxdigit_def ismask_def ctype_table_def ctype_flags

definition tolower :: "byte \<Rightarrow> byte" where
  "tolower c = (if isupper c then c - (65 - 97) else c)"

definition toupper :: "byte \<Rightarrow> byte" where
  "toupper c = (if islower c then c - (97 - 65) else c)"

lemma length_ctype_table: "length ctype_table = 256"
  by (simp add: ctype_table_def)

text \<open>A property of all bytes is a check of 256 cases.\<close>

lemma byte_exhaust: "(\<forall>c :: byte. P c) \<longleftrightarrow> list_all (\<lambda>n. P (word_of_nat n)) [0..<256]"
proof
  assume "list_all (\<lambda>n. P (word_of_nat n)) [0..<256]"
  moreover have "unat c \<in> {0..<256}" for c :: byte by simp
  ultimately have "P (word_of_nat (unat c))" for c :: byte
    unfolding list_all_iff set_upt by blast
  then show "\<forall>c. P c" by simp
qed (simp add: list_all_iff)

end
