(* ===== verification/String_Lib.thy ===== *)
theory String_Lib
  imports Ctype
begin

unbundle bit_operations_syntax

text \<open>
  lib/string.c. Every routine works on one flat memory, a list of bytes; a \<open>char *\<close> is an offset into
  it, so overlapping arguments are overlapping ranges of the same list. A routine that runs off the
  memory returns \<^term>\<open>None\<close>; a null pointer result is \<^term>\<open>None\<close> inside a \<^term>\<open>Some\<close>. Loops are recursive functions that
  stop at the latest at the end of memory. \<open>size_t\<close> counts are natural numbers; \<open>unsigned long\<close> is the
  32-bit little-endian word of the ARM target.
\<close>

section \<open>Length, copying and concatenation of strings\<close>

function strlen_loop :: "mem \<Rightarrow> nat \<Rightarrow> nat option" where
  "strlen_loop m sc = do { c \<leftarrow> load m sc; if c \<noteq> 0 then strlen_loop m (sc + 1) else Some sc }"
  by pat_completeness auto
termination
  by (relation "measure (\<lambda>(m, sc). length m - sc)") (auto simp: load_eq_Some_iff)

definition strlen :: "mem \<Rightarrow> nat \<Rightarrow> nat option" where
  "strlen m s = do { sc \<leftarrow> strlen_loop m s; Some (sc - s) }"

fun strnlen_loop :: "mem \<Rightarrow> nat \<Rightarrow> nat \<Rightarrow> nat option" where
  "strnlen_loop m 0 sc = Some sc"
| "strnlen_loop m (Suc count) sc =
     do { c \<leftarrow> load m sc; if c \<noteq> 0 then strnlen_loop m count (sc + 1) else Some sc }"

definition strnlen :: "mem \<Rightarrow> nat \<Rightarrow> nat \<Rightarrow> nat option" where
  "strnlen m s count = do { sc \<leftarrow> strnlen_loop m count s; Some (sc - s) }"

text \<open>\<open>while ((*dest++ = *src++) != '\0')\<close>, shared by \<open>strcpy\<close> and \<open>strcat\<close>.\<close>

function strcpy_loop :: "mem \<Rightarrow> nat \<Rightarrow> nat \<Rightarrow> mem option" where
  "strcpy_loop m dest src =
     do { c \<leftarrow> load m src; m1 \<leftarrow> store m dest c;
          if c \<noteq> 0 then strcpy_loop m1 (dest + 1) (src + 1) else Some m1 }"
  by pat_completeness auto
termination
  by (relation "measure (\<lambda>(m, dest, src). length m - src)")
    (auto simp: load_eq_Some_iff store_eq_Some_iff)

definition strcpy :: "mem \<Rightarrow> nat \<Rightarrow> nat \<Rightarrow> (nat \<times> mem) option" where
  "strcpy m dest src = do { m1 \<leftarrow> strcpy_loop m dest src; Some (dest, m1) }"

fun strncpy_loop :: "nat \<Rightarrow> mem \<Rightarrow> nat \<Rightarrow> nat \<Rightarrow> mem option" where
  "strncpy_loop 0 m dest src = Some m"
| "strncpy_loop (Suc count) m dest src =
     do { c \<leftarrow> load m src; m1 \<leftarrow> store m dest c;
          if c \<noteq> 0 then strncpy_loop count m1 (dest + 1) (src + 1) else Some m1 }"

definition strncpy :: "mem \<Rightarrow> nat \<Rightarrow> nat \<Rightarrow> nat \<Rightarrow> (nat \<times> mem) option" where
  "strncpy m dest src count = do { m1 \<leftarrow> strncpy_loop count m dest src; Some (dest, m1) }"

definition strcat :: "mem \<Rightarrow> nat \<Rightarrow> nat \<Rightarrow> (nat \<times> mem) option" where
  "strcat m dest src =
     do { e \<leftarrow> strlen_loop m dest; m1 \<leftarrow> strcpy_loop m e src; Some (dest, m1) }"

text \<open>\<open>while ((*dest++ = *src++)) if (--count == 0) { *dest = '\0'; break; }\<close>\<close>

fun strncat_loop :: "nat \<Rightarrow> mem \<Rightarrow> nat \<Rightarrow> nat \<Rightarrow> mem option" where
  "strncat_loop 0 m dest src = Some m"
| "strncat_loop (Suc count) m dest src =
     do { c \<leftarrow> load m src; m1 \<leftarrow> store m dest c;
          if c \<noteq> 0
          then if count = 0 then store m1 (dest + 1) 0 else strncat_loop count m1 (dest + 1) (src + 1)
          else Some m1 }"

definition strncat :: "mem \<Rightarrow> nat \<Rightarrow> nat \<Rightarrow> nat \<Rightarrow> (nat \<times> mem) option" where
  "strncat m dest src count =
     (if count \<noteq> 0
      then do { e \<leftarrow> strlen_loop m dest; m1 \<leftarrow> strncat_loop count m e src; Some (dest, m1) }
      else Some (dest, m))"

text \<open>\<open>alloc\<close> is the allocator's answer to a request: an address, or \<^term>\<open>None\<close> for a null pointer.\<close>

definition strdup :: "(nat \<Rightarrow> nat option) \<Rightarrow> mem \<Rightarrow> nat option \<Rightarrow> (nat option \<times> mem) option" where
  "strdup alloc m s =
     (case s of None \<Rightarrow> Some (None, m)
      | Some p \<Rightarrow> do {
          n \<leftarrow> strlen m p;
          case alloc (n + 1) of None \<Rightarrow> Some (None, m)
          | Some new \<Rightarrow> do { (_, m1) \<leftarrow> strcpy m new p; Some (Some new, m1) } })"

section \<open>Comparison\<close>

text \<open>\<open>__res\<close> is a \<open>signed char\<close>: the difference of the two bytes is truncated to 8 bits.\<close>

function strcmp :: "mem \<Rightarrow> nat \<Rightarrow> nat \<Rightarrow> int option" where
  "strcmp m cs ct =
     do { a \<leftarrow> load m cs; b \<leftarrow> load m ct;
          if a - b \<noteq> 0 \<or> a = 0 then Some (sint (a - b)) else strcmp m (cs + 1) (ct + 1) }"
  by pat_completeness auto
termination
  by (relation "measure (\<lambda>(m, cs, ct). length m - cs)") (auto simp: load_eq_Some_iff)

fun strncmp :: "mem \<Rightarrow> nat \<Rightarrow> nat \<Rightarrow> nat \<Rightarrow> int option" where
  "strncmp m cs ct 0 = Some 0"
| "strncmp m cs ct (Suc count) =
     do { a \<leftarrow> load m cs; b \<leftarrow> load m ct;
          if a - b \<noteq> 0 \<or> a = 0 then Some (sint (a - b)) else strncmp m (cs + 1) (ct + 1) count }"

text \<open>The body of \<open>strncasecmp\<close> for a positive \<open>len\<close>; both bytes are unsigned.\<close>

fun strncasecmp_loop :: "mem \<Rightarrow> nat \<Rightarrow> nat \<Rightarrow> nat \<Rightarrow> int option" where
  "strncasecmp_loop m s1 s2 0 = Some 0"
| "strncasecmp_loop m s1 s2 (Suc len) =
     do { c1 \<leftarrow> load m s1; c2 \<leftarrow> load m s2;
          if c1 = 0 \<or> c2 = 0 then Some (uint c1 - uint c2)
          else if c1 = c2
          then if len = 0 then Some (uint c1 - uint c2) else strncasecmp_loop m (s1 + 1) (s2 + 1) len
          else let d1 = tolower c1; d2 = tolower c2 in
            if d1 \<noteq> d2 then Some (uint d1 - uint d2)
            else if len = 0 then Some (uint d1 - uint d2)
            else strncasecmp_loop m (s1 + 1) (s2 + 1) len }"

definition strncasecmp :: "mem \<Rightarrow> nat \<Rightarrow> nat \<Rightarrow> nat \<Rightarrow> int option" where
  "strncasecmp m s1 s2 len = (if len \<noteq> 0 then strncasecmp_loop m s1 s2 len else Some 0)"

definition strcasecmp :: "mem \<Rightarrow> nat \<Rightarrow> nat \<Rightarrow> int option" where
  "strcasecmp m s1 s2 = strncasecmp m s1 s2 0xffffffff"

fun memcmp :: "mem \<Rightarrow> nat \<Rightarrow> nat \<Rightarrow> nat \<Rightarrow> int option" where
  "memcmp m su1 su2 0 = Some 0"
| "memcmp m su1 su2 (Suc count) =
     do { a \<leftarrow> load m su1; b \<leftarrow> load m su2;
          if uint a - uint b \<noteq> 0 then Some (uint a - uint b)
          else memcmp m (su1 + 1) (su2 + 1) count }"

section \<open>Searching and tokenising\<close>

function strchr :: "mem \<Rightarrow> nat \<Rightarrow> byte \<Rightarrow> nat option option" where
  "strchr m s c =
     do { x \<leftarrow> load m s;
          if x \<noteq> c then if x = 0 then Some None else strchr m (s + 1) c else Some (Some s) }"
  by pat_completeness auto
termination
  by (relation "measure (\<lambda>(m, s, c). length m - s)") (auto simp: load_eq_Some_iff)

text \<open>\<open>do { if ( *p == c) return p; } while (--p >= s);\<close>\<close>

function strrchr_loop :: "mem \<Rightarrow> nat \<Rightarrow> byte \<Rightarrow> nat \<Rightarrow> nat option option" where
  "strrchr_loop m s c p =
     do { x \<leftarrow> load m p;
          if x = c then Some (Some p) else if s < p then strrchr_loop m s c (p - 1) else Some None }"
  by pat_completeness auto
termination
  by (relation "measure (\<lambda>(m, s, c, p). p)") auto

definition strrchr :: "mem \<Rightarrow> nat \<Rightarrow> byte \<Rightarrow> nat option option" where
  "strrchr m s c = do { n \<leftarrow> strlen m s; strrchr_loop m s c (s + n) }"

text \<open>The inner loop of \<open>strspn\<close> and \<open>strpbrk\<close>: does the string at \<open>a\<close> hold the byte \<open>c\<close>?\<close>

function accept_scan :: "mem \<Rightarrow> byte \<Rightarrow> nat \<Rightarrow> bool option" where
  "accept_scan m c a =
     do { x \<leftarrow> load m a;
          if x \<noteq> 0 then if c = x then Some True else accept_scan m c (a + 1) else Some False }"
  by pat_completeness auto
termination
  by (relation "measure (\<lambda>(m, c, a). length m - a)") (auto simp: load_eq_Some_iff)

function strspn_loop :: "mem \<Rightarrow> nat \<Rightarrow> nat \<Rightarrow> nat \<Rightarrow> nat option" where
  "strspn_loop m p accept count =
     do { x \<leftarrow> load m p;
          if x \<noteq> 0
          then do { found \<leftarrow> accept_scan m x accept;
                    if \<not> found then Some count else strspn_loop m (p + 1) accept (count + 1) }
          else Some count }"
  by pat_completeness auto
termination
  by (relation "measure (\<lambda>(m, p, a, c). length m - p)") (auto simp: load_eq_Some_iff)

definition strspn :: "mem \<Rightarrow> nat \<Rightarrow> nat \<Rightarrow> nat option" where
  "strspn m s accept = strspn_loop m s accept 0"

function strpbrk :: "mem \<Rightarrow> nat \<Rightarrow> nat \<Rightarrow> nat option option" where
  "strpbrk m sc1 ct =
     do { x \<leftarrow> load m sc1;
          if x \<noteq> 0
          then do { found \<leftarrow> accept_scan m x ct;
                    if found then Some (Some sc1) else strpbrk m (sc1 + 1) ct }
          else Some None }"
  by pat_completeness auto
termination
  by (relation "measure (\<lambda>(m, p, a). length m - p)") (auto simp: load_eq_Some_iff)

text \<open>\<open>strtok\<close> keeps its place in the static \<open>___strtok\<close>, here the argument and result \<open>place\<close>.\<close>

definition strtok ::
  "mem \<Rightarrow> nat option \<Rightarrow> nat option \<Rightarrow> nat \<Rightarrow> (nat option \<times> nat option \<times> mem) option" where
  "strtok m place s ct =
     (case (case s of Some p \<Rightarrow> Some p | None \<Rightarrow> place) of
        None \<Rightarrow> Some (None, place, m)
      | Some sb \<Rightarrow> do {
          n \<leftarrow> strspn m sb ct;
          x \<leftarrow> load m (sb + n);
          if x = 0 then Some (None, None, m)
          else do {
            send \<leftarrow> strpbrk m (sb + n) ct;
            case send of None \<Rightarrow> Some (Some (sb + n), None, m)
            | Some e \<Rightarrow> do {
                y \<leftarrow> load m e;
                if y \<noteq> 0 then do { m1 \<leftarrow> store m e 0; Some (Some (sb + n), Some (e + 1), m1) }
                else Some (Some (sb + n), Some e, m) } } })"

definition strsep :: "mem \<Rightarrow> nat option \<Rightarrow> nat \<Rightarrow> (nat option \<times> nat option \<times> mem) option" where
  "strsep m s ct =
     (case s of None \<Rightarrow> Some (None, None, m)
      | Some sb \<Rightarrow> do {
          e \<leftarrow> strpbrk m sb ct;
          case e of None \<Rightarrow> Some (Some sb, None, m)
          | Some q \<Rightarrow> do { m1 \<leftarrow> store m q 0; Some (Some sb, Some (q + 1), m1) } })"

function strswab_loop :: "mem \<Rightarrow> nat \<Rightarrow> mem option" where
  "strswab_loop m p =
     do { x \<leftarrow> load m p;
          if x = 0 then Some m
          else do {
            y \<leftarrow> load m (p + 1);
            if y = 0 then Some m
            else do { m1 \<leftarrow> store m p y; m2 \<leftarrow> store m1 (p + 1) x; strswab_loop m2 (p + 2) } } }"
  by pat_completeness auto
termination
  by (relation "measure (\<lambda>(m, p). length m - p)") (auto simp: load_eq_Some_iff store_eq_Some_iff)

definition strswab :: "mem \<Rightarrow> nat option \<Rightarrow> (nat option \<times> mem) option" where
  "strswab m s =
     (case s of None \<Rightarrow> Some (None, m)
      | Some p \<Rightarrow> do {
          x \<leftarrow> load m p;
          if x = 0 then Some (None, m) else do { m1 \<leftarrow> strswab_loop m p; Some (Some p, m1) } })"

section \<open>Memory areas\<close>

definition le32 :: "byte \<Rightarrow> byte \<Rightarrow> byte \<Rightarrow> byte \<Rightarrow> u32" where
  "le32 b0 b1 b2 b3 =
     ucast b0 OR push_bit 8 (ucast b1) OR push_bit 16 (ucast b2) OR push_bit 24 (ucast b3)"

definition load32 :: "mem \<Rightarrow> nat \<Rightarrow> u32 option" where
  "load32 m a =
     do { b0 \<leftarrow> load m a; b1 \<leftarrow> load m (a + 1); b2 \<leftarrow> load m (a + 2); b3 \<leftarrow> load m (a + 3);
          Some (le32 b0 b1 b2 b3) }"

definition store32 :: "mem \<Rightarrow> nat \<Rightarrow> u32 \<Rightarrow> mem option" where
  "store32 m a w =
     do { m0 \<leftarrow> store m a (ucast w); m1 \<leftarrow> store m0 (a + 1) (ucast (drop_bit 8 w));
          m2 \<leftarrow> store m1 (a + 2) (ucast (drop_bit 16 w)); store m2 (a + 3) (ucast (drop_bit 24 w)) }"

fun memset_words :: "mem \<Rightarrow> nat \<Rightarrow> u32 \<Rightarrow> nat \<Rightarrow> (nat \<times> nat \<times> mem) option" where
  "memset_words m sl cl count =
     (if 4 \<le> count then do { m1 \<leftarrow> store32 m sl cl; memset_words m1 (sl + 4) cl (count - 4) }
      else Some (sl, count, m))"

fun memset_bytes :: "mem \<Rightarrow> nat \<Rightarrow> byte \<Rightarrow> nat \<Rightarrow> mem option" where
  "memset_bytes m s8 c 0 = Some m"
| "memset_bytes m s8 c (Suc count) = do { m1 \<leftarrow> store m s8 c; memset_bytes m1 (s8 + 1) c count }"

text \<open>\<open>for (i = 0; i < sizeof( *sl); i++) { cl <<= 8; cl |= c & 0xff; }\<close>\<close>

definition memset_fill :: "u32 \<Rightarrow> u32" where
  "memset_fill c = ((\<lambda>cl. push_bit 8 cl OR (c AND 0xff)) ^^ 4) 0"

definition memset :: "mem \<Rightarrow> nat \<Rightarrow> u32 \<Rightarrow> nat \<Rightarrow> (nat \<times> mem) option" where
  "memset m s c count =
     do { (s8, n, m1) \<leftarrow> (if s mod 4 = 0 then memset_words m s (memset_fill c) count
                          else Some (s, count, m));
          m2 \<leftarrow> memset_bytes m1 s8 (ucast c) n;
          Some (s, m2) }"

text \<open>\<open>while (count--) *tmp++ = *src++\<close> with a signed count: a negative one never reaches zero and
  runs until it faults.\<close>

function bcopy_loop :: "mem \<Rightarrow> nat \<Rightarrow> nat \<Rightarrow> int \<Rightarrow> mem option" where
  "bcopy_loop m src tmp count =
     (if count \<noteq> 0
      then do { c \<leftarrow> load m src; m1 \<leftarrow> store m tmp c; bcopy_loop m1 (src + 1) (tmp + 1) (count - 1) }
      else Some m)"
  by pat_completeness auto
termination
  by (relation "measure (\<lambda>(m, src, tmp, n). length m - src)")
    (auto simp: load_eq_Some_iff store_eq_Some_iff)

definition bcopy :: "mem \<Rightarrow> nat \<Rightarrow> nat \<Rightarrow> int \<Rightarrow> (nat \<times> mem) option" where
  "bcopy m src dest count = do { m1 \<leftarrow> bcopy_loop m src dest count; Some (dest, m1) }"

fun memcpy_words :: "mem \<Rightarrow> nat \<Rightarrow> nat \<Rightarrow> nat \<Rightarrow> (nat \<times> nat \<times> nat \<times> mem) option" where
  "memcpy_words m dl sl count =
     (if 4 \<le> count
      then do { w \<leftarrow> load32 m sl; m1 \<leftarrow> store32 m dl w; memcpy_words m1 (dl + 4) (sl + 4) (count - 4) }
      else Some (dl, sl, count, m))"

text \<open>\<open>while (count--) *d8++ = *s8++\<close>, in \<open>memcpy\<close> and the forward half of \<open>memmove\<close>.\<close>

fun copy_up :: "nat \<Rightarrow> mem \<Rightarrow> nat \<Rightarrow> nat \<Rightarrow> mem option" where
  "copy_up 0 m d8 s8 = Some m"
| "copy_up (Suc count) m d8 s8 =
     do { c \<leftarrow> load m s8; m1 \<leftarrow> store m d8 c; copy_up count m1 (d8 + 1) (s8 + 1) }"

definition memcpy :: "mem \<Rightarrow> nat \<Rightarrow> nat \<Rightarrow> nat \<Rightarrow> (nat \<times> mem) option" where
  "memcpy m dest src count =
     (if src = dest then Some (dest, m)
      else do {
        (d8, s8, n, m1) \<leftarrow> (if dest mod 4 = 0 \<and> src mod 4 = 0 then memcpy_words m dest src count
                            else Some (dest, src, count, m));
        m2 \<leftarrow> copy_up n m1 d8 s8;
        Some (dest, m2) })"

text \<open>\<open>while (count--) *--tmp = *--s\<close>, the backward half of \<open>memmove\<close>.\<close>

fun copy_down :: "nat \<Rightarrow> mem \<Rightarrow> nat \<Rightarrow> nat \<Rightarrow> mem option" where
  "copy_down 0 m tmp s = Some m"
| "copy_down (Suc count) m tmp s =
     do { c \<leftarrow> load m (s - 1); m1 \<leftarrow> store m (tmp - 1) c; copy_down count m1 (tmp - 1) (s - 1) }"

definition memmove :: "mem \<Rightarrow> nat \<Rightarrow> nat \<Rightarrow> nat \<Rightarrow> (nat \<times> mem) option" where
  "memmove m dest src count =
     (if src = dest then Some (dest, m)
      else do {
        m1 \<leftarrow> (if dest \<le> src then copy_up count m dest src
               else copy_down count m (dest + count) (src + count));
        Some (dest, m1) })"

text \<open>\<open>memscan\<close> compares the byte with the whole \<open>int\<close>; \<open>memchr\<close> casts it to \<open>unsigned char\<close> first.\<close>

fun memscan :: "mem \<Rightarrow> nat \<Rightarrow> int \<Rightarrow> nat \<Rightarrow> nat option" where
  "memscan m p c 0 = Some p"
| "memscan m p c (Suc sz) = do { x \<leftarrow> load m p; if uint x = c then Some p else memscan m (p + 1) c sz }"

fun memchr :: "mem \<Rightarrow> nat \<Rightarrow> int \<Rightarrow> nat \<Rightarrow> nat option option" where
  "memchr m p c 0 = Some None"
| "memchr m p c (Suc n) =
     do { x \<leftarrow> load m p; if word_of_int c = x then Some (Some p) else memchr m (p + 1) c n }"

function strstr_loop :: "mem \<Rightarrow> nat \<Rightarrow> nat \<Rightarrow> int \<Rightarrow> int \<Rightarrow> nat option option" where
  "strstr_loop m s1 s2 l1 l2 =
     (if l1 \<ge> l2
      then do { r \<leftarrow> memcmp m s1 s2 (nat l2);
                if r = 0 then Some (Some s1) else strstr_loop m (s1 + 1) s2 (l1 - 1) l2 }
      else Some None)"
  by pat_completeness auto
termination
  by (relation "measure (\<lambda>(m, s1, s2, l1, l2). nat (l1 - l2 + 1))") auto

definition strstr :: "mem \<Rightarrow> nat \<Rightarrow> nat \<Rightarrow> nat option option" where
  "strstr m s1 s2 =
     do { l2 \<leftarrow> strlen m s2;
          if l2 = 0 then Some (Some s1)
          else do { l1 \<leftarrow> strlen m s1; strstr_loop m s1 s2 (int l1) (int l2) } }"

declare strlen_loop.simps [simp del] strcpy_loop.simps [simp del] strcmp.simps [simp del]
  strchr.simps [simp del] strrchr_loop.simps [simp del] accept_scan.simps [simp del]
  strspn_loop.simps [simp del] strpbrk.simps [simp del] strswab_loop.simps [simp del]
  memset_words.simps [simp del] bcopy_loop.simps [simp del] memcpy_words.simps [simp del]
  strstr_loop.simps [simp del]

end
