(* ===== verification/String_Proofs.thy ===== *)
theory String_Proofs
  imports String_Lib "HOL-Library.List_Lexorder" "HOL-Library.Sublist"
begin

unbundle bit_operations_syntax

text \<open>
  Correctness of lib/string.c: what a memory holds (\<open>cstr\<close>, \<open>write_bytes\<close>) and what each routine of
  \<open>String_Lib\<close> computes in those terms, overlapping arguments included.
\<close>

section \<open>What a memory holds\<close>

text \<open>\<open>cstr m s xs\<close>: the bytes at \<open>s\<close> are the string \<open>xs\<close> and its terminator.\<close>

fun cstr :: "mem \<Rightarrow> nat \<Rightarrow> byte list \<Rightarrow> bool" where
  "cstr m s [] \<longleftrightarrow> load m s = Some 0"
| "cstr m s (x # xs) \<longleftrightarrow> load m s = Some x \<and> x \<noteq> 0 \<and> cstr m (s + 1) xs"

text \<open>\<open>write_bytes m d xs\<close>: the memory with the bytes from \<open>d\<close> on replaced by \<open>xs\<close>.\<close>

definition write_bytes :: "mem \<Rightarrow> nat \<Rightarrow> byte list \<Rightarrow> mem" where
  "write_bytes m d xs = take d m @ xs @ drop (d + length xs) m"

lemma cstr_bound: "cstr m s xs \<Longrightarrow> s + length xs < length m"
  by (induction xs arbitrary: s) (fastforce simp: load_eq_Some_iff)+

lemma cstr_no_nul: "cstr m s xs \<Longrightarrow> 0 \<notin> set xs"
  by (induction xs arbitrary: s) auto

lemma cstr_iff:
  "cstr m s xs \<longleftrightarrow> s + length xs < length m \<and> take (length xs) (drop s m) = xs \<and> 0 \<notin> set xs
     \<and> m ! (s + length xs) = 0"
proof (induction xs arbitrary: s)
  case Nil
  then show ?case by (simp add: load_eq_Some_iff)
next
  case (Cons x xs)
  have "take (length (x # xs)) (drop s m) = x # xs
      \<longleftrightarrow> m ! s = x \<and> take (length xs) (drop (s + 1) m) = xs" if "s < length m"
    using that by (simp flip: Cons_nth_drop_Suc)
  then show ?case by (auto simp: load_eq_Some_iff Cons)
qed

lemma cstr_unique: "cstr m s xs \<Longrightarrow> cstr m s ys \<Longrightarrow> xs = ys"
proof (induction xs arbitrary: s ys)
  case Nil
  then show ?case by (cases ys) auto
next
  case (Cons x xs)
  then show ?case by (cases ys) auto
qed

lemma cstr_update [simp]:
  "p < s \<or> s + length xs < p \<Longrightarrow> cstr (m[p := b]) s xs = cstr m s xs"
  by (induction xs arbitrary: s) (auto simp: load_def)

lemma cstr_drop: "cstr m s xs \<Longrightarrow> k \<le> length xs \<Longrightarrow> cstr m (s + k) (drop k xs)"
proof (induction k arbitrary: s xs)
  case (Suc k)
  then obtain y ys where "xs = y # ys" by (cases xs) auto
  with Suc show ?case using Suc.IH [of "s + 1" ys] by simp
qed simp

lemma length_write_bytes [simp]: "d + length xs \<le> length m \<Longrightarrow> length (write_bytes m d xs) = length m"
  by (simp add: write_bytes_def)

lemma write_bytes_Nil [simp]: "write_bytes m d [] = m"
  by (simp add: write_bytes_def)

lemma write_bytes_Cons:
  "d < length m \<Longrightarrow> write_bytes (m[d := x]) (d + 1) xs = write_bytes m d (x # xs)"
  by (simp add: write_bytes_def take_Suc_conv_app_nth drop_update_cancel)

lemma write_bytes_append:
  "d + length xs \<le> length m \<Longrightarrow>
     write_bytes (write_bytes m d xs) (d + length xs) ys = write_bytes m d (xs @ ys)"
  by (simp add: write_bytes_def ac_simps)

lemma nth_write_bytes:
  "d + length xs \<le> length m \<Longrightarrow> i < length m \<Longrightarrow>
     write_bytes m d xs ! i = (if d \<le> i \<and> i < d + length xs then xs ! (i - d) else m ! i)"
  by (auto simp: write_bytes_def nth_append)

lemma cstr_write_bytes:
  assumes "d + length xs < length m" and "0 \<notin> set xs"
  shows "cstr (write_bytes m d (xs @ [0])) d xs"
  using assms by (simp add: cstr_iff write_bytes_def nth_append)

lemma cstr_write_other:
  assumes "cstr m s xs" and "d + length ys \<le> length m"
    and "d + length ys \<le> s \<or> s + length xs < d"
  shows "cstr (write_bytes m d ys) s xs"
  using assms
proof (induction xs arbitrary: s)
  case Nil
  then show ?case by (auto simp: load_eq_Some_iff nth_write_bytes)
next
  case (Cons x xs)
  then show ?case by (auto simp: load_eq_Some_iff nth_write_bytes)
qed

section \<open>Length, copy, concatenation\<close>

lemma strlen_loop_cstr: "cstr m s xs \<Longrightarrow> strlen_loop m s = Some (s + length xs)"
  by (induction xs arbitrary: s) (simp_all add: strlen_loop.simps)

lemma strlen_cstr: "cstr m s xs \<Longrightarrow> strlen m s = Some (length xs)"
  by (simp add: strlen_def strlen_loop_cstr)

lemma strlen_loop_Some: "strlen_loop m s = Some e \<Longrightarrow> \<exists>xs. cstr m s xs \<and> e = s + length xs"
proof (induction m s rule: strlen_loop.induct)
  case (1 m sc)
  show ?case
  proof (cases "load m sc")
    case None
    then show ?thesis using 1(2) by (simp add: strlen_loop.simps [of m sc])
  next
    case (Some c)
    show ?thesis
    proof (cases "c = 0")
      case True
      then have "cstr m sc [] \<and> e = sc + length ([] :: byte list)"
        using Some 1(2) by (simp add: strlen_loop.simps [of m sc])
      then show ?thesis by blast
    next
      case False
      with Some 1(2) have "strlen_loop m (sc + 1) = Some e"
        by (simp add: strlen_loop.simps [of m sc])
      from 1(1) [OF Some False this] obtain xs where "cstr m (sc + 1) xs" "e = sc + 1 + length xs"
        by blast
      then have "cstr m sc (c # xs) \<and> e = sc + length (c # xs)" using Some False by simp
      then show ?thesis by blast
    qed
  qed
qed

lemma strlen_iff: "strlen m s = Some n \<longleftrightarrow> (\<exists>xs. cstr m s xs \<and> n = length xs)"
proof
  assume "strlen m s = Some n"
  then obtain e where "strlen_loop m s = Some e" "n = e - s"
    by (auto simp: strlen_def bind_eq_Some_conv)
  then show "\<exists>xs. cstr m s xs \<and> n = length xs" using strlen_loop_Some by fastforce
qed (auto simp: strlen_cstr)

lemma strcpy_loop_cstr:
  assumes "cstr m src xs" and "dest + length xs < length m"
    and "dest < src \<or> src + length xs < dest"
  shows "strcpy_loop m dest src = Some (write_bytes m dest (xs @ [0]))"
  using assms
proof (induction xs arbitrary: m dest src)
  case Nil
  then show ?case
    by (simp add: strcpy_loop.simps [of m dest src] store_Some write_bytes_Cons [symmetric])
next
  case (Cons x xs)
  have "strcpy_loop m dest src = strcpy_loop (m[dest := x]) (dest + 1) (src + 1)"
    using Cons.prems by (simp add: strcpy_loop.simps [of m dest src] store_Some)
  also have "\<dots> = Some (write_bytes (m[dest := x]) (dest + 1) (xs @ [0]))"
    by (rule Cons.IH) (use Cons.prems in auto)
  finally show ?case using Cons.prems by (simp only: write_bytes_Cons append_Cons)
qed

lemma strncpy_loop_cstr:
  assumes "cstr m src xs" and "dest + length xs < length m"
    and "dest < src \<or> src + length xs < dest"
  shows "strncpy_loop count m dest src = Some (write_bytes m dest (take count (xs @ [0])))"
  using assms
proof (induction count arbitrary: m dest src xs)
  case (Suc count)
  show ?case
  proof (cases xs)
    case Nil
    then show ?thesis using Suc.prems by (simp add: store_Some write_bytes_Cons [symmetric])
  next
    case (Cons y ys)
    have "strncpy_loop (Suc count) m dest src = strncpy_loop count (m[dest := y]) (dest + 1) (src + 1)"
      using Suc.prems Cons by (simp add: store_Some)
    also have "\<dots> = Some (write_bytes (m[dest := y]) (dest + 1) (take count (ys @ [0])))"
      by (rule Suc.IH) (use Suc.prems Cons in auto)
    finally show ?thesis using Suc.prems Cons by (simp add: write_bytes_Cons [simplified])
  qed
qed simp

lemma strncat_loop_cstr:
  assumes "cstr m src xs" and "dest + length xs < length m" and "count > 0"
    and "dest + length xs < src \<or> src + length xs < dest"
  shows "strncat_loop count m dest src = Some (write_bytes m dest (take count xs @ [0]))"
  using assms
proof (induction count arbitrary: m dest src xs)
  case (Suc count)
  show ?case
  proof (cases xs)
    case Nil
    then show ?thesis using Suc.prems by (simp add: store_Some write_bytes_Cons [symmetric])
  next
    case (Cons y ys)
    show ?thesis
    proof (cases "count = 0")
      case True
      then show ?thesis
        using Suc.prems Cons by (simp add: store_Some write_bytes_Cons [simplified, symmetric])
    next
      case False
      have "strncat_loop (Suc count) m dest src
          = strncat_loop count (m[dest := y]) (dest + 1) (src + 1)"
        using Suc.prems Cons False by (simp add: store_Some)
      also have "\<dots> = Some (write_bytes (m[dest := y]) (dest + 1) (take count ys @ [0]))"
        by (rule Suc.IH) (use Suc.prems Cons False in auto)
      finally show ?thesis using Suc.prems Cons by (simp add: write_bytes_Cons [simplified])
    qed
  qed
qed simp

section \<open>Memory areas\<close>

lemma copy_up_area:
  assumes "dest + n \<le> length m" and "src + n \<le> length m" and "dest \<le> src \<or> src + n \<le> dest"
  shows "copy_up n m dest src = Some (write_bytes m dest (take n (drop src m)))"
  using assms
proof (induction n arbitrary: m dest src)
  case (Suc n)
  let ?m1 = "m[dest := m ! src]"
  have "copy_up (Suc n) m dest src = copy_up n ?m1 (dest + 1) (src + 1)"
    using Suc.prems by (simp add: load_Some store_Some)
  also have "\<dots> = Some (write_bytes ?m1 (dest + 1) (take n (drop (src + 1) ?m1)))"
    by (rule Suc.IH) (use Suc.prems in auto)
  also have "take n (drop (src + 1) ?m1) = take n (drop (src + 1) m)"
    using Suc.prems by (intro nth_equalityI) (auto simp: nth_list_update)
  also have "write_bytes ?m1 (dest + 1) (take n (drop (src + 1) m))
      = write_bytes m dest (m ! src # take n (drop (src + 1) m))"
    using Suc.prems by (intro write_bytes_Cons) simp
  also have "m ! src # take n (drop (src + 1) m) = take (Suc n) (drop src m)"
    using Suc.prems by (simp flip: Cons_nth_drop_Suc)
  finally show ?case .
qed simp

lemma write_bytes_snoc:
  assumes "d + length xs < length m"
  shows "write_bytes (m[d + length xs := x]) d xs = write_bytes m d (xs @ [x])"
  using assms
  by (intro nth_equalityI) (auto simp: nth_write_bytes nth_append nth_list_update)

lemma copy_down_area:
  assumes "dest + n \<le> length m" and "src + n \<le> length m" and "src \<le> dest"
  shows "copy_down n m (dest + n) (src + n) = Some (write_bytes m dest (take n (drop src m)))"
  using assms
proof (induction n arbitrary: m)
  case (Suc n)
  let ?m1 = "m[dest + n := m ! (src + n)]"
  have "copy_down (Suc n) m (dest + Suc n) (src + Suc n) = copy_down n ?m1 (dest + n) (src + n)"
    using Suc.prems by (simp add: load_Some store_Some)
  also have "\<dots> = Some (write_bytes ?m1 dest (take n (drop src ?m1)))"
    by (rule Suc.IH) (use Suc.prems in auto)
  also have "take n (drop src ?m1) = take n (drop src m)"
    using Suc.prems by (intro nth_equalityI) (auto simp: nth_list_update)
  also have "write_bytes ?m1 dest (take n (drop src m))
      = write_bytes m dest (take n (drop src m) @ [m ! (src + n)])"
    using Suc.prems write_bytes_snoc [of dest "take n (drop src m)" m] by simp
  also have "take n (drop src m) @ [m ! (src + n)] = take (Suc n) (drop src m)"
    using Suc.prems by (simp add: take_Suc_conv_app_nth)
  finally show ?case .
qed simp

text \<open>A 32-bit load followed by a 32-bit store moves the four bytes.\<close>

lemma le32_bytes:
  "ucast (le32 b0 b1 b2 b3) = b0" "ucast (drop_bit 8 (le32 b0 b1 b2 b3)) = b1"
  "ucast (drop_bit 16 (le32 b0 b1 b2 b3)) = b2" "ucast (drop_bit 24 (le32 b0 b1 b2 b3)) = b3"
  unfolding le32_def by (rule bit_word_eqI; auto simp: bit_simps dest: bit_imp_le_length)+

lemma store32_bytes:
  assumes "a + 4 \<le> length m"
  shows "store32 m a w = Some (write_bytes m a
     [ucast w, ucast (drop_bit 8 w), ucast (drop_bit 16 w), ucast (drop_bit 24 w)])"
  using assms
  by (simp add: store32_def store_Some write_bytes_Cons [symmetric] numeral_2_eq_2 numeral_3_eq_3)

lemma take4_drop:
  assumes "a + 4 \<le> length m"
  shows "take 4 (drop a m) = [m ! a, m ! (a + 1), m ! (a + 2), m ! (a + 3)]"
  using assms by (intro nth_equalityI) (auto simp: less_Suc_eq numeral_eq_Suc)

lemma load_store32:
  assumes "s + 4 \<le> length m" and "d + 4 \<le> length m"
  shows "do { w \<leftarrow> load32 m s; store32 m d w } = Some (write_bytes m d (take 4 (drop s m)))"
  using assms by (simp add: load32_def load_Some store32_bytes le32_bytes take4_drop)

lemma memcpy_words_area:
  assumes "d + n \<le> length m" and "s + n \<le> length m" and "s + n \<le> d \<or> d + n \<le> s"
  shows "memcpy_words m d s n = Some (d + n div 4 * 4, s + n div 4 * 4, n mod 4,
     write_bytes m d (take (n div 4 * 4) (drop s m)))"
  using assms
proof (induction m d s n rule: memcpy_words.induct)
  case (1 m d s n)
  show ?case
  proof (cases "4 \<le> n")
    case True
    let ?m1 = "write_bytes m d (take 4 (drop s m))"
    let ?k = "(n - 4) div 4 * 4"
    have n4: "n div 4 * 4 = 4 + ?k" using True by (simp add: div_if)
    have len: "length ?m1 = length m" using 1(2,3) True by simp
    from load_store32 [of s m d] obtain w where
      w: "load32 m s = Some w" "store32 m d w = Some ?m1"
      using 1(2,3) True by (auto simp: bind_eq_Some_conv)
    have rest: "take ?k (drop (s + 4) ?m1) = take ?k (drop (s + 4) m)"
      using 1(2-4) True len
      by (intro nth_equalityI) (auto simp: nth_write_bytes)
    have "memcpy_words m d s n = memcpy_words ?m1 (d + 4) (s + 4) (n - 4)"
      using True w by (simp add: memcpy_words.simps [of m d s n])
    also have "\<dots> = Some (d + 4 + ?k, s + 4 + ?k, (n - 4) mod 4,
        write_bytes ?m1 (d + 4) (take ?k (drop (s + 4) ?m1)))"
      by (rule 1(1) [OF True w]) (use 1(2-4) True len in auto)
    also have "write_bytes ?m1 (d + 4) (take ?k (drop (s + 4) ?m1))
        = write_bytes m d (take 4 (drop s m) @ take ?k (drop (s + 4) m))"
      using write_bytes_append [of d "take 4 (drop s m)" m] 1(2,3) True unfolding rest by simp
    also have "take 4 (drop s m) @ take ?k (drop (s + 4) m) = take (n div 4 * 4) (drop s m)"
      unfolding n4 by (simp add: take_add add.commute)
    also have "(n - 4) mod 4 = n mod 4" using True by (simp add: le_mod_geq)
    finally show ?thesis by (simp add: n4)
  next
    case False
    then show ?thesis by (simp add: memcpy_words.simps [of m d s n])
  qed
qed

lemma memcpy_area:
  assumes "d + n \<le> length m" and "s + n \<le> length m" and "s + n \<le> d \<or> d + n \<le> s"
  shows "memcpy m d s n = Some (d, write_bytes m d (take n (drop s m)))"
proof (cases "d mod 4 = 0 \<and> s mod 4 = 0")
  case True
  define k r where "k = n div 4 * 4" and "r = n mod 4"
  let ?m1 = "write_bytes m d (take k (drop s m))"
  have k: "k + r = n" by (simp add: k_def r_def)
  have len: "length ?m1 = length m" using assms k by simp
  have "copy_up r ?m1 (d + k) (s + k)
      = Some (write_bytes ?m1 (d + k) (take r (drop (s + k) ?m1)))"
    by (rule copy_up_area) (use assms len k in auto)
  also have "take r (drop (s + k) ?m1) = take r (drop (s + k) m)"
  proof (rule nth_equalityI)
    fix i assume "i < length (take r (drop (s + k) ?m1))"
    then have "i < r" "s + k + i < length m" "s + k + i < s + n" using len k by auto
    then show "take r (drop (s + k) ?m1) ! i = take r (drop (s + k) m) ! i"
      using assms k by (auto simp: nth_write_bytes)
  qed (simp add: len)
  also have "write_bytes ?m1 (d + k) (take r (drop (s + k) m))
      = write_bytes m d (take k (drop s m) @ take r (drop (s + k) m))"
    using write_bytes_append [of d "take k (drop s m)" m] assms k by simp
  also have "take k (drop s m) @ take r (drop (s + k) m) = take n (drop s m)"
    using take_add [of k r "drop s m"] k by (simp add: add.commute)
  finally show ?thesis
    using True memcpy_words_area [OF assms] assms by (auto simp: memcpy_def k_def r_def)
next
  case False
  have "copy_up n m d s = Some (write_bytes m d (take n (drop s m)))"
    using assms by (intro copy_up_area) auto
  moreover have "n = 0" if "s = d" using that assms by simp
  ultimately show ?thesis using False by (auto simp: memcpy_def)
qed

lemma funpow_4: "(f ^^ 4) x = f (f (f (f x)))"
  by (simp add: eval_nat_numeral)

lemma replicate_4: "replicate 4 x = [x, x, x, x]"
  by (simp add: eval_nat_numeral)

lemma memset_fill_bytes:
  "ucast (memset_fill c) = (ucast c :: byte)" "ucast (drop_bit 8 (memset_fill c)) = (ucast c :: byte)"
  "ucast (drop_bit 16 (memset_fill c)) = (ucast c :: byte)"
  "ucast (drop_bit 24 (memset_fill c)) = (ucast c :: byte)"
proof -
  have ff: "(255 :: u32) = mask 8" by (simp add: mask_eq_exp_minus_1)
  have "memset_fill c = le32 (ucast c) (ucast c) (ucast c) (ucast c)"
    unfolding memset_fill_def le32_def funpow_4 ff
    by (rule bit_word_eqI) (auto simp: bit_simps)
  then show "ucast (memset_fill c) = (ucast c :: byte)"
    "ucast (drop_bit 8 (memset_fill c)) = (ucast c :: byte)"
    "ucast (drop_bit 16 (memset_fill c)) = (ucast c :: byte)"
    "ucast (drop_bit 24 (memset_fill c)) = (ucast c :: byte)"
    by (simp_all add: le32_bytes)
qed

lemma memset_bytes_area:
  "s + n \<le> length m \<Longrightarrow> memset_bytes m s c n = Some (write_bytes m s (replicate n c))"
proof (induction n arbitrary: m s)
  case (Suc n)
  then show ?case using Suc.IH [of "s + 1" "m[s := c]"] write_bytes_Cons [of s m c "replicate n c"]
    by (simp add: store_Some)
qed simp

lemma memset_words_area:
  assumes "s + n \<le> length m"
  shows "memset_words m s (memset_fill c) n = Some (s + n div 4 * 4, n mod 4,
     write_bytes m s (replicate (n div 4 * 4) (ucast c)))"
  using assms
proof (induction m s "memset_fill c" n rule: memset_words.induct)
  case (1 m s n)
  show ?case
  proof (cases "4 \<le> n")
    case True
    let ?k = "(n - 4) div 4 * 4"
    let ?m1 = "write_bytes m s (replicate 4 (ucast c))"
    have n4: "n div 4 * 4 = 4 + ?k" using True by (simp add: div_if)
    have st: "store32 m s (memset_fill c) = Some ?m1"
      using 1(2) True by (simp add: store32_bytes memset_fill_bytes replicate_4)
    then have "memset_words m s (memset_fill c) n = memset_words ?m1 (s + 4) (memset_fill c) (n - 4)"
      using True by (simp add: memset_words.simps [of m s _ n])
    also have "\<dots> = Some (s + 4 + ?k, (n - 4) mod 4, write_bytes ?m1 (s + 4) (replicate ?k (ucast c)))"
      by (rule 1(1) [OF True st]) (use 1(2) True in auto)
    also have "write_bytes ?m1 (s + 4) (replicate ?k (ucast c))
        = write_bytes m s (replicate (n div 4 * 4) (ucast c))"
      using write_bytes_append [of s "replicate 4 (ucast c)" m "replicate ?k (ucast c)"] 1(2) True
      unfolding n4 by (simp add: replicate_add)
    also have "(n - 4) mod 4 = n mod 4" using True by (simp add: le_mod_geq)
    finally show ?thesis by (simp add: n4)
  next
    case False
    then show ?thesis by (simp add: memset_words.simps [of m s _ n])
  qed
qed

lemma memset_area:
  assumes "s + n \<le> length m"
  shows "memset m s c n = Some (s, write_bytes m s (replicate n (ucast c)))"
proof (cases "s mod 4 = 0")
  case True
  define k r where "k = n div 4 * 4" and "r = n mod 4"
  have k: "k + r = n" by (simp add: k_def r_def)
  let ?m1 = "write_bytes m s (replicate k (ucast c))"
  have "memset_bytes ?m1 (s + k) (ucast c) r
      = Some (write_bytes ?m1 (s + k) (replicate r (ucast c)))"
    by (rule memset_bytes_area) (use assms k in auto)
  also have "write_bytes ?m1 (s + k) (replicate r (ucast c)) = write_bytes m s (replicate n (ucast c))"
    using write_bytes_append [of s "replicate k (ucast c)" m "replicate r (ucast c)"] assms k
    by (auto simp flip: replicate_add)
  finally show ?thesis
    using True memset_words_area [OF assms, of c] by (simp add: memset_def k_def r_def)
next
  case False
  then show ?thesis using memset_bytes_area [OF assms] by (simp add: memset_def)
qed

section \<open>Comparison\<close>

lemma sint_diff_zero: "sint (a - b) = 0 \<longleftrightarrow> (a :: byte) = b"
  using signed_eq_0_iff [of "a - b"] by simp

lemma sint_diff_ascii:
  assumes "a < (128 :: byte)" and "b < 128"
  shows "sint (a - b) = uint a - uint b"
proof -
  have ab: "0 \<le> uint a" "uint a < 128" "0 \<le> uint b" "uint b < 128"
    using assms by (simp_all add: word_less_def)
  have "sint (a - b) = signed_take_bit 7 (uint (a - b))" by (simp add: sint_uint)
  also have "uint (a - b) = take_bit 8 (uint a - uint b)" by (simp add: uint_word_ariths take_bit_eq_mod)
  also have "signed_take_bit 7 (take_bit 8 (uint a - uint b)) = signed_take_bit 7 (uint a - uint b)"
    by (simp add: signed_take_bit_take_bit)
  also have "- 128 \<le> uint a - uint b \<and> uint a - uint b < 128" using ab by linarith
  then have "signed_take_bit 7 (uint a - uint b) = uint a - uint b"
    by (intro signed_take_bit_int_eq_self) simp_all
  finally show ?thesis .
qed

lemma sint_diff_sign: "a < (128 :: byte) \<Longrightarrow> b < 128 \<Longrightarrow> sint (a - b) < 0 \<longleftrightarrow> a < b"
  by (simp add: sint_diff_ascii word_less_def)

lemma strcmp_cstr:
  assumes "cstr m a xs" and "cstr m b ys"
  shows "\<exists>r. strcmp m a b = Some r \<and> (r = 0 \<longleftrightarrow> xs = ys)
     \<and> (list_all (\<lambda>c. c < 128) xs \<longrightarrow> list_all (\<lambda>c. c < 128) ys \<longrightarrow> (r < 0 \<longleftrightarrow> xs < ys))"
  using assms
proof (induction xs arbitrary: a b ys)
  case Nil
  show ?case
  proof (cases ys)
    case (Cons y ys')
    then show ?thesis
      using Nil sint_diff_zero [of 0 y] sint_diff_sign [of 0 y]
      by (auto simp: strcmp.simps [of m a b] word_gt_0)
  qed (use Nil in \<open>simp add: strcmp.simps [of m a b]\<close>)
next
  case (Cons x xs)
  show ?case
  proof (cases ys)
    case Nil
    then show ?thesis
      using Cons.prems sint_diff_zero [of x 0] sint_diff_sign [of x 0]
      by (auto simp: strcmp.simps [of m a b])
  next
    case (Cons y ys')
    then show ?thesis
      using Cons.prems Cons.IH [of "a + 1" "b + 1" ys'] sint_diff_zero [of x y] sint_diff_sign [of x y]
      by (cases "x = y") (auto simp: strcmp.simps [of m a b])
  qed
qed


lemma memcmp_area:
  assumes "a + n \<le> length m" and "b + n \<le> length m"
  shows "\<exists>r. memcmp m a b n = Some r \<and> (r = 0 \<longleftrightarrow> take n (drop a m) = take n (drop b m))
     \<and> (r < 0 \<longleftrightarrow> take n (drop a m) < take n (drop b m))"
  using assms
proof (induction n arbitrary: a b)
  case (Suc n)
  have ab: "take (Suc n) (drop a m) = m ! a # take n (drop (a + 1) m)"
    "take (Suc n) (drop b m) = m ! b # take n (drop (b + 1) m)"
    using Suc.prems by (simp_all flip: Cons_nth_drop_Suc)
  show ?case
  proof (cases "m ! a = m ! b")
    case True
    then show ?thesis using Suc.prems Suc.IH [of "a + 1" "b + 1"] unfolding ab by (simp add: load_Some)
  next
    case False
    then show ?thesis
      using Suc.prems unfolding ab by (simp add: load_Some word_less_def flip: word_uint_eq_iff)
  qed
qed simp

lemma memmove_area:
  assumes "d + n \<le> length m" and "s + n \<le> length m"
  shows "memmove m d s n = Some (d, write_bytes m d (take n (drop s m)))"
proof -
  have "s = d \<Longrightarrow> write_bytes m d (take n (drop s m)) = m"
    using assms by (intro nth_equalityI) (auto simp: nth_write_bytes)
  then show ?thesis
    using copy_up_area [of d n m s] copy_down_area [of d n m s] assms by (auto simp: memmove_def)
qed

section \<open>Searching\<close>

lemma strchr_cstr:
  "cstr m s xs \<Longrightarrow> strchr m s c =
     Some (if c \<in> set (xs @ [0]) then Some (s + length (takeWhile (\<lambda>x. x \<noteq> c) (xs @ [0]))) else None)"
proof (induction xs arbitrary: s)
  case Nil
  then show ?case by (auto simp: strchr.simps [of m s])
next
  case (Cons x xs)
  then show ?case by (auto simp: strchr.simps [of m s])
qed

lemma accept_scan_cstr: "cstr m a ys \<Longrightarrow> accept_scan m c a = Some (c \<in> set ys)"
  by (induction ys arbitrary: a) (auto simp: accept_scan.simps)

lemma strspn_loop_cstr:
  assumes "cstr m a ys"
  shows "cstr m s xs \<Longrightarrow> strspn_loop m s a n = Some (n + length (takeWhile (\<lambda>x. x \<in> set ys) xs))"
  by (induction xs arbitrary: s n) (auto simp: strspn_loop.simps accept_scan_cstr [OF assms])

lemma strspn_cstr:
  "cstr m s xs \<Longrightarrow> cstr m a ys \<Longrightarrow> strspn m s a = Some (length (takeWhile (\<lambda>x. x \<in> set ys) xs))"
  by (simp add: strspn_def strspn_loop_cstr)

lemma strpbrk_cstr:
  assumes "cstr m a ys"
  shows "cstr m s xs \<Longrightarrow> strpbrk m s a =
     Some (if set xs \<inter> set ys = {} then None
           else Some (s + length (takeWhile (\<lambda>x. x \<notin> set ys) xs)))"
  by (induction xs arbitrary: s) (auto simp: strpbrk.simps accept_scan_cstr [OF assms])


lemma strstr_loop_area:
  assumes "a + n \<le> length m" and "b + k \<le> length m"
  shows "\<exists>r. strstr_loop m a b (int n) (int k) = Some r \<and>
     (case r of None \<Rightarrow> \<forall>i. i + k \<le> n \<longrightarrow> take k (drop (a + i) m) \<noteq> take k (drop b m)
      | Some p \<Rightarrow> \<exists>i. p = a + i \<and> i + k \<le> n \<and> take k (drop (a + i) m) = take k (drop b m)
          \<and> (\<forall>j<i. take k (drop (a + j) m) \<noteq> take k (drop b m)))"
  using assms
proof (induction n arbitrary: a)
  case 0
  show ?case
  proof (cases "k = 0")
    case True
    then show ?thesis by (simp add: strstr_loop.simps [of m a])
  next
    case False
    then show ?thesis by (simp add: strstr_loop.simps [of m a])
  qed
next
  case (Suc n)
  show ?case
  proof (cases "k \<le> Suc n")
    case True
    obtain r where r: "memcmp m a b k = Some r" "r = 0 \<longleftrightarrow> take k (drop a m) = take k (drop b m)"
      using memcmp_area [of a k m b] True Suc.prems by auto
    show ?thesis
    proof (cases "r = 0")
      case r0: True
      then show ?thesis using True r by (simp add: strstr_loop.simps [of m a])
    next
      case False
      then have ne: "take k (drop a m) \<noteq> take k (drop b m)" using r by simp
      obtain q where q: "strstr_loop m (a + 1) b (int n) (int k) = Some q"
        "case q of None \<Rightarrow> \<forall>i. i + k \<le> n \<longrightarrow> take k (drop (a + 1 + i) m) \<noteq> take k (drop b m)
         | Some p \<Rightarrow> \<exists>i. p = a + 1 + i \<and> i + k \<le> n \<and> take k (drop (a + 1 + i) m) = take k (drop b m)
            \<and> (\<forall>j<i. take k (drop (a + 1 + j) m) \<noteq> take k (drop b m))"
        using Suc.IH [of "a + 1"] Suc.prems by auto
      have step: "strstr_loop m a b (int (Suc n)) (int k) = Some q"
        using True r False q(1) by (simp add: strstr_loop.simps [of m a])
      show ?thesis
      proof (cases q)
        case None
        then have "take k (drop (a + i) m) \<noteq> take k (drop b m)" if "i + k \<le> Suc n" for i
          using q(2) ne that by (cases i) auto
        then show ?thesis using step None by simp
      next
        case (Some p)
        then obtain i where i: "p = a + 1 + i" "i + k \<le> n"
          "take k (drop (a + 1 + i) m) = take k (drop b m)"
          "\<forall>j<i. take k (drop (a + 1 + j) m) \<noteq> take k (drop b m)"
          using q(2) by auto
        then have "\<forall>j<Suc i. take k (drop (a + j) m) \<noteq> take k (drop b m)"
          using ne by (auto simp: less_Suc_eq_0_disj)
        then have "p = a + Suc i \<and> Suc i + k \<le> Suc n
            \<and> take k (drop (a + Suc i) m) = take k (drop b m)
            \<and> (\<forall>j<Suc i. take k (drop (a + j) m) \<noteq> take k (drop b m))"
          using i by simp
        then show ?thesis using step Some by auto
      qed
    qed
  next
    case False
    then show ?thesis by (simp add: strstr_loop.simps [of m a])
  qed
qed

lemma cstr_take: "cstr m s xs \<Longrightarrow> i + k \<le> length xs \<Longrightarrow> take k (drop (s + i) m) = take k (drop i xs)"
proof -
  assume c: "cstr m s xs" and k: "i + k \<le> length xs"
  then have xs: "take (length xs) (drop s m) = xs" by (simp add: cstr_iff)
  have "take k (drop i xs) = take k (drop i (take (length xs) (drop s m)))" using xs by simp
  also have "\<dots> = take k (drop (s + i) m)" using k by (simp add: drop_take add.commute)
  finally show "take k (drop (s + i) m) = take k (drop i xs)" by simp
qed

text \<open>\<open>occurs_at ys xs i\<close>: the list \<open>ys\<close> stands in \<open>xs\<close> at index \<open>i\<close>.\<close>

definition occurs_at :: "'a list \<Rightarrow> 'a list \<Rightarrow> nat \<Rightarrow> bool" where
  "occurs_at ys xs i \<longleftrightarrow> i + length ys \<le> length xs \<and> take (length ys) (drop i xs) = ys"

lemma occurs_at_sublist: "(\<exists>i. occurs_at ys xs i) \<longleftrightarrow> sublist ys xs"
proof
  assume "\<exists>i. occurs_at ys xs i"
  then obtain i where "take (length ys) (drop i xs) = ys" by (auto simp: occurs_at_def)
  then have "xs = take i xs @ ys @ drop (length ys) (drop i xs)"
    by (metis append_take_drop_id)
  then show "sublist ys xs" unfolding sublist_def by blast
next
  assume "sublist ys xs"
  then obtain ps ss where "xs = ps @ ys @ ss" by (auto simp: sublist_def)
  then have "occurs_at ys xs (length ps)" by (simp add: occurs_at_def)
  then show "\<exists>i. occurs_at ys xs i" ..
qed

lemma strstr_cstr:
  assumes "cstr m a xs" and "cstr m b ys"
  shows "\<exists>r. strstr m a b = Some r \<and>
     (case r of None \<Rightarrow> \<forall>i. \<not> occurs_at ys xs i
      | Some p \<Rightarrow> \<exists>i. p = a + i \<and> occurs_at ys xs i \<and> (\<forall>j<i. \<not> occurs_at ys xs j))"
proof (cases "ys = []")
  case True
  then show ?thesis using strlen_cstr [OF assms(2)] by (simp add: strstr_def occurs_at_def)
next
  case False
  let ?k = "length ys"
  have b: "take ?k (drop b m) = ys" using cstr_take [OF assms(2), of 0 ?k] by simp
  have occ: "occurs_at ys xs i \<longleftrightarrow> take ?k (drop (a + i) m) = ys" if "i + ?k \<le> length xs" for i
    using that cstr_take [OF assms(1) that] by (simp add: occurs_at_def)
  obtain r where r: "strstr_loop m a b (int (length xs)) (int ?k) = Some r"
     "case r of None \<Rightarrow> \<forall>i. i + ?k \<le> length xs \<longrightarrow> take ?k (drop (a + i) m) \<noteq> ys
      | Some p \<Rightarrow> \<exists>i. p = a + i \<and> i + ?k \<le> length xs \<and> take ?k (drop (a + i) m) = ys
          \<and> (\<forall>j<i. take ?k (drop (a + j) m) \<noteq> ys)"
    using strstr_loop_area [of a "length xs" m b ?k] cstr_bound [OF assms(1)] cstr_bound [OF assms(2)]
    unfolding b by auto
  have "strstr m a b = Some r"
    using r(1) False strlen_cstr [OF assms(1)] strlen_cstr [OF assms(2)] by (simp add: strstr_def)
  then show ?thesis using r(2) occ by (cases r) (auto simp: occurs_at_def)
qed


section \<open>Tokenising\<close>

lemma cstr_split:
  assumes "cstr m s xs" and "k < length xs"
  shows "cstr (m[s + k := 0]) s (take k xs)" "cstr (m[s + k := 0]) (s + k + 1) (drop (k + 1) xs)"
proof -
  have b: "s + length xs < length m" using cstr_bound [OF assms(1)] .
  have "take k (drop s m) = take k xs" using cstr_take [OF assms(1), of 0 k] assms(2) by simp
  then show "cstr (m[s + k := 0]) s (take k xs)"
    using assms b cstr_no_nul [OF assms(1)] by (auto simp: cstr_iff drop_update_swap dest: in_set_takeD)
  have "cstr m (s + (k + 1)) (drop (k + 1) xs)" using cstr_drop [OF assms(1), of "k + 1"] assms(2) by simp
  then show "cstr (m[s + k := 0]) (s + k + 1) (drop (k + 1) xs)" by simp
qed

text \<open>The first token of a string and what follows it, for a set of delimiters.\<close>

definition tok_end :: "byte list \<Rightarrow> byte list \<Rightarrow> nat" where
  "tok_end ys xs = length (takeWhile (\<lambda>x. x \<notin> set ys) xs)"

definition tok_start :: "byte list \<Rightarrow> byte list \<Rightarrow> nat" where
  "tok_start ys xs = length (takeWhile (\<lambda>x. x \<in> set ys) xs)"

lemma tok_end_less: "tok_end ys xs < length xs \<longleftrightarrow> set xs \<inter> set ys \<noteq> {}"
  unfolding tok_end_def by (induction xs) auto

lemma tok_end_no_delim: "set (take (tok_end ys xs) xs) \<inter> set ys = {}"
  unfolding tok_end_def by (simp add: takeWhile_eq_take [symmetric]) (auto dest: set_takeWhileD)

lemma tok_start_delims: "set (take (tok_start ys xs) xs) \<subseteq> set ys"
  unfolding tok_start_def by (simp add: takeWhile_eq_take [symmetric]) (auto dest: set_takeWhileD)

lemma tok_start_all: "tok_start ys xs = length xs \<longleftrightarrow> set xs \<subseteq> set ys"
  unfolding tok_start_def by (induction xs) auto

lemma strpbrk_tok:
  assumes "cstr m a ys" and "cstr m s xs"
  shows "strpbrk m s a = Some (if tok_end ys xs < length xs then Some (s + tok_end ys xs) else None)"
proof (cases "set xs \<inter> set ys = {}")
  case True
  then show ?thesis using strpbrk_cstr [OF assms] tok_end_less [of ys xs] by simp
next
  case False
  then show ?thesis using strpbrk_cstr [OF assms] tok_end_less [of ys xs] by (simp add: tok_end_def)
qed

lemma strsep_cstr:
  assumes "cstr m s xs" and "cstr m a ys"
  shows "strsep m (Some s) a =
     (if tok_end ys xs < length xs
      then Some (Some s, Some (s + tok_end ys xs + 1), m[s + tok_end ys xs := 0])
      else Some (Some s, None, m))"
  using strpbrk_tok [OF assms(2,1)] cstr_bound [OF assms(1)] by (auto simp: strsep_def store_Some)

lemma strtok_cstr:
  assumes "cstr m s xs" and "cstr m a ys" and "(case p of Some q \<Rightarrow> q = s | None \<Rightarrow> place = Some s)"
    and "k = tok_start ys xs" and "e = tok_end ys (drop k xs)"
  shows "strtok m place p a =
     (if k = length xs then Some (None, None, m)
      else if k + e = length xs then Some (Some (s + k), None, m)
      else Some (Some (s + k), Some (s + k + e + 1), m[s + k + e := 0]))"
proof -
  have start: "(case p of Some q \<Rightarrow> Some q | None \<Rightarrow> place) = Some s"
    using assms(3) by (auto split: option.splits)
  have k: "k \<le> length xs" unfolding assms(4) tok_start_def by (rule length_takeWhile_le)
  have c: "cstr m (s + k) (drop k xs)" using cstr_drop [OF assms(1) k] .
  have e: "e \<le> length (drop k xs)" unfolding assms(5) tok_end_def by (rule length_takeWhile_le)
  have b: "s + length xs < length m" using cstr_bound [OF assms(1)] .
  have spn: "strspn m s a = Some k" using strspn_cstr [OF assms(1,2)] by (simp add: assms(4) tok_start_def)
  have pbrk: "strpbrk m (s + k) a = Some (if e < length (drop k xs) then Some (s + k + e) else None)"
    using strpbrk_tok [OF assms(2) c] by (simp add: assms(5))
  have ld: "load m (s + k) = Some (if k = length xs then 0 else xs ! k)"
    "k < length xs \<Longrightarrow> xs ! k \<noteq> 0"
    using c k cstr_no_nul [OF assms(1)] nth_mem [of k xs]
    by (cases "drop k xs"; auto simp: drop_eq_Nil nth_via_drop)+
  have le: "load m (s + k + e) = Some (xs ! (k + e))" "xs ! (k + e) \<noteq> 0" if "k + e < length xs"
    using cstr_drop [OF assms(1), of "k + e"] that cstr_no_nul [OF assms(1)] nth_mem [of "k + e" xs]
    by (cases "drop (k + e) xs"; auto simp: drop_eq_Nil nth_via_drop add.assoc)+
  show ?thesis using k e b by (auto simp: strtok_def start spn pbrk ld le store_Some)
qed

lemma strtok_place: "strtok m (Some q) None ct = strtok m None (Some q) ct"
  by (simp add: strtok_def)

section \<open>Byte swapping\<close>

fun swab_list :: "byte list \<Rightarrow> byte list" where
  "swab_list (x # y # xs) = y # x # swab_list xs"
| "swab_list [x] = [x]"
| "swab_list [] = []"

lemma swab_list_swab_list [simp]: "swab_list (swab_list xs) = xs"
  by (induction xs rule: swab_list.induct) auto

lemma length_swab_list [simp]: "length (swab_list xs) = length xs"
  by (induction xs rule: swab_list.induct) auto

lemma set_swab_list [simp]: "set (swab_list xs) = set xs"
  by (induction xs rule: swab_list.induct) auto

lemma strswab_loop_cstr:
  "cstr m s xs \<Longrightarrow> strswab_loop m s = Some (write_bytes m s (swab_list xs))"
proof (induction xs arbitrary: m s rule: swab_list.induct)
  case (1 x y xs)
  let ?m2 = "m[s := y, s + 1 := x]"
  have b: "s + 2 + length xs < length m" using cstr_bound [OF 1(2)] by simp
  have "strswab_loop m s = strswab_loop ?m2 (s + 2)"
    using 1(2) b by (simp add: strswab_loop.simps [of m s] store_Some)
  also have "\<dots> = Some (write_bytes ?m2 (s + 2) (swab_list xs))"
    using 1(2) by (intro 1(1)) simp
  also have "write_bytes ?m2 (s + 2) (swab_list xs) = write_bytes m s (y # x # swab_list xs)"
    using write_bytes_Cons [of "s + 1" "m[s := y]" x "swab_list xs"]
      write_bytes_Cons [of s m y "x # swab_list xs"] b by simp
  finally show ?case by simp
next
  case (2 v)
  then have "write_bytes m s [v] = m"
    by (intro nth_equalityI) (auto simp: nth_write_bytes load_eq_Some_iff le_less_Suc_eq)
  then show ?case using 2 by (simp add: strswab_loop.simps [of m s])
next
  case 3
  then show ?case by (simp add: strswab_loop.simps [of m s])
qed


section \<open>Properties\<close>

text \<open>(lib/string.c, \<open>strlen\<close>). The scan ends exactly when a terminator follows \<open>s\<close> inside the
  memory, and then returns the number of bytes before the first one.\<close>

theorem strlen_exact:
  "strlen m s = Some n
     \<longleftrightarrow> s + n < length m \<and> m ! (s + n) = 0 \<and> 0 \<notin> set (take n (drop s m))"
  by (auto simp: strlen_iff cstr_iff intro!: exI [of _ "take n (drop s m)"])

text \<open>(lib/string.c, \<open>strcat\<close>). When the terminated string \<open>ys\<close> does not overlap the room behind
  \<open>xs\<close>, \<open>strcat\<close> leaves \<open>xs @ ys\<close> at \<open>dest\<close>, returns \<open>dest\<close>, leaves \<open>src\<close> as it was and changes no byte
  outside the appended part.\<close>

theorem strcat_appends:
  assumes "cstr m dest xs" and "cstr m src ys"
    and "dest + length xs + length ys < length m"
    and "dest + length xs + length ys < src \<or> src + length ys < dest + length xs"
  shows "\<exists>m'. strcat m dest src = Some (dest, m') \<and> length m' = length m
     \<and> cstr m' dest (xs @ ys) \<and> cstr m' src ys
     \<and> (\<forall>i<length m. i < dest + length xs \<or> dest + length xs + length ys < i \<longrightarrow> m' ! i = m ! i)"
proof -
  let ?m = "write_bytes m (dest + length xs) (ys @ [0])"
  have "strcpy_loop m (dest + length xs) src = Some ?m"
    by (rule strcpy_loop_cstr) (use assms in auto)
  then have run: "strcat m dest src = Some (dest, ?m)"
    using strlen_loop_cstr [OF assms(1)] by (simp add: strcat_def)
  have x: "take (length xs) (drop dest m) = xs" using assms(1) by (simp add: cstr_iff)
  have tk: "take (length (xs @ ys)) (drop dest ?m) = xs @ ys"
  proof (rule nth_equalityI)
    fix i assume "i < length (take (length (xs @ ys)) (drop dest ?m))"
    then have i: "i < length xs + length ys" "dest + i < length m" using assms(3) by auto
    have "m ! (dest + i) = xs ! i" if "i < length xs"
      using that arg_cong [OF x, of "\<lambda>l. l ! i"] assms(3) by simp
    then show "take (length (xs @ ys)) (drop dest ?m) ! i = (xs @ ys) ! i"
      using i assms(3) by (auto simp: nth_write_bytes nth_append)
  qed (use assms(3) in simp)
  have "cstr ?m dest (xs @ ys)"
    using tk assms(3) cstr_no_nul [OF assms(1)] cstr_no_nul [OF assms(2)]
    by (auto simp: cstr_iff nth_write_bytes nth_append)
  moreover have "cstr ?m src ys"
    by (rule cstr_write_other) (use assms in auto)
  moreover have "\<forall>i<length m. i < dest + length xs \<or> dest + length xs + length ys < i \<longrightarrow> ?m ! i = m ! i"
    using assms(3) by (auto simp: nth_write_bytes)
  ultimately show ?thesis using run assms(3) by auto
qed

theorem strcat_appends_witness:
  "\<exists>m'. strcat [7, 0, 9, 9, 5, 6, 0] 0 4 = Some (0, m') \<and> length m' = length ([7, 0, 9, 9, 5, 6, 0] :: mem)
     \<and> cstr m' 0 ([7] @ [5, 6]) \<and> cstr m' 4 [5, 6]
     \<and> (\<forall>i<length ([7, 0, 9, 9, 5, 6, 0] :: mem). i < 0 + length ([7] :: mem) \<or> 0 + length ([7] :: mem) + length ([5, 6] :: mem) < i
          \<longrightarrow> m' ! i = [7, 0, 9, 9, 5, 6, 0] ! i)"
  by (rule strcat_appends) (simp_all add: load_def)

text \<open>C35 (lib/string.c, \<open>memmove\<close>). For any two areas inside the memory, overlapping in either
  direction, the destination afterwards holds what the source held before, and nothing else changed.\<close>

theorem memmove_any_overlap:
  assumes "d + n \<le> length m" and "s + n \<le> length m"
  shows "\<exists>m'. memmove m d s n = Some (d, m') \<and> length m' = length m
     \<and> take n (drop d m') = take n (drop s m)
     \<and> (\<forall>i<length m. i < d \<or> d + n \<le> i \<longrightarrow> m' ! i = m ! i)"
proof -
  let ?m = "write_bytes m d (take n (drop s m))"
  have "take n (drop d ?m) = take n (drop s m)"
    using assms by (intro nth_equalityI) (auto simp: nth_write_bytes)
  then show ?thesis using memmove_area [OF assms] assms by (auto simp: nth_write_bytes)
qed

theorem memmove_any_overlap_witness:
  "\<exists>m'. memmove [1, 2, 3, 4, 5] 1 0 4 = Some (1, m') \<and> length m' = length ([1, 2, 3, 4, 5] :: mem)
     \<and> take 4 (drop 1 m') = take 4 (drop 0 [1, 2, 3, 4, 5])
     \<and> (\<forall>i<length ([1, 2, 3, 4, 5] :: mem). i < 1 \<or> 1 + 4 \<le> i \<longrightarrow> m' ! i = [1, 2, 3, 4, 5] ! i)"
  by (rule memmove_any_overlap) simp_all

text \<open>(lib/string.c, \<open>memcpy\<close>). The word-at-a-time copy, taken when both addresses are aligned, and
  the byte loop behind it together compute what \<open>memmove\<close> does, for every alignment and every length, when
  the areas are disjoint.\<close>

theorem memcpy_is_memmove:
  assumes "d + n \<le> length m" and "s + n \<le> length m" and "s + n \<le> d \<or> d + n \<le> s"
  shows "memcpy m d s n = memmove m d s n"
  using memcpy_area [OF assms] memmove_area [OF assms(1,2)] by simp

theorem memcpy_is_memmove_witness:
  "memcpy [1, 2, 3, 4, 5, 6, 0, 0, 0, 0, 0, 0, 0, 0] 8 0 6
     = memmove [1, 2, 3, 4, 5, 6, 0, 0, 0, 0, 0, 0, 0, 0] 8 0 6"
  by (rule memcpy_is_memmove) simp_all

text \<open>(lib/string.c, \<open>memset\<close>). The word-wise fill and the byte loop set exactly the \<open>n\<close> bytes from
  \<open>s\<close> on to the low byte of \<open>c\<close>, whatever the alignment.\<close>

theorem memset_fills:
  assumes "s + n \<le> length m"
  shows "\<exists>m'. memset m s c n = Some (s, m') \<and> length m' = length m
     \<and> (\<forall>i<length m. m' ! i = (if s \<le> i \<and> i < s + n then ucast c else m ! i))"
  using memset_area [OF assms, of c] assms by (auto simp: nth_write_bytes)

theorem memset_fills_witness:
  "\<exists>m'. memset [1, 2, 3, 4, 5, 6] 0 0x1ff 5 = Some (0, m') \<and> length m' = length ([1, 2, 3, 4, 5, 6] :: mem)
     \<and> (\<forall>i<length ([1, 2, 3, 4, 5, 6] :: mem). m' ! i =
          (if 0 \<le> i \<and> i < 0 + 5 then ucast (0x1ff :: u32) else [1, 2, 3, 4, 5, 6] ! i))"
  by (rule memset_fills) simp

text \<open>(lib/string.c, \<open>strcmp\<close>). The result is zero exactly for equal strings; on 7-bit strings its
  sign is the lexicographic order.\<close>

theorem strcmp_orders:
  assumes "cstr m a xs" and "cstr m b ys"
  shows "\<exists>r. strcmp m a b = Some r \<and> (r = 0 \<longleftrightarrow> xs = ys)
     \<and> (list_all (\<lambda>c. c < 128) xs \<longrightarrow> list_all (\<lambda>c. c < 128) ys \<longrightarrow> (r < 0 \<longleftrightarrow> xs < ys))"
  using strcmp_cstr [OF assms] .

theorem strcmp_orders_witness:
  "\<exists>r. strcmp [5, 6, 0, 5, 7, 0] 0 3 = Some r \<and> (r = 0 \<longleftrightarrow> [5, 6] = ([5, 7] :: mem))
     \<and> (list_all (\<lambda>c. c < 128) ([5, 6] :: mem) \<longrightarrow> list_all (\<lambda>c. c < 128) ([5, 7] :: mem)
        \<longrightarrow> (r < 0 \<longleftrightarrow> [5, 6] < ([5, 7] :: mem)))"
  by (rule strcmp_orders) (simp_all add: load_def)

text \<open>(lib/string.c, \<open>strcmp\<close>). Because the difference is kept in a \<open>signed char\<close>, two first bytes
  that are 128 or more apart compare the wrong way round: the larger string is reported smaller.\<close>

theorem strcmp_wraps:
  assumes "cstr m a (x # xs)" and "cstr m b (y # ys)" and "uint y + 128 \<le> uint x"
  shows "\<exists>r. strcmp m a b = Some r \<and> r < 0"
proof -
  have ne: "x \<noteq> y" using assms(3) by auto
  have lt: "uint x < 256" and ge: "0 \<le> uint y" using uint_lt2p [of x] by simp_all
  have "uint (x - y) = uint x - uint y"
    using assms(3) by (intro uint_minus_simple_alt [THEN iffD1]) (simp add: word_le_def)
  then have "sint (x - y) = signed_take_bit 7 (uint x - uint y)" by (simp add: sint_uint)
  also have "\<dots> = signed_take_bit 7 (uint x - uint y - 256)"
    by (simp add: signed_take_bit_eq_iff_take_bit_eq take_bit_eq_mod)
  also have "- 128 \<le> uint x - uint y - 256 \<and> uint x - uint y - 256 < 128"
    using assms(3) lt ge by linarith
  then have "signed_take_bit 7 (uint x - uint y - 256) = uint x - uint y - 256"
    by (intro signed_take_bit_int_eq_self) simp_all
  finally have "sint (x - y) < 0" using lt ge by linarith
  then show ?thesis using assms(1,2) ne by (auto simp: strcmp.simps [of m a b])
qed

theorem strcmp_wraps_witness: "\<exists>r. strcmp [200, 0, 1, 0] 0 2 = Some r \<and> r < 0"
  by (rule strcmp_wraps [of _ 0 200 "[]" 2 1 "[]"]) (simp_all add: load_def)

text \<open>(lib/string.c, \<open>strstr\<close>). \<open>strstr\<close> returns the address of the first occurrence of the second
  string in the first, and a null pointer exactly when it is no substring.\<close>

theorem strstr_first:
  assumes "cstr m a xs" and "cstr m b ys"
  shows "\<exists>r. strstr m a b = Some r \<and> (r = None \<longleftrightarrow> \<not> sublist ys xs)
     \<and> (\<forall>p. r = Some p \<longrightarrow> (\<exists>i. p = a + i \<and> occurs_at ys xs i \<and> (\<forall>j<i. \<not> occurs_at ys xs j)))"
proof -
  obtain r where r: "strstr m a b = Some r"
     "case r of None \<Rightarrow> \<forall>i. \<not> occurs_at ys xs i
      | Some p \<Rightarrow> \<exists>i. p = a + i \<and> occurs_at ys xs i \<and> (\<forall>j<i. \<not> occurs_at ys xs j)"
    using strstr_cstr [OF assms] by blast
  then show ?thesis by (cases r) (auto simp flip: occurs_at_sublist)
qed

theorem strstr_first_witness:
  "\<exists>r. strstr [1, 2, 1, 2, 3, 0, 2, 3, 0] 0 6 = Some r \<and> (r = None \<longleftrightarrow> \<not> sublist [2, 3] ([1, 2, 1, 2, 3] :: mem))
     \<and> (\<forall>p. r = Some p \<longrightarrow> (\<exists>i. p = 0 + i \<and> occurs_at [2, 3] ([1, 2, 1, 2, 3] :: mem) i
          \<and> (\<forall>j<i. \<not> occurs_at [2, 3] ([1, 2, 1, 2, 3] :: mem) j)))"
  by (rule strstr_first) (simp_all add: load_def)

text \<open>(lib/string.c, \<open>strtok\<close>). A call skips leading delimiters, returns the start of a terminated
  token that holds no delimiter, and keeps its place at the rest of the string, so that the next call
  continues there; the end of the string gives a null pointer and clears the place.\<close>

theorem strtok_next_token:
  assumes "cstr m s xs" and "cstr m ct ys" and "ct + length ys < s \<or> s + length xs < ct"
  shows "\<exists>r place' m'. strtok m None (Some s) ct = Some (r, place', m')
     \<and> (r = None \<longleftrightarrow> set xs \<subseteq> set ys)
     \<and> (\<forall>p. r = Some p \<longrightarrow> (\<exists>k e. k < length xs \<and> p = s + k \<and> 0 < e \<and> k + e \<le> length xs
          \<and> set (take k xs) \<subseteq> set ys \<and> set (take e (drop k xs)) \<inter> set ys = {}
          \<and> cstr m' p (take e (drop k xs)) \<and> cstr m' ct ys
          \<and> (case place' of None \<Rightarrow> k + e = length xs
             | Some q \<Rightarrow> q = p + e + 1 \<and> xs ! (k + e) \<in> set ys \<and> cstr m' q (drop (k + e + 1) xs)
                  \<and> strtok m' place' None ct = strtok m' None (Some q) ct)))"
proof -
  define k where "k = tok_start ys xs"
  define e where "e = tok_end ys (drop k xs)"
  note run = strtok_cstr [OF assms(1,2) _ k_def e_def, of None "Some s", simplified]
  have k: "k \<le> length xs" unfolding k_def tok_start_def by (rule length_takeWhile_le)
  have e: "k + e \<le> length xs"
    using length_takeWhile_le [of _ "drop k xs"] k unfolding e_def tok_end_def by (simp add: le_diff_conv2 add.commute)
  have skip: "set (take k xs) \<subseteq> set ys" unfolding k_def by (rule tok_start_delims)
  have allk: "k = length xs \<longleftrightarrow> set xs \<subseteq> set ys" unfolding k_def by (rule tok_start_all)
  show ?thesis
  proof (cases "k = length xs")
    case True
    then show ?thesis using run allk by auto
  next
    case False
    then have kl: "k < length xs" using k by simp
    then have hd: "xs ! k \<notin> set ys" unfolding k_def tok_start_def using nth_length_takeWhile by fastforce
    then have e0: "0 < e" using kl unfolding e_def tok_end_def by (simp flip: Cons_nth_drop_Suc)
    have nd: "set (take e (drop k xs)) \<inter> set ys = {}" unfolding e_def by (rule tok_end_no_delim)
    have c: "cstr m (s + k) (drop k xs)" using cstr_drop [OF assms(1) k] .
    show ?thesis
    proof (cases "k + e = length xs")
      case True
      then show ?thesis using run False allk kl e0 skip nd c assms(2) by (auto intro!: exI [of _ k] exI [of _ e])
    next
      case ne: False
      then have ke: "e < length (drop k xs)" using e kl by simp
      then have del: "xs ! (k + e) \<in> set ys"
        using nth_length_takeWhile [of "\<lambda>x. x \<notin> set ys" "drop k xs"] unfolding e_def tok_end_def by simp
      have "cstr (m[s + k + e := 0]) ct ys" using assms(2,3) e by auto
      then show ?thesis
        using run False ne allk kl e e0 skip nd del cstr_split [OF c ke]
        by (auto simp: strtok_place add.commute [of e k] intro!: exI [of _ k] exI [of _ e])
    qed
  qed
qed

theorem strtok_next_token_witness:
  "\<exists>r place' m'. strtok [44, 7, 44, 8, 0, 44, 0] None (Some 0) 5 = Some (r, place', m')
     \<and> (r = None \<longleftrightarrow> set [44, 7, 44, 8] \<subseteq> set ([44] :: mem))
     \<and> (\<forall>p. r = Some p \<longrightarrow> (\<exists>k e. k < length ([44, 7, 44, 8] :: mem) \<and> p = 0 + k \<and> 0 < e \<and> k + e \<le> length ([44, 7, 44, 8] :: mem)
          \<and> set (take k [44, 7, 44, 8]) \<subseteq> set ([44] :: mem) \<and> set (take e (drop k [44, 7, 44, 8])) \<inter> set ([44] :: mem) = {}
          \<and> cstr m' p (take e (drop k [44, 7, 44, 8])) \<and> cstr m' 5 [44]
          \<and> (case place' of None \<Rightarrow> k + e = length ([44, 7, 44, 8] :: mem)
             | Some q \<Rightarrow> q = p + e + 1 \<and> [44, 7, 44, 8] ! (k + e) \<in> set ([44] :: mem)
                  \<and> cstr m' q (drop (k + e + 1) [44, 7, 44, 8])
                  \<and> strtok m' place' None 5 = strtok m' None (Some q) 5)))"
  by (rule strtok_next_token) (simp_all add: load_def)

text \<open>(lib/string.c, \<open>strswab\<close>). Swapping the bytes of a non-empty string twice restores the memory.\<close>

theorem strswab_involution:
  assumes "cstr m s xs" and "xs \<noteq> []"
  shows "\<exists>m'. strswab m (Some s) = Some (Some s, m') \<and> cstr m' s (swab_list xs)
     \<and> strswab m' (Some s) = Some (Some s, m)"
proof -
  let ?m = "write_bytes m s (swab_list xs)"
  have b: "s + length xs < length m" and x: "take (length xs) (drop s m) = xs" "m ! (s + length xs) = 0"
    using assms(1) by (auto simp: cstr_iff)
  have "take (length xs) (drop s ?m) = swab_list xs" using b by (simp add: write_bytes_def)
  then have c: "cstr ?m s (swab_list xs)"
    using b x cstr_no_nul [OF assms(1)] by (simp add: cstr_iff nth_write_bytes)
  have "write_bytes ?m s xs = write_bytes m s xs" using b by (simp add: write_bytes_def)
  also have "\<dots> = m"
    using append_take_drop_id [of "length xs" "drop s m"] append_take_drop_id [of s m] b
    unfolding x(1) write_bytes_def by (simp add: add.commute)
  finally have restored: "strswab_loop ?m s = Some m" using strswab_loop_cstr [OF c] by simp
  have "load m s \<noteq> Some 0" "load ?m s \<noteq> Some 0" "load m s \<noteq> None" "load ?m s \<noteq> None"
    using assms c by (cases xs; cases "swab_list xs"; auto dest: arg_cong [of _ _ length])+
  then show ?thesis using c restored strswab_loop_cstr [OF assms(1)] by (auto simp: strswab_def)
qed

theorem strswab_involution_witness:
  "\<exists>m'. strswab [1, 2, 3, 0] (Some 0) = Some (Some 0, m') \<and> cstr m' 0 (swab_list [1, 2, 3])
     \<and> strswab m' (Some 0) = Some (Some 0, [1, 2, 3, 0])"
  by (rule strswab_involution) (simp_all add: load_def)

end
