(* ===== verification/Circbuf.thy ===== *)
theory Circbuf
  imports Byte_Queue
begin

text \<open>
  lib/circbuf.c, the overwriting ring buffer of the USB gadget serial line. \<open>top\<close>, \<open>tail\<close> and \<open>end\<close> are
  offsets into the malloc'ed block; a null \<open>data\<close> pointer is \<^term>\<open>None\<close>. \<open>assert\<close> only prints in a
  debug build and does not stop, so it leaves no trace here. \<open>circ_contents\<close> reads the buffer as a
  list; \<open>circq\<close> shows that the code keeps the contract \<open>overwriting_queue\<close>.
\<close>

record circbuf_t =
  circ_size :: u32
  circ_data :: "mem option"
  circ_top :: nat
  circ_tail :: nat
  circ_end :: nat
  circ_totalsize :: u32

text \<open>\<open>blk\<close> is the allocator's answer to the request for \<open>size\<close> bytes.\<close>

definition buf_init :: "(nat \<Rightarrow> mem option) \<Rightarrow> u32 \<Rightarrow> int \<times> circbuf_t" where
  "buf_init malloc sz = (1, \<lparr>circ_size = 0, circ_data = malloc (unat sz), circ_top = 0, circ_tail = 0,
     circ_end = unat sz, circ_totalsize = sz\<rparr>)"

definition buf_free :: "circbuf_t \<Rightarrow> int \<times> circbuf_t" where
  "buf_free buf = (1, \<lparr>circ_size = 0, circ_data = None, circ_top = 0, circ_tail = 0, circ_end = 0,
     circ_totalsize = 0\<rparr>)"

definition circ_next :: "circbuf_t \<Rightarrow> nat \<Rightarrow> nat" where
  "circ_next buf p = (if p + 1 = circ_end buf then 0 else p + 1)"

fun pop_loop :: "circbuf_t \<Rightarrow> nat \<Rightarrow> mem \<Rightarrow> nat \<Rightarrow> nat \<Rightarrow> (mem \<times> nat) option" where
  "pop_loop buf 0 dest i p = Some (dest, p)"
| "pop_loop buf (Suc n) dest i p =
     do { d \<leftarrow> circ_data buf; c \<leftarrow> load d p; dest1 \<leftarrow> store dest i c;
          pop_loop buf n dest1 (i + 1) (circ_next buf p) }"

definition buf_pop :: "circbuf_t \<Rightarrow> mem \<Rightarrow> u32 \<Rightarrow> (u32 \<times> mem \<times> circbuf_t) option" where
  "buf_pop buf dest len =
     (let n = (if circ_size buf < len then circ_size buf else len) in
      do { (dest1, p) \<leftarrow> pop_loop buf (unat n) dest 0 (circ_top buf);
           Some (n, dest1, buf\<lparr>circ_top := p, circ_size := circ_size buf - n\<rparr>) })"

text \<open>One round of the loop of \<open>buf_push\<close>: store the byte, then grow or drop the oldest one.\<close>

definition push_byte :: "circbuf_t \<Rightarrow> nat \<Rightarrow> byte \<Rightarrow> (circbuf_t \<times> nat) option" where
  "push_byte buf p c =
     do { d \<leftarrow> circ_data buf; d1 \<leftarrow> store d p c;
          let buf1 = buf\<lparr>circ_data := Some d1\<rparr>;
          Some (if circ_size buf1 < circ_totalsize buf1
                then buf1\<lparr>circ_size := circ_size buf1 + 1\<rparr>
                else buf1\<lparr>circ_top := circ_next buf1 (circ_top buf1)\<rparr>, circ_next buf p) }"

fun push_loop :: "circbuf_t \<Rightarrow> mem \<Rightarrow> nat \<Rightarrow> nat \<Rightarrow> nat \<Rightarrow> (circbuf_t \<times> nat) option" where
  "push_loop buf src 0 i p = Some (buf, p)"
| "push_loop buf src (Suc n) i p =
     do { c \<leftarrow> load src i; (buf1, p1) \<leftarrow> push_byte buf p c; push_loop buf1 src n (i + 1) p1 }"

definition buf_push :: "circbuf_t \<Rightarrow> mem \<Rightarrow> u32 \<Rightarrow> (u32 \<times> circbuf_t) option" where
  "buf_push buf src len =
     do { (buf1, p) \<leftarrow> push_loop buf src (unat len) 0 (circ_tail buf);
          Some (len, buf1\<lparr>circ_tail := p\<rparr>) }"

section \<open>Invariant and contents\<close>

text \<open>\<open>ring_ok buf p\<close> is the invariant inside the loops, with the write position \<open>p\<close> not yet stored
  back into \<open>tail\<close>.\<close>

definition ring_ok :: "circbuf_t \<Rightarrow> nat \<Rightarrow> bool" where
  "ring_ok buf p \<longleftrightarrow> (\<exists>d. circ_data buf = Some d \<and> length d = unat (circ_totalsize buf))
     \<and> circ_end buf = unat (circ_totalsize buf) \<and> circ_top buf < circ_end buf
     \<and> unat (circ_size buf) \<le> circ_end buf \<and> p = (circ_top buf + unat (circ_size buf)) mod circ_end buf"

definition circ_wf :: "circbuf_t \<Rightarrow> bool" where
  "circ_wf buf \<longleftrightarrow> ring_ok buf (circ_tail buf)"

definition circ_contents :: "circbuf_t \<Rightarrow> byte list" where
  "circ_contents buf =
     map (\<lambda>i. the (circ_data buf) ! ((circ_top buf + i) mod circ_end buf)) [0..<unat (circ_size buf)]"

lemma length_circ_contents [simp]: "length (circ_contents buf) = unat (circ_size buf)"
  by (simp add: circ_contents_def)

lemma circ_next_mod: "p < circ_end buf \<Longrightarrow> circ_next buf p = (p + 1) mod circ_end buf"
  by (auto simp: circ_next_def mod_Suc)

lemma ring_step: "(p mod n + i) mod n = (p + i) mod (n :: nat)"
  by (rule mod_add_left_eq)

text \<open>Writing behind the last byte of a ring that has room leaves the stored bytes alone.\<close>

lemma ring_write_room:
  assumes "k < n" and "length d = n" and "t < n"
  shows "map (\<lambda>i. d[(t + k) mod n := c] ! ((t + i) mod n)) [0..<Suc k]
     = map (\<lambda>i. d ! ((t + i) mod n)) [0..<k] @ [c]"
proof (rule nth_equalityI)
  fix i assume "i < length (map (\<lambda>i. d[(t + k) mod n := c] ! ((t + i) mod n)) [0..<Suc k])"
  then have "i < Suc k" by simp
  then show "map (\<lambda>i. d[(t + k) mod n := c] ! ((t + i) mod n)) [0..<Suc k] ! i
      = (map (\<lambda>i. d ! ((t + i) mod n)) [0..<k] @ [c]) ! i"
    using assms ring_pos_inj [of i n k t] by (auto simp: nth_append less_Suc_eq nth_list_update simp del: upt_Suc)
qed simp

text \<open>In a full ring the write position is the oldest byte; the reader moves past it.\<close>

lemma ring_write_full:
  assumes "length d = n" and "t < n"
  shows "map (\<lambda>i. d[t := c] ! (((t + 1) mod n + i) mod n)) [0..<n]
     = tl (map (\<lambda>i. d ! ((t + i) mod n)) [0..<n]) @ [c]"
proof (rule nth_equalityI)
  fix i assume "i < length (map (\<lambda>i. d[t := c] ! (((t + 1) mod n + i) mod n)) [0..<n])"
  then have i: "i < n" by simp
  have pos: "((t + 1) mod n + i) mod n = (t + (i + 1)) mod n" by (simp add: ring_step)
  show "map (\<lambda>i. d[t := c] ! (((t + 1) mod n + i) mod n)) [0..<n] ! i
      = (tl (map (\<lambda>i. d ! ((t + i) mod n)) [0..<n]) @ [c]) ! i"
  proof (cases "i + 1 = n")
    case True
    then have "(t + (i + 1)) mod n = t" using assms by simp
    then show ?thesis using True i assms pos by (auto simp: nth_append)
  next
    case False
    then have "(t + (i + 1)) mod n \<noteq> t mod n"
      using ring_pos_inj [of "i + 1" n 0 t] i by simp
    then show ?thesis using False i assms pos by (auto simp: nth_append nth_tl)
  qed
qed (use assms in simp)

lemma push_byte_ring:
  assumes "ring_ok buf p"
  shows "\<exists>buf1 p1. push_byte buf p c = Some (buf1, p1) \<and> ring_ok buf1 p1
     \<and> circ_end buf1 = circ_end buf \<and> circ_totalsize buf1 = circ_totalsize buf
     \<and> circ_contents buf1
        = drop (length (circ_contents buf @ [c]) - circ_end buf) (circ_contents buf @ [c])"
proof -
  obtain d where d: "circ_data buf = Some d" "length d = circ_end buf"
    and e: "circ_end buf = unat (circ_totalsize buf)"
    and t: "circ_top buf < circ_end buf" and s: "unat (circ_size buf) \<le> circ_end buf"
    and p: "p = (circ_top buf + unat (circ_size buf)) mod circ_end buf"
    using assms by (auto simp: ring_ok_def)
  have pl: "p < circ_end buf" using t p by simp
  show ?thesis
  proof (cases "unat (circ_size buf) < circ_end buf")
    case True
    then have lt: "circ_size buf < circ_totalsize buf" using e by (simp add: word_less_nat_alt)
    have "unat (circ_size buf) + 1 < 4294967296"
      using True e unat_lt_u32 [of "circ_totalsize buf"] by linarith
    then have un: "unat (circ_size buf + 1) = unat (circ_size buf) + 1" by (simp add: unat_add_u32)
    let ?b = "buf\<lparr>circ_data := Some (d[p := c]), circ_size := circ_size buf + 1\<rparr>"
    have "push_byte buf p c = Some (?b, circ_next buf p)"
      using d pl lt by (simp add: push_byte_def store_Some)
    moreover have "ring_ok ?b (circ_next buf p)"
      using d e t True un pl p by (simp add: ring_ok_def circ_next_mod mod_Suc_eq)
    moreover have "circ_contents ?b = circ_contents buf @ [c]"
      using ring_write_room [OF True d(2) t, of c] d p un by (simp add: circ_contents_def)
    ultimately show ?thesis using True by simp
  next
    case False
    then have full: "unat (circ_size buf) = circ_end buf" using s by simp
    then have ge: "\<not> circ_size buf < circ_totalsize buf" using e by (simp add: word_less_nat_alt)
    have pt: "p = circ_top buf" using p full t by simp
    let ?b = "buf\<lparr>circ_data := Some (d[p := c]), circ_top := circ_next buf (circ_top buf)\<rparr>"
    have "push_byte buf p c = Some (?b, circ_next buf p)"
      using d pl ge by (simp add: push_byte_def store_Some circ_next_def)
    moreover have "ring_ok ?b (circ_next buf p)"
      using d e t full pt by (simp add: ring_ok_def circ_next_mod)
    moreover have "circ_contents ?b = tl (circ_contents buf) @ [c]"
      using ring_write_full [OF d(2) t, of c] d pt full t by (simp add: circ_contents_def circ_next_mod)
    moreover have "circ_contents buf \<noteq> []" using full t by (simp flip: length_0_conv)
    ultimately show ?thesis using full length_circ_contents [of buf]
      by (cases "circ_contents buf") (auto simp del: length_circ_contents)
  qed
qed


text \<open>The loops of \<open>buf_push\<close> and \<open>buf_pop\<close>.\<close>

lemma push_loop_ring:
  assumes "ring_ok buf p" and "i + n \<le> length src"
  shows "\<exists>buf1 p1. push_loop buf src n i p = Some (buf1, p1) \<and> ring_ok buf1 p1
     \<and> circ_end buf1 = circ_end buf
     \<and> circ_contents buf1 = drop (length (circ_contents buf @ take n (drop i src)) - circ_end buf)
          (circ_contents buf @ take n (drop i src))"
  using assms
proof (induction n arbitrary: buf p i)
  case 0
  then show ?case by (auto simp: ring_ok_def)
next
  case (Suc n)
  have c: "take (Suc n) (drop i src) = src ! i # take n (drop (i + 1) src)"
    using Suc.prems(2) by (simp flip: Cons_nth_drop_Suc)
  obtain buf1 p1 where 1: "push_byte buf p (src ! i) = Some (buf1, p1)" "ring_ok buf1 p1"
    "circ_end buf1 = circ_end buf"
    "circ_contents buf1 = drop (length (circ_contents buf @ [src ! i]) - circ_end buf) (circ_contents buf @ [src ! i])"
    using push_byte_ring [OF Suc.prems(1), of "src ! i"] by blast
  obtain buf2 p2 where 2: "push_loop buf1 src n (i + 1) p1 = Some (buf2, p2)" "ring_ok buf2 p2"
    "circ_end buf2 = circ_end buf1"
    "circ_contents buf2 = drop (length (circ_contents buf1 @ take n (drop (i + 1) src)) - circ_end buf1)
        (circ_contents buf1 @ take n (drop (i + 1) src))"
    using Suc.IH [OF 1(2), of "i + 1"] Suc.prems(2) by auto
  have "circ_contents buf2 = drop (length ((circ_contents buf @ [src ! i]) @ take n (drop (i + 1) src)) - circ_end buf)
      ((circ_contents buf @ [src ! i]) @ take n (drop (i + 1) src))"
    unfolding 2(4) 1(4) 1(3) by (rule drop_lastn_append)
  then show ?case using Suc.prems(2) 1 2 unfolding c by (simp add: load_Some)
qed

lemma pop_loop_ring:
  assumes "circ_data buf = Some d" and "length d = circ_end buf" and "p < circ_end buf"
    and "i + n \<le> length dest"
  shows "pop_loop buf n dest i p = Some (take i dest @ map (\<lambda>k. d ! ((p + k) mod circ_end buf)) [0..<n] @ drop (i + n) dest,
     (p + n) mod circ_end buf)"
  using assms
proof (induction n arbitrary: dest i p)
  case (Suc n)
  let ?p = "circ_next buf p"
  have p': "?p = (p + 1) mod circ_end buf" using Suc.prems by (simp add: circ_next_mod)
  have "pop_loop buf (Suc n) dest i p = pop_loop buf n (dest[i := d ! p]) (i + 1) ?p"
    using Suc.prems by (simp add: load_Some store_Some)
  also have "\<dots> = Some (take (i + 1) (dest[i := d ! p]) @ map (\<lambda>k. d ! ((?p + k) mod circ_end buf)) [0..<n]
      @ drop (i + 1 + n) (dest[i := d ! p]), (?p + n) mod circ_end buf)"
    by (rule Suc.IH) (use Suc.prems p' in auto)
  also have "(?p + n) mod circ_end buf = (p + Suc n) mod circ_end buf" unfolding p' by (simp add: ring_step)
  also have "take (i + 1) (dest[i := d ! p]) = take i dest @ [d ! p]"
    using Suc.prems by (simp add: take_Suc_conv_app_nth)
  also have "map (\<lambda>k. d ! ((?p + k) mod circ_end buf)) [0..<n] = map (\<lambda>k. d ! ((p + Suc k) mod circ_end buf)) [0..<n]"
    unfolding p' by (simp add: ring_step)
  also have "(take i dest @ [d ! p]) @ map (\<lambda>k. d ! ((p + Suc k) mod circ_end buf)) [0..<n] @ drop (i + 1 + n) (dest[i := d ! p])
     = take i dest @ map (\<lambda>k. d ! ((p + k) mod circ_end buf)) [0..<Suc n] @ drop (i + Suc n) dest"
    using Suc.prems by (simp add: upt_conv_Cons map_Suc_upt [symmetric] del: upt_Suc)
  finally show ?case .
qed simp

section \<open>The queue contract\<close>

definition circ_put :: "circbuf_t \<Rightarrow> byte list \<Rightarrow> (nat \<times> circbuf_t) option" where
  "circ_put buf xs = do { (n, buf1) \<leftarrow> buf_push buf xs (of_nat (length xs)); Some (unat n, buf1) }"

definition circ_get :: "circbuf_t \<Rightarrow> nat \<Rightarrow> (byte list \<times> circbuf_t) option" where
  "circ_get buf k =
     do { (n, dest, buf1) \<leftarrow> buf_pop buf (replicate k 0) (of_nat k); Some (take (unat n) dest, buf1) }"

text \<open>A well-formed buffer of \<open>cap\<close> bytes.\<close>

definition circ_of :: "nat \<Rightarrow> circbuf_t \<Rightarrow> bool" where
  "circ_of cap buf \<longleftrightarrow> circ_wf buf \<and> circ_end buf = cap"

lemma unat_of_nat_u32: "n \<le> 4294967295 \<Longrightarrow> unat (of_nat n :: u32) = n"
  by (simp add: unat_of_nat)

lemma circ_put_law:
  assumes "circ_of cap buf" and "length xs \<le> 4294967295"
  shows "\<exists>buf'. circ_put buf xs = Some (length xs, buf') \<and> circ_of cap buf'
     \<and> circ_contents buf' = drop (length (circ_contents buf @ xs) - cap) (circ_contents buf @ xs)"
proof -
  obtain b p where "push_loop buf xs (length xs) 0 (circ_tail buf) = Some (b, p)" "ring_ok b p"
    "circ_end b = cap" "circ_contents b = drop (length (circ_contents buf @ xs) - cap) (circ_contents buf @ xs)"
    using push_loop_ring [of buf "circ_tail buf" 0 "length xs" xs] assms(1) by (auto simp: circ_of_def circ_wf_def)
  then show ?thesis
    using assms(2)
    by (auto simp: circ_put_def buf_push_def unat_of_nat_u32 circ_of_def circ_wf_def ring_ok_def circ_contents_def)
qed

lemma circ_get_law:
  assumes "circ_of cap buf" and "k \<le> 4294967295"
  shows "\<exists>buf'. circ_get buf k = Some (take k (circ_contents buf), buf') \<and> circ_of cap buf'
     \<and> circ_contents buf' = drop k (circ_contents buf)"
proof -
  obtain d where d: "circ_data buf = Some d" "length d = circ_end buf"
    and e: "circ_end buf = unat (circ_totalsize buf)" "circ_end buf = cap"
    and t: "circ_top buf < circ_end buf" and s: "unat (circ_size buf) \<le> circ_end buf"
    and p: "circ_tail buf = (circ_top buf + unat (circ_size buf)) mod circ_end buf"
    using assms by (auto simp: circ_of_def circ_wf_def ring_ok_def)
  define n :: u32 where "n = (if circ_size buf < of_nat k then circ_size buf else of_nat k)"
  have n: "unat n = min k (unat (circ_size buf))"
    using assms(2) by (simp add: n_def word_less_nat_alt unat_of_nat_u32)
  let ?b = "buf\<lparr>circ_top := (circ_top buf + unat n) mod circ_end buf, circ_size := circ_size buf - n\<rparr>"
  have sz: "unat (circ_size buf - n) = unat (circ_size buf) - unat n"
    using n by (intro unat_sub) (simp add: word_le_nat_alt)
  have pop: "buf_pop buf (replicate k 0) (of_nat k) = Some (n, map (\<lambda>i. d ! ((circ_top buf + i) mod circ_end buf)) [0..<unat n]
      @ drop (unat n) (replicate k 0), ?b)"
    using pop_loop_ring [OF d t, of 0 "unat n" "replicate k 0"] n
    by (simp add: buf_pop_def Let_def flip: n_def)
  have c: "circ_contents buf = map (\<lambda>i. d ! ((circ_top buf + i) mod circ_end buf)) [0..<unat (circ_size buf)]"
    using d by (simp add: circ_contents_def)
  have tk: "take k (circ_contents buf) = map (\<lambda>i. d ! ((circ_top buf + i) mod circ_end buf)) [0..<unat n]"
    unfolding c n by (simp add: take_map min_def)
  have cont: "circ_contents ?b = drop k (circ_contents buf)"
    unfolding c using d n sz by (intro nth_equalityI) (auto simp: circ_contents_def ring_step add.assoc)
  have pos: "circ_top buf + unat n + (unat (circ_size buf) - unat n) = circ_top buf + unat (circ_size buf)"
    using n by simp
  have "circ_tail buf = ((circ_top buf + unat n) mod circ_end buf + unat (circ_size buf - n)) mod circ_end buf"
    by (simp only: ring_step sz pos p)
  moreover have "unat (circ_size buf - n) \<le> circ_end buf" using s sz by simp
  ultimately have "circ_of cap ?b"
    using d e t by (auto simp: circ_of_def circ_wf_def ring_ok_def)
  then show ?thesis using pop tk cont by (simp add: circ_get_def)
qed

interpretation circq: overwriting_queue "circ_of cap" circ_contents circ_get 4294967295 circ_put cap
proof
  fix s xs k
  assume s: "circ_of cap s"
  show "length (circ_contents s) \<le> cap" using s by (auto simp: circ_of_def circ_wf_def ring_ok_def)
  show "\<exists>s'. circ_get s k = Some (take k (circ_contents s), s') \<and> circ_of cap s' \<and> circ_contents s' = drop k (circ_contents s)"
    if "k \<le> 4294967295" using circ_get_law [OF s that] .
  show "\<exists>s'. circ_put s xs = Some (length xs, s') \<and> circ_of cap s' \<and>
      circ_contents s' = drop (length (circ_contents s @ xs) - cap) (circ_contents s @ xs)"
    if "length xs \<le> 4294967295" using circ_put_law [OF s that] .
qed


section \<open>Properties\<close>

lemma buf_init_ring:
  assumes "malloc (unat sz) = Some blk" and "length blk = unat sz" and "0 < sz"
  shows "circ_of (unat sz) (snd (buf_init malloc sz)) \<and> circ_contents (snd (buf_init malloc sz)) = []"
  using assms
  by (simp add: circ_of_def circ_wf_def ring_ok_def buf_init_def circ_contents_def word_less_nat_alt)

text \<open>C33 (lib/circbuf.c). A buffer set up by \<open>buf_init\<close> that was written by any sequence of \<open>buf_push\<close>
  calls holds the last \<open>sz\<close> bytes of everything written, and \<open>buf_pop\<close> reads the oldest of these first;
  no access leaves the allocated block.\<close>

theorem circ_keeps_newest:
  assumes "malloc (unat sz) = Some blk" and "length blk = unat sz" and "0 < sz"
    and "list_all (\<lambda>xs. length xs \<le> 4294967295) xss" and "k \<le> 4294967295"
  shows "\<exists>s1 s2. queue_run circ_put circ_get (snd (buf_init malloc sz)) (map Put xss) = Some (concat xss, [], s1)
     \<and> circ_get s1 k = Some (take k (drop (length (concat xss) - unat sz) (concat xss)), s2)
     \<and> circ_contents s2 = drop k (drop (length (concat xss) - unat sz) (concat xss))"
proof -
  note init = buf_init_ring [where malloc = malloc, OF assms(1-3)]
  obtain s1 where 1: "queue_run circ_put circ_get (snd (buf_init malloc sz)) (map Put xss) = Some (concat xss, [], s1)"
    "circ_of (unat sz) s1" "circ_contents s1 = drop (length (concat xss) - unat sz) (concat xss)"
    using circq.puts_keep_last [of "unat sz" "snd (buf_init malloc sz)" xss] init assms(4) by auto
  then show ?thesis using circq.get_law [OF 1(2) assms(5)] by auto
qed

theorem circ_keeps_newest_witness:
  "\<exists>s1 s2. queue_run circ_put circ_get (snd (buf_init (\<lambda>n. Some (replicate n 0)) 3)) (map Put [[1, 2], [3, 4]])
       = Some (concat [[1, 2], [3, 4]], [], s1)
     \<and> circ_get s1 2 = Some (take 2 (drop (length (concat [[1, 2], [3, 4 :: byte]]) - unat (3 :: u32)) (concat [[1, 2], [3, 4]])), s2)
     \<and> circ_contents s2 = drop 2 (drop (length (concat [[1, 2], [3, 4 :: byte]]) - unat (3 :: u32)) (concat [[1, 2], [3, 4]]))"
  by (rule circ_keeps_newest [of "\<lambda>n. Some (replicate n 0)" 3 "replicate 3 0"]) simp_all

end
