(* ===== verification/Lmb.thy ===== *)
theory Lmb
  imports Prelude
begin

unbundle bit_operations_syntax

text \<open>
  lib/lmb.c, the logical memory block allocator that places the kernel's device tree and command line
  before boot. A table holds up to eight regions; \<open>region\<close> is the C array of nine entries, of which the
  first \<open>cnt\<close> count. Addresses, sizes and \<open>cnt\<close> are 32-bit words and wrap; an index outside the array is
  \<^term>\<open>None\<close>. \<open>lmb_dump_all\<close> prints in debug builds only, the two weak reserve hooks are empty.
\<close>

definition MAX_LMB_REGIONS :: nat where "MAX_LMB_REGIONS = 8"

record lmb_property =
  lp_base :: u32
  lp_size :: u32

record lmb_region =
  rgn_cnt :: u32
  rgn_size :: u32
  rgn_region :: "lmb_property list"

record lmb =
  lmb_memory :: lmb_region
  lmb_reserved :: lmb_region

definition lmb_addrs_overlap :: "u32 \<Rightarrow> u32 \<Rightarrow> u32 \<Rightarrow> u32 \<Rightarrow> bool" where
  "lmb_addrs_overlap base1 size1 base2 size2 \<longleftrightarrow> base1 < base2 + size2 \<and> base2 < base1 + size1"

definition lmb_addrs_adjacent :: "u32 \<Rightarrow> u32 \<Rightarrow> u32 \<Rightarrow> u32 \<Rightarrow> int" where
  "lmb_addrs_adjacent base1 size1 base2 size2 =
     (if base2 = base1 + size1 then 1 else if base1 = base2 + size2 then -1 else 0)"

definition lmb_regions_adjacent :: "lmb_region \<Rightarrow> nat \<Rightarrow> nat \<Rightarrow> int option" where
  "lmb_regions_adjacent rgn r1 r2 =
     do { x \<leftarrow> load (rgn_region rgn) r1; y \<leftarrow> load (rgn_region rgn) r2;
          Some (lmb_addrs_adjacent (lp_base x) (lp_size x) (lp_base y) (lp_size y)) }"

text \<open>The loop of \<open>lmb_remove_region\<close>: entries behind \<open>i\<close> move down, up to index \<open>lim = cnt - 1\<close>.\<close>

function remove_loop :: "lmb_property list \<Rightarrow> nat \<Rightarrow> nat \<Rightarrow> lmb_property list option" where
  "remove_loop g i lim =
     (if i < lim then do { x \<leftarrow> load g (i + 1); g1 \<leftarrow> store g i x; remove_loop g1 (i + 1) lim } else Some g)"
  by pat_completeness auto
termination
  by (relation "measure (\<lambda>(g, i, lim). lim - i)") auto

definition lmb_remove_region :: "lmb_region \<Rightarrow> nat \<Rightarrow> lmb_region option" where
  "lmb_remove_region rgn r =
     do { g \<leftarrow> remove_loop (rgn_region rgn) r (unat (rgn_cnt rgn - 1));
          Some (rgn\<lparr>rgn_region := g, rgn_cnt := rgn_cnt rgn - 1\<rparr>) }"

definition lmb_coalesce_regions :: "lmb_region \<Rightarrow> nat \<Rightarrow> nat \<Rightarrow> lmb_region option" where
  "lmb_coalesce_regions rgn r1 r2 =
     do { x \<leftarrow> load (rgn_region rgn) r1; y \<leftarrow> load (rgn_region rgn) r2;
          g \<leftarrow> store (rgn_region rgn) r1 (x\<lparr>lp_size := lp_size x + lp_size y\<rparr>);
          lmb_remove_region (rgn\<lparr>rgn_region := g\<rparr>) r2 }"

definition dummy_table :: "lmb_region \<Rightarrow> lmb_region option" where
  "dummy_table rgn =
     do { g \<leftarrow> store (rgn_region rgn) 0 \<lparr>lp_base = 0, lp_size = 0\<rparr>;
          Some (rgn\<lparr>rgn_region := g, rgn_cnt := 1, rgn_size := 0\<rparr>) }"

definition lmb_init :: "lmb \<Rightarrow> lmb option" where
  "lmb_init l =
     do { mm \<leftarrow> dummy_table (lmb_memory l); rr \<leftarrow> dummy_table (lmb_reserved l);
          Some \<lparr>lmb_memory = mm, lmb_reserved = rr\<rparr> }"

text \<open>
  The coalescing loop of \<open>lmb_add_region\<close>: \<^term>\<open>None\<close> inside when the region is there already,
  otherwise the index the loop stopped at, the count \<open>coalesced\<close> and the table.
\<close>

function add_scan :: "lmb_region \<Rightarrow> u32 \<Rightarrow> u32 \<Rightarrow> nat \<Rightarrow> (nat \<times> int \<times> lmb_region) option option" where
  "add_scan rgn base sz i =
     (if i < unat (rgn_cnt rgn)
      then do {
        r \<leftarrow> load (rgn_region rgn) i;
        if lp_base r = base \<and> lp_size r = sz then Some None
        else let adjacent = lmb_addrs_adjacent base sz (lp_base r) (lp_size r) in
          if adjacent > 0
          then do { g \<leftarrow> store (rgn_region rgn) i \<lparr>lp_base = lp_base r - sz, lp_size = lp_size r + sz\<rparr>;
                    Some (Some (i, 1, rgn\<lparr>rgn_region := g\<rparr>)) }
          else if adjacent < 0
          then do { g \<leftarrow> store (rgn_region rgn) i (r\<lparr>lp_size := lp_size r + sz\<rparr>);
                    Some (Some (i, 1, rgn\<lparr>rgn_region := g\<rparr>)) }
          else add_scan rgn base sz (i + 1) }
      else Some (Some (i, 0, rgn)))"
  by pat_completeness auto
termination
  by (relation "measure (\<lambda>(rgn, b, s, i). unat (rgn_cnt rgn) - i)") auto

text \<open>The insertion loop, from index \<open>k - 1\<close> downwards.\<close>

fun insert_loop :: "lmb_property list \<Rightarrow> u32 \<Rightarrow> u32 \<Rightarrow> nat \<Rightarrow> lmb_property list option" where
  "insert_loop g base sz 0 = Some g"
| "insert_loop g base sz (Suc i) =
     do { r \<leftarrow> load g i;
          if base < lp_base r then do { g1 \<leftarrow> store g (i + 1) r; insert_loop g1 base sz i }
          else store g (i + 1) \<lparr>lp_base = base, lp_size = sz\<rparr> }"

definition lmb_add_region :: "lmb_region \<Rightarrow> u32 \<Rightarrow> u32 \<Rightarrow> (int \<times> lmb_region) option" where
  "lmb_add_region rgn base sz =
     do { r0 \<leftarrow> load (rgn_region rgn) 0;
          if rgn_cnt rgn = 1 \<and> lp_size r0 = 0
          then do { g \<leftarrow> store (rgn_region rgn) 0 \<lparr>lp_base = base, lp_size = sz\<rparr>;
                    Some (0, rgn\<lparr>rgn_region := g\<rparr>) }
          else do {
            found \<leftarrow> add_scan rgn base sz 0;
            case found of None \<Rightarrow> Some (0, rgn)
            | Some (i, coalesced, rgn1) \<Rightarrow> do {
                adj \<leftarrow> (if i < unat (rgn_cnt rgn1 - 1) then lmb_regions_adjacent rgn1 i (i + 1) else Some 0);
                (coalesced2, rgn2) \<leftarrow>
                  (if adj \<noteq> 0
                   then do { q \<leftarrow> lmb_coalesce_regions rgn1 i (i + 1); Some (coalesced + 1, q) }
                   else Some (coalesced, rgn1));
                if coalesced2 \<noteq> 0 then Some (coalesced2, rgn2)
                else if unat (rgn_cnt rgn2) \<ge> MAX_LMB_REGIONS then Some (-1, rgn2)
                else do {
                  g \<leftarrow> insert_loop (rgn_region rgn2) base sz (unat (rgn_cnt rgn2));
                  f \<leftarrow> load g 0;
                  g1 \<leftarrow> (if base < lp_base f then store g 0 \<lparr>lp_base = base, lp_size = sz\<rparr> else Some g);
                  Some (0, rgn2\<lparr>rgn_region := g1, rgn_cnt := rgn_cnt rgn2 + 1\<rparr>) } } } }"

definition lmb_add :: "lmb \<Rightarrow> u32 \<Rightarrow> u32 \<Rightarrow> (int \<times> lmb) option" where
  "lmb_add l base sz =
     do { (r, t) \<leftarrow> lmb_add_region (lmb_memory l) base sz; Some (r, l\<lparr>lmb_memory := t\<rparr>) }"

text \<open>The search of \<open>lmb_free\<close>: the index of the first region that holds the range, or \<open>cnt\<close>.\<close>

function free_scan :: "lmb_region \<Rightarrow> u32 \<Rightarrow> u32 \<Rightarrow> nat \<Rightarrow> nat option" where
  "free_scan rgn base en i =
     (if i < unat (rgn_cnt rgn)
      then do { r \<leftarrow> load (rgn_region rgn) i;
                if lp_base r \<le> base \<and> en \<le> lp_base r + lp_size r then Some i else free_scan rgn base en (i + 1) }
      else Some i)"
  by pat_completeness auto
termination
  by (relation "measure (\<lambda>(rgn, b, e, i). unat (rgn_cnt rgn) - i)") auto

definition lmb_free :: "lmb \<Rightarrow> u32 \<Rightarrow> u32 \<Rightarrow> (int \<times> lmb) option" where
  "lmb_free l base sz =
     (let rgn = lmb_reserved l; en = base + sz in
      do { i \<leftarrow> free_scan rgn base en 0;
           if i = unat (rgn_cnt rgn) then Some (-1, l)
           else do {
             r \<leftarrow> load (rgn_region rgn) i;
             let rgnbegin = lp_base r; let rgnend = lp_base r + lp_size r;
             (ret, t) \<leftarrow>
               (if rgnbegin = base \<and> rgnend = en
                then do { q \<leftarrow> lmb_remove_region rgn i; Some (0, q) }
                else if rgnbegin = base
                then do { g \<leftarrow> store (rgn_region rgn) i \<lparr>lp_base = en, lp_size = lp_size r - sz\<rparr>;
                          Some (0, rgn\<lparr>rgn_region := g\<rparr>) }
                else if rgnend = en
                then do { g \<leftarrow> store (rgn_region rgn) i (r\<lparr>lp_size := lp_size r - sz\<rparr>);
                          Some (0, rgn\<lparr>rgn_region := g\<rparr>) }
                else do { g \<leftarrow> store (rgn_region rgn) i (r\<lparr>lp_size := base - lp_base r\<rparr>);
                          lmb_add_region (rgn\<lparr>rgn_region := g\<rparr>) en (rgnend - en) });
             Some (ret, l\<lparr>lmb_reserved := t\<rparr>) } })"

definition lmb_reserve :: "lmb \<Rightarrow> u32 \<Rightarrow> u32 \<Rightarrow> (int \<times> lmb) option" where
  "lmb_reserve l base sz =
     do { (r, t) \<leftarrow> lmb_add_region (lmb_reserved l) base sz; Some (r, l\<lparr>lmb_reserved := t\<rparr>) }"

function overlap_scan :: "lmb_region \<Rightarrow> u32 \<Rightarrow> u32 \<Rightarrow> nat \<Rightarrow> int option" where
  "overlap_scan rgn base sz i =
     (if i < unat (rgn_cnt rgn)
      then do { r \<leftarrow> load (rgn_region rgn) i;
                if lmb_addrs_overlap base sz (lp_base r) (lp_size r) then Some (int i)
                else overlap_scan rgn base sz (i + 1) }
      else Some (-1))"
  by pat_completeness auto
termination
  by (relation "measure (\<lambda>(rgn, b, s, i). unat (rgn_cnt rgn) - i)") auto

definition lmb_overlaps_region :: "lmb_region \<Rightarrow> u32 \<Rightarrow> u32 \<Rightarrow> int option" where
  "lmb_overlaps_region rgn base sz = overlap_scan rgn base sz 0"

definition lmb_align_down :: "u32 \<Rightarrow> u32 \<Rightarrow> u32" where
  "lmb_align_down addr sz = addr AND NOT (sz - 1)"

definition lmb_align_up :: "u32 \<Rightarrow> u32 \<Rightarrow> u32" where
  "lmb_align_up addr sz = (addr + (sz - 1)) AND NOT (sz - 1)"

declare remove_loop.simps [simp del] add_scan.simps [simp del] free_scan.simps [simp del]
  overlap_scan.simps [simp del]

lemma overlap_scan_hit:
  "overlap_scan rgn base sz i = Some j \<Longrightarrow> 0 \<le> j \<Longrightarrow>
     \<exists>r. load (rgn_region rgn) (nat j) = Some r \<and> lmb_addrs_overlap base sz (lp_base r) (lp_size r)"
proof (induction rgn base sz i rule: overlap_scan.induct)
  case (1 rgn base sz i)
  from 1(2,3) obtain r where r: "i < unat (rgn_cnt rgn)" "load (rgn_region rgn) i = Some r"
    by (auto simp: overlap_scan.simps [of rgn base sz i] bind_eq_Some_conv split: if_splits)
  show ?case
  proof (cases "lmb_addrs_overlap base sz (lp_base r) (lp_size r)")
    case True
    then show ?thesis using 1(2) r by (auto simp: overlap_scan.simps [of rgn base sz i])
  next
    case False
    then show ?thesis using 1(1) [OF r False] 1(2,3) r by (simp add: overlap_scan.simps [of rgn base sz i])
  qed
qed

lemma align_down_le: "lmb_align_down x a \<le> x"
  unfolding lmb_align_down_def by (rule word_and_le2)

text \<open>A base that overlaps a reserved region is retried strictly below it.\<close>

lemma retry_below:
  assumes "lmb_addrs_overlap base sz rb rs" and "\<not> rb < sz"
  shows "unat (lmb_align_down (rb - sz) align) < unat base"
proof -
  have "unat rb < (unat base + unat sz) mod 4294967296"
    using assms(1) by (simp add: lmb_addrs_overlap_def word_less_nat_alt unat_add_u32)
  then have "unat rb < unat base + unat sz" by (rule less_le_trans) (rule mod_less_eq_dividend)
  moreover have "unat (rb - sz) = unat rb - unat sz" "unat sz \<le> unat rb"
    using assms(2) by (simp_all add: unat_sub word_le_nat_alt word_less_nat_alt)
  ultimately show ?thesis
    using align_down_le [of "rb - sz" align] by (simp add: word_le_nat_alt)
qed

text \<open>
  The inner loop of \<open>__lmb_alloc_base\<close>: \<^term>\<open>Inl\<close> is the function's \<open>return\<close>, \<^term>\<open>Inr\<close> leaving the loop
  for the next memory region.
\<close>

function alloc_while :: "lmb \<Rightarrow> u32 \<Rightarrow> u32 \<Rightarrow> u32 \<Rightarrow> u32 \<Rightarrow> ((u32 \<times> lmb) + unit) option" where
  "alloc_while l lmbbase sz align base =
     (if base \<noteq> 0 \<and> lmbbase \<le> base
      then do {
        j \<leftarrow> lmb_overlaps_region (lmb_reserved l) base sz;
        if j < 0
        then do { (r, t) \<leftarrow> lmb_add_region (lmb_reserved l) base (lmb_align_up sz align);
                  Some (Inl (if r < 0 then 0 else base, l\<lparr>lmb_reserved := t\<rparr>)) }
        else do {
          r \<leftarrow> load (rgn_region (lmb_reserved l)) (nat j);
          if lp_base r < sz then Some (Inr ())
          else alloc_while l lmbbase sz align (lmb_align_down (lp_base r - sz) align) } }
      else Some (Inr ()))"
  by pat_completeness auto
termination
proof (relation "measure (\<lambda>(l, lmbbase, sz, align, base). unat base)")
  fix l :: lmb and lmbbase sz align base and j :: int and r
  assume a: "lmb_overlaps_region (lmb_reserved l) base sz = Some j" "\<not> j < 0"
    "load (rgn_region (lmb_reserved l)) (nat j) = Some r" "\<not> lp_base r < sz"
  then have "lmb_addrs_overlap base sz (lp_base r) (lp_size r)"
    using overlap_scan_hit [of "lmb_reserved l" base sz 0 j] by (auto simp: lmb_overlaps_region_def)
  then show "((l, lmbbase, sz, align, lmb_align_down (lp_base r - sz) align), l, lmbbase, sz, align, base)
      \<in> measure (\<lambda>(l, lmbbase, sz, align, base). unat base)"
    using retry_below a(4) by simp
qed simp

declare alloc_while.simps [simp del]

definition LMB_ALLOC_ANYWHERE :: u32 where "LMB_ALLOC_ANYWHERE = 0"

text \<open>The outer loop, over the memory regions from index \<open>k - 1\<close> downwards.\<close>

fun alloc_for :: "lmb \<Rightarrow> u32 \<Rightarrow> u32 \<Rightarrow> u32 \<Rightarrow> nat \<Rightarrow> (u32 \<times> lmb) option" where
  "alloc_for l sz align max_addr 0 = Some (0, l)"
| "alloc_for l sz align max_addr (Suc i) =
     do { r \<leftarrow> load (rgn_region (lmb_memory l)) i;
          let lmbbase = lp_base r; let lmbsize = lp_size r;
          if lmbsize < sz then alloc_for l sz align max_addr i
          else if max_addr = LMB_ALLOC_ANYWHERE \<or> lmbbase < max_addr
          then do {
            res \<leftarrow> alloc_while l lmbbase sz align
              (if max_addr = LMB_ALLOC_ANYWHERE then lmb_align_down (lmbbase + lmbsize - sz) align
               else lmb_align_down ((if lmbbase + lmbsize < max_addr then lmbbase + lmbsize else max_addr) - sz) align);
            case res of Inl out \<Rightarrow> Some out | Inr _ \<Rightarrow> alloc_for l sz align max_addr i }
          else alloc_for l sz align max_addr i }"

definition lmb_alloc_base_quiet :: "lmb \<Rightarrow> u32 \<Rightarrow> u32 \<Rightarrow> u32 \<Rightarrow> (u32 \<times> lmb) option" where
  "lmb_alloc_base_quiet l sz align max_addr = alloc_for l sz align max_addr (unat (rgn_cnt (lmb_memory l)))"

text \<open>\<open>lmb_alloc_base\<close> adds a message on failure: the flag says that it was printed.\<close>

definition lmb_alloc_base :: "lmb \<Rightarrow> u32 \<Rightarrow> u32 \<Rightarrow> u32 \<Rightarrow> (u32 \<times> bool \<times> lmb) option" where
  "lmb_alloc_base l sz align max_addr =
     do { (a, l1) \<leftarrow> lmb_alloc_base_quiet l sz align max_addr; Some (a, a = 0, l1) }"

definition lmb_alloc :: "lmb \<Rightarrow> u32 \<Rightarrow> u32 \<Rightarrow> (u32 \<times> bool \<times> lmb) option" where
  "lmb_alloc l sz align = lmb_alloc_base l sz align LMB_ALLOC_ANYWHERE"

function reserved_scan :: "lmb_region \<Rightarrow> u32 \<Rightarrow> nat \<Rightarrow> bool option" where
  "reserved_scan rgn addr i =
     (if i < unat (rgn_cnt rgn)
      then do { r \<leftarrow> load (rgn_region rgn) i;
                if lp_base r \<le> addr \<and> addr \<le> lp_base r + lp_size r - 1 then Some True
                else reserved_scan rgn addr (i + 1) }
      else Some False)"
  by pat_completeness auto
termination
  by (relation "measure (\<lambda>(rgn, a, i). unat (rgn_cnt rgn) - i)") auto

declare reserved_scan.simps [simp del]

definition lmb_is_reserved :: "lmb \<Rightarrow> u32 \<Rightarrow> bool option" where
  "lmb_is_reserved l addr = reserved_scan (lmb_reserved l) addr 0"

definition lmb_size_bytes :: "lmb_region \<Rightarrow> nat \<Rightarrow> u32 option" where
  "lmb_size_bytes t region_nr = map_option lp_size (load (rgn_region t) region_nr)"

end
