(* ===== verification/Lmb_Proofs.thy ===== *)
theory Lmb_Proofs
  imports Lmb
begin

unbundle bit_operations_syntax

text \<open>
  Correctness of lib/lmb.c. A table is read as a list of intervals of natural numbers; adding a region is
  set union of the address sets, whichever neighbours are coalesced, and an allocation lies inside memory,
  below the limit, aligned, and clear of everything reserved.
\<close>

section \<open>Interval lists\<close>

definition ivs_ok :: "(nat \<times> nat) list \<Rightarrow> bool" where
  "ivs_ok xs \<longleftrightarrow> list_all (\<lambda>(a, b). a < b \<and> b < 4294967296) xs \<and> sorted_wrt (\<lambda>x y. snd x < fst y) xs"

definition covered :: "(nat \<times> nat) list \<Rightarrow> nat set" where
  "covered xs = (\<Union>(a, b) \<in> set xs. {a..<b})"

lemma covered_simps [simp]:
  "covered [] = {}" "covered ((a, b) # xs) = {a..<b} \<union> covered xs"
  "covered (xs @ ys) = covered xs \<union> covered ys"
  by (auto simp: covered_def)

lemma ivs_ok_simps:
  "ivs_ok []" "ivs_ok ((a, b) # xs) \<longleftrightarrow> a < b \<and> b < 4294967296 \<and> (\<forall>y\<in>set xs. b < fst y) \<and> ivs_ok xs"
  "ivs_ok (xs @ ys) \<longleftrightarrow> ivs_ok xs \<and> ivs_ok ys \<and> (\<forall>x\<in>set xs. \<forall>y\<in>set ys. snd x < fst y)"
  by (auto simp: ivs_ok_def sorted_wrt_append)

lemma ivs_ok_mem: "ivs_ok xs \<Longrightarrow> (a, b) \<in> set xs \<Longrightarrow> a < b \<and> b < 4294967296"
  by (auto simp: ivs_ok_def list_all_iff)

lemma disjoint_ivs:
  assumes "{a..<b} \<inter> covered xs = {}" and "a < b" and "ivs_ok xs" and "(c, d) \<in> set xs"
  shows "b \<le> c \<or> d \<le> a"
proof (rule ccontr)
  assume "\<not> ?thesis"
  then have "max a c \<in> {a..<b}" and cd: "max a c \<in> {c..<d}" using ivs_ok_mem [OF assms(3,4)] assms(2) by auto
  moreover have "max a c \<in> covered xs" unfolding covered_def using cd by (intro UN_I [OF assms(4)]) simp
  ultimately show False using assms(1) by blast
qed

text \<open>The four ways in which a region joins a table.\<close>

lemma join_before:
  assumes "ivs_ok (ls @ (b, d) # rt)" and "a < b" and "{a..<b} \<inter> covered (ls @ (b, d) # rt) = {}"
    and "\<And>x. x \<in> set ls \<Longrightarrow> snd x \<noteq> a"
  shows "ivs_ok (ls @ (a, d) # rt)" "covered (ls @ (a, d) # rt) = covered (ls @ (b, d) # rt) \<union> {a..<b}"
proof -
  have "snd x < a" if "x \<in> set ls" for x
    using disjoint_ivs [OF assms(3,2,1), of "fst x" "snd x"] that assms(1) assms(4) [OF that] ivs_ok_mem [OF assms(1), of "fst x" "snd x"]
    by (fastforce simp: ivs_ok_simps)
  then show "ivs_ok (ls @ (a, d) # rt)" using assms(1,2) by (auto simp: ivs_ok_simps)
  have "b < d" using assms(1) by (simp add: ivs_ok_simps)
  then have "{a..<d} = {b..<d} \<union> {a..<b}" using assms(2) by auto
  then show "covered (ls @ (a, d) # rt) = covered (ls @ (b, d) # rt) \<union> {a..<b}" by auto
qed

lemma join_behind:
  assumes "ivs_ok (ls @ (c, a) # rt)" and "a < b" and "b < 4294967296" and "{a..<b} \<inter> covered (ls @ (c, a) # rt) = {}"
    and "\<And>x. x \<in> set rt \<Longrightarrow> fst x \<noteq> b"
  shows "ivs_ok (ls @ (c, b) # rt)" "covered (ls @ (c, b) # rt) = covered (ls @ (c, a) # rt) \<union> {a..<b}"
proof -
  have "b < fst x" if "x \<in> set rt" for x
    using disjoint_ivs [OF assms(4,2,1), of "fst x" "snd x"] that assms(1) assms(5) [OF that] ivs_ok_mem [OF assms(1), of "fst x" "snd x"]
    by (fastforce simp: ivs_ok_simps)
  then show "ivs_ok (ls @ (c, b) # rt)" using assms(1-3) by (auto simp: ivs_ok_simps)
  have "c < a" using assms(1) by (simp add: ivs_ok_simps)
  then have "{c..<b} = {c..<a} \<union> {a..<b}" using assms(2) by auto
  then show "covered (ls @ (c, b) # rt) = covered (ls @ (c, a) # rt) \<union> {a..<b}" by auto
qed

lemma join_between:
  assumes "ivs_ok (ls @ (c, a) # (b, d) # rt)" and "a < b"
  shows "ivs_ok (ls @ (c, d) # rt)" "covered (ls @ (c, d) # rt) = covered (ls @ (c, a) # (b, d) # rt) \<union> {a..<b}"
proof -
  show "ivs_ok (ls @ (c, d) # rt)" using assms by (auto simp: ivs_ok_simps)
  have "c < a" "b < d" using assms(1) by (auto simp: ivs_ok_simps)
  then have "{c..<d} = {c..<a} \<union> {b..<d} \<union> {a..<b}" using assms(2) by auto
  then show "covered (ls @ (c, d) # rt) = covered (ls @ (c, a) # (b, d) # rt) \<union> {a..<b}" by auto
qed

lemma join_alone:
  assumes "ivs_ok (ls @ rt)" and "a < b" and "b < 4294967296" and "{a..<b} \<inter> covered (ls @ rt) = {}"
    and "\<And>x. x \<in> set (ls @ rt) \<Longrightarrow> snd x \<noteq> a \<and> fst x \<noteq> b"
    and "\<And>x. x \<in> set ls \<Longrightarrow> fst x \<le> a" and "\<And>x. x \<in> set rt \<Longrightarrow> a < fst x"
  shows "ivs_ok (ls @ (a, b) # rt)" "covered (ls @ (a, b) # rt) = covered (ls @ rt) \<union> {a..<b}"
proof -
  have d: "b \<le> fst x \<or> snd x \<le> a" if "x \<in> set (ls @ rt)" for x
    using disjoint_ivs [OF assms(4,2,1), of "fst x" "snd x"] that by simp
  have "snd x < a" if "x \<in> set ls" for x
    using d [of x] assms(5) [of x] assms(6) [of x] assms(2) that by auto
  moreover have "b < fst x" if "x \<in> set rt" for x
    using d [of x] assms(5) [of x] assms(7) [of x] ivs_ok_mem [OF assms(1), of "fst x" "snd x"] that by auto
  ultimately show "ivs_ok (ls @ (a, b) # rt)" using assms(1-3) by (auto simp: ivs_ok_simps)
qed auto

section \<open>Tables as interval lists\<close>

definition iv :: "lmb_property \<Rightarrow> nat \<times> nat" where
  "iv r = (unat (lp_base r), unat (lp_base r) + unat (lp_size r))"

definition regions :: "lmb_region \<Rightarrow> lmb_property list" where
  "regions rgn = take (unat (rgn_cnt rgn)) (rgn_region rgn)"

definition table_ok :: "lmb_region \<Rightarrow> bool" where
  "table_ok rgn \<longleftrightarrow> length (rgn_region rgn) = MAX_LMB_REGIONS + 1 \<and> 1 \<le> unat (rgn_cnt rgn)
     \<and> unat (rgn_cnt rgn) \<le> MAX_LMB_REGIONS \<and> ivs_ok (map iv (regions rgn))"

definition dummy :: "lmb_region \<Rightarrow> bool" where
  "dummy rgn \<longleftrightarrow> length (rgn_region rgn) = MAX_LMB_REGIONS + 1 \<and> rgn_cnt rgn = 1
     \<and> lp_size (rgn_region rgn ! 0) = 0"

definition addrs :: "lmb_region \<Rightarrow> nat set" where
  "addrs rgn = covered (map iv (regions rgn))"

lemma unat_add_fits: "unat (a :: u32) + unat b < 4294967296 \<Longrightarrow> unat (a + b) = unat a + unat b"
  by (simp add: unat_add_u32)

lemma word_eq_add_fits:
  "unat (a :: u32) + unat b < 4294967296 \<Longrightarrow> c = a + b \<longleftrightarrow> unat c = unat a + unat b"
  by (simp add: word_unat_eq_iff unat_add_u32)

lemma adjacent_fits:
  assumes "unat b1 + unat s1 < 4294967296" and "unat b2 + unat s2 < 4294967296"
  shows "lmb_addrs_adjacent b1 s1 b2 s2 =
     (if unat b2 = unat b1 + unat s1 then 1 else if unat b1 = unat b2 + unat s2 then -1 else 0)"
  using assms by (simp add: lmb_addrs_adjacent_def word_eq_add_fits)

lemma length_regions: "table_ok rgn \<Longrightarrow> length (regions rgn) = unat (rgn_cnt rgn)"
  by (simp add: table_ok_def regions_def)

lemma load_region:
  assumes "table_ok rgn" and "i < unat (rgn_cnt rgn)"
  shows "load (rgn_region rgn) i = Some (regions rgn ! i)"
  using assms by (simp add: table_ok_def regions_def load_Some MAX_LMB_REGIONS_def)

lemma region_fits:
  assumes "table_ok rgn" and "r \<in> set (regions rgn)"
  shows "unat (lp_base r) + unat (lp_size r) < 4294967296" "0 < unat (lp_size r)"
  using assms ivs_ok_mem [of "map iv (regions rgn)" "unat (lp_base r)" "unat (lp_base r) + unat (lp_size r)"]
  by (auto simp: table_ok_def iv_def)

text \<open>\<open>touches base sz r\<close>: the new region meets \<open>r\<close> end to end.\<close>

definition touches :: "u32 \<Rightarrow> u32 \<Rightarrow> lmb_property \<Rightarrow> bool" where
  "touches base sz r \<longleftrightarrow> fst (iv r) = unat base + unat sz \<or> snd (iv r) = unat base"

lemma add_scan_miss:
  assumes "table_ok rgn" and "unat base + unat sz < 4294967296"
    and "\<forall>r \<in> set (drop i (regions rgn)). \<not> touches base sz r \<and> lp_base r \<noteq> base"
    and "i \<le> unat (rgn_cnt rgn)"
  shows "add_scan rgn base sz i = Some (Some (unat (rgn_cnt rgn), 0, rgn))"
  using assms
proof (induction rgn base sz i rule: add_scan.induct)
  case (1 rgn base sz i)
  show ?case
  proof (cases "i < unat (rgn_cnt rgn)")
    case True
    let ?r = "regions rgn ! i"
    have d: "drop i (regions rgn) = ?r # drop (i + 1) (regions rgn)" and m: "?r \<in> set (regions rgn)"
      using True length_regions [OF 1(2)] by (simp_all add: Cons_nth_drop_Suc)
    have t: "\<not> touches base sz ?r" "lp_base ?r \<noteq> base" using 1(4) d by auto
    have a: "lmb_addrs_adjacent base sz (lp_base ?r) (lp_size ?r) = 0"
      using t adjacent_fits [OF 1(3) region_fits(1) [OF 1(2) m]] by (auto simp: touches_def iv_def)
    have "add_scan rgn base sz (i + 1) = Some (Some (unat (rgn_cnt rgn), 0, rgn))"
      using 1(1) [OF True load_region [OF 1(2) True] _ a [symmetric]] 1(2-5) d t True by auto
    then show ?thesis using t a load_region [OF 1(2) True] True by (simp add: add_scan.simps [of rgn base sz i])
  next
    case False
    then show ?thesis using 1(5) by (simp add: add_scan.simps)
  qed
qed


definition merged :: "u32 \<Rightarrow> u32 \<Rightarrow> lmb_property \<Rightarrow> lmb_property" where
  "merged base sz r = (if fst (iv r) = unat base + unat sz
     then \<lparr>lp_base = lp_base r - sz, lp_size = lp_size r + sz\<rparr> else r\<lparr>lp_size := lp_size r + sz\<rparr>)"

lemma add_scan_hit:
  assumes "table_ok rgn" and "unat base + unat sz < 4294967296"
    and "regions rgn = ls @ r # rt" and "touches base sz r" and "lp_base r \<noteq> base"
    and "\<forall>l \<in> set (drop i ls). \<not> touches base sz l \<and> lp_base l \<noteq> base" and "i \<le> length ls"
  shows "add_scan rgn base sz i
     = Some (Some (length ls, 1, rgn\<lparr>rgn_region := (rgn_region rgn)[length ls := merged base sz r]\<rparr>))"
  using assms
proof (induction rgn base sz i rule: add_scan.induct)
  case (1 rgn base sz i)
  have len: "length ls < unat (rgn_cnt rgn)" using length_regions [OF 1(2)] 1(4) by simp
  then have T: "i < unat (rgn_cnt rgn)" "length ls < length (rgn_region rgn)"
    using 1(8) 1(2) by (auto simp: table_ok_def MAX_LMB_REGIONS_def)
  show ?case
  proof (cases "i = length ls")
    case True
    have m: "regions rgn ! i = r" "r \<in> set (regions rgn)" using 1(4) True by auto
    have a: "lmb_addrs_adjacent base sz (lp_base r) (lp_size r) = (if fst (iv r) = unat base + unat sz then 1 else -1)"
      using adjacent_fits [OF 1(3) region_fits(1) [OF 1(2) m(2)]] 1(5) by (auto simp: touches_def iv_def)
    show ?thesis using a m load_region [OF 1(2) T(1)] T True 1(6)
      by (simp add: add_scan.simps [of rgn base sz "length ls"] merged_def store_Some)
  next
    case False
    then have i: "i < length ls" using 1(8) by simp
    let ?l = "regions rgn ! i"
    have l: "?l = ls ! i" "?l \<in> set (regions rgn)" "drop i ls = ?l # drop (i + 1) ls"
      using i 1(4) by (auto simp: nth_append Cons_nth_drop_Suc)
    have t: "\<not> touches base sz ?l" "lp_base ?l \<noteq> base" using 1(7) l(3) by auto
    have a: "lmb_addrs_adjacent base sz (lp_base ?l) (lp_size ?l) = 0"
      using t adjacent_fits [OF 1(3) region_fits(1) [OF 1(2) l(2)]] by (auto simp: touches_def iv_def)
    have "add_scan rgn base sz i = add_scan rgn base sz (i + 1)"
      using t a load_region [OF 1(2) T(1)] T by (simp add: add_scan.simps [of rgn base sz i])
    also have "\<dots> = Some (Some (length ls, 1, rgn\<lparr>rgn_region := (rgn_region rgn)[length ls := merged base sz r]\<rparr>))"
      using 1(1) [OF T(1) load_region [OF 1(2) T(1)] _ a [symmetric]] 1(2-8) l(3) t i by auto
    finally show ?thesis .
  qed
qed

lemma remove_loop_shift:
  assumes "i \<le> lim" and "lim < length g"
  shows "\<exists>g'. remove_loop g i lim = Some g' \<and> length g' = length g
     \<and> take lim g' = take i g @ take (lim - i) (drop (i + 1) g)"
  using assms
proof (induction g i lim rule: remove_loop.induct)
  case (1 g i lim)
  show ?case
  proof (cases "i < lim")
    case True
    let ?g = "g[i := g ! (i + 1)]"
    have st: "load g (i + 1) = Some (g ! (i + 1))" "store g i (g ! (i + 1)) = Some ?g"
      using True 1(3) by (simp_all add: load_Some store_Some)
    obtain g' where g': "remove_loop ?g (i + 1) lim = Some g'" "length g' = length g"
      "take lim g' = take (i + 1) ?g @ take (lim - (i + 1)) (drop (i + 2) ?g)"
      using 1(1) [OF True st] True 1(3) by auto
    have "take (i + 1) ?g = take i g @ [g ! (i + 1)]" using True 1(3) by (simp add: take_Suc_conv_app_nth)
    moreover have "take (lim - i) (drop (i + 1) g) = g ! (i + 1) # take (lim - (i + 1)) (drop (i + 2) g)"
      using True 1(3) by (subst Cons_nth_drop_Suc [symmetric]) (auto simp: take_Cons')
    ultimately have "take lim g' = take i g @ take (lim - i) (drop (i + 1) g)" using g'(3) by simp
    then show ?thesis using g' st True by (simp add: remove_loop.simps [of g i lim])
  next
    case False
    then show ?thesis using 1(2) by (simp add: remove_loop.simps)
  qed
qed

lemma unat_pred: "1 \<le> unat (c :: u32) \<Longrightarrow> unat (c - 1) = unat c - 1"
  by (subst unat_sub) (auto simp: word_le_nat_alt)

lemma remove_region_list:
  assumes "length (rgn_region rgn) = 9" and "regions rgn = ls @ r # rt"
    and "1 \<le> unat (rgn_cnt rgn)" and "unat (rgn_cnt rgn) \<le> 8"
  shows "\<exists>t. lmb_remove_region rgn (length ls) = Some t \<and> regions t = ls @ rt
     \<and> length (rgn_region t) = 9 \<and> unat (rgn_cnt t) = unat (rgn_cnt rgn) - 1"
proof -
  let ?c = "unat (rgn_cnt rgn)"
  have "length (regions rgn) = ?c" using assms(1,4) by (simp add: regions_def)
  then have c: "?c = length ls + 1 + length rt" using assms(2) by simp
  obtain g where g: "remove_loop (rgn_region rgn) (length ls) (?c - 1) = Some g" "length g = 9"
    "take (?c - 1) g = take (length ls) (rgn_region rgn) @ take (?c - 1 - length ls) (drop (length ls + 1) (rgn_region rgn))"
    using remove_loop_shift [of "length ls" "?c - 1" "rgn_region rgn"] c assms by auto
  have "take (length ls) (rgn_region rgn) = take (length ls) (regions rgn)" using c by (simp add: regions_def)
  moreover have "take (?c - 1 - length ls) (drop (length ls + 1) (rgn_region rgn)) = drop (length ls + 1) (regions rgn)"
    using c by (simp add: regions_def drop_take)
  ultimately have "take (?c - 1) g = ls @ rt" using g(3) assms(2) by simp
  then show ?thesis using g unat_pred [OF assms(3)] by (simp add: lmb_remove_region_def regions_def)
qed

text \<open>The insertion loop keeps the lower regions and moves those above \<open>base\<close> up by one.\<close>

lemma insert_loop_list:
  assumes "\<forall>l \<in> set ls. lp_base l \<le> base" and "\<forall>r \<in> set rt. base < lp_base r"
  shows "insert_loop (ls @ rt @ y # zs) base sz (length ls + length rt) =
     Some (if ls = [] then hd (rt @ [y]) # rt @ zs else ls @ \<lparr>lp_base = base, lp_size = sz\<rparr> # rt @ zs)"
  using assms(2)
proof (induction rt arbitrary: y zs rule: rev_induct)
  case Nil
  show ?case
  proof (cases ls rule: rev_cases)
    case (snoc ls' l)
    then have "\<not> base < lp_base l" using assms(1) by auto
    then show ?thesis using snoc by (simp add: load_def store_def nth_append list_update_append)
  qed simp
next
  case (snoc x rt)
  then show ?case using snoc.IH [of x "x # zs"]
    by (simp add: load_def store_def nth_append list_update_append hd_append)
qed

text \<open>Splitting a sorted table at an address.\<close>

lemma regions_split:
  assumes "ivs_ok (map iv rs)"
  obtains ls rt where "rs = ls @ rt" "\<forall>l \<in> set ls. lp_base l \<le> base" "\<forall>r \<in> set rt. base < lp_base r"
proof -
  have "sorted_wrt (\<lambda>x y. lp_base x \<le> lp_base y) rs"
    using assms unfolding ivs_ok_def sorted_wrt_map
    by (elim conjE sorted_wrt_mono_rel [rotated]) (auto simp: iv_def word_le_nat_alt)
  then have "\<forall>r \<in> set (dropWhile (\<lambda>r. lp_base r \<le> base) rs). base < lp_base r"
  proof (induction rs)
    case (Cons r rs)
    then show ?case by (auto simp: not_le)
  qed simp
  then show ?thesis
    using that [of "takeWhile (\<lambda>r. lp_base r \<le> base) rs" "dropWhile (\<lambda>r. lp_base r \<le> base) rs"]
    by (auto dest: set_takeWhileD)
qed


section \<open>Adding a region\<close>

text \<open>The table is \<open>ls\<close>, a region \<open>x\<close> that may have grown, and \<open>rt\<close>; what the check of the neighbour sees.\<close>

lemma next_adjacent:
  assumes "regions t = ls @ x # rt" and "length (rgn_region t) = 9" and "unat (rgn_cnt t) \<le> 8"
    and "\<forall>q \<in> set (x # rt). snd (iv q) < 4294967296" and "\<forall>q \<in> set rt. fst (iv x) < snd (iv q)"
  shows "(if length ls < unat (rgn_cnt t - 1) then lmb_regions_adjacent t (length ls) (length ls + 1) else Some 0)
     = Some (case rt of [] \<Rightarrow> 0 | q # _ \<Rightarrow> if fst (iv q) = snd (iv x) then 1 else 0)"
proof -
  have "length (regions t) = unat (rgn_cnt t)" using assms(2,3) by (simp add: regions_def)
  then have c: "unat (rgn_cnt t) = length ls + 1 + length rt" using assms(1) by simp
  then have p: "unat (rgn_cnt t - 1) = length ls + length rt" by (simp add: unat_pred)
  have ld: "load (rgn_region t) i = Some (regions t ! i)" if "i < unat (rgn_cnt t)" for i
    using that assms(2,3) by (simp add: regions_def load_Some)
  show ?thesis
  proof (cases rt)
    case Nil
    then show ?thesis using p by simp
  next
    case (Cons q qs)
    have "lmb_addrs_adjacent (lp_base x) (lp_size x) (lp_base q) (lp_size q)
        = (if fst (iv q) = snd (iv x) then 1 else 0)"
      using adjacent_fits [of "lp_base x" "lp_size x" "lp_base q" "lp_size q"] assms(4,5) Cons
      by (auto simp: iv_def)
    moreover have "load (rgn_region t) (length ls) = Some x" "load (rgn_region t) (length ls + 1) = Some q"
      using ld [of "length ls"] ld [of "length ls + 1"] c Cons assms(1) by (simp_all add: nth_append)
    ultimately show ?thesis using Cons p by (simp add: lmb_regions_adjacent_def)
  qed
qed

lemma coalesce_list:
  assumes "regions t = ls @ x # q # rt" and "length (rgn_region t) = 9" and "unat (rgn_cnt t) \<le> 8"
  shows "\<exists>t'. lmb_coalesce_regions t (length ls) (length ls + 1) = Some t'
     \<and> regions t' = ls @ x\<lparr>lp_size := lp_size x + lp_size q\<rparr> # rt
     \<and> length (rgn_region t') = 9 \<and> unat (rgn_cnt t') = unat (rgn_cnt t) - 1"
proof -
  let ?x = "x\<lparr>lp_size := lp_size x + lp_size q\<rparr>"
  let ?t = "t\<lparr>rgn_region := (rgn_region t)[length ls := ?x]\<rparr>"
  have "length (regions t) = unat (rgn_cnt t)" using assms(2,3) by (simp add: regions_def)
  then have c: "unat (rgn_cnt t) = length ls + 2 + length rt" using assms(1) by simp
  have ld: "load (rgn_region t) i = Some (regions t ! i)" if "i < unat (rgn_cnt t)" for i
    using that assms(2,3) by (simp add: regions_def load_Some)
  have ld2: "load (rgn_region t) (length ls) = Some x" "load (rgn_region t) (length ls + 1) = Some q"
    using ld [of "length ls"] ld [of "length ls + 1"] c assms(1) by (simp_all add: nth_append)
  have "regions ?t = (regions t)[length ls := ?x]" by (simp add: regions_def take_update_swap)
  then have "regions ?t = (ls @ [?x]) @ q # rt" using assms(1) by simp
  from remove_region_list [OF _ this] obtain t' where
    "lmb_remove_region ?t (length ls + 1) = Some t'" "regions t' = ls @ ?x # rt"
    "length (rgn_region t') = 9" "unat (rgn_cnt t') = unat (rgn_cnt t) - 1"
    using assms c by auto
  then show ?thesis using ld2 c assms(2,3) by (simp add: lmb_coalesce_regions_def store_Some)
qed

lemma iv_merged:
  assumes "touches base sz r" and "snd (iv r) < 4294967296" and "unat base + unat sz < 4294967296"
    and "fst (iv r) < snd (iv r)" and "0 < unat sz"
  shows "iv (merged base sz r) =
     (if fst (iv r) = unat base + unat sz then (unat base, snd (iv r)) else (fst (iv r), unat base + unat sz))"
proof (cases "fst (iv r) = unat base + unat sz")
  case True
  then have "unat (lp_base r - sz) = unat base"
    using assms by (subst unat_sub) (auto simp: iv_def word_le_nat_alt)
  moreover have "unat (lp_size r + sz) = unat (lp_size r) + unat sz"
    using True assms by (intro unat_add_fits) (auto simp: iv_def)
  ultimately show ?thesis using True by (simp add: merged_def iv_def)
next
  case False
  moreover have "unat (lp_size r + sz) = unat (lp_size r) + unat sz"
    using False assms by (intro unat_add_fits) (auto simp: iv_def touches_def)
  ultimately show ?thesis using assms(1) by (auto simp: merged_def iv_def touches_def)
qed


definition fresh_for :: "lmb_region \<Rightarrow> u32 \<Rightarrow> u32 \<Rightarrow> bool" where
  "fresh_for rgn base sz \<longleftrightarrow> 0 < unat sz \<and> unat base + unat sz < 4294967296
     \<and> {unat base..<unat base + unat sz} \<inter> addrs rgn = {}"

lemma fresh_base:
  assumes "table_ok rgn" and "fresh_for rgn base sz" and "r \<in> set (regions rgn)"
  shows "lp_base r \<noteq> base"
proof
  assume "lp_base r = base"
  then have "unat base \<in> {fst (iv r)..<snd (iv r)}" using region_fits [OF assms(1,3)] by (simp add: iv_def)
  then have "unat base \<in> addrs rgn"
    unfolding addrs_def covered_def using assms(3) by (intro UN_I [of "iv r"]) (auto simp: case_prod_unfold)
  moreover have "unat base \<in> {unat base..<unat base + unat sz}" using assms(2) by (simp add: fresh_for_def)
  ultimately show False using assms(2) unfolding fresh_for_def by blast
qed

lemma table_not_dummy:
  assumes "table_ok rgn"
  shows "\<exists>r0. load (rgn_region rgn) 0 = Some r0 \<and> lp_size r0 \<noteq> 0"
proof -
  have "0 < unat (rgn_cnt rgn)" using assms by (simp add: table_ok_def)
  moreover have "regions rgn ! 0 \<in> set (regions rgn)" using calculation length_regions [OF assms] by simp
  ultimately show ?thesis using load_region [OF assms, of 0] region_fits(2) [OF assms] by fastforce
qed

lemma ivs_ok_snd: "ivs_ok (map iv rs) \<Longrightarrow> r \<in> set rs \<Longrightarrow> fst (iv r) < snd (iv r) \<and> snd (iv r) < 4294967296"
  using ivs_ok_mem [of "map iv rs" "fst (iv r)" "snd (iv r)"] by simp

text \<open>The new region touches one in the table: the two, and possibly the next one, become one region.\<close>

lemma add_region_touching:
  assumes ok: "table_ok rgn" and fresh: "fresh_for rgn base sz"
    and split: "regions rgn = ls @ r # rt" and t: "touches base sz r" and nt: "\<forall>l \<in> set ls. \<not> touches base sz l"
  shows "\<exists>ret t. lmb_add_region rgn base sz = Some (ret, t) \<and> 0 < ret \<and> table_ok t
     \<and> addrs t = addrs rgn \<union> {unat base..<unat base + unat sz}"
proof -
  let ?b = "unat base" and ?e = "unat base + unat sz" and ?m = "merged base sz r"
  let ?t = "rgn\<lparr>rgn_region := (rgn_region rgn)[length ls := ?m]\<rparr>"
  have s: "0 < unat sz" "?e < 4294967296" "{?b..<?e} \<inter> covered (map iv ls @ iv r # map iv rt) = {}"
    using fresh split by (auto simp: fresh_for_def addrs_def)
  have lt: "?b < ?e" using s(1) by simp
  have iok: "ivs_ok (map iv ls @ iv r # map iv rt)" using ok split by (simp add: table_ok_def)
  have sizes: "length (rgn_region rgn) = 9" "1 \<le> unat (rgn_cnt rgn)" "unat (rgn_cnt rgn) \<le> 8"
    using ok by (simp_all add: table_ok_def MAX_LMB_REGIONS_def)
  have fits: "fst (iv q) < snd (iv q) \<and> snd (iv q) < 4294967296" if "q \<in> set (r # rt)" for q
    using that ivs_ok_snd [of "regions rgn" q] ok split by (auto simp: table_ok_def)
  have above: "snd (iv r) < fst (iv q)" if "q \<in> set rt" for q
    using that iok by (cases "iv r") (auto simp: ivs_ok_simps)
  note m = iv_merged [OF t _ s(2) _ s(1)]
  have ivm: "iv ?m = (if fst (iv r) = ?e then (?b, snd (iv r)) else (fst (iv r), ?e))" using m fits by simp
  have scan: "add_scan rgn base sz 0 = Some (Some (length ls, 1, ?t))"
    using add_scan_hit [OF ok s(2) split t, of 0] fresh_base [OF ok fresh] nt split by auto
  have rt: "regions ?t = ls @ ?m # rt" using split by (simp add: regions_def take_update_swap)
  obtain r0 where r0: "load (rgn_region rgn) 0 = Some r0" "lp_size r0 \<noteq> 0" using table_not_dummy [OF ok] by blast
  have conclude: "\<exists>ret t. lmb_add_region rgn base sz = Some (ret, t) \<and> 0 < ret \<and> table_ok t
      \<and> addrs t = addrs rgn \<union> {?b..<?e}"
    if "lmb_add_region rgn base sz = Some (ret, t)" "0 < ret" "length (rgn_region t) = 9"
      "1 \<le> unat (rgn_cnt t)" "unat (rgn_cnt t) \<le> 8" "ivs_ok (map iv (regions t))"
      "covered (map iv (regions t)) = covered (map iv ls @ iv r # map iv rt) \<union> {?b..<?e}" for ret t
    using that split by (simp add: table_ok_def addrs_def MAX_LMB_REGIONS_def)
  have adj: "(if length ls < unat (rgn_cnt ?t - 1) then lmb_regions_adjacent ?t (length ls) (length ls + 1) else Some 0)
      = Some (case rt of [] \<Rightarrow> 0 | q # _ \<Rightarrow> if fst (iv q) = snd (iv ?m) then 1 else 0)"
  proof (rule next_adjacent [OF rt])
    have "snd (iv ?m) < 4294967296" using ivm fits [of r] s(2) by simp
    then show "\<forall>q \<in> set (?m # rt). snd (iv q) < 4294967296" using fits by simp
    have "fst (iv ?m) < snd (iv q)" if "q \<in> set rt" for q
      using ivm above [OF that] fits [of r] fits [of q] that by (simp split: if_splits)
    then show "\<forall>q \<in> set rt. fst (iv ?m) < snd (iv q)" ..
  qed (use sizes in simp_all)
  show ?thesis
  proof (cases "fst (iv r) = ?e")
    case True
    then have ivr: "iv r = (?e, snd (iv r))" by (metis prod.collapse)
    have "(case rt of [] \<Rightarrow> 0 | q # _ \<Rightarrow> if fst (iv q) = snd (iv ?m) then 1 else 0) = (0 :: int)"
      using above [of "hd rt"] ivm True by (cases rt) auto
    with adj have "lmb_add_region rgn base sz = Some (1, ?t)"
      using r0 scan by (simp add: lmb_add_region_def)
    then show ?thesis
    proof (rule conclude)
      have "snd x \<noteq> ?b" if "x \<in> set (map iv ls)" for x using nt that by (auto simp: touches_def)
      note j = join_before [of "map iv ls" ?e "snd (iv r)" "map iv rt" ?b, folded ivr, OF iok lt s(3) this]
      have "map iv (regions ?t) = map iv ls @ (?b, snd (iv r)) # map iv rt" using rt ivm True by simp
      then show "ivs_ok (map iv (regions ?t))" "covered (map iv (regions ?t)) = covered (map iv ls @ iv r # map iv rt) \<union> {?b..<?e}"
        using j by (simp_all only: )
    qed (use sizes in auto)
  next
    case False
    then have ivr: "iv r = (fst (iv r), ?b)" "snd (iv r) = ?b" using t by (auto simp: touches_def) (metis prod.collapse)
    have first: "?e \<le> fst (iv q)" if "rt = q # qs" for q qs
      using disjoint_ivs [OF s(3) _ iok, of "fst (iv q)" "snd (iv q)"] s(1) that above [of q] fits [of q] ivr by auto
    show ?thesis
    proof (cases "\<exists>q qs. rt = q # qs \<and> fst (iv q) = ?e")
      case True
      then obtain q qs where q: "rt = q # qs" "fst (iv q) = ?e" by blast
      obtain t' where t': "lmb_coalesce_regions ?t (length ls) (length ls + 1) = Some t'"
        "regions t' = ls @ ?m\<lparr>lp_size := lp_size ?m + lp_size q\<rparr> # qs"
        "length (rgn_region t') = 9" "unat (rgn_cnt t') = unat (rgn_cnt rgn) - 1"
        using coalesce_list [of ?t ls ?m q qs] rt q sizes by auto
      have "unat (lp_size ?m + lp_size q) = unat (lp_size ?m) + unat (lp_size q)"
        using ivm False q fits [of q] by (intro unat_add_fits) (auto simp: iv_def)
      then have ivx: "iv (?m\<lparr>lp_size := lp_size ?m + lp_size q\<rparr>) = (fst (iv r), snd (iv q))"
        using ivm False q by (auto simp: iv_def)
      have "lmb_add_region rgn base sz = Some (2, t')"
        using r0 scan adj t' q ivm False by (simp add: lmb_add_region_def)
      then show ?thesis
      proof (rule conclude)
        have ivq: "iv q = (?e, snd (iv q))" using q(2) by (metis prod.collapse)
        note j = join_between [of "map iv ls" "fst (iv r)" ?b ?e "snd (iv q)" "map iv qs", folded ivr(1) ivq]
        have "map iv (regions t') = map iv ls @ (fst (iv r), snd (iv q)) # map iv qs" using t'(2) ivx by simp
        then show "ivs_ok (map iv (regions t'))" "covered (map iv (regions t')) = covered (map iv ls @ iv r # map iv rt) \<union> {?b..<?e}"
          using j iok lt q(1) by (simp_all only: list.map)
        have "length (regions rgn) = unat (rgn_cnt rgn)" by (rule length_regions [OF ok])
        then show "1 \<le> unat (rgn_cnt t')" using t'(4) split q(1) by simp
      qed (use sizes t' in auto)
    next
      case nonext: False
      have "(case rt of [] \<Rightarrow> 0 | q # _ \<Rightarrow> if fst (iv q) = snd (iv ?m) then 1 else 0) = (0 :: int)"
        using nonext ivm False by (cases rt) auto
      with adj have "lmb_add_region rgn base sz = Some (1, ?t)"
        using r0 scan by (simp add: lmb_add_region_def)
      then show ?thesis
      proof (rule conclude)
        have "fst x \<noteq> ?e" if x: "x \<in> set (map iv rt)" for x
        proof (cases rt)
          case (Cons q qs)
          have "?e \<noteq> fst (iv q)" using nonext Cons by metis
          then have "?e < fst (iv q)" using first [OF Cons] by simp
          moreover have "snd (iv q) < fst y" if "y \<in> set (map iv qs)" for y
            using iok that Cons by (auto simp: ivs_ok_def sorted_wrt_append)
          ultimately show ?thesis using x Cons fits [of q] by fastforce
        qed (use x in simp)
        note j = join_behind [of "map iv ls" "fst (iv r)" ?b "map iv rt" ?e, folded ivr(1), OF iok lt s(2,3) this]
        have "map iv (regions ?t) = map iv ls @ (fst (iv r), ?e) # map iv rt" using rt ivm False by simp
        then show "ivs_ok (map iv (regions ?t))" "covered (map iv (regions ?t)) = covered (map iv ls @ iv r # map iv rt) \<union> {?b..<?e}"
          using j by (simp_all only: )
      qed (use sizes in auto)
    qed
  qed
qed


lemma first_split:
  assumes "\<exists>r \<in> set rs. P r"
  obtains ls r rt where "rs = ls @ r # rt" "P r" "\<forall>l \<in> set ls. \<not> P l"
  using split_list_first_prop [OF assms] by blast

text \<open>The new region touches none: it is inserted in order, or refused when the table is full.\<close>

lemma add_region_alone:
  assumes ok: "table_ok rgn" and fresh: "fresh_for rgn base sz" and nt: "\<forall>r \<in> set (regions rgn). \<not> touches base sz r"
  shows "\<exists>ret t. lmb_add_region rgn base sz = Some (ret, t)
     \<and> (if unat (rgn_cnt rgn) = MAX_LMB_REGIONS then ret = -1 \<and> t = rgn
        else ret = 0 \<and> table_ok t \<and> addrs t = addrs rgn \<union> {unat base..<unat base + unat sz})"
proof -
  let ?b = "unat base" and ?e = "unat base + unat sz" and ?n = "\<lparr>lp_base = base, lp_size = sz\<rparr>"
  have s: "0 < unat sz" "?e < 4294967296" "{?b..<?e} \<inter> covered (map iv (regions rgn)) = {}"
    using fresh by (auto simp: fresh_for_def addrs_def)
  have iok: "ivs_ok (map iv (regions rgn))" using ok by (simp add: table_ok_def)
  have sizes: "length (rgn_region rgn) = 9" "1 \<le> unat (rgn_cnt rgn)" "unat (rgn_cnt rgn) \<le> 8"
    using ok by (simp_all add: table_ok_def MAX_LMB_REGIONS_def)
  obtain r0 where r0: "load (rgn_region rgn) 0 = Some r0" "lp_size r0 \<noteq> 0" using table_not_dummy [OF ok] by blast
  have scan: "add_scan rgn base sz 0 = Some (Some (unat (rgn_cnt rgn), 0, rgn))"
    using add_scan_miss [OF ok s(2), of 0] fresh_base [OF ok fresh] nt by simp
  have noadj: "\<not> unat (rgn_cnt rgn) < unat (rgn_cnt rgn - 1)" using unat_pred [OF sizes(2)] by simp
  show ?thesis
  proof (cases "unat (rgn_cnt rgn) = 8")
    case True
    then show ?thesis using r0 scan noadj by (simp add: lmb_add_region_def MAX_LMB_REGIONS_def)
  next
    case False
    then have c: "unat (rgn_cnt rgn) < 8" using sizes by simp
    obtain ls rt where lr: "regions rgn = ls @ rt" "\<forall>l \<in> set ls. lp_base l \<le> base" "\<forall>r \<in> set rt. base < lp_base r"
      using regions_split [OF iok] by blast
    obtain y zs where yz: "rgn_region rgn = regions rgn @ y # zs"
      using c sizes(1) id_take_nth_drop [of "unat (rgn_cnt rgn)" "rgn_region rgn"] by (auto simp: regions_def)
    have k: "unat (rgn_cnt rgn) = length ls + length rt" using length_regions [OF ok] lr(1) by simp
    have ins: "insert_loop (rgn_region rgn) base sz (unat (rgn_cnt rgn)) =
        Some (if ls = [] then hd (rt @ [y]) # rt @ zs else ls @ ?n # rt @ zs)"
      using insert_loop_list [OF lr(2,3), of y zs sz] yz lr(1) k by simp
    let ?t = "rgn\<lparr>rgn_region := ls @ ?n # rt @ zs, rgn_cnt := rgn_cnt rgn + 1\<rparr>"
    have "ls = [] \<Longrightarrow> \<exists>q qs. rt = q # qs" using k sizes(2) by (cases rt) auto
    moreover have "ls \<noteq> [] \<Longrightarrow> \<not> base < lp_base (hd ls)" using lr(2) by (cases ls) auto
    ultimately have run: "lmb_add_region rgn base sz = Some (0, ?t)"
      using r0 scan noadj c ins lr(3)
      by (cases ls) (auto simp: lmb_add_region_def MAX_LMB_REGIONS_def load_def store_def)
    have cnt: "unat (rgn_cnt rgn + 1) = unat (rgn_cnt rgn) + 1" using c by (simp add: unat_add_u32)
    then have reg: "regions ?t = ls @ ?n # rt" using k by (simp add: regions_def)
    have iok2: "ivs_ok (map iv ls @ map iv rt)" and s3: "{?b..<?e} \<inter> covered (map iv ls @ map iv rt) = {}"
      and lt: "?b < ?e" using iok s lr(1) by simp_all
    have away: "snd x \<noteq> ?b \<and> fst x \<noteq> ?e" if "x \<in> set (map iv ls @ map iv rt)" for x
      using that nt lr(1) by (auto simp: touches_def)
    have lo: "fst x \<le> ?b" if "x \<in> set (map iv ls)" for x using that lr(2) by (auto simp: iv_def word_le_nat_alt)
    have hi: "?b < fst x" if "x \<in> set (map iv rt)" for x using that lr(3) by (auto simp: iv_def word_less_nat_alt)
    have "ivs_ok (map iv ls @ (?b, ?e) # map iv rt)" "covered (map iv ls @ (?b, ?e) # map iv rt) = covered (map iv ls @ map iv rt) \<union> {?b..<?e}"
      by (rule join_alone [OF iok2 lt s(2) s3 away lo hi]; assumption)+
    moreover have "length (rgn_region ?t) = 9" using sizes(1) yz lr(1) by simp
    ultimately have "table_ok ?t \<and> addrs ?t = addrs rgn \<union> {?b..<?e}"
      using reg cnt c lr(1) by (simp add: table_ok_def addrs_def MAX_LMB_REGIONS_def iv_def)
    then show ?thesis using run False by (simp add: MAX_LMB_REGIONS_def)
  qed
qed


section \<open>No access outside a table\<close>

definition table_shape :: "lmb_region \<Rightarrow> bool" where
  "table_shape rgn \<longleftrightarrow> length (rgn_region rgn) = MAX_LMB_REGIONS + 1 \<and> 1 \<le> unat (rgn_cnt rgn)
     \<and> unat (rgn_cnt rgn) \<le> MAX_LMB_REGIONS"

lemma shape_of: "table_ok rgn \<Longrightarrow> table_shape rgn" "dummy rgn \<Longrightarrow> table_shape rgn"
  by (simp_all add: table_ok_def table_shape_def dummy_def MAX_LMB_REGIONS_def)

lemma shapeD:
  assumes "table_shape rgn"
  shows "length (rgn_region rgn) = 9" "1 \<le> unat (rgn_cnt rgn)" "unat (rgn_cnt rgn) \<le> 8"
    "length (regions rgn) = unat (rgn_cnt rgn)" "i < unat (rgn_cnt rgn) \<Longrightarrow> load (rgn_region rgn) i = Some (regions rgn ! i)"
    "unat (rgn_cnt rgn - 1) = unat (rgn_cnt rgn) - 1"
  using assms by (simp_all add: table_shape_def regions_def load_Some MAX_LMB_REGIONS_def unat_pred)

lemma add_scan_total:
  assumes "table_shape rgn"
  shows "\<exists>x. add_scan rgn base sz i = Some x \<and> (\<forall>j n t. x = Some (j, n, t) \<longrightarrow> table_shape t \<and> rgn_cnt t = rgn_cnt rgn)"
  using assms
proof (induction rgn base sz i rule: add_scan.induct)
  case (1 rgn base sz i)
  show ?case
  proof (cases "i < unat (rgn_cnt rgn)")
    case True
    note ld = shapeD(5) [OF 1(2) True]
    note IH = 1(1) [OF True ld _ refl]
    have "i < length (rgn_region rgn)" using True shapeD(1,3) [OF 1(2)] by simp
    then show ?thesis
      using IH 1(2) True ld
      by (auto simp: add_scan.simps [of rgn base sz i] store_Some Let_def table_shape_def)
  next
    case False
    then show ?thesis using 1(2) by (simp add: add_scan.simps [of rgn base sz i])
  qed
qed

lemma insert_loop_total:
  "k < length g \<Longrightarrow> \<exists>g'. insert_loop g base sz k = Some g' \<and> length g' = length g"
proof (induction k arbitrary: g)
  case (Suc k)
  then show ?case using Suc.IH [of "g[k + 1 := g ! k]"] by (auto simp: load_Some store_Some)
qed simp

lemma coalesce_total:
  assumes "table_shape t" and "i < unat (rgn_cnt t - 1)"
  shows "\<exists>t'. lmb_coalesce_regions t i (i + 1) = Some t' \<and> table_shape t'"
proof -
  note sh = shapeD [OF assms(1)]
  have i: "i + 1 < length (regions t)" using assms(2) sh(2,4,6) by simp
  then have "regions t = take i (regions t) @ regions t ! i # regions t ! (i + 1) # drop (i + 2) (regions t)"
    by (simp add: Cons_nth_drop_Suc id_take_nth_drop [symmetric])
  from coalesce_list [OF this sh(1,3)] obtain t' where
    "lmb_coalesce_regions t i (i + 1) = Some t'" "length (rgn_region t') = 9" "unat (rgn_cnt t') = unat (rgn_cnt t) - 1"
    using i by auto
  then show ?thesis using i sh by (auto simp: table_shape_def MAX_LMB_REGIONS_def)
qed

lemma add_region_total:
  assumes "table_shape rgn"
  shows "\<exists>ret t. lmb_add_region rgn base sz = Some (ret, t) \<and> table_shape t"
proof -
  note sh = shapeD [OF assms]
  have l0: "load (rgn_region rgn) 0 = Some (rgn_region rgn ! 0)" using sh(1) by (simp add: load_Some)
  obtain x where x: "add_scan rgn base sz 0 = Some x" "\<And>j n t. x = Some (j, n, t) \<Longrightarrow> table_shape t"
    using add_scan_total [OF assms] by blast
  have ins: "\<exists>g f. insert_loop (rgn_region t) base sz (unat (rgn_cnt t)) = Some g \<and> length g = 9 \<and> load g 0 = Some f"
    if shape: "table_shape t" for t
  proof -
    obtain g where "insert_loop (rgn_region t) base sz (unat (rgn_cnt t)) = Some g" "length g = 9"
      using insert_loop_total [of "unat (rgn_cnt t)" "rgn_region t" base sz] shapeD [OF shape] by auto
    then show ?thesis by (simp add: load_Some)
  qed
  have cnt: "unat (c + 1) = unat c + 1" if "unat c < 8" for c :: u32 using that by (simp add: unat_add_u32)
  have finish: "\<exists>ret t'. (if c \<noteq> 0 then Some (c, t) else if unat (rgn_cnt t) \<ge> MAX_LMB_REGIONS then Some (-1, t)
      else do { g \<leftarrow> insert_loop (rgn_region t) base sz (unat (rgn_cnt t)); f \<leftarrow> load g 0;
        g1 \<leftarrow> (if base < lp_base f then store g 0 \<lparr>lp_base = base, lp_size = sz\<rparr> else Some g);
        Some (0, t\<lparr>rgn_region := g1, rgn_cnt := rgn_cnt t + 1\<rparr>) }) = Some (ret, t') \<and> table_shape t'"
    if "table_shape t" for c :: int and t
    using ins [OF that] that cnt [of "rgn_cnt t"]
    by (auto simp: store_Some table_shape_def MAX_LMB_REGIONS_def)
  have adj: "\<exists>a. (if i < unat (rgn_cnt t - 1) then lmb_regions_adjacent t i (i + 1) else Some 0) = Some a
      \<and> (a \<noteq> 0 \<longrightarrow> i < unat (rgn_cnt t - 1))" if "table_shape t" for i t
    using shapeD [OF that] by (auto simp: lmb_regions_adjacent_def)
  show ?thesis
  proof (cases x)
    case None
    then show ?thesis using l0 x(1) assms sh by (auto simp: lmb_add_region_def store_Some table_shape_def)
  next
    case (Some y)
    obtain i n t where y: "x = Some (i, n, t)" using Some by (cases y) auto
    note t = x(2) [OF y]
    obtain a where a: "(if i < unat (rgn_cnt t - 1) then lmb_regions_adjacent t i (i + 1) else Some 0) = Some a"
      "a \<noteq> 0 \<longrightarrow> i < unat (rgn_cnt t - 1)" using adj [OF t] by blast
    obtain n2 t2 where t2: "(if a \<noteq> 0 then do { q \<leftarrow> lmb_coalesce_regions t i (i + 1); Some (n + 1, q) } else Some (n, t)) = Some (n2, t2)"
      "table_shape t2" using coalesce_total [OF t, of i] a(2) t by (cases "a = 0") auto
    show ?thesis
      using l0 x(1) y a(1) t2 finish [OF t2(2), of n2] assms sh
      by (auto simp: lmb_add_region_def store_Some table_shape_def)
  qed
qed


section \<open>Allocation\<close>

lemma overlap_scan_total:
  assumes "table_shape rgn"
  shows "\<exists>j. overlap_scan rgn base sz i = Some j \<and> (j < 0 \<longrightarrow>
     (\<forall>r \<in> set (drop i (regions rgn)). \<not> lmb_addrs_overlap base sz (lp_base r) (lp_size r)))"
  using assms
proof (induction rgn base sz i rule: overlap_scan.induct)
  case (1 rgn base sz i)
  show ?case
  proof (cases "i < unat (rgn_cnt rgn)")
    case True
    note ld = shapeD(5) [OF 1(2) True]
    have "drop i (regions rgn) = regions rgn ! i # drop (i + 1) (regions rgn)"
      using True shapeD(4) [OF 1(2)] by (simp add: Cons_nth_drop_Suc)
    then show ?thesis
      using 1(1) [OF True ld] 1(2) True ld by (auto simp: overlap_scan.simps [of rgn base sz i])
  next
    case False
    then show ?thesis using shapeD(4) [OF 1(2)] by (simp add: overlap_scan.simps [of rgn base sz i])
  qed
qed

definition aligned :: "u32 \<Rightarrow> u32 \<Rightarrow> bool" where
  "aligned a align \<longleftrightarrow> a AND (align - 1) = 0"

lemma align_down_aligned: "aligned (lmb_align_down x align) align"
  by (simp add: aligned_def lmb_align_down_def and.assoc)

text \<open>What the inner loop returns: an aligned address at or below the first candidate, clear of every
  reserved region.\<close>

lemma alloc_while_sound:
  assumes "table_shape (lmb_reserved l)" and "aligned base align"
  shows "\<exists>res. alloc_while l lmbbase sz align base = Some res \<and> (\<forall>a l'. res = Inl (a, l') \<longrightarrow> a \<noteq> 0 \<longrightarrow>
     lmbbase \<le> a \<and> a \<le> base \<and> aligned a align \<and> lmb_memory l' = lmb_memory l
     \<and> (\<forall>r \<in> set (regions (lmb_reserved l)). \<not> lmb_addrs_overlap a sz (lp_base r) (lp_size r)))"
  using assms
proof (induction l lmbbase sz align base rule: alloc_while.induct)
  case (1 l lmbbase sz align base)
  note step = alloc_while.simps [of l lmbbase sz align base]
  show ?case
  proof (cases "base \<noteq> 0 \<and> lmbbase \<le> base")
    case go: True
    obtain j where j: "lmb_overlaps_region (lmb_reserved l) base sz = Some j"
      "j < 0 \<Longrightarrow> \<forall>r \<in> set (regions (lmb_reserved l)). \<not> lmb_addrs_overlap base sz (lp_base r) (lp_size r)"
      using overlap_scan_total [OF 1(2), of base sz 0] by (auto simp: lmb_overlaps_region_def)
    obtain ret t where t: "lmb_add_region (lmb_reserved l) base (lmb_align_up sz align) = Some (ret, t)"
      using add_region_total [OF 1(2)] by blast
    show ?thesis
    proof (cases "j < 0")
      case True
      then show ?thesis using step go j t 1(3) by auto
    next
      case False
      obtain r where r: "load (rgn_region (lmb_reserved l)) (nat j) = Some r"
        "lmb_addrs_overlap base sz (lp_base r) (lp_size r)"
        using overlap_scan_hit [of "lmb_reserved l" base sz 0 j] j(1) False by (auto simp: lmb_overlaps_region_def)
      show ?thesis
      proof (cases "lp_base r < sz")
        case True
        then show ?thesis using step go j(1) False r(1) by simp
      next
        case ge: False
        let ?nb = "lmb_align_down (lp_base r - sz) align"
        have "?nb \<le> base" using retry_below [OF r(2) ge, of align] by (simp add: word_le_nat_alt)
        moreover obtain res where res: "alloc_while l lmbbase sz align ?nb = Some res"
          "\<forall>a l'. res = Inl (a, l') \<longrightarrow> a \<noteq> 0 \<longrightarrow> lmbbase \<le> a \<and> a \<le> ?nb \<and> aligned a align \<and> lmb_memory l' = lmb_memory l
            \<and> (\<forall>r \<in> set (regions (lmb_reserved l)). \<not> lmb_addrs_overlap a sz (lp_base r) (lp_size r))"
          using 1(1) [OF go j(1) False r(1) ge 1(2) align_down_aligned] by blast
        moreover have "alloc_while l lmbbase sz align base = Some res"
          using go j(1) False r(1) ge res(1) by (simp add: step)
        ultimately show ?thesis by (meson order_trans)
      qed
    qed
  next
    case False
    then show ?thesis using step by auto
  qed
qed

text \<open>An address range the word test finds clear of a region is disjoint from it.\<close>

lemma no_overlap_disjoint:
  assumes "\<not> lmb_addrs_overlap a sz (lp_base r) (lp_size r)"
    and "unat a + unat sz < 4294967296" and "snd (iv r) < 4294967296"
  shows "{unat a..<unat a + unat sz} \<inter> {fst (iv r)..<snd (iv r)} = {}"
  using assms by (auto simp: lmb_addrs_overlap_def iv_def word_less_nat_alt unat_add_fits)


definition alloc_ok :: "lmb \<Rightarrow> u32 \<Rightarrow> u32 \<Rightarrow> u32 \<Rightarrow> u32 \<Rightarrow> bool" where
  "alloc_ok l sz align max_addr a \<longleftrightarrow>
     (\<exists>r \<in> set (regions (lmb_memory l)). fst (iv r) \<le> unat a \<and> unat a + unat sz \<le> snd (iv r))
     \<and> (max_addr = 0 \<or> unat a + unat sz \<le> unat max_addr) \<and> aligned a align
     \<and> (\<forall>r \<in> set (regions (lmb_reserved l)). \<not> lmb_addrs_overlap a sz (lp_base r) (lp_size r))"

lemma below_top:
  assumes "unat sz \<le> unat lim" and "a \<le> lmb_align_down (lim - sz) align"
  shows "unat a + unat sz \<le> unat lim"
proof -
  have "unat a \<le> unat (lim - sz)" using assms(2) align_down_le order_trans by (metis word_le_nat_alt)
  then show ?thesis using assms(1) by (simp add: unat_sub word_le_nat_alt)
qed

text \<open>One memory region: a candidate below \<open>lim\<close>, inside the region and under the limit, gives a good address.\<close>

lemma alloc_region_sound:
  assumes "table_ok (lmb_memory l)" and "table_shape (lmb_reserved l)" and "r \<in> set (regions (lmb_memory l))"
    and "unat sz \<le> unat lim" and "unat lim \<le> snd (iv r)" and "max_addr = 0 \<or> unat lim \<le> unat max_addr"
  shows "\<exists>res. alloc_while l (lp_base r) sz align (lmb_align_down (lim - sz) align) = Some res
     \<and> (\<forall>a l'. res = Inl (a, l') \<longrightarrow> a \<noteq> 0 \<longrightarrow> alloc_ok l sz align max_addr a)"
proof -
  obtain res where res: "alloc_while l (lp_base r) sz align (lmb_align_down (lim - sz) align) = Some res"
    "\<forall>a l'. res = Inl (a, l') \<longrightarrow> a \<noteq> 0 \<longrightarrow> lp_base r \<le> a \<and> a \<le> lmb_align_down (lim - sz) align
       \<and> aligned a align \<and> lmb_memory l' = lmb_memory l
       \<and> (\<forall>r \<in> set (regions (lmb_reserved l)). \<not> lmb_addrs_overlap a sz (lp_base r) (lp_size r))"
    using alloc_while_sound [OF assms(2) align_down_aligned] by blast
  have "alloc_ok l sz align max_addr a" if "res = Inl (a, l')" "a \<noteq> 0" for a l'
  proof -
    have a: "lp_base r \<le> a" "a \<le> lmb_align_down (lim - sz) align" "aligned a align"
      "\<forall>r \<in> set (regions (lmb_reserved l)). \<not> lmb_addrs_overlap a sz (lp_base r) (lp_size r)"
      using res(2) that by blast+
    have "unat a + unat sz \<le> unat lim" by (rule below_top [OF assms(4) a(2)])
    moreover have "fst (iv r) \<le> unat a" using a(1) by (simp add: iv_def word_le_nat_alt)
    ultimately show ?thesis
      using assms(3,5,6) a(3,4) unfolding alloc_ok_def by (meson order_trans)
  qed
  then show ?thesis using res(1) by blast
qed

lemma alloc_for_sound:
  assumes "table_ok (lmb_memory l)" and "table_shape (lmb_reserved l)"
    and "max_addr = 0 \<or> sz \<le> max_addr" and "k \<le> unat (rgn_cnt (lmb_memory l))"
  shows "\<exists>a l'. alloc_for l sz align max_addr k = Some (a, l') \<and> (a \<noteq> 0 \<longrightarrow> alloc_ok l sz align max_addr a)"
  using assms(4)
proof (induction k)
  case (Suc i)
  define r where "r = regions (lmb_memory l) ! i"
  have i: "i < unat (rgn_cnt (lmb_memory l))" using Suc.prems by simp
  have r: "r \<in> set (regions (lmb_memory l))" using i length_regions [OF assms(1)] by (simp add: r_def)
  have ld: "load (rgn_region (lmb_memory l)) i = Some r" using load_region [OF assms(1) i] by (simp add: r_def)
  obtain a0 l0 where IH: "alloc_for l sz align max_addr i = Some (a0, l0)" "a0 \<noteq> 0 \<longrightarrow> alloc_ok l sz align max_addr a0"
    using Suc by auto
  define en where "en = lp_base r + lp_size r"
  have en: "unat en = snd (iv r)" using region_fits(1) [OF assms(1) r] by (simp add: en_def iv_def unat_add_fits)
  show ?case
  proof (cases "lp_size r < sz \<or> \<not> (max_addr = 0 \<or> lp_base r < max_addr)")
    case True
    then show ?thesis using ld IH by (auto simp: LMB_ALLOC_ANYWHERE_def Let_def)
  next
    case False
    define lim where "lim = (if max_addr = 0 then en else if en < max_addr then en else max_addr)"
    have "unat sz \<le> unat en" using False en by (auto simp: iv_def word_less_nat_alt)
    then have "unat sz \<le> unat lim" "unat lim \<le> snd (iv r)" "max_addr = 0 \<or> unat lim \<le> unat max_addr"
      using assms(3) en by (auto simp: lim_def word_le_nat_alt word_less_nat_alt)
    from alloc_region_sound [OF assms(1,2) r this] obtain res where
      res: "alloc_while l (lp_base r) sz align (lmb_align_down (lim - sz) align) = Some res"
      "\<And>a l'. res = Inl (a, l') \<Longrightarrow> a \<noteq> 0 \<Longrightarrow> alloc_ok l sz align max_addr a" by blast
    have "alloc_for l sz align max_addr (Suc i) = (case res of Inl out \<Rightarrow> Some out | Inr _ \<Rightarrow> Some (a0, l0))"
      using False ld IH(1) res(1) by (simp add: LMB_ALLOC_ANYWHERE_def lim_def en_def split: if_splits)
    then show ?thesis using res(2) IH(2) by (cases res) auto
  qed
qed simp

lemma alloc_ok_disjoint:
  assumes "alloc_ok l sz align max_addr a" and "table_ok (lmb_memory l)" and "\<forall>r \<in> set (regions (lmb_reserved l)). snd (iv r) < 4294967296"
  shows "{unat a..<unat a + unat sz} \<inter> addrs (lmb_reserved l) = {}"
    "{unat a..<unat a + unat sz} \<subseteq> addrs (lmb_memory l)"
proof -
  obtain r where r: "r \<in> set (regions (lmb_memory l))" "fst (iv r) \<le> unat a" "unat a + unat sz \<le> snd (iv r)"
    using assms(1) by (auto simp: alloc_ok_def)
  have "snd (iv r) < 4294967296" using region_fits(1) [OF assms(2) r(1)] by (simp add: iv_def)
  then have fits: "unat a + unat sz < 4294967296" using r(3) by simp
  have "{unat a..<unat a + unat sz} \<inter> {fst (iv q)..<snd (iv q)} = {}" if "q \<in> set (regions (lmb_reserved l))" for q
    using no_overlap_disjoint [of a sz q] fits assms(1,3) that by (auto simp: alloc_ok_def)
  then show "{unat a..<unat a + unat sz} \<inter> addrs (lmb_reserved l) = {}"
    by (simp add: addrs_def covered_def case_prod_unfold Int_UN_distrib del: Int_atLeastLessThan)
  show "{unat a..<unat a + unat sz} \<subseteq> addrs (lmb_memory l)"
    unfolding addrs_def covered_def using r by (auto simp: case_prod_unfold intro!: bexI [of _ r])
qed


section \<open>Membership\<close>

lemma reserved_scan_iff:
  assumes "table_ok rgn"
  shows "reserved_scan rgn addr i = Some (\<exists>r \<in> set (drop i (regions rgn)). fst (iv r) \<le> unat addr \<and> unat addr < snd (iv r))"
  using assms
proof (induction rgn addr i rule: reserved_scan.induct)
  case (1 rgn addr i)
  show ?case
  proof (cases "i < unat (rgn_cnt rgn)")
    case True
    let ?r = "regions rgn ! i"
    note ld = load_region [OF 1(2) True]
    have d: "drop i (regions rgn) = ?r # drop (i + 1) (regions rgn)" and m: "?r \<in> set (regions rgn)"
      using True length_regions [OF 1(2)] by (simp_all add: Cons_nth_drop_Suc)
    have "unat (lp_base ?r + lp_size ?r - 1) = snd (iv ?r) - 1"
      using region_fits [OF 1(2) m] by (subst unat_sub) (auto simp: iv_def unat_add_fits word_le_nat_alt)
    then have "lp_base ?r \<le> addr \<and> addr \<le> lp_base ?r + lp_size ?r - 1 \<longleftrightarrow> fst (iv ?r) \<le> unat addr \<and> unat addr < snd (iv ?r)"
      using region_fits(2) [OF 1(2) m] by (auto simp: iv_def word_le_nat_alt)
    then show ?thesis
      using 1(1) [OF True ld] 1(2) True ld d by (auto simp: reserved_scan.simps [of rgn addr i])
  next
    case False
    then show ?thesis using length_regions [OF 1(2)] by (simp add: reserved_scan.simps [of rgn addr i])
  qed
qed

section \<open>Properties\<close>

text \<open>(lib/lmb.c, \<open>lmb_add_region\<close> behind \<open>lmb_add\<close> and \<open>lmb_reserve\<close>). Adding a range that is free and does not wrap
  either makes the address set of the table exactly the old set and the range, and leaves the regions
  sorted, separated and within the array, or (only for a table with eight regions) reports \<open>-1\<close> and
  changes nothing. The table may be the dummy one \<open>lmb_init\<close> leaves.\<close>

theorem lmb_reserve_adds:
  assumes "table_ok (lmb_reserved l) \<or> dummy (lmb_reserved l)" and "fresh_for (lmb_reserved l) base sz"
  shows "\<exists>ret l'. lmb_reserve l base sz = Some (ret, l') \<and> lmb_memory l' = lmb_memory l
     \<and> (ret < 0 \<longrightarrow> l' = l \<and> unat (rgn_cnt (lmb_reserved l)) = MAX_LMB_REGIONS)
     \<and> (0 \<le> ret \<longrightarrow> table_ok (lmb_reserved l')
          \<and> addrs (lmb_reserved l') = addrs (lmb_reserved l) \<union> {unat base..<unat base + unat sz})"
proof -
  let ?t = "lmb_reserved l"
  have "\<exists>ret t. lmb_add_region ?t base sz = Some (ret, t) \<and> (ret < 0 \<longrightarrow> t = ?t \<and> unat (rgn_cnt ?t) = MAX_LMB_REGIONS)
      \<and> (0 \<le> ret \<longrightarrow> table_ok t \<and> addrs t = addrs ?t \<union> {unat base..<unat base + unat sz})"
  proof (cases "table_ok ?t")
    case ok: True
    show ?thesis
    proof (cases "\<exists>r \<in> set (regions ?t). touches base sz r")
      case True
      then obtain ls r rt where "regions ?t = ls @ r # rt" "touches base sz r" "\<forall>l \<in> set ls. \<not> touches base sz l"
        by (rule first_split)
      from add_region_touching [OF ok assms(2) this] show ?thesis by fastforce
    next
      case False
      then show ?thesis using add_region_alone [OF ok assms(2)] by (fastforce split: if_splits)
    qed
  next
    case False
    then have d: "dummy ?t" using assms(1) by simp
    obtain x xs where x: "rgn_region ?t = x # xs" "length xs = 8" "lp_size x = 0" "rgn_cnt ?t = 1"
      using d by (cases "rgn_region ?t") (auto simp: dummy_def MAX_LMB_REGIONS_def)
    then have "lmb_add_region ?t base sz = Some (0, ?t\<lparr>rgn_region := \<lparr>lp_base = base, lp_size = sz\<rparr> # xs\<rparr>)"
      by (simp add: lmb_add_region_def load_def store_def)
    moreover have "addrs ?t = {}" using x by (simp add: addrs_def regions_def covered_def iv_def)
    ultimately show ?thesis
      using x assms(2) by (simp add: fresh_for_def table_ok_def addrs_def regions_def iv_def ivs_ok_simps MAX_LMB_REGIONS_def)
  qed
  then show ?thesis by (auto simp: lmb_reserve_def)
qed

text \<open>A system with 16 MB of memory at 0x80000000 and one reserved range.\<close>

definition lmb_sample :: lmb where
  "lmb_sample = \<lparr>
     lmb_memory = \<lparr>rgn_cnt = 1, rgn_size = 0, rgn_region = \<lparr>lp_base = 0x80000000, lp_size = 0x1000000\<rparr> # replicate 8 \<lparr>lp_base = 0, lp_size = 0\<rparr>\<rparr>,
     lmb_reserved = \<lparr>rgn_cnt = 1, rgn_size = 0, rgn_region = \<lparr>lp_base = 0x80F00000, lp_size = 0x100000\<rparr> # replicate 8 \<lparr>lp_base = 0, lp_size = 0\<rparr>\<rparr>\<rparr>"

lemma lmb_sample_ok:
  "table_ok (lmb_memory lmb_sample)" "table_ok (lmb_reserved lmb_sample)" "fresh_for (lmb_reserved lmb_sample) 0x80000000 0x8000"
  by (simp_all add: lmb_sample_def table_ok_def fresh_for_def addrs_def regions_def iv_def ivs_ok_simps MAX_LMB_REGIONS_def)

theorem lmb_reserve_adds_witness:
  "\<exists>ret l'. lmb_reserve lmb_sample 0x80000000 0x8000 = Some (ret, l') \<and> lmb_memory l' = lmb_memory lmb_sample
     \<and> (ret < 0 \<longrightarrow> l' = lmb_sample \<and> unat (rgn_cnt (lmb_reserved lmb_sample)) = MAX_LMB_REGIONS)
     \<and> (0 \<le> ret \<longrightarrow> table_ok (lmb_reserved l')
          \<and> addrs (lmb_reserved l') = addrs (lmb_reserved lmb_sample) \<union> {unat (0x80000000 :: u32)..<unat (0x80000000 :: u32) + unat (0x8000 :: u32)})"
  by (rule lmb_reserve_adds) (simp_all add: lmb_sample_ok)

text \<open>C15 (lib/lmb.c, \<open>lmb_alloc_base\<close>). When there is no limit, or the size is not above it, the search
  ends without leaving the tables, whatever the alignment; a non-zero result is aligned, lies with its whole length in one memory region, below the
  limit if there is one, and is disjoint from everything reserved before.\<close>

theorem lmb_alloc_base_sound:
  assumes "table_ok (lmb_memory l)" and "table_ok (lmb_reserved l) \<or> dummy (lmb_reserved l)"
    and "max_addr = 0 \<or> sz \<le> max_addr"
  shows "\<exists>a msg l'. lmb_alloc_base l sz align max_addr = Some (a, msg, l') \<and> msg = (a = 0) \<and> (a \<noteq> 0 \<longrightarrow>
     a AND (align - 1) = 0 \<and> {unat a..<unat a + unat sz} \<subseteq> addrs (lmb_memory l)
     \<and> {unat a..<unat a + unat sz} \<inter> addrs (lmb_reserved l) = {}
     \<and> (max_addr = 0 \<or> unat a + unat sz \<le> unat max_addr))"
proof -
  obtain a l' where a: "alloc_for l sz align max_addr (unat (rgn_cnt (lmb_memory l))) = Some (a, l')"
    "a \<noteq> 0 \<Longrightarrow> alloc_ok l sz align max_addr a"
    using alloc_for_sound [OF assms(1) _ assms(3) order_refl] shape_of assms(2) by blast
  have fit: "\<forall>r \<in> set (regions (lmb_reserved l)). snd (iv r) < 4294967296"
  proof (cases "table_ok (lmb_reserved l)")
    case True
    then show ?thesis using region_fits(1) [OF True] by (simp add: iv_def)
  next
    case False
    then have "dummy (lmb_reserved l)" using assms(2) by simp
    then show ?thesis by (cases "rgn_region (lmb_reserved l)") (auto simp: dummy_def regions_def iv_def MAX_LMB_REGIONS_def)
  qed
  have "a AND (align - 1) = 0 \<and> {unat a..<unat a + unat sz} \<subseteq> addrs (lmb_memory l)
     \<and> {unat a..<unat a + unat sz} \<inter> addrs (lmb_reserved l) = {} \<and> (max_addr = 0 \<or> unat a + unat sz \<le> unat max_addr)"
    if "a \<noteq> 0"
    using alloc_ok_disjoint [OF a(2) [OF that] assms(1) fit] a(2) [OF that] by (simp add: alloc_ok_def aligned_def)
  then show ?thesis using a(1) by (simp add: lmb_alloc_base_def lmb_alloc_base_quiet_def)
qed

theorem lmb_alloc_base_sound_witness:
  "\<exists>a msg l'. lmb_alloc_base lmb_sample 0x2000 0x1000 0 = Some (a, msg, l') \<and> msg = (a = 0) \<and> (a \<noteq> 0 \<longrightarrow>
     a AND (0x1000 - 1) = 0 \<and> {unat a..<unat a + unat (0x2000 :: u32)} \<subseteq> addrs (lmb_memory lmb_sample)
     \<and> {unat a..<unat a + unat (0x2000 :: u32)} \<inter> addrs (lmb_reserved lmb_sample) = {}
     \<and> ((0 :: u32) = 0 \<or> unat a + unat (0x2000 :: u32) \<le> unat (0 :: u32)))"
  by (rule lmb_alloc_base_sound) (simp_all add: lmb_sample_ok)

text \<open>(lib/lmb.c, \<open>lmb_is_reserved\<close>). On a proper table the answer is membership in the reserved
  address set; on the table \<open>lmb_init\<close> leaves, whose dummy region has size zero, every address is reported
  as reserved because the upper bound \<open>base + size - 1\<close> wraps to the top of memory.\<close>

theorem lmb_is_reserved_exact:
  assumes "table_ok (lmb_reserved l)" and "lmb_init l0 = Some l1"
  shows "lmb_is_reserved l addr = Some (unat addr \<in> addrs (lmb_reserved l))
     \<and> lmb_is_reserved l1 addr = Some True \<and> addrs (lmb_reserved l1) = {}"
proof -
  obtain x xs where l1: "rgn_region (lmb_reserved l1) = \<lparr>lp_base = 0, lp_size = 0\<rparr> # xs" "rgn_cnt (lmb_reserved l1) = 1"
    using assms(2) by (cases "rgn_region (lmb_reserved l0)")
      (auto simp: lmb_init_def dummy_table_def bind_eq_Some_conv store_def split: if_splits)
  have "addr \<le> - 1" by simp
  then have "lmb_is_reserved l1 addr = Some True" "addrs (lmb_reserved l1) = {}"
    using l1 by (auto simp: lmb_is_reserved_def reserved_scan.simps load_def addrs_def regions_def covered_def iv_def)
  then show ?thesis
    using reserved_scan_iff [OF assms(1), of addr 0]
    by (auto simp: lmb_is_reserved_def addrs_def covered_def case_prod_unfold)
qed

theorem lmb_is_reserved_exact_witness:
  "\<exists>l1. lmb_init lmb_sample = Some l1
     \<and> lmb_is_reserved lmb_sample 0x80F00000 = Some (unat (0x80F00000 :: u32) \<in> addrs (lmb_reserved lmb_sample))
     \<and> lmb_is_reserved l1 0x80F00000 = Some True \<and> addrs (lmb_reserved l1) = {}"
proof -
  obtain l1 where l1: "lmb_init lmb_sample = Some l1"
    by (auto simp: lmb_init_def dummy_table_def lmb_sample_def store_def)
  then show ?thesis using lmb_is_reserved_exact [OF lmb_sample_ok(2) l1] by blast
qed


text \<open>(lib/lmb.c, \<open>lmb_free\<close>). Freeing the only reserved region leaves \<open>cnt = 0\<close>, a state the other
  routines do not expect: a later reservation at a higher address is reported as successful but brings the
  freed region back instead of the requested one.\<close>

theorem lmb_free_last_revives:
  assumes "rgn_cnt (lmb_reserved l) = 1" and "rgn_region (lmb_reserved l) = A # B # rs"
    and "lp_base A + lp_size A \<noteq> lp_base B" and "lp_base B + lp_size B \<noteq> lp_base A"
    and "lp_size A \<noteq> 0" and "lp_base A \<le> base" and "lp_base A \<le> lp_base A + lp_size A"
  shows "\<exists>l1 l2. lmb_free l (lp_base A) (lp_size A) = Some (0, l1) \<and> regions (lmb_reserved l1) = []
     \<and> lmb_reserve l1 base sz = Some (0, l2) \<and> regions (lmb_reserved l2) = [A]"
  using assms
  by (auto simp: lmb_free_def free_scan.simps load_def store_def lmb_remove_region_def remove_loop.simps
      lmb_reserve_def lmb_add_region_def add_scan.simps lmb_regions_adjacent_def lmb_addrs_adjacent_def
      regions_def MAX_LMB_REGIONS_def Let_def not_less)

theorem lmb_free_last_revives_witness:
  "\<exists>l1 l2. lmb_free lmb_sample 0x80F00000 0x100000 = Some (0, l1) \<and> regions (lmb_reserved l1) = []
     \<and> lmb_reserve l1 0x80F80000 0x1000 = Some (0, l2)
     \<and> regions (lmb_reserved l2) = [\<lparr>lp_base = 0x80F00000, lp_size = 0x100000\<rparr>]"
proof -
  have "rgn_cnt (lmb_reserved lmb_sample) = 1" "rgn_region (lmb_reserved lmb_sample)
      = \<lparr>lp_base = 0x80F00000, lp_size = 0x100000\<rparr> # \<lparr>lp_base = 0, lp_size = 0\<rparr> # replicate 7 \<lparr>lp_base = 0, lp_size = 0\<rparr>"
    by (simp_all add: lmb_sample_def flip: replicate_Suc)
  from lmb_free_last_revives [OF this, of "0x80F80000" "0x1000"] show ?thesis by simp
qed


end
