(* ===== verification/Block_Hash.thy ===== *)
theory Block_Hash
  imports Prelude
begin

unbundle bit_operations_syntax

text \<open>
  What the three message digests of lib/ share. \<open>stream_hash\<close> is the contract a caller of
  starts/update/finish relies on: feeding a message in any pieces gives the digest of the whole message.
  \<open>block_ctx\<close> is the common layout of \<open>sha1_context\<close> and \<open>sha256_context\<close>, and \<open>block_update\<close> and
  \<open>block_finish\<close> are the code that sha1.c and sha256.c have twice, over their own compression function.
  Input is the list of the \<open>length\<close> bytes passed; copies into the 64-byte buffer are checked.
\<close>

section \<open>The contract\<close>

fun feed :: "('c \<Rightarrow> byte list \<Rightarrow> 'c option) \<Rightarrow> 'c \<Rightarrow> byte list list \<Rightarrow> 'c option" where
  "feed upd c [] = Some c"
| "feed upd c (x # xs) = do { c1 \<leftarrow> upd c x; feed upd c1 xs }"

text \<open>
  The loop of the \<open>_wd\<close> variants in a build with a watchdog: pieces of at most \<open>chunk_sz\<close> bytes. A zero
  \<open>chunk_sz\<close> makes no progress; the loop never ends, \<^term>\<open>None\<close>.
\<close>

function chunk_loop :: "('c \<Rightarrow> byte list \<Rightarrow> 'c option) \<Rightarrow> 'c \<Rightarrow> nat \<Rightarrow> byte list \<Rightarrow> 'c option" where
  "chunk_loop upd c n xs =
     (if xs = [] then Some c else if n = 0 then None
      else do { c1 \<leftarrow> upd c (take n xs); chunk_loop upd c1 n (drop n xs) })"
  by pat_completeness auto
termination
  by (relation "measure (\<lambda>(upd, c, n, xs). length xs)") auto

declare chunk_loop.simps [simp del]

locale stream_hash =
  fixes fresh :: "'c \<Rightarrow> bool"
    and absorbed :: "'c \<Rightarrow> byte list \<Rightarrow> bool"
    and start :: "'c \<Rightarrow> 'c"
    and upd :: "'c \<Rightarrow> byte list \<Rightarrow> 'c option"
    and fin :: "'c \<Rightarrow> byte list option"
    and digest :: "byte list \<Rightarrow> byte list"
    and limit :: nat
  assumes start_law: "fresh c \<Longrightarrow> absorbed (start c) []"
    and upd_law: "absorbed c m \<Longrightarrow> length x \<le> limit \<Longrightarrow> \<exists>c'. upd c x = Some c' \<and> absorbed c' (m @ x)"
    and fin_law: "absorbed c m \<Longrightarrow> fin c = Some (digest m)"
begin

lemma feed_absorbs:
  "absorbed c m \<Longrightarrow> list_all (\<lambda>x. length x \<le> limit) xs \<Longrightarrow>
     \<exists>c'. feed upd c xs = Some c' \<and> absorbed c' (m @ concat xs)"
proof (induction xs arbitrary: c m)
  case (Cons x xs)
  then obtain c1 where "upd c x = Some c1" "absorbed c1 (m @ x)" using upd_law by fastforce
  then show ?case using Cons.IH [of c1 "m @ x"] Cons.prems by auto
qed simp

lemma digest_of_pieces:
  assumes "fresh c" and "list_all (\<lambda>x. length x \<le> limit) xs"
  shows "do { c1 \<leftarrow> feed upd (start c) xs; fin c1 } = Some (digest (concat xs))"
  using feed_absorbs [OF start_law [OF assms(1)] assms(2)] fin_law by auto

lemma chunk_loop_absorbs:
  assumes "absorbed c m" and "0 < n" and "n \<le> limit"
  shows "\<exists>c'. chunk_loop upd c n xs = Some c' \<and> absorbed c' (m @ xs)"
  using assms(1)
proof (induction "length xs" arbitrary: c m xs rule: less_induct)
  case less
  show ?case
  proof (cases "xs = []")
    case True
    then show ?thesis using less.prems by (simp add: chunk_loop.simps)
  next
    case False
    obtain c1 where c1: "upd c (take n xs) = Some c1" "absorbed c1 (m @ take n xs)"
      using upd_law [of c m "take n xs"] less.prems assms(3) by (auto simp: min.coboundedI2)
    have "length (drop n xs) < length xs" using False assms(2) by simp
    from less.hyps [OF this c1(2)] show ?thesis
      using False c1(1) assms(2) by (simp add: chunk_loop.simps [of upd c n xs])
  qed
qed

lemma digest_of_chunks:
  assumes "fresh c" and "0 < n" and "n \<le> limit"
  shows "do { c1 \<leftarrow> chunk_loop upd (start c) n xs; fin c1 } = Some (digest xs)"
  using chunk_loop_absorbs [OF start_law [OF assms(1)] assms(2,3), of xs] fin_law by auto

lemma digest_of_one:
  assumes "fresh c" and "length xs \<le> limit"
  shows "do { c1 \<leftarrow> upd (start c) xs; fin c1 } = Some (digest xs)"
  using upd_law [OF start_law [OF assms(1)] assms(2)] fin_law by auto

end

section \<open>Big-endian words\<close>

definition GET_UINT32_BE :: "byte list \<Rightarrow> nat \<Rightarrow> u32" where
  "GET_UINT32_BE b i = push_bit 24 (ucast (b ! i)) OR push_bit 16 (ucast (b ! (i + 1)))
     OR push_bit 8 (ucast (b ! (i + 2))) OR ucast (b ! (i + 3))"

definition PUT_UINT32_BE :: "u32 \<Rightarrow> byte list" where
  "PUT_UINT32_BE n = [ucast (drop_bit 24 n), ucast (drop_bit 16 n), ucast (drop_bit 8 n), ucast n]"

lemma length_PUT [simp]: "length (PUT_UINT32_BE n) = 4"
  by (simp add: PUT_UINT32_BE_def)

section \<open>The common context and update\<close>

record block_ctx =
  total0 :: u32
  total1 :: u32
  state :: "u32 list"
  buffer :: "byte list"

type_synonym compress = "u32 list \<Rightarrow> byte list \<Rightarrow> u32 list"

text \<open>\<open>while (length >= 64) { process; length -= 64; input += 64; }\<close>\<close>

function block_loop :: "compress \<Rightarrow> u32 list \<Rightarrow> byte list \<Rightarrow> u32 list \<times> byte list" where
  "block_loop process st input =
     (if 64 \<le> length input then block_loop process (process st (take 64 input)) (drop 64 input)
      else (st, input))"
  by pat_completeness auto
termination
  by (relation "measure (\<lambda>(p, st, xs). length xs)") auto

declare block_loop.simps [simp del]

definition block_update :: "compress \<Rightarrow> block_ctx \<Rightarrow> byte list \<Rightarrow> block_ctx option" where
  "block_update process ctx input =
     (let len = of_nat (length input) :: u32 in
      if len = 0 then Some ctx
      else
        let left = total0 ctx AND 0x3F; fill = 64 - left; t0 = (total0 ctx + len) AND 0xFFFFFFFF;
            ctx1 = ctx\<lparr>total0 := t0, total1 := (if t0 < len then total1 ctx + 1 else total1 ctx)\<rparr> in
        do { (ctx2, input2, left2) \<leftarrow>
               (if left \<noteq> 0 \<and> fill \<le> len
                then do { b \<leftarrow> copy_bytes (buffer ctx1) (unat left) input 0 (unat fill);
                          Some (ctx1\<lparr>buffer := b, state := process (state ctx1) b\<rparr>, drop (unat fill) input, 0) }
                else Some (ctx1, input, left));
             let (st, input3) = block_loop process (state ctx2) input2;
             if input3 \<noteq> []
             then do { b \<leftarrow> copy_bytes (buffer ctx2) (unat left2) input3 0 (length input3);
                       Some (ctx2\<lparr>state := st, buffer := b\<rparr>) }
             else Some (ctx2\<lparr>state := st\<rparr>) })"

definition block_padding :: "byte list" where
  "block_padding = 0x80 # replicate 63 0"

definition block_finish :: "compress \<Rightarrow> block_ctx \<Rightarrow> block_ctx option" where
  "block_finish process ctx =
     (let high = drop_bit 29 (total0 ctx) OR push_bit 3 (total1 ctx); low = push_bit 3 (total0 ctx);
          msglen = PUT_UINT32_BE high @ PUT_UINT32_BE low;
          last = total0 ctx AND 0x3F; padn = (if last < 56 then 56 - last else 120 - last) in
      do { ctx1 \<leftarrow> block_update process ctx (take (unat padn) block_padding);
           block_update process ctx1 msglen })"

section \<open>Reference: padding and chaining\<close>

definition chain :: "compress \<Rightarrow> u32 list \<Rightarrow> byte list \<Rightarrow> u32 list" where
  "chain process st m = fst (block_loop process st m)"

definition pad_zeros :: "byte list \<Rightarrow> nat" where
  "pad_zeros m = (119 - length m mod 64) mod 64"

text \<open>The message, a one bit, zeros up to 56 modulo 64, and its length in bits as 64 bits, high word first.\<close>

definition padded :: "byte list \<Rightarrow> byte list" where
  "padded m = m @ [0x80] @ replicate (pad_zeros m) 0
     @ PUT_UINT32_BE (of_nat (8 * length m div 4294967296)) @ PUT_UINT32_BE (of_nat (8 * length m))"

lemma chain_short: "length m < 64 \<Longrightarrow> chain p st m = st"
  by (simp add: chain_def block_loop.simps)

lemma chain_step: "64 \<le> length m \<Longrightarrow> chain p st m = chain p (p st (take 64 m)) (drop 64 m)"
  by (simp add: chain_def block_loop.simps [of p st m])

lemma chain_one: "length b = 64 \<Longrightarrow> chain p st b = p st b"
  by (simp add: chain_step chain_short)

lemma block_loop_eq: "block_loop p st m = (chain p st m, drop (length m div 64 * 64) m)"
proof (induction p st m rule: block_loop.induct)
  case (1 p st m)
  show ?case
  proof (cases "64 \<le> length m")
    case True
    have "length m div 64 * 64 = 64 + (length m - 64) div 64 * 64" using True by (simp add: div_if)
    then show ?thesis using 1 [OF True] True
      by (simp add: block_loop.simps [of p st m] chain_step add.commute)
  next
    case False
    then show ?thesis by (simp add: block_loop.simps [of p st m] chain_short)
  qed
qed

lemma chain_append: "64 dvd length a \<Longrightarrow> chain p st (a @ b) = chain p (chain p st a) b"
proof (induction "length a" arbitrary: a st rule: less_induct)
  case less
  show ?case
  proof (cases "a = []")
    case True
    then show ?thesis by (simp add: chain_short)
  next
    case False
    then have "64 \<le> length a" using less.prems by (simp add: dvd_imp_le)
    then show ?thesis
      using less.hyps [of "drop 64 a"] less.prems by (simp add: chain_step [of "a @ b"] chain_step [of a] dvd_diff_nat)
  qed
qed

lemma chain_whole_blocks: "chain p st m = chain p st (take (length m div 64 * 64) m)"
proof -
  let ?k = "length m div 64 * 64"
  have "chain p st m = chain p st (take ?k m @ drop ?k m)" by simp
  also have "\<dots> = chain p (chain p st (take ?k m)) (drop ?k m)"
    by (rule chain_append) simp
  also have "\<dots> = chain p st (take ?k m)"
    by (rule chain_short) (simp add: minus_div_mult_eq_mod)
  finally show ?thesis .
qed


section \<open>The update absorbs its input\<close>

definition absorbed_by :: "compress \<Rightarrow> u32 list \<Rightarrow> block_ctx \<Rightarrow> byte list \<Rightarrow> bool" where
  "absorbed_by p h0 ctx m \<longleftrightarrow> state ctx = chain p h0 m \<and> length (buffer ctx) = 64
     \<and> take (length m mod 64) (buffer ctx) = drop (length m div 64 * 64) m
     \<and> total0 ctx = of_nat (length m) \<and> total1 ctx = of_nat (length m div 4294967296)"

lemma unat_and_63: "unat ((x :: u32) AND 0x3F) = unat x mod 64"
proof -
  have "x AND 0x3F = take_bit 6 x" by (simp add: take_bit_eq_mask mask_eq_exp_minus_1)
  then show ?thesis by (simp add: unat_mod take_bit_eq_mod)
qed

lemma left_bytes: "unat ((of_nat n :: u32) AND 0x3F) = n mod 64"
  by (simp add: unat_and_63 unat_of_nat mod_mod_cancel)

lemma and_all_ones: "(x :: u32) AND 0xFFFFFFFF = x"
proof -
  have "(0xFFFFFFFF :: u32) = - 1" by simp
  then show ?thesis by (simp only: and.right_neutral)
qed

lemma carry_mod: "(a :: nat) < M \<Longrightarrow> k < M \<Longrightarrow> (a + k) mod M < k \<longleftrightarrow> M \<le> a + k"
  by (cases "a + k < M") (auto simp: le_mod_geq)

lemma carry_div: "(a :: nat) < M \<Longrightarrow> k < M \<Longrightarrow> (a + k) div M = (if M \<le> a + k then 1 else 0)"
  by (cases "a + k < M") (auto simp: le_div_geq)

text \<open>The carry into \<open>total[1]\<close>.\<close>

lemma carry_total:
  assumes "k < 4294967296"
  shows "(of_nat ((n + k) div 4294967296) :: u32) =
     (if (of_nat (n + k) :: u32) < of_nat k then of_nat (n div 4294967296) + 1 else of_nat (n div 4294967296))"
proof -
  have lt: "(of_nat (n + k) :: u32) < of_nat k \<longleftrightarrow> 4294967296 \<le> n mod 4294967296 + k"
  proof -
    have "(of_nat (n + k) :: u32) < of_nat k \<longleftrightarrow> (n mod 4294967296 + k) mod 4294967296 < k"
      using assms by (simp only: word_less_nat_alt unat_of_nat len_of_numeral_defs) (simp add: mod_add_left_eq)
    also have "\<dots> \<longleftrightarrow> 4294967296 \<le> n mod 4294967296 + k"
      using assms by (intro carry_mod) simp_all
    finally show ?thesis .
  qed
  have "(n + k) div 4294967296 = n div 4294967296 + (n mod 4294967296 + k) div 4294967296"
    by (simp add: div_add1_eq [of n k] assms)
  also have "(n mod 4294967296 + k) div 4294967296 = (if 4294967296 \<le> n mod 4294967296 + k then 1 else 0)"
    using assms by (intro carry_div) simp_all
  finally show ?thesis unfolding lt by simp
qed

lemma whole_rest:
  assumes "64 dvd length w"
  shows "length (w @ y) mod 64 = length y mod 64" "drop (length (w @ y) div 64 * 64) (w @ y) = drop (length y div 64 * 64) y"
proof -
  obtain k where k: "length w = 64 * k" using assms by (rule dvdE)
  show "length (w @ y) mod 64 = length y mod 64" by (simp add: k)
  have "length (w @ y) div 64 * 64 = length w + length y div 64 * 64" by (simp add: k)
  then show "drop (length (w @ y) div 64 * 64) (w @ y) = drop (length y div 64 * 64) y" by simp
qed

text \<open>The block loop and the final copy to the start of the buffer, after whole blocks \<open>w\<close>.\<close>

lemma rest_of_update:
  assumes "64 dvd length w" and "length b = 64" and "r = drop (length y div 64 * 64) y"
  shows "\<exists>b'. (if r \<noteq> [] then copy_bytes b 0 r 0 (length r) else Some b) = Some b' \<and> length b' = 64
     \<and> take (length (w @ y) mod 64) b' = drop (length (w @ y) div 64 * 64) (w @ y)"
proof -
  have lr: "length r = length y mod 64" by (simp add: assms(3) minus_div_mult_eq_mod)
  then have "length r < 64" by simp
  then show ?thesis
    using assms(2) lr unfolding whole_rest [OF assms(1)] assms(3) [symmetric]
    by (auto simp: copy_bytes_def)
qed


lemma block_update_absorbs:
  assumes a: "absorbed_by p h0 ctx m" and x: "length x \<le> 4294967295"
  shows "\<exists>ctx'. block_update p ctx x = Some ctx' \<and> absorbed_by p h0 ctx' (m @ x)"
proof -
  define L where "L = length m mod 64"
  let ?w = "take (length m div 64 * 64) m" and ?r = "drop (length m div 64 * 64) m"
  have st: "state ctx = chain p h0 m" "length (buffer ctx) = 64" "take L (buffer ctx) = ?r"
    "total0 ctx = of_nat (length m)" "total1 ctx = of_nat (length m div 4294967296)"
    using a by (simp_all add: absorbed_by_def L_def)
  have un: "unat (of_nat (length x) :: u32) = length x" using x by (simp add: unat_of_nat)
  have left: "unat (total0 ctx AND 0x3F) = L" by (simp add: st(4) left_bytes L_def)
  have L64: "L < 64" by (simp add: L_def)
  have fill: "unat (64 - (total0 ctx AND 0x3F)) = 64 - L"
    using left L64 by (subst unat_sub) (simp_all add: word_le_nat_alt)
  have tot: "(total0 ctx + of_nat (length x)) AND 0xFFFFFFFF = of_nat (length (m @ x))"
    by (simp add: and_all_ones st(4))
  define ctx1 where "ctx1 = ctx\<lparr>total0 := of_nat (length (m @ x)), total1 := of_nat (length (m @ x) div 4294967296)\<rparr>"
  have tot1: "(if (of_nat (length (m @ x)) :: u32) < of_nat (length x) then total1 ctx + 1 else total1 ctx)
      = of_nat (length (m @ x) div 4294967296)"
    using carry_total [of "length x" "length m"] x by (simp add: st(5))
  show ?thesis
  proof (cases "x = []")
    case True
    then show ?thesis using a by (simp add: block_update_def)
  next
    case False
    then have ne: "(of_nat (length x) :: u32) \<noteq> 0" using un by (metis length_0_conv unat_0)
    have lz: "total0 ctx AND 0x3F = 0 \<longleftrightarrow> L = 0" using left by (simp add: word_unat_eq_iff)
    have fl: "64 - (total0 ctx AND 0x3F) \<le> of_nat (length x) \<longleftrightarrow> 64 - L \<le> length x"
      using fill un by (simp add: word_le_nat_alt)
    define rest where "rest = (\<lambda>(ctx2 :: block_ctx, input2, left2 :: u32).
        let (st, input3) = block_loop p (state ctx2) input2 in
        if input3 \<noteq> []
        then do { b \<leftarrow> copy_bytes (buffer ctx2) (unat left2) input3 0 (length input3);
                  Some (ctx2\<lparr>state := st, buffer := b\<rparr>) }
        else Some (ctx2\<lparr>state := st\<rparr>))"
    have upd: "block_update p ctx x =
        (if L \<noteq> 0 \<and> 64 - L \<le> length x
         then do { b \<leftarrow> copy_bytes (buffer ctx) L x 0 (64 - L);
                   rest (ctx1\<lparr>buffer := b, state := p (state ctx) b\<rparr>, drop (64 - L) x, 0) }
         else rest (ctx1, x, total0 ctx AND 0x3F))"
      unfolding block_update_def Let_def tot tot1 using ne lz fl
      by (simp add: left fill ctx1_def rest_def Let_def)
    have fin: "\<exists>ctx'. Some ctx2 = Some ctx' \<and> absorbed_by p h0 ctx' (m @ x)"
      if "total0 ctx2 = of_nat (length (m @ x))" "total1 ctx2 = of_nat (length (m @ x) div 4294967296)"
        "state ctx2 = chain p h0 (m @ x)" "length (buffer ctx2) = 64"
        "take (length (m @ x) mod 64) (buffer ctx2) = drop (length (m @ x) div 64 * 64) (m @ x)" for ctx2
      using that by (simp add: absorbed_by_def)
    have whole: "\<exists>ctx'. rest (ctx2, y, 0) = Some ctx' \<and> absorbed_by p h0 ctx' (m @ x)"
      if h: "64 dvd length w" "length (buffer ctx2) = 64" "w @ y = m @ x" "state ctx2 = chain p h0 w"
        "total0 ctx2 = of_nat (length (m @ x))" "total1 ctx2 = of_nat (length (m @ x) div 4294967296)" for ctx2 w y
    proof -
      define r where "r = drop (length y div 64 * 64) y"
      obtain b' where "(if r \<noteq> [] then copy_bytes (buffer ctx2) 0 r 0 (length r) else Some (buffer ctx2)) = Some b'"
        "length b' = 64" "take (length (m @ x) mod 64) b' = drop (length (m @ x) div 64 * 64) (m @ x)"
        using rest_of_update [OF h(1,2) r_def] unfolding h(3) by blast
      moreover have "chain p (state ctx2) y = chain p h0 (m @ x)"
        using chain_append [OF h(1), of p h0 y] h(3,4) by simp
      moreover have "rest (ctx2, y, 0) = (if r \<noteq> [] then do { b \<leftarrow> copy_bytes (buffer ctx2) 0 r 0 (length r);
            Some (ctx2\<lparr>state := chain p (state ctx2) y, buffer := b\<rparr>) }
          else Some (ctx2\<lparr>state := chain p (state ctx2) y\<rparr>))"
      proof -
        have "block_loop p (state ctx2) y = (chain p (state ctx2) y, r)" by (simp add: block_loop_eq r_def)
        then show ?thesis by (simp add: rest_def)
      qed
      ultimately show ?thesis
        using h(5,6) by (cases "r = []") (auto simp: absorbed_by_def)
    qed
    consider "L = 0" | "L \<noteq> 0" "64 - L \<le> length x" | "L \<noteq> 0" "length x < 64 - L" by linarith
    then show ?thesis
    proof cases
      case 1
      then have "64 dvd length m" by (simp add: L_def mod_eq_0_iff_dvd)
      moreover have "total0 ctx AND 0x3F = 0" using 1 lz by simp
      moreover have "state ctx1 = state ctx" "buffer ctx1 = buffer ctx" "total0 ctx1 = of_nat (length (m @ x))"
        "total1 ctx1 = of_nat (length (m @ x) div 4294967296)" by (simp_all add: ctx1_def)
      ultimately show ?thesis
        using whole [of m ctx1 x] 1 st(1,2) unfolding upd by simp
    next
      case 2
      let ?b = "?r @ take (64 - L) x" and ?w2 = "m @ take (64 - L) x"
      have lw: "64 dvd length ?w2"
      proof -
        have "length m div 64 * 64 + L = length m" by (simp add: L_def)
        moreover have "length ?w2 = length m + (64 - L)" using 2 by simp
        ultimately have "length ?w2 = length m div 64 * 64 + 64" using L64 by linarith
        then show ?thesis by simp
      qed
      have "copy_bytes (buffer ctx) L x 0 (64 - L) = Some ?b"
        using 2 L64 st(2,3) by (simp add: copy_bytes_def)
      moreover have "length ?b = 64" using 2 L64 by (simp add: L_def minus_div_mult_eq_mod)
      moreover have "p (state ctx) ?b = chain p h0 ?w2"
      proof -
        have "chain p h0 ?w2 = chain p h0 (?w @ ?b)"
          by (simp only: append_assoc [symmetric] append_take_drop_id)
        also have "\<dots> = chain p (chain p h0 ?w) ?b" by (rule chain_append) simp
        also have "\<dots> = p (chain p h0 ?w) ?b"
          by (rule chain_one) (rule \<open>length ?b = 64\<close>)
        finally show ?thesis using st(1) chain_whole_blocks [of p h0 m] by simp
      qed
      moreover define ctx2 where "ctx2 = ctx1\<lparr>buffer := ?b, state := p (state ctx) ?b\<rparr>"
      moreover have "buffer ctx2 = ?b" "state ctx2 = p (state ctx) ?b" "total0 ctx2 = of_nat (length (m @ x))"
        "total1 ctx2 = of_nat (length (m @ x) div 4294967296)" by (simp_all add: ctx2_def ctx1_def)
      ultimately show ?thesis
        using whole [of ?w2 ctx2 "drop (64 - L) x"] 2 lw unfolding upd by simp
    next
      case 3
      define q where "q = length m div 64"
      have e: "length (m @ x) = q * 64 + (L + length x)" by (simp add: L_def q_def)
      have "L + length x < 64" using 3 L64 by simp
      then have len: "length (m @ x) mod 64 = L + length x" "length (m @ x) div 64 = length m div 64"
        unfolding e q_def [symmetric] by simp_all
      have bl: "block_loop p (state ctx1) x = (state ctx, x)"
      proof -
        have "\<not> 64 \<le> length x" using 3 by simp
        then show ?thesis by (simp add: block_loop.simps ctx1_def)
      qed
      have cp: "copy_bytes (buffer ctx) L x 0 (length x) = Some (?r @ x @ drop (L + length x) (buffer ctx))"
        using 3 L64 st(2,3) by (simp add: copy_bytes_def)
      have lr: "length ?r = L" by (simp add: L_def minus_div_mult_eq_mod)
      have "chain p h0 (m @ x) = chain p h0 m"
        using chain_whole_blocks [of p h0 "m @ x"] chain_whole_blocks [of p h0 m] unfolding len(2) by simp
      then show ?thesis
        using 3 False bl cp st(1,2) left L64 rest_def fin [of "ctx1\<lparr>state := state ctx, buffer := ?r @ x @ drop (L + length x) (buffer ctx)\<rparr>"] lr
        unfolding upd len by (simp add: ctx1_def)
    qed
  qed
qed


section \<open>Finishing\<close>

lemma bits_high:
  "drop_bit 29 (of_nat n :: u32) OR push_bit 3 (of_nat (n div 4294967296)) = of_nat (8 * n div 4294967296)"
proof -
  have d: "8 * n div 4294967296 = drop_bit 29 n" by (simp add: drop_bit_eq_div)
  have e: "n div 4294967296 = drop_bit 32 n" by (simp add: drop_bit_eq_div)
  show ?thesis
    unfolding d e by (rule bit_word_eqI) (auto simp: bit_simps)
qed

lemma bits_low: "push_bit 3 (of_nat n :: u32) = of_nat (8 * n)"
  by (simp add: push_bit_eq_mult)

lemma pad_mod: "L < 64 \<Longrightarrow> (119 - L) mod 64 = (if L < 56 then 55 - L else 119 - (L :: nat))"
proof (cases "L < 56")
  case True
  then have "119 - L = (55 - L) + 64" by simp
  then have "(119 - L) mod 64 = (55 - L) mod 64" by (metis mod_add_self2)
  then show ?thesis using True by simp
qed simp

lemma padded_length: "64 dvd length (padded m)"
proof -
  define L q where "L = length m mod 64" and "q = length m div 64"
  have m: "length m = 64 * q + L" by (simp add: L_def q_def)
  have "length (padded m) = length m + 9 + (119 - L) mod 64" by (simp add: padded_def pad_zeros_def L_def)
  then have "length (padded m) = 64 * q + (L + 9 + (119 - L) mod 64)" unfolding m by simp
  moreover have "L < 64" by (simp add: L_def)
  then have "L + 9 + (119 - L) mod 64 = (if L < 56 then 64 else 128)" by (simp add: pad_mod)
  ultimately show ?thesis by (simp split: if_splits)
qed

lemma block_finish_chains:
  assumes "absorbed_by p h0 ctx m"
  shows "\<exists>ctx'. block_finish p ctx = Some ctx' \<and> state ctx' = chain p h0 (padded m) \<and> length (buffer ctx') = 64"
proof -
  define L where "L = length m mod 64"
  have L: "unat (total0 ctx AND 0x3F) = L" "L < 64"
    using assms by (simp_all add: absorbed_by_def left_bytes L_def)
  define padn where "padn = (if total0 ctx AND 0x3F < 56 then 56 - (total0 ctx AND 0x3F) else 120 - (total0 ctx AND 0x3F))"
  have "unat padn = (if L < 56 then 56 - L else 120 - L)"
    using L by (auto simp: padn_def word_less_nat_alt unat_sub word_le_nat_alt)
  then have n: "unat padn = 1 + pad_zeros m" "unat padn \<le> 64"
    using L(2) unfolding pad_zeros_def L_def [symmetric] by (auto simp: pad_mod)
  have tk: "take (unat padn) block_padding = [0x80] @ replicate (pad_zeros m) 0"
    using n by (simp add: block_padding_def min_def)
  obtain c1 where c1: "block_update p ctx (take (unat padn) block_padding) = Some c1"
    "absorbed_by p h0 c1 (m @ [0x80] @ replicate (pad_zeros m) 0)"
    using block_update_absorbs [OF assms, of "take (unat padn) block_padding"] n unfolding tk by auto
  define len where "len = PUT_UINT32_BE (of_nat (8 * length m div 4294967296)) @ PUT_UINT32_BE (of_nat (8 * length m))"
  obtain c2 where c2: "block_update p c1 len = Some c2" "absorbed_by p h0 c2 (padded m)"
    using block_update_absorbs [OF c1(2), of len] by (auto simp: len_def padded_def)
  have "PUT_UINT32_BE (drop_bit 29 (total0 ctx) OR push_bit 3 (total1 ctx)) @ PUT_UINT32_BE (push_bit 3 (total0 ctx)) = len"
  proof -
    have t: "total0 ctx = of_nat (length m)" "total1 ctx = of_nat (length m div 4294967296)"
      using assms by (simp_all add: absorbed_by_def)
    show ?thesis unfolding t unfolding bits_high unfolding bits_low len_def ..
  qed
  then have "block_finish p ctx = Some c2"
    using c1(1) c2(1) by (simp add: block_finish_def Let_def padn_def)
  then show ?thesis using c2(2) by (simp add: absorbed_by_def)
qed

lemmas block_hash_facts = block_update_absorbs block_finish_chains

end
