(* ===== verification/Sha256.thy ===== *)
theory Sha256
  imports Block_Hash
begin

unbundle bit_operations_syntax

text \<open>
  lib/sha256.c. The 64 unrolled steps of \<open>sha256_process\<close> are a fold over the step number: the macro \<open>P\<close> is
  always applied to the same eight variables, whose roles move on by one place per step, and \<open>R (t)\<close>
  extends the message schedule. \<open>sha256_process_fips\<close> shows that this computes the compression function
  of FIPS 180-2, \<open>sha256_stream\<close> is the interpretation of the digest contract.
\<close>

section \<open>The code\<close>

definition SHR :: "u32 \<Rightarrow> nat \<Rightarrow> u32" where
  "SHR x n = drop_bit n (x AND 0xFFFFFFFF)"

definition ROTR :: "u32 \<Rightarrow> nat \<Rightarrow> u32" where
  "ROTR x n = SHR x n OR push_bit (32 - n) x"

definition S0 :: "u32 \<Rightarrow> u32" where "S0 x = ROTR x 7 XOR ROTR x 18 XOR SHR x 3"
definition S1 :: "u32 \<Rightarrow> u32" where "S1 x = ROTR x 17 XOR ROTR x 19 XOR SHR x 10"
definition S2 :: "u32 \<Rightarrow> u32" where "S2 x = ROTR x 2 XOR ROTR x 13 XOR ROTR x 22"
definition S3 :: "u32 \<Rightarrow> u32" where "S3 x = ROTR x 6 XOR ROTR x 11 XOR ROTR x 25"
definition F0 :: "u32 \<Rightarrow> u32 \<Rightarrow> u32 \<Rightarrow> u32" where "F0 x y z = (x AND y) OR (z AND (x OR y))"
definition F1 :: "u32 \<Rightarrow> u32 \<Rightarrow> u32 \<Rightarrow> u32" where "F1 x y z = z XOR (x AND (y XOR z))"

definition sha256_K :: "u32 list" where
  "sha256_K = [
   0x428A2F98, 0x71374491, 0xB5C0FBCF, 0xE9B5DBA5, 0x3956C25B, 0x59F111F1, 0x923F82A4, 0xAB1C5ED5,
   0xD807AA98, 0x12835B01, 0x243185BE, 0x550C7DC3, 0x72BE5D74, 0x80DEB1FE, 0x9BDC06A7, 0xC19BF174,
   0xE49B69C1, 0xEFBE4786, 0x0FC19DC6, 0x240CA1CC, 0x2DE92C6F, 0x4A7484AA, 0x5CB0A9DC, 0x76F988DA,
   0x983E5152, 0xA831C66D, 0xB00327C8, 0xBF597FC7, 0xC6E00BF3, 0xD5A79147, 0x06CA6351, 0x14292967,
   0x27B70A85, 0x2E1B2138, 0x4D2C6DFC, 0x53380D13, 0x650A7354, 0x766A0ABB, 0x81C2C92E, 0x92722C85,
   0xA2BFE8A1, 0xA81A664B, 0xC24B8B70, 0xC76C51A3, 0xD192E819, 0xD6990624, 0xF40E3585, 0x106AA070,
   0x19A4C116, 0x1E376C08, 0x2748774C, 0x34B0BCB5, 0x391C0CB3, 0x4ED8AA4A, 0x5B9CCA4F, 0x682E6FF3,
   0x748F82EE, 0x78A5636F, 0x84C87814, 0x8CC70208, 0x90BEFFFA, 0xA4506CEB, 0xBEF9A3F7, 0xC67178F2]"

text \<open>\<open>role k t\<close>: which of the variables A to H stands in argument \<open>k\<close> of the macro at step \<open>t\<close>.\<close>

definition role :: "nat \<Rightarrow> nat \<Rightarrow> nat" where
  "role k t = (k + 8 - t mod 8) mod 8"

definition sha256_P :: "u32 list \<Rightarrow> nat \<Rightarrow> u32 \<Rightarrow> u32 \<Rightarrow> u32 list" where
  "sha256_P v t x K =
     (let a = v ! role 0 t; b = v ! role 1 t; c = v ! role 2 t; d = v ! role 3 t;
          e = v ! role 4 t; f = v ! role 5 t; g = v ! role 6 t; h = v ! role 7 t;
          temp1 = h + S3 e + F1 e f g + K + x; temp2 = S2 a + F0 a b c in
      v[role 3 t := d + temp1, role 7 t := temp1 + temp2])"

definition sha256_R :: "u32 list \<Rightarrow> nat \<Rightarrow> u32 list" where
  "sha256_R W t = W[t := S1 (W ! (t - 2)) + W ! (t - 7) + S0 (W ! (t - 15)) + W ! (t - 16)]"

definition sha256_step :: "nat \<Rightarrow> u32 list \<times> u32 list \<Rightarrow> u32 list \<times> u32 list" where
  "sha256_step t = (\<lambda>(W, v). let W1 = (if t < 16 then W else sha256_R W t) in
     (W1, sha256_P v t (W1 ! t) (sha256_K ! t)))"

text \<open>The array \<open>W\<close> starts with the block; the 48 entries behind it are written before they are read.\<close>

definition sha256_process :: "u32 list \<Rightarrow> byte list \<Rightarrow> u32 list" where
  "sha256_process st data =
     (let W = map (\<lambda>i. GET_UINT32_BE data (4 * i)) [0..<16] @ replicate 48 0 in
      map2 (+) st (snd (fold sha256_step [0..<64] (W, st))))"

definition sha256_H0 :: "u32 list" where
  "sha256_H0 = [0x6A09E667, 0xBB67AE85, 0x3C6EF372, 0xA54FF53A, 0x510E527F, 0x9B05688C, 0x1F83D9AB, 0x5BE0CD19]"

definition sha256_starts :: "block_ctx \<Rightarrow> block_ctx" where
  "sha256_starts ctx = ctx\<lparr>total0 := 0, total1 := 0, state := sha256_H0\<rparr>"

definition sha256_update :: "block_ctx \<Rightarrow> byte list \<Rightarrow> block_ctx option" where
  "sha256_update = block_update sha256_process"

definition sha256_finish :: "block_ctx \<Rightarrow> byte list option" where
  "sha256_finish ctx = do { ctx1 \<leftarrow> block_finish sha256_process ctx; Some (concat (map PUT_UINT32_BE (state ctx1))) }"

text \<open>\<open>wd\<close> tells whether the build has a watchdog; \<open>ctx\<close> is the uninitialised local variable.\<close>

definition sha256_csum_wd :: "bool \<Rightarrow> block_ctx \<Rightarrow> byte list \<Rightarrow> u32 \<Rightarrow> byte list option" where
  "sha256_csum_wd wd ctx input chunk_sz =
     do { ctx1 \<leftarrow> (if wd then chunk_loop sha256_update (sha256_starts ctx) (unat chunk_sz) input
                   else sha256_update (sha256_starts ctx) input);
          sha256_finish ctx1 }"

section \<open>Reference: FIPS 180-2\<close>

definition Ch :: "u32 \<Rightarrow> u32 \<Rightarrow> u32 \<Rightarrow> u32" where "Ch x y z = (x AND y) XOR (NOT x AND z)"
definition Maj :: "u32 \<Rightarrow> u32 \<Rightarrow> u32 \<Rightarrow> u32" where "Maj x y z = (x AND y) XOR (x AND z) XOR (y AND z)"
definition Sigma0 :: "u32 \<Rightarrow> u32" where "Sigma0 x = word_rotr 2 x XOR word_rotr 13 x XOR word_rotr 22 x"
definition Sigma1 :: "u32 \<Rightarrow> u32" where "Sigma1 x = word_rotr 6 x XOR word_rotr 11 x XOR word_rotr 25 x"
definition sigma0 :: "u32 \<Rightarrow> u32" where "sigma0 x = word_rotr 7 x XOR word_rotr 18 x XOR drop_bit 3 x"
definition sigma1 :: "u32 \<Rightarrow> u32" where "sigma1 x = word_rotr 17 x XOR word_rotr 19 x XOR drop_bit 10 x"

fun fips_W :: "byte list \<Rightarrow> nat \<Rightarrow> u32" where
  "fips_W data t = (if t < 16 then GET_UINT32_BE data (4 * t)
     else sigma1 (fips_W data (t - 2)) + fips_W data (t - 7) + sigma0 (fips_W data (t - 15)) + fips_W data (t - 16))"

declare fips_W.simps [simp del]

fun fips_round :: "u32 \<Rightarrow> u32 \<Rightarrow> u32 list \<Rightarrow> u32 list" where
  "fips_round K w [a, b, c, d, e, f, g, h] =
     (let T1 = h + Sigma1 e + Ch e f g + K + w; T2 = Sigma0 a + Maj a b c in
      [T1 + T2, a, b, c, d + T1, e, f, g])"
| "fips_round K w v = v"

definition fips_compress :: "u32 list \<Rightarrow> byte list \<Rightarrow> u32 list" where
  "fips_compress st data = map2 (+) st (fold (\<lambda>t. fips_round (sha256_K ! t) (fips_W data t)) [0..<64] st)"

section \<open>Equivalence\<close>

lemma SHR_drop: "SHR x n = drop_bit n x"
  by (simp add: SHR_def and_all_ones)

lemma ROTR_rotr: "0 < n \<Longrightarrow> n < 32 \<Longrightarrow> ROTR x n = word_rotr n x"
proof (rule bit_word_eqI)
  fix i :: nat
  assume n: "0 < n" "n < 32" and i: "i < LENGTH(32)"
  have m: "(n + i) mod 32 = (if n + i < 32 then n + i else n + i - 32)" using n i by (simp add: mod_if)
  show "bit (ROTR x n) i = bit (word_rotr n x) i"
    using n i unfolding ROTR_def SHR_drop bit_word_rotr_iff
    by (auto simp: bit_simps m add.commute [of i n] dest: bit_imp_le_length)
qed

lemma macros_fips: "S0 x = sigma0 x" "S1 x = sigma1 x" "S2 x = Sigma0 x" "S3 x = Sigma1 x"
  by (simp_all add: S0_def S1_def S2_def S3_def sigma0_def sigma1_def Sigma0_def Sigma1_def ROTR_rotr SHR_drop)

lemma F_fips: "F0 x y z = Maj x y z" "F1 x y z = Ch x y z"
  by (rule bit_word_eqI, auto simp: F0_def F1_def Maj_def Ch_def bit_simps)+

text \<open>The message schedule: after step \<open>t\<close> the array holds the FIPS words up to \<open>t\<close>.\<close>

definition sched_ok :: "byte list \<Rightarrow> nat \<Rightarrow> u32 list \<Rightarrow> bool" where
  "sched_ok data t W \<longleftrightarrow> length W = 64 \<and> (\<forall>i < max 16 t. W ! i = fips_W data i)"

lemma sched_init: "sched_ok data 0 (map (\<lambda>i. GET_UINT32_BE data (4 * i)) [0..<16] @ replicate 48 0)"
  by (auto simp: sched_ok_def nth_append fips_W.simps)

lemma sched_step:
  assumes "sched_ok data t W" and "t < 64"
  shows "sched_ok data (t + 1) (if t < 16 then W else sha256_R W t)"
    "(if t < 16 then W else sha256_R W t) ! t = fips_W data t"
proof -
  have W: "W ! i = fips_W data i" if "i < t \<or> i < 16" for i using assms(1) that by (auto simp: sched_ok_def)
  show "sched_ok data (t + 1) (if t < 16 then W else sha256_R W t)"
  proof (cases "t < 16")
    case True
    then show ?thesis using assms(1) by (simp add: sched_ok_def)
  next
    case False
    then show ?thesis using assms W
      by (auto simp: sched_ok_def sha256_R_def nth_list_update macros_fips fips_W.simps [of data t])
  qed
  show "(if t < 16 then W else sha256_R W t) ! t = fips_W data t"
    using assms W by (auto simp: sched_ok_def sha256_R_def macros_fips fips_W.simps [of data t])
qed

text \<open>The variables read in the order of their roles are the FIPS working variables.\<close>

definition roles :: "u32 list \<Rightarrow> nat \<Rightarrow> u32 list" where
  "roles v t = map (\<lambda>k. v ! role k t) [0..<8]"

lemma roles_list: "[0..<8] = [0, 1, 2, 3, 4, 5, 6, 7 :: nat]"
  by (simp add: upt_rec)

lemma list8:
  assumes "length v = 8"
  obtains a b c d e f g h where "v = [a, b, c, d, e, f, g, h]"
  using assms by (auto simp: length_Suc_conv numeral_eq_Suc)

lemma P_is_round:
  assumes "length v = 8"
  shows "roles (sha256_P v t x K) (t + 1) = fips_round K x (roles v t)"
proof -
  obtain a b c d e f g h where v: "v = [a, b, c, d, e, f, g, h]" by (rule list8 [OF assms])
  have "t mod 8 \<in> {0, 1, 2, 3, 4, 5, 6, 7}" by auto
  moreover have "(t + 1) mod 8 = (t mod 8 + 1) mod 8" by (simp add: mod_Suc_eq)
  ultimately show ?thesis
    by (auto simp: roles_def roles_list role_def sha256_P_def v Let_def F_fips macros_fips)
qed

lemma length_P [simp]: "length (sha256_P v t x K) = length v"
  by (simp add: sha256_P_def Let_def)

lemma rounds_fips:
  assumes "sched_ok data 0 W" and "length v = 8" and "n \<le> 64"
  shows "sched_ok data n (fst (fold sha256_step [0..<n] (W, v))) \<and> length (snd (fold sha256_step [0..<n] (W, v))) = 8
     \<and> roles (snd (fold sha256_step [0..<n] (W, v))) n = fold (\<lambda>t. fips_round (sha256_K ! t) (fips_W data t)) [0..<n] (roles v 0)"
  using assms(3)
proof (induction n)
  case 0
  then show ?case using assms by simp
next
  case (Suc n)
  obtain W1 v1 where 1: "fold sha256_step [0..<n] (W, v) = (W1, v1)" by fastforce
  then have IH: "sched_ok data n W1" "length v1 = 8"
    "roles v1 n = fold (\<lambda>t. fips_round (sha256_K ! t) (fips_W data t)) [0..<n] (roles v 0)"
    using Suc by auto
  define W2 where "W2 = (if n < 16 then W1 else sha256_R W1 n)"
  have W2: "sched_ok data (Suc n) W2" "W2 ! n = fips_W data n"
    using sched_step [OF IH(1)] Suc.prems by (simp_all add: W2_def)
  then have "fold sha256_step [0..<Suc n] (W, v) = (W2, sha256_P v1 n (fips_W data n) (sha256_K ! n))"
    using 1 by (simp add: sha256_step_def Let_def flip: W2_def)
  then show ?case
    using W2 IH P_is_round [OF IH(2), of n "fips_W data n" "sha256_K ! n"] by simp
qed

lemma roles_end: "length v = 8 \<Longrightarrow> roles v 64 = v" "length v = 8 \<Longrightarrow> roles v 0 = v"
  by (auto elim!: list8 simp: roles_def roles_list role_def)

lemma process_fips:
  assumes "length st = 8"
  shows "sha256_process st data = fips_compress st data"
proof -
  define v where "v = snd (fold sha256_step [0..<64] (map (\<lambda>i. GET_UINT32_BE data (4 * i)) [0..<16] @ replicate 48 0, st))"
  have "length v = 8" "roles v 64 = fold (\<lambda>t. fips_round (sha256_K ! t) (fips_W data t)) [0..<64] (roles st 0)"
    using rounds_fips [OF sched_init assms, of 64 data] unfolding v_def by blast+
  then have "v = fold (\<lambda>t. fips_round (sha256_K ! t) (fips_W data t)) [0..<64] st"
    using roles_end assms by metis
  then show ?thesis by (simp add: sha256_process_def fips_compress_def Let_def flip: v_def)
qed

lemma length_process: "length st = 8 \<Longrightarrow> length (sha256_process st data) = 8"
  using rounds_fips [OF sched_init, of st 64 data] by (simp add: sha256_process_def Let_def)


section \<open>The digest\<close>

definition fips_sha256 :: "byte list \<Rightarrow> byte list" where
  "fips_sha256 m = concat (map PUT_UINT32_BE (chain fips_compress sha256_H0 (padded m)))"

lemma chain_fips: "length st = 8 \<Longrightarrow> chain sha256_process st m = chain fips_compress st m"
proof (induction "length m" arbitrary: st m rule: less_induct)
  case less
  show ?case
  proof (cases "64 \<le> length m")
    case True
    then show ?thesis
      using less.hyps [of "drop 64 m" "sha256_process st (take 64 m)"] less.prems
      by (simp add: chain_step length_process flip: process_fips)
  qed (simp add: chain_short)
qed

interpretation sha256_stream: stream_hash "\<lambda>ctx. length (buffer ctx) = 64" "absorbed_by sha256_process sha256_H0"
  sha256_starts sha256_update sha256_finish fips_sha256 4294967295
proof
  fix c :: block_ctx and m x :: "byte list"
  show "absorbed_by sha256_process sha256_H0 (sha256_starts c) []" if "length (buffer c) = 64"
    using that by (simp add: absorbed_by_def sha256_starts_def chain_short)
  show "\<exists>c'. sha256_update c x = Some c' \<and> absorbed_by sha256_process sha256_H0 c' (m @ x)"
    if "absorbed_by sha256_process sha256_H0 c m" "length x \<le> 4294967295"
    using block_update_absorbs [OF that] by (simp add: sha256_update_def)
  show "sha256_finish c = Some (fips_sha256 m)" if "absorbed_by sha256_process sha256_H0 c m"
  proof -
    have "length sha256_H0 = 8" by (simp add: sha256_H0_def)
    then show ?thesis
      using block_finish_chains [OF that] chain_fips by (auto simp: sha256_finish_def fips_sha256_def)
  qed
qed

section \<open>Properties\<close>

text \<open>C23 (lib/sha256.c, \<open>sha256_process\<close>). The 64 unrolled steps over rotating variables, with the optimised
  forms of the choice and majority functions, compute the compression function of FIPS 180-2.\<close>

theorem sha256_process_fips:
  assumes "length st = 8"
  shows "sha256_process st data = fips_compress st data \<and> length (sha256_process st data) = 8"
  using process_fips [OF assms] length_process [OF assms] by simp

theorem sha256_process_fips_witness:
  "sha256_process sha256_H0 (replicate 64 0) = fips_compress sha256_H0 (replicate 64 0)
     \<and> length (sha256_process sha256_H0 (replicate 64 0)) = 8"
  by (rule sha256_process_fips) (simp add: sha256_H0_def)

text \<open>C16 (lib/sha256.c). However a message is cut into \<open>sha256_update\<close> calls, and whether or not the build
  feeds the watchdog in chunks, the result of \<open>sha256_finish\<close> is the FIPS digest of the whole message;
  no copy leaves the context's buffer, whatever the buffer held before.\<close>

theorem sha256_any_pieces:
  assumes "length (buffer ctx) = 64" and "list_all (\<lambda>x. length x \<le> 4294967295) xs" and "0 < chunk_sz"
    and "length input \<le> 4294967295"
  shows "do { c \<leftarrow> feed sha256_update (sha256_starts ctx) xs; sha256_finish c } = Some (fips_sha256 (concat xs))
     \<and> sha256_csum_wd wd ctx input chunk_sz = Some (fips_sha256 input)"
proof -
  have "0 < unat chunk_sz" "unat chunk_sz \<le> 4294967295"
    using assms(3) unat_lt_u32 [of chunk_sz] by (auto simp: word_less_nat_alt simp del: unat_lt_u32)
  then show ?thesis
    using sha256_stream.digest_of_pieces [OF assms(1,2)] sha256_stream.digest_of_one [OF assms(1,4)]
      sha256_stream.digest_of_chunks [OF assms(1), of "unat chunk_sz" input]
    by (auto simp: sha256_csum_wd_def)
qed

theorem sha256_any_pieces_witness:
  "do { c \<leftarrow> feed sha256_update (sha256_starts \<lparr>total0 = 7, total1 = 0, state = [], buffer = replicate 64 1\<rparr>) [[0x61], [0x62, 0x63]];
        sha256_finish c } = Some (fips_sha256 (concat [[0x61], [0x62, 0x63]]))
   \<and> sha256_csum_wd True \<lparr>total0 = 7, total1 = 0, state = [], buffer = replicate 64 1\<rparr> [0x61, 0x62, 0x63] 2
       = Some (fips_sha256 [0x61, 0x62, 0x63])"
  by (rule sha256_any_pieces) simp_all

end
