(* ===== verification/Sha1.thy ===== *)
theory Sha1
  imports Block_Hash
begin

unbundle bit_operations_syntax

text \<open>
  lib/sha1.c, with HMAC. The 80 unrolled steps of \<open>sha1_process\<close> are a fold over the step number; the five
  variables change roles at every step, the message schedule lives in sixteen words used round-robin, and
  the macros \<open>F\<close> and \<open>K\<close> are redefined every twenty steps.
\<close>

section \<open>The code\<close>

definition sha1_S :: "u32 \<Rightarrow> nat \<Rightarrow> u32" where
  "sha1_S x n = push_bit n x OR drop_bit (32 - n) (x AND 0xFFFFFFFF)"

definition sha1_F :: "nat \<Rightarrow> u32 \<Rightarrow> u32 \<Rightarrow> u32 \<Rightarrow> u32" where
  "sha1_F t x y z =
     (if t < 20 then z XOR (x AND (y XOR z)) else if t < 40 then x XOR y XOR z
      else if t < 60 then (x AND y) OR (z AND (x OR y)) else x XOR y XOR z)"

definition sha1_K :: "nat \<Rightarrow> u32" where
  "sha1_K t = (if t < 20 then 0x5A827999 else if t < 40 then 0x6ED9EBA1 else if t < 60 then 0x8F1BBCDC else 0xCA62C1D6)"

definition role5 :: "nat \<Rightarrow> nat \<Rightarrow> nat" where
  "role5 k t = (k + 5 - t mod 5) mod 5"

definition sha1_P :: "u32 list \<Rightarrow> nat \<Rightarrow> u32 \<Rightarrow> u32 list" where
  "sha1_P v t x =
     (let a = v ! role5 0 t; b = v ! role5 1 t; c = v ! role5 2 t; d = v ! role5 3 t; e = v ! role5 4 t in
      v[role5 4 t := e + (sha1_S a 5 + sha1_F t b c d + sha1_K t + x), role5 1 t := sha1_S b 30])"

text \<open>Indices are taken \<open>& 0x0F\<close>, that is modulo 16.\<close>

definition sha1_R :: "u32 list \<Rightarrow> nat \<Rightarrow> u32 list" where
  "sha1_R W t =
     (let temp = W ! ((t - 3) mod 16) XOR W ! ((t - 8) mod 16) XOR W ! ((t - 14) mod 16) XOR W ! (t mod 16) in
      W[t mod 16 := sha1_S temp 1])"

definition sha1_step :: "nat \<Rightarrow> u32 list \<times> u32 list \<Rightarrow> u32 list \<times> u32 list" where
  "sha1_step t = (\<lambda>(W, v). let W1 = (if t < 16 then W else sha1_R W t) in (W1, sha1_P v t (W1 ! (t mod 16))))"

definition sha1_process :: "u32 list \<Rightarrow> byte list \<Rightarrow> u32 list" where
  "sha1_process st data =
     (let W = map (\<lambda>i. GET_UINT32_BE data (4 * i)) [0..<16] in
      map2 (+) st (snd (fold sha1_step [0..<80] (W, st))))"

definition sha1_H0 :: "u32 list" where
  "sha1_H0 = [0x67452301, 0xEFCDAB89, 0x98BADCFE, 0x10325476, 0xC3D2E1F0]"

definition sha1_starts :: "block_ctx \<Rightarrow> block_ctx" where
  "sha1_starts ctx = ctx\<lparr>total0 := 0, total1 := 0, state := sha1_H0\<rparr>"

definition sha1_update :: "block_ctx \<Rightarrow> byte list \<Rightarrow> block_ctx option" where
  "sha1_update = block_update sha1_process"

definition sha1_finish :: "block_ctx \<Rightarrow> byte list option" where
  "sha1_finish ctx = do { ctx1 \<leftarrow> block_finish sha1_process ctx; Some (concat (map PUT_UINT32_BE (state ctx1))) }"

definition sha1_csum :: "block_ctx \<Rightarrow> byte list \<Rightarrow> byte list option" where
  "sha1_csum ctx input = do { ctx1 \<leftarrow> sha1_update (sha1_starts ctx) input; sha1_finish ctx1 }"

definition sha1_csum_wd :: "bool \<Rightarrow> block_ctx \<Rightarrow> byte list \<Rightarrow> u32 \<Rightarrow> byte list option" where
  "sha1_csum_wd wd ctx input chunk_sz =
     do { ctx1 \<leftarrow> (if wd then chunk_loop sha1_update (sha1_starts ctx) (unat chunk_sz) input
                   else sha1_update (sha1_starts ctx) input);
          sha1_finish ctx1 }"

text \<open>\<open>k_pad[i] ^= key[i]\<close> for \<open>i < keylen\<close>, stopping at 64.\<close>

definition xor_key :: "byte \<Rightarrow> byte list \<Rightarrow> byte list" where
  "xor_key pad key = fold (\<lambda>i k. k[i := k ! i XOR key ! i]) [0..<min (length key) 64] (replicate 64 pad)"

text \<open>The second \<open>sha1_starts\<close> reuses the context that the first \<open>sha1_finish\<close> leaves; both pads and the context are wiped at the end.\<close>

definition sha1_hmac :: "block_ctx \<Rightarrow> byte list \<Rightarrow> byte list \<Rightarrow> byte list option" where
  "sha1_hmac ctx key input =
     do { c1 \<leftarrow> sha1_update (sha1_starts ctx) (xor_key 0x36 key); c2 \<leftarrow> sha1_update c1 input;
          f \<leftarrow> block_finish sha1_process c2;
          let tmpbuf = concat (map PUT_UINT32_BE (state f));
          c3 \<leftarrow> sha1_update (sha1_starts f) (xor_key 0x5C key); c4 \<leftarrow> sha1_update c3 tmpbuf;
          sha1_finish c4 }"

section \<open>Reference: FIPS 180-1 and RFC 2104\<close>

definition fips1_f :: "nat \<Rightarrow> u32 \<Rightarrow> u32 \<Rightarrow> u32 \<Rightarrow> u32" where
  "fips1_f t x y z =
     (if t < 20 then (x AND y) OR (NOT x AND z) else if t < 40 then x XOR y XOR z
      else if t < 60 then (x AND y) OR (x AND z) OR (y AND z) else x XOR y XOR z)"

fun fips1_W :: "byte list \<Rightarrow> nat \<Rightarrow> u32" where
  "fips1_W data t = (if t < 16 then GET_UINT32_BE data (4 * t)
     else word_rotl 1 (fips1_W data (t - 3) XOR fips1_W data (t - 8) XOR fips1_W data (t - 14) XOR fips1_W data (t - 16)))"

declare fips1_W.simps [simp del]

fun fips1_round :: "nat \<Rightarrow> u32 \<Rightarrow> u32 list \<Rightarrow> u32 list" where
  "fips1_round t w [a, b, c, d, e] =
     [word_rotl 5 a + fips1_f t b c d + e + sha1_K t + w, a, word_rotl 30 b, c, d]"
| "fips1_round t w v = v"

definition fips1_compress :: "u32 list \<Rightarrow> byte list \<Rightarrow> u32 list" where
  "fips1_compress st data = map2 (+) st (fold (\<lambda>t. fips1_round t (fips1_W data t)) [0..<80] st)"

definition fips_sha1 :: "byte list \<Rightarrow> byte list" where
  "fips_sha1 m = concat (map PUT_UINT32_BE (chain fips1_compress sha1_H0 (padded m)))"

text \<open>HMAC for a key of at most one block, which is extended with zeros.\<close>

definition hmac_pad :: "byte \<Rightarrow> byte list \<Rightarrow> byte list" where
  "hmac_pad p key = map (\<lambda>k. k XOR p) (key @ replicate (64 - length key) 0)"

definition rfc2104 :: "byte list \<Rightarrow> byte list \<Rightarrow> byte list" where
  "rfc2104 key text = fips_sha1 (hmac_pad 0x5C key @ fips_sha1 (hmac_pad 0x36 key @ text))"

section \<open>Equivalence\<close>

lemma S_rotl: "0 < n \<Longrightarrow> n < 32 \<Longrightarrow> sha1_S x n = word_rotl n x"
proof (rule bit_word_eqI)
  fix i :: nat
  assume n: "0 < n" "n < 32" and i: "i < LENGTH(32)"
  have m: "(i + 32 - n) mod 32 = (if n \<le> i then i - n else i + 32 - n)" using n i by (auto simp: mod_if)
  show "bit (sha1_S x n) i = bit (word_rotl n x) i"
    using n i unfolding sha1_S_def and_all_ones bit_word_rotl_iff
    by (auto simp: bit_simps m add.commute [of 32] dest: bit_imp_le_length)
qed

lemma F_fips1: "sha1_F t x y z = fips1_f t x y z"
  by (rule bit_word_eqI) (auto simp: sha1_F_def fips1_f_def bit_simps)

text \<open>The sixteen schedule words: before step \<open>t\<close> they are the FIPS words \<open>t - 16\<close> to \<open>t - 1\<close>.\<close>

definition sched1_ok :: "byte list \<Rightarrow> nat \<Rightarrow> u32 list \<Rightarrow> bool" where
  "sched1_ok data t W \<longleftrightarrow> length W = 16 \<and> (\<forall>i < max 16 t. max 16 t - 16 \<le> i \<longrightarrow> W ! (i mod 16) = fips1_W data i)"

lemma sched1_init: "sched1_ok data 0 (map (\<lambda>i. GET_UINT32_BE data (4 * i)) [0..<16])"
  by (auto simp: sched1_ok_def fips1_W.simps)

lemma sched1_step:
  assumes "sched1_ok data t W"
  shows "sched1_ok data (t + 1) (if t < 16 then W else sha1_R W t)"
    "(if t < 16 then W else sha1_R W t) ! (t mod 16) = fips1_W data t"
proof -
  have W: "W ! (i mod 16) = fips1_W data i" if "i < max 16 t" "max 16 t - 16 \<le> i" for i
    using assms that by (simp add: sched1_ok_def)
  have len: "length W = 16" using assms by (simp add: sched1_ok_def)
  have new: "sha1_R W t = W[t mod 16 := fips1_W data t]" if t: "16 \<le> t"
  proof -
    have "t mod 16 = (t - 16) mod 16" using t by (simp add: le_mod_geq)
    then show ?thesis
      using t W [of "t - 3"] W [of "t - 8"] W [of "t - 14"] W [of "t - 16"]
      by (simp add: sha1_R_def S_rotl fips1_W.simps [of data t])
  qed
  show "(if t < 16 then W else sha1_R W t) ! (t mod 16) = fips1_W data t"
    using new W [of t] len by simp
  show "sched1_ok data (t + 1) (if t < 16 then W else sha1_R W t)"
  proof (cases "t < 16")
    case True
    then show ?thesis using assms by (simp add: sched1_ok_def)
  next
    case False
    have "W[t mod 16 := fips1_W data t] ! (i mod 16) = fips1_W data i" if i: "i < t + 1" "t - 15 \<le> i" for i
    proof (cases "i = t")
      case True
      then show ?thesis using len by simp
    next
      case ne: False
      then have "i mod 16 \<noteq> t mod 16"
        using ring_pos_inj [of "i - (t - 15)" 16 15 "t - 15"] i False by simp
      then show ?thesis using W [of i] i ne False by simp
    qed
    then show ?thesis using False new len by (auto simp: sched1_ok_def)
  qed
qed

definition roles5 :: "u32 list \<Rightarrow> nat \<Rightarrow> u32 list" where
  "roles5 v t = map (\<lambda>k. v ! role5 k t) [0..<5]"

lemma upt5: "[0..<5] = [0, 1, 2, 3, 4 :: nat]"
  by (simp add: upt_rec)

lemma list5:
  assumes "length v = 5"
  obtains a b c d e where "v = [a, b, c, d, e]"
  using assms by (auto simp: length_Suc_conv numeral_eq_Suc)

lemma P_is_round1:
  assumes "length v = 5"
  shows "roles5 (sha1_P v t x) (t + 1) = fips1_round t x (roles5 v t)"
proof -
  obtain a b c d e where v: "v = [a, b, c, d, e]" by (rule list5 [OF assms])
  have "t mod 5 \<in> {0, 1, 2, 3, 4}" by auto
  moreover have "(t + 1) mod 5 = (t mod 5 + 1) mod 5" by (simp add: mod_Suc_eq)
  ultimately show ?thesis
    by (auto simp: roles5_def upt5 role5_def sha1_P_def v Let_def F_fips1 S_rotl ac_simps)
qed

lemma length_P1 [simp]: "length (sha1_P v t x) = length v"
  by (simp add: sha1_P_def Let_def)

lemma rounds_fips1:
  assumes "sched1_ok data 0 W" and "length v = 5"
  shows "sched1_ok data n (fst (fold sha1_step [0..<n] (W, v))) \<and> length (snd (fold sha1_step [0..<n] (W, v))) = 5
     \<and> roles5 (snd (fold sha1_step [0..<n] (W, v))) n = fold (\<lambda>t. fips1_round t (fips1_W data t)) [0..<n] (roles5 v 0)"
proof (induction n)
  case 0
  then show ?case using assms by simp
next
  case (Suc n)
  obtain W1 v1 where 1: "fold sha1_step [0..<n] (W, v) = (W1, v1)" by fastforce
  then have IH: "sched1_ok data n W1" "length v1 = 5"
    "roles5 v1 n = fold (\<lambda>t. fips1_round t (fips1_W data t)) [0..<n] (roles5 v 0)"
    using Suc by auto
  define W2 where "W2 = (if n < 16 then W1 else sha1_R W1 n)"
  have W2: "sched1_ok data (Suc n) W2" "W2 ! (n mod 16) = fips1_W data n"
    using sched1_step [OF IH(1)] by (simp_all add: W2_def)
  then have "fold sha1_step [0..<Suc n] (W, v) = (W2, sha1_P v1 n (fips1_W data n))"
    using 1 by (simp add: sha1_step_def Let_def flip: W2_def)
  then show ?case using W2 IH P_is_round1 [OF IH(2), of n "fips1_W data n"] by simp
qed

lemma roles5_end: "length v = 5 \<Longrightarrow> roles5 v 80 = v" "length v = 5 \<Longrightarrow> roles5 v 0 = v"
  by (auto elim!: list5 simp: roles5_def upt5 role5_def)

lemma process_fips1:
  assumes "length st = 5"
  shows "sha1_process st data = fips1_compress st data" "length (sha1_process st data) = 5"
proof -
  define v where "v = snd (fold sha1_step [0..<80] (map (\<lambda>i. GET_UINT32_BE data (4 * i)) [0..<16], st))"
  have l: "length v = 5" and r: "roles5 v 80 = fold (\<lambda>t. fips1_round t (fips1_W data t)) [0..<80] (roles5 st 0)"
    using rounds_fips1 [OF sched1_init [of data] assms, of 80] unfolding v_def by blast+
  then have "v = fold (\<lambda>t. fips1_round t (fips1_W data t)) [0..<80] st"
    using roles5_end assms by metis
  then show "sha1_process st data = fips1_compress st data"
    by (simp add: sha1_process_def fips1_compress_def Let_def flip: v_def)
  show "length (sha1_process st data) = 5" using l assms by (simp add: sha1_process_def Let_def flip: v_def)
qed

lemma chain_fips1: "length st = 5 \<Longrightarrow> chain sha1_process st m = chain fips1_compress st m \<and> length (chain sha1_process st m) = 5"
proof (induction "length m" arbitrary: st m rule: less_induct)
  case less
  show ?case
  proof (cases "64 \<le> length m")
    case True
    then have lt: "length (drop 64 m) < length m" by simp
    show ?thesis
      using less.hyps [OF lt process_fips1(2) [OF less.prems, of "take 64 m"]] True less.prems
      by (auto simp: chain_step [of m] simp flip: process_fips1(1))
  qed (use less.prems in \<open>simp add: chain_short\<close>)
qed

lemma length_H0: "length sha1_H0 = 5"
  by (simp add: sha1_H0_def)

interpretation sha1_stream: stream_hash "\<lambda>ctx. length (buffer ctx) = 64" "absorbed_by sha1_process sha1_H0"
  sha1_starts sha1_update sha1_finish fips_sha1 4294967295
proof
  fix c :: block_ctx and m x :: "byte list"
  show "absorbed_by sha1_process sha1_H0 (sha1_starts c) []" if "length (buffer c) = 64"
    using that by (simp add: absorbed_by_def sha1_starts_def chain_short)
  show "\<exists>c'. sha1_update c x = Some c' \<and> absorbed_by sha1_process sha1_H0 c' (m @ x)"
    if "absorbed_by sha1_process sha1_H0 c m" "length x \<le> 4294967295"
    using block_update_absorbs [OF that] by (simp add: sha1_update_def)
  show "sha1_finish c = Some (fips_sha1 m)" if "absorbed_by sha1_process sha1_H0 c m"
    using block_finish_chains [OF that] chain_fips1 [OF length_H0] by (auto simp: sha1_finish_def fips_sha1_def)
qed


section \<open>HMAC\<close>

lemma fold_xor:
  "n \<le> length ys \<Longrightarrow> fold (\<lambda>i k. k[i := k ! i XOR key ! i]) [0..<n] ys = map (\<lambda>i. ys ! i XOR key ! i) [0..<n] @ drop n ys"
proof (induction n)
  case (Suc n)
  then have "fold (\<lambda>i k. k[i := k ! i XOR key ! i]) [0..<Suc n] ys
      = (map (\<lambda>i. ys ! i XOR key ! i) [0..<n] @ drop n ys)[n := ys ! n XOR key ! n]"
    by (simp add: nth_append)
  also have "\<dots> = map (\<lambda>i. ys ! i XOR key ! i) [0..<Suc n] @ drop (Suc n) ys"
    using Suc.prems by (simp add: list_update_append flip: Cons_nth_drop_Suc)
  finally show ?case .
qed simp

lemma xor_key_pad: "xor_key p key = hmac_pad p (take 64 key)"
  by (rule nth_equalityI) (auto simp: xor_key_def fold_xor hmac_pad_def nth_append min_def xor.commute)

lemma length_hmac_pad: "length key \<le> 64 \<Longrightarrow> length (hmac_pad p key) = 64"
  by (simp add: hmac_pad_def)

lemma length_sha1: "length (fips_sha1 m) = 20"
  using chain_fips1 [OF length_H0, of "padded m"]
  by (auto simp: fips_sha1_def length_concat comp_def sum_list_triv)

lemma upd2:
  assumes "length (buffer ctx) = 64" and "length a \<le> 4294967295" and "length b \<le> 4294967295"
  shows "\<exists>c1 c2. sha1_update (sha1_starts ctx) a = Some c1 \<and> sha1_update c1 b = Some c2
     \<and> sha1_finish c2 = Some (fips_sha1 (a @ b)) \<and> (\<exists>f. block_finish sha1_process c2 = Some f \<and> length (buffer f) = 64)"
proof -
  obtain c1 where 1: "sha1_update (sha1_starts ctx) a = Some c1" "absorbed_by sha1_process sha1_H0 c1 a"
    using sha1_stream.upd_law [OF sha1_stream.start_law [OF assms(1)] assms(2)] by auto
  obtain c2 where 2: "sha1_update c1 b = Some c2" "absorbed_by sha1_process sha1_H0 c2 (a @ b)"
    using sha1_stream.upd_law [OF 1(2) assms(3)] by auto
  then show ?thesis using 1 sha1_stream.fin_law [OF 2(2)] block_finish_chains [OF 2(2)] by auto
qed

section \<open>Properties\<close>

text \<open>(lib/sha1.c). The code computes SHA-1 of FIPS 180-1: any cutting of a message into
  \<open>sha1_update\<close> calls, \<open>sha1_csum\<close>, and \<open>sha1_csum_wd\<close> in either build give the digest of the whole message.\<close>

theorem sha1_any_pieces:
  assumes "length (buffer ctx) = 64" and "list_all (\<lambda>x. length x \<le> 4294967295) xs" and "0 < chunk_sz"
    and "length input \<le> 4294967295"
  shows "do { c \<leftarrow> feed sha1_update (sha1_starts ctx) xs; sha1_finish c } = Some (fips_sha1 (concat xs))
     \<and> sha1_csum ctx input = Some (fips_sha1 input) \<and> sha1_csum_wd wd ctx input chunk_sz = Some (fips_sha1 input)"
proof -
  have "0 < unat chunk_sz" "unat chunk_sz \<le> 4294967295"
    using assms(3) unat_lt_u32 [of chunk_sz] by (auto simp: word_less_nat_alt simp del: unat_lt_u32)
  then show ?thesis
    using sha1_stream.digest_of_pieces [OF assms(1,2)] sha1_stream.digest_of_one [OF assms(1,4)]
      sha1_stream.digest_of_chunks [OF assms(1), of "unat chunk_sz" input]
    by (auto simp: sha1_csum_wd_def sha1_csum_def)
qed

theorem sha1_any_pieces_witness:
  "do { c \<leftarrow> feed sha1_update (sha1_starts \<lparr>total0 = 7, total1 = 0, state = [], buffer = replicate 64 1\<rparr>) [[0x61], [0x62, 0x63]];
        sha1_finish c } = Some (fips_sha1 (concat [[0x61], [0x62, 0x63]]))
   \<and> sha1_csum \<lparr>total0 = 7, total1 = 0, state = [], buffer = replicate 64 1\<rparr> [0x61, 0x62, 0x63] = Some (fips_sha1 [0x61, 0x62, 0x63])
   \<and> sha1_csum_wd True \<lparr>total0 = 7, total1 = 0, state = [], buffer = replicate 64 1\<rparr> [0x61, 0x62, 0x63] 2
       = Some (fips_sha1 [0x61, 0x62, 0x63])"
  by (rule sha1_any_pieces) simp_all

text \<open>C34 (lib/sha1.c, \<open>sha1_hmac\<close>). For keys of up to 64 bytes the result is the HMAC of RFC 2104; a longer
  key is cut at 64 bytes, where the RFC hashes it first.\<close>

theorem sha1_hmac_rfc2104:
  assumes "length (buffer ctx) = 64" and "length input \<le> 4294967295"
  shows "sha1_hmac ctx key input = Some (rfc2104 (take 64 key) input)"
proof -
  have len: "length (hmac_pad p (take 64 key)) = 64" for p using length_hmac_pad [of "take 64 key" p] by simp
  obtain c1 c2 f where 1: "sha1_update (sha1_starts ctx) (hmac_pad 0x36 (take 64 key)) = Some c1" "sha1_update c1 input = Some c2"
    "sha1_finish c2 = Some (fips_sha1 (hmac_pad 0x36 (take 64 key) @ input))" "block_finish sha1_process c2 = Some f" "length (buffer f) = 64"
    using upd2 [OF assms(1) _ assms(2), of "hmac_pad 0x36 (take 64 key)"] len by auto
  let ?inner = "fips_sha1 (hmac_pad 0x36 (take 64 key) @ input)"
  obtain c3 c4 where "sha1_update (sha1_starts f) (hmac_pad 0x5C (take 64 key)) = Some c3" "sha1_update c3 ?inner = Some c4"
    "sha1_finish c4 = Some (fips_sha1 (hmac_pad 0x5C (take 64 key) @ ?inner))"
    using upd2 [OF 1(5), of "hmac_pad 0x5C (take 64 key)" ?inner] len length_sha1 by auto
  then show ?thesis using 1 by (simp add: sha1_hmac_def sha1_finish_def xor_key_pad rfc2104_def)
qed

theorem sha1_hmac_rfc2104_witness:
  "sha1_hmac \<lparr>total0 = 0, total1 = 0, state = [], buffer = replicate 64 0\<rparr> [1, 2, 3] [9] = Some (rfc2104 (take 64 [1, 2, 3]) [9])"
  by (rule sha1_hmac_rfc2104) simp_all

end
