(* ===== verification/Md5.thy ===== *)
theory Md5
  imports Block_Hash String_Proofs
begin

unbundle bit_operations_syntax

text \<open>
  lib/md5.c on the little-endian target. The union of \<open>in\<close> and \<open>in32\<close> is the byte array \<open>md5_in\<close>, read and
  written as words through \<open>load32\<close> and \<open>store32\<close>. The 64 lines of \<open>MD5Transform\<close> are a fold over the table of
  their (index, constant, shift) arguments; the four variables change roles at every step.
\<close>

section \<open>The code\<close>

record MD5Context =
  md5_buf :: "u32 list"
  md5_bits0 :: u32
  md5_bits1 :: u32
  md5_in :: mem

definition md5_t :: "mem \<Rightarrow> nat \<Rightarrow> u32 option" where
  "md5_t buf i =
     do { b0 \<leftarrow> load buf i; b1 \<leftarrow> load buf (i + 1); b2 \<leftarrow> load buf (i + 2); b3 \<leftarrow> load buf (i + 3);
          Some (push_bit 16 (push_bit 8 (ucast b3) OR ucast b2) OR (push_bit 8 (ucast b1) OR ucast b0)) }"

text \<open>\<open>do { ... } while (--longs)\<close>; \<open>longs\<close> is at least one.\<close>

fun byteReverse :: "mem \<Rightarrow> nat \<Rightarrow> nat \<Rightarrow> mem option" where
  "byteReverse buf i 0 = Some buf"
| "byteReverse buf i (Suc longs) = do { t \<leftarrow> md5_t buf i; b \<leftarrow> store32 buf i t; byteReverse b (i + 4) longs }"

definition MD5Init :: "MD5Context \<Rightarrow> MD5Context" where
  "MD5Init ctx = ctx\<lparr>md5_buf := [0x67452301, 0xefcdab89, 0x98badcfe, 0x10325476], md5_bits0 := 0, md5_bits1 := 0\<rparr>"

definition md5_F1 :: "u32 \<Rightarrow> u32 \<Rightarrow> u32 \<Rightarrow> u32" where "md5_F1 x y z = z XOR (x AND (y XOR z))"
definition md5_F2 :: "u32 \<Rightarrow> u32 \<Rightarrow> u32 \<Rightarrow> u32" where "md5_F2 x y z = md5_F1 z x y"
definition md5_F3 :: "u32 \<Rightarrow> u32 \<Rightarrow> u32 \<Rightarrow> u32" where "md5_F3 x y z = x XOR y XOR z"
definition md5_F4 :: "u32 \<Rightarrow> u32 \<Rightarrow> u32 \<Rightarrow> u32" where "md5_F4 x y z = y XOR (x OR NOT z)"

definition md5_F :: "nat \<Rightarrow> u32 \<Rightarrow> u32 \<Rightarrow> u32 \<Rightarrow> u32" where
  "md5_F t = (if t < 16 then md5_F1 else if t < 32 then md5_F2 else if t < 48 then md5_F3 else md5_F4)"

definition MD5STEP :: "(u32 \<Rightarrow> u32 \<Rightarrow> u32 \<Rightarrow> u32) \<Rightarrow> u32 \<Rightarrow> u32 \<Rightarrow> u32 \<Rightarrow> u32 \<Rightarrow> u32 \<Rightarrow> nat \<Rightarrow> u32" where
  "MD5STEP f w x y z data s =
     (let w1 = w + (f x y z + data); w2 = push_bit s w1 OR drop_bit (32 - s) w1 in w2 + x)"

definition md5_steps :: "(nat \<times> u32 \<times> nat) list" where
  "md5_steps = [
   (0, 0xd76aa478, 7), (1, 0xe8c7b756, 12), (2, 0x242070db, 17), (3, 0xc1bdceee, 22),
   (4, 0xf57c0faf, 7), (5, 0x4787c62a, 12), (6, 0xa8304613, 17), (7, 0xfd469501, 22),
   (8, 0x698098d8, 7), (9, 0x8b44f7af, 12), (10, 0xffff5bb1, 17), (11, 0x895cd7be, 22),
   (12, 0x6b901122, 7), (13, 0xfd987193, 12), (14, 0xa679438e, 17), (15, 0x49b40821, 22),
   (1, 0xf61e2562, 5), (6, 0xc040b340, 9), (11, 0x265e5a51, 14), (0, 0xe9b6c7aa, 20),
   (5, 0xd62f105d, 5), (10, 0x02441453, 9), (15, 0xd8a1e681, 14), (4, 0xe7d3fbc8, 20),
   (9, 0x21e1cde6, 5), (14, 0xc33707d6, 9), (3, 0xf4d50d87, 14), (8, 0x455a14ed, 20),
   (13, 0xa9e3e905, 5), (2, 0xfcefa3f8, 9), (7, 0x676f02d9, 14), (12, 0x8d2a4c8a, 20),
   (5, 0xfffa3942, 4), (8, 0x8771f681, 11), (11, 0x6d9d6122, 16), (14, 0xfde5380c, 23),
   (1, 0xa4beea44, 4), (4, 0x4bdecfa9, 11), (7, 0xf6bb4b60, 16), (10, 0xbebfbc70, 23),
   (13, 0x289b7ec6, 4), (0, 0xeaa127fa, 11), (3, 0xd4ef3085, 16), (6, 0x04881d05, 23),
   (9, 0xd9d4d039, 4), (12, 0xe6db99e5, 11), (15, 0x1fa27cf8, 16), (2, 0xc4ac5665, 23),
   (0, 0xf4292244, 6), (7, 0x432aff97, 10), (14, 0xab9423a7, 15), (5, 0xfc93a039, 21),
   (12, 0x655b59c3, 6), (3, 0x8f0ccc92, 10), (10, 0xffeff47d, 15), (1, 0x85845dd1, 21),
   (8, 0x6fa87e4f, 6), (15, 0xfe2ce6e0, 10), (6, 0xa3014314, 15), (13, 0x4e0811a1, 21),
   (4, 0xf7537e82, 6), (11, 0xbd3af235, 10), (2, 0x2ad7d2bb, 15), (9, 0xeb86d391, 21)]"

definition role4 :: "nat \<Rightarrow> nat \<Rightarrow> nat" where
  "role4 k t = (k + 4 - t mod 4) mod 4"

definition md5_step :: "u32 list \<Rightarrow> nat \<Rightarrow> u32 list \<Rightarrow> u32 list" where
  "md5_step inp t v =
     (let (i, c, s) = md5_steps ! t in
      v[role4 0 t := MD5STEP (md5_F t) (v ! role4 0 t) (v ! role4 1 t) (v ! role4 2 t) (v ! role4 3 t) (inp ! i + c) s])"

definition MD5Transform :: "u32 list \<Rightarrow> u32 list \<Rightarrow> u32 list" where
  "MD5Transform buf inp = map2 (+) buf (fold (md5_step inp) [0..<64] buf)"

text \<open>The array read as sixteen words, \<open>(__u32 *) ctx->in\<close>.\<close>

fun in32 :: "mem \<Rightarrow> nat \<Rightarrow> nat \<Rightarrow> u32 list option" where
  "in32 m i 0 = Some []"
| "in32 m i (Suc n) = do { w \<leftarrow> load32 m i; ws \<leftarrow> in32 m (i + 4) n; Some (w # ws) }"

text \<open>\<open>byteReverse (ctx->in, 16); MD5Transform (ctx->buf, (__u32 *) ctx->in)\<close>\<close>

definition md5_block :: "MD5Context \<Rightarrow> MD5Context option" where
  "md5_block ctx =
     do { b \<leftarrow> byteReverse (md5_in ctx) 0 16; ws \<leftarrow> in32 b 0 16;
          Some (ctx\<lparr>md5_in := b, md5_buf := MD5Transform (md5_buf ctx) ws\<rparr>) }"

function md5_loop :: "MD5Context \<Rightarrow> byte list \<Rightarrow> (MD5Context \<times> byte list) option" where
  "md5_loop ctx buf =
     (if 64 \<le> length buf
      then do { b \<leftarrow> copy_bytes (md5_in ctx) 0 buf 0 64; ctx1 \<leftarrow> md5_block (ctx\<lparr>md5_in := b\<rparr>);
                md5_loop ctx1 (drop 64 buf) }
      else Some (ctx, buf))"
  by pat_completeness auto
termination
  by (relation "measure (\<lambda>(ctx, buf). length buf)") auto

declare md5_loop.simps [simp del]

definition MD5Update :: "MD5Context \<Rightarrow> byte list \<Rightarrow> MD5Context option" where
  "MD5Update ctx buf =
     (let len = of_nat (length buf) :: u32; t = md5_bits0 ctx; b0 = t + push_bit 3 len;
          ctx1 = ctx\<lparr>md5_bits0 := b0,
            md5_bits1 := (if b0 < t then md5_bits1 ctx + 1 else md5_bits1 ctx) + drop_bit 29 len\<rparr>;
          t1 = drop_bit 3 t AND 0x3f; t2 = 64 - t1 in
      if t1 \<noteq> 0 \<and> len < t2
      then do { b \<leftarrow> copy_bytes (md5_in ctx1) (unat t1) buf 0 (length buf); Some (ctx1\<lparr>md5_in := b\<rparr>) }
      else do {
        (ctx2, buf2) \<leftarrow>
          (if t1 \<noteq> 0
           then do { b \<leftarrow> copy_bytes (md5_in ctx1) (unat t1) buf 0 (unat t2); c \<leftarrow> md5_block (ctx1\<lparr>md5_in := b\<rparr>);
                     Some (c, drop (unat t2) buf) }
           else Some (ctx1, buf));
        (ctx3, buf3) \<leftarrow> md5_loop ctx2 buf2;
        b \<leftarrow> copy_bytes (md5_in ctx3) 0 buf3 0 (length buf3);
        Some (ctx3\<lparr>md5_in := b\<rparr>) })"

text \<open>\<open>memset (p, 0, n)\<close> within \<open>ctx->in\<close>, the array's own bytes.\<close>

definition zero_fill :: "mem \<Rightarrow> nat \<Rightarrow> nat \<Rightarrow> mem option" where
  "zero_fill m i n = copy_bytes m i (replicate n 0) 0 n"

text \<open>The word array \<open>ctx->buf\<close> is turned into bytes and copied out; the context is cleared afterwards.\<close>

definition md5_bytes :: "u32 \<Rightarrow> byte list" where
  "md5_bytes w = [ucast w, ucast (drop_bit 8 w), ucast (drop_bit 16 w), ucast (drop_bit 24 w)]"

definition MD5Final :: "MD5Context \<Rightarrow> byte list option" where
  "MD5Final ctx =
     (let count = drop_bit 3 (md5_bits0 ctx) AND 0x3F; count2 = 64 - 1 - count in
      do { b1 \<leftarrow> store (md5_in ctx) (unat count) 0x80;
           ctx1 \<leftarrow>
             (if count2 < 8
              then do { b2 \<leftarrow> zero_fill b1 (unat count + 1) (unat count2); c \<leftarrow> md5_block (ctx\<lparr>md5_in := b2\<rparr>);
                        b3 \<leftarrow> zero_fill (md5_in c) 0 56; Some (c\<lparr>md5_in := b3\<rparr>) }
              else do { b2 \<leftarrow> zero_fill b1 (unat count + 1) (unat (count2 - 8)); Some (ctx\<lparr>md5_in := b2\<rparr>) });
           b4 \<leftarrow> byteReverse (md5_in ctx1) 0 14;
           b5 \<leftarrow> store32 b4 56 (md5_bits0 ctx1); b6 \<leftarrow> store32 b5 60 (md5_bits1 ctx1);
           ws \<leftarrow> in32 b6 0 16;
           byteReverse (concat (map md5_bytes (MD5Transform (md5_buf ctx1) ws))) 0 4 })"

definition md5 :: "MD5Context \<Rightarrow> byte list \<Rightarrow> byte list option" where
  "md5 ctx input = do { c \<leftarrow> MD5Update (MD5Init ctx) input; MD5Final c }"

definition md5_wd :: "bool \<Rightarrow> MD5Context \<Rightarrow> byte list \<Rightarrow> u32 \<Rightarrow> byte list option" where
  "md5_wd wd ctx input chunk_sz =
     do { c \<leftarrow> (if wd then chunk_loop MD5Update (MD5Init ctx) (unat chunk_sz) input else MD5Update (MD5Init ctx) input);
          MD5Final c }"

section \<open>Reference: RFC 1321\<close>

definition rfc_F :: "nat \<Rightarrow> u32 \<Rightarrow> u32 \<Rightarrow> u32 \<Rightarrow> u32" where
  "rfc_F t x y z =
     (if t < 16 then (x AND y) OR (NOT x AND z) else if t < 32 then (x AND z) OR (y AND NOT z)
      else if t < 48 then x XOR y XOR z else y XOR (x OR NOT z))"

definition rfc_k :: "nat \<Rightarrow> nat" where
  "rfc_k t = (if t < 16 then t else if t < 32 then (5 * t + 1) mod 16 else if t < 48 then (3 * t + 5) mod 16 else 7 * t mod 16)"

definition rfc_s :: "nat \<Rightarrow> nat" where
  "rfc_s t = [[7, 12, 17, 22], [5, 9, 14, 20], [4, 11, 16, 23], [6, 10, 15, 21]] ! (t div 16) ! (t mod 4)"

fun rfc_round :: "u32 list \<Rightarrow> nat \<Rightarrow> u32 list \<Rightarrow> u32 list" where
  "rfc_round X t [a, b, c, d] =
     [d, b + word_rotl (rfc_s t) (a + rfc_F t b c d + X ! rfc_k t + fst (snd (md5_steps ! t))), b, c]"
| "rfc_round X t v = v"

definition le_words :: "byte list \<Rightarrow> u32 list" where
  "le_words blk = map (\<lambda>i. le32 (blk ! (4 * i)) (blk ! (4 * i + 1)) (blk ! (4 * i + 2)) (blk ! (4 * i + 3))) [0..<16]"

definition rfc_compress :: "u32 list \<Rightarrow> byte list \<Rightarrow> u32 list" where
  "rfc_compress st blk = map2 (+) st (fold (rfc_round (le_words blk)) [0..<64] st)"

definition md5_H0 :: "u32 list" where
  "md5_H0 = [0x67452301, 0xefcdab89, 0x98badcfe, 0x10325476]"

definition md5_padded :: "byte list \<Rightarrow> byte list" where
  "md5_padded m = m @ [0x80] @ replicate (pad_zeros m) 0
     @ md5_bytes (of_nat (8 * length m)) @ md5_bytes (of_nat (8 * length m div 4294967296))"

definition rfc_md5 :: "byte list \<Rightarrow> byte list" where
  "rfc_md5 m = concat (map md5_bytes (chain rfc_compress md5_H0 (md5_padded m)))"


section \<open>Byte order\<close>

lemma md5_t_load32: "md5_t m i = load32 m i"
proof -
  have "push_bit 16 (push_bit 8 (ucast b3) OR ucast b2) OR (push_bit 8 (ucast b1) OR ucast b0) = le32 b0 b1 b2 b3" for b0 b1 b2 b3
    by (rule bit_word_eqI) (auto simp: le32_def bit_simps)
  then show ?thesis by (simp add: md5_t_def load32_def)
qed

lemma write_same: "i + n \<le> length m \<Longrightarrow> write_bytes m i (take n (drop i m)) = m"
  by (intro nth_equalityI) (auto simp: nth_write_bytes)

text \<open>On a little-endian machine \<open>byteReverse\<close> changes nothing.\<close>

lemma byteReverse_id: "i + 4 * n \<le> length m \<Longrightarrow> byteReverse m i n = Some m"
proof (induction n arbitrary: i)
  case (Suc n)
  have "do { w \<leftarrow> load32 m i; store32 m i w } = Some m"
    using load_store32 [of i m i] write_same [of i 4 m] Suc.prems by simp
  then have "byteReverse m i (Suc n) = byteReverse m (i + 4) n"
    by (auto simp: md5_t_load32 bind_eq_Some_conv)
  then show ?case using Suc.IH [of "i + 4"] Suc.prems by simp
qed simp

lemma in32_words:
  "i + 4 * n \<le> length m \<Longrightarrow>
     in32 m i n = Some (map (\<lambda>k. le32 (m ! (i + 4 * k)) (m ! (i + 4 * k + 1)) (m ! (i + 4 * k + 2)) (m ! (i + 4 * k + 3))) [0..<n])"
proof (induction n arbitrary: i)
  case (Suc n)
  then show ?case using Suc.IH [of "i + 4"]
    by (simp add: load32_def load_Some upt_conv_Cons map_Suc_upt [symmetric] add.assoc del: upt_Suc)
qed simp

lemma in32_le_words: "length m = 64 \<Longrightarrow> in32 m 0 16 = Some (le_words m)"
  using in32_words [of 0 16 m] by (simp add: le_words_def)

section \<open>The transform\<close>

lemma rotl_shifts: "0 < n \<Longrightarrow> n < 32 \<Longrightarrow> push_bit n x OR drop_bit (32 - n) x = word_rotl n (x :: u32)"
proof (rule bit_word_eqI)
  fix i :: nat
  assume n: "0 < n" "n < 32" and i: "i < LENGTH(32)"
  have m: "(i + 32 - n) mod 32 = (if n \<le> i then i - n else i + 32 - n)" using n i by (auto simp: mod_if)
  show "bit (push_bit n x OR drop_bit (32 - n) x) i = bit (word_rotl n x) i"
    using n i unfolding bit_word_rotl_iff
    by (auto simp: bit_simps m add.commute [of 32] dest: bit_imp_le_length)
qed

lemma F_rfc: "md5_F t x y z = rfc_F t x y z"
  by (rule bit_word_eqI) (auto simp: md5_F_def md5_F1_def md5_F2_def md5_F3_def md5_F4_def rfc_F_def bit_simps)

lemma steps_rfc: "list_all (\<lambda>t. fst (md5_steps ! t) = rfc_k t \<and> snd (snd (md5_steps ! t)) = rfc_s t \<and> 0 < rfc_s t \<and> rfc_s t < 32) [0..<64]"
  by (simp add: upt_rec md5_steps_def rfc_k_def rfc_s_def)

lemma step_args:
  assumes "t < 64"
  shows "md5_steps ! t = (rfc_k t, fst (snd (md5_steps ! t)), rfc_s t)" "0 < rfc_s t" "rfc_s t < 32"
  using steps_rfc assms by (auto simp: list_all_iff prod_eq_iff)

definition roles4 :: "u32 list \<Rightarrow> nat \<Rightarrow> u32 list" where
  "roles4 v t = map (\<lambda>k. v ! role4 k t) [0..<4]"

lemma upt4: "[0..<4] = [0, 1, 2, 3 :: nat]"
  by (simp add: upt_rec)

lemma list4:
  assumes "length v = 4"
  obtains a b c d where "v = [a, b, c, d]"
  using assms by (auto simp: length_Suc_conv numeral_eq_Suc)

lemma step_is_round:
  assumes "length v = 4" and "t < 64"
  shows "roles4 (md5_step X t v) (t + 1) = rfc_round X t (roles4 v t)" "length (md5_step X t v) = 4"
proof -
  obtain a b c d where v: "v = [a, b, c, d]" by (rule list4 [OF assms(1)])
  obtain cst where m: "md5_steps ! t = (rfc_k t, cst, rfc_s t)" using step_args(1) [OF assms(2)] by blast
  have "t mod 4 \<in> {0, 1, 2, 3}" by auto
  moreover have "(t + 1) mod 4 = (t mod 4 + 1) mod 4" by (simp add: mod_Suc_eq)
  ultimately show "roles4 (md5_step X t v) (t + 1) = rfc_round X t (roles4 v t)"
    using step_args(2,3) [OF assms(2)]
    by (auto simp: roles4_def upt4 role4_def md5_step_def v Let_def m F_rfc MD5STEP_def rotl_shifts ac_simps)
  show "length (md5_step X t v) = 4" using assms(1) by (simp add: md5_step_def m)
qed

lemma steps_are_rounds:
  assumes "length v = 4" and "n \<le> 64"
  shows "roles4 (fold (md5_step X) [0..<n] v) n = fold (rfc_round X) [0..<n] v \<and> length (fold (md5_step X) [0..<n] v) = 4"
  using assms(2)
proof (induction n)
  case 0
  show ?case using assms(1) by (auto elim!: list4 simp: roles4_def upt4 role4_def)
next
  case (Suc n)
  then show ?case using step_is_round [of "fold (md5_step X) [0..<n] v" n X] by simp
qed

definition md5_process :: "u32 list \<Rightarrow> byte list \<Rightarrow> u32 list" where
  "md5_process st blk = MD5Transform st (le_words blk)"

lemma process_rfc:
  assumes "length st = 4"
  shows "md5_process st blk = rfc_compress st blk" "length (md5_process st blk) = 4"
proof -
  let ?v = "fold (md5_step (le_words blk)) [0..<64] st"
  have "length ?v = 4" "roles4 ?v 64 = fold (rfc_round (le_words blk)) [0..<64] st"
    using steps_are_rounds [OF assms, of 64 "le_words blk"] by auto
  moreover have "roles4 w 64 = w" if "length w = 4" for w
    using that by (auto elim!: list4 simp: roles4_def upt4 role4_def)
  ultimately show "md5_process st blk = rfc_compress st blk" "length (md5_process st blk) = 4"
    using assms by (simp_all add: md5_process_def MD5Transform_def rfc_compress_def)
qed

lemma md5_block_eq:
  "length (md5_in ctx) = 64 \<Longrightarrow> md5_block ctx = Some (ctx\<lparr>md5_buf := md5_process (md5_buf ctx) (md5_in ctx)\<rparr>)"
  by (simp add: md5_block_def byteReverse_id in32_le_words md5_process_def)

lemma md5_loop_eq:
  assumes "length (md5_in ctx) = 64"
  shows "\<exists>b. length b = 64 \<and> md5_loop ctx buf =
     Some (ctx\<lparr>md5_buf := chain md5_process (md5_buf ctx) buf, md5_in := b\<rparr>, drop (length buf div 64 * 64) buf)"
  using assms
proof (induction "length buf" arbitrary: ctx buf rule: less_induct)
  case less
  show ?case
  proof (cases "64 \<le> length buf")
    case True
    let ?c = "ctx\<lparr>md5_in := take 64 buf, md5_buf := md5_process (md5_buf ctx) (take 64 buf)\<rparr>"
    have "copy_bytes (md5_in ctx) 0 buf 0 64 = Some (take 64 buf)" using less.prems True by (simp add: copy_bytes_def)
    then have run: "md5_loop ctx buf = md5_loop ?c (drop 64 buf)"
      using True by (simp add: md5_loop.simps [of ctx buf] md5_block_eq)
    have lt: "length (drop 64 buf) < length buf" and len: "length (md5_in ?c) = 64" using True by simp_all
    have d: "length buf div 64 * 64 = 64 + (length buf - 64) div 64 * 64" using True by (simp add: div_if)
    show ?thesis using less.hyps [OF lt len] True unfolding run d by (simp add: chain_step add.commute)
  next
    case False
    then show ?thesis
      using less.prems by (intro exI [of _ "md5_in ctx"]) (simp add: md5_loop.simps [of ctx buf] chain_short)
  qed
qed


section \<open>Update\<close>

definition md5_absorbed :: "MD5Context \<Rightarrow> byte list \<Rightarrow> bool" where
  "md5_absorbed ctx m \<longleftrightarrow> md5_buf ctx = chain md5_process md5_H0 m \<and> length (md5_in ctx) = 64
     \<and> take (length m mod 64) (md5_in ctx) = drop (length m div 64 * 64) m
     \<and> md5_bits0 ctx = of_nat (8 * length m) \<and> md5_bits1 ctx = of_nat (8 * length m div 4294967296)"

lemma unat_drop_div: "unat (drop_bit k (w :: u32)) = unat w div 2 ^ k"
  by (simp only: unat_drop_bit_eq) (simp add: drop_bit_eq_div)

lemma of_nat_less_u32: "(of_nat x :: u32) < of_nat y \<longleftrightarrow> x mod 4294967296 < y mod 4294967296"
  by (simp add: word_less_nat_alt unat_of_nat)

lemma unat_of_nat_mod: "unat (of_nat x :: u32) = x mod 4294967296"
  by (simp add: unat_of_nat)

lemma md5_left: "unat (drop_bit 3 (of_nat (8 * n) :: u32) AND 0x3f) = n mod 64"
proof -
  have "unat (drop_bit 3 (of_nat (8 * n) :: u32)) = (8 * n mod 4294967296) div 8"
    by (simp only: unat_drop_div unat_of_nat_mod) simp
  also have "8 * n mod 4294967296 = 8 * (n mod 536870912)" using mult_mod_right [of 8 n 536870912] by simp
  finally have "unat (drop_bit 3 (of_nat (8 * n) :: u32)) = n mod 536870912" by simp
  then show ?thesis by (simp add: unat_and_63 mod_mod_cancel)
qed

lemma md5_carry:
  assumes "k \<le> 4294967295"
  shows "(if (of_nat (8 * n) + push_bit 3 (of_nat k) :: u32) < of_nat (8 * n) then of_nat (8 * n div 4294967296) + 1 else of_nat (8 * n div 4294967296))
     + drop_bit 29 (of_nat k) = (of_nat (8 * (n + k) div 4294967296) :: u32)"
proof -
  define A where "A = 8 * n" define B where "B = 8 * k"
  have sum: "of_nat (8 * n) + push_bit 3 (of_nat k) = (of_nat (A + B) :: u32)"
    by (simp add: A_def B_def push_bit_eq_mult)
  have "(of_nat (A + B) :: u32) < of_nat A \<longleftrightarrow> (B mod 4294967296 + A mod 4294967296) mod 4294967296 < A mod 4294967296"
    by (simp only: of_nat_less_u32 mod_add_eq add.commute)
  also have "\<dots> \<longleftrightarrow> 4294967296 \<le> B mod 4294967296 + A mod 4294967296" by (intro carry_mod) simp_all
  finally have lt: "(of_nat (A + B) :: u32) < of_nat A \<longleftrightarrow> 4294967296 \<le> B mod 4294967296 + A mod 4294967296" .
  have "(A + B) div 4294967296 = A div 4294967296 + B div 4294967296 + (B mod 4294967296 + A mod 4294967296) div 4294967296"
    by (simp add: div_add1_eq [of A B] add.commute)
  also have "(B mod 4294967296 + A mod 4294967296) div 4294967296 = (if 4294967296 \<le> B mod 4294967296 + A mod 4294967296 then 1 else 0)"
    by (intro carry_div) simp_all
  finally have d: "(A + B) div 4294967296 = A div 4294967296 + B div 4294967296
      + (if (of_nat (A + B) :: u32) < of_nat A then 1 else 0)" by (simp only: lt)
  have "drop_bit 29 (of_nat k :: u32) = of_nat (B div 4294967296)"
  proof (rule word_unat_eq_iff [THEN iffD2])
    have "unat (drop_bit 29 (of_nat k :: u32)) = k div 536870912"
      using assms by (simp only: unat_drop_div unat_of_nat_mod) simp
    moreover have "8 * k div 4294967296 = k div 536870912" by simp
    ultimately show "unat (drop_bit 29 (of_nat k :: u32)) = unat (of_nat (B div 4294967296) :: u32)"
      using assms unfolding B_def by (simp only: unat_of_nat_mod) simp
  qed
  moreover have "8 * (n + k) = A + B" by (simp add: A_def B_def)
  ultimately show ?thesis unfolding sum unfolding A_def [symmetric] by (simp only: d of_nat_add split: if_split) simp
qed

text \<open>Whole blocks, then the rest to the start of the array.\<close>

lemma md5_rest:
  assumes "64 dvd length w" and "length (md5_in ctx) = 64" and "md5_buf ctx = chain md5_process md5_H0 w" and "w @ y = m"
  shows "\<exists>b. do { (c3, b3) \<leftarrow> md5_loop ctx y; b \<leftarrow> copy_bytes (md5_in c3) 0 b3 0 (length b3); Some (c3\<lparr>md5_in := b\<rparr>) }
       = Some (ctx\<lparr>md5_buf := chain md5_process md5_H0 m, md5_in := b\<rparr>)
     \<and> length b = 64 \<and> take (length m mod 64) b = drop (length m div 64 * 64) m"
proof -
  define r where "r = drop (length y div 64 * 64) y"
  obtain b0 where b0: "length b0 = 64" "md5_loop ctx y = Some (ctx\<lparr>md5_buf := chain md5_process (md5_buf ctx) y, md5_in := b0\<rparr>, r)"
    using md5_loop_eq [OF assms(2), of y] by (auto simp: r_def)
  obtain b where b: "(if r \<noteq> [] then copy_bytes b0 0 r 0 (length r) else Some b0) = Some b" "length b = 64"
    "take (length m mod 64) b = drop (length m div 64 * 64) m"
    using rest_of_update [OF assms(1) b0(1) r_def] unfolding assms(4) by blast
  have "copy_bytes b0 0 r 0 (length r) = Some b" using b(1) by (cases "r = []") (simp_all add: copy_bytes_zero)
  moreover have "chain md5_process (md5_buf ctx) y = chain md5_process md5_H0 m"
    using chain_append [OF assms(1), of md5_process md5_H0 y] assms(3,4) by simp
  ultimately show ?thesis using b0(2) b(2,3) by (intro exI [of _ b]) simp
qed


lemma md5_update_absorbs:
  assumes a: "md5_absorbed ctx m" and x: "length x \<le> 4294967295"
  shows "\<exists>ctx'. MD5Update ctx x = Some ctx' \<and> md5_absorbed ctx' (m @ x)"
proof -
  define L where "L = length m mod 64"
  let ?w = "take (length m div 64 * 64) m" and ?r = "drop (length m div 64 * 64) m"
  have st: "md5_buf ctx = chain md5_process md5_H0 m" "length (md5_in ctx) = 64" "take L (md5_in ctx) = ?r"
    "md5_bits0 ctx = of_nat (8 * length m)" "md5_bits1 ctx = of_nat (8 * length m div 4294967296)"
    using a by (simp_all add: md5_absorbed_def L_def)
  have L64: "L < 64" by (simp add: L_def)
  have left: "unat (drop_bit 3 (md5_bits0 ctx) AND 0x3f) = L" unfolding st(4) by (simp only: md5_left L_def)
  have fill: "unat (64 - (drop_bit 3 (md5_bits0 ctx) AND 0x3f)) = 64 - L"
    using left L64 by (subst unat_sub) (simp_all add: word_le_nat_alt)
  have lz: "drop_bit 3 (md5_bits0 ctx) AND 0x3f = 0 \<longleftrightarrow> L = 0" using left by (simp add: word_unat_eq_iff)
  have fl: "of_nat (length x) < 64 - (drop_bit 3 (md5_bits0 ctx) AND 0x3f) \<longleftrightarrow> length x < 64 - L"
    using fill x by (simp add: word_less_nat_alt unat_of_nat)
  define ctx1 where "ctx1 = ctx\<lparr>md5_bits0 := of_nat (8 * length (m @ x)), md5_bits1 := of_nat (8 * length (m @ x) div 4294967296)\<rparr>"
  have bits: "md5_bits0 ctx + push_bit 3 (of_nat (length x)) = of_nat (8 * length (m @ x))"
    by (simp add: st(4) push_bit_eq_mult)
  have bits1: "(if md5_bits0 ctx + push_bit 3 (of_nat (length x)) < md5_bits0 ctx then md5_bits1 ctx + 1 else md5_bits1 ctx)
      + drop_bit 29 (of_nat (length x)) = of_nat (8 * length (m @ x) div 4294967296)"
    using md5_carry [OF x, of "length m"] unfolding st(4,5) length_append .
  have upd: "MD5Update ctx x =
      (if L \<noteq> 0 \<and> length x < 64 - L
       then do { b \<leftarrow> copy_bytes (md5_in ctx) L x 0 (length x); Some (ctx1\<lparr>md5_in := b\<rparr>) }
       else do {
         (ctx2, buf2) \<leftarrow> (if L \<noteq> 0
           then do { b \<leftarrow> copy_bytes (md5_in ctx) L x 0 (64 - L); c \<leftarrow> md5_block (ctx1\<lparr>md5_in := b\<rparr>); Some (c, drop (64 - L) x) }
           else Some (ctx1, x));
         (c3, b3) \<leftarrow> md5_loop ctx2 buf2; b \<leftarrow> copy_bytes (md5_in c3) 0 b3 0 (length b3); Some (c3\<lparr>md5_in := b\<rparr>) })"
    unfolding MD5Update_def Let_def bits1 unfolding bits using lz fl left fill by (simp add: ctx1_def)
  have c1: "md5_in ctx1 = md5_in ctx" "md5_buf ctx1 = md5_buf ctx" by (simp_all add: ctx1_def)
  have abs: "md5_absorbed (ctx1\<lparr>md5_buf := chain md5_process md5_H0 (m @ x), md5_in := b\<rparr>) (m @ x)"
    if "length b = 64" "take (length (m @ x) mod 64) b = drop (length (m @ x) div 64 * 64) (m @ x)" for b
    using that by (simp add: md5_absorbed_def ctx1_def)
  consider "L = 0" | "L \<noteq> 0" "64 - L \<le> length x" | "L \<noteq> 0" "length x < 64 - L" by linarith
  then show ?thesis
  proof cases
    case 1
    then have "64 dvd length m" by (simp add: L_def mod_eq_0_iff_dvd)
    from md5_rest [OF this, of ctx1 x "m @ x"] show ?thesis using 1 st(1,2) c1 abs unfolding upd by auto
  next
    case 2
    let ?b = "?r @ take (64 - L) x" and ?w2 = "m @ take (64 - L) x"
    have lb: "length ?b = 64" using 2 L64 by (simp add: L_def minus_div_mult_eq_mod)
    have "length ?w2 = length ?w + length ?b" using 2 by simp
    then have lw: "64 dvd length ?w2" unfolding lb by simp
    have cp: "copy_bytes (md5_in ctx) L x 0 (64 - L) = Some ?b" using 2 L64 st(2,3) by (simp add: copy_bytes_def)
    have "md5_process (md5_buf ctx) ?b = chain md5_process md5_H0 ?w2"
    proof -
      have "chain md5_process md5_H0 ?w2 = chain md5_process md5_H0 (?w @ ?b)"
        by (simp only: append_assoc [symmetric] append_take_drop_id)
      also have "\<dots> = chain md5_process (chain md5_process md5_H0 ?w) ?b" by (rule chain_append) simp
      also have "\<dots> = md5_process (chain md5_process md5_H0 ?w) ?b" by (rule chain_one [OF lb])
      finally show ?thesis using st(1) chain_whole_blocks [of md5_process md5_H0 m] by simp
    qed
    moreover define ctx2 where "ctx2 = ctx1\<lparr>md5_in := ?b, md5_buf := md5_process (md5_buf ctx) ?b\<rparr>"
    ultimately have c2: "length (md5_in ctx2) = 64" "md5_buf ctx2 = chain md5_process md5_H0 ?w2" using lb by simp_all
    have blk: "md5_block (ctx1\<lparr>md5_in := ?b\<rparr>) = Some ctx2"
      using md5_block_eq [of "ctx1\<lparr>md5_in := ?b\<rparr>"] lb c1 by (simp add: ctx2_def)
    have "ctx2\<lparr>md5_buf := q, md5_in := b\<rparr> = ctx1\<lparr>md5_buf := q, md5_in := b\<rparr>" for q b by (simp add: ctx2_def)
    then show ?thesis
      using md5_rest [OF lw c2, of "drop (64 - L) x" "m @ x"] 2 cp blk abs unfolding upd by auto
  next
    case 3
    define q where "q = length m div 64"
    have e: "length (m @ x) = q * 64 + (L + length x)" by (simp add: L_def q_def)
    have "L + length x < 64" using 3 L64 by simp
    then have len: "length (m @ x) mod 64 = L + length x" "length (m @ x) div 64 = length m div 64"
      unfolding e q_def [symmetric] by simp_all
    have cp: "copy_bytes (md5_in ctx) L x 0 (length x) = Some (?r @ x @ drop (L + length x) (md5_in ctx))"
      using 3 L64 st(2,3) by (simp add: copy_bytes_def)
    have lr: "length ?r = L" by (simp add: L_def minus_div_mult_eq_mod)
    have "chain md5_process md5_H0 (m @ x) = md5_buf ctx1"
      using chain_whole_blocks [of md5_process md5_H0 "m @ x"] chain_whole_blocks [of md5_process md5_H0 m] st(1) c1
      unfolding len(2) by simp
    then show ?thesis using 3 cp lr st(2) L64 abs [of "?r @ x @ drop (L + length x) (md5_in ctx)"]
      unfolding upd len by simp
  qed
qed


section \<open>Final\<close>

lemma length_md5_bytes [simp]: "length (md5_bytes w) = 4"
  by (simp add: md5_bytes_def)

text \<open>Storing the bit count behind 56 bytes gives the last block.\<close>

lemma store_count:
  assumes "length b = 64"
  shows "do { b5 \<leftarrow> store32 b 56 w0; store32 b5 60 w1 } = Some (take 56 b @ md5_bytes w0 @ md5_bytes w1)"
proof -
  have "store32 b 56 w0 = Some (write_bytes b 56 (md5_bytes w0))"
    using store32_bytes [of 56 b w0] assms by (simp add: md5_bytes_def)
  moreover have "length (write_bytes b 56 (md5_bytes w0)) = 64" using assms by simp
  then have "store32 (write_bytes b 56 (md5_bytes w0)) 60 w1 = Some (write_bytes (write_bytes b 56 (md5_bytes w0)) 60 (md5_bytes w1))"
    using store32_bytes [of 60 "write_bytes b 56 (md5_bytes w0)" w1] by (simp add: md5_bytes_def)
  moreover have "write_bytes (write_bytes b 56 (md5_bytes w0)) 60 (md5_bytes w1) = write_bytes b 56 (md5_bytes w0 @ md5_bytes w1)"
    using write_bytes_append [of 56 "md5_bytes w0" b "md5_bytes w1"] assms by simp
  ultimately show ?thesis using assms by (simp add: write_bytes_def)
qed

lemma length_md5_H0: "length md5_H0 = 4"
  by (simp add: md5_H0_def)

lemma length_chain4: "length st = 4 \<Longrightarrow> length (chain md5_process st m) = 4 \<and> chain md5_process st m = chain rfc_compress st m"
proof (induction "length m" arbitrary: st m rule: less_induct)
  case less
  show ?case
  proof (cases "64 \<le> length m")
    case True
    then have lt: "length (drop 64 m) < length m" by simp
    show ?thesis
      using less.hyps [OF lt process_rfc(2) [OF less.prems, of "take 64 m"]] True less.prems
      by (auto simp: chain_step [of m] simp flip: process_rfc(1))
  qed (use less.prems in \<open>simp add: chain_short\<close>)
qed

lemma chain_blocks:
  assumes "w = take (length m div 64 * 64) m" and "length b = 64"
  shows "chain p h0 (w @ b @ c) = chain p (p (chain p h0 m) b) c"
proof -
  have "64 dvd length w" unfolding assms(1) by simp
  then have "chain p h0 (w @ b @ c) = chain p (chain p h0 w) (b @ c)" by (rule chain_append)
  also have "\<dots> = chain p (chain p (chain p h0 w) b) c" using assms(2) by (intro chain_append) simp
  finally show ?thesis using chain_whole_blocks [of p h0 m] by (simp add: assms chain_one)
qed

lemma md5_final_digest:
  assumes "md5_absorbed ctx m"
  shows "MD5Final ctx = Some (rfc_md5 m)"
proof -
  define L where "L = length m mod 64"
  define count where "count = drop_bit 3 (md5_bits0 ctx) AND 0x3F"
  define w r where wr: "w = take (length m div 64 * 64) m" "r = drop (length m div 64 * 64) m"
  let ?len = "md5_bytes (md5_bits0 ctx) @ md5_bytes (md5_bits1 ctx)"
  have st: "md5_buf ctx = chain md5_process md5_H0 m" "length (md5_in ctx) = 64" "take L (md5_in ctx) = r"
    "md5_bits0 ctx = of_nat (8 * length m)" "md5_bits1 ctx = of_nat (8 * length m div 4294967296)"
    using assms by (simp_all add: md5_absorbed_def L_def wr)
  have L64: "L < 64" by (simp add: L_def)
  have cnt: "unat count = L" unfolding count_def st(4) by (simp only: md5_left L_def)
  have cnt2: "unat (64 - 1 - count) = 63 - L" using cnt L64 by (simp add: unat_sub word_le_nat_alt)
  have lt8: "64 - 1 - count < 8 \<longleftrightarrow> 56 \<le> L" using cnt2 L64 by (auto simp: word_less_nat_alt)
  have lr: "length r = L" by (simp add: L_def wr minus_div_mult_eq_mod)
  define b1 where "b1 = r @ 0x80 # drop (L + 1) (md5_in ctx)"
  have b1: "store (md5_in ctx) (unat count) 0x80 = Some b1"
    using L64 st(2,3) cnt by (simp add: store_def b1_def upd_conv_take_nth_drop)
  have out: "do { b4 \<leftarrow> byteReverse (md5_in c) 0 14; b5 \<leftarrow> store32 b4 56 (md5_bits0 c); b6 \<leftarrow> store32 b5 60 (md5_bits1 c);
        ws \<leftarrow> in32 b6 0 16; byteReverse (concat (map md5_bytes (MD5Transform (md5_buf c) ws))) 0 4 }
      = Some (concat (map md5_bytes (md5_process (md5_buf c) (take 56 (md5_in c) @ ?len))))"
    if "length (md5_in c) = 64" "length (md5_buf c) = 4" "md5_bits0 c = md5_bits0 ctx" "md5_bits1 c = md5_bits1 ctx" for c
  proof -
    let ?blk = "take 56 (md5_in c) @ ?len"
    have "length (concat (map md5_bytes (md5_process (md5_buf c) ?blk))) = 16"
      using process_rfc(2) [OF that(2)] by (simp add: length_concat comp_def sum_list_triv)
    moreover have "length ?blk = 64" using that(1) by simp
    ultimately show ?thesis
      using store_count [OF that(1), of "md5_bits0 ctx" "md5_bits1 ctx"] that(1,3,4) in32_le_words [of ?blk]
      by (auto simp: byteReverse_id md5_process_def bind_eq_Some_conv)
  qed
  have len4: "length (md5_buf ctx) = 4" using conjunct1 [OF length_chain4 [OF length_md5_H0, of m]] by (simp only: st(1))
  have padm: "md5_padded m = w @ (r @ [0x80] @ replicate (pad_zeros m) 0 @ ?len)"
    unfolding md5_padded_def st(4,5) wr by (simp only: append_assoc [symmetric] append_take_drop_id)
  have pz: "pad_zeros m = (if L < 56 then 55 - L else 119 - L)"
    using pad_mod [OF L64] by (simp add: pad_zeros_def L_def)
  have goal: "MD5Final ctx = Some (concat (map md5_bytes (chain md5_process md5_H0 (md5_padded m))))"
  proof (cases "L < 56")
    case True
    let ?b = "r @ [0x80] @ replicate (55 - L) 0 @ drop 56 (md5_in ctx)"
    have "unat (64 - 1 - count - 8) = 55 - L" using cnt2 True by (subst unat_sub) (simp_all add: word_le_nat_alt)
    moreover have "zero_fill b1 (L + 1) (55 - L) = Some ?b"
      using True lr st(2) by (simp add: zero_fill_def copy_bytes_def b1_def drop_Cons')
    ultimately have "MD5Final ctx = Some (concat (map md5_bytes (md5_process (md5_buf ctx) (take 56 ?b @ ?len))))"
      using b1 lt8 True cnt out [of "ctx\<lparr>md5_in := ?b\<rparr>"] lr st(2) len4
      by (simp add: MD5Final_def Let_def flip: count_def)
    moreover have "take 56 ?b = r @ [0x80] @ replicate (55 - L) 0" using True lr by (simp add: take_Cons')
    moreover have "chain md5_process md5_H0 (md5_padded m) = md5_process (md5_buf ctx) (r @ [0x80] @ replicate (55 - L) 0 @ ?len)"
      using chain_blocks [OF wr(1), of "r @ [0x80] @ replicate (55 - L) 0 @ ?len" md5_process md5_H0 "[]"] True lr
      unfolding padm pz by (simp add: chain_short st(1))
    ultimately show ?thesis by (simp only: append_assoc)
  next
    case False
    let ?b = "r @ [0x80] @ replicate (63 - L) 0" and ?z = "replicate 56 (0 :: byte)"
    have zf: "zero_fill b1 (unat count + 1) (unat (64 - 1 - count)) = Some ?b"
      using False lr st(2) L64 unfolding cnt cnt2 by (simp add: zero_fill_def copy_bytes_def b1_def drop_Cons')
    have lb: "length ?b = 64" using lr L64 by simp
    define c where "c = ctx\<lparr>md5_in := ?b, md5_buf := md5_process (md5_buf ctx) ?b\<rparr>"
    have "md5_block (ctx\<lparr>md5_in := ?b\<rparr>) = Some c" using md5_block_eq [of "ctx\<lparr>md5_in := ?b\<rparr>"] lb by (simp add: c_def)
    moreover have "zero_fill (md5_in c) 0 56 = Some (?z @ drop 56 ?b)"
      using lb by (simp add: zero_fill_def copy_bytes_def c_def)
    ultimately have "MD5Final ctx = Some (concat (map md5_bytes (md5_process (md5_buf c) (take 56 (?z @ drop 56 ?b) @ ?len))))"
      using b1 lt8 False zf out [of "c\<lparr>md5_in := ?z @ drop 56 ?b\<rparr>"] lb process_rfc(2) [OF len4]
      by (simp add: MD5Final_def Let_def c_def flip: count_def)
    moreover have "replicate (pad_zeros m) 0 = replicate (63 - L) 0 @ ?z" using False L64 by (simp add: pz flip: replicate_add)
    then have "chain md5_process md5_H0 (md5_padded m) = md5_process (md5_buf c) (?z @ ?len)"
      using chain_blocks [OF wr(1) lb, of md5_process md5_H0 "?z @ ?len"] chain_one [of "?z @ ?len"]
      unfolding padm by (simp add: st(1) c_def)
    ultimately show ?thesis by (simp add: c_def)
  qed
  then show ?thesis
    using conjunct2 [OF length_chain4 [OF length_md5_H0, of "md5_padded m"]] by (simp only: rfc_md5_def)
qed

interpretation md5_stream: stream_hash "\<lambda>ctx. length (md5_in ctx) = 64" md5_absorbed
  MD5Init MD5Update MD5Final rfc_md5 4294967295
proof
  show "md5_absorbed (MD5Init c) []" if "length (md5_in c) = 64" for c
    using that by (simp add: md5_absorbed_def MD5Init_def md5_H0_def chain_short)
qed (use md5_update_absorbs md5_final_digest in auto)

section \<open>Properties\<close>

text \<open>(lib/md5.c). \<open>MD5Init\<close>, any sequence of \<open>MD5Update\<close> calls and \<open>MD5Final\<close> give the digest of RFC 1321
  of the whole message, and so do the one-shot \<open>md5\<close> and the watchdog variant \<open>md5_wd\<close> for every chunk size
  but zero; the 64-bit length is carried over both words and no access leaves the context.\<close>

theorem md5_any_pieces:
  assumes "length (md5_in ctx) = 64" and "list_all (\<lambda>x. length x \<le> 4294967295) xs" and "0 < chunk_sz"
    and "length input \<le> 4294967295"
  shows "do { c \<leftarrow> feed MD5Update (MD5Init ctx) xs; MD5Final c } = Some (rfc_md5 (concat xs))
     \<and> md5 ctx input = Some (rfc_md5 input) \<and> md5_wd wd ctx input chunk_sz = Some (rfc_md5 input)"
proof -
  have "0 < unat chunk_sz" "unat chunk_sz \<le> 4294967295"
    using assms(3) unat_lt_u32 [of chunk_sz] by (auto simp: word_less_nat_alt simp del: unat_lt_u32)
  then show ?thesis
    using md5_stream.digest_of_pieces [OF assms(1,2)] md5_stream.digest_of_one [OF assms(1,4)]
      md5_stream.digest_of_chunks [OF assms(1), of "unat chunk_sz" input]
    by (auto simp: md5_def md5_wd_def)
qed

theorem md5_any_pieces_witness:
  "do { c \<leftarrow> feed MD5Update (MD5Init \<lparr>md5_buf = [], md5_bits0 = 3, md5_bits1 = 0, md5_in = replicate 64 1\<rparr>) [[0x61], [0x62, 0x63]];
        MD5Final c } = Some (rfc_md5 (concat [[0x61], [0x62, 0x63]]))
   \<and> md5 \<lparr>md5_buf = [], md5_bits0 = 3, md5_bits1 = 0, md5_in = replicate 64 1\<rparr> [0x61, 0x62, 0x63] = Some (rfc_md5 [0x61, 0x62, 0x63])
   \<and> md5_wd True \<lparr>md5_buf = [], md5_bits0 = 3, md5_bits1 = 0, md5_in = replicate 64 1\<rparr> [0x61, 0x62, 0x63] 2
       = Some (rfc_md5 [0x61, 0x62, 0x63])"
  by (rule md5_any_pieces) simp_all

end
