(* ===== verification/Aes_Tables.thy ===== *)
theory Aes_Tables
  imports Aes
begin

unbundle bit_operations_syntax

text \<open>
  The reference cipher of FIPS 197 over the field with reduction polynomial 0x11b, and the proof, by
  computation, that the lookup tables of \<open>Aes\<close> hold the products and the substitution they stand for.
\<close>

section \<open>Reference: FIPS 197\<close>

definition xtime :: "byte \<Rightarrow> byte" where
  "xtime x = push_bit 1 x XOR (if bit x 7 then 0x1b else 0)"

fun gsum :: "byte \<Rightarrow> byte \<Rightarrow> nat list \<Rightarrow> byte" where
  "gsum a b [] = 0"
| "gsum a b (i # is) = xtime (gsum a b is) XOR (if bit a i then b else 0)"

definition gmul :: "byte \<Rightarrow> byte \<Rightarrow> byte" where
  "gmul a b = gsum a b [0..<8]"

definition rotl8 :: "nat \<Rightarrow> byte \<Rightarrow> byte" where
  "rotl8 n y = push_bit n y OR drop_bit (8 - n) y"

definition affine :: "byte \<Rightarrow> byte" where
  "affine y = y XOR rotl8 1 y XOR rotl8 2 y XOR rotl8 3 y XOR rotl8 4 y XOR 0x63"

definition unaffine :: "byte \<Rightarrow> byte" where
  "unaffine y = rotl8 1 y XOR rotl8 3 y XOR rotl8 6 y XOR 0x05"

definition SubBytes :: "byte list \<Rightarrow> byte list" where
  "SubBytes s = map (lookup sbox) s"

definition ShiftRows :: "byte list \<Rightarrow> byte list" where
  "ShiftRows s = map (\<lambda>i. s ! ((4 * (i div 4 + i mod 4) + i mod 4) mod 16)) [0..<16]"

definition InvShiftRows :: "byte list \<Rightarrow> byte list" where
  "InvShiftRows s = map (\<lambda>i. s ! ((4 * (i div 4 + 4 - i mod 4) + i mod 4) mod 16)) [0..<16]"

definition mat :: "byte list \<Rightarrow> byte list \<Rightarrow> byte list" where
  "mat r s = map (\<lambda>i. foldr (\<lambda>j acc. gmul (r ! ((j + 4 - i mod 4) mod 4)) (s ! (4 * (i div 4) + j)) XOR acc) [0..<4] 0) [0..<16]"

definition MixColumns :: "byte list \<Rightarrow> byte list" where
  "MixColumns = mat [2, 3, 1, 1]"

definition InvMixColumns :: "byte list \<Rightarrow> byte list" where
  "InvMixColumns = mat [0xe, 0xb, 0xd, 9]"

definition AddRoundKey :: "byte list \<Rightarrow> nat \<Rightarrow> byte list \<Rightarrow> byte list" where
  "AddRoundKey e r s = map2 (XOR) s (take 16 (drop (16 * r) e))"

definition Cipher :: "byte list \<Rightarrow> byte list \<Rightarrow> byte list" where
  "Cipher e s = AddRoundKey e 10 (ShiftRows (SubBytes
     (fold (\<lambda>r s. AddRoundKey e r (MixColumns (ShiftRows (SubBytes s)))) [1..<10] (AddRoundKey e 0 s))))"

fun KeyWord :: "byte list \<Rightarrow> nat \<Rightarrow> byte list" where
  "KeyWord key i =
     (if i < 4 then take 4 (drop (4 * i) key)
      else map2 (XOR) (KeyWord key (i - 4))
        (if i mod 4 = 0
         then map2 (XOR) (SubBytes (rotate1 (KeyWord key (i - 1)))) [(xtime ^^ (i div 4 - 1)) 1, 0, 0, 0]
         else KeyWord key (i - 1)))"

declare KeyWord.simps [simp del]

definition KeyExpansion :: "byte list \<Rightarrow> byte list" where
  "KeyExpansion key = concat (map (KeyWord key) [0..<44])"

section \<open>The tables\<close>

text \<open>Each table is compared with a list computed from the field operations.\<close>

definition all_bytes :: "byte list" where
  "all_bytes = map word_of_nat [0..<256]"

lemma lookup_map_all: "lookup (map f all_bytes) b = f b"
  by (simp add: lookup_def all_bytes_def)

lemma table_inv_sbox: "map (lookup inv_sbox) sbox = all_bytes"
  by code_simp

lemma table_x2: "x2_sbox = map xtime sbox"
  by code_simp

lemma table_x3: "x3_sbox = map (\<lambda>b. xtime b XOR b) sbox"
  by code_simp

lemma table_9: "x_time_9 = map (\<lambda>b. xtime (xtime (xtime b)) XOR b) all_bytes"
  by code_simp

lemma table_b: "x_time_b = map (\<lambda>b. xtime (xtime (xtime b)) XOR xtime b XOR b) all_bytes"
  by code_simp

lemma table_d: "x_time_d = map (\<lambda>b. xtime (xtime (xtime b)) XOR xtime (xtime b) XOR b) all_bytes"
  by code_simp

lemma table_e: "x_time_e = map (\<lambda>b. xtime (xtime (xtime b)) XOR xtime (xtime b) XOR xtime b) all_bytes"
  by code_simp

lemma table_affine: "list_all (\<lambda>s. s = affine (unaffine s)) sbox"
  by code_simp

definition sbox_ok :: "byte \<Rightarrow> byte \<Rightarrow> bool" where
  "sbox_ok b s \<longleftrightarrow> (if b = 0 then unaffine s = 0 else gmul b (unaffine s) = 1)"

lemmas sbox_calc = sbox_def all_bytes_def sbox_ok_def unaffine_def rotl8_def gmul_def xtime_def upt_rec

text \<open>The products with the inverses are computed in eight slices of the table.\<close>

lemma sbox_slice0: "list_all2 sbox_ok (take 32 (drop 0 all_bytes)) (take 32 (drop 0 sbox))" by (simp add: sbox_calc)
lemma sbox_slice1: "list_all2 sbox_ok (take 32 (drop 32 all_bytes)) (take 32 (drop 32 sbox))" by (simp add: sbox_calc)
lemma sbox_slice2: "list_all2 sbox_ok (take 32 (drop 64 all_bytes)) (take 32 (drop 64 sbox))" by (simp add: sbox_calc)
lemma sbox_slice3: "list_all2 sbox_ok (take 32 (drop 96 all_bytes)) (take 32 (drop 96 sbox))" by (simp add: sbox_calc)
lemma sbox_slice4: "list_all2 sbox_ok (take 32 (drop 128 all_bytes)) (take 32 (drop 128 sbox))" by (simp add: sbox_calc)
lemma sbox_slice5: "list_all2 sbox_ok (take 32 (drop 160 all_bytes)) (take 32 (drop 160 sbox))" by (simp add: sbox_calc)
lemma sbox_slice6: "list_all2 sbox_ok (take 32 (drop 192 all_bytes)) (take 32 (drop 192 sbox))" by (simp add: sbox_calc)
lemma sbox_slice7: "list_all2 sbox_ok (take 32 (drop 224 all_bytes)) (take 32 (drop 224 sbox))" by (simp add: sbox_calc)

lemma length_sbox: "length sbox = 256"
  by (simp add: sbox_def)

lemma nth_all_bytes: "all_bytes ! unat b = b"
  by (simp add: all_bytes_def)

lemma lookup_inv_sbox [simp]: "lookup inv_sbox (lookup sbox b) = b"
  using arg_cong [OF table_inv_sbox, of "\<lambda>l. l ! unat b"] by (simp add: length_sbox nth_all_bytes lookup_def)

lemma lookup_mul:
  "lookup x2_sbox b = xtime (lookup sbox b)"
  "lookup x3_sbox b = xtime (lookup sbox b) XOR lookup sbox b"
  "lookup x_time_9 b = xtime (xtime (xtime b)) XOR b"
  "lookup x_time_b b = xtime (xtime (xtime b)) XOR xtime b XOR b"
  "lookup x_time_d b = xtime (xtime (xtime b)) XOR xtime (xtime b) XOR b"
  "lookup x_time_e b = xtime (xtime (xtime b)) XOR xtime (xtime b) XOR xtime b"
proof -
  have "lookup (map f sbox) b = f (lookup sbox b)" for f by (simp add: lookup_def length_sbox)
  then show "lookup x2_sbox b = xtime (lookup sbox b)" "lookup x3_sbox b = xtime (lookup sbox b) XOR lookup sbox b"
    unfolding table_x2 table_x3 by simp_all
qed (simp_all add: table_9 table_b table_d table_e lookup_map_all)

lemma table_sbox: "list_all2 sbox_ok all_bytes sbox"
proof -
  have split: "xs = take 32 (drop 0 xs) @ take 32 (drop 32 xs) @ take 32 (drop 64 xs) @ take 32 (drop 96 xs) @
      take 32 (drop 128 xs) @ take 32 (drop 160 xs) @ take 32 (drop 192 xs) @ take 32 (drop 224 xs)"
    if "length xs = 256" for xs :: "byte list"
  proof -
    have "take n (drop k xs) @ drop (k + n) xs = drop k xs" for n k
      by (metis append_take_drop_id drop_drop add.commute)
    from this [of 32 0] this [of 32 32] this [of 32 64] this [of 32 96] this [of 32 128] this [of 32 160]
      this [of 32 192] this [of 32 224] that
    show ?thesis by simp
  qed
  have "length all_bytes = 256" by (simp add: all_bytes_def)
  note a = split [OF this] and b = split [OF length_sbox]
  show ?thesis
    by (subst a, subst b)
      (intro list_all2_appendI sbox_slice0 sbox_slice1 sbox_slice2 sbox_slice3 sbox_slice4 sbox_slice5 sbox_slice6 sbox_slice7)
qed

lemma lookup_sbox_spec: "lookup sbox b = affine (unaffine (lookup sbox b))" "sbox_ok b (lookup sbox b)"
proof -
  have "unat b < length all_bytes" by (simp add: all_bytes_def)
  from list_all2_nthD [OF table_sbox this] show "sbox_ok b (lookup sbox b)" by (simp only: nth_all_bytes lookup_def)
  show "lookup sbox b = affine (unaffine (lookup sbox b))"
    using table_affine by (simp add: list_all_length length_sbox lookup_def)
qed

end
