(* ===== verification/Aes_Proofs.thy ===== *)
theory Aes_Proofs
  imports Aes_Tables
begin

unbundle bit_operations_syntax

text \<open>
  The fused, table-driven rounds of \<open>Aes\<close> are the rounds of FIPS 197; encryption is the cipher of the standard,
  decryption its inverse, and the key schedule its key expansion.
\<close>

section \<open>The field\<close>

lemma xtime_xor: "xtime (x XOR y) = xtime x XOR xtime y"
  by (rule bit_word_eqI) (auto simp: xtime_def bit_simps)

lemma gmul_consts:
  "gmul 1 x = x" "gmul 2 x = xtime x" "gmul 3 x = xtime x XOR x"
  "gmul 9 x = xtime (xtime (xtime x)) XOR x"
  "gmul 0xb x = xtime (xtime (xtime x)) XOR xtime x XOR x"
  "gmul 0xd x = xtime (xtime (xtime x)) XOR xtime (xtime x) XOR x"
  "gmul 0xe x = xtime (xtime (xtime x)) XOR xtime (xtime x) XOR xtime x"
proof -
  have "xtime 0 = 0" by (simp add: xtime_def)
  then show "gmul 1 x = x" "gmul 2 x = xtime x" "gmul 3 x = xtime x XOR x"
    "gmul 9 x = xtime (xtime (xtime x)) XOR x"
    "gmul 0xb x = xtime (xtime (xtime x)) XOR xtime x XOR x"
    "gmul 0xd x = xtime (xtime (xtime x)) XOR xtime (xtime x) XOR x"
    "gmul 0xe x = xtime (xtime (xtime x)) XOR xtime (xtime x) XOR xtime x"
    by (simp_all add: gmul_def upt_rec xtime_xor ac_simps bit_numeral_rec)
qed

lemma xor_cancel_left: "(x :: byte) XOR (x XOR y) = y"
  by (simp flip: xor.assoc)

text \<open>A list of sixteen bytes, written out.\<close>

lemma list16:
  assumes "length s = 16"
  obtains a b c d e f g h i j k l m n p q where "s = [a, b, c, d, e, f, g, h, i, j, k, l, m, n, p, q]"
  using assms by (auto simp: length_Suc_conv numeral_eq_Suc)

lemma upt16: "[0..<16] = [0, 1, 2, 3, 4, 5, 6, 7, 8, 9, 10, 11, 12, 13, 14, 15]"
  by (simp add: upt_rec)

lemma shift_rows_fips: "length s = 16 \<Longrightarrow> shift_rows s = ShiftRows (SubBytes s)"
  by (erule list16) (simp add: shift_rows_def ShiftRows_def SubBytes_def upt16)

lemma inv_shift_rows_fips: "length s = 16 \<Longrightarrow> inv_shift_rows s = map (lookup inv_sbox) (InvShiftRows s)"
  by (erule list16) (simp add: inv_shift_rows_def InvShiftRows_def upt16)

lemma mix_sub_columns_fips: "length s = 16 \<Longrightarrow> mix_sub_columns s = MixColumns (ShiftRows (SubBytes s))"
  by (erule list16)
    (simp add: mix_sub_columns_def MixColumns_def mat_def ShiftRows_def SubBytes_def upt16 upt_rec gmul_consts lookup_mul ac_simps)

lemma inv_mix_sub_columns_fips:
  "length s = 16 \<Longrightarrow> inv_mix_sub_columns s = map (lookup inv_sbox) (InvShiftRows (InvMixColumns s))"
  by (erule list16)
    (simp add: inv_mix_sub_columns_def InvMixColumns_def mat_def InvShiftRows_def upt16 upt_rec gmul_consts lookup_mul ac_simps)

lemma InvShiftRows_ShiftRows: "length s = 16 \<Longrightarrow> InvShiftRows (ShiftRows s) = s"
  by (erule list16) (simp add: InvShiftRows_def ShiftRows_def upt16)

lemma InvMixColumns_MixColumns: "length s = 16 \<Longrightarrow> InvMixColumns (MixColumns s) = s"
  by (erule list16)
    (simp add: InvMixColumns_def MixColumns_def mat_def upt16 upt_rec gmul_consts xtime_xor ac_simps xor_cancel_left)

lemma lengths16 [simp]:
  "length (ShiftRows s) = 16" "length (MixColumns s) = 16" "length (InvShiftRows s) = 16"
  "length (InvMixColumns s) = 16" "length (SubBytes s) = length s"
  by (simp_all add: ShiftRows_def MixColumns_def InvShiftRows_def InvMixColumns_def mat_def SubBytes_def)

section \<open>Adding a round key\<close>

lemma word_xor_bytes:
  "ucast (le32 a b c d XOR le32 e f g h) = a XOR e"
  "ucast (drop_bit 8 (le32 a b c d) XOR drop_bit 8 (le32 e f g h)) = b XOR f"
  "ucast (drop_bit 16 (le32 a b c d) XOR drop_bit 16 (le32 e f g h)) = c XOR g"
  "ucast (drop_bit 24 (le32 a b c d) XOR drop_bit 24 (le32 e f g h)) = d XOR h"
  by (rule bit_word_eqI; auto simp: le32_def bit_simps dest: bit_imp_le_length)+

lemma take16:
  assumes "k + 16 \<le> length e"
  shows "take 16 (drop k e) = [e ! k, e ! (k + 1), e ! (k + 2), e ! (k + 3), e ! (k + 4), e ! (k + 5), e ! (k + 6), e ! (k + 7),
    e ! (k + 8), e ! (k + 9), e ! (k + 10), e ! (k + 11), e ! (k + 12), e ! (k + 13), e ! (k + 14), e ! (k + 15)]"
proof -
  have "take 16 (drop k e) = map (\<lambda>i. e ! (k + i)) [0..<16]" using assms by (intro nth_equalityI) auto
  then show ?thesis by (simp add: upt16)
qed

lemma add_round_key_eq:
  assumes "length s = 16" and "16 * r + 16 \<le> length e"
  shows "add_round_key s e (16 * r) = Some (AddRoundKey e r s)"
proof -
  define k where "k = 16 * r"
  have k: "k + 16 \<le> length e" using assms(2) by (simp add: k_def)
  have ark: "add_round_key s e k = xor_words (Suc (Suc (Suc (Suc 0)))) 0 s e k" for s
    by (simp add: add_round_key_def eval_nat_numeral)
  have "add_round_key s e k = Some (map2 (XOR) s (take 16 (drop k e)))"
    using assms(1)
    by (rule list16) (use k in \<open>simp add: take16 ark load32_def store32_def load_def store_def word_xor_bytes add.commute\<close>)
  then show ?thesis by (simp add: k_def AddRoundKey_def)
qed

lemma length_AddRoundKey [simp]:
  "length s = 16 \<Longrightarrow> 16 * r + 16 \<le> length e \<Longrightarrow> length (AddRoundKey e r s) = 16"
  by (simp add: AddRoundKey_def)

lemma AddRoundKey_twice:
  assumes "length s = 16" and "16 * r + 16 \<le> length e"
  shows "AddRoundKey e r (AddRoundKey e r s) = s"
  using assms by (intro nth_equalityI) (simp_all add: AddRoundKey_def xor.assoc)

section \<open>Encryption and decryption\<close>

definition round_of :: "byte list \<Rightarrow> nat \<Rightarrow> byte list \<Rightarrow> byte list" where
  "round_of e r s = AddRoundKey e r (MixColumns (ShiftRows (SubBytes s)))"

definition rounds :: "byte list \<Rightarrow> nat \<Rightarrow> byte list \<Rightarrow> byte list" where
  "rounds e n s = fold (round_of e) [1..<n] (AddRoundKey e 0 s)"

lemma rounds_Suc: "1 \<le> n \<Longrightarrow> rounds e (Suc n) s = round_of e n (rounds e n s)"
  by (simp add: rounds_def)

lemma length_rounds:
  assumes "length s = 16" and "176 \<le> length e" and "1 \<le> n" and "n \<le> 10"
  shows "length (rounds e n s) = 16"
  using assms(3,4)
proof (induction n rule: dec_induct)
  case base
  then show ?case using assms(1,2) by (simp add: rounds_def)
next
  case (step n)
  then show ?case using assms(2) by (simp add: rounds_Suc round_of_def)
qed

lemma Cipher_rounds: "Cipher e s = AddRoundKey e 10 (ShiftRows (SubBytes (rounds e 10 s)))"
  by (simp add: Cipher_def rounds_def round_of_def [abs_def])

lemma encrypt_loop_eq:
  assumes "length s = 16" and "176 \<le> length e" and "1 \<le> n" and "n \<le> 10"
  shows "encrypt_loop n (rounds e n s) e = Some (Cipher e s)"
  using assms(4,3)
proof (induction n rule: inc_induct)
  case base
  have "length (rounds e 10 s) = 16" using length_rounds [OF assms(1,2)] by simp
  then show ?case
    using add_round_key_eq [of "ShiftRows (SubBytes (rounds e 10 s))" 10 e] assms(2)
    by (simp add: encrypt_loop.simps aes_sizes shift_rows_fips Cipher_rounds)
next
  case (step n)
  have "length (rounds e n s) = 16" using length_rounds [OF assms(1,2)] step by simp
  then show ?case
    using add_round_key_eq [of "MixColumns (ShiftRows (SubBytes (rounds e n s)))" n e] assms(2) step
    by (simp add: encrypt_loop.simps [of n] aes_sizes mix_sub_columns_fips rounds_Suc round_of_def)
qed

lemma aes_encrypt_eq:
  assumes "length st = 16" and "16 \<le> length inp" and "176 \<le> length e" and "16 \<le> length out"
  shows "aes_encrypt st inp e out = Some (Cipher e (take 16 inp) @ drop 16 out)"
proof -
  define s where "s = take 16 inp"
  have s: "length s = 16" using assms(2) by (simp add: s_def)
  have c: "copy_bytes st 0 inp 0 16 = Some s" using assms by (simp add: copy_bytes_def s_def)
  have "add_round_key s e 0 = Some (rounds e 1 s)"
    using add_round_key_eq [OF s, of 0 e] assms(3) by (simp add: rounds_def)
  moreover have "length (Cipher e s) = 16"
    using length_rounds [OF s assms(3), of 10] assms(3) by (simp add: Cipher_rounds)
  ultimately show ?thesis
    using encrypt_loop_eq [OF s assms(3), of 1] c assms(4)
    by (simp add: aes_encrypt_def aes_sizes copy_bytes_def flip: s_def)
qed

lemma sub_inv: "map (lookup inv_sbox) (SubBytes s) = s"
  by (simp add: SubBytes_def comp_def)

lemma map_InvShiftRows: "length s = 16 \<Longrightarrow> map f (InvShiftRows s) = InvShiftRows (map f s)"
  by (erule list16) (simp add: InvShiftRows_def upt16)

lemma inv_round:
  assumes "length s = 16" and "16 * n + 16 \<le> length e"
  shows "inv_mix_sub_columns (AddRoundKey e n (round_of e n s)) = s"
  using assms
  by (simp add: round_of_def AddRoundKey_twice inv_mix_sub_columns_fips InvMixColumns_MixColumns
      InvShiftRows_ShiftRows sub_inv)

lemma decrypt_loop_eq:
  assumes "length s = 16" and "176 \<le> length e" and "1 \<le> n" and "n \<le> 10"
  shows "decrypt_loop n (rounds e n s) e = Some s"
  using assms(3,4)
proof (induction n rule: dec_induct)
  case base
  then show ?case
    using assms(1,2) add_round_key_eq [of "AddRoundKey e 0 s" 0 e] by (simp add: rounds_def AddRoundKey_twice)
next
  case (step n)
  have l: "length (rounds e n s) = 16" using length_rounds [OF assms(1,2)] step by simp
  have "add_round_key (rounds e (Suc n) s) e (16 * n) = Some (AddRoundKey e n (rounds e (Suc n) s))"
    using step assms(2) length_rounds [OF assms(1,2), of "Suc n"] by (intro add_round_key_eq) simp_all
  then show ?case
    using step assms(2) inv_round [OF l, of n e] by (simp add: aes_sizes rounds_Suc)
qed

lemma aes_decrypt_eq:
  assumes "length st = 16" and "length s = 16" and "176 \<le> length e" and "16 \<le> length out"
  shows "aes_decrypt st (Cipher e s @ rest) e out = Some (s @ drop 16 out)"
proof -
  have l: "length (rounds e 10 s) = 16" using length_rounds [OF assms(2,3)] by simp
  then have c: "length (Cipher e s) = 16" using assms(3) by (simp add: Cipher_rounds)
  then have "copy_bytes st 0 (Cipher e s @ rest) 0 16 = Some (Cipher e s)" using assms(1) by (simp add: copy_bytes_def)
  moreover have "add_round_key (Cipher e s) e 160 = Some (ShiftRows (SubBytes (rounds e 10 s)))"
    using add_round_key_eq [OF c, of 10 e] assms(3) l by (simp add: Cipher_rounds AddRoundKey_twice)
  moreover have "inv_shift_rows (ShiftRows (SubBytes (rounds e 10 s))) = rounds e 10 s"
    using l by (simp add: inv_shift_rows_fips InvShiftRows_ShiftRows sub_inv)
  ultimately show ?thesis
    using decrypt_loop_eq [OF assms(2,3), of 10] assms(1,2,4) by (simp add: aes_decrypt_def aes_sizes copy_bytes_def)
qed

section \<open>The key schedule\<close>

lemma rcon_powers: "1 \<le> k \<Longrightarrow> k \<le> 10 \<Longrightarrow> load rcon k = Some ((xtime ^^ (k - 1)) 1)"
proof -
  assume "1 \<le> k" "k \<le> 10"
  moreover have "list_all (\<lambda>k. load rcon k = Some ((xtime ^^ (k - 1)) 1)) [1..<11]" by code_simp
  ultimately show ?thesis by (simp add: list_all_iff)
qed

lemma length_KeyWord: "length key = 16 \<Longrightarrow> i < 44 \<Longrightarrow> length (KeyWord key i) = 4"
proof (induction i rule: less_induct)
  case (less i)
  then show ?case by (subst KeyWord.simps) (auto simp: SubBytes_def)
qed

definition words :: "byte list \<Rightarrow> nat \<Rightarrow> byte list" where
  "words key n = concat (map (KeyWord key) [0..<n])"

lemma length_words: "length key = 16 \<Longrightarrow> n \<le> 44 \<Longrightarrow> length (words key n) = 4 * n"
  by (induction n) (simp_all add: words_def length_KeyWord)

lemma nth_words:
  assumes "length key = 16" and "n \<le> 44" and "i < n" and "j < 4"
  shows "words key n ! (4 * i + j) = KeyWord key i ! j"
  using assms(2,3)
proof (induction n)
  case (Suc n)
  have "words key (Suc n) = words key n @ KeyWord key n" by (simp add: words_def)
  then show ?case
    using Suc length_words [OF assms(1), of n] assms(4) by (cases "i = n") (auto simp: nth_append)
qed simp

lemma load_left: "i < length xs \<Longrightarrow> load (xs @ ys) i = Some (xs ! i)"
  by (simp add: load_def nth_append)

lemma store_right: "i < length ys \<Longrightarrow> length xs = n \<Longrightarrow> store (xs @ ys) (n + i) b = Some (xs @ ys[i := b])"
  by (simp add: store_def list_update_append)

lemma bytes4: assumes "length s = 4" obtains a b c d where "s = [a, b, c, d]"
  using assms by (auto simp: length_Suc_conv numeral_eq_Suc)

lemma expand_step_eq:
  assumes key: "length key = 16" and n: "4 \<le> n" "n < 44"
  shows "expand_step n (words key n @ a # b # c # d # rest) = Some (words key (Suc n) @ rest)"
proof -
  let ?P = "words key n"
  have P: "length ?P = 4 * n" using length_words [OF key] n by simp
  have "length (KeyWord key (n - 1)) = 4" "length (KeyWord key (n - 4)) = 4"
    using length_KeyWord [OF key] n by simp_all
  then obtain p0 p1 p2 p3 q0 q1 q2 q3 where p: "KeyWord key (n - 1) = [p0, p1, p2, p3]"
    and q: "KeyWord key (n - 4) = [q0, q1, q2, q3]" by (elim bytes4)
  have ld: "load (?P @ ys) (4 * (n - k) + j) = Some (KeyWord key (n - k) ! j)" if "j < 4" "1 \<le> k" "k \<le> 4" for j k ys
    using that n P nth_words [OF key, of n "n - k" j] by (simp add: load_left)
  have i: "4 * n - 4 = 4 * (n - 1) + 0" "4 * n - 3 = 4 * (n - 1) + 1" "4 * n - 2 = 4 * (n - 1) + 2"
    "4 * n - 1 = 4 * (n - 1) + 3" "4 * n - 16 + j = 4 * (n - 4) + j" for j using n by auto
  have prev: "load (?P @ ys) (4 * n - 4) = Some p0" "load (?P @ ys) (4 * n - 3) = Some p1"
    "load (?P @ ys) (4 * n - 2) = Some p2" "load (?P @ ys) (4 * n - 1) = Some p3" for ys
    unfolding i by (simp_all only: ld p, simp_all)
  have old: "load (?P @ ys) (4 * n - 16 + 0) = Some q0" "load (?P @ ys) (4 * n - 16 + 1) = Some q1"
    "load (?P @ ys) (4 * n - 16 + 2) = Some q2" "load (?P @ ys) (4 * n - 16 + 3) = Some q3" for ys
    unfolding i by (simp_all only: ld q, simp_all)
  have "4 * n - 13 = 4 * n - 16 + 3" using n by simp
  then have old3: "load (?P @ ys) (4 * n - 13) = Some q3" for ys by (simp only: old)
  have put: "store (?P @ y # ys) (4 * n + 0) v = Some (?P @ v # ys)"
    "store (?P @ y # z # ys) (4 * n + 1) v = Some (?P @ y # v # ys)"
    "store (?P @ y # z # x # ys) (4 * n + 2) v = Some (?P @ y # z # v # ys)"
    "store (?P @ y # z # x # u # ys) (4 * n + 3) v = Some (?P @ y # z # x # v # ys)" for y z x u v ys
    by (subst store_right [OF _ P]; simp)+
  have w: "words key (Suc n) = ?P @ KeyWord key n" by (simp add: words_def)
  show ?thesis
  proof (cases "n mod 4 = 0")
    case True
    then have "1 \<le> n div 4" "n div 4 \<le> 10" using n by auto
    note r = rcon_powers [OF this]
    show ?thesis
      unfolding expand_step_def aes_sizes w KeyWord.simps [of key n] using True n p q
      by (simp add: prev [simplified] old [simplified] old3 put [simplified] r SubBytes_def)
  next
    case False
    then show ?thesis
      unfolding expand_step_def aes_sizes w KeyWord.simps [of key n] using n p q
      by (simp add: prev [simplified] old [simplified] old3 put [simplified])
  qed
qed

lemma expand_loop_eq:
  assumes "length key = 16" and "4 \<le> n" and "n \<le> 44" and "length rest = 4 * (44 - n)"
  shows "expand_loop n (words key n @ rest @ tail) = Some (KeyExpansion key @ tail)"
  using assms(3,2,4)
proof (induction n arbitrary: rest rule: inc_induct)
  case base
  then show ?case by (simp add: expand_loop.simps aes_sizes words_def KeyExpansion_def)
next
  case (step n)
  then have "length (take 4 rest) = 4" by simp
  then obtain a b c d where "take 4 rest = [a, b, c, d]" by (rule bytes4)
  then have r: "rest = a # b # c # d # drop 4 rest" by (metis append_Cons append_Nil append_take_drop_id)
  have "expand_step n (words key n @ rest @ tail) = Some (words key (Suc n) @ drop 4 rest @ tail)"
    using expand_step_eq [OF assms(1), of n a b c d "drop 4 rest @ tail"] step by (subst r) simp
  then show ?case using step.IH [of "drop 4 rest"] step by (simp add: expand_loop.simps [of n] aes_sizes)
qed

lemma aes_expand_key_eq:
  assumes "16 \<le> length key" and "176 \<le> length buf"
  shows "aes_expand_key key buf = Some (KeyExpansion (take 16 key) @ drop 176 buf)"
proof -
  have k: "length (take 16 key) = 16" using assms(1) by simp
  have "words (take 16 key) 4 = take 16 key"
  proof -
    have "[0..<4] = [0, 1, 2, 3 :: nat]" by (simp add: upt_rec)
    then have "words (take 16 key) 4 = take 4 (take 16 key) @ take 4 (drop 4 (take 16 key)) @ take 4 (drop 8 (take 16 key)) @ take 4 (drop 12 (take 16 key))"
      by (simp add: words_def KeyWord.simps)
    then show ?thesis using k by (elim list16) simp
  qed
  moreover have "copy_bytes buf 0 key 0 16 = Some (take 16 key @ take 160 (drop 16 buf) @ drop 176 buf)"
  proof -
    have "drop 16 buf = take 160 (drop 16 buf) @ drop 160 (drop 16 buf)" by (rule append_take_drop_id [symmetric])
    then have "drop 16 buf = take 160 (drop 16 buf) @ drop 176 buf" by simp
    then show ?thesis using assms by (simp add: copy_bytes_def)
  qed
  ultimately show ?thesis
    using expand_loop_eq [OF k, of 4 "take 160 (drop 16 buf)" "drop 176 buf"] assms
    by (simp add: aes_expand_key_def aes_sizes)
qed

section \<open>Properties\<close>

text \<open>(lib/aes.c, tables). Every entry of the substitution table is the affine image of the multiplicative
  inverse of its index, \<open>inv_sbox\<close> undoes it, and the six product tables hold the products by 2 and 3 after
  substitution and by 9, 11, 13 and 14 in the field of FIPS 197.\<close>

theorem aes_tables_fips:
  "(\<exists>y. lookup sbox b = affine y \<and> (if b = 0 then y = 0 else gmul b y = 1)) \<and> lookup inv_sbox (lookup sbox b) = b
   \<and> lookup x2_sbox b = gmul 2 (lookup sbox b) \<and> lookup x3_sbox b = gmul 3 (lookup sbox b)
   \<and> lookup x_time_9 b = gmul 9 b \<and> lookup x_time_b b = gmul 0xb b \<and> lookup x_time_d b = gmul 0xd b \<and> lookup x_time_e b = gmul 0xe b"
proof -
  have "\<exists>y. lookup sbox b = affine y \<and> (if b = 0 then y = 0 else gmul b y = 1)"
    using lookup_sbox_spec [of b] unfolding sbox_ok_def by blast
  then show ?thesis by (simp add: gmul_consts lookup_mul)
qed

text \<open>C12 (lib/aes.c, \<open>aes_expand_key\<close>, \<open>aes_encrypt\<close>). Expanding a 16-byte key and encrypting a block with the
  result is AES-128 of FIPS 197; only the first 176 and 16 bytes of the two buffers are written.\<close>

theorem aes_encrypt_fips197:
  assumes "16 \<le> length key" and "176 \<le> length buf" and "length st = 16" and "16 \<le> length inp" and "16 \<le> length out"
  shows "\<exists>e. aes_expand_key key buf = Some e \<and> e = KeyExpansion (take 16 key) @ drop 176 buf
     \<and> aes_encrypt st inp e out = Some (Cipher e (take 16 inp) @ drop 16 out)"
proof -
  have "length (KeyExpansion (take 16 key)) = 176"
    using length_words [of "take 16 key" 44] assms(1) by (simp add: words_def KeyExpansion_def)
  then show ?thesis
    using aes_expand_key_eq [OF assms(1,2)] aes_encrypt_eq [OF assms(3,4) _ assms(5)] assms(2) by simp
qed

theorem aes_encrypt_fips197_witness:
  "\<exists>e. aes_expand_key (replicate 16 7) (replicate 176 1) = Some e \<and> e = KeyExpansion (take 16 (replicate 16 7)) @ drop 176 (replicate 176 1)
     \<and> aes_encrypt (replicate 16 9) (replicate 16 2) e (replicate 20 3)
       = Some (Cipher e (take 16 (replicate 16 2)) @ drop 16 (replicate 20 3))"
  by (rule aes_encrypt_fips197) simp_all

text \<open>C22 (lib/aes.c, \<open>aes_decrypt\<close>). With any key schedule of 176 bytes, decrypting what \<open>aes_encrypt\<close> wrote
  restores the block; neither call fails or leaves its buffers.\<close>

theorem aes_decrypt_inverts:
  assumes "length st = 16" and "length st' = 16" and "16 \<le> length inp" and "176 \<le> length expkey"
    and "16 \<le> length out" and "16 \<le> length out'"
  shows "do { c \<leftarrow> aes_encrypt st inp expkey out; aes_decrypt st' c expkey out' } = Some (take 16 inp @ drop 16 out')"
  using aes_encrypt_eq [OF assms(1,3,4,5)] aes_decrypt_eq [OF assms(2) _ assms(4,6), of "take 16 inp" "drop 16 out"] assms(3)
  by simp

theorem aes_decrypt_inverts_witness:
  "do { c \<leftarrow> aes_encrypt (replicate 16 0) (replicate 16 5) (replicate 176 1) (replicate 16 0);
        aes_decrypt (replicate 16 8) c (replicate 176 1) (replicate 16 0) } = Some (take 16 (replicate 16 5) @ drop 16 (replicate 16 0))"
  by (rule aes_decrypt_inverts) simp_all

end
