(* ===== verification/Crc_Proofs.thy ===== *)
theory Crc_Proofs
  imports Crc
begin

unbundle bit_operations_syntax

text \<open>
  The checksums are the shift registers of their polynomials, for any alignment and length, and what they detect.
\<close>

section \<open>Cyclic checksums\<close>

text \<open>The step for a byte loses nothing of the register, and the register after up to \<open>w\<close> bytes tells these bytes apart.\<close>

locale checksum =
  fixes step :: "byte \<Rightarrow> 's \<Rightarrow> 's" and w :: nat
  assumes register: "step x a = step x b \<Longrightarrow> a = b"
    and burst: "length e = length e' \<Longrightarrow> length e \<le> w \<Longrightarrow> fold step e a = fold step e' a \<Longrightarrow> e = e'"
begin

lemma fold_register: "fold step xs a = fold step xs b \<Longrightarrow> a = b"
  by (induction xs arbitrary: a b) (auto dest: register)

lemma burst_detected:
  assumes "length e = length e'" "length e \<le> w" "e \<noteq> e'"
  shows "fold step (xs @ e @ ys) a \<noteq> fold step (xs @ e' @ ys) a"
  using assms burst fold_register [of ys] by fastforce

end

section \<open>Tables of linear functions\<close>

text \<open>The table of a linear function doubles with every power of two.\<close>

definition doublings :: "'a :: len word list \<Rightarrow> 'a word list" where
  "doublings vs = fold (\<lambda>v t. t @ map ((XOR) v) t) vs [0]"

lemma of_nat_exp_add: "n < 2 ^ k \<Longrightarrow> (of_nat (2 ^ k + n) :: 'a :: len word) = of_nat (2 ^ k) XOR of_nat n"
proof -
  assume n: "n < 2 ^ k"
  have "\<not> bit n k" using n by (simp add: bit_iff_odd)
  then have "2 ^ k AND n = 0" by (simp add: and_exp_eq_0_iff_not_bit and.commute)
  then have "2 ^ k + n = 2 ^ k XOR n" by (rule disjunctive_add_eq_xor)
  then show ?thesis by (simp only: of_nat_xor_eq)
qed

lemma table_of_linear:
  fixes f :: "'a :: len word \<Rightarrow> 'b :: len word"
  assumes lin: "\<And>a b. f (a XOR b) = f a XOR f b"
  shows "map (\<lambda>n. f (of_nat n)) [0..<2 ^ k] = doublings (map (\<lambda>i. f (of_nat (2 ^ i))) [0..<k])"
proof (induction k)
  case 0
  have "f 0 = f 0 XOR f 0" using lin [of 0 0] by simp
  then show ?case by (simp add: doublings_def)
next
  case (Suc k)
  have "[0..<2 ^ Suc k] = [0..<2 ^ k] @ map (\<lambda>n. 2 ^ k + n) [0..<2 ^ k]"
    using upt_add_eq_append [of 0 "2 ^ k" "2 ^ k"] by (simp add: map_add_upt mult_2 add.commute)
  moreover have "map (\<lambda>n. f (of_nat (2 ^ k + n))) [0..<2 ^ k] = map ((XOR) (f (of_nat (2 ^ k)))) (map (\<lambda>n. f (of_nat n)) [0..<2 ^ k])"
    by (simp only: map_map o_def) (rule map_cong [OF refl], simp only: set_upt atLeastLessThan_iff of_nat_exp_add lin)
  ultimately show ?case using Suc by (simp add: doublings_def o_def)
qed

lemma upto_8: "[0..<8] = [0, 1, 2, 3, 4, 5, 6, 7]"
  by (simp add: upt_rec)

lemma list2_cases: "length xs = 2 \<Longrightarrow> \<exists>a b. xs = [a, b]"
  by (auto simp: numeral_2_eq_2 length_Suc_conv)

lemma list4_cases: "length xs = 4 \<Longrightarrow> \<exists>a b c d. xs = [a, b, c, d]"
  by (auto simp: numeral_eq_Suc length_Suc_conv)

lemma funpow_8: "(f ^^ 8) x = f (f (f (f (f (f (f (f x)))))))"
  by (simp add: numeral_eq_Suc)

section \<open>The CRC-32 register\<close>

lemma crc32_poly_value: "crc32_poly = 0xedb88320"
  by (simp add: crc32_poly_def)

lemma crc32_bit_alt: "crc32_bit c = drop_bit 1 c XOR (if odd c then crc32_poly else 0)"
  by (simp add: crc32_bit_def and_one_eq mod2_eq_if xor.commute)

lemma crc32_bit_linear: "crc32_bit (a XOR b) = crc32_bit a XOR crc32_bit b"
  unfolding crc32_bit_alt by (cases "odd a"; cases "odd b") (simp_all add: even_xor_iff drop_bit_xor ac_simps)

lemma crc32_bits_linear: "(crc32_bit ^^ n) (a XOR b) = (crc32_bit ^^ n) a XOR (crc32_bit ^^ n) b"
  by (induction n) (simp_all add: crc32_bit_linear)

lemma crc_table_register: "crc_table = make_crc_table"
proof -
  have "make_crc_table = map (\<lambda>n. (crc32_bit ^^ 8) (of_nat n)) [0..<2 ^ 8]" by (simp add: make_crc_table_def)
  also have "\<dots> = doublings (map (\<lambda>i. (crc32_bit ^^ 8) (of_nat (2 ^ i))) [0..<8])"
    by (rule table_of_linear) (rule crc32_bits_linear)
  also have "map (\<lambda>i. (crc32_bit ^^ 8) (of_nat (2 ^ i))) [0..<8] =
      [0x77073096, 0xee0e612c, 0x076dc419, 0x0edb8832, 0x1db71064, 0x3b6e20c8, 0x76dc4190, 0xedb88320]"
    by (simp add: upto_8 funpow_8 crc32_bit_def crc32_poly_value)
  finally show ?thesis by (simp add: doublings_def crc_table_def)
qed

text \<open>A register whose low bits are clear is shifted.\<close>

lemma crc32_bits_shift: "n \<le> 32 \<Longrightarrow> take_bit n c = 0 \<Longrightarrow> (crc32_bit ^^ n) c = drop_bit n c"
proof (induction n)
  case (Suc n)
  have low: "\<not> bit c i" if "i < Suc n" for i using Suc.prems(2) that by (metis bit_take_bit_iff bit_0_eq bot_apply bot_bool_def)
  have "take_bit n c = 0" by (rule bit_word_eqI) (use low in \<open>auto simp: bit_take_bit_iff\<close>)
  then have "(crc32_bit ^^ n) c = drop_bit n c" using Suc by simp
  moreover have "even (drop_bit n c)" using low [of n] by (simp add: even_drop_bit_iff_not_bit)
  ultimately show ?case using crc32_bit_alt [of "drop_bit n c"] by (simp add: drop_bit_drop_bit)
qed simp

lemma low_byte_less: "unat (c AND 255 :: 'a :: len word) < 256"
proof -
  have "c AND 255 = take_bit 8 c" by (simp add: take_bit_eq_mask mask_eq_exp_minus_1)
  then have "unat (c AND 255) = take_bit 8 (unat c)" by (simp add: unsigned_take_bit_eq)
  then show ?thesis using take_bit_nat_less_exp [of 8 "unat c"] by simp
qed

lemma do_crc_register: "do_crc x crc = (crc32_bit ^^ 8) (crc XOR ucast x)"
proof -
  define c where "c = crc XOR ucast x"
  have hi: "drop_bit 8 crc = drop_bit 8 c"
    unfolding c_def by (rule bit_word_eqI) (auto simp: bit_simps dest: bit_imp_le_length)
  have split: "c = (c AND 255) XOR (c AND NOT 255)" by (rule bit_word_eqI) (auto simp: bit_simps)
  have m: "(255 :: u32) = mask 8" by (simp add: mask_eq_exp_minus_1)
  have "take_bit 8 (c AND NOT 255) = 0" unfolding m by (rule bit_word_eqI) (auto simp: bit_simps)
  then have up: "(crc32_bit ^^ 8) (c AND NOT 255) = drop_bit 8 (c AND NOT 255)" by (intro crc32_bits_shift) simp_all
  have "drop_bit 8 (c AND NOT 255) = drop_bit 8 c" unfolding m by (rule bit_word_eqI) (auto simp: bit_simps dest: bit_imp_le_length)
  moreover have "crc_table ! unat (c AND 255) = (crc32_bit ^^ 8) (c AND 255)"
    unfolding crc_table_register make_crc_table_def by (subst nth_map) (simp_all add: low_byte_less)
  ultimately have "do_crc x crc = (crc32_bit ^^ 8) ((c AND 255) XOR (c AND NOT 255))"
    using up hi by (simp add: do_crc_def c_def [symmetric] crc32_bits_linear del: funpow.simps)
  then show ?thesis using split c_def by simp
qed

text \<open>Four bytes at once.\<close>

lemma do_crc_word:
  "do_crc 0 (do_crc 0 (do_crc 0 (do_crc 0 (crc XOR le32 b0 b1 b2 b3)))) = do_crc b3 (do_crc b2 (do_crc b1 (do_crc b0 crc)))"
proof -
  let ?F = "crc32_bit ^^ 8"
  have sh: "?F (push_bit (8 + n) (ucast (b :: byte))) = push_bit n (ucast b)" if "n \<le> 16" for n b
  proof -
    have "take_bit 8 (push_bit (8 + n) (ucast b) :: u32) = 0" by (rule bit_word_eqI) (auto simp: bit_simps)
    moreover have "drop_bit 8 (push_bit (8 + n) (ucast b) :: u32) = push_bit n (ucast b)"
      by (rule bit_word_eqI) (use that in \<open>auto simp: bit_simps dest: bit_imp_le_length\<close>)
    ultimately show ?thesis using crc32_bits_shift [of 8 "push_bit (8 + n) (ucast b)"] by simp
  qed
  have w: "le32 b0 b1 b2 b3 = ucast b0 XOR push_bit 8 (ucast b1) XOR push_bit 16 (ucast b2) XOR push_bit 24 (ucast b3)"
    unfolding le32_def by (rule bit_word_eqI) (auto simp: bit_simps dest: bit_imp_le_length)
  show ?thesis
    unfolding do_crc_register w
    using sh [of 0 b1] sh [of 8 b2] sh [of 0 b2] sh [of 16 b3] sh [of 8 b3] sh [of 0 b3]
    by (simp add: crc32_bits_linear xor.assoc del: funpow.simps)
qed

lemma xor_eq_zero: "a XOR b = 0 \<longleftrightarrow> a = (b :: 'a :: len word)"
proof
  assume "a XOR b = 0"
  then have "(a XOR b) XOR b = b" by simp
  then show "a = b" by (simp add: xor.assoc)
qed simp

lemma xor_cancel: "a XOR c = b XOR c \<longleftrightarrow> a = (b :: 'a :: len word)" "c XOR a = c XOR b \<longleftrightarrow> a = (b :: 'a :: len word)"
proof -
  have "(a XOR c) XOR (b XOR c) = a XOR b" by (rule bit_word_eqI) (auto simp: bit_simps)
  then show "a XOR c = b XOR c \<longleftrightarrow> a = b" by (metis xor_eq_zero)
  then show "c XOR a = c XOR b \<longleftrightarrow> a = b" by (simp only: xor.commute)
qed

lemma crc32_bit_inj: "crc32_bit a = crc32_bit b \<Longrightarrow> a = b"
proof -
  assume "crc32_bit a = crc32_bit b"
  then have z: "crc32_bit (a XOR b) = 0" by (simp add: crc32_bit_linear)
  have "even (a XOR b)"
  proof (rule ccontr)
    assume "odd (a XOR b)"
    then have "drop_bit 1 (a XOR b) XOR crc32_poly = 0" using z unfolding crc32_bit_alt by simp
    then have "drop_bit 1 (a XOR b) = crc32_poly" by (simp only: xor_eq_zero)
    then have "bit (drop_bit 1 (a XOR b)) 31" unfolding crc32_poly_value by simp
    then have "bit (a XOR b) 32" by (simp only: bit_drop_bit_eq o_def) simp
    then show False using bit_imp_le_length by fastforce
  qed
  then have "drop_bit 1 (a XOR b) = 0" "\<not> bit (a XOR b) 0" using z unfolding crc32_bit_alt by (simp_all add: bit_0)
  then have "\<not> bit (a XOR b) i" for i
    using bit_drop_bit_eq [of 1 "a XOR b"] by (cases i) (auto simp: fun_eq_iff)
  then have "a XOR b = 0" by (intro bit_word_eqI) simp
  then show ?thesis by (simp only: xor_eq_zero)
qed

lemma crc32_bits_inj: "(crc32_bit ^^ n) a = (crc32_bit ^^ n) b \<Longrightarrow> a = b"
  by (induction n) (auto dest: crc32_bit_inj)

lemma do_crc_inj: "do_crc x a = do_crc x b \<Longrightarrow> a = b"
  using crc32_bits_inj [of 8 "a XOR ucast x" "b XOR ucast x"] unfolding do_crc_register by (simp only: xor_cancel)

interpretation crc32_code: checksum do_crc 4
proof
  fix x a b assume "do_crc x a = do_crc x b"
  then show "a = b" by (rule do_crc_inj)
next
  fix e e' :: mem and a
  assume len: "length e = length e'" "length e \<le> 4" and eq: "fold do_crc e a = fold do_crc e' a"
  define z :: mem where "z = replicate (4 - length e) 0"
  have z: "length z = 4 - length e" by (simp add: z_def)
  have l: "length (e @ z) = 4" "length (e' @ z) = 4" using z len by simp_all
  obtain b0 b1 b2 b3 where b: "e @ z = [b0, b1, b2, b3]" using list4_cases [OF l(1)] by blast
  obtain c0 c1 c2 c3 where c: "e' @ z = [c0, c1, c2, c3]" using list4_cases [OF l(2)] by blast
  have "fold do_crc (e @ z) a = fold do_crc (e' @ z) a" using eq by simp
  then have "do_crc 0 (do_crc 0 (do_crc 0 (do_crc 0 (a XOR le32 b0 b1 b2 b3)))) = do_crc 0 (do_crc 0 (do_crc 0 (do_crc 0 (a XOR le32 c0 c1 c2 c3))))"
    unfolding b c by (simp add: do_crc_word)
  then have "le32 b0 b1 b2 b3 = le32 c0 c1 c2 c3" by (auto dest!: do_crc_inj simp: xor_cancel)
  then have "[b0, b1, b2, b3] = [c0, c1, c2, c3]" by (metis le32_bytes)
  then show "e = e'" using b c len(1) by (metis append_eq_append_conv)
qed

section \<open>The loops of CRC-32\<close>

lemma crc32_bytes_fold: "p + n \<le> length m \<Longrightarrow> crc32_bytes m p n crc = Some (fold do_crc (take n (drop p m)) crc)"
proof (induction n arbitrary: p crc)
  case (Suc n)
  then have "drop p m = m ! p # drop (p + 1) m" by (simp add: Cons_nth_drop_Suc)
  then show ?case using Suc by (simp add: load_Some)
qed simp

lemma crc32_words_fold:
  "b + 4 * n \<le> length m \<Longrightarrow> crc32_words m b n crc = Some (b + 4 * n, fold do_crc (take (4 * n) (drop b m)) crc)"
proof (induction n arbitrary: b crc)
  case (Suc n)
  have t: "take (4 * Suc n) (drop b m) = take 4 (drop b m) @ take (4 * n) (drop (b + 4) m)"
    using take_add [of 4 "4 * n" "drop b m"] by (simp add: add.commute)
  have l: "load32 m b = Some (le32 (m ! b) (m ! (b + 1)) (m ! (b + 2)) (m ! (b + 3)))"
    using Suc.prems by (simp add: load32_def load_Some)
  show ?case
    using Suc.prems Suc.IH [of "b + 4"] take4_drop [of b m] unfolding t by (simp add: l do_crc_word)
qed simp

lemma crc32_align_fold:
  "p + n \<le> length m \<Longrightarrow> \<exists>k\<le>n. crc32_align m p n crc = Some (p + k, n - k, fold do_crc (take k (drop p m)) crc)"
proof (induction n arbitrary: p crc)
  case (Suc n)
  show ?case
  proof (cases "p mod 4 = 0")
    case True
    then show ?thesis by (intro exI [of _ 0]) simp
  next
    case False
    have d: "drop p m = m ! p # drop (p + 1) m" using Suc.prems by (simp add: Cons_nth_drop_Suc)
    obtain k where "k \<le> n" "crc32_align m (p + 1) n (do_crc (m ! p) crc) = Some (p + 1 + k, n - k, fold do_crc (take k (drop (p + 1) m)) (do_crc (m ! p) crc))"
      using Suc.IH [of "p + 1" "do_crc (m ! p) crc"] Suc.prems by auto
    then show ?thesis using False d Suc.prems by (intro exI [of _ "Suc k"]) (simp add: load_Some)
  qed
qed simp

lemma take_drop_3:
  "take (k + c + r) (drop b m) = take k (drop b m) @ take c (drop (b + k) m) @ take r (drop (b + k + c) m)"
proof -
  have "take (k + c + r) (drop b m) = take k (drop b m) @ take c (drop k (drop b m)) @ take r (drop (k + c) (drop b m))"
    by (simp only: take_add append_assoc)
  then show ?thesis by (simp add: ac_simps)
qed

lemma crc32_no_comp_fold:
  assumes "buf + len \<le> length m"
  shows "crc32_no_comp crc m buf len = Some (fold do_crc (take len (drop buf m)) crc)"
proof -
  obtain k where k: "k \<le> len" "crc32_align m buf len crc = Some (buf + k, len - k, fold do_crc (take k (drop buf m)) crc)"
    using crc32_align_fold [OF assms] by blast
  let ?q = "(len - k) div 4" and ?r = "(len - k) mod 4"
  have n: "len = k + 4 * ?q + ?r" using k(1) by simp
  have t: "take len (drop buf m) = take k (drop buf m) @ take (4 * ?q) (drop (buf + k) m) @ take ?r (drop (buf + k + 4 * ?q) m)"
    using take_drop_3 [of k "4 * ?q" ?r buf m] n by simp
  show ?thesis
    using k assms n crc32_words_fold [of "buf + k" ?q m "fold do_crc (take k (drop buf m)) crc"]
      crc32_bytes_fold [of "buf + k + 4 * ?q" ?r m] unfolding t by (simp add: crc32_no_comp_def)
qed

lemma crc32_fold:
  "p + len \<le> length m \<Longrightarrow> crc32 crc m p len = Some (fold do_crc (take len (drop p m)) (crc XOR 0xffffffff) XOR 0xffffffff)"
  by (simp add: crc32_def crc32_no_comp_fold)

lemma crc32_chunks_fold:
  assumes "0 < sz" and "stop \<le> length m" and "p \<le> stop"
  shows "crc32_chunks crc m p stop sz = Some (fold do_crc (take (stop - p) (drop p m)) (crc XOR 0xffffffff) XOR 0xffffffff)"
  using assms(3)
proof (induction "stop - p" arbitrary: p crc rule: less_induct)
  case less
  show ?case
  proof (cases "p < stop")
    case True
    define k where "k = (if stop - p > sz then sz else stop - p)"
    define c where "c = fold do_crc (take k (drop p m)) (crc XOR 0xffffffff) XOR 0xffffffff"
    have k: "0 < k" "p + k \<le> stop" using True assms(1) by (auto simp: k_def)
    have "crc32 crc m p k = Some c" using k assms(2) by (simp add: crc32_fold c_def)
    moreover have "crc32_chunks c m (p + k) stop sz = Some (fold do_crc (take (stop - (p + k)) (drop (p + k) m)) (c XOR 0xffffffff) XOR 0xffffffff)"
      by (rule less.hyps) (use k True in auto)
    moreover have "take (stop - p) (drop p m) = take k (drop p m) @ take (stop - (p + k)) (drop (p + k) m)"
      using take_add [of k "stop - (p + k)" "drop p m"] k by (simp add: add.commute)
    moreover have "c XOR 0xffffffff = fold do_crc (take k (drop p m)) (crc XOR 0xffffffff)" by (simp add: c_def xor.assoc)
    ultimately show ?thesis
      using True crc32_chunks.simps [of crc m p stop sz] by (simp add: k_def [symmetric])
  next
    case False
    then show ?thesis using less.prems crc32_chunks.simps [of crc m p stop sz] by (simp add: xor.assoc)
  qed
qed

section \<open>The CRC-16 register\<close>

text \<open>The polynomial \<open>x^16 + x^12 + x^5 + 1\<close>, most significant bit first.\<close>

definition crc16_bit :: "u16 \<Rightarrow> u16" where
  "crc16_bit c = push_bit 1 c XOR (if bit c 15 then 0x1021 else 0)"

lemma crc16_bit_linear: "crc16_bit (a XOR b) = crc16_bit a XOR crc16_bit b"
  by (cases "bit a 15"; cases "bit b 15") (simp_all add: crc16_bit_def bit_xor_iff push_bit_xor ac_simps)

lemma crc16_bits_linear: "(crc16_bit ^^ n) (a XOR b) = (crc16_bit ^^ n) a XOR (crc16_bit ^^ n) b"
  by (induction n) (simp_all add: crc16_bit_linear)

lemma crc16_tab_register: "crc16_tab = map (\<lambda>n. (crc16_bit ^^ 8) (push_bit 8 (of_nat n))) [0..<256]"
proof -
  have "map (\<lambda>n. (crc16_bit ^^ 8) (push_bit 8 (of_nat n))) [0..<2 ^ 8] = doublings (map (\<lambda>i. (crc16_bit ^^ 8) (push_bit 8 (of_nat (2 ^ i)))) [0..<8])"
    by (rule table_of_linear [where f = "\<lambda>c. (crc16_bit ^^ 8) (push_bit 8 c)"]) (simp only: push_bit_xor crc16_bits_linear)
  also have "map (\<lambda>i. (crc16_bit ^^ 8) (push_bit 8 (of_nat (2 ^ i)))) [0..<8] =
      [0x1021, 0x2042, 0x4084, 0x8108, 0x1231, 0x2462, 0x48c4, 0x9188]"
    by (simp add: upto_8 funpow_8 crc16_bit_def)
  finally have "map (\<lambda>n. (crc16_bit ^^ 8) (push_bit 8 (of_nat n))) [0..<256] = doublings [0x1021, 0x2042, 0x4084, 0x8108, 0x1231, 0x2462, 0x48c4, 0x9188]"
    by simp
  then show ?thesis by (simp only:) (simp add: doublings_def crc16_tab_def)
qed

lemma crc16_bit_inj: "crc16_bit a = crc16_bit b \<Longrightarrow> a = b"
proof -
  assume "crc16_bit a = crc16_bit b"
  then have z: "crc16_bit (a XOR b) = 0" by (simp add: crc16_bit_linear)
  have nb: "\<not> bit (a XOR b) 15"
  proof
    assume "bit (a XOR b) 15"
    then have "push_bit 1 (a XOR b) XOR 0x1021 = 0" using z unfolding crc16_bit_def by simp
    then have "push_bit 1 (a XOR b) = (0x1021 :: u16)" by (simp only: xor_eq_zero)
    then have "bit (push_bit 1 (a XOR b)) 0 = bit (0x1021 :: u16) 0" by (rule arg_cong)
    then show False unfolding bit_push_bit_iff by simp
  qed
  then have "push_bit 1 (a XOR b) = 0" using z unfolding crc16_bit_def by simp
  then have pb: "\<not> bit (push_bit 1 (a XOR b)) (Suc i)" for i by (simp only: bit_0_eq bot_apply) simp
  have "\<not> bit (a XOR b) i" for i
  proof (cases "i < 15")
    case True
    then show ?thesis using pb [of i] unfolding bit_push_bit_iff by simp
  next
    case False
    then show ?thesis using nb bit_imp_le_length [of "a XOR b" i] by (cases "i = 15") auto
  qed
  then have "a XOR b = 0" by (intro bit_word_eqI) simp
  then show ?thesis by (simp only: xor_eq_zero)
qed

lemma crc16_bits_inj: "(crc16_bit ^^ n) a = (crc16_bit ^^ n) b \<Longrightarrow> a = b"
  by (induction n) (auto dest: crc16_bit_inj)

lemma crc16_bits_shift: "n \<le> 8 \<Longrightarrow> drop_bit 8 c = 0 \<Longrightarrow> (crc16_bit ^^ n) c = push_bit n c"
proof (induction n)
  case (Suc n)
  have "\<not> bit c (15 - n)"
  proof -
    have "bit (drop_bit 8 c) (7 - n) = bit c (15 - n)" using Suc.prems(1) by (simp add: bit_drop_bit_eq)
    then show ?thesis using Suc.prems(2) by simp
  qed
  then have "\<not> bit (push_bit n c) 15" using Suc.prems(1) by (simp add: bit_push_bit_iff)
  then have "crc16_bit (push_bit n c) = push_bit 1 (push_bit n c)" by (simp only: crc16_bit_def if_False xor.right_neutral)
  also have "\<dots> = push_bit (Suc n) c" by (simp only: push_bit_push_bit) simp
  finally show ?case using Suc by simp
qed simp

lemma crc16_byte_register: "crc16_byte x c = (crc16_bit ^^ 8) (c XOR push_bit 8 (ucast x))"
proof -
  define d where "d = drop_bit 8 c XOR ucast x"
  have m: "(0xff :: u16) = mask 8" by (simp add: mask_eq_exp_minus_1)
  have dm: "d AND 0xff = d" unfolding d_def m by (rule bit_word_eqI) (auto simp: bit_simps dest: bit_imp_le_length)
  have split: "c XOR push_bit 8 (ucast x) = push_bit 8 d XOR (c AND 0xff)"
    unfolding d_def m by (rule bit_word_eqI) (auto simp: bit_simps dest: bit_imp_le_length)
  have "drop_bit 8 (c AND 0xff) = 0" unfolding m by (rule bit_word_eqI) (auto simp: bit_simps)
  then have lo: "(crc16_bit ^^ 8) (c AND 0xff) = push_bit 8 (c AND 0xff)" by (intro crc16_bits_shift) simp_all
  have "push_bit 8 (c AND 0xff) = push_bit 8 c" unfolding m by (rule bit_word_eqI) (auto simp: bit_simps)
  moreover have "crc16_tab ! unat d = (crc16_bit ^^ 8) (push_bit 8 d)"
  proof -
    have "unat d < 256" using low_byte_less [of d] unfolding dm .
    then show ?thesis unfolding crc16_tab_register by (subst nth_map) simp_all
  qed
  ultimately show ?thesis
    unfolding split using lo dm by (simp add: crc16_byte_def d_def [symmetric] crc16_bits_linear del: funpow.simps)
qed

lemma crc16_byte_inj: "crc16_byte x a = crc16_byte x b \<Longrightarrow> a = b"
  using crc16_bits_inj [of 8 "a XOR push_bit 8 (ucast x)" "b XOR push_bit 8 (ucast x)"]
  unfolding crc16_byte_register by (simp only: xor_cancel)

text \<open>Two bytes at once.\<close>

lemma crc16_two:
  "crc16_byte x1 (crc16_byte x0 a) = (crc16_bit ^^ 8) ((crc16_bit ^^ 8) (a XOR (push_bit 8 (ucast x0) XOR ucast x1)))"
proof -
  have "drop_bit 8 (ucast x1 :: u16) = 0" by (rule bit_word_eqI) (auto simp: bit_simps dest: bit_imp_le_length)
  then have "(crc16_bit ^^ 8) (ucast x1) = push_bit 8 (ucast x1)" by (intro crc16_bits_shift) simp_all
  then show ?thesis unfolding crc16_byte_register by (simp add: crc16_bits_linear xor.assoc del: funpow.simps)
qed

lemma two_bytes_inj:
  fixes x0 x1 y0 y1 :: byte
  shows "push_bit 8 (ucast x0) XOR ucast x1 = (push_bit 8 (ucast y0) XOR ucast y1 :: u16) \<Longrightarrow> x0 = y0 \<and> x1 = y1"
proof -
  assume e: "push_bit 8 (ucast x0) XOR ucast x1 = (push_bit 8 (ucast y0) XOR ucast y1 :: u16)"
  have f: "ucast (push_bit 8 (ucast a) XOR ucast b :: u16) = (b :: byte)" "ucast (drop_bit 8 (push_bit 8 (ucast a) XOR ucast b :: u16)) = (a :: byte)" for a b
    by (rule bit_word_eqI; auto simp: bit_simps dest: bit_imp_le_length)+
  show ?thesis using f [of x0 x1] f [of y0 y1] unfolding e by simp
qed

interpretation crc16_code: checksum crc16_byte 2
proof
  fix x a b assume "crc16_byte x a = crc16_byte x b"
  then show "a = b" by (rule crc16_byte_inj)
next
  fix e e' :: mem and a
  assume len: "length e = length e'" "length e \<le> 2" and eq: "fold crc16_byte e a = fold crc16_byte e' a"
  define z :: mem where "z = replicate (2 - length e) 0"
  have l: "length (e @ z) = 2" "length (e' @ z) = 2" using len by (simp_all add: z_def)
  obtain b0 b1 where b: "e @ z = [b0, b1]" using list2_cases [OF l(1)] by blast
  obtain c0 c1 where c: "e' @ z = [c0, c1]" using list2_cases [OF l(2)] by blast
  have "fold crc16_byte (e @ z) a = fold crc16_byte (e' @ z) a" using eq by simp
  then have "crc16_byte b1 (crc16_byte b0 a) = crc16_byte c1 (crc16_byte c0 a)" unfolding b c by simp
  then have "push_bit 8 (ucast b0) XOR ucast b1 = (push_bit 8 (ucast c0) XOR ucast c1 :: u16)"
    unfolding crc16_two using crc16_bits_inj xor_cancel by metis
  then have "[b0, b1] = [c0, c1]" using two_bytes_inj by simp
  then show "e = e'" using b c len(1) by (metis append_eq_append_conv)
qed

lemma foldM_bytes:
  assumes "buf + n \<le> length m" and "I c" and "\<And>x c. I c \<Longrightarrow> g x c = Some (f x c) \<and> I (f x c)"
  shows "foldM (\<lambda>i c. do { x \<leftarrow> load m (buf + i); g x c }) [0..<n] c = Some (fold f (take n (drop buf m)) c) \<and> I (fold f (take n (drop buf m)) c)"
  using assms(1)
proof (induction n)
  case (Suc n)
  have "take (Suc n) (drop buf m) = take n (drop buf m) @ [m ! (buf + n)]" using Suc.prems by (simp add: take_Suc_conv_app_nth)
  then show ?case using Suc assms(3) [of "fold f (take n (drop buf m)) c" "m ! (buf + n)"] by (simp add: foldM_append load_Some)
qed (simp add: assms(2))

section \<open>The CRC-7 register\<close>

text \<open>The polynomial \<open>x^7 + x^3 + 1\<close>, in the upper seven bits of a byte.\<close>

definition crc7_bit :: "byte \<Rightarrow> byte" where
  "crc7_bit c = push_bit 1 c XOR (if bit c 7 then 0x12 else 0)"

definition crc7_step :: "byte \<Rightarrow> byte \<Rightarrow> byte" where
  "crc7_step x crc = drop_bit 1 ((crc7_bit ^^ 8) (push_bit 1 crc XOR x))"

lemma crc7_bits_linear: "(crc7_bit ^^ n) (a XOR b) = (crc7_bit ^^ n) a XOR (crc7_bit ^^ n) b"
proof (induction n)
  case (Suc n)
  have "crc7_bit (a XOR b) = crc7_bit a XOR crc7_bit b" for a b
    by (cases "bit a 7"; cases "bit b 7") (simp_all add: crc7_bit_def bit_xor_iff push_bit_xor ac_simps)
  then show ?case using Suc by simp
qed simp

lemma crc7_table_register: "crc7_syndrome_table = map (\<lambda>n. drop_bit 1 ((crc7_bit ^^ 8) (of_nat n))) [0..<256]"
proof -
  have "map (\<lambda>n. drop_bit 1 ((crc7_bit ^^ 8) (of_nat n))) [0..<2 ^ 8] = doublings (map (\<lambda>i. drop_bit 1 ((crc7_bit ^^ 8) (of_nat (2 ^ i)))) [0..<8])"
    by (rule table_of_linear [where f = "\<lambda>c. drop_bit 1 ((crc7_bit ^^ 8) c)"]) (simp only: drop_bit_xor crc7_bits_linear)
  also have "map (\<lambda>i. drop_bit 1 ((crc7_bit ^^ 8) (of_nat (2 ^ i)))) [0..<8] = [0x09, 0x12, 0x24, 0x48, 0x19, 0x32, 0x64, 0x41]"
    by (simp add: upto_8 funpow_8 crc7_bit_def)
  finally have "map (\<lambda>n. drop_bit 1 ((crc7_bit ^^ 8) (of_nat n))) [0..<256] = doublings [0x09, 0x12, 0x24, 0x48, 0x19, 0x32, 0x64, 0x41]"
    by simp
  then show ?thesis by (simp only:) (simp add: doublings_def crc7_syndrome_table_def)
qed

lemma crc7_index: "(crc :: byte) < 128 \<Longrightarrow> unat (push_bit 1 (ucast crc) XOR ucast x :: u32) = unat (push_bit 1 crc XOR (x :: byte))"
proof -
  assume "crc < 128"
  then have "unat crc < 128" by (simp add: word_less_nat_alt)
  then have "\<not> bit (unat crc) 7" by (simp add: bit_iff_odd)
  then have nb: "\<not> bit crc 7" by (simp add: bit_unsigned_iff)
  have "(push_bit 1 (ucast crc) XOR ucast x :: u32) = ucast (push_bit 1 crc XOR x)"
  proof (rule bit_word_eqI)
    fix n
    have "bit crc (n - 1) \<Longrightarrow> n - 1 < 7" using bit_imp_le_length [of crc "n - 1"] nb by (cases "n - 1 = 7") auto
    then show "bit (push_bit 1 (ucast crc) XOR ucast x :: u32) n = bit (ucast (push_bit 1 crc XOR x) :: u32) n" if "n < LENGTH(32)"
      using that bit_imp_le_length [of x n] unfolding bit_unsigned_iff bit_xor_iff bit_push_bit_iff by auto
  qed
  moreover have "take_bit 32 (unat v) = unat v" for v :: byte
    by (rule take_bit_nat_eq_self) (rule less_trans [OF unat_lt_u8], simp)
  ultimately show ?thesis by (simp add: unsigned_ucast_eq)
qed

lemma crc7_byte_step: "crc < 128 \<Longrightarrow> crc7_byte crc x = Some (crc7_step x crc) \<and> crc7_step x crc < 128"
proof
  assume "crc < 128"
  note ix = crc7_index [OF this, of x]
  have "unat (push_bit 1 crc XOR x) < 256" by simp
  then show "crc7_byte crc x = Some (crc7_step x crc)"
    unfolding crc7_byte_def ix crc7_table_register by (simp add: load_Some crc7_step_def del: funpow.simps)
  show "crc7_step x crc < 128"
  proof -
    define c where "c = (crc7_bit ^^ 8) (push_bit 1 crc XOR x)"
    have "unat (drop_bit 1 c) = unat c div 2" unfolding unat_drop_bit_eq unfolding drop_bit_eq_div by simp
    moreover have "unat c < 256" by simp
    ultimately have "unat (drop_bit 1 c) < 128" by linarith
    then show ?thesis unfolding crc7_step_def c_def [symmetric] by (simp add: word_less_nat_alt)
  qed
qed

section \<open>Theorems\<close>

definition crc32_serial :: "u32 \<Rightarrow> mem \<Rightarrow> u32" where
  "crc32_serial crc xs = fold (\<lambda>x c. (crc32_bit ^^ 8) (c XOR ucast x)) xs (crc XOR 0xffffffff) XOR 0xffffffff"

lemma crc32_serial_fold: "crc32_serial crc xs = fold do_crc xs (crc XOR 0xffffffff) XOR 0xffffffff"
proof -
  have "do_crc = (\<lambda>x c. (crc32_bit ^^ 8) (c XOR ucast x))" by (intro ext) (rule do_crc_register)
  then show ?thesis by (simp only: crc32_serial_def)
qed

text \<open>C13 (lib/crc32.c). For every address, alignment and length inside the memory, \<open>crc32\<close>, which takes bytes up to a
  word boundary, then words, then the remaining bytes through a table, is the shift register of the polynomial
  0xedb88320 fed bit by bit, and so is \<open>crc32_wd\<close> with or without a watchdog for every positive chunk size.\<close>

theorem crc32_is_serial:
  assumes "buf + len \<le> length m" and "0 < chunk_sz"
  shows "crc32 crc m buf len = Some (crc32_serial crc (take len (drop buf m)))
    \<and> crc32_wd watchdog crc m buf len chunk_sz = Some (crc32_serial crc (take len (drop buf m)))"
  using assms crc32_chunks_fold [of chunk_sz "buf + len" m buf crc] by (simp add: crc32_serial_fold crc32_fold crc32_wd_def)

theorem crc32_is_serial_witness:
  "crc32 0 [1, 2, 3, 4, 5, 6, 7, 8, 9, 10] 1 8 = Some (crc32_serial 0 (take 8 (drop 1 [1, 2, 3, 4, 5, 6, 7, 8, 9, 10])))
   \<and> crc32_wd True 0 [1, 2, 3, 4, 5, 6, 7, 8, 9, 10] 1 8 3 = Some (crc32_serial 0 (take 8 (drop 1 [1, 2, 3, 4, 5, 6, 7, 8, 9, 10])))"
  by (rule crc32_is_serial) simp_all

text \<open>C39 (lib/crc32.c). Two buffers of the same length that differ only within four consecutive bytes have different
  checksums.\<close>

theorem crc32_detects_burst:
  assumes "length e = length e'" and "length e \<le> 4" and "e \<noteq> e'"
  shows "crc32 crc (xs @ e @ ys) 0 (length (xs @ e @ ys)) \<noteq> crc32 crc (xs @ e' @ ys) 0 (length (xs @ e' @ ys))"
  using crc32_code.burst_detected [OF assms, of xs ys "crc XOR 0xffffffff"] by (simp add: crc32_fold xor_cancel)

theorem crc32_detects_burst_witness:
  "crc32 0 ([1, 2] @ [3, 4, 5, 6] @ [7]) 0 (length ([1, 2] @ [3, 4, 5, 6] @ [7 :: byte]))
     \<noteq> crc32 0 ([1, 2] @ [0, 4, 5, 9] @ [7]) 0 (length ([1, 2] @ [0, 4, 5, 9] @ [7 :: byte]))"
  by (rule crc32_detects_burst) simp_all

text \<open>(lib/crc16.c). \<open>cyg_crc16\<close> is the shift register of \<open>x^16 + x^12 + x^5 + 1\<close>, and a change within two
  consecutive bytes changes it; a negative length gives 0.\<close>

theorem crc16_is_serial:
  assumes "buf + nat len \<le> length m" and "length e = length e'" and "length e \<le> 2" and "e \<noteq> e'"
  shows "cyg_crc16 m buf len = Some (fold (\<lambda>x c. (crc16_bit ^^ 8) (c XOR push_bit 8 (ucast x))) (take (nat len) (drop buf m)) 0)
    \<and> cyg_crc16 (xs @ e @ ys) 0 (int (length (xs @ e @ ys))) \<noteq> cyg_crc16 (xs @ e' @ ys) 0 (int (length (xs @ e' @ ys)))"
proof
  have r: "crc16_byte = (\<lambda>x c. (crc16_bit ^^ 8) (c XOR push_bit 8 (ucast x)))" by (intro ext) (rule crc16_byte_register)
  have f: "cyg_crc16 m buf len = Some (fold crc16_byte (take (nat len) (drop buf m)) 0)" if "buf + nat len \<le> length m" for m buf len
    using foldM_bytes [of buf "nat len" m "\<lambda>_. True" 0 "\<lambda>x c. Some (crc16_byte x c)" crc16_byte] that by (simp add: cyg_crc16_def)
  show "cyg_crc16 m buf len = Some (fold (\<lambda>x c. (crc16_bit ^^ 8) (c XOR push_bit 8 (ucast x))) (take (nat len) (drop buf m)) 0)"
    using f [OF assms(1)] unfolding r .
  show "cyg_crc16 (xs @ e @ ys) 0 (int (length (xs @ e @ ys))) \<noteq> cyg_crc16 (xs @ e' @ ys) 0 (int (length (xs @ e' @ ys)))"
    using crc16_code.burst_detected [OF assms(2-4), of xs ys 0] by (simp add: f)
qed

theorem crc16_is_serial_witness:
  "cyg_crc16 [1, 2, 3] 1 2 = Some (fold (\<lambda>x c. (crc16_bit ^^ 8) (c XOR push_bit 8 (ucast x))) (take (nat 2) (drop 1 [1, 2, 3 :: byte])) 0)
   \<and> cyg_crc16 ([1] @ [2, 3] @ []) 0 (int (length ([1] @ [2, 3] @ [] :: mem))) \<noteq> cyg_crc16 ([1] @ [2, 4] @ []) 0 (int (length ([1] @ [2, 4] @ [] :: mem)))"
  by (rule crc16_is_serial) simp_all

text \<open>(lib/crc7.c). For a start value of seven bits, \<open>crc7\<close> stays inside its table, is the shift register of
  \<open>x^7 + x^3 + 1\<close> and returns seven bits; from a start value with the upper bit set the first byte is looked up behind
  the end of the table.\<close>

theorem crc7_in_table:
  assumes "buf + len \<le> length m" and "0 < len"
  shows "if crc < 128
    then crc7 crc m buf len = Some (fold crc7_step (take len (drop buf m)) crc) \<and> fold crc7_step (take len (drop buf m)) crc < 128
    else crc7 crc m buf len = None"
proof -
  have low: "crc7 crc m buf len = Some (fold crc7_step (take len (drop buf m)) crc) \<and> fold crc7_step (take len (drop buf m)) crc < 128" if "crc < 128"
    unfolding crc7_def
    using foldM_bytes [OF assms(1), where I = "\<lambda>c. c < 128" and c = crc and g = "\<lambda>x c. crc7_byte c x" and f = crc7_step] crc7_byte_step that by blast
  have high: "crc7 crc m buf len = None" if c: "128 \<le> crc"
  proof -
    have "128 \<le> unat crc" using c by (simp add: word_le_nat_alt)
    moreover have "unat crc < 256" by simp
    ultimately have "unat crc div 128 = 1" by linarith
    then have "bit (unat crc) 7" by (simp add: bit_iff_odd)
    then have b7: "bit crc 7" by (simp add: bit_unsigned_iff)
    have "\<not> unat (push_bit 1 (ucast crc) XOR ucast x :: u32) < 256" for x :: byte
    proof
      let ?v = "push_bit 1 (ucast crc) XOR ucast x :: u32"
      have "\<not> bit (ucast x :: u32) 8" using bit_imp_le_length [of x 8] by (auto simp: bit_simps)
      then have "bit ?v 8" using b7 unfolding bit_xor_iff bit_push_bit_iff by (simp add: bit_simps)
      then have "bit (unat ?v) 8" by (simp add: bit_unsigned_iff)
      moreover assume "unat ?v < 256"
      ultimately show False by (simp add: bit_iff_odd)
    qed
    then have "crc7_byte crc x = None" for x by (simp add: crc7_byte_def crc7_table_register load_None del: funpow.simps)
    then have "(\<lambda>i c. do { x \<leftarrow> load m (buf + i); crc7_byte c x }) 0 crc = None" by (simp split: bind_splits)
    moreover have "[0..<len] = 0 # [1..<len]" using assms(2) by (simp add: upt_conv_Cons)
    ultimately show ?thesis by (simp add: crc7_def)
  qed
  show ?thesis using low high by (simp add: not_less)
qed

theorem crc7_in_table_witness:
  "if (0x80 :: byte) < 128
   then crc7 0x80 [1, 2, 3] 0 3 = Some (fold crc7_step (take 3 (drop 0 [1, 2, 3])) 0x80) \<and> fold crc7_step (take 3 (drop 0 [1, 2, 3])) 0x80 < 128
   else crc7 0x80 [1, 2, 3] 0 3 = None"
  by (rule crc7_in_table) simp_all

end
