(* ===== verification/Keypad.thy ===== *)
theory Keypad
  imports Prelude
begin

unbundle bit_operations_syntax

text \<open>
  hfc_app/hfc_key: the driver of the keypad port. The port's four 16-bit registers are the record \<open>kpp_regs\<close> of
  what was last written; what a read of the data and status registers returns is up to the hardware, the
  parameters \<open>pins\<close> and \<open>stat\<close>. Heap pointers are \<open>'a ptr\<close>: a block, the null pointer, or a wild
  pointer (uninitialised, or to a freed block), whose use is undefined, \<^term>\<open>None\<close>. Whether the n-th call of
  \<open>malloc\<close> succeeds is the parameter \<open>alloc\<close>.
\<close>

section \<open>Constants (hfc_keyb.h, configs/mx25pdk.h)\<close>

definition KBD_STAT_KPKD :: u16 where "KBD_STAT_KPKD = 0x01"
definition KBD_STAT_KPKR :: u16 where "KBD_STAT_KPKR = 0x02"
definition KBD_STAT_KDSC :: u16 where "KBD_STAT_KDSC = 0x04"
definition KBD_STAT_KRSS :: u16 where "KBD_STAT_KRSS = 0x08"
definition KBD_STAT_KDIE :: u16 where "KBD_STAT_KDIE = 0x100"
definition KBD_STAT_KRIE :: u16 where "KBD_STAT_KRIE = 0x200"

definition TEST_BIT :: "u16 \<Rightarrow> nat \<Rightarrow> u16" where "TEST_BIT c n = c AND push_bit n 1"
definition BITSET :: "u16 \<Rightarrow> nat \<Rightarrow> u16" where "BITSET c n = c OR push_bit n 1"

definition KEY_MENU :: u32 where "KEY_MENU = 0xe3"
definition KEY_PPOWER :: u32 where "KEY_PPOWER = 0xe4"
definition KEY_GOTO_MENU :: u32 where "KEY_GOTO_MENU = 0xe6"
definition KEY_GOTO_DBG :: u32 where "KEY_GOTO_DBG = 0xe7"
definition KEY_LONG_POWER :: u32 where "KEY_LONG_POWER = 0xe8"

definition LONG_KEY_COUNTER :: u32 where "LONG_KEY_COUNTER = 300"

definition ENOMEM :: int where "ENOMEM = 12"
definition ENODEV :: int where "ENODEV = 19"

lemmas kbd_consts = KBD_STAT_KPKD_def KBD_STAT_KPKR_def KBD_STAT_KDSC_def KBD_STAT_KRSS_def KBD_STAT_KDIE_def KBD_STAT_KRIE_def

section \<open>State\<close>

datatype KeyState = KStateUp | KStateFirstDown | KStateDown | KStateFirstUp

datatype 'a ptr = Null | Wild | Blk 'a

fun deref :: "'a ptr \<Rightarrow> 'a option" where
  "deref (Blk a) = Some a"
| "deref _ = None"

record kpp_regs =
  KPCR :: u16
  KPSR :: u16
  KDDR :: u16
  KPDR :: u16

record keypad =
  regs :: kpp_regs
  iKeyState :: KeyState
  kpp_rows :: nat
  kpp_cols :: nat
  KPress :: u16
  cur_rcmap :: "u16 list ptr"
  prev_rcmap :: "u16 list ptr"
  k_KeyV :: "byte list"
  rtkey :: u32
  long_key_count :: u32
  mxc_long_key_flag :: u32
  special_key :: u32
  press_scancode :: "u16 list ptr list ptr"
  release_scancode :: "u16 list ptr list ptr"
  mxckpd_keycodes_size :: u16
  key_tremble_times :: u32

section \<open>Arrays on the heap\<close>

definition rc_get :: "u16 list ptr \<Rightarrow> nat \<Rightarrow> u16 option" where
  "rc_get p row = do { m \<leftarrow> deref p; load m row }"

definition rc_set :: "u16 list ptr \<Rightarrow> nat \<Rightarrow> u16 \<Rightarrow> u16 list ptr option" where
  "rc_set p row v = do { m \<leftarrow> deref p; m1 \<leftarrow> store m row v; Some (Blk m1) }"

text \<open>\<open>memcpy\<close> and \<open>memset\<close> of the first \<open>n\<close> entries of an array of shorts.\<close>

definition rc_copy :: "u16 list ptr \<Rightarrow> u16 list ptr \<Rightarrow> nat \<Rightarrow> u16 list ptr option" where
  "rc_copy dst src n = do { d \<leftarrow> deref dst; s \<leftarrow> deref src; d1 \<leftarrow> copy_bytes d 0 s 0 n; Some (Blk d1) }"

definition rc_fill :: "u16 list ptr \<Rightarrow> u16 \<Rightarrow> nat \<Rightarrow> u16 list ptr option" where
  "rc_fill dst v n = do { d \<leftarrow> deref dst; d1 \<leftarrow> copy_bytes d 0 (replicate n v) 0 n; Some (Blk d1) }"

definition sc_get :: "u16 list ptr list ptr \<Rightarrow> nat \<Rightarrow> nat \<Rightarrow> u16 option" where
  "sc_get p row col = do { rows \<leftarrow> deref p; r \<leftarrow> load rows row; rc_get r col }"

definition sc_set :: "u16 list ptr list ptr \<Rightarrow> nat \<Rightarrow> nat \<Rightarrow> u16 \<Rightarrow> u16 list ptr list ptr option" where
  "sc_set p row col v =
     do { rows \<leftarrow> deref p; r \<leftarrow> load rows row; r1 \<leftarrow> rc_set r col v; rows1 \<leftarrow> store rows row r1; Some (Blk rows1) }"

text \<open>\<open>memset(p[i], -1, sizeof(p[0][0]) * cols)\<close>\<close>

definition sc_clear_row :: "nat \<Rightarrow> nat \<Rightarrow> u16 list ptr list ptr \<Rightarrow> u16 list ptr list ptr option" where
  "sc_clear_row cols i p =
     do { rows \<leftarrow> deref p; r \<leftarrow> load rows i; r1 \<leftarrow> rc_fill r 0xffff cols; rows1 \<leftarrow> store rows i r1; Some (Blk rows1) }"

section \<open>Scanning the matrix\<close>

text \<open>The registers: all columns high, discharged as totem pole outputs, then open drain.\<close>

definition columns_mask :: "nat \<Rightarrow> u16" where
  "columns_mask cols = push_bit 8 (push_bit cols 1 - 1)"

definition columns_high :: "(kpp_regs \<Rightarrow> u16) \<Rightarrow> nat \<Rightarrow> kpp_regs \<Rightarrow> kpp_regs" where
  "columns_high pins cols r =
     (let r = r\<lparr>KPDR := pins r OR 0xff00\<rparr>;
          r = r\<lparr>KPCR := KPCR r AND 0x00ff\<rparr>
      in r\<lparr>KPCR := KPCR r OR columns_mask cols\<rparr>)"

definition column_low :: "(kpp_regs \<Rightarrow> u16) \<Rightarrow> nat \<Rightarrow> kpp_regs \<Rightarrow> kpp_regs" where
  "column_low pins col r = r\<lparr>KPDR := pins r AND NOT (push_bit (8 + col) 1)\<rparr>"

definition sample_row :: "u16 \<Rightarrow> nat \<Rightarrow> nat \<Rightarrow> u16 list ptr \<times> nat \<Rightarrow> (u16 list ptr \<times> nat) option" where
  "sample_row reg_val col row = (\<lambda>(cur, keycnt).
     if TEST_BIT reg_val row = 0
     then do { v \<leftarrow> rc_get cur row; cur1 \<leftarrow> rc_set cur row (BITSET v col); Some (cur1, keycnt + 1) }
     else Some (cur, keycnt))"

definition scan_col :: "(kpp_regs \<Rightarrow> u16) \<Rightarrow> nat \<Rightarrow> keypad \<times> nat \<Rightarrow> (keypad \<times> nat) option" where
  "scan_col pins col = (\<lambda>(kp, keycnt).
     let r = column_low pins col (columns_high pins (kpp_cols kp) (regs kp)); reg_val = pins r in
     do { (cur, n) \<leftarrow> foldM (sample_row reg_val col) [0..<kpp_rows kp] (cur_rcmap kp, keycnt);
          Some (kp\<lparr>regs := r, cur_rcmap := cur\<rparr>, n) })"

text \<open>One position of the comparison of the two maps; \<open>diff\<close> is an \<open>unsigned char\<close>.\<close>

definition diff_col :: "nat \<Rightarrow> nat \<Rightarrow> keypad \<Rightarrow> keypad option" where
  "diff_col row col kp =
     do { p \<leftarrow> rc_get (prev_rcmap kp) row; c \<leftarrow> rc_get (cur_rcmap kp) row;
          let diff = ucast (p XOR c) :: byte in
          if drop_bit col diff AND 1 \<noteq> 0
          then if p AND BITSET 0 col = 0
            then do { ps \<leftarrow> sc_set (press_scancode kp) row col (of_nat (row * kpp_cols kp + col));
                      Some (kp\<lparr>KPress := 1, iKeyState := KStateUp, press_scancode := ps\<rparr>) }
            else Some kp
          else (let n = long_key_count kp + 1 in
            Some (if LONG_KEY_COUNTER < n then kp\<lparr>long_key_count := 0, mxc_long_key_flag := 1\<rparr>
                  else kp\<lparr>long_key_count := n\<rparr>)) }"

definition diff_row :: "nat \<Rightarrow> keypad \<Rightarrow> keypad option" where
  "diff_row row kp = foldM (diff_col row) [0..<kpp_cols kp] kp"

definition scan_sample :: "(kpp_regs \<Rightarrow> u16) \<Rightarrow> keypad \<Rightarrow> (keypad \<times> nat) option" where
  "scan_sample pins kp =
     do { pv \<leftarrow> rc_copy (prev_rcmap kp) (cur_rcmap kp) (kpp_rows kp);
          cu \<leftarrow> rc_fill (cur_rcmap kp) 0 (kpp_rows kp);
          let r = columns_high pins (kpp_cols kp) (regs kp);
              r = r\<lparr>KPDR := pins r OR 0xff00\<rparr> in
          foldM (scan_col pins) [0..<kpp_cols kp] (kp\<lparr>prev_rcmap := pv, cur_rcmap := cu, regs := r\<rparr>, 0) }"

definition mxc_kpp_scan_matrix :: "(kpp_regs \<Rightarrow> u16) \<Rightarrow> (kpp_regs \<Rightarrow> u16) \<Rightarrow> keypad \<Rightarrow> (nat \<times> keypad) option" where
  "mxc_kpp_scan_matrix pins stat kp =
     do { (kp1, keycnt) \<leftarrow> scan_sample pins kp;
          let r = (regs kp1)\<lparr>KPDR := 0\<rparr>;
              r = r\<lparr>KPSR := stat r OR KBD_STAT_KPKD OR KBD_STAT_KPKR OR KBD_STAT_KRSS OR KBD_STAT_KDSC\<rparr> in
          do { kp2 \<leftarrow> foldM diff_row [0..<kpp_rows kp1] (kp1\<lparr>regs := r\<rparr>);
               Some (keycnt, kp2) } }"

section \<open>Reading a key\<close>

text \<open>All keys are up: the maps and counters are reset.\<close>

definition release_all :: "keypad \<Rightarrow> keypad option" where
  "release_all kp =
     do { ps \<leftarrow> foldM (sc_clear_row (kpp_cols kp)) [0..<kpp_rows kp] (press_scancode kp);
          rs \<leftarrow> foldM (sc_clear_row (kpp_cols kp)) [0..<kpp_rows kp] (release_scancode kp);
          pv \<leftarrow> rc_fill (prev_rcmap kp) 0 (kpp_rows kp);
          cu \<leftarrow> rc_fill (cur_rcmap kp) 0 (kpp_rows kp);
          Some (kp\<lparr>press_scancode := ps, release_scancode := rs, prev_rcmap := pv, cur_rcmap := cu, long_key_count := 0,
                   key_tremble_times := 0, mxc_long_key_flag := 0, special_key := 0\<rparr>) }"

text \<open>The codes of the keys that went down are collected into \<open>k_KeyV\<close>, an array of 17 bytes.\<close>

definition collect_col :: "nat \<Rightarrow> nat \<Rightarrow> keypad \<times> nat \<Rightarrow> (keypad \<times> nat) option" where
  "collect_col row col = (\<lambda>(kp, h).
     do { s \<leftarrow> sc_get (press_scancode kp) row col;
          if s \<noteq> 0xffff
          then do { n \<leftarrow> load (k_KeyV kp) 0; kv \<leftarrow> store (k_KeyV kp) 0 (n + 1);
                    kv1 \<leftarrow> store kv h (ucast (s + 1));
                    ps \<leftarrow> sc_set (press_scancode kp) row col 0xffff;
                    Some (kp\<lparr>k_KeyV := kv1, press_scancode := ps\<rparr>, h + 1) }
          else Some (kp, h) })"

definition collect_row :: "nat \<Rightarrow> keypad \<times> nat \<Rightarrow> (keypad \<times> nat) option" where
  "collect_row row = (\<lambda>(kp, h). foldM (collect_col row) [0..<kpp_cols kp] (kp, h))"

text \<open>
  The debounced decision. On the first of two reads the previous map is copied from address 0, whose
  contents are the parameter \<open>page0\<close>; on the second the combination is decoded.
\<close>

definition decode_keys :: "keypad \<Rightarrow> keypad" where
  "decode_keys kp =
     (let kv = k_KeyV kp in
      if kv ! 0 = 4
      then if kv ! 4 = 4 \<and> kv ! 3 = 3 \<and> kv ! 2 = 2 \<and> kv ! 1 = 1
        then kp\<lparr>rtkey := KEY_PPOWER, special_key := KEY_PPOWER\<rparr> else kp
      else if kv ! 0 = 12
      then if kv ! 12 = 16 \<and> kv ! 11 = 15 \<and> kv ! 10 = 14 \<and> kv ! 9 = 13 \<and> kv ! 8 = 8 \<and> kv ! 7 = 7 \<and> kv ! 6 = 6
            \<and> kv ! 5 = 5 \<and> kv ! 4 = 4 \<and> kv ! 3 = 3 \<and> kv ! 2 = 2 \<and> kv ! 1 = 1
        then kp\<lparr>rtkey := KEY_MENU, special_key := KEY_MENU\<rparr> else kp
      else kp\<lparr>rtkey := push_bit 24 (ucast (kv ! 0)) OR push_bit 16 (ucast (kv ! 3)) OR push_bit 8 (ucast (kv ! 2)) OR ucast (kv ! 1)\<rparr>)"

definition tremble :: "u16 list \<Rightarrow> keypad \<Rightarrow> keypad option" where
  "tremble page0 kp =
     (if 0 < k_KeyV kp ! 0
      then if key_tremble_times kp = 0
        then do { pv \<leftarrow> rc_copy (prev_rcmap kp) (Blk page0) (kpp_rows kp);
                  cu \<leftarrow> rc_fill (cur_rcmap kp) 0 (kpp_rows kp);
                  Some (kp\<lparr>prev_rcmap := pv, cur_rcmap := cu, key_tremble_times := key_tremble_times kp + 1\<rparr>) }
        else if key_tremble_times kp = 1 then Some ((decode_keys kp)\<lparr>key_tremble_times := 0\<rparr>)
        else Some kp
      else Some kp)"

definition mxc_kpp_getc ::
  "(kpp_regs \<Rightarrow> u16) \<Rightarrow> (kpp_regs \<Rightarrow> u16) \<Rightarrow> u16 list \<Rightarrow> keypad \<Rightarrow> (u32 \<times> keypad) option" where
  "mxc_kpp_getc pins stat page0 kp =
     (let kp = kp\<lparr>k_KeyV := replicate 17 0\<rparr> in
      if stat (regs kp) AND KBD_STAT_KPKD = 0 then Some (0, kp)
      else do {
        (key_cnt, kp) \<leftarrow> mxc_kpp_scan_matrix pins stat kp;
        if key_cnt = 0 then do { kp1 \<leftarrow> release_all kp; Some (0, kp1) }
        else
          let long = (mxc_long_key_flag kp = 1);
              kp = (if long then kp\<lparr>mxc_long_key_flag := 0\<rparr> else kp) in
          if long \<and> special_key kp = KEY_PPOWER then Some (KEY_LONG_POWER, kp)
          else if long \<and> special_key kp = KEY_MENU then Some (KEY_GOTO_MENU, kp)
          else do {
            (kp1, h) \<leftarrow> foldM collect_row [0..<kpp_rows kp] (kp, 1);
            kp2 \<leftarrow> tremble page0 kp1;
            Some (of_nat key_cnt, kp2) } })"

definition mxc_getkey :: "keypad \<Rightarrow> u32 \<times> keypad" where
  "mxc_getkey kp =
     (let key = rtkey kp in
      if special_key kp = KEY_LONG_POWER \<or> special_key kp = KEY_GOTO_MENU
      then (special_key kp, kp\<lparr>rtkey := 0\<rparr>)
      else if 0 < key
      then (if drop_bit 24 key = 1 then key AND 0xff else 0, kp\<lparr>rtkey := 0\<rparr>)
      else (0, kp))"

definition keypad_clear :: "keypad \<Rightarrow> keypad" where
  "keypad_clear kp = kp\<lparr>rtkey := 0\<rparr>"

section \<open>Initialisation\<close>

definition malloc :: "bool \<Rightarrow> 'a \<Rightarrow> 'a ptr" where
  "malloc ok junk = (if ok then Blk junk else Null)"

fun free :: "'a ptr \<Rightarrow> unit option" where
  "free Wild = None"
| "free _ = Some ()"

fun dangling :: "'a ptr \<Rightarrow> 'a ptr" where
  "dangling (Blk a) = Wild"
| "dangling p = p"

text \<open>\<open>if (p) { for (i < rows) if (p[i]) free(p[i]); free(p); }\<close>\<close>

definition free_rows :: "nat \<Rightarrow> u16 list ptr list ptr \<Rightarrow> unit option" where
  "free_rows n p =
     (if p = Null then Some ()
      else do { rows \<leftarrow> deref p;
                foldM (\<lambda>i _. do { r \<leftarrow> load rows i; if r \<noteq> Null then free r else Some () }) [0..<n] ();
                free p })"

definition mxc_kpp_free_allocated :: "keypad \<Rightarrow> keypad option" where
  "mxc_kpp_free_allocated kp =
     do { free_rows (kpp_rows kp) (press_scancode kp);
          free_rows (kpp_rows kp) (release_scancode kp);
          (if cur_rcmap kp \<noteq> Null then free (cur_rcmap kp) else Some ());
          (if prev_rcmap kp \<noteq> Null then free (prev_rcmap kp) else Some ());
          Some (kp\<lparr>press_scancode := dangling (press_scancode kp), release_scancode := dangling (release_scancode kp),
                   cur_rcmap := dangling (cur_rcmap kp), prev_rcmap := dangling (prev_rcmap kp)\<rparr>) }"

text \<open>Rows, columns and interrupt bits of the port; the local \<open>reg_val\<close> is 32 bits wide, the register 16.\<close>

definition init_regs :: "(kpp_regs \<Rightarrow> u16) \<Rightarrow> (kpp_regs \<Rightarrow> u16) \<Rightarrow> nat \<Rightarrow> nat \<Rightarrow> kpp_regs \<Rightarrow> kpp_regs" where
  "init_regs pins stat rows cols r =
     (let r = r\<lparr>KPCR := KPCR r OR (push_bit rows 1 - 1) OR columns_mask cols\<rparr>;
          r = r\<lparr>KPDR := pins r AND 0x00ff\<rparr>;
          r = r\<lparr>KDDR := (KDDR r OR 0xff00) AND 0xff00\<rparr>;
          v = (stat r AND NOT (KBD_STAT_KPKR OR KBD_STAT_KPKD)) OR KBD_STAT_KPKD OR KBD_STAT_KRSS OR KBD_STAT_KDSC;
          r = r\<lparr>KPSR := v\<rparr>
      in r\<lparr>KPSR := (v OR KBD_STAT_KDIE) AND NOT KBD_STAT_KRIE\<rparr>)"

text \<open>
  The allocation loop: calls \<open>n\<close> and \<open>n + 1\<close> of \<open>malloc\<close> are row \<open>i\<close>. The result says whether every
  row was allocated.
\<close>

fun alloc_rows :: "(nat \<Rightarrow> bool) \<Rightarrow> u16 list \<Rightarrow> nat \<Rightarrow> nat list \<Rightarrow> keypad \<Rightarrow> (bool \<times> keypad) option" where
  "alloc_rows alloc junk n [] kp = Some (True, kp)"
| "alloc_rows alloc junk n (i # is) kp =
     do { ps \<leftarrow> deref (press_scancode kp); ps1 \<leftarrow> store ps i (malloc (alloc n) junk);
          rs \<leftarrow> deref (release_scancode kp); rs1 \<leftarrow> store rs i (malloc (alloc (n + 1)) junk);
          let kp1 = kp\<lparr>press_scancode := Blk ps1, release_scancode := Blk rs1\<rparr> in
          if alloc n \<and> alloc (n + 1) then alloc_rows alloc junk (n + 2) is kp1 else Some (False, kp1) }"

definition kpp_fail :: "int \<Rightarrow> keypad \<Rightarrow> (int \<times> keypad) option" where
  "kpp_fail retval kp = do { kp1 \<leftarrow> mxc_kpp_free_allocated kp; Some (- retval, kp1) }"

definition CONFIG_MXC_KPD_COLMAX :: nat where "CONFIG_MXC_KPD_COLMAX = 4"
definition CONFIG_MXC_KPD_ROWMAX :: nat where "CONFIG_MXC_KPD_ROWMAX = 5"

definition mxc_kpp_init ::
  "(kpp_regs \<Rightarrow> u16) \<Rightarrow> (kpp_regs \<Rightarrow> u16) \<Rightarrow> (nat \<Rightarrow> bool) \<Rightarrow> u16 \<Rightarrow> keypad \<Rightarrow> (int \<times> keypad) option" where
  "mxc_kpp_init pins stat alloc junk kp =
     (let cols = CONFIG_MXC_KPD_COLMAX; rows = CONFIG_MXC_KPD_ROWMAX;
          kp = kp\<lparr>kpp_cols := cols, kpp_rows := rows, regs := init_regs pins stat rows cols (regs kp),
                  mxckpd_keycodes_size := of_nat (cols * rows)\<rparr> in
      if mxckpd_keycodes_size kp = 0 then kpp_fail ENODEV kp
      else
        let kp = kp\<lparr>press_scancode := malloc (alloc 0) (replicate rows Wild), release_scancode := malloc (alloc 1) (replicate rows Wild)\<rparr> in
        if \<not> alloc 0 \<or> \<not> alloc 1 then kpp_fail ENOMEM kp
        else do {
          (ok, kp) \<leftarrow> alloc_rows alloc (replicate cols junk) 2 [0..<rows] kp;
          if \<not> ok then kpp_fail ENOMEM kp
          else
            let n = 2 + 2 * rows;
                kp = kp\<lparr>cur_rcmap := malloc (alloc n) (replicate rows junk), prev_rcmap := malloc (alloc (n + 1)) (replicate rows junk)\<rparr> in
            if \<not> alloc n \<or> \<not> alloc (n + 1) then kpp_fail ENOMEM kp
            else do {
              ps \<leftarrow> foldM (sc_clear_row cols) [0..<rows] (press_scancode kp);
              rs \<leftarrow> foldM (sc_clear_row cols) [0..<rows] (release_scancode kp);
              cu \<leftarrow> rc_fill (cur_rcmap kp) 0 rows;
              pv \<leftarrow> rc_fill (prev_rcmap kp) 0 rows;
              Some (0, kp\<lparr>press_scancode := ps, release_scancode := rs, cur_rcmap := cu, prev_rcmap := pv\<rparr>) } })"

end
