(* ===== verification/Vsprintf.thy ===== *)
theory Vsprintf
  imports String_Proofs
begin

unbundle bit_operations_syntax

text \<open>
  lib/vsprintf.c as configured for the board (no \<open>CONFIG_SYS_VSNPRINTF\<close>, with \<open>CONFIG_CMD_NET\<close>): parsing of
  numbers, conversion of numbers to digits and the format interpreter. Strings live in the memory \<open>m\<close>, addressed
  from 0; \<open>char\<close> is unsigned on ARM. The characters an output routine adds are returned as a list; \<open>vsprintf\<close>
  stores them in its buffer, an object of its own. The variable arguments are a list of 32-bit values (\<open>int\<close>,
  \<open>long\<close>, \<open>size_t\<close>, pointers) and 64-bit values; taking a value of the other size, or none, is undefined.
  Field widths and precisions are integers that do not wrap.
\<close>

section \<open>Parsing numbers\<close>

definition digit_value :: "byte \<Rightarrow> u32" where
  "digit_value c = (if isdigit c then ucast c - 48 else ucast (if islower c then toupper c else c) - 65 + 10)"

text \<open>The loop of \<open>simple_strtoul\<close> and, at twice the width, of \<open>simple_strtoull\<close>.\<close>

function strtoul_loop :: "mem \<Rightarrow> nat \<Rightarrow> u32 \<Rightarrow> 'a::len word \<Rightarrow> ('a word \<times> nat) option" where
  "strtoul_loop m cp base result =
     (case load m cp of None \<Rightarrow> None
      | Some c \<Rightarrow> if isxdigit c \<and> digit_value c < base
                 then strtoul_loop m (cp + 1) base (result * ucast base + ucast (digit_value c))
                 else Some (result, cp))"
  by pat_completeness auto
termination by (relation "measure (\<lambda>(m, cp, base, result). length m - cp)") (auto simp: load_eq_Some_iff)

declare strtoul_loop.simps [simp del]

text \<open>The prefix: \<open>0x\<close> before a hexadecimal digit selects base 16 whatever the base given, a leading 0 base 8 if none is given.\<close>

definition strtoul_prefix :: "mem \<Rightarrow> nat \<Rightarrow> u32 \<Rightarrow> (nat \<times> u32) option" where
  "strtoul_prefix m cp base =
     do { c \<leftarrow> load m cp;
          (cp, base) \<leftarrow>
            (if c = 48
             then do { c1 \<leftarrow> load m (cp + 1);
                       (cp, base) \<leftarrow>
                         (if c1 = 120
                          then do { c2 \<leftarrow> load m (cp + 2); Some (if isxdigit c2 then (cp + 2, 16) else (cp + 1, base)) }
                          else Some (cp + 1, base));
                       Some (cp, if base = 0 then 8 else base) }
             else Some (cp, base));
          Some (cp, if base = 0 then 10 else base) }"

definition simple_strtoul :: "mem \<Rightarrow> nat \<Rightarrow> u32 \<Rightarrow> (u32 \<times> nat) option" where
  "simple_strtoul m cp base = do { (cp, base) \<leftarrow> strtoul_prefix m cp base; strtoul_loop m cp base 0 }"

definition simple_strtoull :: "mem \<Rightarrow> nat \<Rightarrow> u32 \<Rightarrow> (64 word \<times> nat) option" where
  "simple_strtoull m cp base = do { (cp, base) \<leftarrow> strtoul_prefix m cp base; strtoul_loop m cp base 0 }"

definition EINVAL :: int where "EINVAL = 22"

definition strict_strtoul :: "mem \<Rightarrow> nat \<Rightarrow> u32 \<Rightarrow> (int \<times> u32) option" where
  "strict_strtoul m cp base =
     do { len \<leftarrow> strlen m cp;
          if len = 0 then Some (- EINVAL, 0)
          else do { (val, tail) \<leftarrow> simple_strtoul m cp base;
                    if tail = cp then Some (- EINVAL, 0)
                    else do { t \<leftarrow> load m tail;
                              Some (if t = 0 \<or> (len = tail - cp + 1 \<and> t = 10) then (0, val) else (- EINVAL, 0)) } } }"

definition simple_strtol :: "mem \<Rightarrow> nat \<Rightarrow> u32 \<Rightarrow> (u32 \<times> nat) option" where
  "simple_strtol m cp base =
     do { c \<leftarrow> load m cp;
          if c = 45 then do { (v, e) \<leftarrow> simple_strtoul m (cp + 1) base; Some (- v, e) } else simple_strtoul m cp base }"

definition ustrtoul :: "mem \<Rightarrow> nat \<Rightarrow> u32 \<Rightarrow> (u32 \<times> nat) option" where
  "ustrtoul m cp base =
     do { (result, e) \<leftarrow> simple_strtoul m cp base;
          c \<leftarrow> load m e;
          let result = (if c = 71 then result * 1024 else result);
              result = (if c = 71 \<or> c = 77 then result * 1024 else result) in
          if c = 71 \<or> c = 77 \<or> c = 75 \<or> c = 107
          then do { c1 \<leftarrow> load m (e + 1);
                    e \<leftarrow> (if c1 = 105 then do { c2 \<leftarrow> load m (e + 2); Some (if c2 = 66 then e + 3 else e + 2) } else Some e);
                    Some (result * 1024, e) }
          else Some (result, e) }"

section \<open>Decimal digits\<close>

text \<open>Up to five digits of a number below 100000, least significant first.\<close>

definition put_dec_trunc :: "u32 \<Rightarrow> byte list" where
  "put_dec_trunc q =
     (let d1 = drop_bit 4 q AND 0xf; d2 = drop_bit 8 q AND 0xf; d3 = drop_bit 12 q;
          d0 = 6 * (d3 + d2 + d1) + (q AND 0xf);
          q = drop_bit 11 (d0 * 0xcd); d0 = d0 - 10 * q;
          d1 = q + 9 * d3 + 5 * d2 + d1 in
      ucast (d0 + 48) #
      (if d1 \<noteq> 0
       then let q = drop_bit 11 (d1 * 0xcd); d1 = d1 - 10 * q; d2 = q + 2 * d2 in
         ucast (d1 + 48) #
         (if d2 \<noteq> 0 \<or> d3 \<noteq> 0
          then let q = drop_bit 7 (d2 * 0xd); d2 = d2 - 10 * q; d3 = q + 4 * d3 in
            ucast (d2 + 48) #
            (if d3 \<noteq> 0
             then let q = drop_bit 11 (d3 * 0xcd); d3 = d3 - 10 * q in
               ucast (d3 + 48) # (if q \<noteq> 0 then [ucast (q + 48)] else [])
             else [])
          else [])
       else []))"

definition put_dec_full :: "u32 \<Rightarrow> byte list" where
  "put_dec_full q =
     (let d1 = drop_bit 4 q AND 0xf; d2 = drop_bit 8 q AND 0xf; d3 = drop_bit 12 q;
          d0 = 6 * (d3 + d2 + d1) + (q AND 0xf);
          q = drop_bit 11 (d0 * 0xcd); d0 = d0 - 10 * q;
          d1 = q + 9 * d3 + 5 * d2 + d1;
          q = drop_bit 11 (d1 * 0xcd); d1 = d1 - 10 * q;
          d2 = q + 2 * d2;
          q = drop_bit 7 (d2 * 0xd); d2 = d2 - 10 * q;
          d3 = q + 4 * d3;
          q = drop_bit 11 (d3 * 0xcd); d3 = d3 - 10 * q
      in [ucast (d0 + 48), ucast (d1 + 48), ucast (d2 + 48), ucast (d3 + 48), ucast (q + 48)])"

function put_dec :: "64 word \<Rightarrow> byte list" where
  "put_dec num =
     (if num < 100000 then put_dec_trunc (ucast num)
      else put_dec_full (ucast (num mod 100000)) @ put_dec (num div 100000))"
  by pat_completeness auto
termination
proof (relation "measure unat")
  fix num :: "64 word"
  assume "\<not> num < 100000"
  then show "(num div 100000, num) \<in> measure unat" by (simp add: unat_div word_less_nat_alt)
qed simp

declare put_dec.simps [simp del]

section \<open>Numbers with width, precision and flags\<close>

definition ZEROPAD :: u32 where "ZEROPAD = 1"
definition SIGN :: u32 where "SIGN = 2"
definition PLUS :: u32 where "PLUS = 4"
definition SPACE :: u32 where "SPACE = 8"
definition LEFT :: u32 where "LEFT = 16"
definition SMALL :: u32 where "SMALL = 32"
definition SPECIAL :: u32 where "SPECIAL = 64"

lemmas fmt_flags = ZEROPAD_def SIGN_def PLUS_def SPACE_def LEFT_def SMALL_def SPECIAL_def

definition has :: "u32 \<Rightarrow> u32 \<Rightarrow> bool" where "has flags f \<longleftrightarrow> flags AND f \<noteq> 0"

definition digits16 :: "byte list" where
  "digits16 = [48, 49, 50, 51, 52, 53, 54, 55, 56, 57, 65, 66, 67, 68, 69, 70]"

text \<open>The digits in base 8 or 16, least significant first.\<close>

function pow2_digits :: "nat \<Rightarrow> byte \<Rightarrow> 64 word \<Rightarrow> byte list" where
  "pow2_digits shift locase num =
     (digits16 ! unat (ucast num AND (2 ^ shift - 1 :: byte)) OR locase) #
     (if shift = 0 \<or> drop_bit shift num = 0 then [] else pow2_digits shift locase (drop_bit shift num))"
  by pat_completeness auto
termination
proof (relation "measure (\<lambda>(s, l, n). unat n)")
  fix shift and locase :: byte and num :: "64 word"
  assume a: "\<not> (shift = 0 \<or> drop_bit shift num = 0)"
  have "unat (drop_bit shift num) = unat num div 2 ^ shift" unfolding unat_drop_bit_eq by (rule drop_bit_eq_div)
  moreover from this a have "unat num div 2 ^ shift \<noteq> 0" by (metis unat_eq_zero)
  ultimately have u: "unat (drop_bit shift num) = unat num div 2 ^ shift" and "unat num div 2 ^ shift \<noteq> 0" by simp_all
  then have "0 < unat num" by (cases "unat num") simp_all
  moreover have "1 < (2 :: nat) ^ shift" using a by (intro one_less_power) simp_all
  ultimately show "((shift, locase, drop_bit shift num), shift, locase, num) \<in> measure (\<lambda>(s, l, n). unat n)"
    by (simp add: u div_less_dividend)
qed simp

declare pow2_digits.simps [simp del]

text \<open>\<open>while (--size >= 0) ADDCH(buf, c);\<close> with the value of \<open>size\<close> after the loop.\<close>

definition pad :: "byte \<Rightarrow> int \<Rightarrow> byte list \<times> int" where
  "pad c sz = (replicate (nat sz) c, if 0 \<le> sz then -1 else sz - 1)"

definition number :: "64 word \<Rightarrow> int \<Rightarrow> int \<Rightarrow> int \<Rightarrow> u32 \<Rightarrow> byte list" where
  "number num base sz precision type =
     (let need_pfx = (has type SPECIAL \<and> base \<noteq> 10);
          locase = ucast (type AND SMALL) :: byte;
          type = (if has type LEFT then type AND NOT ZEROPAD else type);
          (sign, num, sz) =
            (if has type SIGN
             then if sint num < 0 then ([45 :: byte], - num, sz - 1)
               else if has type PLUS then ([43], num, sz - 1)
               else if has type SPACE then ([32], num, sz - 1)
               else ([], num, sz)
             else ([], num, sz));
          sz = (if need_pfx then if base = 16 then sz - 2 else sz - 1 else sz);
          tmp = (if num = 0 then [48]
                 else if base \<noteq> 10 then pow2_digits (if base = 16 then 4 else 3) locase num
                 else put_dec num);
          i = int (length tmp);
          precision = (if precision < i then i else precision);
          sz = sz - precision;
          (pad1, sz) = (if \<not> has type (ZEROPAD + LEFT) then pad 32 sz else ([], sz));
          pfx = (if need_pfx then if base = 16 then [48, 88 OR locase] else [48] else []);
          (pad2, sz) = (if \<not> has type LEFT then pad (if has type ZEROPAD then 48 else 32) sz else ([], sz));
          zeros = replicate (nat (precision - i)) 48;
          (pad3, sz) = pad 32 sz
      in pad1 @ sign @ pfx @ pad2 @ zeros @ rev tmp @ pad3)"

section \<open>Strings and addresses\<close>

text \<open>\<open>while (len < field_width--) ADDCH(buf, ' ');\<close>\<close>

definition pad_to :: "int \<Rightarrow> int \<Rightarrow> byte list \<times> int" where
  "pad_to len field_width = (replicate (nat (field_width - len)) 32, if len < field_width then len - 1 else field_width - 1)"

definition string_fmt :: "mem \<Rightarrow> nat \<Rightarrow> int \<Rightarrow> int \<Rightarrow> u32 \<Rightarrow> byte list option" where
  "string_fmt m s field_width precision flags =
     do { len \<leftarrow> strnlen m s (unat (of_int precision :: u32));
          let (pad1, field_width) = (if \<not> has flags LEFT then pad_to (int len) field_width else ([], field_width));
              (pad2, field_width) = pad_to (int len) field_width in
          Some (pad1 @ take len (drop s m) @ pad2) }"

definition NULL_text :: mem where
  "NULL_text = [60, 78, 85, 76, 76, 62, 0]"

definition string_arg :: "mem \<Rightarrow> u32 \<Rightarrow> int \<Rightarrow> int \<Rightarrow> u32 \<Rightarrow> byte list option" where
  "string_arg m s field_width precision flags =
     (if s = 0 then string_fmt NULL_text 0 field_width precision flags
      else string_fmt m (unat s) field_width precision flags)"

definition hex_asc :: "byte list" where
  "hex_asc = [48, 49, 50, 51, 52, 53, 54, 55, 56, 57, 97, 98, 99, 100, 101, 102]"

definition pack_hex_byte :: "byte \<Rightarrow> byte list" where
  "pack_hex_byte b = [hex_asc ! unat (drop_bit 4 (b AND 0xf0)), hex_asc ! unat (b AND 0x0f)]"

definition mac_address_string :: "mem \<Rightarrow> nat \<Rightarrow> int \<Rightarrow> int \<Rightarrow> u32 \<Rightarrow> byte list option" where
  "mac_address_string m addr field_width precision flags =
     do { p \<leftarrow> foldM (\<lambda>i p. do { a \<leftarrow> load m (addr + i);
                                Some (p @ pack_hex_byte a @ (if \<not> has flags SPECIAL \<and> i \<noteq> 5 then [58] else [])) }) [0..<6] [];
          string_fmt (p @ [0]) 0 field_width precision (flags AND NOT SPECIAL) }"

definition ip6_addr_string :: "mem \<Rightarrow> nat \<Rightarrow> int \<Rightarrow> int \<Rightarrow> u32 \<Rightarrow> byte list option" where
  "ip6_addr_string m addr field_width precision flags =
     do { p \<leftarrow> foldM (\<lambda>i p. do { a \<leftarrow> load m (addr + 2 * i); b \<leftarrow> load m (addr + 2 * i + 1);
                                Some (p @ pack_hex_byte a @ pack_hex_byte b @ (if \<not> has flags SPECIAL \<and> i \<noteq> 7 then [58] else [])) }) [0..<8] [];
          string_fmt (p @ [0]) 0 field_width precision (flags AND NOT SPECIAL) }"

definition ip4_addr_string :: "mem \<Rightarrow> nat \<Rightarrow> int \<Rightarrow> int \<Rightarrow> u32 \<Rightarrow> byte list option" where
  "ip4_addr_string m addr field_width precision flags =
     do { p \<leftarrow> foldM (\<lambda>i p. do { a \<leftarrow> load m (addr + i);
                                Some (p @ rev (put_dec_trunc (ucast a)) @ (if i \<noteq> 3 then [46] else [])) }) [0..<4] [];
          string_fmt (p @ [0]) 0 field_width precision (flags AND NOT SPECIAL) }"

definition plain_pointer :: "u32 \<Rightarrow> int \<Rightarrow> int \<Rightarrow> u32 \<Rightarrow> byte list" where
  "plain_pointer ptr field_width precision flags =
     (let flags = flags OR SMALL in
      if field_width = -1 then number (ucast ptr) 16 8 precision (flags OR ZEROPAD)
      else number (ucast ptr) 16 field_width precision flags)"

definition pointer_fmt :: "mem \<Rightarrow> nat \<Rightarrow> u32 \<Rightarrow> int \<Rightarrow> int \<Rightarrow> u32 \<Rightarrow> byte list option" where
  "pointer_fmt m fmt ptr field_width precision flags =
     do { c \<leftarrow> load m fmt;
          if c = 109 \<or> c = 77
          then mac_address_string m (unat ptr) field_width precision (if c = 109 then flags OR SPECIAL else flags)
          else if c = 105 \<or> c = 73
          then do { d \<leftarrow> load m (fmt + 1);
                    let flags = (if c = 105 then flags OR SPECIAL else flags) in
                    if d = 54 then ip6_addr_string m (unat ptr) field_width precision flags
                    else if d = 52 then ip4_addr_string m (unat ptr) field_width precision flags
                    else Some (plain_pointer ptr field_width precision (flags AND NOT SPECIAL)) }
          else Some (plain_pointer ptr field_width precision flags) }"

section \<open>The format interpreter\<close>

datatype va = V32 u32 | V64 "64 word"

fun va32 :: "va list \<Rightarrow> (u32 \<times> va list) option" where
  "va32 (V32 v # args) = Some (v, args)"
| "va32 _ = None"

fun va64 :: "va list \<Rightarrow> (64 word \<times> va list) option" where
  "va64 (V64 v # args) = Some (v, args)"
| "va64 _ = None"

definition is_digit :: "byte \<Rightarrow> bool" where "is_digit c \<longleftrightarrow> 48 \<le> c \<and> c \<le> 57"

text \<open>\<open>skip_atoi\<close>; a value beyond \<open>INT_MAX\<close> is a signed overflow.\<close>

function skip_atoi :: "mem \<Rightarrow> nat \<Rightarrow> int \<Rightarrow> (int \<times> nat) option" where
  "skip_atoi m s i =
     (case load m s of None \<Rightarrow> None
      | Some c \<Rightarrow> if is_digit c
                 then let i = i * 10 + uint c - 48 in if 2147483647 < i then None else skip_atoi m (s + 1) i
                 else Some (i, s))"
  by pat_completeness auto
termination by (relation "measure (\<lambda>(m, s, i). length m - s)") (auto simp: load_eq_Some_iff)

declare skip_atoi.simps [simp del]

text \<open>The flags after a percent sign at \<open>fmt - 1\<close>; the result is the position of the first other character.\<close>

definition flag_char :: "byte \<Rightarrow> u32" where
  "flag_char c = (if c = 45 then LEFT else if c = 43 then PLUS else if c = 32 then SPACE else if c = 35 then SPECIAL
     else if c = 48 then ZEROPAD else 0)"

function fmt_flags_loop :: "mem \<Rightarrow> nat \<Rightarrow> u32 \<Rightarrow> (u32 \<times> nat) option" where
  "fmt_flags_loop m fmt flags =
     (case load m fmt of None \<Rightarrow> None
      | Some c \<Rightarrow> if flag_char c \<noteq> 0 then fmt_flags_loop m (fmt + 1) (flags OR flag_char c) else Some (flags, fmt))"
  by pat_completeness auto
termination by (relation "measure (\<lambda>(m, fmt, flags). length m - fmt)") (auto simp: load_eq_Some_iff)

declare fmt_flags_loop.simps [simp del]

definition fmt_width :: "mem \<Rightarrow> nat \<Rightarrow> u32 \<Rightarrow> va list \<Rightarrow> (int \<times> u32 \<times> nat \<times> va list) option" where
  "fmt_width m fmt flags args =
     do { c \<leftarrow> load m fmt;
          if is_digit c then do { (w, fmt) \<leftarrow> skip_atoi m fmt 0; Some (w, flags, fmt, args) }
          else if c = 42
          then do { (v, args) \<leftarrow> va32 args;
                    Some (if sint v < 0 then (- sint v, flags OR LEFT, fmt + 1, args) else (sint v, flags, fmt + 1, args)) }
          else Some (-1, flags, fmt, args) }"

definition fmt_precision :: "mem \<Rightarrow> nat \<Rightarrow> va list \<Rightarrow> (int \<times> nat \<times> va list) option" where
  "fmt_precision m fmt args =
     do { c \<leftarrow> load m fmt;
          if c = 46
          then do { d \<leftarrow> load m (fmt + 1);
                    (p, fmt, args) \<leftarrow>
                      (if is_digit d then do { (p, fmt) \<leftarrow> skip_atoi m (fmt + 1) 0; Some (p, fmt, args) }
                       else if d = 42 then do { (v, args) \<leftarrow> va32 args; Some (sint v, fmt + 2, args) }
                       else Some (-1, fmt + 1, args));
                    Some (if p < 0 then 0 else p, fmt, args) }
          else Some (-1, fmt, args) }"

text \<open>The qualifier is the character, 0 for none; \<open>ll\<close> reads as \<open>L\<close>.\<close>

definition fmt_qualifier :: "mem \<Rightarrow> nat \<Rightarrow> (byte \<times> nat) option" where
  "fmt_qualifier m fmt =
     do { c \<leftarrow> load m fmt;
          if c \<in> {104, 108, 76, 90, 122, 116}
          then do { d \<leftarrow> load m (fmt + 1); Some (if c = 108 \<and> d = 108 then (76, fmt + 2) else (c, fmt + 1)) }
          else Some (0, fmt) }"

text \<open>The value of an integer conversion.\<close>

definition fmt_number :: "byte \<Rightarrow> u32 \<Rightarrow> va list \<Rightarrow> (64 word \<times> va list) option" where
  "fmt_number qualifier flags args =
     (if qualifier = 76 then va64 args
      else do { (v, args) \<leftarrow> va32 args;
                Some (if qualifier = 108 then (if has flags SIGN then scast v else ucast v, args)
                      else if qualifier = 90 \<or> qualifier = 122 then (ucast v, args)
                      else if qualifier = 116 then (scast v, args)
                      else if qualifier = 104
                      then (if has flags SIGN then scast (ucast v :: u16) else ucast (ucast v :: u16), args)
                      else (if has flags SIGN then scast v else ucast v, args)) })"

text \<open>\<open>while (isalnum(fmt[1])) fmt++;\<close>\<close>

function skip_alnum :: "mem \<Rightarrow> nat \<Rightarrow> nat option" where
  "skip_alnum m fmt =
     (case load m (fmt + 1) of None \<Rightarrow> None | Some c \<Rightarrow> if isalnum c then skip_alnum m (fmt + 1) else Some fmt)"
  by pat_completeness auto
termination by (relation "measure (\<lambda>(m, fmt). length m - fmt)") (auto simp: load_eq_Some_iff)

declare skip_alnum.simps [simp del]

text \<open>
  The state of the interpreter: the characters added so far, the arguments left and the stores made for \<open>%n\<close>, as
  address and value.
\<close>

record vsn =
  out :: "byte list"
  args :: "va list"
  nstores :: "(u32 \<times> u32) list"

definition add_out :: "byte list \<Rightarrow> vsn \<Rightarrow> vsn" where
  "add_out cs st = st\<lparr>out := out st @ cs\<rparr>"

definition conv_char :: "int \<Rightarrow> u32 \<Rightarrow> vsn \<Rightarrow> vsn option" where
  "conv_char field_width flags st =
     do { (v, rest) \<leftarrow> va32 (args st);
          let sp = replicate (nat (field_width - 1)) 32 in
          Some (add_out ((if \<not> has flags LEFT then sp else []) @ [ucast v] @ (if has flags LEFT then sp else [])) (st\<lparr>args := rest\<rparr>)) }"

definition conv_int :: "int \<Rightarrow> int \<Rightarrow> int \<Rightarrow> byte \<Rightarrow> u32 \<Rightarrow> vsn \<Rightarrow> vsn option" where
  "conv_int base field_width precision qualifier flags st =
     do { (num, rest) \<leftarrow> fmt_number qualifier flags (args st);
          Some (add_out (number num base field_width precision flags) (st\<lparr>args := rest\<rparr>)) }"

text \<open>The conversion character at \<open>fmt\<close>; the result also has the position at which the outer loop continues.\<close>

definition fmt_convert :: "mem \<Rightarrow> nat \<Rightarrow> int \<Rightarrow> int \<Rightarrow> byte \<Rightarrow> u32 \<Rightarrow> vsn \<Rightarrow> (nat \<times> vsn) option" where
  "fmt_convert m fmt field_width precision qualifier flags st =
     do { c \<leftarrow> load m fmt;
          if c = 99 then do { st \<leftarrow> conv_char field_width flags st; Some (fmt + 1, st) }
          else if c = 115
          then do { (s, rest) \<leftarrow> va32 (args st);
                    cs \<leftarrow> string_arg m s field_width precision flags;
                    Some (fmt + 1, add_out cs (st\<lparr>args := rest\<rparr>)) }
          else if c = 112
          then do { (ptr, rest) \<leftarrow> va32 (args st);
                    cs \<leftarrow> pointer_fmt m (fmt + 1) ptr field_width precision flags;
                    fmt \<leftarrow> skip_alnum m fmt;
                    Some (fmt + 1, add_out cs (st\<lparr>args := rest\<rparr>)) }
          else if c = 110
          then do { (ip, rest) \<leftarrow> va32 (args st);
                    Some (fmt + 1, st\<lparr>args := rest, nstores := nstores st @ [(ip, of_nat (length (out st)))]\<rparr>) }
          else if c = 37 then Some (fmt + 1, add_out [37] st)
          else if c = 111 then do { st \<leftarrow> conv_int 8 field_width precision qualifier flags st; Some (fmt + 1, st) }
          else if c = 120 then do { st \<leftarrow> conv_int 16 field_width precision qualifier (flags OR SMALL) st; Some (fmt + 1, st) }
          else if c = 88 then do { st \<leftarrow> conv_int 16 field_width precision qualifier flags st; Some (fmt + 1, st) }
          else if c = 100 \<or> c = 105
          then do { st \<leftarrow> conv_int 10 field_width precision qualifier (flags OR SIGN) st; Some (fmt + 1, st) }
          else if c = 117 then do { st \<leftarrow> conv_int 10 field_width precision qualifier flags st; Some (fmt + 1, st) }
          else if c \<noteq> 0 then Some (fmt + 1, add_out [37, c] st)
          else Some (fmt, add_out [37] st) }"

definition fmt_directive :: "mem \<Rightarrow> nat \<Rightarrow> vsn \<Rightarrow> (nat \<times> vsn) option" where
  "fmt_directive m fmt st =
     do { (flags, fmt) \<leftarrow> fmt_flags_loop m (fmt + 1) 0;
          (field_width, flags, fmt, rest) \<leftarrow> fmt_width m fmt flags (args st);
          (precision, fmt, rest) \<leftarrow> fmt_precision m fmt rest;
          (qualifier, fmt) \<leftarrow> fmt_qualifier m fmt;
          fmt_convert m fmt field_width precision qualifier flags (st\<lparr>args := rest\<rparr>) }"

lemma skip_atoi_mono: "skip_atoi m s i = Some (j, s') \<Longrightarrow> s \<le> s'"
proof (induction m s i rule: skip_atoi.induct)
  case (1 m s i)
  then show ?case by (fastforce simp: skip_atoi.simps [of m s i] Let_def split: option.splits if_splits)
qed

lemma fmt_flags_mono: "fmt_flags_loop m s f = Some (g, s') \<Longrightarrow> s \<le> s'"
proof (induction m s f rule: fmt_flags_loop.induct)
  case (1 m s f)
  then show ?case by (auto simp: fmt_flags_loop.simps [of m s f] Let_def split: option.splits if_splits)
qed

lemma skip_alnum_mono: "skip_alnum m s = Some s' \<Longrightarrow> s \<le> s'"
proof (induction m s rule: skip_alnum.induct)
  case (1 m s)
  then show ?case by (auto simp: skip_alnum.simps [of m s] Let_def split: option.splits if_splits)
qed

lemma fmt_width_mono: "fmt_width m s f as = Some (w, g, s', bs) \<Longrightarrow> s \<le> s'"
  by (auto simp: fmt_width_def bind_eq_Some_conv split: if_splits dest: skip_atoi_mono)

lemma fmt_precision_mono: "fmt_precision m s as = Some (p, s', bs) \<Longrightarrow> s \<le> s'"
  by (auto simp: fmt_precision_def bind_eq_Some_conv split: if_splits dest: skip_atoi_mono)

lemma fmt_qualifier_mono: "fmt_qualifier m s = Some (q, s') \<Longrightarrow> s \<le> s'"
  by (auto simp: fmt_qualifier_def bind_eq_Some_conv split: if_splits)

lemma fmt_convert_mono: "fmt_convert m s w p q f st = Some (s', st') \<Longrightarrow> s \<le> s'"
  by (auto simp: fmt_convert_def bind_eq_Some_conv split: if_splits dest: skip_alnum_mono)

lemma fmt_directive_mono: "fmt_directive m s st = Some (s', st') \<Longrightarrow> s < s'"
  by (fastforce simp: fmt_directive_def bind_eq_Some_conv
      dest: fmt_flags_mono fmt_width_mono fmt_precision_mono fmt_qualifier_mono fmt_convert_mono)

function vsn_loop :: "mem \<Rightarrow> nat \<Rightarrow> vsn \<Rightarrow> vsn option" where
  "vsn_loop m fmt st =
     (case load m fmt of None \<Rightarrow> None
      | Some c \<Rightarrow>
        if c = 0 then Some st
        else if c \<noteq> 37 then vsn_loop m (fmt + 1) (add_out [c] st)
        else case fmt_directive m fmt st of None \<Rightarrow> None | Some (fmt', st') \<Rightarrow> vsn_loop m fmt' st')"
  by pat_completeness auto
termination
  by (relation "measure (\<lambda>(m, fmt, st). length m - fmt)") (auto simp: load_eq_Some_iff dest: fmt_directive_mono)

declare vsn_loop.simps [simp del]

text \<open>
  \<open>vsprintf\<close>: the characters and a terminator are stored from the start of the buffer; there is no bound on them.
\<close>

definition vsprintf :: "mem \<Rightarrow> mem \<Rightarrow> nat \<Rightarrow> va list \<Rightarrow> (int \<times> mem \<times> vsn) option" where
  "vsprintf buf m fmt va =
     do { st \<leftarrow> vsn_loop m fmt \<lparr>out = [], args = va, nstores = []\<rparr>;
          buf \<leftarrow> copy_bytes buf 0 (out st @ [0]) 0 (length (out st) + 1);
          Some (int (length (out st)), buf, st) }"

text \<open>\<open>simple_itoa\<close>: the static array and the offset of the first digit in it.\<close>

function itoa_loop :: "u32 \<Rightarrow> byte list" where
  "itoa_loop i = (ucast (48 + i mod 10)) # (if 0 < i div 10 then itoa_loop (i div 10) else [])"
  by pat_completeness auto
termination
proof (relation "measure unat")
  fix i :: u32
  assume "0 < i div 10"
  then show "(i div 10, i) \<in> measure unat" by (auto simp: unat_div word_less_nat_alt)
qed simp

declare itoa_loop.simps [simp del]

definition simple_itoa :: "u32 \<Rightarrow> mem \<Rightarrow> (mem \<times> nat) option" where
  "simple_itoa i local =
     do { let ds = rev (itoa_loop i) @ [0] in
          do { local \<leftarrow> copy_bytes local (22 - length ds) ds 0 (length ds); Some (local, 22 - length ds) } }"

end
