(* ===== verification/Hashtable.thy ===== *)
theory Hashtable
  imports Keypad Vsprintf
begin

unbundle bit_operations_syntax

text \<open>
  lib/hashtable.c: the hash table that holds the environment, with double hashing and open addressing. A string object
  is the list of its bytes without the terminator; a pointer to one, or to the table, is a \<open>ptr\<close>. The handlers that a
  variable or the table can have are values of the type \<open>'c\<close> and a function in the record; what a handler answers is
  the parameter \<open>cb\<close>, the handler and the flags that
  \<open>env_callback_init\<close> and \<open>env_flags_init\<close> look up in the table for a new entry are \<open>ini\<close>, and whether \<open>strdup\<close>
  and \<open>calloc\<close> get memory are booleans. A result has the returned number, the entry \<open>*retval\<close> points to (its index),
  the value \<open>errno\<close> is set to, and the table. \<^term>\<open>None\<close> is undefined behaviour or a loop that never ends.
\<close>

section \<open>State\<close>

definition EPERM :: int where "EPERM = 1"
definition ESRCH :: int where "ESRCH = 3"

datatype env_op = env_op_create | env_op_delete | env_op_overwrite

datatype ACTION = FIND | ENTER

record 'c ENTRY =
  h_key :: "mem ptr"
  h_data :: "mem ptr"
  callback :: "'c option"
  h_flags :: int

record 'c slot =
  used :: int
  entry :: "'c ENTRY"

record 'c hsearch_data =
  table :: "'c slot list ptr"
  hsize :: u32
  filled :: u32
  change_ok :: "('c ENTRY \<Rightarrow> mem option \<Rightarrow> env_op \<Rightarrow> int \<Rightarrow> bool) option"

type_synonym 'c ini = "'c hsearch_data \<Rightarrow> 'c ENTRY \<Rightarrow> 'c option \<times> int"

type_synonym 'c cback = "'c \<Rightarrow> mem \<Rightarrow> mem option \<Rightarrow> env_op \<Rightarrow> int \<Rightarrow> bool"

type_synonym 'c hres = "int \<times> nat option \<times> int option \<times> 'c hsearch_data"

definition str_eq :: "mem \<Rightarrow> mem \<Rightarrow> bool option" where
  "str_eq a b = do { r \<leftarrow> strcmp (a @ [0] @ b @ [0]) 0 (length a + 1); Some (r = 0) }"

section \<open>Creation\<close>

partial_function (option) isprime_loop :: "u32 \<Rightarrow> u32 \<Rightarrow> u32 option" where
  "isprime_loop num d = (if d * d < num \<and> num mod d \<noteq> 0 then isprime_loop num (d + 2) else Some d)"

definition isprime :: "u32 \<Rightarrow> bool option" where
  "isprime num = do { d \<leftarrow> isprime_loop num 3; Some (num mod d \<noteq> 0) }"

partial_function (option) next_prime :: "u32 \<Rightarrow> u32 option" where
  "next_prime nel = do { p \<leftarrow> isprime nel; if p then Some nel else next_prime (nel + 2) }"

definition zero_slot :: "'c slot" where
  "zero_slot = \<lparr>used = 0, entry = \<lparr>h_key = Null, h_data = Null, callback = None, h_flags = 0\<rparr>\<rparr>"

definition hcreate_r :: "bool \<Rightarrow> u32 \<Rightarrow> 'c hsearch_data option \<Rightarrow> (int \<times> int option \<times> 'c hsearch_data option) option" where
  "hcreate_r ok nel ht =
     (case ht of None \<Rightarrow> Some (0, Some EINVAL, None)
      | Some htab \<Rightarrow>
        if table htab \<noteq> Null then Some (0, None, Some htab)
        else do {
          n \<leftarrow> next_prime (nel OR 1);
          let htab = htab\<lparr>hsize := n, filled := 0\<rparr>;
              htab = htab\<lparr>table := malloc ok (replicate (unat (hsize htab + 1)) zero_slot)\<rparr> in
          Some (if table htab = Null then 0 else 1, None, Some htab) })"

definition hdestroy_r :: "'c hsearch_data option \<Rightarrow> (int option \<times> 'c hsearch_data option) option" where
  "hdestroy_r ht =
     (case ht of None \<Rightarrow> Some (Some EINVAL, None)
      | Some htab \<Rightarrow> do {
          foldM (\<lambda>i _. do { T \<leftarrow> deref (table htab); s \<leftarrow> load T i;
                            if 0 < used s then do { free (h_key (entry s)); free (h_data (entry s)) } else Some () }) [1..<unat (hsize htab) + 1] ();
          free (table htab);
          Some (None, Some (htab\<lparr>table := Null\<rparr>)) })"

section \<open>Search\<close>

text \<open>\<open>while (count-- > 0) { hval <<= 4; hval += item.key[count]; }\<close>, with the plain \<open>char\<close> of the target, which is unsigned.\<close>

fun hash_loop :: "mem \<Rightarrow> nat \<Rightarrow> u32 \<Rightarrow> u32 option" where
  "hash_loop k 0 hval = Some hval"
| "hash_loop k (Suc count) hval = do { c \<leftarrow> load k count; hash_loop k count (push_bit 4 hval + ucast c) }"

definition first_hash :: "mem \<Rightarrow> u32 \<Rightarrow> u32 option" where
  "first_hash k sz =
     do { len \<leftarrow> strlen (k @ [0]) 0;
          hval \<leftarrow> hash_loop k len (of_nat len);
          if sz = 0 then None else let hval = hval mod sz in Some (if hval = 0 then hval + 1 else hval) }"

definition rejects :: "'c hsearch_data \<Rightarrow> 'c ENTRY \<Rightarrow> mem option \<Rightarrow> env_op \<Rightarrow> int \<Rightarrow> bool" where
  "rejects htab e v op flag = (case change_ok htab of None \<Rightarrow> False | Some f \<Rightarrow> f e v op flag)"

definition calls_back :: "'c cback \<Rightarrow> 'c ENTRY \<Rightarrow> mem \<Rightarrow> mem option \<Rightarrow> env_op \<Rightarrow> int \<Rightarrow> bool" where
  "calls_back cb e k v op flag = (case callback e of None \<Rightarrow> False | Some c \<Rightarrow> cb c k v op flag)"

definition compare_and_overwrite_entry ::
  "'c cback \<Rightarrow> bool \<Rightarrow> mem \<Rightarrow> mem option \<Rightarrow> ACTION \<Rightarrow> int \<Rightarrow> u32 \<Rightarrow> u32 \<Rightarrow> 'c hsearch_data \<Rightarrow> 'c hres option" where
  "compare_and_overwrite_entry cb dup k d action flag hval idx htab =
     do { T \<leftarrow> deref (table htab); s \<leftarrow> load T (unat idx);
          hit \<leftarrow> (if of_int (used s) = hval then do { k' \<leftarrow> deref (h_key (entry s)); str_eq k k' } else Some False);
          if \<not> hit then Some (-1, None, None, htab)
          else case (if action = ENTER then d else None) of
            None \<Rightarrow> Some (uint idx, Some (unat idx), None, htab)
          | Some v \<Rightarrow>
              if rejects htab (entry s) (Some v) env_op_overwrite flag then Some (0, None, Some EPERM, htab)
              else if calls_back cb (entry s) k (Some v) env_op_overwrite flag then Some (0, None, Some EINVAL, htab)
              else do {
                free (h_data (entry s));
                let s = s\<lparr>entry := (entry s)\<lparr>h_data := malloc dup v\<rparr>\<rparr>;
                    htab = htab\<lparr>table := Blk (T[unat idx := s])\<rparr> in
                Some (if dup then (uint idx, Some (unat idx), None, htab) else (0, None, Some ENOMEM, htab)) } }"

text \<open>
  The loop over the further indices: \<^term>\<open>Inl\<close> is a \<open>return\<close>, \<^term>\<open>Inr\<close> the index with which the loop is left. The
  number bounds the passes; the caller gives the size of the table.
\<close>

fun probe_loop :: "(u32 \<Rightarrow> 'c hres option) \<Rightarrow> 'c slot list \<Rightarrow> u32 \<Rightarrow> u32 \<Rightarrow> u32 \<Rightarrow> nat \<Rightarrow> u32 \<Rightarrow> ('c hres + u32) option" where
  "probe_loop cmp T hval hval2 sz 0 idx = None"
| "probe_loop cmp T hval hval2 sz (Suc n) idx =
     (let idx = (if idx \<le> hval2 then sz + idx - hval2 else idx - hval2) in
      if idx = hval then Some (Inr idx)
      else do { r \<leftarrow> cmp idx;
                if fst r \<noteq> -1 then Some (Inl r)
                else do { s \<leftarrow> load T (unat idx); if used s \<noteq> 0 then probe_loop cmp T hval hval2 sz n idx else Some (Inr idx) } })"

definition hdelete :: "u32 \<Rightarrow> 'c hsearch_data \<Rightarrow> 'c hsearch_data option" where
  "hdelete idx htab =
     do { T \<leftarrow> deref (table htab); s \<leftarrow> load T (unat idx);
          free (h_key (entry s)); free (h_data (entry s));
          let e = (entry s)\<lparr>h_key := dangling (h_key (entry s)), h_data := dangling (h_data (entry s)), callback := None, h_flags := 0\<rparr>;
              s = s\<lparr>used := -1, entry := e\<rparr> in
          Some (htab\<lparr>table := Blk (T[unat idx := s]), filled := filled htab - 1\<rparr>) }"

text \<open>The new entry at \<open>idx\<close>: memory, the entry's own handler and flags, permission.\<close>

definition enter_new ::
  "'c cback \<Rightarrow> 'c ini \<Rightarrow> bool \<Rightarrow> bool \<Rightarrow> mem \<Rightarrow> mem option \<Rightarrow> int \<Rightarrow> u32 \<Rightarrow> u32 \<Rightarrow> 'c hsearch_data \<Rightarrow> 'c hres option" where
  "enter_new cb ini dupk dupd k d flag hval idx htab =
     do { T \<leftarrow> deref (table htab); s \<leftarrow> load T (unat idx);
          let e = (entry s)\<lparr>h_key := malloc dupk k, h_data := (case d of None \<Rightarrow> Null | Some v \<Rightarrow> malloc dupd v)\<rparr>;
              s = s\<lparr>used := sint hval, entry := e\<rparr> in
          if h_key e = Null \<or> h_data e = Null then Some (0, None, Some ENOMEM, htab\<lparr>table := Blk (T[unat idx := s])\<rparr>)
          else
            let htab = htab\<lparr>table := Blk (T[unat idx := s]), filled := filled htab + 1\<rparr>;
                (c, fl) = ini htab e;
                s = s\<lparr>entry := e\<lparr>callback := c, h_flags := fl\<rparr>\<rparr>;
                htab = htab\<lparr>table := Blk (T[unat idx := s])\<rparr> in
            if rejects htab (entry s) d env_op_create flag
            then do { htab \<leftarrow> hdelete idx htab; Some (0, None, Some EPERM, htab) }
            else if calls_back cb (entry s) k d env_op_create flag
            then do { htab \<leftarrow> hdelete idx htab; Some (0, None, Some EINVAL, htab) }
            else Some (1, Some (unat idx), None, htab) }"

definition hsearch_r ::
  "'c cback \<Rightarrow> 'c ini \<Rightarrow> bool \<Rightarrow> bool \<Rightarrow> mem \<Rightarrow> mem option \<Rightarrow> ACTION \<Rightarrow> int \<Rightarrow> 'c hsearch_data \<Rightarrow> 'c hres option" where
  "hsearch_r cb ini dupk dupd k d action flag htab =
     do { hval \<leftarrow> first_hash k (hsize htab);
          T \<leftarrow> deref (table htab); s \<leftarrow> load T (unat hval);
          let first_deleted = (if used s = -1 then hval else 0);
              cmp = (\<lambda>idx. compare_and_overwrite_entry cb dupd k d action flag hval idx htab) in
          do { res \<leftarrow>
                 (if used s \<noteq> 0
                  then do { r \<leftarrow> cmp hval;
                            if fst r \<noteq> -1 then Some (Inl r)
                            else if hsize htab - 2 = 0 then None
                            else probe_loop cmp T hval (1 + hval mod (hsize htab - 2)) (hsize htab) (unat (hsize htab)) hval }
                  else Some (Inr hval));
               case res of
                 Inl r \<Rightarrow> Some r
               | Inr idx \<Rightarrow>
                   if action = ENTER
                   then if filled htab = hsize htab then Some (0, None, Some ENOMEM, htab)
                        else enter_new cb ini dupk dupd k d flag hval (if first_deleted \<noteq> 0 then first_deleted else idx) htab
                   else Some (0, None, Some ESRCH, htab) } }"

section \<open>Search by content\<close>

definition str_has :: "mem \<Rightarrow> mem \<Rightarrow> bool option" where
  "str_has s pat = do { r \<leftarrow> strstr (s @ [0] @ pat @ [0]) 0 (length s + 1); Some (r \<noteq> None) }"

definition str_starts :: "nat \<Rightarrow> mem \<Rightarrow> mem \<Rightarrow> bool option" where
  "str_starts n pat s = do { r \<leftarrow> strncmp (pat @ [0] @ s @ [0]) 0 (length pat + 1) n; Some (r = 0) }"

fun scan_loop :: "('c ENTRY \<Rightarrow> bool option) \<Rightarrow> 'c slot list ptr \<Rightarrow> nat list \<Rightarrow> nat option option" where
  "scan_loop P tab [] = Some None"
| "scan_loop P tab (i # is) =
     do { T \<leftarrow> deref tab; s \<leftarrow> load T i;
          if used s \<le> 0 then scan_loop P tab is
          else do { hit \<leftarrow> P (entry s); if hit then Some (Some i) else scan_loop P tab is } }"

definition scan_result :: "nat option \<Rightarrow> int \<times> nat option \<times> int option" where
  "scan_result r = (case r of Some i \<Rightarrow> (int i, Some i, None) | None \<Rightarrow> (0, None, Some ESRCH))"

definition hstrstr_r :: "mem \<Rightarrow> int \<Rightarrow> 'c hsearch_data \<Rightarrow> (int \<times> nat option \<times> int option) option" where
  "hstrstr_r pat last_idx htab =
     do { r \<leftarrow> scan_loop (\<lambda>e. do { k \<leftarrow> deref (h_key e); a \<leftarrow> str_has k pat;
                                  if a then Some True else do { v \<leftarrow> deref (h_data e); str_has v pat } })
               (table htab) [unat (of_int (last_idx + 1) :: u32)..<unat (hsize htab)];
          Some (scan_result r) }"

definition hmatch_r :: "mem \<Rightarrow> int \<Rightarrow> 'c hsearch_data \<Rightarrow> (int \<times> nat option \<times> int option) option" where
  "hmatch_r pat last_idx htab =
     do { key_len \<leftarrow> strlen (pat @ [0]) 0;
          r \<leftarrow> scan_loop (\<lambda>e. do { k \<leftarrow> deref (h_key e); str_starts key_len pat k })
               (table htab) [unat (of_int (last_idx + 1) :: u32)..<unat (hsize htab)];
          Some (scan_result r) }"

text \<open>The callback of \<open>hwalk_r\<close> returns a number and may change the entry that it is given.\<close>

fun walk_loop :: "('c ENTRY \<Rightarrow> int \<times> 'c ENTRY) \<Rightarrow> nat list \<Rightarrow> 'c hsearch_data \<Rightarrow> (int \<times> 'c hsearch_data) option" where
  "walk_loop f [] htab = Some (0, htab)"
| "walk_loop f (i # is) htab =
     do { T \<leftarrow> deref (table htab); s \<leftarrow> load T i;
          if 0 < used s
          then let (retval, e) = f (entry s); htab = htab\<lparr>table := Blk (T[i := s\<lparr>entry := e\<rparr>])\<rparr> in
               if retval \<noteq> 0 then Some (retval, htab) else walk_loop f is htab
          else walk_loop f is htab }"

definition hwalk_r :: "'c hsearch_data \<Rightarrow> ('c ENTRY \<Rightarrow> int \<times> 'c ENTRY) \<Rightarrow> (int \<times> 'c hsearch_data) option" where
  "hwalk_r htab f = walk_loop f [1..<unat (hsize htab) + 1] htab"

section \<open>Deletion\<close>

text \<open>\<open>junk\<close> is what the uninitialised \<open>e.data\<close> points to.\<close>

definition hdelete_r ::
  "'c cback \<Rightarrow> mem option \<Rightarrow> mem \<Rightarrow> int \<Rightarrow> 'c hsearch_data \<Rightarrow> (int \<times> int option \<times> 'c hsearch_data) option" where
  "hdelete_r cb junk k flag htab =
     do { (idx, ep, err, htab) \<leftarrow> hsearch_r cb (\<lambda>_ _. (None, 0)) True True k junk FIND 0 htab;
          if idx = 0 then Some (0, Some ESRCH, htab)
          else do {
            T \<leftarrow> deref (table htab); s \<leftarrow> load T (nat idx);
            if rejects htab (entry s) None env_op_delete flag then Some (0, Some EPERM, htab)
            else if calls_back cb (entry s) k None env_op_delete flag then Some (0, Some EINVAL, htab)
            else do { htab \<leftarrow> hdelete (of_int idx) htab; Some (1, None, htab) } } }"

end
