(* ===== verification/Hash_Probe.thy ===== *)
theory Hash_Probe
  imports Hashtable
begin

text \<open>
  The number theory behind lib/hashtable.c: the test \<open>isprime\<close> is exact for odd numbers above three, the loop of
  \<open>hcreate_r\<close> ends at the next prime, and the second hash function walks through every index of a table of prime size.
\<close>

section \<open>Primes\<close>

definition prime_num :: "nat \<Rightarrow> bool" where
  "prime_num p \<longleftrightarrow> 1 < p \<and> (\<forall>d\<in>{2..<p}. \<not> d dvd p)"

lemma prime_num_coprime:
  assumes "prime_num p" and "0 < a" and "a < p"
  shows "coprime a p"
proof -
  have g: "gcd a p dvd p" "gcd a p \<le> a" using assms(2) by (auto intro: dvd_imp_le)
  have "gcd a p \<noteq> 0" using assms(2) by simp
  moreover have "gcd a p \<notin> {2..<p}" using assms(1) g(1) by (auto simp: prime_num_def)
  ultimately have "gcd a p = 1" using assms(3) g(2) by (simp only: atLeastLessThan_iff) linarith
  then show ?thesis by (simp add: coprime_iff_gcd_eq_1)
qed

text \<open>An odd number with no odd divisor up to its root is a prime.\<close>

lemma odd_no_divisor_prime:
  assumes "odd p" and "1 < p" and "\<And>d. odd d \<Longrightarrow> 3 \<le> d \<Longrightarrow> d * d \<le> p \<Longrightarrow> \<not> d dvd p"
  shows "prime_num p"
proof (rule ccontr)
  assume "\<not> prime_num p"
  then obtain d where d: "2 \<le> d" "d < p" "d dvd p" using assms(2) by (auto simp: prime_num_def)
  then obtain e where e: "p = d * e" by blast
  have "odd d" and "odd e" using assms(1) e by auto
  have "2 \<le> e" using d e assms(2) by (cases "e = 0"; cases "e = 1") auto
  have "3 \<le> d" and "3 \<le> e" using d(1) \<open>2 \<le> e\<close> \<open>odd d\<close> \<open>odd e\<close> by (metis even_numeral le_neq_implies_less numeral_2_eq_2 numeral_3_eq_3 Suc_leI)+
  show False
  proof (cases "d \<le> e")
    case True
    then show False using assms(3) [OF \<open>odd d\<close> \<open>3 \<le> d\<close>] d(3) e by simp
  next
    case False
    then have "e * e \<le> p" using e by simp
    then show False using assms(3) [OF \<open>odd e\<close> \<open>3 \<le> e\<close>] e by simp
  qed
qed

section \<open>The probe sequence\<close>

definition step2 :: "nat \<Rightarrow> nat \<Rightarrow> nat" where
  "step2 sz h = 1 + h mod (sz - 2)"

fun probe :: "nat \<Rightarrow> nat \<Rightarrow> nat \<Rightarrow> nat" where
  "probe sz h 0 = h"
| "probe sz h (Suc n) =
     (let i = probe sz h n in if i \<le> step2 sz h then sz + i - step2 sz h else i - step2 sz h)"

lemma step2_bounds: "3 \<le> sz \<Longrightarrow> 0 < step2 sz h \<and> step2 sz h < sz"
  using mod_less_divisor [of "sz - 2" h] unfolding step2_def by linarith

lemma probe_range: "3 \<le> sz \<Longrightarrow> 0 < h \<Longrightarrow> h \<le> sz \<Longrightarrow> 0 < probe sz h n \<and> probe sz h n \<le> sz"
  by (induction n) (use step2_bounds [of sz h] in \<open>auto simp: Let_def\<close>)

lemma probe_mod:
  assumes "3 \<le> sz" and "0 < h" and "h \<le> sz"
  shows "(probe sz h n + n * step2 sz h) mod sz = h mod sz"
proof (induction n)
  case (Suc n)
  let ?i = "probe sz h n" and ?s = "step2 sz h"
  have s: "0 < ?s" "?s < sz" using step2_bounds [OF assms(1)] by simp_all
  show ?case
  proof (cases "?i \<le> ?s")
    case True
    then have "probe sz h (Suc n) + Suc n * ?s = (?i + n * ?s) + sz" using s by (simp add: Let_def)
    then show ?thesis using Suc by (metis mod_add_self2)
  next
    case False
    then have "probe sz h (Suc n) + Suc n * ?s = ?i + n * ?s" by (simp add: Let_def)
    then show ?thesis using Suc by metis
  qed
qed simp

lemma probe_inj:
  assumes "prime_num sz" "3 \<le> sz" "0 < h" "h \<le> sz" and "m < sz" "n < sz" and eq: "probe sz h m = probe sz h n"
  shows "m = n"
proof -
  let ?s = "step2 sz h"
  have cop: "coprime (int sz) (int ?s)"
    using prime_num_coprime [OF assms(1), of ?s] step2_bounds [OF assms(2), of h] by (simp add: coprime_commute)
  have "(probe sz h n + m * ?s) mod sz = (probe sz h n + n * ?s) mod sz"
    using probe_mod [OF assms(2-4), of m] probe_mod [OF assms(2-4), of n] eq by simp
  then have "(int (probe sz h n) + int m * int ?s) mod int sz = (int (probe sz h n) + int n * int ?s) mod int sz"
    by (metis of_nat_add of_nat_mult zmod_int)
  then have "int sz dvd (int m - int n) * int ?s" by (simp add: mod_eq_dvd_iff left_diff_distrib)
  then have "int sz dvd int m - int n" using cop by (simp add: coprime_dvd_mult_left_iff)
  then have "int m mod int sz = int n mod int sz" by (simp add: mod_eq_dvd_iff)
  then show ?thesis using assms(5,6) by simp
qed

lemma probe_surj:
  assumes "prime_num sz" "3 \<le> sz" "0 < h" "h \<le> sz" and "0 < i" "i \<le> sz"
  shows "\<exists>n. n < sz \<and> probe sz h n = i"
proof -
  have inj: "inj_on (probe sz h) {..<sz}" using probe_inj [OF assms(1-4)] by (auto intro: inj_onI)
  have "probe sz h ` {..<sz} \<subseteq> {1..sz}" using probe_range [OF assms(2-4)] by (auto simp: Suc_le_eq)
  moreover have "card (probe sz h ` {..<sz}) = card {1..sz}" using inj by (simp add: card_image)
  ultimately have "probe sz h ` {..<sz} = {1..sz}" by (intro card_subset_eq) simp_all
  moreover have "i \<in> {1..sz}" using assms(5,6) by simp
  ultimately show ?thesis by (metis imageE lessThan_iff)
qed

lemma probe_back:
  assumes "3 \<le> sz" "0 < h" "h < sz" shows "probe sz h sz = h"
proof -
  have "(probe sz h sz + sz * step2 sz h) mod sz = h mod sz" using probe_mod [of sz h sz] assms by simp
  then have *: "probe sz h sz mod sz = h" using assms by simp
  moreover have "0 < probe sz h sz" "probe sz h sz \<le> sz" using probe_range [of sz h sz] assms by simp_all
  ultimately show ?thesis using assms(2) by (cases "probe sz h sz = sz") simp_all
qed

section \<open>The size of the table\<close>

lemma unat_mult_u16_range: "unat (a :: u32) < 65536 \<Longrightarrow> unat b < 65536 \<Longrightarrow> unat (a * b) = unat a * unat b"
proof -
  assume "unat a < 65536" "unat b < 65536"
  then have "unat a * unat b \<le> 65535 * 65535" by (intro mult_le_mono) simp_all
  then show ?thesis by (simp add: unat_word_ariths)
qed

lemma mod_zero_iff_dvd: "(a :: u32) mod b = 0 \<longleftrightarrow> unat b dvd unat a"
  by (simp add: word_unat_eq_iff unat_mod mod_eq_0_iff_dvd)

text \<open>The loop ends at an odd number with no smaller odd divisor, which divides or whose square is large enough.\<close>

lemma isprime_loop_ends:
  assumes "unat num < 16777216" and "odd (unat d)" and "3 \<le> unat d" and "unat d \<le> 5001"
    and "\<And>e. odd e \<Longrightarrow> 3 \<le> e \<Longrightarrow> e < unat d \<Longrightarrow> \<not> e dvd unat num"
    and "unat d = 3 \<or> (unat d - 2) * (unat d - 2) < unat num"
  shows "\<exists>r. isprime_loop num d = Some r \<and> 3 \<le> unat r \<and> odd (unat r)
           \<and> (\<forall>e. odd e \<longrightarrow> 3 \<le> e \<longrightarrow> e < unat r \<longrightarrow> \<not> e dvd unat num)
           \<and> (unat r = 3 \<or> (unat r - 2) * (unat r - 2) < unat num)
           \<and> (unat num \<le> unat r * unat r \<or> unat r dvd unat num)"
  using assms(2-6)
proof (induction "5001 - unat d" arbitrary: d rule: less_induct)
  case less
  show ?case
  proof (cases "d * d < num \<and> num mod d \<noteq> 0")
    case True
    have sq: "unat d * unat d < unat num" using True less.prems(3) by (simp add: word_less_nat_alt unat_mult_u16_range)
    have d5: "unat d < 4999"
    proof (rule ccontr)
      assume "\<not> unat d < 4999"
      then have "4999 * 4999 \<le> unat d * unat d" by (intro mult_le_mono) simp_all
      then show False using sq assms(1) by simp
    qed
    have d2: "unat (d + 2) = unat d + 2" using d5 by (simp add: unat_add_u32)
    have nd: "\<not> e dvd unat num" if "odd e" "3 \<le> e" "e < unat (d + 2)" for e
    proof (cases "e < unat d")
      case False
      then have "e = unat d \<or> e = unat d + 1" using that(3) d2 by linarith
      then have "e = unat d" using that(1) less.prems(1) by auto
      then show ?thesis using True by (simp add: mod_zero_iff_dvd)
    qed (use less.prems(4) that in blast)
    have "\<exists>r. isprime_loop num (d + 2) = Some r \<and> 3 \<le> unat r \<and> odd (unat r)
           \<and> (\<forall>e. odd e \<longrightarrow> 3 \<le> e \<longrightarrow> e < unat r \<longrightarrow> \<not> e dvd unat num)
           \<and> (unat r = 3 \<or> (unat r - 2) * (unat r - 2) < unat num)
           \<and> (unat num \<le> unat r * unat r \<or> unat r dvd unat num)"
      by (rule less.hyps) (use d2 d5 less.prems(1,2) nd sq in auto)
    then show ?thesis using True isprime_loop.simps [of num d] by simp
  next
    case False
    then have "isprime_loop num d = Some d" using isprime_loop.simps [of num d] by (simp only: if_False)
    moreover have "unat num \<le> unat d * unat d \<or> unat d dvd unat num"
      using False less.prems(3) by (auto simp: word_less_nat_alt unat_mult_u16_range mod_zero_iff_dvd)
    ultimately show ?thesis using less.prems by blast
  qed
qed

lemma isprime_prime:
  assumes "odd (unat num)" and "3 < unat num" and "unat num < 16777216"
  shows "isprime num = Some (prime_num (unat num))"
proof -
  obtain r where r: "isprime_loop num 3 = Some r" "3 \<le> unat r" "odd (unat r)"
      "\<And>e. odd e \<Longrightarrow> 3 \<le> e \<Longrightarrow> e < unat r \<Longrightarrow> \<not> e dvd unat num"
      "unat r = 3 \<or> (unat r - 2) * (unat r - 2) < unat num" "unat num \<le> unat r * unat r \<or> unat r dvd unat num"
    using isprime_loop_ends [OF assms(3), of 3] by auto
  have "num mod r \<noteq> 0 \<longleftrightarrow> prime_num (unat num)"
  proof
    assume nz: "num mod r \<noteq> 0"
    then have le: "unat num \<le> unat r * unat r" using r(6) by (simp add: mod_zero_iff_dvd)
    show "prime_num (unat num)"
    proof (rule odd_no_divisor_prime)
      fix d assume d: "odd d" "3 \<le> d" "d * d \<le> unat num"
      have "d \<le> unat r"
      proof (rule ccontr)
        assume "\<not> d \<le> unat r"
        then have "unat r * unat r < d * d" by (intro mult_strict_mono) simp_all
        then show False using d(3) le by simp
      qed
      then show "\<not> d dvd unat num" using r(4) [of d] d nz by (cases "d = unat r") (auto simp: mod_zero_iff_dvd)
    qed (use assms in simp_all)
  next
    assume p: "prime_num (unat num)"
    have "unat r < unat num"
    proof (rule ccontr)
      assume c: "\<not> unat r < unat num"
      then have "unat r \<noteq> 3" using assms(2) by simp
      then have "(unat r - 2) * (unat r - 2) < unat num" using r(5) by blast
      moreover have "2 * (unat r - 2) \<le> (unat r - 2) * (unat r - 2)" using c assms(2) by (intro mult_le_mono) simp_all
      ultimately show False using c assms(2) by linarith
    qed
    then show "num mod r \<noteq> 0" using p r(2) by (auto simp: prime_num_def mod_zero_iff_dvd)
  qed
  then show ?thesis using r(1) by (simp add: isprime_def)
qed

lemma prime_65521: "prime_num 65521"
proof (rule odd_no_divisor_prime)
  fix d :: nat
  assume "3 \<le> d" and sq: "d * d \<le> 65521"
  have "d < 256"
  proof (rule ccontr)
    assume "\<not> d < 256"
    then have "256 * 256 \<le> d * d" by (intro mult_le_mono) simp_all
    then show False using sq by simp
  qed
  then have "int d \<in> set [3..255]" using \<open>3 \<le> d\<close> by (simp only: set_upto) simp
  moreover have "list_all (\<lambda>d. 65521 mod d \<noteq> (0 :: int)) [3..255]" by code_simp
  ultimately have "65521 mod int d \<noteq> 0" by (simp only: list_all_iff) blast
  then show "\<not> d dvd 65521" by (metis dvd_imp_mod_0 of_nat_dvd_iff of_nat_numeral)
qed simp_all

lemma prime_num_odd: "prime_num p \<Longrightarrow> 2 < p \<Longrightarrow> odd p"
  by (auto simp: prime_num_def)

lemma next_prime_least:
  assumes "odd (unat nel)" and "3 < unat nel" and "unat nel \<le> p" and "prime_num p" and "p < 16777216"
    and "\<And>q. unat nel \<le> q \<Longrightarrow> q < p \<Longrightarrow> \<not> prime_num q"
  shows "next_prime nel = Some (of_nat p)"
  using assms(1-3,6)
proof (induction "p - unat nel" arbitrary: nel rule: less_induct)
  case less
  have ip: "isprime nel = Some (prime_num (unat nel))"
    using less.prems assms(5) by (intro isprime_prime) linarith+
  show ?case
  proof (cases "prime_num (unat nel)")
    case True
    then have "unat nel = p" using less.prems(3,4) by (metis le_neq_implies_less order_refl)
    then show ?thesis using ip True next_prime.simps [of nel] by auto
  next
    case False
    have "odd p" using assms(4) prime_num_odd less.prems(2,3) by simp
    moreover have "unat nel \<noteq> p" using False assms(4) by metis
    ultimately have lt: "unat nel + 2 \<le> p" using less.prems(1,3) by presburger
    have u: "unat (nel + 2) = unat nel + 2" using lt assms(5) by (simp add: unat_add_u32)
    have "next_prime (nel + 2) = Some (of_nat p)"
    proof (rule less.hyps)
      fix q assume "unat (nel + 2) \<le> q" "q < p"
      then show "\<not> prime_num q" using less.prems(4) [of q] u by simp
    qed (use u lt less.prems(1,2) in simp_all)
    then show ?thesis using ip False next_prime.simps [of nel] by simp
  qed
qed

end
