(* ===== verification/Hashtable_Proofs.thy ===== *)
theory Hashtable_Proofs
  imports Hash_Probe String_Proofs
begin

unbundle bit_operations_syntax

text \<open>
  The hash table as a finite map. The invariant \<open>hwf\<close> says what the chains, the stored hash values and the counter
  keep; \<open>hsearch_r\<close> and \<open>hdelete_r\<close> are look-up, update and removal on the map of the live entries. The contract is
  the locale \<open>var_store\<close>, interpreted on the table.
\<close>

section \<open>Strings and the first hash function\<close>

lemma cstr_first: "0 \<notin> set k \<Longrightarrow> cstr (k @ [0] @ r) 0 k"
  by (simp add: cstr_iff nth_append)

lemma cstr_second: "0 \<notin> set k \<Longrightarrow> cstr (a @ [0] @ k @ [0]) (length a + 1) k"
  by (simp add: cstr_iff nth_append)

lemma strlen_str: "0 \<notin> set k \<Longrightarrow> strlen (k @ [0]) 0 = Some (length k)"
  using cstr_first [of k "[]"] by (intro strlen_cstr) simp

lemma str_eq_iff: "0 \<notin> set a \<Longrightarrow> 0 \<notin> set b \<Longrightarrow> str_eq a b = Some (a = b)"
  using strcmp_cstr [OF cstr_first [of a "b @ [0]"] cstr_second [of b a]] by (auto simp: str_eq_def)

lemma hash_loop_total: "n \<le> length k \<Longrightarrow> \<exists>h. hash_loop k n x = Some h"
  by (induction n arbitrary: x) (auto simp: load_Some)

definition hash_of :: "u32 \<Rightarrow> mem \<Rightarrow> u32" where
  "hash_of sz k = the (first_hash k sz)"

lemma first_hash_ok:
  assumes "0 \<notin> set k" and "2 \<le> unat sz"
  shows "first_hash k sz = Some (hash_of sz k)" and "0 < unat (hash_of sz k)" and "unat (hash_of sz k) < unat sz"
proof -
  obtain h where h: "hash_loop k (length k) (of_nat (length k)) = Some h" using hash_loop_total [of "length k" k] by blast
  have nz: "sz \<noteq> 0" using assms(2) by auto
  have e: "first_hash k sz = Some (if h mod sz = 0 then h mod sz + 1 else h mod sz)"
    using h nz strlen_str [OF assms(1)] by (simp add: first_hash_def Let_def)
  then show "first_hash k sz = Some (hash_of sz k)" by (simp add: hash_of_def)
  have "unat (h mod sz) < unat sz" using assms(2) by (simp add: unat_mod)
  moreover have "h mod sz \<noteq> 0 \<Longrightarrow> 0 < unat (h mod sz)" by (simp add: unat_gt_0)
  ultimately show "0 < unat (hash_of sz k)" and "unat (hash_of sz k) < unat sz"
    using e assms(2) by (auto simp: hash_of_def)
qed

section \<open>The invariant\<close>

text \<open>A slot is empty, deleted, or holds two strings, the hash value of the first, and is reached by the probe sequence
  of that value through slots that are not empty.\<close>

definition chain :: "u32 \<Rightarrow> 'c slot list \<Rightarrow> u32 \<Rightarrow> nat \<Rightarrow> bool" where
  "chain sz T h m \<longleftrightarrow> (\<forall>j\<in>{0..<m}. used (T ! probe (unat sz) (unat h) j) \<noteq> 0)"

definition slot_ok :: "u32 \<Rightarrow> 'c slot list \<Rightarrow> nat \<Rightarrow> bool" where
  "slot_ok sz T i \<longleftrightarrow> used (T ! i) = 0 \<or> used (T ! i) = -1 \<or>
     (case h_key (entry (T ! i)) of Blk k \<Rightarrow>
        (case h_data (entry (T ! i)) of Blk v \<Rightarrow>
           0 \<notin> set k \<and> 0 \<notin> set v \<and> used (T ! i) = uint (hash_of sz k) \<and>
           (\<exists>m\<in>{0..<unat sz}. probe (unat sz) (unat (hash_of sz k)) m = i \<and> chain sz T (hash_of sz k) m)
         | _ \<Rightarrow> False)
      | _ \<Rightarrow> False)"

definition at_key :: "'c slot list \<Rightarrow> nat \<Rightarrow> mem \<Rightarrow> bool" where
  "at_key T i k \<longleftrightarrow> 0 < used (T ! i) \<and> h_key (entry (T ! i)) = Blk k"

definition tab_ok :: "u32 \<Rightarrow> 'c slot list \<Rightarrow> bool" where
  "tab_ok sz T \<longleftrightarrow> length T = unat sz + 1 \<and> (\<forall>i\<in>{1..unat sz}. slot_ok sz T i)
     \<and> (\<forall>i\<in>{1..unat sz}. \<forall>j\<in>{1..unat sz}.
          0 < used (T ! i) \<and> 0 < used (T ! j) \<and> h_key (entry (T ! i)) = h_key (entry (T ! j)) \<longrightarrow> i = j)"

definition size_ok :: "u32 \<Rightarrow> bool" where
  "size_ok sz \<longleftrightarrow> prime_num (unat sz) \<and> 5 \<le> unat sz \<and> unat sz < 16777216"

definition lives :: "u32 \<Rightarrow> 'c slot list \<Rightarrow> nat set" where
  "lives sz T = {i \<in> {1..unat sz}. 0 < used (T ! i)}"

definition hwf :: "'c hsearch_data \<Rightarrow> bool" where
  "hwf htab \<longleftrightarrow> size_ok (hsize htab) \<and>
     (case table htab of Blk T \<Rightarrow> tab_ok (hsize htab) T \<and> unat (filled htab) = card (lives (hsize htab) T) | _ \<Rightarrow> False)"

text \<open>The part of the invariant that searching needs. It holds also when \<open>filled\<close> is wrong.\<close>

definition searchable :: "'c hsearch_data \<Rightarrow> bool" where
  "searchable htab \<longleftrightarrow> size_ok (hsize htab) \<and> (case table htab of Blk T \<Rightarrow> tab_ok (hsize htab) T | _ \<Rightarrow> False)"

lemma hwf_searchable: "hwf htab \<Longrightarrow> searchable htab"
  by (auto simp: hwf_def searchable_def split: ptr.splits)

lemma searchableE:
  assumes "searchable htab"
  obtains T where "table htab = Blk T" "size_ok (hsize htab)" "tab_ok (hsize htab) T"
  using assms by (auto simp: searchable_def split: ptr.splits)

lemma at_key_unique: "tab_ok sz T \<Longrightarrow> at_key T i k \<Longrightarrow> at_key T j k \<Longrightarrow> i \<in> {1..unat sz} \<Longrightarrow> j \<in> {1..unat sz} \<Longrightarrow> i = j"
  unfolding tab_ok_def at_key_def by metis

lemma tab_ok_slot: "tab_ok sz T \<Longrightarrow> i \<in> {1..unat sz} \<Longrightarrow> slot_ok sz T i"
  unfolding tab_ok_def by blast

lemma tab_ok_length: "tab_ok sz T \<Longrightarrow> length T = unat sz + 1"
  unfolding tab_ok_def by blast

lemma at_keyE:
  assumes "tab_ok sz T" and "at_key T i k" and "i \<in> {1..unat sz}"
  obtains v m where "h_data (entry (T ! i)) = Blk v" "0 \<notin> set k" "0 \<notin> set v" "used (T ! i) = uint (hash_of sz k)"
    "m < unat sz" "probe (unat sz) (unat (hash_of sz k)) m = i" "chain sz T (hash_of sz k) m"
proof -
  have "slot_ok sz T i" using assms(1,3) by (rule tab_ok_slot)
  then show thesis using assms(2) that by (auto simp: slot_ok_def at_key_def split: ptr.splits)
qed

lemma live_at_key:
  assumes "tab_ok sz T" and "0 < used (T ! i)" and "i \<in> {1..unat sz}"
  shows "\<exists>k. at_key T i k"
proof -
  have "slot_ok sz T i" using assms(1,3) by (rule tab_ok_slot)
  then show ?thesis using assms(2) by (auto simp: slot_ok_def at_key_def split: ptr.splits)
qed

lemma used_cases: "tab_ok sz T \<Longrightarrow> i \<in> {1..unat sz} \<Longrightarrow> used (T ! i) = 0 \<or> used (T ! i) = -1 \<or> (\<exists>k. at_key T i k)"
proof -
  assume a: "tab_ok sz T" "i \<in> {1..unat sz}"
  then have "slot_ok sz T i" by (rule tab_ok_slot)
  then have "used (T ! i) = 0 \<or> used (T ! i) = -1 \<or> 0 < used (T ! i)"
    by (auto simp: slot_ok_def less_le split: ptr.splits)
  then show ?thesis using live_at_key [OF a(1) _ a(2)] by blast
qed

section \<open>The search loop\<close>

lemma unat_idx: "size_ok sz \<Longrightarrow> i \<le> unat sz \<Longrightarrow> unat (of_nat i :: u32) = i"
  by (simp add: size_ok_def unat_of_nat)

lemma word_of_unat: "unat (x :: u32) = n \<Longrightarrow> x = of_nat n"
  by auto

lemma of_int_minus_one_hash: "unat (h :: u32) < 16777216 \<Longrightarrow> (of_int (-1) :: u32) \<noteq> h"
proof -
  assume "unat h < 16777216"
  moreover have "unat (- 1 :: u32) = 4294967295" by (simp add: unsigned_minus_1_eq_mask mask_eq_exp_minus_1)
  ultimately show ?thesis by auto
qed

text \<open>What the comparison answers at a slot that does not hold the key.\<close>

lemma compare_miss:
  assumes sz: "size_ok (hsize htab)" and T: "table htab = Blk T" "tab_ok (hsize htab) T" and k: "0 \<notin> set k"
    and i: "i \<in> {1..unat (hsize htab)}" and miss: "\<not> at_key T i k"
  shows "compare_and_overwrite_entry cb dup k d action flag (hash_of (hsize htab) k) (of_nat i) htab = Some (-1, None, None, htab)"
proof -
  let ?h = "hash_of (hsize htab) k" and ?s = "T ! i"
  have ui: "unat (of_nat i :: u32) = i" using unat_idx [OF sz, of i] i by simp
  have len: "i < length T" using tab_ok_length [OF T(2)] i by simp
  have h: "0 < unat ?h" "unat ?h < 16777216" using first_hash_ok [OF k, of "hsize htab"] sz by (auto simp: size_ok_def)
  have "(if of_int (used ?s) = ?h then do { k' \<leftarrow> deref (h_key (entry ?s)); str_eq k k' } else Some False) = Some False"
  proof (cases "of_int (used ?s) = ?h")
    case True
    then have "used ?s \<noteq> 0" "used ?s \<noteq> -1" using h of_int_minus_one_hash by auto
    then obtain k' where k': "at_key T i k'" using used_cases [OF T(2) i] by blast
    then obtain v where "h_key (entry ?s) = Blk k'" "0 \<notin> set k'" using at_keyE [OF T(2) _ i] by (metis at_key_def)
    then show ?thesis using str_eq_iff [OF k, of k'] k' miss True by auto
  qed simp
  then show ?thesis using T(1) len ui by (simp add: compare_and_overwrite_entry_def load_Some)
qed

lemma unat_step2:
  assumes "size_ok sz"
  shows "unat (1 + h mod (sz - 2)) = step2 (unat sz) (unat h)"
proof -
  have s: "unat (sz - 2) = unat sz - 2" using assms unfolding size_ok_def unat_sub_u32 by (subst mod_if) auto
  have "unat (h mod (sz - 2)) = unat h mod (unat sz - 2)" using s by (simp add: unat_mod)
  moreover have "unat h mod (unat sz - 2) < unat sz" using assms mod_less_divisor [of "unat sz - 2" "unat h"] unfolding size_ok_def by linarith
  ultimately show ?thesis using assms by (simp add: unat_add_u32 size_ok_def step2_def)
qed

lemma probe_word_step:
  fixes sz h :: u32 and n :: nat
  assumes sz: "size_ok sz" and h: "0 < unat h" "unat h < unat sz"
  defines "i \<equiv> of_nat (probe (unat sz) (unat h) n) :: u32" and "h2 \<equiv> 1 + h mod (sz - 2)"
  shows "(if i \<le> h2 then sz + i - h2 else i - h2) = of_nat (probe (unat sz) (unat h) (Suc n))"
proof -
  let ?p = "probe (unat sz) (unat h) n" and ?q = "step2 (unat sz) (unat h)"
  have r: "0 < ?p" "?p \<le> unat sz" using probe_range [of "unat sz" "unat h" n] sz h by (simp_all add: size_ok_def)
  have q: "0 < ?q" "?q < unat sz" using step2_bounds [of "unat sz" "unat h"] sz by (simp_all add: size_ok_def)
  have i: "unat i = ?p" using unat_idx [OF sz r(2)] by (simp add: i_def)
  have h2: "unat h2 = ?q" using unat_step2 [OF sz] by (simp add: h2_def)
  have m: "unat sz < 16777216" using sz by (simp add: size_ok_def)
  show ?thesis
  proof (cases "i \<le> h2")
    case True
    then have le: "?p \<le> ?q" using i h2 by (simp add: word_le_nat_alt)
    have "unat (sz + i) = unat sz + ?p" using i m r by (simp add: unat_add_u32)
    then have "unat (sz + i - h2) = unat sz + ?p - ?q" using h2 q r m by (simp add: unat_sub_u32 mod_if)
    then have "sz + i - h2 = of_nat (unat sz + ?p - ?q)" by (rule word_of_unat)
    then show ?thesis using True le by (simp add: Let_def)
  next
    case False
    then have lt: "?q < ?p" using i h2 by (simp add: word_le_nat_alt)
    have "unat (i - h2) = ?p - ?q" using i h2 lt r m by (simp add: unat_sub_u32 mod_if)
    then have "i - h2 = of_nat (?p - ?q)" by (rule word_of_unat)
    then show ?thesis using False lt by (simp add: Let_def)
  qed
qed

lemma probe_loop_step:
  fixes sz h :: u32 and n :: nat
  assumes sz: "size_ok sz" and h: "0 < unat h" "unat h < unat sz"
  defines "i \<equiv> probe (unat sz) (unat h) (Suc n)"
  shows "probe_loop cmp T h (1 + h mod (sz - 2)) sz (Suc f) (of_nat (probe (unat sz) (unat h) n)) =
    (if i = unat h then Some (Inr h)
     else do { r \<leftarrow> cmp (of_nat i);
               if fst r \<noteq> -1 then Some (Inl r)
               else do { s \<leftarrow> load T i; if used s \<noteq> 0 then probe_loop cmp T h (1 + h mod (sz - 2)) sz f (of_nat i) else Some (Inr (of_nat i)) } })"
proof -
  have "i \<le> unat sz" using probe_range [of "unat sz" "unat h" "Suc n"] sz h by (simp add: size_ok_def i_def)
  then have ui: "unat (of_nat i :: u32) = i" by (rule unat_idx [OF sz])
  have eq: "of_nat i = h \<longleftrightarrow> i = unat h" using ui word_of_unat [of h i] by auto
  show ?thesis
    unfolding probe_loop.simps Let_def probe_word_step [OF sz h] i_def [symmetric] ui eq by (simp add: eq)
qed

lemma probe_loop_skip:
  fixes T :: "'c slot list"
  assumes sz: "size_ok sz" and h: "0 < unat h" "unat h < unat sz" and len: "length T = unat sz + 1"
    and m: "n \<le> m" "m < unat sz"
    and miss: "\<And>j. n < j \<Longrightarrow> j \<le> m \<Longrightarrow> cmp (of_nat (probe (unat sz) (unat h) j)) = Some (-1, r)
                  \<and> used (T ! probe (unat sz) (unat h) j) \<noteq> 0"
  shows "probe_loop cmp T h (1 + h mod (sz - 2)) sz (f + (m - n)) (of_nat (probe (unat sz) (unat h) n)) =
         probe_loop cmp T h (1 + h mod (sz - 2)) sz f (of_nat (probe (unat sz) (unat h) m))"
  using m miss
proof (induction "m - n" arbitrary: n)
  case (Suc d)
  let ?P = "probe (unat sz) (unat h)"
  have lt: "n < m" using Suc.hyps(2) by simp
  have "?P (Suc n) \<noteq> unat h"
    using probe_inj [of "unat sz" "unat h" "Suc n" 0] sz h lt m(2) by (auto simp: size_ok_def)
  moreover have "?P (Suc n) < length T"
    using probe_range [of "unat sz" "unat h" "Suc n"] sz h len by (simp add: size_ok_def)
  moreover have "cmp (of_nat (?P (Suc n))) = Some (-1, r)" "used (T ! ?P (Suc n)) \<noteq> 0" using Suc.prems(3) [of "Suc n"] lt by simp_all
  moreover have "f + (m - n) = Suc (f + (m - Suc n))" using lt by simp
  ultimately have "probe_loop cmp T h (1 + h mod (sz - 2)) sz (f + (m - n)) (of_nat (?P n))
     = probe_loop cmp T h (1 + h mod (sz - 2)) sz (f + (m - Suc n)) (of_nat (?P (Suc n)))"
    using probe_loop_step [OF sz h, of cmp T "f + (m - Suc n)" n] by (simp add: load_Some del: probe.simps)
  also have "\<dots> = probe_loop cmp T h (1 + h mod (sz - 2)) sz f (of_nat (?P m))"
    by (rule Suc.hyps(1)) (use Suc.hyps(2) Suc.prems lt in auto)
  finally show ?case .
qed simp

text \<open>The loop stops at the first slot of the sequence that answers or is empty, or returns to the start.\<close>

lemma probe_loop_stops:
  fixes T :: "'c slot list"
  assumes sz: "size_ok sz" and h: "0 < unat h" "unat h < unat sz" and len: "length T = unat sz + 1"
    and m: "0 < m" "m \<le> unat sz"
    and miss: "\<And>j. 0 < j \<Longrightarrow> j < m \<Longrightarrow> cmp (of_nat (probe (unat sz) (unat h) j)) = Some (-1, r)
                  \<and> used (T ! probe (unat sz) (unat h) j) \<noteq> 0"
  defines "i \<equiv> probe (unat sz) (unat h) m"
  shows "m = unat sz \<Longrightarrow> probe_loop cmp T h (1 + h mod (sz - 2)) sz (unat sz) h = Some (Inr h)"
    and "m < unat sz \<Longrightarrow> cmp (of_nat i) = Some q \<Longrightarrow> fst q \<noteq> -1 \<Longrightarrow>
           probe_loop cmp T h (1 + h mod (sz - 2)) sz (unat sz) h = Some (Inl q)"
    and "m < unat sz \<Longrightarrow> cmp (of_nat i) = Some (-1, r) \<Longrightarrow> used (T ! i) = 0 \<Longrightarrow>
           probe_loop cmp T h (1 + h mod (sz - 2)) sz (unat sz) h = Some (Inr (of_nat i))"
proof -
  let ?P = "probe (unat sz) (unat h)" and ?f = "unat sz - m"
  have f: "Suc ?f + (m - 1 - 0) = unat sz" using m by simp
  have h0: "(of_nat (?P 0) :: u32) = h" by simp
  have "probe_loop cmp T h (1 + h mod (sz - 2)) sz (Suc ?f + (m - 1 - 0)) (of_nat (?P 0))
     = probe_loop cmp T h (1 + h mod (sz - 2)) sz (Suc ?f) (of_nat (?P (m - 1)))"
    by (rule probe_loop_skip [OF sz h len, where r = r]) (use m miss in auto)
  then have e: "probe_loop cmp T h (1 + h mod (sz - 2)) sz (unat sz) h
     = probe_loop cmp T h (1 + h mod (sz - 2)) sz (Suc ?f) (of_nat (?P (m - 1)))"
    unfolding f h0 .
  have Sm: "Suc (m - 1) = m" using m by simp
  note st = e [unfolded probe_loop_step [OF sz h], unfolded Sm, folded i_def]
  have ne: "i \<noteq> unat h" if "m < unat sz"
    using probe_inj [of "unat sz" "unat h" m 0] sz h m(1) that by (auto simp: size_ok_def i_def)
  have il: "i < length T" using probe_range [of "unat sz" "unat h" m] sz h len by (simp add: size_ok_def i_def)
  show "m = unat sz \<Longrightarrow> probe_loop cmp T h (1 + h mod (sz - 2)) sz (unat sz) h = Some (Inr h)"
    using st probe_back [of "unat sz" "unat h"] sz h by (simp add: size_ok_def i_def)
  show "m < unat sz \<Longrightarrow> cmp (of_nat i) = Some q \<Longrightarrow> fst q \<noteq> -1 \<Longrightarrow>
           probe_loop cmp T h (1 + h mod (sz - 2)) sz (unat sz) h = Some (Inl q)"
    using st ne by simp
  show "m < unat sz \<Longrightarrow> cmp (of_nat i) = Some (-1, r) \<Longrightarrow> used (T ! i) = 0 \<Longrightarrow>
           probe_loop cmp T h (1 + h mod (sz - 2)) sz (unat sz) h = Some (Inr (of_nat i))"
    using st ne il by (simp add: load_Some)
qed

section \<open>What a search does\<close>

lemma hwfE:
  assumes "hwf htab"
  obtains T where "table htab = Blk T" "size_ok (hsize htab)" "tab_ok (hsize htab) T"
    "unat (filled htab) = card (lives (hsize htab) T)"
  using assms by (auto simp: hwf_def split: ptr.splits)

lemma hash_bounds:
  assumes "size_ok sz" and "0 \<notin> set k"
  shows "first_hash k sz = Some (hash_of sz k)" and "0 < unat (hash_of sz k)" and "unat (hash_of sz k) < unat sz"
  using first_hash_ok [OF assms(2), of sz] assms(1) by (auto simp: size_ok_def)

definition entered :: "'c slot list \<Rightarrow> nat \<Rightarrow> mem ptr \<Rightarrow> 'c slot list" where
  "entered T i v = T[i := (T ! i)\<lparr>entry := (entry (T ! i))\<lparr>h_data := v\<rparr>\<rparr>]"

lemma compare_hit:
  assumes sz: "size_ok (hsize htab)" and T: "table htab = Blk T" "tab_ok (hsize htab) T"
    and i: "i \<in> {1..unat (hsize htab)}" and hit: "at_key T i k"
  shows "compare_and_overwrite_entry cb dup k d action flag (hash_of (hsize htab) k) (of_nat i) htab =
    (case (if action = ENTER then d else None) of
       None \<Rightarrow> Some (int i, Some i, None, htab)
     | Some v \<Rightarrow>
         if rejects htab (entry (T ! i)) (Some v) env_op_overwrite flag then Some (0, None, Some EPERM, htab)
         else if calls_back cb (entry (T ! i)) k (Some v) env_op_overwrite flag then Some (0, None, Some EINVAL, htab)
         else if dup then Some (int i, Some i, None, htab\<lparr>table := Blk (entered T i (Blk v))\<rparr>)
         else Some (0, None, Some ENOMEM, htab\<lparr>table := Blk (entered T i Null)\<rparr>))"
proof -
  obtain v0 where v0: "h_data (entry (T ! i)) = Blk v0" "0 \<notin> set k" "used (T ! i) = uint (hash_of (hsize htab) k)"
    using at_keyE [OF T(2) hit i] by metis
  have ui: "unat (of_nat i :: u32) = i" using unat_idx [OF sz, of i] i by simp
  have len: "i < length T" using tab_ok_length [OF T(2)] i by simp
  have key: "h_key (entry (T ! i)) = Blk k" using hit by (simp add: at_key_def)
  have uint: "uint (of_nat i :: u32) = int i" using ui by (metis uint_nat)
  show ?thesis
    using T(1) len ui uint key v0 str_eq_iff [OF v0(2) v0(2)]
    by (cases "if action = ENTER then d else None")
       (auto simp: compare_and_overwrite_entry_def load_Some entered_def malloc_def Let_def)
qed

lemma hsearch_hit:
  assumes sz: "size_ok (hsize htab)" and T: "table htab = Blk T" "tab_ok (hsize htab) T"
    and i: "i \<in> {1..unat (hsize htab)}" and hit: "at_key T i k"
  shows "hsearch_r cb ini dupk dupd k d action flag htab =
    compare_and_overwrite_entry cb dupd k d action flag (hash_of (hsize htab) k) (of_nat i) htab"
proof -
  let ?sz = "hsize htab" and ?h = "hash_of (hsize htab) k"
  let ?P = "probe (unat ?sz) (unat ?h)" and ?cmp = "\<lambda>idx. compare_and_overwrite_entry cb dupd k d action flag ?h idx htab"
  obtain m where m: "m < unat ?sz" "?P m = i" "chain ?sz T ?h m" and k: "0 \<notin> set k"
    and u: "used (T ! i) = uint ?h"
    using at_keyE [OF T(2) hit i] by metis
  note hb = hash_bounds [OF sz k]
  have s5: "prime_num (unat ?sz)" "3 \<le> unat ?sz" using sz by (simp_all add: size_ok_def)
  have len: "length T = unat ?sz + 1" by (rule tab_ok_length [OF T(2)])
  have "\<exists>r. ?cmp (of_nat i) = Some r \<and> fst r \<noteq> -1"
    unfolding compare_hit [OF sz T i hit] by (cases "if action = ENTER then d else None") auto
  then obtain r where r: "?cmp (of_nat i) = Some r" "fst r \<noteq> -1" by blast
  have rng: "?P j \<in> {1..unat ?sz}" for j using probe_range [OF s5(2), of "unat ?h" j] hb by simp
  have miss: "?cmp (of_nat (?P j)) = Some (-1, None, None, htab) \<and> used (T ! ?P j) \<noteq> 0" if "j < m" for j
  proof
    have "?P j \<noteq> i" using probe_inj [OF s5, of "unat ?h" j m] hb m that by auto
    then have "\<not> at_key T (?P j) k" using at_key_unique [OF T(2) _ hit rng i] by blast
    then show "?cmp (of_nat (?P j)) = Some (-1, None, None, htab)" by (rule compare_miss [OF sz T k rng])
    show "used (T ! ?P j) \<noteq> 0" using m(3) that by (simp add: chain_def)
  qed
  have ns: "?sz - 2 \<noteq> 0" using sz by (auto simp: size_ok_def)
  have lh: "load T (unat ?h) = Some (T ! unat ?h)" using hb len by (simp add: load_Some)
  show ?thesis
  proof (cases "m = 0")
    case True
    then have "i = unat ?h" using m(2) by simp
    moreover have "used (T ! i) \<noteq> 0" using hit by (simp add: at_key_def)
    ultimately show ?thesis using T(1) hb(1) lh r by (simp add: hsearch_r_def Let_def)
  next
    case False
    then have h0: "?cmp ?h = Some (-1, None, None, htab)" "used (T ! unat ?h) \<noteq> 0" using miss [of 0] by simp_all
    have "probe_loop ?cmp T ?h (1 + ?h mod (?sz - 2)) ?sz (unat ?sz) ?h = Some (Inl r)"
      by (rule probe_loop_stops(2) [OF sz hb(2,3) len, where m = m and r = "(None, None, htab)"])
         (use False m miss r in auto)
    then show ?thesis using T(1) hb(1) lh h0 ns r by (simp add: hsearch_r_def Let_def)
  qed
qed

text \<open>The key is in no slot: the search ends at an empty slot, or at the first one if none is empty.\<close>

lemma hsearch_miss_index:
  assumes sz: "size_ok (hsize htab)" and T: "table htab = Blk T" "tab_ok (hsize htab) T" and k: "0 \<notin> set k"
    and out: "\<And>i. i \<in> {1..unat (hsize htab)} \<Longrightarrow> \<not> at_key T i k"
  defines "h \<equiv> hash_of (hsize htab) k"
  shows "\<exists>m. m < unat (hsize htab) \<and> chain (hsize htab) T h m
    \<and> (used (T ! probe (unat (hsize htab)) (unat h) m) = 0 \<or> m = 0 \<and> (\<forall>i\<in>{1..unat (hsize htab)}. used (T ! i) \<noteq> 0))
    \<and> (if used (T ! unat h) = 0 then m = 0
       else probe_loop (\<lambda>idx. compare_and_overwrite_entry cb dupd k d action flag h idx htab) T h (1 + h mod (hsize htab - 2)) (hsize htab)
          (unat (hsize htab)) h = Some (Inr (of_nat (probe (unat (hsize htab)) (unat h) m))))"
proof -
  let ?sz = "hsize htab"
  let ?P = "probe (unat ?sz) (unat h)" and ?cmp = "\<lambda>idx. compare_and_overwrite_entry cb dupd k d action flag h idx htab"
  let ?E = "\<lambda>m. m < unat ?sz \<and> used (T ! ?P m) = 0"
  note hb = hash_bounds [OF sz k, folded h_def]
  have s5: "prime_num (unat ?sz)" "3 \<le> unat ?sz" using sz by (simp_all add: size_ok_def)
  have len: "length T = unat ?sz + 1" by (rule tab_ok_length [OF T(2)])
  have rng: "?P j \<in> {1..unat ?sz}" for j using probe_range [OF s5(2), of "unat h" j] hb by simp
  have miss: "?cmp (of_nat (?P j)) = Some (-1, None, None, htab)" for j
    unfolding h_def by (rule compare_miss [OF sz T k]) (use rng out in \<open>simp_all add: h_def\<close>)
  show ?thesis
  proof (cases "\<exists>m. ?E m")
    case True
    define m where "m = (LEAST m. ?E m)"
    have m: "?E m" using True unfolding m_def by (rule LeastI_ex)
    have lt: "used (T ! ?P j) \<noteq> 0" if "j < m" for j using not_less_Least [of j ?E] that m unfolding m_def by fastforce
    then have "chain ?sz T h m" by (simp add: chain_def)
    moreover have "if used (T ! unat h) = 0 then m = 0 else probe_loop ?cmp T h (1 + h mod (?sz - 2)) ?sz (unat ?sz) h = Some (Inr (of_nat (?P m)))"
    proof (cases "used (T ! unat h) = 0")
      case True
      then show ?thesis using lt [of 0] by (cases m) simp_all
    next
      case False
      then have "0 < m" using m by (cases m) simp_all
      then have "probe_loop ?cmp T h (1 + h mod (?sz - 2)) ?sz (unat ?sz) h = Some (Inr (of_nat (?P m)))"
        by (intro probe_loop_stops(3) [OF sz hb(2,3) len, where m = m and r = "(None, None, htab)"]) (use m miss lt in auto)
      then show ?thesis using False by simp
    qed
    ultimately show ?thesis using m by blast
  next
    case False
    have ne: "used (T ! i) \<noteq> 0" if "i \<in> {1..unat ?sz}" for i
      using probe_surj [OF s5, of "unat h" i] hb that False by auto
    have "probe_loop ?cmp T h (1 + h mod (?sz - 2)) ?sz (unat ?sz) h = Some (Inr h)"
      by (rule probe_loop_stops(1) [OF sz hb(2,3) len, where m = "unat ?sz" and r = "(None, None, htab)"])
         (use s5 miss False in auto)
    moreover have "used (T ! unat h) \<noteq> 0" using ne hb by simp
    ultimately show ?thesis using ne s5 by (intro exI [of _ 0]) (simp add: chain_def)
  qed
qed

lemma hsearch_miss:
  assumes sz: "size_ok (hsize htab)" and T: "table htab = Blk T" "tab_ok (hsize htab) T" and k: "0 \<notin> set k"
    and out: "\<And>i. i \<in> {1..unat (hsize htab)} \<Longrightarrow> \<not> at_key T i k"
  defines "h \<equiv> hash_of (hsize htab) k"
  shows "\<exists>m. m < unat (hsize htab) \<and> chain (hsize htab) T h m
    \<and> (used (T ! probe (unat (hsize htab)) (unat h) m) = 0 \<and> used (T ! unat h) \<noteq> -1 \<or> m = 0 \<and> used (T ! unat h) = -1
         \<or> m = 0 \<and> 0 < used (T ! unat h) \<and> (\<forall>i\<in>{1..unat (hsize htab)}. used (T ! i) \<noteq> 0))
    \<and> hsearch_r cb ini dupk dupd k d action flag htab =
       (if action = ENTER
        then if filled htab = hsize htab then Some (0, None, Some ENOMEM, htab)
             else enter_new cb ini dupk dupd k d flag h (of_nat (probe (unat (hsize htab)) (unat h) m)) htab
        else Some (0, None, Some ESRCH, htab))"
proof -
  let ?sz = "hsize htab" and ?P = "probe (unat (hsize htab)) (unat h)"
  note hb = hash_bounds [OF sz k, folded h_def]
  obtain m where m: "m < unat ?sz" "chain ?sz T h m"
      "used (T ! ?P m) = 0 \<or> m = 0 \<and> (\<forall>i\<in>{1..unat ?sz}. used (T ! i) \<noteq> 0)"
      "if used (T ! unat h) = 0 then m = 0
       else probe_loop (\<lambda>idx. compare_and_overwrite_entry cb dupd k d action flag h idx htab) T h (1 + h mod (?sz - 2)) ?sz (unat ?sz) h
          = Some (Inr (of_nat (?P m)))"
    using hsearch_miss_index [OF sz T k out, of cb dupd d action flag] unfolding h_def by auto
  have len: "unat h < length T" using tab_ok_length [OF T(2)] hb by simp
  have ns: "?sz - 2 \<noteq> 0" using sz by (auto simp: size_ok_def)
  have hr: "unat h \<in> {1..unat ?sz}" using hb by simp
  have c: "compare_and_overwrite_entry cb dupd k d action flag h h htab = Some (-1, None, None, htab)"
    using compare_miss [OF sz T k hr out [OF hr], of cb dupd d action flag] by (simp add: h_def)
  define m' where "m' = (if used (T ! unat h) = -1 then 0 else m)"
  have hz: "(if used (T ! unat h) = -1 then h else 0) \<noteq> 0 \<longleftrightarrow> used (T ! unat h) = -1" using hb(2) by auto
  have "hsearch_r cb ini dupk dupd k d action flag htab =
       (if action = ENTER
        then if filled htab = ?sz then Some (0, None, Some ENOMEM, htab)
             else enter_new cb ini dupk dupd k d flag h (of_nat (?P m')) htab
        else Some (0, None, Some ESRCH, htab))"
    using T(1) hb(1) len ns c hz m(4) by (cases "used (T ! unat h) = 0") (auto simp: hsearch_r_def load_Some Let_def m'_def)
  moreover have "m' < unat ?sz" "chain ?sz T h m'" using m(1,2) by (auto simp: m'_def chain_def)
  moreover have "used (T ! ?P m') = 0 \<and> used (T ! unat h) \<noteq> -1 \<or> m' = 0 \<and> used (T ! unat h) = -1 \<or> m' = 0 \<and> 0 < used (T ! unat h) \<and> (\<forall>i\<in>{1..unat ?sz}. used (T ! i) \<noteq> 0)"
  proof (cases "used (T ! unat h) = -1")
    case False
    then show ?thesis using m(3) used_cases [OF T(2) hr] by (auto simp: m'_def at_key_def)
  qed (simp add: m'_def)
  ultimately show ?thesis by blast
qed

section \<open>The map of a table\<close>

definition vals :: "'c hsearch_data \<Rightarrow> mem \<Rightarrow> mem option" where
  "vals htab k =
     (case table htab of Blk T \<Rightarrow>
        (case filter (\<lambda>i. at_key T i k) [1..<unat (hsize htab) + 1] of
           i # _ \<Rightarrow> (case h_data (entry (T ! i)) of Blk v \<Rightarrow> Some v | _ \<Rightarrow> None)
         | [] \<Rightarrow> None)
      | _ \<Rightarrow> None)"

definition empties :: "u32 \<Rightarrow> 'c slot list \<Rightarrow> nat set" where
  "empties sz T = {i \<in> {1..unat sz}. used (T ! i) = 0}"

definition room :: "'c hsearch_data \<Rightarrow> nat" where
  "room htab = (case table htab of Blk T \<Rightarrow> card (empties (hsize htab) T) | _ \<Rightarrow> 0)"

lemma vals_at:
  assumes T: "table htab = Blk T" "tab_ok (hsize htab) T" and i: "i \<in> {1..unat (hsize htab)}" "at_key T i k"
    and v: "h_data (entry (T ! i)) = Blk v"
  shows "vals htab k = Some v"
proof -
  obtain j js where j: "filter (\<lambda>i. at_key T i k) [1..<unat (hsize htab) + 1] = j # js"
  proof (cases "filter (\<lambda>i. at_key T i k) [1..<unat (hsize htab) + 1]")
    case Nil
    moreover have "i \<in> set [1..<unat (hsize htab) + 1]" using i(1) by (simp only: set_upt) auto
    ultimately show thesis using i(2) unfolding filter_empty_conv by blast
  qed blast
  then have "j \<in> set (filter (\<lambda>i. at_key T i k) [1..<unat (hsize htab) + 1])" by simp
  then have "j \<in> {1..unat (hsize htab)}" "at_key T j k" by auto
  then have "j = i" using at_key_unique [OF T(2)] i by blast
  then show ?thesis using T(1) v j by (simp add: vals_def)
qed

lemma vals_absent:
  assumes "\<And>i. i \<in> {1..unat (hsize htab)} \<Longrightarrow> \<not> at_key T i k" and "table htab = Blk T"
  shows "vals htab k = None"
proof -
  have "filter (\<lambda>i. at_key T i k) [1..<unat (hsize htab) + 1] = []" using assms(1) unfolding filter_empty_conv by auto
  then show ?thesis using assms(2) by (simp add: vals_def)
qed

lemma vals_cases:
  assumes "table htab = Blk T" "tab_ok (hsize htab) T"
  obtains (absent) "vals htab k = None" "\<And>i. i \<in> {1..unat (hsize htab)} \<Longrightarrow> \<not> at_key T i k"
  | (present) i v where "vals htab k = Some v" "i \<in> {1..unat (hsize htab)}" "at_key T i k" "h_data (entry (T ! i)) = Blk v"
proof (cases "\<exists>i\<in>{1..unat (hsize htab)}. at_key T i k")
  case True
  then obtain i where i: "i \<in> {1..unat (hsize htab)}" "at_key T i k" by blast
  then obtain v where "h_data (entry (T ! i)) = Blk v" using at_keyE [OF assms(2) i(2,1)] by metis
  then show thesis using present i vals_at [OF assms i] by blast
next
  case False
  then have n: "\<not> at_key T i k" if "i \<in> {1..unat (hsize htab)}" for i using that by blast
  show thesis by (rule absent [OF vals_absent [OF n assms(1)] n])
qed

section \<open>Changing one slot\<close>

lemma chain_update: "chain sz T h m \<Longrightarrow> used s \<noteq> 0 \<Longrightarrow> i < length T \<Longrightarrow> chain sz (T[i := s]) h m"
  by (auto simp: chain_def nth_list_update)

lemma at_key_update: "i < length T \<Longrightarrow> at_key (T[i := s]) j k \<longleftrightarrow> (if j = i then 0 < used s \<and> h_key (entry s) = Blk k else at_key T j k)"
  by (auto simp: at_key_def)

lemma tab_ok_update:
  assumes ok: "tab_ok sz T" and i: "i \<in> {1..unat sz}" and s: "used s \<noteq> 0"
    and new: "used s = -1 \<or> (\<exists>k v m. h_key (entry s) = Blk k \<and> h_data (entry s) = Blk v \<and> 0 \<notin> set k \<and> 0 \<notin> set v
      \<and> used s = uint (hash_of sz k) \<and> m < unat sz \<and> probe (unat sz) (unat (hash_of sz k)) m = i \<and> chain sz T (hash_of sz k) m
      \<and> (\<forall>j\<in>{1..unat sz}. j \<noteq> i \<longrightarrow> \<not> at_key T j k))"
  shows "tab_ok sz (T[i := s])"
proof -
  have len: "i < length T" using tab_ok_length [OF ok] i by simp
  have "slot_ok sz (T[i := s]) j" if "j \<in> {1..unat sz}" for j
  proof (cases "j = i")
    case True
    from new show ?thesis
    proof
      assume "\<exists>k v m. h_key (entry s) = Blk k \<and> h_data (entry s) = Blk v \<and> 0 \<notin> set k \<and> 0 \<notin> set v
        \<and> used s = uint (hash_of sz k) \<and> m < unat sz \<and> probe (unat sz) (unat (hash_of sz k)) m = i \<and> chain sz T (hash_of sz k) m
        \<and> (\<forall>j\<in>{1..unat sz}. j \<noteq> i \<longrightarrow> \<not> at_key T j k)"
      then obtain k v m where "h_key (entry s) = Blk k" "h_data (entry s) = Blk v" "0 \<notin> set k" "0 \<notin> set v"
        "used s = uint (hash_of sz k)" "m < unat sz" "probe (unat sz) (unat (hash_of sz k)) m = i"
        "chain sz (T[i := s]) (hash_of sz k) m" using chain_update [OF _ s len] by blast
      then show ?thesis using True len unfolding slot_ok_def by (auto intro!: bexI [of _ m])
    qed (use True len in \<open>simp add: slot_ok_def\<close>)
  next
    case False
    have "slot_ok sz T j" by (rule tab_ok_slot [OF ok that])
    then show ?thesis using False chain_update [OF _ s len] unfolding slot_ok_def by (auto split: ptr.splits)
  qed
  moreover have "a = b" if ab: "a \<in> {1..unat sz}" "b \<in> {1..unat sz}" and u: "0 < used (T[i := s] ! a)" "0 < used (T[i := s] ! b)"
    and k: "h_key (entry (T[i := s] ! a)) = h_key (entry (T[i := s] ! b))" for a b
  proof -
    have key: "\<exists>k. h_key (entry s) = Blk k \<and> (\<forall>j\<in>{1..unat sz}. j \<noteq> i \<longrightarrow> \<not> at_key T j k)" if "0 < used s" using new that by auto
    show ?thesis
    proof (cases "a = i"; cases "b = i")
      assume "a = i" "b \<noteq> i"
      then show ?thesis using key u k ab len by (auto simp: at_key_def)
    next
      assume "a \<noteq> i" "b = i"
      then show ?thesis using key u k ab len by (auto simp: at_key_def)
    next
      assume "a \<noteq> i" "b \<noteq> i"
      then have "0 < used (T ! a)" "0 < used (T ! b)" "h_key (entry (T ! a)) = h_key (entry (T ! b))" using u k by simp_all
      then show ?thesis using ok ab unfolding tab_ok_def by blast
    qed simp
  qed
  ultimately show ?thesis using tab_ok_length [OF ok] unfolding tab_ok_def by simp
qed

lemma lives_update: "i \<in> {1..unat sz} \<Longrightarrow> i < length T \<Longrightarrow>
    lives sz (T[i := s]) = (if 0 < used s then insert i (lives sz T) else lives sz T - {i})"
  by (auto simp: lives_def nth_list_update split: if_splits)

lemma empties_update: "i \<in> {1..unat sz} \<Longrightarrow> i < length T \<Longrightarrow> used s \<noteq> 0 \<Longrightarrow> empties sz (T[i := s]) = empties sz T - {i}"
  by (auto simp: empties_def nth_list_update split: if_splits)

lemma finite_lives [simp]: "finite (lives sz T)" "finite (empties sz T)"
  by (auto simp: lives_def empties_def)

lemma card_lives: "card (lives sz T) \<le> unat sz"
proof -
  have "lives sz T \<subseteq> {1..unat sz}" by (auto simp: lives_def)
  then show ?thesis using card_mono [of "{1..unat sz}" "lives sz T"] by simp
qed

lemma vals_update:
  assumes T: "table htab = Blk T" "tab_ok (hsize htab) T" and i: "i \<in> {1..unat (hsize htab)}"
    and new: "tab_ok (hsize htab) (T[i := s])" and tab: "table htab' = Blk (T[i := s])" "hsize htab' = hsize htab"
  shows "0 < used s \<Longrightarrow> h_key (entry s) = Blk k \<Longrightarrow> h_data (entry s) = Blk v \<Longrightarrow> (\<And>k'. at_key T i k' \<Longrightarrow> k' = k) \<Longrightarrow>
      vals htab' = (vals htab)(k \<mapsto> v)"
    and "used s \<le> 0 \<Longrightarrow> at_key T i k \<Longrightarrow> vals htab' = (vals htab)(k := None)"
    and "used s \<le> 0 \<Longrightarrow> used (T ! i) \<le> 0 \<Longrightarrow> vals htab' = vals htab"
proof -
  have len: "i < length T" using tab_ok_length [OF T(2)] i by simp
  have ak: "at_key (T[i := s]) j k' \<longleftrightarrow> (if j = i then 0 < used s \<and> h_key (entry s) = Blk k' else at_key T j k')" for j k'
    by (rule at_key_update [OF len])
  have other: "vals htab' k' = vals htab k'" if "\<not> at_key T i k'" "\<not> (0 < used s \<and> h_key (entry s) = Blk k')" for k'
    using T
  proof (cases rule: vals_cases [where k = k'])
    case absent
    then show ?thesis using vals_absent [of htab' "T[i := s]" k'] tab that(2) by (auto simp: ak)
  next
    case (present j v')
    then have "j \<noteq> i" using that(1) by blast
    then show ?thesis using present vals_at [of htab' "T[i := s]" j k' v'] tab new by (simp add: ak)
  qed
  show "vals htab' = (vals htab)(k \<mapsto> v)" if "0 < used s" "h_key (entry s) = Blk k" "h_data (entry s) = Blk v" "\<And>k'. at_key T i k' \<Longrightarrow> k' = k"
  proof
    fix k'
    show "vals htab' k' = ((vals htab)(k \<mapsto> v)) k'"
    proof (cases "k' = k")
      case True
      then show ?thesis using vals_at [of htab' "T[i := s]" i k v] tab new i len that by (simp add: ak)
    next
      case False
      then show ?thesis using other [of k'] that by auto
    qed
  qed
  show "vals htab' = (vals htab)(k := None)" if "used s \<le> 0" "at_key T i k"
  proof
    fix k'
    show "vals htab' k' = ((vals htab)(k := None)) k'"
    proof (cases "k' = k")
      case True
      have "\<not> at_key (T[i := s]) j k" if "j \<in> {1..unat (hsize htab)}" for j
        using at_key_unique [OF T(2) \<open>at_key T i k\<close> _ i that] \<open>used s \<le> 0\<close> by (auto simp: ak)
      then show ?thesis using True vals_absent [of htab' "T[i := s]" k] tab by simp
    next
      case False
      then show ?thesis using other [of k'] that by (auto simp: at_key_def)
    qed
  qed
  show "vals htab' = vals htab" if "used s \<le> 0" "used (T ! i) \<le> 0"
    using other that by (intro ext) (auto simp: at_key_def)
qed

section \<open>Entering a new key\<close>

lemma sint_hash: "unat (h :: u32) < 16777216 \<Longrightarrow> sint h = uint h"
proof -
  assume "unat h < 16777216"
  then have "uint h < 2147483648" using of_nat_unat [of h, where ?'a = int] by linarith
  then show ?thesis unfolding sint_uint by (intro signed_take_bit_int_eq_self) (simp_all add: order_trans [of _ 0])
qed

lemma enter_new_cases:
  fixes T :: "'c slot list"
  assumes sz: "size_ok (hsize htab)" and T: "table htab = Blk T" "length T = unat (hsize htab) + 1"
    and i: "i \<in> {1..unat (hsize htab)}"
  shows "\<exists>s d. used s = sint h \<and> h_key (entry s) = Blk k \<and> h_data (entry s) = Blk v \<and> used d = -1
    \<and> enter_new cb ini True True k (Some v) flag h (of_nat i) htab =
       Some (if rejects htab (entry s) (Some v) env_op_create flag then (0, None, Some EPERM, htab\<lparr>table := Blk (T[i := d])\<rparr>)
             else if calls_back cb (entry s) k (Some v) env_op_create flag then (0, None, Some EINVAL, htab\<lparr>table := Blk (T[i := d])\<rparr>)
             else (1, Some i, None, htab\<lparr>table := Blk (T[i := s]), filled := filled htab + 1\<rparr>))"
proof -
  have ui: "unat (of_nat i :: u32) = i" using unat_idx [OF sz, of i] i by simp
  have len: "i < length T" using T(2) i by simp
  obtain c fl where cf: "ini (htab\<lparr>table := Blk (T[i := (T ! i)\<lparr>used := sint h, entry := (entry (T ! i))\<lparr>h_key := Blk k, h_data := Blk v\<rparr>\<rparr>]),
      filled := filled htab + 1\<rparr>) ((entry (T ! i))\<lparr>h_key := Blk k, h_data := Blk v\<rparr>) = (c, fl)" by (metis surj_pair)
  define s where "s = (T ! i)\<lparr>used := sint h, entry := (entry (T ! i))\<lparr>h_key := Blk k, h_data := Blk v, callback := c, h_flags := fl\<rparr>\<rparr>"
  define d where "d = s\<lparr>used := -1, entry := (entry s)\<lparr>h_key := Wild, h_data := Wild, callback := None, h_flags := 0\<rparr>\<rparr>"
  have "enter_new cb ini True True k (Some v) flag h (of_nat i) htab =
       Some (if rejects htab (entry s) (Some v) env_op_create flag then (0, None, Some EPERM, htab\<lparr>table := Blk (T[i := d])\<rparr>)
             else if calls_back cb (entry s) k (Some v) env_op_create flag then (0, None, Some EINVAL, htab\<lparr>table := Blk (T[i := d])\<rparr>)
             else (1, Some i, None, htab\<lparr>table := Blk (T[i := s]), filled := filled htab + 1\<rparr>))"
    using T(1) len ui cf by (cases "change_ok htab") (simp_all add: enter_new_def load_Some malloc_def Let_def hdelete_def rejects_def s_def d_def)
  then show ?thesis by (intro exI [of _ s] exI [of _ d]) (simp add: s_def d_def)
qed

text \<open>The entry goes to a slot that is empty or deleted.\<close>

lemma enter_new_spec:
  fixes htab :: "'c hsearch_data"
  assumes wf: "hwf htab" "table htab = Blk T" and k: "0 \<notin> set k" "0 \<notin> set v"
    and out: "\<And>j. j \<in> {1..unat (hsize htab)} \<Longrightarrow> \<not> at_key T j k"
  defines "h \<equiv> hash_of (hsize htab) k"
  assumes m: "m < unat (hsize htab)" "chain (hsize htab) T h m" and dead: "used (T ! probe (unat (hsize htab)) (unat h) m) \<le> 0"
  shows "\<exists>r ep err htab'. enter_new cb ini True True k (Some v) flag h (of_nat (probe (unat (hsize htab)) (unat h) m)) htab = Some (r, ep, err, htab')
    \<and> hwf htab' \<and> hsize htab' = hsize htab \<and> change_ok htab' = change_ok htab \<and> room htab \<le> Suc (room htab')
    \<and> (if r = 0 then vals htab' = vals htab \<and> ep = None \<and> (err = Some EPERM \<or> err = Some EINVAL)
       else vals htab' = (vals htab)(k \<mapsto> v) \<and> r = 1 \<and> err = None
         \<and> (\<exists>i T'. ep = Some i \<and> i \<in> {1..unat (hsize htab)} \<and> table htab' = Blk T' \<and> at_key T' i k))
    \<and> ((\<forall>e. \<not> rejects htab e (Some v) env_op_create flag) \<and> (\<forall>c. \<not> cb c k (Some v) env_op_create flag) \<longrightarrow> r \<noteq> 0)"
proof -
  let ?sz = "hsize htab" and ?i = "probe (unat (hsize htab)) (unat h) m"
  have wf': "size_ok ?sz" "tab_ok ?sz T" "unat (filled htab) = card (lives ?sz T)"
    using wf by (auto simp: hwf_def)
  note hb = hash_bounds [OF wf'(1) k(1), folded h_def]
  have i: "?i \<in> {1..unat ?sz}" using probe_range [of "unat ?sz" "unat h" m] wf'(1) hb by (simp add: size_ok_def)
  have lenT: "length T = unat ?sz + 1" by (rule tab_ok_length [OF wf'(2)])
  then have len: "?i < length T" using i by simp
  obtain s d where sd: "used s = sint h" "h_key (entry s) = Blk k" "h_data (entry s) = Blk v" "used d = -1"
      and e: "enter_new cb ini True True k (Some v) flag h (of_nat ?i) htab =
       Some (if rejects htab (entry s) (Some v) env_op_create flag then (0, None, Some EPERM, htab\<lparr>table := Blk (T[?i := d])\<rparr>)
             else if calls_back cb (entry s) k (Some v) env_op_create flag then (0, None, Some EINVAL, htab\<lparr>table := Blk (T[?i := d])\<rparr>)
             else (1, Some ?i, None, htab\<lparr>table := Blk (T[?i := s]), filled := filled htab + 1\<rparr>))"
    using enter_new_cases [OF wf'(1) wf(2) lenT i, of h k v cb ini flag] by blast
  have us: "used s = uint h" "0 < used s"
  proof -
    show "used s = uint h" using sd(1) sint_hash [of h] hb wf'(1) by (simp add: size_ok_def)
    then show "0 < used s" using hb(2) of_nat_unat [of h, where ?'a = int] by linarith
  qed
  have live: "?i \<notin> lives ?sz T" using dead by (auto simp: lives_def)
  have noti: "\<not> at_key T ?i k'" for k' using dead by (simp add: at_key_def)
  have oks: "tab_ok ?sz (T[?i := s])"
    by (rule tab_ok_update [OF wf'(2) i]) (use us sd k m out in \<open>auto simp: h_def\<close>)
  have okd: "tab_ok ?sz (T[?i := d])" by (rule tab_ok_update [OF wf'(2) i]) (use sd(4) in auto)
  have cl: "card (lives ?sz T) \<le> unat ?sz" by (rule card_lives)
  have wfs: "hwf (htab\<lparr>table := Blk (T[?i := s]), filled := filled htab + 1\<rparr>)"
    using wf' oks us live i len cl by (simp add: hwf_def lives_update unat_add_u32 size_ok_def)
  have wfd: "hwf (htab\<lparr>table := Blk (T[?i := d])\<rparr>)"
    using wf' okd sd(4) live i len by (simp add: hwf_def lives_update)
  have room: "room htab \<le> Suc (room (htab\<lparr>table := Blk (T[?i := x]), filled := f\<rparr>))"
      "room htab \<le> Suc (room (htab\<lparr>table := Blk (T[?i := x])\<rparr>))" if "used x \<noteq> 0" for x f
    using wf(2) empties_update [OF i len that] card_Suc_Diff1 [of "empties ?sz T" ?i]
    by (cases "?i \<in> empties ?sz T"; simp add: room_def)+
  have vs: "vals (htab\<lparr>table := Blk (T[?i := s]), filled := filled htab + 1\<rparr>) = (vals htab)(k \<mapsto> v)"
    by (rule vals_update(1) [OF wf(2) wf'(2) i oks]) (use us sd noti in auto)
  have vd: "vals (htab\<lparr>table := Blk (T[?i := d])\<rparr>) = vals htab"
    by (rule vals_update(3) [OF wf(2) wf'(2) i okd]) (use sd dead in auto)
  have hit: "at_key (T[?i := s]) ?i k" using at_key_update [OF len, of s ?i k] us sd by simp
  show ?thesis
    unfolding e using wfs wfd vs vd room(1) [of s "filled htab + 1"] room(2) [of d] sd us hit i
    by (auto simp: calls_back_def split: option.splits)
qed

section \<open>The operations on the map\<close>

definition slot_holds :: "'c hsearch_data \<Rightarrow> nat \<Rightarrow> mem \<Rightarrow> mem \<Rightarrow> bool" where
  "slot_holds htab i k v \<longleftrightarrow> i \<in> {1..unat (hsize htab)} \<and>
     (case table htab of Blk T \<Rightarrow> at_key T i k \<and> h_data (entry (T ! i)) = Blk v | _ \<Rightarrow> False)"

lemma find_spec:
  assumes "searchable htab" and k: "0 \<notin> set k"
  shows "\<exists>r ep err. hsearch_r cb ini dupk dupd k d FIND flag htab = Some (r, ep, err, htab) \<and>
    (case vals htab k of
       None \<Rightarrow> r = 0 \<and> ep = None \<and> err = Some ESRCH
     | Some v \<Rightarrow> err = None \<and> (\<exists>i. r = int i \<and> ep = Some i \<and> slot_holds htab i k v))"
proof -
  obtain T where T: "table htab = Blk T" "size_ok (hsize htab)" "tab_ok (hsize htab) T" using assms(1) by (rule searchableE)
  from T(1,3) show ?thesis
  proof (cases rule: vals_cases [where k = k])
    case absent
    then show ?thesis using hsearch_miss [OF T(2,1,3) k absent(2), of cb ini dupk dupd d FIND flag] by auto
  next
    case (present i v)
    then show ?thesis
      using hsearch_hit [OF T(2,1,3) present(2,3), of cb ini dupk dupd d FIND flag] T(1)
        compare_hit [OF T(2,1,3) present(2,3), of cb dupd d FIND flag]
      by (simp add: slot_holds_def)
  qed
qed

lemma overwrite_tab_ok:
  assumes T: "tab_ok sz T" and i: "i \<in> {1..unat sz}" "at_key T i k" and v: "0 \<notin> set v"
  shows "tab_ok sz (entered T i (Blk v))"
proof -
  obtain m where m: "0 \<notin> set k" "used (T ! i) = uint (hash_of sz k)" "m < unat sz"
      "probe (unat sz) (unat (hash_of sz k)) m = i" "chain sz T (hash_of sz k) m"
    using at_keyE [OF T i(2,1)] by metis
  have key: "h_key (entry (T ! i)) = Blk k" "0 < used (T ! i)" using i(2) by (simp_all add: at_key_def)
  have uniq: "\<not> at_key T j k" if "j \<in> {1..unat sz}" "j \<noteq> i" for j
    using at_key_unique [OF T i(2) _ i(1) that(1)] that(2) by blast
  show ?thesis unfolding entered_def by (rule tab_ok_update [OF T i(1)]) (use m key v uniq in auto)
qed

lemma overwrite_spec:
  assumes wf: "hwf htab" "table htab = Blk T" and i: "i \<in> {1..unat (hsize htab)}" "at_key T i k" and v: "0 \<notin> set v"
  shows "hwf (htab\<lparr>table := Blk (entered T i (Blk v))\<rparr>)"
    and "vals (htab\<lparr>table := Blk (entered T i (Blk v))\<rparr>) = (vals htab)(k \<mapsto> v)"
    and "room (htab\<lparr>table := Blk (entered T i (Blk v))\<rparr>) = room htab"
    and "slot_holds (htab\<lparr>table := Blk (entered T i (Blk v))\<rparr>) i k v"
proof -
  let ?s = "(T ! i)\<lparr>entry := (entry (T ! i))\<lparr>h_data := Blk v\<rparr>\<rparr>"
  have wf': "size_ok (hsize htab)" "tab_ok (hsize htab) T" "unat (filled htab) = card (lives (hsize htab) T)"
    using wf by (auto simp: hwf_def)
  have len: "i < length T" using tab_ok_length [OF wf'(2)] i by simp
  have key: "h_key (entry (T ! i)) = Blk k" "0 < used (T ! i)" using i(2) by (simp_all add: at_key_def)
  have ok: "tab_ok (hsize htab) (T[i := ?s])" using overwrite_tab_ok [OF wf'(2) i v] by (simp add: entered_def)
  have e: "entered T i (Blk v) = T[i := ?s]" by (simp add: entered_def)
  have l: "lives (hsize htab) (T[i := ?s]) = lives (hsize htab) T" using lives_update [OF i(1) len, of ?s] key i(1) by (auto simp: lives_def)
  have "empties (hsize htab) (T[i := ?s]) = empties (hsize htab) T" using empties_update [OF i(1) len, of ?s] key by (auto simp: empties_def)
  then show "room (htab\<lparr>table := Blk (entered T i (Blk v))\<rparr>) = room htab" using wf(2) unfolding e by (simp add: room_def)
  show "hwf (htab\<lparr>table := Blk (entered T i (Blk v))\<rparr>)" unfolding e using wf' ok l by (simp add: hwf_def)
  show "vals (htab\<lparr>table := Blk (entered T i (Blk v))\<rparr>) = (vals htab)(k \<mapsto> v)"
    unfolding e by (rule vals_update(1) [OF wf(2) wf'(2) i(1) ok]) (use key in \<open>auto simp: at_key_def\<close>)
  show "slot_holds (htab\<lparr>table := Blk (entered T i (Blk v))\<rparr>) i k v"
    unfolding e using i(1) len key by (simp add: slot_holds_def at_key_def)
qed

lemma enter_spec:
  fixes htab :: "'c hsearch_data"
  assumes wf: "hwf htab" and k: "0 \<notin> set k" "0 \<notin> set v" and rm: "0 < room htab \<or> vals htab k \<noteq> None"
  shows "\<exists>r ep err htab'. hsearch_r cb ini True True k (Some v) ENTER flag htab = Some (r, ep, err, htab')
    \<and> hwf htab' \<and> hsize htab' = hsize htab \<and> change_ok htab' = change_ok htab \<and> room htab \<le> Suc (room htab')
    \<and> (if r = 0 then vals htab' = vals htab \<and> ep = None \<and> err \<noteq> None
       else vals htab' = (vals htab)(k \<mapsto> v) \<and> err = None \<and> (\<exists>i. ep = Some i \<and> slot_holds htab' i k v))
    \<and> ((\<forall>e op. \<not> rejects htab e (Some v) op flag) \<and> (\<forall>c op. \<not> cb c k (Some v) op flag) \<longrightarrow> r \<noteq> 0)"
proof -
  obtain T where T: "table htab = Blk T" "size_ok (hsize htab)" "tab_ok (hsize htab) T" "unat (filled htab) = card (lives (hsize htab) T)"
    using wf by (rule hwfE)
  from T(1,3) show ?thesis
  proof (cases rule: vals_cases [where k = k])
    case (present i v0)
    have "hsearch_r cb ini True True k (Some v) ENTER flag htab = Some
       (if rejects htab (entry (T ! i)) (Some v) env_op_overwrite flag then (0, None, Some EPERM, htab)
        else if calls_back cb (entry (T ! i)) k (Some v) env_op_overwrite flag then (0, None, Some EINVAL, htab)
        else (int i, Some i, None, htab\<lparr>table := Blk (entered T i (Blk v))\<rparr>))"
      using hsearch_hit [OF T(2,1,3) present(2,3), of cb ini True True "Some v" ENTER flag]
        compare_hit [OF T(2,1,3) present(2,3), of cb True "Some v" ENTER flag] by simp
    then show ?thesis
      using overwrite_spec [OF wf T(1) present(2,3) k(2)] wf present(2) by (auto simp: calls_back_def split: option.splits)
  next
    case absent
    obtain j where j: "j \<in> empties (hsize htab) T"
      using rm absent(1) T(1) card_gt_0_iff [of "empties (hsize htab) T"] by (auto simp: room_def)
    let ?h = "hash_of (hsize htab) k"
    obtain m where m: "m < unat (hsize htab)" "chain (hsize htab) T ?h m"
        and dis: "used (T ! probe (unat (hsize htab)) (unat ?h) m) = 0 \<and> used (T ! unat ?h) \<noteq> -1 \<or> m = 0 \<and> used (T ! unat ?h) = -1
          \<or> m = 0 \<and> 0 < used (T ! unat ?h) \<and> (\<forall>i\<in>{1..unat (hsize htab)}. used (T ! i) \<noteq> 0)"
        and e: "hsearch_r cb ini True True k (Some v) ENTER flag htab =
          (if filled htab = hsize htab then Some (0, None, Some ENOMEM, htab)
           else enter_new cb ini True True k (Some v) flag ?h (of_nat (probe (unat (hsize htab)) (unat ?h) m)) htab)"
      using hsearch_miss [OF T(2,1,3) k(1) absent(2), of cb ini True True "Some v" ENTER flag] by (metis (full_types))
    have m3: "used (T ! probe (unat (hsize htab)) (unat ?h) m) \<le> 0" using dis j by (auto simp: empties_def)
    have "filled htab \<noteq> hsize htab"
    proof
      have "lives (hsize htab) T \<subseteq> {1..unat (hsize htab)} - {j}" using j by (auto simp: lives_def empties_def)
      then have "card (lives (hsize htab) T) \<le> card ({1..unat (hsize htab)} - {j})" by (intro card_mono) simp_all
      also have "\<dots> < unat (hsize htab)" using j T(2) by (simp add: empties_def size_ok_def)
      moreover assume "filled htab = hsize htab"
      ultimately show False using T(4) by simp
    qed
    then have e': "hsearch_r cb ini True True k (Some v) ENTER flag htab =
        enter_new cb ini True True k (Some v) flag (hash_of (hsize htab) k) (of_nat (probe (unat (hsize htab)) (unat (hash_of (hsize htab) k)) m)) htab"
      using e by simp
    obtain r ep err htab' where n: "hsearch_r cb ini True True k (Some v) ENTER flag htab = Some (r, ep, err, htab')"
      "hwf htab'" "hsize htab' = hsize htab" "change_ok htab' = change_ok htab" "room htab \<le> Suc (room htab')"
      "if r = 0 then vals htab' = vals htab \<and> ep = None \<and> (err = Some EPERM \<or> err = Some EINVAL)
       else vals htab' = (vals htab)(k \<mapsto> v) \<and> r = 1 \<and> err = None
         \<and> (\<exists>i T'. ep = Some i \<and> i \<in> {1..unat (hsize htab)} \<and> table htab' = Blk T' \<and> at_key T' i k)"
      "(\<forall>e. \<not> rejects htab e (Some v) env_op_create flag) \<and> (\<forall>c. \<not> cb c k (Some v) env_op_create flag) \<longrightarrow> r \<noteq> 0"
      using enter_new_spec [OF wf T(1) k absent(2) m m3, of cb ini flag] unfolding e' by blast
    have "slot_holds htab' i k v" if i: "i \<in> {1..unat (hsize htab)}" "table htab' = Blk T'" "at_key T' i k" "vals htab' k = Some v" for i T'
    proof -
      have ok: "tab_ok (hsize htab') T'" using n(2) i(2) by (simp add: hwf_def)
      then obtain v' where v': "h_data (entry (T' ! i)) = Blk v'" using at_keyE [OF ok i(3)] i(1) n(3) by metis
      then have "vals htab' k = Some v'" using vals_at [OF i(2) ok] i n(3) by simp
      then show ?thesis using v' i n(3) by (simp add: slot_holds_def)
    qed
    then show ?thesis using n by (cases "r = 0") auto
  qed
qed

end
