(* ===== verification/Hash_Store.thy ===== *)
theory Hash_Store
  imports Hashtable_Proofs
begin

text \<open>
  The contract of the hash table for its users. The locale \<open>var_store\<close> says what setting, removing and finding a
  variable promise; a client lemma proves once that a sequence of changes has the effect of the same changes on a map.
  The interpretation is the table of lib/hashtable.c with any handlers. The theorems of the component follow: a table
  from \<open>hcreate_r\<close> is a map, and what happens when no slot is empty and when there is no memory.
\<close>

section \<open>The contract\<close>

text \<open>A list of changes, run on a store: a value is set, \<^term>\<open>None\<close> removes. The answers say which ones were done.\<close>

fun changes :: "('k \<Rightarrow> 'v \<Rightarrow> 's \<Rightarrow> (bool \<times> 's) option) \<Rightarrow> ('k \<Rightarrow> 's \<Rightarrow> (bool \<times> 's) option) \<Rightarrow> ('k \<times> 'v option) list \<Rightarrow> 's \<Rightarrow> (bool list \<times> 's) option" where
  "changes ent rem [] s = Some ([], s)"
| "changes ent rem ((k, w) # cs) s =
     do { (b, s1) \<leftarrow> (case w of Some v \<Rightarrow> ent k v s | None \<Rightarrow> rem k s);
          (bs, s2) \<leftarrow> changes ent rem cs s1;
          Some (b # bs, s2) }"

text \<open>The same on a map.\<close>

fun replay :: "('k \<times> 'v option) list \<Rightarrow> bool list \<Rightarrow> ('k \<Rightarrow> 'v option) \<Rightarrow> 'k \<Rightarrow> 'v option" where
  "replay ((k, w) # cs) (b # bs) m = replay cs bs (if b then m(k := w) else m)"
| "replay _ _ m = m"

locale var_store =
  fixes find :: "'k \<Rightarrow> 's \<Rightarrow> 'v option option"
    and enter :: "'k \<Rightarrow> 'v \<Rightarrow> 's \<Rightarrow> (bool \<times> 's) option"
    and remove :: "'k \<Rightarrow> 's \<Rightarrow> (bool \<times> 's) option"
    and inv :: "'s \<Rightarrow> bool" and vals :: "'s \<Rightarrow> 'k \<Rightarrow> 'v option" and space :: "'s \<Rightarrow> nat"
    and key :: "'k \<Rightarrow> bool" and val :: "'v \<Rightarrow> bool"
  assumes find: "inv s \<Longrightarrow> key k \<Longrightarrow> find k s = Some (vals s k)"
    and enter: "inv s \<Longrightarrow> key k \<Longrightarrow> val v \<Longrightarrow> 0 < space s \<Longrightarrow>
      \<exists>b s'. enter k v s = Some (b, s') \<and> inv s' \<and> vals s' = (if b then (vals s)(k \<mapsto> v) else vals s) \<and> space s \<le> Suc (space s')"
    and remove: "inv s \<Longrightarrow> key k \<Longrightarrow>
      \<exists>b s'. remove k s = Some (b, s') \<and> inv s' \<and> vals s' = (if b then (vals s)(k := None) else vals s) \<and> space s \<le> Suc (space s')"
begin

lemma changes_replay:
  assumes "inv s" and "length cs \<le> space s" and "\<And>k w. (k, w) \<in> set cs \<Longrightarrow> key k \<and> (case w of None \<Rightarrow> True | Some v \<Rightarrow> val v)"
  shows "\<exists>bs s'. changes enter remove cs s = Some (bs, s') \<and> length bs = length cs \<and> inv s' \<and> vals s' = replay cs bs (vals s)"
  using assms
proof (induction cs arbitrary: s)
  case (Cons c cs)
  obtain k w where c: "c = (k, w)" by (cases c)
  have k: "key k" using Cons.prems(3) [of k w] c by simp
  have "\<exists>b s1. (case w of Some v \<Rightarrow> enter k v s | None \<Rightarrow> remove k s) = Some (b, s1) \<and> inv s1
      \<and> vals s1 = (if b then (vals s)(k := w) else vals s) \<and> space s \<le> Suc (space s1)"
  proof (cases w)
    case None
    then show ?thesis using remove [OF Cons.prems(1) k] by (simp only: option.case)
  next
    case (Some v)
    then have "val v" "0 < space s" using Cons.prems(2) Cons.prems(3) [of k w] c by simp_all
    then show ?thesis using enter [OF Cons.prems(1) k] Some by (simp only: option.case)
  qed
  then obtain b s1 where s1: "(case w of Some v \<Rightarrow> enter k v s | None \<Rightarrow> remove k s) = Some (b, s1)" "inv s1"
      "vals s1 = (if b then (vals s)(k := w) else vals s)" "space s \<le> Suc (space s1)" by blast
  have le: "length cs \<le> space s1" using Cons.prems(2) s1(4) by simp
  have "\<exists>bs s2. changes enter remove cs s1 = Some (bs, s2) \<and> length bs = length cs \<and> inv s2 \<and> vals s2 = replay cs bs (vals s1)"
    by (rule Cons.IH [OF s1(2) le]) (use Cons.prems(3) in auto)
  then obtain bs s2 where "changes enter remove cs s1 = Some (bs, s2)" "length bs = length cs" "inv s2" "vals s2 = replay cs bs (vals s1)"
    by blast
  then show ?case using s1 c by simp
qed simp

lemma changes_find:
  assumes "inv s" and "length cs \<le> space s" and "\<And>k w. (k, w) \<in> set cs \<Longrightarrow> key k \<and> (case w of None \<Rightarrow> True | Some v \<Rightarrow> val v)"
  shows "\<exists>bs s'. changes enter remove cs s = Some (bs, s') \<and> length bs = length cs
    \<and> (\<forall>k. key k \<longrightarrow> find k s' = Some (replay cs bs (vals s) k))"
  using changes_replay [OF assms] find by (metis (no_types, lifting))

end

text \<open>A store in which nobody refuses a change.\<close>

locale open_store = var_store +
  assumes enter_done: "inv s \<Longrightarrow> key k \<Longrightarrow> val v \<Longrightarrow> 0 < space s \<Longrightarrow> enter k v s = Some (b, s') \<Longrightarrow> b"
    and remove_done: "inv s \<Longrightarrow> key k \<Longrightarrow> remove k s = Some (b, s') \<Longrightarrow> b \<longleftrightarrow> vals s k \<noteq> None"
begin

lemma changes_all:
  assumes "inv s" and "length cs \<le> space s" and "\<And>k w. (k, w) \<in> set cs \<Longrightarrow> key k \<and> (case w of None \<Rightarrow> True | Some v \<Rightarrow> val v)"
  shows "\<exists>bs s'. changes enter remove cs s = Some (bs, s') \<and> inv s' \<and> vals s' = fold (\<lambda>(k, w) m. m(k := w)) cs (vals s)
    \<and> space s \<le> space s' + length cs"
  using assms
proof (induction cs arbitrary: s)
  case (Cons c cs)
  obtain k w where c: "c = (k, w)" by (cases c)
  have k: "key k" using Cons.prems(3) [of k w] c by simp
  have "\<exists>b s1. (case w of Some v \<Rightarrow> enter k v s | None \<Rightarrow> remove k s) = Some (b, s1) \<and> inv s1
      \<and> vals s1 = (vals s)(k := w) \<and> space s \<le> Suc (space s1)"
  proof (cases w)
    case None
    obtain b s1 where "remove k s = Some (b, s1)" "inv s1" "vals s1 = (if b then (vals s)(k := None) else vals s)" "space s \<le> Suc (space s1)"
      using remove [OF Cons.prems(1) k] by blast
    then show ?thesis using None remove_done [OF Cons.prems(1) k] by (auto simp: fun_upd_idem)
  next
    case (Some v)
    then have v: "val v" "0 < space s" using Cons.prems(2) Cons.prems(3) [of k w] c by simp_all
    obtain b s1 where "enter k v s = Some (b, s1)" "inv s1" "vals s1 = (if b then (vals s)(k \<mapsto> v) else vals s)" "space s \<le> Suc (space s1)"
      using enter [OF Cons.prems(1) k v] by blast
    then show ?thesis using Some enter_done [OF Cons.prems(1) k v] by auto
  qed
  then obtain b s1 where s1: "(case w of Some v \<Rightarrow> enter k v s | None \<Rightarrow> remove k s) = Some (b, s1)" "inv s1"
      "vals s1 = (vals s)(k := w)" "space s \<le> Suc (space s1)" by blast
  have le: "length cs \<le> space s1" using Cons.prems(2) s1(4) by simp
  have "\<exists>bs s2. changes enter remove cs s1 = Some (bs, s2) \<and> inv s2 \<and> vals s2 = fold (\<lambda>(k, w) m. m(k := w)) cs (vals s1)
      \<and> space s1 \<le> space s2 + length cs"
    by (rule Cons.IH [OF s1(2) le]) (use Cons.prems(3) in auto)
  then obtain bs s2 where s2: "changes enter remove cs s1 = Some (bs, s2)" "inv s2" "vals s2 = fold (\<lambda>(k, w) m. m(k := w)) cs (vals s1)"
      "space s1 \<le> space s2 + length cs" by blast
  have "changes enter remove (c # cs) s = Some (b # bs, s2)" using s1(1) s2(1) c by simp
  moreover have "vals s2 = fold (\<lambda>(k, w) m. m(k := w)) (c # cs) (vals s)" using s2(3) s1(3) c by simp
  moreover have "space s \<le> space s2 + length (c # cs)" using s1(4) s2(4) by simp
  ultimately show ?case using s2(2) by blast
qed simp

end

section \<open>The table as a store\<close>

definition is_str :: "mem \<Rightarrow> bool" where
  "is_str k \<longleftrightarrow> 0 \<notin> set k"

definition store_find :: "'c cback \<Rightarrow> 'c ini \<Rightarrow> mem \<Rightarrow> 'c hsearch_data \<Rightarrow> mem option option" where
  "store_find cb ini k htab =
     do { (r, ep, err, htab) \<leftarrow> hsearch_r cb ini True True k None FIND 0 htab;
          case ep of None \<Rightarrow> Some None
          | Some i \<Rightarrow> do { T \<leftarrow> deref (table htab); s \<leftarrow> load T i; v \<leftarrow> deref (h_data (entry s)); Some (Some v) } }"

definition store_enter :: "'c cback \<Rightarrow> 'c ini \<Rightarrow> int \<Rightarrow> mem \<Rightarrow> mem \<Rightarrow> 'c hsearch_data \<Rightarrow> (bool \<times> 'c hsearch_data) option" where
  "store_enter cb ini flag k v htab =
     do { (r, ep, err, htab) \<leftarrow> hsearch_r cb ini True True k (Some v) ENTER flag htab; Some (r \<noteq> 0, htab) }"

definition store_remove :: "'c cback \<Rightarrow> int \<Rightarrow> mem \<Rightarrow> 'c hsearch_data \<Rightarrow> (bool \<times> 'c hsearch_data) option" where
  "store_remove cb flag k htab = do { (r, err, htab) \<leftarrow> hdelete_r cb None k flag htab; Some (r \<noteq> 0, htab) }"

lemma hdelete_slot:
  assumes sz: "size_ok (hsize htab)" and T: "table htab = Blk T" "tab_ok (hsize htab) T" and i: "i \<in> {1..unat (hsize htab)}" "at_key T i k"
  shows "\<exists>d. used d = -1 \<and> hdelete (of_nat i) htab = Some (htab\<lparr>table := Blk (T[i := d]), filled := filled htab - 1\<rparr>) \<and> tab_ok (hsize htab) (T[i := d])"
proof -
  have len: "i < length T" using tab_ok_length [OF T(2)] i by simp
  have ui: "unat (of_nat i :: u32) = i" using unat_idx [OF sz, of i] i(1) by simp
  obtain v where v: "h_data (entry (T ! i)) = Blk v" using at_keyE [OF T(2) i(2,1)] by metis
  have key: "h_key (entry (T ! i)) = Blk k" using i(2) by (simp add: at_key_def)
  define d where "d = (T ! i)\<lparr>used := -1, entry := (entry (T ! i))\<lparr>h_key := Wild, h_data := Wild, callback := None, h_flags := 0\<rparr>\<rparr>"
  have "hdelete (of_nat i) htab = Some (htab\<lparr>table := Blk (T[i := d]), filled := filled htab - 1\<rparr>)"
    using T(1) len ui key v by (simp add: hdelete_def load_Some d_def)
  moreover have d: "used d = -1" by (simp add: d_def)
  moreover have "tab_ok (hsize htab) (T[i := d])" by (rule tab_ok_update [OF T(2) i(1)]) (use d in auto)
  ultimately show ?thesis by blast
qed

lemma hdelete_live:
  fixes htab :: "'c hsearch_data"
  assumes wf: "hwf htab" "table htab = Blk T" and i: "i \<in> {1..unat (hsize htab)}" "at_key T i k"
  shows "\<exists>htab'. hdelete (of_nat i) htab = Some htab' \<and> hwf htab' \<and> vals htab' = (vals htab)(k := None)
    \<and> hsize htab' = hsize htab \<and> change_ok htab' = change_ok htab \<and> room htab' = room htab \<and> filled htab' = filled htab - 1"
proof -
  have wf': "size_ok (hsize htab)" "tab_ok (hsize htab) T" "unat (filled htab) = card (lives (hsize htab) T)"
    using wf by (auto simp: hwf_def)
  have len: "i < length T" using tab_ok_length [OF wf'(2)] i by simp
  have key: "0 < used (T ! i)" using i(2) by (simp add: at_key_def)
  obtain d where d: "used d = -1" and e: "hdelete (of_nat i) htab = Some (htab\<lparr>table := Blk (T[i := d]), filled := filled htab - 1\<rparr>)"
      and ok: "tab_ok (hsize htab) (T[i := d])"
    using hdelete_slot [OF wf'(1) wf(2) wf'(2) i] by blast
  let ?t = "htab\<lparr>table := Blk (T[i := d]), filled := filled htab - 1\<rparr>"
  have il: "i \<in> lives (hsize htab) T" using i(1) key by (simp add: lives_def)
  then have pos: "0 < unat (filled htab)" using wf'(3) by (metis card_gt_0_iff empty_iff finite_lives(1))
  have "unat (filled htab - 1) = unat (filled htab) - 1" using pos by (simp add: unat_minus_one unat_gt_0)
  then have "hwf ?t" using wf' ok d il lives_update [OF i(1) len, of d] by (simp add: hwf_def)
  moreover have "vals ?t = (vals htab)(k := None)"
    by (rule vals_update(2) [OF wf(2) wf'(2) i(1) ok]) (use d i in auto)
  moreover have "room ?t = room htab"
    using wf(2) empties_update [OF i(1) len, of d] d key by (simp add: room_def) (auto simp: empties_def)
  ultimately show ?thesis using e by simp
qed

lemma remove_spec:
  fixes htab :: "'c hsearch_data"
  assumes wf: "hwf htab" and k: "0 \<notin> set k"
  shows "\<exists>r err htab'. hdelete_r cb junk k flag htab = Some (r, err, htab') \<and> hwf htab' \<and> hsize htab' = hsize htab
    \<and> change_ok htab' = change_ok htab \<and> room htab' = room htab
    \<and> (if r = 0 then htab' = htab \<and> err \<noteq> None else vals htab' = (vals htab)(k := None) \<and> r = 1 \<and> err = None)
    \<and> ((\<forall>e. \<not> rejects htab e None env_op_delete flag) \<and> (\<forall>c. \<not> cb c k None env_op_delete flag) \<longrightarrow> (r = 0 \<longleftrightarrow> vals htab k = None))
    \<and> (vals htab k = None \<longrightarrow> r = 0 \<and> err = Some ESRCH)"
proof -
  obtain T where T: "table htab = Blk T" "size_ok (hsize htab)" "tab_ok (hsize htab) T" using wf by (rule hwfE)
  obtain r ep err where f: "hsearch_r cb (\<lambda>_ _. (None, 0)) True True k junk FIND 0 htab = Some (r, ep, err, htab)"
      "case vals htab k of None \<Rightarrow> r = 0 \<and> ep = None \<and> err = Some ESRCH
       | Some v \<Rightarrow> err = None \<and> (\<exists>i. r = int i \<and> ep = Some i \<and> slot_holds htab i k v)"
    using find_spec [OF hwf_searchable [OF wf] k, of cb "\<lambda>_ _. (None, 0)" True True junk 0] by blast
  show ?thesis
  proof (cases "vals htab k")
    case None
    then show ?thesis using f wf by (simp add: hdelete_r_def)
  next
    case (Some v)
    then obtain i where i: "r = int i" "i \<in> {1..unat (hsize htab)}" "at_key T i k" using f(2) T(1) by (auto simp: slot_holds_def)
    have len: "i < length T" using tab_ok_length [OF T(3)] i(2) by simp
    obtain htab' where d: "hdelete (of_nat i) htab = Some htab'" "hwf htab'" "vals htab' = (vals htab)(k := None)"
      "hsize htab' = hsize htab" "change_ok htab' = change_ok htab" "room htab' = room htab"
      using hdelete_live [OF wf T(1) i(2,3)] by blast
    have "hdelete_r cb junk k flag htab =
       (if rejects htab (entry (T ! i)) None env_op_delete flag then Some (0, Some EPERM, htab)
        else if calls_back cb (entry (T ! i)) k None env_op_delete flag then Some (0, Some EINVAL, htab)
        else Some (1, None, htab'))"
      using f(1) i(1,2) len T(1) d(1) by (simp add: hdelete_r_def load_Some)
    then show ?thesis using d wf Some by (auto simp: calls_back_def split: option.splits)
  qed
qed

text \<open>Setting and removing a variable keep a table searchable, also one with no empty slot left or with a wrong counter.\<close>

lemma searchable_enter:
  fixes htab :: "'c hsearch_data"
  assumes ok: "searchable htab" and k: "0 \<notin> set k" "0 \<notin> set v"
  shows "\<exists>r ep err t. hsearch_r cb ini True True k (Some v) ENTER flag htab = Some (r, ep, err, t) \<and> searchable t"
proof -
  let ?sz = "hsize htab" and ?h = "hash_of (hsize htab) k"
  obtain T where T: "table htab = Blk T" "size_ok ?sz" "tab_ok ?sz T" using ok by (rule searchableE)
  from T(1,3) show ?thesis
  proof (cases rule: vals_cases [where k = k])
    case (present i v0)
    have "searchable (htab\<lparr>table := Blk (entered T i (Blk v))\<rparr>)"
      using overwrite_tab_ok [OF T(3) present(2,3) k(2)] T(2) by (simp add: searchable_def)
    then show ?thesis
      using hsearch_hit [OF T(2,1,3) present(2,3), of cb ini True True "Some v" ENTER flag]
        compare_hit [OF T(2,1,3) present(2,3), of cb True "Some v" ENTER flag] ok by simp
  next
    case absent
    obtain m where m: "m < unat ?sz" "chain ?sz T ?h m"
        and e: "hsearch_r cb ini True True k (Some v) ENTER flag htab =
          (if filled htab = ?sz then Some (0, None, Some ENOMEM, htab)
           else enter_new cb ini True True k (Some v) flag ?h (of_nat (probe (unat ?sz) (unat ?h) m)) htab)"
      using hsearch_miss [OF T(2,1,3) k(1) absent(2), of cb ini True True "Some v" ENTER flag] by (metis (full_types))
    let ?i = "probe (unat ?sz) (unat ?h) m"
    note hb = hash_bounds [OF T(2) k(1)]
    have i: "?i \<in> {1..unat ?sz}" using probe_range [of "unat ?sz" "unat ?h" m] T(2) hb by (simp add: size_ok_def)
    obtain x d where x: "used x = sint ?h" "h_key (entry x) = Blk k" "h_data (entry x) = Blk v" "used d = -1"
        and n: "enter_new cb ini True True k (Some v) flag ?h (of_nat ?i) htab =
         Some (if rejects htab (entry x) (Some v) env_op_create flag then (0, None, Some EPERM, htab\<lparr>table := Blk (T[?i := d])\<rparr>)
               else if calls_back cb (entry x) k (Some v) env_op_create flag then (0, None, Some EINVAL, htab\<lparr>table := Blk (T[?i := d])\<rparr>)
               else (1, Some ?i, None, htab\<lparr>table := Blk (T[?i := x]), filled := filled htab + 1\<rparr>))"
      using enter_new_cases [OF T(2,1) tab_ok_length [OF T(3)] i, of ?h k v cb ini flag] by blast
    have ux: "used x = uint ?h" using x(1) sint_hash [of ?h] hb T(2) by (simp add: size_ok_def)
    then have pos: "0 < used x" using hb(2) of_nat_unat [of ?h, where ?'a = int] by linarith
    have "tab_ok ?sz (T[?i := d])" by (rule tab_ok_update [OF T(3) i]) (use x in auto)
    moreover have "tab_ok ?sz (T[?i := x])" by (rule tab_ok_update [OF T(3) i]) (use ux pos x k absent(2) m in auto)
    ultimately show ?thesis using e n ok T(2) by (simp add: searchable_def)
  qed
qed

lemma searchable_remove:
  fixes htab :: "'c hsearch_data"
  assumes ok: "searchable htab" and k: "0 \<notin> set k"
  shows "\<exists>r err t. hdelete_r cb junk k flag htab = Some (r, err, t) \<and> searchable t"
proof -
  obtain T where T: "table htab = Blk T" "size_ok (hsize htab)" "tab_ok (hsize htab) T" using ok by (rule searchableE)
  obtain r ep err where f: "hsearch_r cb (\<lambda>_ _. (None, 0)) True True k junk FIND 0 htab = Some (r, ep, err, htab)"
      "case vals htab k of None \<Rightarrow> r = 0 \<and> ep = None \<and> err = Some ESRCH
       | Some v \<Rightarrow> err = None \<and> (\<exists>i. r = int i \<and> ep = Some i \<and> slot_holds htab i k v)"
    using find_spec [OF ok k, of cb "\<lambda>_ _. (None, 0)" True True junk 0] by blast
  show ?thesis
  proof (cases "vals htab k")
    case None
    then show ?thesis using f ok by (simp add: hdelete_r_def)
  next
    case (Some v)
    then obtain i where i: "r = int i" "i \<in> {1..unat (hsize htab)}" "at_key T i k" using f(2) T(1) by (auto simp: slot_holds_def)
    have len: "i < length T" using tab_ok_length [OF T(3)] i(2) by simp
    obtain d where d: "hdelete (of_nat i) htab = Some (htab\<lparr>table := Blk (T[i := d]), filled := filled htab - 1\<rparr>)" "tab_ok (hsize htab) (T[i := d])"
      using hdelete_slot [OF T(2,1,3) i(2,3)] by blast
    then show ?thesis using f(1) i(1,2) len T(1,2) ok by (simp add: hdelete_r_def load_Some searchable_def)
  qed
qed

interpretation hash_store: var_store "store_find cb ini" "store_enter cb ini flag" "store_remove cb flag" hwf vals room is_str is_str
  for cb :: "'c cback" and ini :: "'c ini" and flag :: int
proof unfold_locales
  fix s :: "'c hsearch_data" and k v
  assume s: "hwf s" and k: "is_str k"
  obtain T where T: "table s = Blk T" "tab_ok (hsize s) T" using s by (rule hwfE)
  show "store_find cb ini k s = Some (vals s k)"
    using find_spec [OF hwf_searchable [OF s], of k cb ini True True None 0] k T tab_ok_length [OF T(2)]
    by (cases "vals s k") (auto simp: store_find_def is_str_def slot_holds_def load_Some)
  show "\<exists>b s'. store_remove cb flag k s = Some (b, s') \<and> hwf s' \<and> vals s' = (if b then (vals s)(k := None) else vals s) \<and> room s \<le> Suc (room s')"
  proof -
    obtain r err s' where "hdelete_r cb None k flag s = Some (r, err, s')" "hwf s'" "room s' = room s"
        "if r = 0 then s' = s \<and> err \<noteq> None else vals s' = (vals s)(k := None) \<and> r = 1 \<and> err = None"
      using remove_spec [OF s, of k cb None flag] k unfolding is_str_def by metis
    then show ?thesis by (intro exI [of _ "r \<noteq> 0"] exI [of _ s']) (auto simp: store_remove_def split: if_splits)
  qed
  assume "is_str v" and "0 < room s"
  show "\<exists>b s'. store_enter cb ini flag k v s = Some (b, s') \<and> hwf s' \<and> vals s' = (if b then (vals s)(k \<mapsto> v) else vals s) \<and> room s \<le> Suc (room s')"
  proof -
    obtain r ep err s' where "hsearch_r cb ini True True k (Some v) ENTER flag s = Some (r, ep, err, s')" "hwf s'" "room s \<le> Suc (room s')"
        "if r = 0 then vals s' = vals s \<and> ep = None \<and> err \<noteq> None
         else vals s' = (vals s)(k \<mapsto> v) \<and> err = None \<and> (\<exists>i. ep = Some i \<and> slot_holds s' i k v)"
      using enter_spec [OF s, of k v cb ini flag] k \<open>is_str v\<close> \<open>0 < room s\<close> unfolding is_str_def by metis
    then show ?thesis by (intro exI [of _ "r \<noteq> 0"] exI [of _ s']) (auto simp: store_enter_def split: if_splits)
  qed
qed

definition no_handler :: "'c cback" where
  "no_handler c k v op flag = False"

definition open_table :: "'c hsearch_data \<Rightarrow> bool" where
  "open_table htab \<longleftrightarrow> hwf htab \<and> change_ok htab = None"

interpretation free_store: open_store "store_find no_handler ini" "store_enter no_handler ini flag" "store_remove no_handler flag"
    open_table vals room is_str is_str
  for ini :: "'c ini" and flag :: int
proof unfold_locales
  fix s s' :: "'c hsearch_data" and k v b
  assume o: "open_table s" and k: "is_str k"
  then have s: "hwf s" and nr: "\<not> rejects s e w op fl" for e w op fl by (simp_all add: open_table_def rejects_def)
  show "store_find no_handler ini k s = Some (vals s k)" using hash_store.find [OF s k] .
  obtain r err s1 where d: "hdelete_r no_handler None k flag s = Some (r, err, s1)" "hwf s1" "change_ok s1 = change_ok s" "room s1 = room s"
      "if r = 0 then s1 = s \<and> err \<noteq> None else vals s1 = (vals s)(k := None) \<and> r = 1 \<and> err = None" "r = 0 \<longleftrightarrow> vals s k = None"
    using remove_spec [OF s, of k no_handler None flag] k nr unfolding is_str_def no_handler_def by metis
  show "\<exists>b s'. store_remove no_handler flag k s = Some (b, s') \<and> open_table s' \<and> vals s' = (if b then (vals s)(k := None) else vals s) \<and> room s \<le> Suc (room s')"
    using d(1-5) o by (auto simp: store_remove_def open_table_def split: if_splits)
  show "b \<longleftrightarrow> vals s k \<noteq> None" if "store_remove no_handler flag k s = Some (b, s')"
    using that d(1,6) by (auto simp: store_remove_def)
  assume v: "is_str v" and rm: "0 < room s"
  obtain r ep err s1 where e: "hsearch_r no_handler ini True True k (Some v) ENTER flag s = Some (r, ep, err, s1)" "hwf s1"
      "change_ok s1 = change_ok s" "room s \<le> Suc (room s1)" "r \<noteq> 0"
      "if r = 0 then vals s1 = vals s \<and> ep = None \<and> err \<noteq> None
       else vals s1 = (vals s)(k \<mapsto> v) \<and> err = None \<and> (\<exists>i. ep = Some i \<and> slot_holds s1 i k v)"
    using enter_spec [OF s, of k v no_handler ini flag] k v rm nr unfolding is_str_def no_handler_def by metis
  show "\<exists>b s'. store_enter no_handler ini flag k v s = Some (b, s') \<and> open_table s' \<and> vals s' = (if b then (vals s)(k \<mapsto> v) else vals s) \<and> room s \<le> Suc (room s')"
    using e o by (auto simp: store_enter_def open_table_def)
  show "b" if "store_enter no_handler ini flag k v s = Some (b, s')"
    using that e(1,5) by (auto simp: store_enter_def)
qed

section \<open>A new table\<close>

definition table_size :: "nat \<Rightarrow> nat" where
  "table_size nel = (LEAST p. prime_num p \<and> 5 \<le> p \<and> nel \<le> p)"

lemma unat_or_1: "unat (x OR 1 :: u32) = (if even (unat x) then unat x + 1 else unat x)"
proof -
  have "unat (x OR 1) = unat x OR 1" unfolding unsigned_or_eq by simp
  also have "\<dots> = unat x + of_bool (even (unat x))" by (rule or_one_eq)
  finally show ?thesis by simp
qed

lemma table_size_props:
  assumes "nel \<le> 65521"
  shows "prime_num (table_size nel)" "5 \<le> table_size nel" "nel \<le> table_size nel" "table_size nel \<le> 65521"
proof -
  let ?P = "\<lambda>p. prime_num p \<and> 5 \<le> p \<and> nel \<le> p"
  have ex: "?P 65521" using prime_65521 assms by simp
  have "?P (table_size nel)" unfolding table_size_def using ex by (rule LeastI)
  then show "prime_num (table_size nel)" "5 \<le> table_size nel" "nel \<le> table_size nel" by simp_all
  show "table_size nel \<le> 65521" unfolding table_size_def using ex by (rule Least_le)
qed

lemma next_prime_table_size:
  assumes "2 \<le> unat nel" and "unat nel \<le> 65521"
  shows "next_prime (nel OR 1) = Some (of_nat (table_size (unat nel)))"
proof -
  let ?p = "table_size (unat nel)"
  note ts = table_size_props [OF assms(2)]
  have op: "odd ?p" using prime_num_odd [OF ts(1)] ts(2) by simp
  have no: "\<not> prime_num q" if "5 \<le> q" "unat nel \<le> q" "q < ?p" for q
    using not_less_Least [of q "\<lambda>p. prime_num p \<and> 5 \<le> p \<and> unat nel \<le> p"] that unfolding table_size_def by blast
  show ?thesis
  proof (cases "unat nel \<le> 3")
    case True
    have "unat nel = 2 \<or> unat nel = 3" using True assms(1) by linarith
    then have "unat (nel OR 1) = 3" unfolding unat_or_1 by auto
    then have three: "nel OR 1 = 3" by (metis word_of_unat of_nat_numeral)
    have "prime_num 5" by code_simp
    then have p5: "?p = 5" unfolding table_size_def using True by (intro Least_equality) simp_all
    have "next_prime 5 = Some (of_nat ?p)"
      by (rule next_prime_least) (use p5 \<open>prime_num 5\<close> in auto)
    moreover have "isprime 3 = Some False"
      using isprime_loop.simps [of 3 3] by (simp add: isprime_def)
    ultimately show ?thesis unfolding three next_prime.simps [of 3] by simp
  next
    case False
    have odd: "odd (unat (nel OR 1))" "3 < unat (nel OR 1)" using False by (auto simp: unat_or_1)
    have le: "unat (nel OR 1) \<le> ?p" using ts(3) op by (auto simp: unat_or_1 le_eq_less_or_eq Suc_le_eq)
    show ?thesis
    proof (rule next_prime_least [OF odd le ts(1)])
      show "?p < 16777216" using ts(4) by simp
      fix q assume "unat (nel OR 1) \<le> q" "q < ?p"
      moreover have "5 \<le> unat (nel OR 1)" using odd by presburger
      moreover have "unat nel \<le> unat (nel OR 1)" unfolding unat_or_1 by simp
      ultimately show "\<not> prime_num q" using no [of q] by linarith
    qed
  qed
qed

lemma hcreate_eq:
  assumes "table htab = Null" and "2 \<le> unat nel" and "unat nel \<le> 65521"
  shows "hcreate_r ok nel (Some htab) = Some (if ok then 1 else 0, None,
    Some (htab\<lparr>table := malloc ok (replicate (table_size (unat nel) + 1) zero_slot), hsize := of_nat (table_size (unat nel)), filled := 0\<rparr>))"
proof -
  have "unat (of_nat (table_size (unat nel)) + 1 :: u32) = table_size (unat nel) + 1"
    using table_size_props(4) [OF assms(3)] by (simp add: unat_add_u32 unat_of_nat)
  then show ?thesis
    using assms(1) next_prime_table_size [OF assms(2,3)] by (simp add: hcreate_r_def Let_def malloc_def)
qed

lemma new_table:
  fixes htab :: "'c hsearch_data"
  assumes "nel \<le> 65521" and "table htab = Blk (replicate (table_size nel + 1) zero_slot)" "hsize htab = of_nat (table_size nel)" "filled htab = 0"
  shows "hwf htab" and "vals htab = (\<lambda>_. None)" and "room htab = table_size nel"
proof -
  let ?R = "replicate (table_size nel + 1) zero_slot :: 'c slot list"
  note ts = table_size_props [OF assms(1)]
  have u: "unat (hsize htab) = table_size nel" using ts(4) assms(3) by (simp add: unat_of_nat)
  have z: "?R ! i = zero_slot" if "i \<le> table_size nel" for i using that by (subst nth_replicate) simp_all
  have us: "used (zero_slot :: 'c slot) = 0" by (simp add: zero_slot_def)
  have l: "lives (hsize htab) ?R = {}" using z us u by (auto simp: lives_def simp del: replicate.simps)
  have e: "empties (hsize htab) ?R = {1..table_size nel}"
    using z us u by (auto simp: empties_def simp del: replicate.simps)
  have "tab_ok (hsize htab) ?R"
    unfolding tab_ok_def slot_ok_def u using z us by (auto simp del: replicate.simps)
  then show "hwf htab" using assms(2,4) ts l u by (simp add: hwf_def size_ok_def)
  show "vals htab = (\<lambda>_. None)"
    using vals_absent [OF _ assms(2)] z us u by (auto simp: at_key_def simp del: replicate.simps intro!: ext)
  show "room htab = table_size nel" using assms(2) e by (simp add: room_def)
qed

section \<open>Search by content\<close>

lemma strncmp_prefix:
  "cstr m a xs \<Longrightarrow> cstr m b ys \<Longrightarrow> \<exists>r. strncmp m a b (length xs) = Some r \<and> (r = 0 \<longleftrightarrow> prefix xs ys)"
proof (induction xs arbitrary: a b ys)
  case (Cons x xs)
  show ?case
  proof (cases ys)
    case Nil
    then show ?thesis using Cons.prems sint_diff_zero [of x 0] by auto
  next
    case (Cons y ys')
    then show ?thesis using Cons.prems Cons.IH [of "a + 1" "b + 1" ys'] sint_diff_zero [of x y] by auto
  qed
qed simp

lemma str_starts_prefix: "0 \<notin> set p \<Longrightarrow> 0 \<notin> set k \<Longrightarrow> str_starts (length p) p k = Some (prefix p k)"
  using strncmp_prefix [OF cstr_first [of p "k @ [0]"] cstr_second [of k p]] by (auto simp: str_starts_def)

lemma scan_loop_find:
  assumes "\<And>i. i \<in> set is \<Longrightarrow> i < length T" and "\<And>i. i \<in> set is \<Longrightarrow> 0 < used (T ! i) \<Longrightarrow> P (entry (T ! i)) = Some (Q i)"
  shows "scan_loop P (Blk T) is = Some (List.find (\<lambda>i. 0 < used (T ! i) \<and> Q i) is)"
  using assms by (induction "is") (auto simp: load_Some)

definition key_starts :: "mem \<Rightarrow> 'c hsearch_data \<Rightarrow> nat \<Rightarrow> bool" where
  "key_starts p htab i = (case table htab of Blk T \<Rightarrow> 0 < used (T ! i) \<and> (case h_key (entry (T ! i)) of Blk k \<Rightarrow> prefix p k | _ \<Rightarrow> False) | _ \<Rightarrow> False)"

section \<open>Theorems\<close>

text \<open>C3 (lib/hashtable.c). A table made by \<open>hcreate_r\<close> for \<open>nel\<close> entries is a finite map: for any handlers and any
  sequence of at most \<open>nel\<close> calls of \<open>hsearch_r\<close> with \<open>ENTER\<close> and of \<open>hdelete_r\<close>, each call returns, and \<open>hsearch_r\<close> with
  \<open>FIND\<close> then gives, for every key, the value that the calls that reported success leave in a map that starts empty.\<close>

theorem hash_table_is_map:
  assumes "table htab = Null" and "2 \<le> unat nel" and "unat nel \<le> 65521" and "length cs \<le> unat nel"
    and "\<And>k w. (k, w) \<in> set cs \<Longrightarrow> is_str k \<and> (case w of None \<Rightarrow> True | Some v \<Rightarrow> is_str v)"
  shows "\<exists>t bs t'. hcreate_r True nel (Some htab) = Some (1, None, Some t)
    \<and> changes (store_enter cb ini flag) (store_remove cb flag) cs t = Some (bs, t') \<and> length bs = length cs
    \<and> (\<forall>k. is_str k \<longrightarrow> store_find cb ini k t' = Some (replay cs bs (\<lambda>_. None) k))"
proof -
  let ?t = "htab\<lparr>table := Blk (replicate (table_size (unat nel) + 1) zero_slot), hsize := of_nat (table_size (unat nel)), filled := 0\<rparr>"
  have new: "hwf ?t" "vals ?t = (\<lambda>_. None)" "room ?t = table_size (unat nel)" by (rule new_table [OF assms(3)]; simp)+
  have "length cs \<le> room ?t" using new(3) table_size_props(3) [OF assms(3)] assms(4) by simp
  then obtain bs t' where "changes (store_enter cb ini flag) (store_remove cb flag) cs ?t = Some (bs, t')" "length bs = length cs"
      "\<forall>k. is_str k \<longrightarrow> store_find cb ini k t' = Some (replay cs bs (vals ?t) k)"
    using hash_store.changes_find [OF new(1), of cs cb ini flag] assms(5) by blast
  moreover have "hcreate_r True nel (Some htab) = Some (1, None, Some ?t)"
    using hcreate_eq [OF assms(1-3), of True] by (simp add: malloc_def del: replicate.simps)
  ultimately show ?thesis using new(2) by auto
qed

definition no_table :: "unit hsearch_data" where
  "no_table = \<lparr>table = Null, hsize = 0, filled = 0, change_ok = None\<rparr>"

theorem hash_table_is_map_witness:
  "\<exists>t bs t'. hcreate_r True 5 (Some no_table) = Some (1, None, Some t)
    \<and> changes (store_enter no_handler (\<lambda>_ _. (None, 0)) 0) (store_remove no_handler 0) [([65], Some [66]), ([65], None), ([70], Some [71])] t = Some (bs, t')
    \<and> length bs = length [([65 :: byte], Some [66 :: byte]), ([65], None), ([70], Some [71])]
    \<and> (\<forall>k. is_str k \<longrightarrow> store_find no_handler (\<lambda>_ _. (None, 0)) k t'
          = Some (replay [([65], Some [66]), ([65], None), ([70], Some [71])] bs (\<lambda>_. None) k))"
  by (rule hash_table_is_map) (auto simp: no_table_def is_str_def)

text \<open>(lib/hashtable.c). When no handler and no \<open>change_ok\<close> refuses, every setting is done and a removal is done when
  the key is there: after the sequence, \<open>FIND\<close> gives the value of the last call for the key.\<close>

theorem hash_table_last_value:
  fixes htab :: "'c hsearch_data"
  assumes "table htab = Null" and "change_ok htab = None" and "2 \<le> unat nel" and "unat nel \<le> 65521" and "length cs \<le> unat nel"
    and "\<And>k w. (k, w) \<in> set cs \<Longrightarrow> is_str k \<and> (case w of None \<Rightarrow> True | Some v \<Rightarrow> is_str v)"
  shows "\<exists>t bs t'. hcreate_r True nel (Some htab) = Some (1, None, Some t)
    \<and> changes (store_enter no_handler ini flag) (store_remove no_handler flag) cs t = Some (bs, t')
    \<and> (\<forall>k. is_str k \<longrightarrow> store_find no_handler ini k t' = Some (fold (\<lambda>(k, w) m. m(k := w)) cs (\<lambda>_. None) k))"
proof -
  let ?t = "htab\<lparr>table := Blk (replicate (table_size (unat nel) + 1) zero_slot), hsize := of_nat (table_size (unat nel)), filled := 0\<rparr>"
  have new: "hwf ?t" "vals ?t = (\<lambda>_. None)" "room ?t = table_size (unat nel)" by (rule new_table [OF assms(4)]; simp)+
  then have ot: "open_table ?t" using assms(2) by (simp add: open_table_def)
  have "length cs \<le> room ?t" using new(3) table_size_props(3) [OF assms(4)] assms(5) by simp
  then obtain bs t' where "changes (store_enter no_handler ini flag) (store_remove no_handler flag) cs ?t = Some (bs, t')" "open_table t'"
      "vals t' = fold (\<lambda>(k, w) m. m(k := w)) cs (vals ?t)"
    using free_store.changes_all [OF ot, of cs ini flag] assms(6) by blast
  moreover have "hcreate_r True nel (Some htab) = Some (1, None, Some ?t)"
    using hcreate_eq [OF assms(1,3,4), of True] by (simp add: malloc_def del: replicate.simps)
  ultimately show ?thesis using new(2) free_store.find [of t' _ ini] by auto
qed

theorem hash_table_last_value_witness:
  "\<exists>t bs t'. hcreate_r True 5 (Some no_table) = Some (1, None, Some t)
    \<and> changes (store_enter no_handler (\<lambda>_ _. (None, 0)) 0) (store_remove no_handler 0) [([65], Some [66]), ([65], None), ([70], Some [71])] t = Some (bs, t')
    \<and> (\<forall>k. is_str k \<longrightarrow> store_find no_handler (\<lambda>_ _. (None, 0)) k t'
          = Some (fold (\<lambda>(k, w) m. m(k := w)) [([65], Some [66]), ([65], None), ([70], Some [71])] (\<lambda>_. None) k))"
  by (rule hash_table_last_value) (auto simp: no_table_def is_str_def)

text \<open>C20 (lib/hashtable.c, \<open>hcreate_r\<close>). For two to 65521 elements the loop that looks for the size ends, at the
  smallest prime that is at least five and not below the number asked for; the table has one slot more.\<close>

theorem hcreate_next_prime:
  assumes "table htab = Null" and "2 \<le> unat nel" and "unat nel \<le> 65521"
  shows "\<exists>p. prime_num p \<and> 5 \<le> p \<and> unat nel \<le> p \<and> (\<forall>q\<in>{5..<p}. unat nel \<le> q \<longrightarrow> \<not> prime_num q)
    \<and> hcreate_r ok nel (Some htab) = Some (if ok then 1 else 0, None,
        Some (htab\<lparr>table := malloc ok (replicate (p + 1) zero_slot), hsize := of_nat p, filled := 0\<rparr>))"
proof (intro exI conjI ballI impI)
  fix q assume "q \<in> {5..<table_size (unat nel)}" "unat nel \<le> q"
  then show "\<not> prime_num q"
    using not_less_Least [of q "\<lambda>p. prime_num p \<and> 5 \<le> p \<and> unat nel \<le> p"] by (auto simp: table_size_def)
qed (use table_size_props [OF assms(3)] hcreate_eq [OF assms] in blast)+

theorem hcreate_next_prime_witness:
  "\<exists>p. prime_num p \<and> 5 \<le> p \<and> unat (512 :: u32) \<le> p \<and> (\<forall>q\<in>{5..<p}. unat (512 :: u32) \<le> q \<longrightarrow> \<not> prime_num q)
    \<and> hcreate_r True 512 (Some no_table) = Some (if True then 1 else 0, None,
        Some (no_table\<lparr>table := malloc True (replicate (p + 1) zero_slot), hsize := of_nat p, filled := 0\<rparr>))"
  by (rule hcreate_next_prime) (simp_all add: no_table_def)

text \<open>With no empty slot the search for a key that is not there comes back to its first index.\<close>

lemma hsearch_full:
  fixes htab :: "'c hsearch_data"
  defines "h \<equiv> hash_of (hsize htab)"
  assumes wf: "hwf htab" "room htab = 0" "filled htab \<noteq> hsize htab" and k: "is_str k" "vals htab k = None"
  shows "hsearch_r cb ini True True k (Some v) ENTER flag htab = enter_new cb ini True True k (Some v) flag (h k) (of_nat (unat (h k))) htab"
proof -
  let ?sz = "hsize htab" and ?i = "unat (h k)"
  obtain T where T: "table htab = Blk T" "size_ok ?sz" "tab_ok ?sz T" using wf(1) by (rule hwfE)
  have k': "0 \<notin> set k" using k(1) by (simp add: is_str_def)
  have i: "?i \<in> {1..unat ?sz}" using hash_bounds [OF T(2) k'] by (simp add: h_def)
  have out: "\<not> at_key T j k" if "j \<in> {1..unat ?sz}" for j
    using T(1,3) by (cases rule: vals_cases [where k = k]) (use that k(2) in auto)
  have ne: "used (T ! j) \<noteq> 0" if "j \<in> {1..unat ?sz}" for j
    using wf(2) T(1) that card_gt_0_iff [of "empties ?sz T"] by (auto simp: room_def empties_def)
  obtain m where "used (T ! probe (unat ?sz) ?i m) = 0 \<or> m = 0"
      and e: "hsearch_r cb ini True True k (Some v) ENTER flag htab =
        enter_new cb ini True True k (Some v) flag (h k) (of_nat (probe (unat ?sz) ?i m)) htab"
    using hsearch_miss [OF T(2,1,3) k' out, of cb ini True True "Some v" ENTER flag] wf(3) by (auto simp: h_def)
  moreover have "probe (unat ?sz) ?i m \<in> {1..unat ?sz}" using probe_range [of "unat ?sz" ?i m] T(2) i by (simp add: size_ok_def)
  ultimately have "m = 0" using ne by blast
  then show ?thesis using e by simp
qed

text \<open>A new entry over a live one: the old key is gone, and \<open>filled\<close> no longer counts the entries.\<close>

lemma evict_update:
  fixes htab :: "'c hsearch_data" and x d :: "'c slot"
  defines "i k \<equiv> unat (hash_of (hsize htab) k)"
  assumes T: "table htab = Blk T" "size_ok (hsize htab)" "tab_ok (hsize htab) T" "unat (filled htab) = card (lives (hsize htab) T)"
    and i: "i k \<in> {1..unat (hsize htab)}" and at: "at_key T (i k) k0" and k: "is_str k" "is_str v" "vals htab k = None"
    and x: "used x = sint (hash_of (hsize htab) k)" "h_key (entry x) = Blk k" "h_data (entry x) = Blk v" "used d = -1"
  shows "vals (htab\<lparr>table := Blk (T[i k := x]), filled := filled htab + 1\<rparr>) = (vals htab)(k0 := None, k \<mapsto> v)"
    and "\<not> hwf (htab\<lparr>table := Blk (T[i k := x]), filled := filled htab + 1\<rparr>)"
proof -
  let ?sz = "hsize htab" and ?h = "hash_of (hsize htab) k" and ?i = "i k"
  let ?t = "htab\<lparr>table := Blk (T[?i := x]), filled := filled htab + 1\<rparr>" and ?u = "htab\<lparr>table := Blk (T[?i := d])\<rparr>"
  have k': "0 \<notin> set k" "0 \<notin> set v" using k by (simp_all add: is_str_def)
  note hb = hash_bounds [OF T(2) k'(1)]
  have len: "?i < length T" using i tab_ok_length [OF T(3)] by simp
  have out: "\<not> at_key T j k" if "j \<in> {1..unat ?sz}" for j
    using T(1,3) by (cases rule: vals_cases [where k = k]) (use that k(3) in auto)
  have ux: "used x = uint ?h" using x(1) sint_hash [of ?h] hb T(2) by (simp add: size_ok_def)
  then have pos: "0 < used x" using hb(2) of_nat_unat [of ?h, where ?'a = int] by linarith
  have okd: "tab_ok ?sz (T[?i := d])" by (rule tab_ok_update [OF T(3) i]) (use x in auto)
  have okx: "tab_ok ?sz (T[?i := x])"
    by (rule tab_ok_update [OF T(3) i]) (use ux pos x k' out T(2) in \<open>auto simp: chain_def size_ok_def i_def intro!: exI [of _ 0]\<close>)
  have "vals ?u = (vals htab)(k0 := None)" by (rule vals_update(2) [OF T(1,3) i okd]) (use x at in auto)
  moreover have "vals ?t = (vals ?u)(k \<mapsto> v)"
    by (rule vals_update(1) [of ?u "T[?i := d]" ?i x]) (use okd okx i x ux pos len in \<open>auto simp: at_key_def\<close>)
  ultimately show "vals ?t = (vals htab)(k0 := None, k \<mapsto> v)" by simp
  have "lives ?sz (T[?i := x]) = lives ?sz T" using lives_update [OF i len, of x] pos i at by (auto simp: lives_def at_key_def)
  moreover have "unat (filled htab + 1) \<noteq> unat (filled htab)" unfolding word_unat_eq_iff [symmetric] by simp
  ultimately show "\<not> hwf ?t" using T(4) by (simp add: hwf_def)
qed

text \<open>C37 (lib/hashtable.c, \<open>hsearch_r\<close>). Once no slot is empty, although deleted ones are left and \<open>filled\<close> is below
  the size, the search for a new key comes back to its first index, and if an entry lives there \<open>ENTER\<close> writes over it:
  the call reports success and another variable is gone, and \<open>filled\<close> no longer is the number of entries.\<close>

theorem hsearch_enter_evicts:
  fixes htab :: "'c hsearch_data"
  assumes wf: "hwf htab" "room htab = 0" "filled htab \<noteq> hsize htab" and k: "is_str k" "is_str v" "vals htab k = None"
    and old: "slot_holds htab (unat (hash_of (hsize htab) k)) k0 v0"
    and quiet: "\<And>e. \<not> rejects htab e (Some v) env_op_create flag" "\<And>c. \<not> cb c k (Some v) env_op_create flag"
  shows "\<exists>ep t. hsearch_r cb ini True True k (Some v) ENTER flag htab = Some (1, ep, None, t)
    \<and> vals htab k0 = Some v0 \<and> vals t = (vals htab)(k0 := None, k \<mapsto> v) \<and> \<not> hwf t"
proof -
  let ?sz = "hsize htab" and ?h = "hash_of (hsize htab) k"
  let ?i = "unat ?h"
  obtain T where T: "table htab = Blk T" "size_ok ?sz" "tab_ok ?sz T" "unat (filled htab) = card (lives ?sz T)" using wf(1) by (rule hwfE)
  have i: "?i \<in> {1..unat ?sz}" and at: "at_key T ?i k0" and d0: "h_data (entry (T ! ?i)) = Blk v0"
    using old T(1) by (auto simp: slot_holds_def)
  obtain x d where x: "used x = sint ?h" "h_key (entry x) = Blk k" "h_data (entry x) = Blk v" "used d = -1"
      and e0: "enter_new cb ini True True k (Some v) flag ?h (of_nat ?i) htab =
       Some (if rejects htab (entry x) (Some v) env_op_create flag then (0, None, Some EPERM, htab\<lparr>table := Blk (T[?i := d])\<rparr>)
             else if calls_back cb (entry x) k (Some v) env_op_create flag then (0, None, Some EINVAL, htab\<lparr>table := Blk (T[?i := d])\<rparr>)
             else (1, Some ?i, None, htab\<lparr>table := Blk (T[?i := x]), filled := filled htab + 1\<rparr>))"
    using enter_new_cases [OF T(2,1) tab_ok_length [OF T(3)] i, of ?h k v cb ini flag] by blast
  have "\<not> calls_back cb (entry x) k (Some v) env_op_create flag" using quiet(2) by (simp add: calls_back_def split: option.split)
  then have "hsearch_r cb ini True True k (Some v) ENTER flag htab = Some (1, Some ?i, None, htab\<lparr>table := Blk (T[?i := x]), filled := filled htab + 1\<rparr>)"
    using hsearch_full [OF wf k(1,3), of cb ini v flag] e0 quiet(1) by simp
  then show ?thesis using evict_update [OF T i at k x] vals_at [OF T(1,3) i at d0] by simp
qed

definition full_slot :: "int \<Rightarrow> byte \<Rightarrow> unit slot" where
  "full_slot u c = \<lparr>used = u, entry = \<lparr>h_key = Blk [c], h_data = Blk [c], callback = None, h_flags = 0\<rparr>\<rparr>"

definition full_slots :: "unit slot list" where
  "full_slots = [zero_slot, full_slot 1 65, full_slot 2 66, full_slot 3 67, full_slot 4 68, zero_slot\<lparr>used := -1\<rparr>]"

definition full_table :: "unit hsearch_data" where
  "full_table = \<lparr>table = Blk full_slots, hsize = 5, filled = 4, change_ok = None\<rparr>"

lemma hash_letters: "hash_of 5 [65] = 1" "hash_of 5 [66] = 2" "hash_of 5 [67] = 3" "hash_of 5 [68] = 4" "hash_of 5 [70] = 1"
  by (simp_all add: hash_of_def first_hash_def load_def strlen_str [of "[_]", simplified])

lemma full_slots_nth: "full_slots ! 1 = full_slot 1 65" "full_slots ! 2 = full_slot 2 66" "full_slots ! 3 = full_slot 3 67"
    "full_slots ! 4 = full_slot 4 68" "full_slots ! 5 = zero_slot\<lparr>used := -1\<rparr>" "length full_slots = 6"
  by (simp_all add: full_slots_def)

lemma one_to_five: "{1..unat (5 :: u32)} = {1, 2, 3, 4, 5 :: nat}"
  by auto

lemma slot_ok_home:
  "h_key (entry (T ! i)) = Blk k \<Longrightarrow> h_data (entry (T ! i)) = Blk v \<Longrightarrow> 0 \<notin> set k \<Longrightarrow> 0 \<notin> set v \<Longrightarrow>
     used (T ! i) = uint (hash_of sz k) \<Longrightarrow> unat (hash_of sz k) = i \<Longrightarrow> 0 < unat sz \<Longrightarrow> slot_ok sz T i"
  by (simp add: slot_ok_def chain_def) (auto intro!: bexI [of _ 0])

lemma full_slot_ok:
  "full_slots ! i = full_slot u c \<Longrightarrow> c \<noteq> 0 \<Longrightarrow> u = uint (hash_of 5 [c]) \<Longrightarrow> unat (hash_of 5 [c]) = i \<Longrightarrow> slot_ok 5 full_slots i"
  by (rule slot_ok_home [where k = "[c]" and v = "[c]"]) (simp_all add: full_slot_def)

lemma full_table_hwf: "hwf full_table"
proof -
  have "prime_num 5" by code_simp
  then have sz: "size_ok 5" by (simp add: size_ok_def)
  have "slot_ok 5 full_slots 1" "slot_ok 5 full_slots 2" "slot_ok 5 full_slots 3" "slot_ok 5 full_slots 4"
    by (rule full_slot_ok [OF full_slots_nth(1)] full_slot_ok [OF full_slots_nth(2)] full_slot_ok [OF full_slots_nth(3)]
          full_slot_ok [OF full_slots_nth(4)]; simp add: hash_letters)+
  moreover have "slot_ok 5 full_slots 5" unfolding slot_ok_def full_slots_nth by simp
  ultimately have "tab_ok 5 full_slots"
    unfolding tab_ok_def one_to_five using full_slots_nth by (auto simp: full_slot_def)
  moreover have "lives 5 full_slots = {1, 2, 3, 4}"
    unfolding lives_def one_to_five using full_slots_nth by (auto simp: full_slot_def)
  ultimately show ?thesis using sz by (simp add: hwf_def full_table_def)
qed

lemma full_table_facts:
  "room full_table = 0" "vals full_table [70] = None" "slot_holds full_table (unat (hash_of (hsize full_table) [70])) [65] [65]"
proof -
  have "empties 5 full_slots = {}" unfolding empties_def one_to_five using full_slots_nth by (auto simp: full_slot_def)
  then show "room full_table = 0" by (simp add: room_def full_table_def)
  have no: "\<not> at_key full_slots i [70]" if "i \<in> {1..unat (hsize full_table)}" for i
  proof -
    have "i \<in> {1, 2, 3, 4, 5}" using that unfolding full_table_def hsearch_data.simps one_to_five .
    then show ?thesis using full_slots_nth by (auto simp: at_key_def full_slot_def)
  qed
  show "vals full_table [70] = None" by (rule vals_absent [OF no]) (simp_all add: full_table_def)
  show "slot_holds full_table (unat (hash_of (hsize full_table) [70])) [65] [65]"
    using full_slots_nth(1) by (simp add: full_table_def hash_letters slot_holds_def at_key_def full_slot_def)
qed

theorem hsearch_enter_evicts_witness:
  "\<exists>ep t. hsearch_r no_handler (\<lambda>_ _. (None, 0)) True True [70] (Some [70]) ENTER 0 full_table = Some (1, ep, None, t)
    \<and> vals full_table [65] = Some [65] \<and> vals t = (vals full_table)([65] := None, [70] \<mapsto> [70]) \<and> \<not> hwf t"
  by (rule hsearch_enter_evicts [OF full_table_hwf full_table_facts(1) _ _ _ full_table_facts(2,3)])
     (simp_all add: full_table_def is_str_def rejects_def no_handler_def)

text \<open>(lib/hashtable.c, \<open>hsearch_r\<close>). If there is no memory for the copy of a new key, \<open>ENTER\<close> reports \<open>ENOMEM\<close> but
  leaves the slot marked as used with a null key: when the first slot of the key was empty or deleted, the next search
  for the key compares with the null pointer, whatever the action and the handlers.\<close>

theorem hsearch_no_memory:
  fixes htab :: "'c hsearch_data"
  assumes wf: "hwf htab" "table htab = Blk T" and k: "is_str k" "vals htab k = None" and dead: "used (T ! unat (hash_of (hsize htab) k)) \<le> 0"
  shows "\<exists>t. hsearch_r cb ini False dupd k d ENTER flag htab = Some (0, None, Some ENOMEM, t)
    \<and> hsearch_r cb' ini' dupk' dupd' k d' action flag' t = None"
proof -
  let ?sz = "hsize htab" and ?h = "hash_of (hsize htab) k"
  have T: "size_ok ?sz" "tab_ok ?sz T" "unat (filled htab) = card (lives ?sz T)" using wf by (auto simp: hwf_def)
  have k': "0 \<notin> set k" using k by (simp add: is_str_def)
  note hb = hash_bounds [OF T(1) k']
  have i: "unat ?h \<in> {1..unat ?sz}" and len: "unat ?h < length T" using hb tab_ok_length [OF T(2)] by simp_all
  have out: "\<not> at_key T j k" if "j \<in> {1..unat ?sz}" for j
    using wf(2) T(2) by (cases rule: vals_cases [where k = k]) (use that k(2) in auto)
  have "filled htab \<noteq> ?sz"
  proof
    have "lives ?sz T \<subseteq> {1..unat ?sz} - {unat ?h}" using dead by (auto simp: lives_def)
    then have "card (lives ?sz T) \<le> card ({1..unat ?sz} - {unat ?h})" by (intro card_mono) simp_all
    also have "\<dots> < unat ?sz" using i T(1) by (simp add: size_ok_def)
    moreover assume "filled htab = ?sz"
    ultimately show False using T(3) by simp
  qed
  then obtain m where m: "chain ?sz T ?h m" "used (T ! unat ?h) = -1 \<longrightarrow> m = 0"
      and s: "hsearch_r cb ini False dupd k d ENTER flag htab = enter_new cb ini False dupd k d flag ?h (of_nat (probe (unat ?sz) (unat ?h) m)) htab"
    using hsearch_miss [OF T(1) wf(2) T(2) k' out, of cb ini False dupd d ENTER flag] by auto
  have u: "used (T ! unat ?h) = 0 \<or> used (T ! unat ?h) = -1" using used_cases [OF T(2) i] dead by (auto simp: at_key_def)
  have "m = 0"
  proof (rule ccontr)
    assume "m \<noteq> 0"
    then have "used (T ! unat ?h) \<noteq> 0" using m(1) by (auto simp: chain_def dest: bspec [of _ _ 0])
    then show False using u m(2) \<open>m \<noteq> 0\<close> by blast
  qed
  define x where "x = (T ! unat ?h)\<lparr>used := sint ?h,
    entry := (entry (T ! unat ?h))\<lparr>h_key := Null, h_data := (case d of None \<Rightarrow> Null | Some v \<Rightarrow> malloc dupd v)\<rparr>\<rparr>"
  let ?t = "htab\<lparr>table := Blk (T[unat ?h := x])\<rparr>"
  have "hsearch_r cb ini False dupd k d ENTER flag htab = Some (0, None, Some ENOMEM, ?t)"
    using s \<open>m = 0\<close> wf(2) len by (simp add: enter_new_def load_Some malloc_def Let_def x_def)
  moreover have "hsearch_r cb' ini' dupk' dupd' k d' action flag' ?t = None"
  proof -
    have ux: "used x = uint ?h" using sint_hash [of ?h] hb T(1) by (simp add: x_def size_ok_def)
    moreover have "uint ?h \<noteq> 0" using hb(2) of_nat_unat [of ?h, where ?'a = int] by linarith
    moreover have "uint ?h \<noteq> -1" using of_nat_unat [of ?h, where ?'a = int] by linarith
    moreover have "h_key (entry x) = Null" by (simp add: x_def)
    ultimately show ?thesis
      using hb(1) len by (simp add: hsearch_r_def load_Some compare_and_overwrite_entry_def Let_def)
  qed
  ultimately show ?thesis by blast
qed

theorem hsearch_no_memory_witness:
  "\<exists>t. hsearch_r no_handler (\<lambda>_ _. (None, 0)) False True [65] (Some [65]) ENTER 0
         (no_table\<lparr>table := Blk (replicate (table_size 5 + 1) zero_slot), hsize := of_nat (table_size 5), filled := 0\<rparr>) = Some (0, None, Some ENOMEM, t)
    \<and> hsearch_r no_handler (\<lambda>_ _. (None, 0)) True True [65] None FIND 0 t = None"
proof -
  let ?t = "no_table\<lparr>table := Blk (replicate (table_size 5 + 1) zero_slot), hsize := of_nat (table_size 5), filled := 0\<rparr>"
  have new: "hwf ?t" "vals ?t = (\<lambda>_. None)" by (rule new_table [of 5]; simp)+
  have tt: "table ?t = Blk (replicate (table_size 5 + 1) zero_slot)" "hsize ?t = of_nat (table_size 5)" by (simp_all del: replicate.simps)
  have "size_ok (hsize ?t)" using new(1) by (rule hwfE)
  then have "unat (hash_of (hsize ?t) [65]) < unat (hsize ?t)" by (intro hash_bounds(3)) simp_all
  moreover have "unat (hsize ?t) = table_size 5" unfolding tt using table_size_props(4) [of 5] by (simp add: unat_of_nat)
  ultimately have "(replicate (table_size 5 + 1) zero_slot :: unit slot list) ! unat (hash_of (hsize ?t) [65]) = zero_slot"
    by (intro nth_replicate) simp
  then have "used ((replicate (table_size 5 + 1) zero_slot :: unit slot list) ! unat (hash_of (hsize ?t) [65])) \<le> 0"
    by (simp only: zero_slot_def slot.simps)
  then show ?thesis
    by (intro hsearch_no_memory [OF new(1) tt(1) _ fun_cong [OF new(2)]]) (simp_all only: is_str_def, simp)
qed

text \<open>(lib/hashtable.c, \<open>hmatch_r\<close>). The search for a prefix returns the first entry after \<open>last_idx\<close> whose key starts
  with the text, among the indices below the size: the slot at the index \<open>size\<close>, which the table also uses, is not
  looked at.\<close>

theorem hmatch_first:
  assumes wf: "hwf htab" and p: "is_str p" and l: "0 \<le> li" "li < 2147483647"
  shows "hmatch_r p li htab = Some (scan_result (List.find (key_starts p htab) [nat li + 1..<unat (hsize htab)]))"
proof -
  obtain T where T: "table htab = Blk T" "size_ok (hsize htab)" "tab_ok (hsize htab) T" using wf by (rule hwfE)
  let ?is = "[nat li + 1..<unat (hsize htab)]"
  let ?Q = "\<lambda>i. case h_key (entry (T ! i)) of Blk k \<Rightarrow> prefix p k | _ \<Rightarrow> False"
  have p0: "0 \<notin> set p" using p by (simp add: is_str_def)
  have u: "unat (of_int (li + 1) :: u32) = nat li + 1"
  proof -
    have "(of_int (li + 1) :: u32) = of_nat (nat li + 1)" using l by simp
    moreover have "(nat li + 1) mod 4294967296 = nat li + 1" using l by (intro mod_less) linarith
    ultimately show ?thesis by (simp only: unat_of_nat) simp
  qed
  have "scan_loop (\<lambda>e. do { k \<leftarrow> deref (h_key e); str_starts (length p) p k }) (Blk T) ?is
      = Some (List.find (\<lambda>i. 0 < used (T ! i) \<and> ?Q i) ?is)"
  proof (rule scan_loop_find)
    fix i assume i: "i \<in> set ?is"
    then show "i < length T" using tab_ok_length [OF T(3)] by simp
    assume "0 < used (T ! i)"
    then obtain k where k: "at_key T i k" using live_at_key [OF T(3), of i] i by auto
    then have "0 \<notin> set k" using at_keyE [OF T(3) k] i by (metis atLeastAtMost_iff atLeastLessThan_iff le_add2 less_imp_le_nat order_trans set_upt)
    then show "do { k \<leftarrow> deref (h_key (entry (T ! i))); str_starts (length p) p k } = Some (?Q i)"
      using k str_starts_prefix [OF p0, of k] by (simp add: at_key_def)
  qed
  moreover have "(\<lambda>i. 0 < used (T ! i) \<and> ?Q i) = key_starts p htab" using T(1) by (intro ext) (simp add: key_starts_def)
  ultimately show ?thesis unfolding hmatch_r_def u T(1) strlen_str [OF p0] by simp
qed

theorem hmatch_first_witness:
  "hmatch_r [67] 1 full_table = Some (scan_result (List.find (key_starts [67] full_table) [nat 1 + 1..<unat (hsize full_table)]))"
  by (rule hmatch_first [OF full_table_hwf]) (simp_all add: is_str_def)

end
