(* ===== verification/Qsort.thy ===== *)
theory Qsort
  imports Prelude "HOL-Library.Multiset"
begin

text \<open>
  lib/qsort.c: a shell sort over an array of \<open>nel\<close> elements of \<open>width\<close> cells each. A cell is a byte in C; the model leaves
  its type open, so that an array of pointers can be one of cells with \<open>width\<close> 1. The comparison function gets the two
  elements and may be undefined. The locale \<open>comparator\<close> is what a caller promises of it, and inside it the array ends
  up sorted and a permutation of what it was.
\<close>

section \<open>The sort\<close>

definition elem :: "nat \<Rightarrow> 'b list \<Rightarrow> nat \<Rightarrow> 'b list" where
  "elem width m a = take width (drop a m)"

function gap_loop :: "nat \<Rightarrow> nat \<Rightarrow> nat" where
  "gap_loop nel wgap = (let wgap = 3 * wgap + 1 in if wgap < (nel - 1) div 3 then gap_loop nel wgap else wgap)"
  by pat_completeness auto
termination
  by (relation "measure (\<lambda>(nel, wgap). nel - wgap)") auto

fun swap_loop :: "nat \<Rightarrow> 'b list \<Rightarrow> nat \<Rightarrow> nat \<Rightarrow> 'b list option" where
  "swap_loop 0 m a b = Some m"
| "swap_loop (Suc k) m a b =
     do { tmp \<leftarrow> load m a; y \<leftarrow> load m b; m \<leftarrow> store m a y; m \<leftarrow> store m b tmp; swap_loop k m (a + 1) (b + 1) }"

text \<open>The innermost loop, entered with \<open>j \<ge> wgap\<close>; a gap of zero would never let it end.\<close>

function sift :: "('b list \<Rightarrow> 'b list \<Rightarrow> int option) \<Rightarrow> nat \<Rightarrow> nat \<Rightarrow> 'b list \<Rightarrow> nat \<Rightarrow> 'b list option" where
  "sift cmp width wgap m j =
     (if wgap = 0 \<or> j < wgap then None
      else let j = j - wgap; a = j; b = a + wgap in
        do { r \<leftarrow> cmp (elem width m a) (elem width m b);
             if r \<le> 0 then Some m
             else do { m \<leftarrow> swap_loop width m a b; if wgap \<le> j then sift cmp width wgap m j else Some m } })"
  by pat_completeness auto
termination
  by (relation "measure (\<lambda>(cmp, width, wgap, m, j). j)") auto

function pass :: "('b list \<Rightarrow> 'b list \<Rightarrow> int option) \<Rightarrow> nat \<Rightarrow> nat \<Rightarrow> nat \<Rightarrow> 'b list \<Rightarrow> nat \<Rightarrow> 'b list option" where
  "pass cmp width wgap wnel m i =
     (if width = 0 then None
      else do { m \<leftarrow> sift cmp width wgap m i; if i + width < wnel then pass cmp width wgap wnel m (i + width) else Some m })"
  by pat_completeness auto
termination
  by (relation "measure (\<lambda>(cmp, width, wgap, wnel, m, i). wnel - i)") auto

function passes :: "('b list \<Rightarrow> 'b list \<Rightarrow> int option) \<Rightarrow> nat \<Rightarrow> nat \<Rightarrow> nat \<Rightarrow> 'b list \<Rightarrow> 'b list option" where
  "passes cmp width wnel wgap m =
     do { m \<leftarrow> pass cmp width wgap wnel m wgap;
          let g = (wgap - width) div 3 in if g \<noteq> 0 then passes cmp width wnel g m else Some m }"
  by pat_completeness auto
termination
  by (relation "measure (\<lambda>(cmp, width, wnel, wgap, m). wgap)") auto

declare gap_loop.simps [simp del] sift.simps [simp del] pass.simps [simp del] passes.simps [simp del]

definition qsort :: "'b list \<Rightarrow> nat \<Rightarrow> nat \<Rightarrow> ('b list \<Rightarrow> 'b list \<Rightarrow> int option) \<Rightarrow> 'b list option" where
  "qsort base nel width cmp =
     (if 1 < nel \<and> 0 < width then passes cmp width (nel * width) (gap_loop nel 0 * width) base else Some base)"

section \<open>The array as a list of elements\<close>

definition elems :: "nat \<Rightarrow> nat \<Rightarrow> 'b list \<Rightarrow> 'b list list" where
  "elems width n m = map (\<lambda>i. elem width m (i * width)) [0..<n]"

lemma length_elems [simp]: "length (elems w n m) = n"
  by (simp add: elems_def)

lemma nth_elems: "i < n \<Longrightarrow> elems w n m ! i = elem w m (i * w)"
  by (simp add: elems_def)

lemma length_elem: "a + w \<le> length m \<Longrightarrow> length (elem w m a) = w"
  by (simp add: elem_def)

lemma nth_elem: "a + w \<le> length m \<Longrightarrow> k < w \<Longrightarrow> elem w m a ! k = m ! (a + k)"
  by (simp add: elem_def)

lemma swap_loop_nth:
  assumes "a + k \<le> b" and "b + k \<le> length m"
  shows "\<exists>m'. swap_loop k m a b = Some m' \<and> length m' = length m
     \<and> (\<forall>p. m' ! p = (if a \<le> p \<and> p < a + k then m ! (p + b - a) else if b \<le> p \<and> p < b + k then m ! (p + a - b) else m ! p))"
  using assms
proof (induction k arbitrary: m a b)
  case (Suc k)
  let ?m = "m[a := m ! b, b := m ! a]"
  obtain m' where m': "swap_loop k ?m (a + 1) (b + 1) = Some m'" "length m' = length m"
      "\<And>p. m' ! p = (if a + 1 \<le> p \<and> p < a + 1 + k then ?m ! (p + (b + 1) - (a + 1))
          else if b + 1 \<le> p \<and> p < b + 1 + k then ?m ! (p + (a + 1) - (b + 1)) else ?m ! p)"
    using Suc.IH [of "a + 1" "b + 1" ?m] Suc.prems by auto
  have "swap_loop (Suc k) m a b = Some m'" using m'(1) Suc.prems by (simp add: load_Some store_Some)
  moreover have "m' ! p = (if a \<le> p \<and> p < a + Suc k then m ! (p + b - a) else if b \<le> p \<and> p < b + Suc k then m ! (p + a - b) else m ! p)" for p
    using Suc.prems unfolding m'(3) by (cases "p = b"; cases "p = a") (auto simp: nth_list_update)
  ultimately show ?case using m'(2) by blast
qed auto

lemma swap_elems:
  assumes w: "0 < w" and ij: "i < j" "j < n" and len: "n * w \<le> length m"
  shows "\<exists>m'. swap_loop w m (i * w) (j * w) = Some m' \<and> length m' = length m
     \<and> elems w n m' = (elems w n m)[i := elems w n m ! j, j := elems w n m ! i]"
proof -
  have le: "(q + 1) * w \<le> length m" if "q < n" for q
    using that len mult_le_mono1 [of "q + 1" n w] by simp
  have d: "i * w + w \<le> j * w" using ij mult_le_mono1 [of "i + 1" j w] by simp
  obtain m' where m': "swap_loop w m (i * w) (j * w) = Some m'" "length m' = length m"
     "\<And>p. m' ! p = (if i * w \<le> p \<and> p < i * w + w then m ! (p + j * w - i * w)
        else if j * w \<le> p \<and> p < j * w + w then m ! (p + i * w - j * w) else m ! p)"
    using swap_loop_nth [OF d, of m] le [OF ij(2)] by (auto simp: add.commute)
  have "elem w m' (q * w) = (if q = i then elem w m (j * w) else if q = j then elem w m (i * w) else elem w m (q * w))" if q: "q < n" for q
  proof (rule nth_equalityI)
    have lq: "q * w + w \<le> length m" "i * w + w \<le> length m" "j * w + w \<le> length m" using le [OF q] le [OF ij(2)] le [of i] ij by simp_all
    then show "length (elem w m' (q * w)) = length (if q = i then elem w m (j * w) else if q = j then elem w m (i * w) else elem w m (q * w))"
      using m'(2) by (simp add: length_elem)
    fix k assume "k < length (elem w m' (q * w))"
    then have k: "k < w" using lq m'(2) by (simp add: length_elem)
    have out: "\<not> (r * w \<le> q * w + k \<and> q * w + k < r * w + w)" if "q \<noteq> r" for r
    proof -
      have "(q * w + k) div w = q" using k by simp
      moreover have "(q * w + k) div w = r" if "r * w \<le> q * w + k \<and> q * w + k < r * w + w"
        using that by (intro div_nat_eqI) (simp_all add: mult.commute)
      ultimately show ?thesis using that by metis
    qed
    show "elem w m' (q * w) ! k = (if q = i then elem w m (j * w) else if q = j then elem w m (i * w) else elem w m (q * w)) ! k"
      using lq k m'(2) ij out [of i] out [of j] d by (auto simp: nth_elem m'(3) add.commute)
  qed
  then have "elems w n m' = (elems w n m)[i := elems w n m ! j, j := elems w n m ! i]"
    using ij by (intro nth_equalityI) (auto simp: nth_elems nth_list_update)
  then show ?thesis using m'(1,2) by blast
qed

section \<open>The gaps\<close>

fun hgap :: "nat \<Rightarrow> nat" where
  "hgap 0 = 1"
| "hgap (Suc k) = 3 * hgap k + 1"

lemma gap_loop_hgap:
  assumes "1 < nel" and "g = 0 \<or> (\<exists>k. g = hgap k \<and> 3 * g + 1 < nel)"
  shows "\<exists>k. gap_loop nel g = hgap k \<and> hgap k < nel"
  using assms(2)
proof (induction "nel - g" arbitrary: g rule: less_induct)
  case less
  have h: "\<exists>k. 3 * g + 1 = hgap k \<and> hgap k < nel"
  proof (cases "g = 0")
    case True
    then show ?thesis using assms(1) by (intro exI [of _ 0]) simp
  next
    case False
    then obtain k where "g = hgap k" "3 * g + 1 < nel" using less.prems by blast
    then show ?thesis by (intro exI [of _ "Suc k"]) simp
  qed
  show ?case
  proof (cases "3 * g + 1 < (nel - 1) div 3")
    case True
    have "\<exists>k. gap_loop nel (3 * g + 1) = hgap k \<and> hgap k < nel"
      by (rule less.hyps) (use True h in auto)
    then show ?thesis using True gap_loop.simps [of nel g] by (simp add: Let_def)
  qed (use h gap_loop.simps [of nel g] in \<open>simp add: Let_def\<close>)
qed

section \<open>Sorting\<close>

locale comparator =
  fixes cmp :: "'b list \<Rightarrow> 'b list \<Rightarrow> int option" and le :: "'b list \<Rightarrow> 'b list \<Rightarrow> bool" and E :: "'b list set"
  assumes answer: "x \<in> E \<Longrightarrow> y \<in> E \<Longrightarrow> \<exists>r. cmp x y = Some r \<and> (if r \<le> 0 then le x y else le y x)"
    and trans: "x \<in> E \<Longrightarrow> y \<in> E \<Longrightarrow> z \<in> E \<Longrightarrow> le x y \<Longrightarrow> le y z \<Longrightarrow> le x z"
begin

text \<open>With any gap the innermost loop permutes; with a gap of one element it inserts.\<close>

lemma sift_spec:
  assumes "0 < w" "0 < g" and "g \<le> j" "j \<le> i" "i < n" "n * w \<le> length m" "set (elems w n m) \<subseteq> E"
  shows "\<exists>m'. sift cmp w (g * w) m (j * w) = Some m' \<and> length m' = length m \<and> mset (elems w n m') = mset (elems w n m)
    \<and> (g = 1 \<and> (\<forall>q\<le>i. q \<noteq> j \<longrightarrow> (\<forall>p<q. le (elems w n m ! p) (elems w n m ! q)))
        \<longrightarrow> (\<forall>q\<le>i. \<forall>p<q. le (elems w n m' ! p) (elems w n m' ! q)))"
  using assms(3-7)
proof (induction j arbitrary: m rule: less_induct)
  case (less j)
  let ?e = "elems w n m" and ?a = "j - g"
  have idx: "?a < j" "j < n" "j * w - g * w = ?a * w" "?a * w + g * w = j * w"
    using assms(2) less.prems by (simp_all add: diff_mult_distrib)
  have el: "elem w m (?a * w) = ?e ! ?a" "elem w m (j * w) = ?e ! j" using idx by (simp_all add: nth_elems)
  have inE: "?e ! p \<in> E" if "p < n" for p using less.prems(5) that nth_mem [of p ?e] by auto
  obtain r where r: "cmp (?e ! ?a) (?e ! j) = Some r" "if r \<le> 0 then le (?e ! ?a) (?e ! j) else le (?e ! j) (?e ! ?a)"
    using answer [of "?e ! ?a" "?e ! j"] inE idx by auto
  have gw: "g * w \<noteq> 0" "\<not> j * w < g * w" using assms(1,2) less.prems(1) by simp_all
  note st = sift.simps [of cmp w "g * w" m "j * w", unfolded Let_def idx el]
  show ?case
  proof (cases "r \<le> 0")
    case True
    then have "sift cmp w (g * w) m (j * w) = Some m" using st gw r(1) by simp
    moreover have "le (?e ! p) (?e ! q)" if "g = 1" "\<forall>q\<le>i. q \<noteq> j \<longrightarrow> (\<forall>p<q. le (?e ! p) (?e ! q))" "q \<le> i" "p < q" for p q
    proof (cases "q = j \<and> p \<noteq> ?a")
      case True
      then have "p < ?a" using that(1,4) by linarith
      then have "le (?e ! p) (?e ! ?a)" using that True idx(1) less.prems(2) by auto
      then show ?thesis using trans [of "?e ! p" "?e ! ?a" "?e ! j"] inE r(2) \<open>r \<le> 0\<close> True idx that by auto
    qed (use that r(2) \<open>r \<le> 0\<close> in auto)
    ultimately show ?thesis by blast
  next
    case False
    obtain m1 where m1: "swap_loop w m (?a * w) (j * w) = Some m1" "length m1 = length m"
        "elems w n m1 = ?e[?a := ?e ! j, j := ?e ! ?a]"
      using swap_elems [OF assms(1) idx(1,2) less.prems(4)] by blast
    have ms: "mset (elems w n m1) = mset ?e" unfolding m1(3) using idx by (intro mset_swap) simp_all
    have n1: "elems w n m1 ! p = (if p = j then ?e ! ?a else if p = ?a then ?e ! j else ?e ! p)" for p
      unfolding m1(3) using idx by (auto simp: nth_list_update)
    have P: "\<forall>q\<le>i. q \<noteq> ?a \<longrightarrow> (\<forall>p<q. le (elems w n m1 ! p) (elems w n m1 ! q))"
      if g1: "g = 1" and srt: "\<forall>q\<le>i. q \<noteq> j \<longrightarrow> (\<forall>p<q. le (?e ! p) (?e ! q))"
    proof (intro allI impI)
      fix q p assume q: "q \<le> i" "q \<noteq> ?a" "p < q"
      have sw: "le (?e ! j) (?e ! ?a)" using r(2) False by simp
      have a: "?a \<le> i" "?a \<noteq> j" using idx less.prems by auto
      show "le (elems w n m1 ! p) (elems w n m1 ! q)"
        using srt q sw a g1 idx(1) unfolding n1 by (cases "q = j"; cases "p = ?a"; cases "p = j") auto
    qed
    have ai: "?a \<le> i" using idx(1) less.prems(2) by simp
    have E1: "set (elems w n m1) \<subseteq> E" using ms less.prems(5) by (metis set_mset_mset)
    show ?thesis
    proof (cases "g \<le> ?a")
      case True
      then have again: "sift cmp w (g * w) m (j * w) = sift cmp w (g * w) m1 (?a * w)"
        using st gw r(1) False m1(1) by (simp add: mult_le_mono1)
      obtain m' where "sift cmp w (g * w) m1 (?a * w) = Some m'" "length m' = length m1" "mset (elems w n m') = mset (elems w n m1)"
        "g = 1 \<and> (\<forall>q\<le>i. q \<noteq> ?a \<longrightarrow> (\<forall>p<q. le (elems w n m1 ! p) (elems w n m1 ! q)))
          \<longrightarrow> (\<forall>q\<le>i. \<forall>p<q. le (elems w n m' ! p) (elems w n m' ! q))"
        using less.IH [OF idx(1) True ai less.prems(3) _ E1] less.prems(4) m1(2) by auto
      then show ?thesis using again m1(2) ms P by auto
    next
      case False
      then have "\<not> g * w \<le> ?a * w" using assms(1) by simp
      then have "sift cmp w (g * w) m (j * w) = Some m1" using st gw r(1) \<open>\<not> r \<le> 0\<close> m1(1) by simp
      moreover have "\<forall>q\<le>i. \<forall>p<q. le (elems w n m1 ! p) (elems w n m1 ! q)"
        if "g = 1" "\<forall>q\<le>i. q \<noteq> j \<longrightarrow> (\<forall>p<q. le (?e ! p) (?e ! q))"
        using P [OF that] False that(1) by (metis less_one not_less0 linorder_not_le)
      ultimately show ?thesis using m1(2) ms by blast
    qed
  qed
qed

lemma pass_spec:
  assumes "0 < w" "0 < g" and "g \<le> i" "i < n" "n * w \<le> length m" "set (elems w n m) \<subseteq> E"
  shows "\<exists>m'. pass cmp w (g * w) (n * w) m (i * w) = Some m' \<and> length m' = length m \<and> mset (elems w n m') = mset (elems w n m)
    \<and> (g = 1 \<and> (\<forall>q<i. \<forall>p<q. le (elems w n m ! p) (elems w n m ! q)) \<longrightarrow> (\<forall>q<n. \<forall>p<q. le (elems w n m' ! p) (elems w n m' ! q)))"
  using assms(3-6)
proof (induction "n - i" arbitrary: i m rule: less_induct)
  case less
  obtain m1 where m1: "sift cmp w (g * w) m (i * w) = Some m1" "length m1 = length m" "mset (elems w n m1) = mset (elems w n m)"
      "g = 1 \<and> (\<forall>q\<le>i. q \<noteq> i \<longrightarrow> (\<forall>p<q. le (elems w n m ! p) (elems w n m ! q)))
        \<longrightarrow> (\<forall>q\<le>i. \<forall>p<q. le (elems w n m1 ! p) (elems w n m1 ! q))"
    using sift_spec [OF assms(1,2) less.prems(1) order_refl less.prems(2-4)] by blast
  have E1: "set (elems w n m1) \<subseteq> E" using m1(3) less.prems(4) by (metis set_mset_mset)
  have nx: "i * w + w = Suc i * w" "Suc i * w < n * w \<longleftrightarrow> Suc i < n"
    using assms(1) by (simp, simp only: mult_less_cancel2 simp_thms)
  note st = pass.simps [of cmp w "g * w" "n * w" m "i * w", unfolded nx]
  show ?case
  proof (cases "Suc i < n")
    case True
    have "\<exists>m'. pass cmp w (g * w) (n * w) m1 (Suc i * w) = Some m' \<and> length m' = length m1 \<and> mset (elems w n m') = mset (elems w n m1)
      \<and> (g = 1 \<and> (\<forall>q<Suc i. \<forall>p<q. le (elems w n m1 ! p) (elems w n m1 ! q)) \<longrightarrow> (\<forall>q<n. \<forall>p<q. le (elems w n m' ! p) (elems w n m' ! q)))"
      by (rule less.hyps) (use True less.prems m1(2) E1 in auto)
    then obtain m' where m': "pass cmp w (g * w) (n * w) m1 (Suc i * w) = Some m'" "length m' = length m1" "mset (elems w n m') = mset (elems w n m1)"
        "g = 1 \<and> (\<forall>q<Suc i. \<forall>p<q. le (elems w n m1 ! p) (elems w n m1 ! q)) \<longrightarrow> (\<forall>q<n. \<forall>p<q. le (elems w n m' ! p) (elems w n m' ! q))"
      by blast
    have "pass cmp w (g * w) (n * w) m (i * w) = Some m'" using st assms(1) m1(1) m'(1) True by (simp del: mult_Suc)
    then show ?thesis using m' m1 by (auto simp: less_Suc_eq_le)
  next
    case False
    then have "pass cmp w (g * w) (n * w) m (i * w) = Some m1" using st assms(1) m1(1) by (simp del: mult_Suc)
    moreover have "n = Suc i" using False less.prems(2) by simp
    ultimately show ?thesis using m1 by (auto simp: less_Suc_eq_le)
  qed
qed

lemma passes_spec:
  assumes "0 < w" "n * w \<le> length m" "set (elems w n m) \<subseteq> E" "hgap k < n"
  shows "\<exists>m'. passes cmp w (n * w) (hgap k * w) m = Some m' \<and> length m' = length m \<and> mset (elems w n m') = mset (elems w n m)
    \<and> (\<forall>q<n. \<forall>p<q. le (elems w n m' ! p) (elems w n m' ! q))"
  using assms(2-4)
proof (induction k arbitrary: m)
  case 0
  obtain m1 where m1: "pass cmp w (1 * w) (n * w) m (1 * w) = Some m1" "length m1 = length m" "mset (elems w n m1) = mset (elems w n m)"
      "\<forall>q<n. \<forall>p<q. le (elems w n m1 ! p) (elems w n m1 ! q)"
    using pass_spec [OF assms(1), of 1 1 n m] 0 by auto
  then show ?case using passes.simps [of cmp w "n * w" "hgap 0 * w" m] by (simp add: Let_def)
next
  case (Suc k)
  have pos: "0 < hgap k" by (cases k) simp_all
  obtain m1 where m1: "pass cmp w (hgap (Suc k) * w) (n * w) m (hgap (Suc k) * w) = Some m1" "length m1 = length m"
      "mset (elems w n m1) = mset (elems w n m)"
    using pass_spec [OF assms(1), of "hgap (Suc k)" "hgap (Suc k)" n m] Suc.prems by auto
  have g: "(hgap (Suc k) * w - w) div 3 = hgap k * w" by (simp add: mult.assoc)
  have E1: "set (elems w n m1) \<subseteq> E" using m1(3) Suc.prems(2) by (metis set_mset_mset)
  obtain m' where "passes cmp w (n * w) (hgap k * w) m1 = Some m'" "length m' = length m1" "mset (elems w n m') = mset (elems w n m1)"
      "\<forall>q<n. \<forall>p<q. le (elems w n m' ! p) (elems w n m' ! q)"
    using Suc.IH [of m1] Suc.prems m1(2) E1 by auto
  then show ?case
    using m1 pos assms(1) passes.simps [of cmp w "n * w" "hgap (Suc k) * w" m] g by (simp add: Let_def)
qed

lemma qsort_sorts:
  assumes "0 < w" "n * w \<le> length m" "set (elems w n m) \<subseteq> E"
  shows "\<exists>m'. qsort m n w cmp = Some m' \<and> length m' = length m \<and> mset (elems w n m') = mset (elems w n m)
    \<and> sorted_wrt le (elems w n m')"
proof (cases "1 < n")
  case True
  obtain k where k: "gap_loop n 0 = hgap k" "hgap k < n" using gap_loop_hgap [OF True, of 0] by auto
  then show ?thesis
    using passes_spec [OF assms k(2)] True assms(1) by (auto simp: qsort_def sorted_wrt_iff_nth_less)
next
  case False
  then show ?thesis by (auto simp: qsort_def sorted_wrt_iff_nth_less)
qed

end

end
