(* ===== verification/Env_Text.thy ===== *)
theory Env_Text
  imports Hash_Store Qsort
begin

unbundle bit_operations_syntax

text \<open>
  lib/hashtable.c, the text form of the environment: \<open>hexport_r\<close> writes the entries of a table, sorted by key, as
  \<open>name=value\<close> with a separator, \<open>himport_r\<close> reads such a text into a table. A pointer to an entry is the index of its
  slot. The results of the allocations are parameters. The buffers are objects of their own; \<^term>\<open>None\<close> is an access
  outside of them or any other undefined behaviour.
\<close>

section \<open>Export\<close>

definition H_NOCLEAR :: int where "H_NOCLEAR = 1"
definition H_HIDE_DOT :: int where "H_HIDE_DOT = 8"

definition cmpkey :: "'c slot list ptr \<Rightarrow> nat list \<Rightarrow> nat list \<Rightarrow> int option" where
  "cmpkey tab p1 p2 =
     do { T \<leftarrow> deref tab;
          i \<leftarrow> load p1 0; e1 \<leftarrow> load T i; j \<leftarrow> load p2 0; e2 \<leftarrow> load T j;
          k1 \<leftarrow> deref (h_key (entry e1)); k2 \<leftarrow> deref (h_key (entry e2));
          strcmp (k1 @ [0] @ k2 @ [0]) 0 (length k1 + 1) }"

fun arg_found :: "mem list \<Rightarrow> mem \<Rightarrow> bool option" where
  "arg_found [] key = Some False"
| "arg_found (a # argv) key = do { b \<leftarrow> str_eq a key; if b then Some True else arg_found argv key }"

text \<open>The length of the data with an escape before every separator and backslash.\<close>

fun esc_len :: "byte \<Rightarrow> mem \<Rightarrow> nat" where
  "esc_len sep [] = 0"
| "esc_len sep (c # cs) = (if c = 0 then 0 else (if c = sep \<or> c = 92 then 2 else 1) + esc_len sep cs)"

text \<open>Pass 1, for one index: the entry is put on the list and its length added.\<close>

definition export_collect ::
  "'c hsearch_data \<Rightarrow> byte \<Rightarrow> int \<Rightarrow> mem list \<Rightarrow> nat \<Rightarrow> nat list \<times> nat \<times> nat \<Rightarrow> (nat list \<times> nat \<times> nat) option" where
  "export_collect htab sep flag argv i st =
     (case st of (lst, n, totlen) \<Rightarrow>
      do { T \<leftarrow> deref (table htab); s \<leftarrow> load T i;
           if \<not> 0 < used s then Some st
           else do {
             k \<leftarrow> deref (h_key (entry s));
             found \<leftarrow> arg_found argv k;
             if argv \<noteq> [] \<and> \<not> found then Some st
             else do {
               c \<leftarrow> load (k @ [0]) 0;
               if flag AND H_HIDE_DOT \<noteq> 0 \<and> c = 46 then Some st
               else do {
                 lst \<leftarrow> store lst n i;
                 klen \<leftarrow> strlen (k @ [0]) 0;
                 d \<leftarrow> deref (h_data (entry s));
                 dlen \<leftarrow> (if sep = 0 then strlen (d @ [0]) 0 else Some (esc_len sep d));
                 Some (lst, n + 1, totlen + (klen + 2) + dlen + 2) } } } })"

fun put_str :: "mem \<Rightarrow> mem \<Rightarrow> nat \<Rightarrow> (mem \<times> nat) option" where
  "put_str [] res p = Some (res, p)"
| "put_str (c # cs) res p = (if c = 0 then Some (res, p) else do { res \<leftarrow> store res p c; put_str cs res (p + 1) })"

fun put_esc :: "byte \<Rightarrow> mem \<Rightarrow> mem \<Rightarrow> nat \<Rightarrow> (mem \<times> nat) option" where
  "put_esc sep [] res p = Some (res, p)"
| "put_esc sep (c # cs) res p =
     (if c = 0 then Some (res, p)
      else do { (res, p) \<leftarrow> (if c = sep \<or> c = 92 then do { res \<leftarrow> store res p 92; Some (res, p + 1) } else Some (res, p));
                res \<leftarrow> store res p c; put_esc sep cs res (p + 1) })"

text \<open>Pass 2, for one entry.\<close>

definition export_entry :: "'c hsearch_data \<Rightarrow> byte \<Rightarrow> nat \<Rightarrow> mem \<times> nat \<Rightarrow> (mem \<times> nat) option" where
  "export_entry htab sep i st =
     do { T \<leftarrow> deref (table htab); s \<leftarrow> load T i; k \<leftarrow> deref (h_key (entry s));
          (res, p) \<leftarrow> put_str k (fst st) (snd st);
          res \<leftarrow> store res p 61;
          d \<leftarrow> deref (h_data (entry s));
          (res, p) \<leftarrow> put_esc sep d res (p + 1);
          res \<leftarrow> store res p sep;
          Some (res, p + 1) }"

text \<open>The array of pointers is sized with the table before the arguments are tested.\<close>

definition hexport_r ::
  "bool \<Rightarrow> 'c hsearch_data option \<Rightarrow> byte \<Rightarrow> int \<Rightarrow> mem ptr option \<Rightarrow> nat \<Rightarrow> mem list \<Rightarrow> (int \<times> int option \<times> mem ptr option) option" where
  "hexport_r alloc ht sep flag resp sz argv =
     do { htab \<leftarrow> ht;
          case resp of None \<Rightarrow> Some (-1, Some EINVAL, None)
          | Some buf \<Rightarrow> do {
              (lst, n, totlen) \<leftarrow> foldM (export_collect htab sep flag argv) [1..<unat (hsize htab) + 1] (replicate (unat (hsize htab)) 0, 0, 0);
              lst \<leftarrow> qsort lst n 1 (cmpkey (table htab));
              if sz \<noteq> 0 \<and> sz < totlen + 1 then Some (-1, Some ENOMEM, resp)
              else do {
                let sz = (if sz \<noteq> 0 then sz else totlen + 1);
                buf \<leftarrow> (case buf of Null \<Rightarrow> Some (malloc alloc (replicate sz 0))
                        | _ \<Rightarrow> do { b \<leftarrow> deref buf; (_, b) \<leftarrow> memset b 0 0 sz; Some (Blk b) });
                if buf = Null then Some (-1, Some ENOMEM, Some Null)
                else do {
                  res \<leftarrow> deref buf;
                  (res, p) \<leftarrow> foldM (export_entry htab sep) (take n lst) (res, 0);
                  res \<leftarrow> store res p 0;
                  Some (int sz, None, Some (Blk res)) } } } }"

section \<open>Import\<close>

fun drop_vars :: "mem \<Rightarrow> mem option list \<Rightarrow> (bool \<times> mem option list) option" where
  "drop_vars name [] = Some (False, [])"
| "drop_vars name (None # vs) = do { (r, vs) \<leftarrow> drop_vars name vs; Some (r, None # vs) }"
| "drop_vars name (Some v # vs) =
     do { e \<leftarrow> str_eq name v; (r, vs) \<leftarrow> drop_vars name vs; Some (e \<or> r, (if e then None else Some v) # vs) }"

definition drop_var_from_set :: "mem \<Rightarrow> mem option list \<Rightarrow> (bool \<times> mem option list) option" where
  "drop_var_from_set name vars = (if vars = [] then Some (True, []) else drop_vars name vars)"

function skip_blank :: "mem \<Rightarrow> nat \<Rightarrow> nat option" where
  "skip_blank m dp = do { c \<leftarrow> load m dp; if isblank c then skip_blank m (dp + 1) else Some dp }"
  by pat_completeness auto
termination
  by (relation "measure (\<lambda>(m, dp). length m - dp)") (auto simp: load_eq_Some_iff)

function skip_comment :: "mem \<Rightarrow> byte \<Rightarrow> nat \<Rightarrow> nat option" where
  "skip_comment m sep dp = do { c \<leftarrow> load m dp; if c \<noteq> 0 \<and> c \<noteq> sep then skip_comment m sep (dp + 1) else Some dp }"
  by pat_completeness auto
termination
  by (relation "measure (\<lambda>(m, sep, dp). length m - dp)") (auto simp: load_eq_Some_iff)

function name_end :: "mem \<Rightarrow> byte \<Rightarrow> nat \<Rightarrow> nat option" where
  "name_end m sep dp = do { c \<leftarrow> load m dp; if c \<noteq> 61 \<and> c \<noteq> 0 \<and> c \<noteq> sep then name_end m sep (dp + 1) else Some dp }"
  by pat_completeness auto
termination
  by (relation "measure (\<lambda>(m, sep, dp). length m - dp)") (auto simp: load_eq_Some_iff)

text \<open>\<open>for (value = sp = dp; *dp && ( *dp != sep); ++dp) { if (( *dp == '\\') && *(dp + 1)) ++dp; *sp++ = *dp; }\<close>\<close>

function value_loop :: "mem \<Rightarrow> byte \<Rightarrow> nat \<Rightarrow> nat \<Rightarrow> (mem \<times> nat \<times> nat) option" where
  "value_loop m sep dp sp =
     do { c \<leftarrow> load m dp;
          if c = 0 \<or> c = sep then Some (m, dp, sp)
          else do {
            q \<leftarrow> (if c = 92 then do { d \<leftarrow> load m (dp + 1); Some (if d \<noteq> 0 then dp + 1 else dp) } else Some dp);
            x \<leftarrow> load m q; m1 \<leftarrow> store m sp x; value_loop m1 sep (q + 1) (sp + 1) } }"
  by pat_completeness auto
termination
  by (relation "measure (\<lambda>(m, sep, dp, sp). length m - dp)")
     (auto simp: load_eq_Some_iff store_eq_Some_iff bind_eq_Some_conv split: if_splits)

declare skip_blank.simps [simp del] skip_comment.simps [simp del] name_end.simps [simp del] value_loop.simps [simp del]

definition read_str :: "mem \<Rightarrow> nat \<Rightarrow> mem option" where
  "read_str m a = do { n \<leftarrow> strlen m a; Some (take n (drop a m)) }"

text \<open>The state of the parser: the copy of the text, \<open>dp\<close>, the table, the list of variables still expected, and \<open>errno\<close>.\<close>

record 'c importer =
  data :: mem
  dp :: nat
  htab :: "'c hsearch_data"
  localvars :: "mem option list"
  errno :: "int option"

definition set_errno :: "int option \<Rightarrow> 'c importer \<Rightarrow> 'c importer" where
  "set_errno e st = (case e of None \<Rightarrow> st | Some _ \<Rightarrow> st\<lparr>errno := e\<rparr>)"

text \<open>\<open>al\<close> says whether \<open>strdup\<close> gets memory for the key and the data of the variable whose value ends at a position.\<close>

definition import_delete :: "'c cback \<Rightarrow> int \<Rightarrow> nat \<Rightarrow> 'c importer \<Rightarrow> 'c importer option" where
  "import_delete cb flag name st =
     do { nm \<leftarrow> read_str (data st) name;
          (listed, lv) \<leftarrow> drop_var_from_set nm (localvars st);
          let st = st\<lparr>localvars := lv\<rparr>;
          if \<not> listed then Some st
          else do { (r, e, t) \<leftarrow> hdelete_r cb None nm flag (htab st); Some (set_errno e (st\<lparr>htab := t\<rparr>)) } }"

definition import_set :: "'c cback \<Rightarrow> 'c ini \<Rightarrow> (nat \<Rightarrow> bool \<times> bool) \<Rightarrow> int \<Rightarrow> nat \<Rightarrow> nat \<Rightarrow> 'c importer \<Rightarrow> 'c importer option" where
  "import_set cb ini al flag name val st =
     do { nm \<leftarrow> read_str (data st) name;
          (listed, lv) \<leftarrow> drop_var_from_set nm (localvars st);
          let st = st\<lparr>localvars := lv\<rparr>;
          if \<not> listed then Some st
          else do { v \<leftarrow> read_str (data st) val;
                    (r, ep, e, t) \<leftarrow> hsearch_r cb ini (fst (al (dp st))) (snd (al (dp st))) nm (Some v) ENTER flag (htab st);
                    Some (set_errno e (st\<lparr>htab := t\<rparr>)) } }"

definition import_entry :: "'c cback \<Rightarrow> 'c ini \<Rightarrow> (nat \<Rightarrow> bool \<times> bool) \<Rightarrow> byte \<Rightarrow> int \<Rightarrow> 'c importer \<Rightarrow> 'c importer option" where
  "import_entry cb ini al sep flag st =
     do { name \<leftarrow> skip_blank (data st) (dp st); c \<leftarrow> load (data st) name;
          if c = 35 then do { p \<leftarrow> skip_comment (data st) sep name; Some (st\<lparr>dp := p + 1\<rparr>) }
          else do {
            p \<leftarrow> name_end (data st) sep name; c \<leftarrow> load (data st) p;
            del \<leftarrow> (if c = 0 then Some True else do { d \<leftarrow> load (data st) (p + 1); Some (d = 0 \<or> c = sep \<or> d = sep) });
            if del
            then do {
              (m, p) \<leftarrow> (if c = 61 then do { m \<leftarrow> store (data st) p 0; Some (m, p + 1) } else Some (data st, p));
              m \<leftarrow> store m p 0;
              import_delete cb flag name (st\<lparr>data := m, dp := p + 1\<rparr>) }
            else do {
              m \<leftarrow> store (data st) p 0;
              (m, q, sp) \<leftarrow> value_loop m sep (p + 1) (p + 1);
              m \<leftarrow> store m sp 0;
              import_set cb ini al flag name (p + 1) (st\<lparr>data := m, dp := q + 1\<rparr>) } } }"

partial_function (option) import_loop ::
  "'c cback \<Rightarrow> 'c ini \<Rightarrow> (nat \<Rightarrow> bool \<times> bool) \<Rightarrow> byte \<Rightarrow> int \<Rightarrow> nat \<Rightarrow> 'c importer \<Rightarrow> 'c importer option" where
  "import_loop cb ini al sep flag sz st =
     do { st \<leftarrow> import_entry cb ini al sep flag st;
          more \<leftarrow> (if dp st < sz then do { c \<leftarrow> load (data st) (dp st); Some (c \<noteq> 0) } else Some False);
          if more then import_loop cb ini al sep flag sz st else Some st }"

definition CONFIG_ENV_MIN_ENTRIES :: nat where "CONFIG_ENV_MIN_ENTRIES = 64"
definition CONFIG_ENV_MAX_ENTRIES :: nat where "CONFIG_ENV_MAX_ENTRIES = 512"

definition himport_r ::
  "bool \<Rightarrow> bool \<Rightarrow> 'c cback \<Rightarrow> 'c ini \<Rightarrow> (nat \<Rightarrow> bool \<times> bool) \<Rightarrow> 'c hsearch_data option \<Rightarrow> mem \<Rightarrow> nat \<Rightarrow> byte \<Rightarrow> int \<Rightarrow> mem list
    \<Rightarrow> (int \<times> int option \<times> 'c hsearch_data option) option" where
  "himport_r dalloc talloc cb ini al ht env sz sep flag vars =
     (case ht of None \<Rightarrow> Some (0, Some EINVAL, None)
      | Some t \<Rightarrow>
        if \<not> dalloc then Some (0, Some ENOMEM, ht)
        else do {
          m \<leftarrow> copy_bytes (replicate sz 0) 0 env 0 sz;
          (e, ht) \<leftarrow> (if flag AND H_NOCLEAR = 0 \<and> table t \<noteq> Null then hdestroy_r ht else Some (None, ht));
          t \<leftarrow> ht;
          (r, e, ht) \<leftarrow> (if table t = Null
             then let nent = CONFIG_ENV_MIN_ENTRIES + sz div 8;
                      nent = (if nent > CONFIG_ENV_MAX_ENTRIES then CONFIG_ENV_MAX_ENTRIES else nent) in
                  hcreate_r talloc (of_nat nent) ht
             else Some (1, None, ht));
          if r = 0 then Some (0, e, ht)
          else do {
            t \<leftarrow> ht;
            st \<leftarrow> import_loop cb ini al sep flag sz \<lparr>data = m, dp = 0, htab = t, localvars = map Some vars, errno = None\<rparr>;
            st \<leftarrow> foldM (\<lambda>v st. case v of None \<Rightarrow> Some st
                          | Some nm \<Rightarrow> do { (r, e, t) \<leftarrow> hdelete_r cb None nm flag (htab st); Some (set_errno e (st\<lparr>htab := t\<rparr>)) })
                   (localvars st) st;
            Some (1, errno st, Some (htab st)) } })"

end
