(* ===== verification/Command.thy ===== *)
theory Command
  imports Env_Text
begin

unbundle bit_operations_syntax

text \<open>
  The command line of common/main.c, with the built-in parser, and common/command.c: variables are substituted, a line is
  split at semicolons and into words, a command is found by its name or a unique abbreviation and called. With it the
  access to the environment in common/cmd_nvedit.c. The functions of the commands are values in the command table; they
  change the state of the monitor. The contents of uninitialised buffers are parameters.
\<close>

section \<open>State\<close>

definition CONFIG_SYS_CBSIZE :: nat where "CONFIG_SYS_CBSIZE = 256"
definition CONFIG_SYS_MAXARGS :: nat where "CONFIG_SYS_MAXARGS = 16"
definition CMD_RET_SUCCESS :: int where "CMD_RET_SUCCESS = 0"
definition CMD_RET_FAILURE :: int where "CMD_RET_FAILURE = 1"
definition CMD_RET_USAGE :: int where "CMD_RET_USAGE = -1"
definition CMD_FLAG_REPEAT :: int where "CMD_FLAG_REPEAT = 1"
definition CMD_FLAG_BOOTD :: int where "CMD_FLAG_BOOTD = 2"
definition H_FORCE :: int where "H_FORCE = 2"
definition H_INTERACTIVE :: int where "H_INTERACTIVE = 4"

text \<open>The state that the monitor's code reads itself, and \<open>world\<close> for everything else that commands change.\<close>

record ('c, 'w) monitor =
  env_htab :: "'c hsearch_data"
  env_id :: int
  ctrlc_was_pressed :: bool
  world :: 'w

text \<open>The function of a command gets the flags and the arguments; \<open>is_bootd\<close> says that it is \<open>do_bootd\<close>; \<open>complete\<close> returns the
  possible completions of the arguments.\<close>

record ('c, 'w) cmd_tbl_s =
  cmd_name :: mem
  maxargs :: int
  repeatable :: int
  cmd :: "int \<Rightarrow> mem list \<Rightarrow> ('c, 'w) monitor \<Rightarrow> (int \<times> ('c, 'w) monitor) option"
  is_bootd :: bool
  complete :: "(mem list \<Rightarrow> byte \<Rightarrow> nat \<Rightarrow> mem list option) option"

definition had_ctrlc :: "('c, 'w) monitor \<Rightarrow> bool" where
  "had_ctrlc s = ctrlc_was_pressed s"

definition clear_ctrlc :: "('c, 'w) monitor \<Rightarrow> ('c, 'w) monitor" where
  "clear_ctrlc s = s\<lparr>ctrlc_was_pressed := False\<rparr>"

section \<open>The environment\<close>

text \<open>\<open>getenv\<close> after the environment has been imported. The handlers are not called by a search.\<close>

definition getenv :: "'c hsearch_data \<Rightarrow> mem \<Rightarrow> mem option option" where
  "getenv ht name =
     do { (r, ep, err, ht) \<leftarrow> hsearch_r (\<lambda>_ _ _ _ _. False) (\<lambda>_ _. (None, 0)) True True name None FIND 0 ht;
          case ep of None \<Rightarrow> Some None
          | Some i \<Rightarrow> do { T \<leftarrow> deref (table ht); s \<leftarrow> load T i; v \<leftarrow> deref (h_data (entry s)); Some (Some v) } }"

text \<open>\<open>while (argc > 1 && **(argv + 1) == '-')\<close>: the options of \<open>setenv\<close>; \<^term>\<open>Inl\<close> is the early return.\<close>

fun option_chars :: "mem \<Rightarrow> int \<Rightarrow> int + int" where
  "option_chars [] fl = Inr fl"
| "option_chars (c # cs) fl = (if c = 102 then option_chars cs (fl OR H_FORCE) else Inl CMD_RET_USAGE)"

text \<open>The number is \<open>argc - 1\<close> and the list the array from \<open>argv + 1\<close> on, with \<^term>\<open>None\<close> for a null pointer.\<close>

fun set_options :: "nat \<Rightarrow> mem option list \<Rightarrow> int \<Rightarrow> (int + nat \<times> mem option list \<times> int) option" where
  "set_options 0 av fl = Some (Inr (0, av, fl))"
| "set_options (Suc n) av fl =
     (case av of Some (c # cs) # rest \<Rightarrow>
        if c = 45 then (case option_chars cs fl of Inl r \<Rightarrow> Some (Inl r) | Inr fl \<Rightarrow> set_options n rest fl) else Some (Inr (Suc n, av, fl))
      | Some [] # rest \<Rightarrow> Some (Inr (Suc n, av, fl))
      | _ \<Rightarrow> None)"

text \<open>\<open>for (i = 2, s = value; i < argc; ++i) { while (( *s++ = *v++) != 0); *(s - 1) = ' '; }\<close> and \<open>*--s = 0\<close>, into \<open>len\<close> bytes.\<close>

fun join_args :: "mem list \<Rightarrow> mem \<Rightarrow> nat \<Rightarrow> (mem \<times> nat) option" where
  "join_args [] m s = Some (m, s)"
| "join_args (v # vs) m s =
     do { m \<leftarrow> copy_bytes m s (v @ [0]) 0 (length v + 1);
          m \<leftarrow> store m (s + length v) 32;
          join_args vs m (s + length v + 1) }"

text \<open>The last part of \<open>_do_env_set\<close>, from \<open>Insert / replace new value\<close> on. \<open>buf\<close> is what \<open>malloc\<close> returns for a size, \<open>dupk\<close> and
  \<open>dupd\<close> are the answers of \<open>strdup\<close>.\<close>

definition insert_value ::
  "'c cback \<Rightarrow> 'c ini \<Rightarrow> bool \<Rightarrow> bool \<Rightarrow> (nat \<Rightarrow> mem ptr) \<Rightarrow> mem \<Rightarrow> mem list \<Rightarrow> int \<Rightarrow> ('c, 'w) monitor \<Rightarrow> (int \<times> ('c, 'w) monitor) option" where
  "insert_value cb ini dupk dupd buf name vs fl s =
     (let b = buf (sum_list (map (\<lambda>v. length v + 1) vs)) in
      if b = Null then Some (1, s)
      else do {
        m \<leftarrow> deref b;
        (m, e) \<leftarrow> join_args vs m 0;
        m \<leftarrow> (if e \<noteq> 0 then store m (e - 1) 0 else Some m);
        value \<leftarrow> read_str m 0;
        (r, ep, err, t) \<leftarrow> hsearch_r cb ini dupk dupd name (Some value) ENTER fl (env_htab s);
        Some (if ep = None then 1 else 0, s\<lparr>env_htab := t\<rparr>) })"

text \<open>\<open>_do_env_set\<close>, with the number and the array as above. The name is read from the array even when there is no word
  left.\<close>

definition env_set ::
  "'c cback \<Rightarrow> 'c ini \<Rightarrow> bool \<Rightarrow> bool \<Rightarrow> (nat \<Rightarrow> mem ptr) \<Rightarrow> nat \<Rightarrow> mem option list \<Rightarrow> ('c, 'w) monitor \<Rightarrow> (int \<times> ('c, 'w) monitor) option" where
  "env_set cb ini dupk dupd buf n av s =
     do { opts \<leftarrow> set_options n av H_INTERACTIVE;
          case opts of
            Inl r \<Rightarrow> Some (r, s)
          | Inr (n, av, fl) \<Rightarrow> do {
              p \<leftarrow> load av 0;
              name \<leftarrow> p;
              eq \<leftarrow> strchr (name @ [0]) 0 61;
              if eq \<noteq> None then Some (1, s)
              else do {
                let s = s\<lparr>env_id := env_id s + 1\<rparr>;
                none \<leftarrow> (if n < 2 then Some True else do { q \<leftarrow> load av 1; Some (q = None) });
                if none
                then do { (rc, err, t) \<leftarrow> hdelete_r cb None name fl (env_htab s); Some (if rc = 0 then 1 else 0, s\<lparr>env_htab := t\<rparr>) }
                else do {
                  vs \<leftarrow> those (drop 1 (take n av));
                  insert_value cb ini dupk dupd buf name vs fl s } } } }"

definition setenv ::
  "'c cback \<Rightarrow> 'c ini \<Rightarrow> bool \<Rightarrow> bool \<Rightarrow> (nat \<Rightarrow> mem ptr) \<Rightarrow> mem \<Rightarrow> mem option \<Rightarrow> ('c, 'w) monitor \<Rightarrow> (int \<times> ('c, 'w) monitor) option" where
  "setenv cb ini dupk dupd buf varname varvalue s =
     (let argv = [Some varname, varvalue, None] in
      if varvalue = None \<or> varvalue = Some [] then env_set cb ini dupk dupd buf 1 argv s else env_set cb ini dupk dupd buf 2 argv s)"

text \<open>The command \<open>setenv\<close>; \<open>argv\<close> has its own name first.\<close>

definition do_env_set ::
  "'c cback \<Rightarrow> 'c ini \<Rightarrow> bool \<Rightarrow> bool \<Rightarrow> (nat \<Rightarrow> mem ptr) \<Rightarrow> int \<Rightarrow> mem list \<Rightarrow> ('c, 'w) monitor \<Rightarrow> (int \<times> ('c, 'w) monitor) option" where
  "do_env_set cb ini dupk dupd buf flag argv s =
     (if length argv < 2 then Some (CMD_RET_USAGE, s) else env_set cb ini dupk dupd buf (length argv - 1) (map Some (tl argv)) s)"

section \<open>Words\<close>

function word_end :: "mem \<Rightarrow> nat \<Rightarrow> nat option" where
  "word_end m line = do { c \<leftarrow> load m line; if c \<noteq> 0 \<and> \<not> isblank c then word_end m (line + 1) else Some line }"
  by pat_completeness auto
termination
  by (relation "measure (\<lambda>(m, line). length m - line)") (auto simp: load_eq_Some_iff)

declare word_end.simps [simp del]

text \<open>The loop of \<open>parse_line\<close>; the number is \<open>CONFIG_SYS_MAXARGS - nargs\<close>. The result has the line, the pointers, and
  whether \<open>argv[nargs]\<close> was set to null.\<close>

fun parse_args :: "nat \<Rightarrow> mem \<Rightarrow> nat \<Rightarrow> (mem \<times> nat list \<times> bool) option" where
  "parse_args 0 m line = Some (m, [], False)"
| "parse_args (Suc k) m line =
     do { line \<leftarrow> skip_blank m line; c \<leftarrow> load m line;
          if c = 0 then Some (m, [], True)
          else do {
            e \<leftarrow> word_end m line; c \<leftarrow> load m e;
            if c = 0 then Some (m, [line], True)
            else do { m \<leftarrow> store m e 0; (m, argv, nul) \<leftarrow> parse_args k m (e + 1); Some (m, line # argv, nul) } } }"

definition parse_line :: "mem \<Rightarrow> nat \<Rightarrow> (mem \<times> nat list \<times> bool) option" where
  "parse_line m line = parse_args CONFIG_SYS_MAXARGS m line"

section \<open>Variables\<close>

text \<open>\<open>while (( *envval) && outputcnt) { *(output++) = *(envval++); outputcnt--; }\<close>\<close>

fun put_value :: "mem \<Rightarrow> mem \<Rightarrow> nat \<Rightarrow> nat \<Rightarrow> (mem \<times> nat \<times> nat) option" where
  "put_value [] res p outputcnt = Some (res, p, outputcnt)"
| "put_value (c # cs) res p outputcnt =
     (if c = 0 \<or> outputcnt = 0 then Some (res, p, outputcnt)
      else do { res \<leftarrow> store res p c; put_value cs res (p + 1) (outputcnt - 1) })"

definition put_char :: "byte \<Rightarrow> mem \<times> nat \<times> nat \<Rightarrow> (mem \<times> nat \<times> nat) option" where
  "put_char c w = (case w of (res, p, outputcnt) \<Rightarrow> do { res \<leftarrow> store res p c; Some (res, p + 1, outputcnt - 1) })"

text \<open>The name between the brackets is copied to \<open>envname\<close>, which has no other contents yet.\<close>

definition macro_value :: "(mem \<Rightarrow> mem option option) \<Rightarrow> mem \<Rightarrow> nat \<Rightarrow> nat \<Rightarrow> mem option option" where
  "macro_value genv m varname_start envcnt =
     do { nm \<leftarrow> copy_bytes (replicate CONFIG_SYS_CBSIZE 0) 0 m varname_start envcnt;
          nm \<leftarrow> store nm envcnt 0;
          name \<leftarrow> read_str nm 0;
          genv name }"

text \<open>The \<open>switch\<close>, for a character \<open>c\<close>; \<open>input\<close> is behind it. \<open>varname_start\<close> has a value when the state is 2.\<close>

definition macro_switch ::
  "(mem \<Rightarrow> mem option option) \<Rightarrow> mem \<Rightarrow> nat \<Rightarrow> byte \<Rightarrow> byte \<Rightarrow> nat \<Rightarrow> nat \<Rightarrow> mem \<times> nat \<times> nat \<Rightarrow> (nat \<times> nat \<times> mem \<times> nat \<times> nat) option" where
  "macro_switch genv m input c prev state vs w =
     (if state = 0
      then if c = 39 \<and> prev \<noteq> 92 then Some (3, vs, w)
           else if c = 36 \<and> prev \<noteq> 92 then Some (1, vs, w)
           else do { w \<leftarrow> put_char c w; Some (0, vs, w) }
      else if state = 1
      then if c = 40 \<or> c = 123 then Some (2, input, w)
           else do { w \<leftarrow> put_char 36 w;
                     w \<leftarrow> (if snd (snd w) \<noteq> 0 then put_char c w else Some w);
                     Some (0, vs, w) }
      else if state = 2
      then if c = 41 \<or> c = 125
           then do { v \<leftarrow> macro_value genv m vs (input - vs - 1);
                     w \<leftarrow> (case v of None \<Rightarrow> Some w | Some envval \<Rightarrow> (case w of (res, p, outputcnt) \<Rightarrow> put_value envval res p outputcnt));
                     Some (0, vs, w) }
           else Some (2, vs, w)
      else if c = 39 \<and> prev \<noteq> 92 then Some (0, vs, w)
           else do { w \<leftarrow> put_char c w; Some (state, vs, w) })"

function macro_loop ::
  "(mem \<Rightarrow> mem option option) \<Rightarrow> mem \<Rightarrow> nat \<Rightarrow> nat \<Rightarrow> byte \<Rightarrow> nat \<Rightarrow> nat \<Rightarrow> mem \<times> nat \<times> nat \<Rightarrow> (mem \<times> nat \<times> nat) option" where
  "macro_loop genv m input inputcnt prev state vs w =
     (if inputcnt = 0 \<or> snd (snd w) = 0 then Some w
      else do {
        c \<leftarrow> load m input;
        if state \<noteq> 3 \<and> c = 92 \<and> prev \<noteq> 92
        then if inputcnt - 1 = 0 then Some w
             else do {
               d \<leftarrow> load m (input + 1);
               (state, vs, w) \<leftarrow> macro_switch genv m (input + 2) d c state vs w;
               macro_loop genv m (input + 2) (inputcnt - 2) d state vs w }
        else do {
          (state, vs, w) \<leftarrow> macro_switch genv m (input + 1) c prev state vs w;
          macro_loop genv m (input + 1) (inputcnt - 1) c state vs w } })"
  by pat_completeness auto
termination
  by (relation "measure (\<lambda>(genv, m, input, inputcnt, prev, state, vs, w). inputcnt)") auto

declare macro_loop.simps [simp del]

definition process_macros :: "(mem \<Rightarrow> mem option option) \<Rightarrow> mem \<Rightarrow> nat \<Rightarrow> mem \<Rightarrow> mem option" where
  "process_macros genv m input output =
     do { n \<leftarrow> strlen m input;
          (res, p, outputcnt) \<leftarrow> macro_loop genv m input n 0 0 0 (output, 0, CONFIG_SYS_CBSIZE);
          if outputcnt \<noteq> 0 then store res p 0 else store res (p - 1) 0 }"

section \<open>Commands\<close>

fun find_loop :: "mem \<Rightarrow> nat \<Rightarrow> ('c, 'w) cmd_tbl_s list \<Rightarrow> ('c, 'w) cmd_tbl_s option \<Rightarrow> nat \<Rightarrow> ('c, 'w) cmd_tbl_s option option" where
  "find_loop c len [] tmp n_found = Some (if n_found = 1 then tmp else None)"
| "find_loop c len (t # ts) tmp n_found =
     do { hit \<leftarrow> str_starts len c (cmd_name t);
          if hit
          then do { n \<leftarrow> strlen (cmd_name t @ [0]) 0;
                    if len = n then Some (Some t) else find_loop c len ts (Some t) (n_found + 1) }
          else find_loop c len ts tmp n_found }"

definition find_cmd_tbl :: "mem option \<Rightarrow> ('c, 'w) cmd_tbl_s list \<Rightarrow> ('c, 'w) cmd_tbl_s option option" where
  "find_cmd_tbl key tbl =
     (case key of None \<Rightarrow> Some None
      | Some c \<Rightarrow> do {
          p \<leftarrow> strchr (c @ [0]) 0 46;
          len \<leftarrow> (case p of None \<Rightarrow> strlen (c @ [0]) 0 | Some a \<Rightarrow> Some a);
          find_loop c len tbl None 0 })"

definition cmd_usage :: "('c, 'w) cmd_tbl_s \<Rightarrow> int" where
  "cmd_usage cmdtp = 1"

definition cmd_process ::
  "('c, 'w) cmd_tbl_s list \<Rightarrow> int \<Rightarrow> mem list \<Rightarrow> int \<Rightarrow> ('c, 'w) monitor \<Rightarrow> (int \<times> int \<times> ('c, 'w) monitor) option" where
  "cmd_process tbl flag argv rep s =
     do { name \<leftarrow> load argv 0;
          found \<leftarrow> find_cmd_tbl (Some name) tbl;
          case found of None \<Rightarrow> Some (1, rep, s)
          | Some cmdtp \<Rightarrow>
              let (rc, flag) =
                    (if int (length argv) > maxargs cmdtp then (CMD_RET_USAGE, flag)
                     else if is_bootd cmdtp
                     then if flag AND CMD_FLAG_BOOTD \<noteq> 0 then (CMD_RET_FAILURE, flag) else (CMD_RET_SUCCESS, flag OR CMD_FLAG_BOOTD)
                     else (CMD_RET_SUCCESS, flag)) in
              do { (rc, rep, s) \<leftarrow>
                     (if rc = 0 then do { (rc, s) \<leftarrow> cmd cmdtp flag argv s; Some (rc, rep AND repeatable cmdtp, s) } else Some (rc, rep, s));
                   Some (if rc = CMD_RET_USAGE then cmd_usage cmdtp else rc, rep, s) } }"

section \<open>Lines\<close>

text \<open>\<open>for (inquotes = 0, sep = str; *sep; sep++)\<close>. The character before the buffer's first is outside of it.\<close>

function find_sep :: "mem \<Rightarrow> nat \<Rightarrow> nat \<Rightarrow> bool \<Rightarrow> nat option" where
  "find_sep m str sep inquotes =
     do { c \<leftarrow> load m sep;
          if c = 0 then Some sep
          else do {
            inquotes \<leftarrow> (if c = 39 then if sep = 0 then None else do { p \<leftarrow> load m (sep - 1); Some (if p \<noteq> 92 then \<not> inquotes else inquotes) }
                         else Some inquotes);
            stop \<leftarrow> (if \<not> inquotes \<and> c = 59 \<and> sep \<noteq> str then do { p \<leftarrow> load m (sep - 1); Some (p \<noteq> 92) } else Some False);
            if stop then Some sep else find_sep m str (sep + 1) inquotes } }"
  by pat_completeness auto
termination
  by (relation "measure (\<lambda>(m, str, sep, inquotes). length m - sep)") (auto simp: load_eq_Some_iff)

declare find_sep.simps [simp del]

fun read_args :: "mem \<Rightarrow> nat list \<Rightarrow> mem list option" where
  "read_args m [] = Some []"
| "read_args m (p # ps) = do { a \<leftarrow> read_str m p; as \<leftarrow> read_args m ps; Some (a # as) }"

text \<open>One pass of the loop of \<open>builtin_run_command\<close>: \<^term>\<open>Inl\<close> is the return after a control-C. The parameters are the
  buffers, \<open>str\<close>, \<open>rc\<close> and \<open>repeatable\<close>.\<close>

definition run_token ::
  "('c, 'w) cmd_tbl_s list \<Rightarrow> int \<Rightarrow> mem \<times> mem \<times> nat \<times> int \<times> int \<times> ('c, 'w) monitor
    \<Rightarrow> (int \<times> ('c, 'w) monitor + mem \<times> mem \<times> nat \<times> int \<times> int \<times> ('c, 'w) monitor) option" where
  "run_token tbl flag st =
     (case st of (cmdbuf, finaltoken, str, rc, rep, s) \<Rightarrow>
      do { sep \<leftarrow> find_sep cmdbuf str str False;
           c \<leftarrow> load cmdbuf sep;
           let token = str;
           (cmdbuf, str) \<leftarrow> (if c \<noteq> 0 then do { m \<leftarrow> store cmdbuf sep 0; Some (m, sep + 1) } else Some (cmdbuf, sep));
           finaltoken \<leftarrow> process_macros (getenv (env_htab s)) cmdbuf token finaltoken;
           (finaltoken, argv, nul) \<leftarrow> parse_line finaltoken 0;
           if argv = [] then Some (Inr (cmdbuf, finaltoken, str, -1, rep, s))
           else do {
             args \<leftarrow> read_args finaltoken argv;
             (r, rep, s) \<leftarrow> cmd_process tbl flag args rep s;
             let rc = (if r \<noteq> 0 then -1 else rc);
             Some (if had_ctrlc s then Inl (-1, s) else Inr (cmdbuf, finaltoken, str, rc, rep, s)) } })"

text \<open>The loop; every pass takes at least one character of the line, so that its size bounds the passes.\<close>

fun run_tokens ::
  "('c, 'w) cmd_tbl_s list \<Rightarrow> int \<Rightarrow> nat \<Rightarrow> mem \<times> mem \<times> nat \<times> int \<times> int \<times> ('c, 'w) monitor \<Rightarrow> (int \<times> ('c, 'w) monitor) option" where
  "run_tokens tbl flag 0 st = None"
| "run_tokens tbl flag (Suc n) st =
     (case st of (cmdbuf, finaltoken, str, rc, rep, s) \<Rightarrow>
      do { c \<leftarrow> load cmdbuf str;
           if c = 0 then Some (if rc \<noteq> 0 then rc else rep, s)
           else do { r \<leftarrow> run_token tbl flag st; case r of Inl x \<Rightarrow> Some x | Inr st \<Rightarrow> run_tokens tbl flag n st } })"

definition builtin_run_command ::
  "('c, 'w) cmd_tbl_s list \<Rightarrow> mem \<Rightarrow> mem \<Rightarrow> mem option \<Rightarrow> int \<Rightarrow> ('c, 'w) monitor \<Rightarrow> (int \<times> ('c, 'w) monitor) option" where
  "builtin_run_command tbl cmdbuf finaltoken line flag s =
     (let s = clear_ctrlc s in
      case line of None \<Rightarrow> Some (-1, s)
      | Some l \<Rightarrow> do {
          c \<leftarrow> load (l @ [0]) 0;
          if c = 0 then Some (-1, s)
          else do {
            n \<leftarrow> strlen (l @ [0]) 0;
            if n \<ge> CONFIG_SYS_CBSIZE then Some (-1, s)
            else do {
              buf \<leftarrow> copy_bytes cmdbuf 0 (l @ [0]) 0 (n + 1);
              run_tokens tbl flag (length buf) (buf, finaltoken, 0, 0, 1, s) } } })"

definition run_command ::
  "('c, 'w) cmd_tbl_s list \<Rightarrow> mem \<Rightarrow> mem \<Rightarrow> mem option \<Rightarrow> int \<Rightarrow> ('c, 'w) monitor \<Rightarrow> (int \<times> ('c, 'w) monitor) option" where
  "run_command tbl cmdbuf finaltoken line flag s =
     do { (r, s) \<leftarrow> builtin_run_command tbl cmdbuf finaltoken line flag s; Some (if r = -1 then 1 else 0, s) }"

section \<open>Lists of lines\<close>

text \<open>The loop over the lines, with the pointers \<open>line\<close> and \<open>next\<close>; the result has \<open>rcode\<close>.\<close>

function list_loop ::
  "('c, 'w) cmd_tbl_s list \<Rightarrow> mem \<Rightarrow> mem \<Rightarrow> mem \<Rightarrow> nat \<Rightarrow> nat \<Rightarrow> ('c, 'w) monitor \<Rightarrow> (mem \<times> nat \<times> int \<times> ('c, 'w) monitor) option" where
  "list_loop tbl cmdbuf finaltoken m line nxt s =
     do { c \<leftarrow> load m nxt;
          if c = 0 then Some (m, line, 0, s)
          else if c = 10
          then do {
            m1 \<leftarrow> store m nxt 0;
            d \<leftarrow> load m1 line;
            if d \<noteq> 0
            then do {
              l \<leftarrow> read_str m1 line;
              (r, s) \<leftarrow> builtin_run_command tbl cmdbuf finaltoken (Some l) 0 s;
              if r < 0 then Some (m1, line, 1, s) else list_loop tbl cmdbuf finaltoken m1 (nxt + 1) (nxt + 1) s }
            else list_loop tbl cmdbuf finaltoken m1 (nxt + 1) (nxt + 1) s }
          else list_loop tbl cmdbuf finaltoken m line (nxt + 1) s }"
  by pat_completeness auto
termination
  by (relation "measure (\<lambda>(tbl, cmdbuf, finaltoken, m, line, nxt, s). length m - nxt)") (auto simp: load_eq_Some_iff store_eq_Some_iff)

declare list_loop.simps [simp del]

definition builtin_run_command_list ::
  "('c, 'w) cmd_tbl_s list \<Rightarrow> mem \<Rightarrow> mem \<Rightarrow> mem \<Rightarrow> int \<Rightarrow> ('c, 'w) monitor \<Rightarrow> (int \<times> ('c, 'w) monitor) option" where
  "builtin_run_command_list tbl cmdbuf finaltoken m flag s =
     do { (m, line, rcode, s) \<leftarrow> list_loop tbl cmdbuf finaltoken m 0 0 s;
          c \<leftarrow> load m line;
          if rcode = 0 \<and> c \<noteq> 0
          then do { l \<leftarrow> read_str m line;
                    (r, s) \<leftarrow> builtin_run_command tbl cmdbuf finaltoken (Some l) 0 s;
                    Some (if r \<ge> 0 then 1 else 0, s) }
          else Some (rcode, s) }"

text \<open>\<open>m\<close> is the memory that \<open>cmd\<close> points to; \<open>alloc\<close> the answer of \<open>malloc\<close>.\<close>

definition run_command_list ::
  "bool \<Rightarrow> ('c, 'w) cmd_tbl_s list \<Rightarrow> mem \<Rightarrow> mem \<Rightarrow> mem \<Rightarrow> int \<Rightarrow> int \<Rightarrow> ('c, 'w) monitor \<Rightarrow> (int \<times> ('c, 'w) monitor) option" where
  "run_command_list alloc tbl cmdbuf finaltoken m len flag s =
     do { (len, need_buff) \<leftarrow> (if len = -1
             then do { n \<leftarrow> strlen m 0; p \<leftarrow> strchr m 0 10; Some (int n, p \<noteq> None) } else Some (len, True));
          if need_buff
          then if \<not> alloc then Some (1, s)
               else if len < 0 then None
               else do { buff \<leftarrow> copy_bytes (replicate (nat len + 1) 0) 0 m 0 (nat len);
                         buff \<leftarrow> store buff (nat len) 0;
                         builtin_run_command_list tbl cmdbuf finaltoken buff flag s }
          else builtin_run_command_list tbl cmdbuf finaltoken m flag s }"

text \<open>The command \<open>run\<close>, over a table of commands that it can reach; \<open>argv\<close> has its own name first.\<close>

fun run_vars ::
  "('c, 'w) cmd_tbl_s list \<Rightarrow> mem \<Rightarrow> mem \<Rightarrow> int \<Rightarrow> mem list \<Rightarrow> ('c, 'w) monitor \<Rightarrow> (int \<times> ('c, 'w) monitor) option" where
  "run_vars tbl cmdbuf finaltoken flag [] s = Some (0, s)"
| "run_vars tbl cmdbuf finaltoken flag (a # argv) s =
     do { v \<leftarrow> getenv (env_htab s) a;
          case v of None \<Rightarrow> Some (1, s)
          | Some arg \<Rightarrow> do {
              (r, s) \<leftarrow> run_command tbl cmdbuf finaltoken (Some arg) flag s;
              if r \<noteq> 0 then Some (1, s) else run_vars tbl cmdbuf finaltoken flag argv s } }"

definition do_run ::
  "('c, 'w) cmd_tbl_s list \<Rightarrow> mem \<Rightarrow> mem \<Rightarrow> int \<Rightarrow> mem list \<Rightarrow> ('c, 'w) monitor \<Rightarrow> (int \<times> ('c, 'w) monitor) option" where
  "do_run tbl cmdbuf finaltoken flag argv s =
     (if length argv < 2 then Some (CMD_RET_USAGE, s) else run_vars tbl cmdbuf finaltoken flag (tl argv) s)"

text \<open>The entries of \<open>setenv\<close> and \<open>run\<close> in the command table; \<open>strdup\<close> succeeds, completion is a parameter.\<close>

definition setenv_entry ::
  "'c cback \<Rightarrow> 'c ini \<Rightarrow> (nat \<Rightarrow> mem ptr) \<Rightarrow> (mem list \<Rightarrow> byte \<Rightarrow> nat \<Rightarrow> mem list option) \<Rightarrow> ('c, 'w) cmd_tbl_s" where
  "setenv_entry cb ini buf var_complete =
     \<lparr>cmd_name = [115, 101, 116, 101, 110, 118], maxargs = int CONFIG_SYS_MAXARGS, repeatable = 0,
      cmd = do_env_set cb ini True True buf, is_bootd = False, complete = Some var_complete\<rparr>"

definition run_entry ::
  "(mem list \<Rightarrow> byte \<Rightarrow> nat \<Rightarrow> mem list option) \<Rightarrow> mem \<Rightarrow> mem \<Rightarrow> ('c, 'w) cmd_tbl_s list \<Rightarrow> ('c, 'w) cmd_tbl_s" where
  "run_entry var_complete cmdbuf finaltoken tbl =
     \<lparr>cmd_name = [114, 117, 110], maxargs = int CONFIG_SYS_MAXARGS, repeatable = 1,
      cmd = do_run tbl cmdbuf finaltoken, is_bootd = False, complete = Some var_complete\<rparr>"

section \<open>The main loop\<close>

text \<open>One pass of the endless loop of \<open>main_loop\<close>, for the value \<open>len\<close> that \<open>readline\<close> returns with the line in
  \<open>console_buffer\<close>; \<open>lastcommand\<close> and \<open>rc\<close> are kept for the next pass.\<close>

definition main_loop_pass ::
  "('c, 'w) cmd_tbl_s list \<Rightarrow> mem \<Rightarrow> mem \<Rightarrow> int \<Rightarrow> mem \<Rightarrow> mem \<times> int \<times> ('c, 'w) monitor \<Rightarrow> (mem \<times> int \<times> ('c, 'w) monitor) option" where
  "main_loop_pass tbl cmdbuf finaltoken len console_buffer st =
     (case st of (lastcommand, rc, s) \<Rightarrow>
      do { lastcommand \<leftarrow> (if len > 0
              then do { n \<leftarrow> strlen console_buffer 0; copy_bytes lastcommand 0 console_buffer 0 (n + 1) } else Some lastcommand);
           let flag = (if len = 0 then CMD_FLAG_REPEAT else 0);
           (rc, s) \<leftarrow> (if len = -1 then Some (rc, s)
              else do { l \<leftarrow> read_str lastcommand 0; run_command tbl cmdbuf finaltoken (Some l) flag s });
           lastcommand \<leftarrow> (if rc \<le> 0 then store lastcommand 0 0 else Some lastcommand);
           Some (lastcommand, rc, s) })"

end
