(* ===== verification/Env_Export.thy ===== *)
theory Env_Export
  imports Env_Text
begin

unbundle bit_operations_syntax

text \<open>
  What \<open>hexport_r\<close> writes. Writing is one sequence of bytes, so that it fits exactly when its length does; the list of
  pass 1 has the selected entries, and \<open>qsort\<close> puts them into the order of their keys by the interpretation of its
  locale on \<open>cmpkey\<close>.
\<close>

section \<open>Writing a sequence of bytes\<close>

fun puts :: "mem \<Rightarrow> mem \<times> nat \<Rightarrow> (mem \<times> nat) option" where
  "puts [] st = Some st"
| "puts (c # cs) (res, p) = do { res \<leftarrow> store res p c; puts cs (res, p + 1) }"

lemma puts_append: "puts (xs @ ys) st = do { st \<leftarrow> puts xs st; puts ys st }"
  by (induction xs st rule: puts.induct) (auto split: bind_splits)

lemma puts_area:
  "p \<le> length res \<Longrightarrow> puts xs (res, p) = (if p + length xs \<le> length res then Some (write_bytes res p xs, p + length xs) else None)"
proof (induction xs arbitrary: res p)
  case (Cons x xs)
  show ?case
  proof (cases "p < length res")
    case True
    then show ?thesis using Cons.IH [of "p + 1" "res[p := x]"] write_bytes_Cons [OF True, of x xs] by (simp add: store_Some)
  qed (use Cons.prems in \<open>simp add: store_None\<close>)
qed simp

text \<open>The text of a value and of a line.\<close>

definition esc :: "byte \<Rightarrow> mem \<Rightarrow> mem" where
  "esc sep v = concat (map (\<lambda>c. if c = sep \<or> c = 92 then [92, c] else [c]) v)"

definition env_line :: "byte \<Rightarrow> mem \<times> mem \<Rightarrow> mem" where
  "env_line sep kv = fst kv @ [61] @ esc sep (snd kv) @ [sep]"

lemma esc_simps [simp]: "esc sep [] = []" "esc sep (c # cs) = (if c = sep \<or> c = 92 then [92, c] else [c]) @ esc sep cs"
  by (simp_all add: esc_def)

lemma put_str_puts: "0 \<notin> set k \<Longrightarrow> put_str k res p = puts k (res, p)"
  by (induction k arbitrary: res p) (auto split: bind_splits)

lemma put_esc_puts: "0 \<notin> set v \<Longrightarrow> put_esc sep v res p = puts (esc sep v) (res, p)"
  by (induction v arbitrary: res p) (auto split: bind_splits)

lemma esc_len_length: "0 \<notin> set v \<Longrightarrow> esc_len sep v = length (esc sep v)"
  by (induction v) auto

section \<open>The entries of a table\<close>

definition pair_at :: "'c slot list \<Rightarrow> nat \<Rightarrow> mem \<times> mem" where
  "pair_at T i = (case h_key (entry (T ! i)) of Blk k \<Rightarrow> k | _ \<Rightarrow> [], case h_data (entry (T ! i)) of Blk v \<Rightarrow> v | _ \<Rightarrow> [])"

definition live_slots :: "'c slot list \<Rightarrow> nat \<Rightarrow> nat list" where
  "live_slots T n = filter (\<lambda>i. 0 < used (T ! i)) [1..<n + 1]"

lemma live_slot:
  assumes "tab_ok sz T" and "i \<in> {1..unat sz}" and "0 < used (T ! i)"
  obtains k v where "h_key (entry (T ! i)) = Blk k" "h_data (entry (T ! i)) = Blk v" "0 \<notin> set k" "0 \<notin> set v" "pair_at T i = (k, v)" "at_key T i k"
proof -
  obtain k where k: "at_key T i k" using live_at_key [OF assms(1,3,2)] by blast
  then obtain v where "h_data (entry (T ! i)) = Blk v" "0 \<notin> set k" "0 \<notin> set v" using at_keyE [OF assms(1) k assms(2)] by metis
  then show thesis using that [of k v] k by (simp add: pair_at_def at_key_def)
qed

lemma export_entry_puts:
  assumes "table t = Blk T" "tab_ok (hsize t) T" "i \<in> {1..unat (hsize t)}" "0 < used (T ! i)"
  shows "export_entry t sep i st = puts (env_line sep (pair_at T i)) st"
proof -
  obtain k v where kv: "h_key (entry (T ! i)) = Blk k" "h_data (entry (T ! i)) = Blk v" "0 \<notin> set k" "0 \<notin> set v" "pair_at T i = (k, v)"
    using live_slot [OF assms(2-4)] by metis
  have "i < length T" using tab_ok_length [OF assms(2)] assms(3) by simp
  then show ?thesis
    using assms(1) kv by (cases st) (auto simp: export_entry_def load_Some put_str_puts put_esc_puts env_line_def puts_append split: bind_splits)
qed

lemma export_entries_puts:
  assumes "table t = Blk T" "tab_ok (hsize t) T" "\<And>i. i \<in> set is \<Longrightarrow> i \<in> {1..unat (hsize t)} \<and> 0 < used (T ! i)"
  shows "foldM (export_entry t sep) is st = puts (concat (map (\<lambda>i. env_line sep (pair_at T i)) is)) st"
  using assms(3)
proof (induction "is" arbitrary: st)
  case (Cons i "is")
  then show ?case using export_entry_puts [OF assms(1,2), of i sep] by (auto simp: puts_append split: bind_splits)
qed simp

section \<open>The list of entries\<close>

definition selected :: "int \<Rightarrow> mem list \<Rightarrow> mem \<Rightarrow> bool" where
  "selected flag argv k \<longleftrightarrow> (argv = [] \<or> k \<in> set argv) \<and> \<not> (flag AND H_HIDE_DOT \<noteq> 0 \<and> k \<noteq> [] \<and> hd k = 46)"

definition chosen :: "int \<Rightarrow> mem list \<Rightarrow> 'c slot list \<Rightarrow> nat \<Rightarrow> nat list" where
  "chosen flag argv T n = filter (\<lambda>i. 0 < used (T ! i) \<and> selected flag argv (fst (pair_at T i))) [1..<n + 1]"

definition item_size :: "byte \<Rightarrow> mem \<times> mem \<Rightarrow> nat" where
  "item_size sep kv = length (fst kv) + (if sep = 0 then length (snd kv) else length (esc sep (snd kv))) + 4"

lemma arg_found_mem: "0 \<notin> set k \<Longrightarrow> (\<And>a. a \<in> set argv \<Longrightarrow> 0 \<notin> set a) \<Longrightarrow> arg_found argv k = Some (k \<in> set argv)"
  by (induction argv) (auto simp: str_eq_iff)

lemma export_collect_step:
  assumes T: "table t = Blk T" "tab_ok (hsize t) T" and i: "i \<in> {1..unat (hsize t)}" and argv: "\<And>a. a \<in> set argv \<Longrightarrow> 0 \<notin> set a"
    and n: "n < length lst"
  shows "export_collect t sep flag argv i (lst, n, l) = Some
    (if 0 < used (T ! i) \<and> selected flag argv (fst (pair_at T i)) then (lst[n := i], n + 1, l + item_size sep (pair_at T i)) else (lst, n, l))"
proof (cases "0 < used (T ! i)")
  case True
  obtain k v where kv: "h_key (entry (T ! i)) = Blk k" "h_data (entry (T ! i)) = Blk v" "0 \<notin> set k" "0 \<notin> set v" "pair_at T i = (k, v)"
    using live_slot [OF T(2) i True] by metis
  have len: "i < length T" using tab_ok_length [OF T(2)] i by simp
  have c: "load (k @ [0]) 0 = Some (if k = [] then 0 else hd k)" by (cases k) (simp_all add: load_def)
  show ?thesis
    using T(1) True kv len n c arg_found_mem [OF kv(3) argv]
    by (auto simp: export_collect_def load_Some store_Some strlen_str selected_def item_size_def esc_len_length)
next
  case False
  then show ?thesis using T tab_ok_length [OF T(2)] i by (simp add: export_collect_def load_Some)
qed

lemma length_chosen: "length (chosen flag argv T n) \<le> n"
proof -
  have "length (chosen flag argv T n) \<le> length [1..<n + 1]" unfolding chosen_def by (rule length_filter_le)
  then show ?thesis unfolding length_upt by simp
qed

lemma export_collect_all:
  assumes T: "table t = Blk T" "tab_ok (hsize t) T" and argv: "\<And>a. a \<in> set argv \<Longrightarrow> 0 \<notin> set a" and n: "n \<le> unat (hsize t)"
  defines "N \<equiv> unat (hsize t)"
  shows "foldM (export_collect t sep flag argv) [1..<n + 1] (replicate N 0, 0, 0) = Some
    (chosen flag argv T n @ replicate (N - length (chosen flag argv T n)) 0, length (chosen flag argv T n),
     sum_list (map (\<lambda>i. item_size sep (pair_at T i)) (chosen flag argv T n)))"
  using n
proof (induction n)
  case 0
  then show ?case by (simp add: chosen_def)
next
  case (Suc n)
  let ?S = "chosen flag argv T n"
  have l: "length ?S < N" using length_chosen [of flag argv T n] Suc.prems by (simp add: N_def)
  have up: "[1..<Suc n + 1] = [1..<n + 1] @ [Suc n]" by simp
  have i: "Suc n \<in> {1..unat (hsize t)}" using Suc.prems by simp
  have S: "chosen flag argv T (Suc n) = ?S @ (if 0 < used (T ! Suc n) \<and> selected flag argv (fst (pair_at T (Suc n))) then [Suc n] else [])"
    by (simp add: chosen_def)
  have "N - length ?S = Suc (N - Suc (length ?S))" using l by simp
  then have st: "(?S @ replicate (N - length ?S) 0)[length ?S := Suc n] = ?S @ [Suc n] @ replicate (N - Suc (length ?S)) 0"
    by simp
  have step: "export_collect t sep flag argv (Suc n) (?S @ replicate (N - length ?S) 0, length ?S, l) = Some
    (if 0 < used (T ! Suc n) \<and> selected flag argv (fst (pair_at T (Suc n)))
     then ((?S @ replicate (N - length ?S) 0)[length ?S := Suc n], length ?S + 1, l + item_size sep (pair_at T (Suc n)))
     else (?S @ replicate (N - length ?S) 0, length ?S, l))" for l
    by (rule export_collect_step [OF T i argv]) (use l in simp_all)
  have "foldM (export_collect t sep flag argv) [1..<Suc n + 1] (replicate N 0, 0, 0) =
      export_collect t sep flag argv (Suc n) (?S @ replicate (N - length ?S) 0, length ?S, sum_list (map (\<lambda>i. item_size sep (pair_at T i)) ?S))"
    using Suc unfolding up foldM_append by (simp add: foldM_Nil)
  also have "\<dots> = Some (chosen flag argv T (Suc n) @ replicate (N - length (chosen flag argv T (Suc n))) 0, length (chosen flag argv T (Suc n)),
     sum_list (map (\<lambda>i. item_size sep (pair_at T i)) (chosen flag argv T (Suc n))))"
    using step l st unfolding S by (cases "0 < used (T ! Suc n) \<and> selected flag argv (fst (pair_at T (Suc n)))") auto
  finally show ?case .
qed

section \<open>Sorting the list\<close>

lemma elems_one: "n \<le> length xs \<Longrightarrow> elems 1 n xs = map (\<lambda>x. [x]) (take n xs)"
proof (rule nth_equalityI)
  fix i assume "n \<le> length xs" "i < length (elems 1 n xs)"
  then show "elems 1 n xs ! i = map (\<lambda>x. [x]) (take n xs) ! i"
    by (simp add: nth_elems elem_def take_Suc_conv_app_nth hd_drop_conv_nth take_Suc)
qed simp

definition live_cells :: "'c hsearch_data \<Rightarrow> nat list set" where
  "live_cells t = (case table t of Blk T \<Rightarrow> {[i] | i. hwf t \<and> i \<in> {1..unat (hsize t)} \<and> 0 < used (T ! i)} | _ \<Rightarrow> {})"

definition cell_key :: "'c hsearch_data \<Rightarrow> nat list \<Rightarrow> mem" where
  "cell_key t x = (case table t of Blk T \<Rightarrow> fst (pair_at T (hd x)) | _ \<Rightarrow> [])"

definition ascii :: "mem \<Rightarrow> bool" where
  "ascii k = list_all (\<lambda>c. c < 128) k"

lemma cmpkey_strcmp:
  assumes "x \<in> live_cells t" and "y \<in> live_cells t"
  shows "\<exists>r. cmpkey (table t) x y = Some r
    \<and> (ascii (cell_key t x) \<longrightarrow> ascii (cell_key t y) \<longrightarrow>
        (r = 0 \<longleftrightarrow> cell_key t x = cell_key t y) \<and> (r < 0 \<longleftrightarrow> cell_key t x < cell_key t y))"
proof -
  obtain T i j where T: "table t = Blk T" "hwf t" and i: "x = [i]" "i \<in> {1..unat (hsize t)}" "0 < used (T ! i)"
      and j: "y = [j]" "j \<in> {1..unat (hsize t)}" "0 < used (T ! j)"
    using assms by (auto simp: live_cells_def split: ptr.splits)
  have ok: "tab_ok (hsize t) T" using T by (simp add: hwf_def)
  obtain k v where k: "h_key (entry (T ! i)) = Blk k" "0 \<notin> set k" "pair_at T i = (k, v)" using live_slot [OF ok i(2,3)] by metis
  obtain l w where l: "h_key (entry (T ! j)) = Blk l" "0 \<notin> set l" "pair_at T j = (l, w)" using live_slot [OF ok j(2,3)] by metis
  have "i < length T" "j < length T" using tab_ok_length [OF ok] i j by simp_all
  then show ?thesis
    using strcmp_cstr [OF cstr_first [OF k(2), of "l @ [0]"] cstr_second [OF l(2), of k]] T(1) k l i(1) j(1)
    by (auto simp: cmpkey_def load_Some cell_key_def ascii_def)
qed

text \<open>Whatever the keys are, the comparison answers; for keys of seven-bit characters it is the order of the keys.\<close>

interpretation any_keys: comparator "cmpkey (table t)" "\<lambda>_ _. True" "live_cells t" for t :: "'c hsearch_data"
proof
  fix x y assume "x \<in> live_cells t" "y \<in> live_cells t"
  then show "\<exists>r. cmpkey (table t) x y = Some r \<and> (if r \<le> 0 then True else True)" using cmpkey_strcmp [of x t y] by auto
qed simp

interpretation ascii_keys: comparator "cmpkey (table t)" "\<lambda>x y. cell_key t x \<le> cell_key t y" "{x \<in> live_cells t. ascii (cell_key t x)}"
  for t :: "'c hsearch_data"
proof
  fix x y assume "x \<in> {x \<in> live_cells t. ascii (cell_key t x)}" "y \<in> {x \<in> live_cells t. ascii (cell_key t x)}"
  then obtain r where "cmpkey (table t) x y = Some r" "r = 0 \<longleftrightarrow> cell_key t x = cell_key t y" "r < 0 \<longleftrightarrow> cell_key t x < cell_key t y"
    using cmpkey_strcmp [of x t y] by auto
  then show "\<exists>r. cmpkey (table t) x y = Some r \<and> (if r \<le> 0 then cell_key t x \<le> cell_key t y else cell_key t y \<le> cell_key t x)"
    by (intro exI [of _ r]) auto
qed auto

lemma mset_map_hd: "image_mset hd (mset (map (\<lambda>x. [x]) xs)) = mset xs"
  by (induction xs) auto

lemma qsort_entries:
  assumes T: "table t = Blk T" "hwf t" and n: "n \<le> length lst"
    and S: "\<And>i. i \<in> set (take n lst) \<Longrightarrow> i \<in> {1..unat (hsize t)} \<and> 0 < used (T ! i)"
  shows "\<exists>lst'. qsort lst n 1 (cmpkey (table t)) = Some lst' \<and> mset (take n lst') = mset (take n lst)
    \<and> ((\<forall>i\<in>set (take n lst). ascii (fst (pair_at T i))) \<longrightarrow> sorted (map (\<lambda>i. fst (pair_at T i)) (take n lst')))"
proof -
  have sub: "set (elems 1 n lst) \<subseteq> live_cells t" using S T unfolding elems_one [OF n] by (auto simp: live_cells_def)
  obtain lst' where l: "qsort lst n 1 (cmpkey (table t)) = Some lst'" "length lst' = length lst" "mset (elems 1 n lst') = mset (elems 1 n lst)"
    using any_keys.qsort_sorts [of 1 n lst] sub n by auto
  then have ms: "mset (take n lst') = mset (take n lst)" using mset_map_hd elems_one n by metis
  moreover have "sorted (map (\<lambda>i. fst (pair_at T i)) (take n lst'))" if a: "\<forall>i\<in>set (take n lst). ascii (fst (pair_at T i))"
  proof -
    have "set (elems 1 n lst) \<subseteq> {x \<in> live_cells t. ascii (cell_key t x)}"
      using sub a T(1) unfolding elems_one [OF n] by (auto simp: cell_key_def)
    then have "sorted_wrt (\<lambda>x y. cell_key t x \<le> cell_key t y) (elems 1 n lst')"
      using ascii_keys.qsort_sorts [of 1 n lst t] n l(1) by auto
    then have "sorted_wrt (\<lambda>x y. cell_key t x \<le> cell_key t y) (map (\<lambda>x. [x]) (take n lst'))"
      using elems_one [of n lst'] n l(2) by simp
    then show ?thesis using T(1) by (simp add: sorted_wrt_map cell_key_def)
  qed
  ultimately show ?thesis using l(1) by blast
qed

section \<open>The whole export\<close>

definition export_text :: "byte \<Rightarrow> 'c slot list \<Rightarrow> nat list \<Rightarrow> mem" where
  "export_text sep T is = concat (map (\<lambda>i. env_line sep (pair_at T i)) is)"

definition export_size :: "byte \<Rightarrow> 'c slot list \<Rightarrow> nat list \<Rightarrow> nat" where
  "export_size sep T is = sum_list (map (\<lambda>i. item_size sep (pair_at T i)) is)"

lemma chosen_live: "i \<in> set (chosen flag argv T n) \<Longrightarrow> i \<in> {1..n} \<and> 0 < used (T ! i)"
  by (auto simp: chosen_def)

lemma export_size_perm: "mset is = mset js \<Longrightarrow> export_size sep T is = export_size sep T js"
  unfolding export_size_def by (metis mset_map sum_mset_sum_list)

lemma hexport_spec:
  fixes t :: "'c hsearch_data" and flag :: int
  assumes T: "table t = Blk T" "hwf t" and argv: "\<And>a. a \<in> set argv \<Longrightarrow> 0 \<notin> set a"
  defines "S \<equiv> chosen flag argv T (unat (hsize t))"
  shows "\<exists>is. mset is = mset S \<and> ((\<forall>i\<in>set S. ascii (fst (pair_at T i))) \<longrightarrow> sorted (map (\<lambda>i. fst (pair_at T i)) is))
    \<and> hexport_r True (Some t) sep flag (Some Null) 0 argv =
      (if length (export_text sep T is) \<le> export_size sep T S
       then Some (int (export_size sep T S + 1), None,
          Some (Blk (export_text sep T is @ replicate (export_size sep T S + 1 - length (export_text sep T is)) 0)))
       else None)"
proof -
  have ok: "tab_ok (hsize t) T" using T by (simp add: hwf_def)
  let ?L = "S @ replicate (unat (hsize t) - length S) 0" and ?N = "export_size sep T S + 1"
  have tk: "take (length S) ?L = S" by simp
  obtain lst where q: "qsort ?L (length S) 1 (cmpkey (table t)) = Some lst" "mset (take (length S) lst) = mset S"
      "(\<forall>i\<in>set S. ascii (fst (pair_at T i))) \<longrightarrow> sorted (map (\<lambda>i. fst (pair_at T i)) (take (length S) lst))"
    using qsort_entries [OF T, of "length S" ?L] chosen_live [of _ flag argv T "unat (hsize t)"] unfolding tk S_def by auto
  let ?is = "take (length S) lst"
  have live: "i \<in> {1..unat (hsize t)} \<and> 0 < used (T ! i)" if "i \<in> set ?is" for i
    using that q(2) chosen_live [of i flag argv T "unat (hsize t)"] unfolding S_def by (metis mset_eq_setD)
  have c: "foldM (export_collect t sep flag argv) [1..<unat (hsize t) + 1] (replicate (unat (hsize t)) 0, 0, 0) = Some (?L, length S, export_size sep T S)"
    using export_collect_all [OF T(1) ok argv order_refl] unfolding S_def export_size_def by blast
  have e: "foldM (export_entry t sep) ?is (replicate ?N 0, 0) =
      (if length (export_text sep T ?is) \<le> ?N then Some (write_bytes (replicate ?N 0) 0 (export_text sep T ?is), length (export_text sep T ?is)) else None)"
    using export_entries_puts [OF T(1) ok live, of ?is sep] puts_area [of 0 "replicate ?N 0" "export_text sep T ?is"]
    unfolding export_text_def by simp
  define X where "X = export_text sep T ?is"
  define n where "n = export_size sep T S"
  have st: "store (write_bytes (replicate (n + 1) 0) 0 X) (length X) 0 =
      (if length X \<le> n then Some (X @ replicate (n + 1 - length X) 0) else None)" if "length X \<le> n + 1"
  proof (cases "length X \<le> n")
    case True
    then have "n + 1 - length X = Suc (n - length X)" by simp
    then show ?thesis using True by (simp add: write_bytes_def store_Some del: replicate.simps) (simp add: list_update_append)
  qed (use that in \<open>simp add: write_bytes_def store_None\<close>)
  have "hexport_r True (Some t) sep flag (Some Null) 0 argv =
      (if length X \<le> n then Some (int (n + 1), None, Some (Blk (X @ replicate (n + 1 - length X) 0))) else None)"
    unfolding hexport_r_def option.case Option.bind.bind_lunit c prod.case q(1)
    using st e [folded X_def n_def] by (auto simp: malloc_def Let_def n_def [symmetric] simp del: replicate.simps)
  then show ?thesis using q(2,3) unfolding X_def n_def by blast
qed

end
