(* ===== verification/Env_Proofs.thy ===== *)
theory Env_Proofs
  imports Env_Export
begin

unbundle bit_operations_syntax

text \<open>
  What \<open>himport_r\<close> makes of a text, and the properties of the two directions. A line of the text is taken apart in
  place; by induction over the lines, the table is changed as the map is; what \<open>hexport_r\<close> wrote comes back.
\<close>

section \<open>Parsing a line\<close>

definition line_ok :: "byte \<Rightarrow> mem \<times> mem \<Rightarrow> bool" where
  "line_ok sep kv \<longleftrightarrow> 0 \<notin> set (fst kv) \<and> 61 \<notin> set (fst kv) \<and> sep \<notin> set (fst kv) \<and> (fst kv \<noteq> [] \<longrightarrow> \<not> isblank (hd (fst kv)) \<and> hd (fst kv) \<noteq> 35)
     \<and> snd kv \<noteq> [] \<and> 0 \<notin> set (snd kv)"

lemma load_at: "drop a m = x # xs \<Longrightarrow> load m a = Some x"
  by (metis drop_eq_Nil linorder_not_le list.distinct(1) list.sel(1) hd_drop_conv_nth load_Some)

lemma drop_at: "drop a m = xs @ ys \<Longrightarrow> drop (a + length xs) m = ys"
  by (metis add.commute append_eq_conv_conj drop_drop)

lemma drop_update_same: "i < a \<Longrightarrow> drop a (m[i := x]) = drop a m"
  by simp

lemma length_esc: "length v \<le> length (esc sep v)"
  by (induction v) auto

lemma value_loop_esc:
  assumes "sep \<noteq> 92" and "0 \<notin> set v" and "drop a m = esc sep v @ sep # post" and "sp \<le> a"
  shows "value_loop m sep a sp = Some (write_bytes m sp v, a + length (esc sep v), sp + length v)"
  using assms(2-4)
proof (induction v arbitrary: m a sp)
  case Nil
  then show ?case using load_at [of a m sep post] by (simp add: value_loop.simps [of m])
next
  case (Cons c v)
  have len: "sp < length m" using Cons.prems(2,3) by (metis drop_eq_Nil append_is_Nil_conv linorder_not_le list.distinct(1) order.strict_trans1)
  define q where "q = (if c = sep \<or> c = 92 then a + 1 else a)"
  have q: "drop q m = c # esc sep v @ sep # post" "a \<le> q" "q + 1 + length (esc sep v) = a + length (esc sep (c # v))"
    using Cons.prems(2) drop_at [of a m "[92]"] by (auto simp: q_def)
  have first: "load m a = Some (if c = sep \<or> c = 92 then 92 else c)" using Cons.prems(2) load_at [of a m] by auto
  have c0: "c \<noteq> 0" using Cons.prems(1) by auto
  have nx: "load m q = Some c" using q(1) by (rule load_at)
  have "drop (q + 1) m = esc sep v @ sep # post" using drop_at [of q m "[c]"] q(1) by simp
  then have "drop (q + 1) (m[sp := c]) = esc sep v @ sep # post" using q(2) Cons.prems(3) by simp
  then have "value_loop (m[sp := c]) sep (q + 1) (sp + 1) = Some (write_bytes (m[sp := c]) (sp + 1) v, q + 1 + length (esc sep v), sp + 1 + length v)"
    using Cons.IH [of "q + 1" "m[sp := c]" "sp + 1"] Cons.prems(1,3) q(2) by simp
  moreover have "value_loop m sep a sp = value_loop (m[sp := c]) sep (q + 1) (sp + 1)"
    using first nx c0 assms(1) len unfolding value_loop.simps [of m sep a sp] q_def by (auto simp: store_Some)
  ultimately show ?case using write_bytes_Cons [OF len, of c v] q(3) by simp
qed

lemma name_end_key:
  assumes "0 \<notin> set k" "61 \<notin> set k" "sep \<notin> set k" and "drop a m = k @ 61 # post"
  shows "name_end m sep a = Some (a + length k)"
  using assms
proof (induction k arbitrary: a)
  case Nil
  then show ?case using load_at [of a m] by (simp add: name_end.simps [of m])
next
  case (Cons c k)
  then have "name_end m sep (a + 1) = Some (a + 1 + length k)" using drop_at [of a m "[c]"] by simp
  then show ?case using load_at [of a m c] Cons.prems unfolding name_end.simps [of m sep a] by auto
qed

lemma read_cstr: "cstr m a xs \<Longrightarrow> read_str m a = Some xs"
  using strlen_cstr [of m a xs] cstr_iff [of m a xs] by (simp add: read_str_def)

lemma line_parsed:
  assumes "sep \<noteq> 92" and "line_ok sep (k, v)" and m: "m = pre @ env_line sep (k, v) @ post"
  shows "\<exists>m'. (do { m1 \<leftarrow> store m (length pre + length k) 0; (m2, q, sp) \<leftarrow> value_loop m1 sep (length pre + length k + 1) (length pre + length k + 1);
                     m3 \<leftarrow> store m2 sp 0; Some (m3, q) }) = Some (m', length pre + length (env_line sep (k, v)) - 1)
    \<and> length m' = length m \<and> drop (length pre + length (env_line sep (k, v))) m' = post
    \<and> read_str m' (length pre) = Some k \<and> read_str m' (length pre + length k + 1) = Some v"
proof -
  have kv: "0 \<notin> set k" "0 \<notin> set v" using assms(2) by (simp_all add: line_ok_def)
  let ?p = "length pre + length k" and ?e = "esc sep v"
  define m1 where "m1 = pre @ k @ 0 # ?e @ sep # post"
  have s1: "store m ?p 0 = Some m1" unfolding m m1_def by (simp add: store_Some env_line_def list_update_append)
  have d1: "drop (?p + 1) m1 = ?e @ sep # post" unfolding m1_def by simp
  have v1: "value_loop m1 sep (?p + 1) (?p + 1) = Some (write_bytes m1 (?p + 1) v, ?p + 1 + length ?e, ?p + 1 + length v)"
    by (rule value_loop_esc [OF assms(1) kv(2) d1 order_refl])
  obtain x xs where x: "drop (length v) (?e @ [sep]) = x # xs"
    using length_esc [of v sep] by (cases "drop (length v) (?e @ [sep])") auto
  have xl: "length v + Suc (length xs) = length ?e + 1" using arg_cong [OF x, of length] length_esc [of v sep] by simp
  have w: "write_bytes m1 (?p + 1) v = pre @ k @ 0 # v @ x # xs @ post"
  proof -
    have "drop (length v) (?e @ sep # post) = x # xs @ post" using x length_esc [of v sep] by simp
    then show ?thesis unfolding m1_def by (simp add: write_bytes_def)
  qed
  define m' where "m' = pre @ k @ 0 # v @ 0 # xs @ post"
  have s3: "store (pre @ k @ 0 # v @ x # xs @ post) (?p + 1 + length v) 0 = Some m'"
    unfolding m'_def by (simp add: store_Some list_update_append)
  have "cstr m' (length pre) k" "cstr m' (?p + 1) v" using kv unfolding m'_def by (simp_all add: cstr_iff nth_append)
  then have r: "read_str m' (length pre) = Some k" "read_str m' (?p + 1) = Some v" by (simp_all add: read_cstr)
  have l: "length m' = length m" "length pre + length (env_line sep (k, v)) = length (pre @ k @ 0 # v @ 0 # xs)"
    using xl unfolding m'_def m by (simp_all add: env_line_def)
  have "drop (length pre + length (env_line sep (k, v))) m' = post" unfolding l(2) m'_def by simp
  then show ?thesis using s1 v1 s3 r l(1) unfolding w by (simp add: env_line_def)
qed

lemma skip_blank_line:
  assumes "line_ok sep (k, v)" and "drop a m = env_line sep (k, v) @ post"
  obtains c where "skip_blank m a = Some a" "load m a = Some c" "c \<noteq> 35" "c \<noteq> 0"
proof (cases k)
  case Nil
  then have "load m a = Some 61" using assms(2) by (intro load_at) (simp add: env_line_def)
  then show thesis using that [of 61] by (simp add: skip_blank.simps [of m a] isblank_def)
next
  case (Cons c k')
  then have "load m a = Some c" using assms(2) by (intro load_at) (simp add: env_line_def)
  then show thesis using that [of c] assms(1) Cons by (simp add: skip_blank.simps [of m a] line_ok_def)
qed

abbreviation all_memory :: "nat \<Rightarrow> bool \<times> bool" where
  "all_memory \<equiv> \<lambda>_. (True, True)"

lemma localvars_none: "localvars st = [] \<Longrightarrow> st\<lparr>localvars := []\<rparr> = st"
  by (cases st) simp

lemma import_entry_line:
  fixes st :: "'c importer"
  assumes sep: "sep \<noteq> 92" "sep \<noteq> 61" and kv: "line_ok sep (k, v)" and d: "drop (dp st) (data st) = env_line sep (k, v) @ post"
    and lv: "localvars st = []" and h: "hsearch_r cb ini True True k (Some v) ENTER flag (htab st) = Some (r, ep, e, t')"
  shows "\<exists>m'. import_entry cb ini all_memory sep flag st = Some (set_errno e (st\<lparr>data := m', dp := dp st + length (env_line sep (k, v)), htab := t'\<rparr>))
    \<and> length m' = length (data st) \<and> drop (dp st + length (env_line sep (k, v))) m' = post"
proof -
  define m where "m = data st"
  define a where "a = dp st"
  define p where "p = a + length k"
  have pre: "m = take a m @ env_line sep (k, v) @ post" using d append_take_drop_id [of a m] by (simp add: m_def a_def)
  have al: "length (take a m) = a" using d by (auto simp: m_def a_def env_line_def min_def)
  obtain m' where m': "(do { m1 \<leftarrow> store m p 0; (m2, q, sp) \<leftarrow> value_loop m1 sep (p + 1) (p + 1);
        m3 \<leftarrow> store m2 sp 0; Some (m3, q) }) = Some (m', a + length (env_line sep (k, v)) - 1)"
      "length m' = length m" "drop (a + length (env_line sep (k, v))) m' = post" "read_str m' a = Some k" "read_str m' (p + 1) = Some v"
    using line_parsed [OF sep(1) kv pre] unfolding al p_def [symmetric] by blast
  obtain c where c: "skip_blank m a = Some a" "load m a = Some c" "c \<noteq> 35"
    using skip_blank_line [OF kv] d unfolding m_def a_def by metis
  have dm: "drop a m = k @ 61 # esc sep v @ sep # post" using d by (simp add: m_def a_def env_line_def)
  have ne: "name_end m sep a = Some p"
    unfolding p_def by (rule name_end_key [OF _ _ _ dm]) (use kv in \<open>auto simp: line_ok_def\<close>)
  have lp: "load m p = Some 61" unfolding p_def by (rule load_at [OF drop_at [OF dm]])
  have dv: "drop (p + 1) m = esc sep v @ sep # post" using drop_at [of a m "k @ [61]"] dm by (simp add: p_def)
  obtain x where x: "load m (p + 1) = Some x" "x \<noteq> 0" "x \<noteq> sep"
  proof (cases v)
    case (Cons y ys)
    have "load m (p + 1) = Some (if y = sep \<or> y = 92 then 92 else y)" using dv Cons load_at [of "p + 1" m] by (cases "y = sep \<or> y = 92") auto
    then show thesis using that sep kv Cons by (auto simp: line_ok_def split: if_splits)
  qed (use kv in \<open>simp add: line_ok_def\<close>)
  have pos: "a + length (env_line sep (k, v)) - 1 + 1 = a + length (env_line sep (k, v))" by (simp add: env_line_def)
  obtain m1 m2 q sp where s: "store m p 0 = Some m1" "value_loop m1 sep (p + 1) (p + 1) = Some (m2, q, sp)" "store m2 sp 0 = Some m'"
      "q + 1 = a + length (env_line sep (k, v))"
    using m'(1) pos by (auto simp: bind_eq_Some_conv)
  have "import_entry cb ini all_memory sep flag st = import_set cb ini all_memory flag a (p + 1) (st\<lparr>data := m', dp := q + 1\<rparr>)"
    using c ne lp x s(1-3) sep by (simp add: import_entry_def m_def [symmetric] a_def [symmetric])
  also have "\<dots> = Some (set_errno e (st\<lparr>data := m', dp := q + 1, htab := t'\<rparr>))"
    using m'(4,5) lv h by (simp add: import_set_def drop_var_from_set_def Let_def localvars_none)
  finally show ?thesis using m'(2,3) s(4) unfolding m_def a_def by auto
qed

lemma enter_open:
  assumes "open_table t" "0 \<notin> set k" "0 \<notin> set v" "0 < room t"
  obtains r ep t' where "hsearch_r no_handler ini True True k (Some v) ENTER flag t = Some (r, ep, None, t')"
    "open_table t'" "vals t' = (vals t)(k \<mapsto> v)" "room t \<le> Suc (room t')"
proof -
  have nr: "\<not> rejects t e w op fl" for e w op fl using assms(1) by (simp add: open_table_def rejects_def)
  obtain r ep err t' where "hsearch_r no_handler ini True True k (Some v) ENTER flag t = Some (r, ep, err, t')" "hwf t'"
      "change_ok t' = change_ok t" "room t \<le> Suc (room t')" "r \<noteq> 0" "vals t' = (vals t)(k \<mapsto> v) \<and> err = None"
    using enter_spec [of t k v no_handler ini flag] assms nr unfolding open_table_def no_handler_def by metis
  then show thesis using that assms(1) by (simp add: open_table_def)
qed

fun set_vars :: "(mem \<times> mem) list \<Rightarrow> (mem \<rightharpoonup> mem) \<Rightarrow> mem \<rightharpoonup> mem" where
  "set_vars [] f = f"
| "set_vars ((k, v) # kvs) f = set_vars kvs (f(k \<mapsto> v))"

lemma import_loop_lines:
  fixes st :: "'c importer"
  assumes sep: "sep \<noteq> 92" "sep \<noteq> 61"
  shows "kvs \<noteq> [] \<Longrightarrow> (\<And>kv. kv \<in> set kvs \<Longrightarrow> line_ok sep kv) \<Longrightarrow> drop (dp st) (data st) = concat (map (env_line sep) kvs) @ 0 # post
    \<Longrightarrow> length (data st) = sz \<Longrightarrow> localvars st = [] \<Longrightarrow> open_table (htab st) \<Longrightarrow> length kvs \<le> room (htab st)
    \<Longrightarrow> \<exists>st'. import_loop no_handler ini all_memory sep flag sz st = Some st' \<and> open_table (htab st')
      \<and> vals (htab st') = set_vars kvs (vals (htab st)) \<and> localvars st' = [] \<and> errno st' = errno st"
proof (induction kvs arbitrary: st)
  case (Cons kv kvs)
  obtain k v where kv: "kv = (k, v)" by (cases kv)
  have ok: "line_ok sep (k, v)" using Cons.prems(2) kv by simp
  then have z: "0 \<notin> set k" "0 \<notin> set v" by (simp_all add: line_ok_def)
  have "0 < room (htab st)" using Cons.prems(7) by simp
  with Cons.prems(6) z obtain r ep t' where t': "hsearch_r no_handler ini True True k (Some v) ENTER flag (htab st) = Some (r, ep, None, t')"
      "open_table t'" "vals t' = (vals (htab st))(k \<mapsto> v)" "room (htab st) \<le> Suc (room t')" by (rule enter_open)
  let ?R = "concat (map (env_line sep) kvs) @ 0 # post" and ?q = "dp st + length (env_line sep (k, v))"
  have "drop (dp st) (data st) = env_line sep (k, v) @ ?R" using Cons.prems(3) kv by simp
  then obtain m' where m': "import_entry no_handler ini all_memory sep flag st = Some (st\<lparr>data := m', dp := ?q, htab := t'\<rparr>)"
      "length m' = length (data st)" "drop ?q m' = ?R"
    using import_entry_line [OF sep ok _ Cons.prems(5) t'(1), of ?R] by (auto simp: set_errno_def)
  let ?st = "st\<lparr>data := m', dp := ?q, htab := t'\<rparr>"
  have lt: "?q < sz" using m'(2,3) Cons.prems(4) by (metis append_is_Nil_conv drop_eq_Nil linorder_not_le list.distinct(1))
  show ?case
  proof (cases "kvs = []")
    case True
    then have "load m' ?q = Some 0" using m'(3) load_at by simp
    then show ?thesis using m'(1) lt True t'(2,3) Cons.prems(5) kv
      by (simp add: import_loop.simps [of _ _ _ _ _ _ st] fun_upd_def)
  next
    case False
    then obtain k1 v1 kvs' where n: "kvs = (k1, v1) # kvs'" by (cases kvs) auto
    have "line_ok sep (k1, v1)" using Cons.prems(2) n by simp
    then obtain c where c: "load m' ?q = Some c" "c \<noteq> 0" using m'(3) n by (elim skip_blank_line [of sep k1 v1 ?q m']) auto
    have "\<exists>st'. import_loop no_handler ini all_memory sep flag sz ?st = Some st' \<and> open_table (htab st')
      \<and> vals (htab st') = set_vars kvs (vals (htab ?st)) \<and> localvars st' = [] \<and> errno st' = errno ?st"
      by (rule Cons.IH [OF False]) (use Cons.prems(2,4,5,7) m' t' in auto)
    moreover have "import_loop no_handler ini all_memory sep flag sz st = import_loop no_handler ini all_memory sep flag sz ?st"
      using m'(1) lt c by (simp add: import_loop.simps [of _ _ _ _ _ _ st])
    ultimately show ?thesis using t'(3) kv by simp
  qed
qed simp

lemma import_loop_empty:
  fixes st :: "'c importer"
  assumes "drop (dp st) (data st) = replicate (Suc n) 0" "length (data st) = sz" "localvars st = []" "open_table (htab st)" "vals (htab st) [] = None"
  shows "\<exists>st'. import_loop no_handler ini al sep flag sz st = Some st' \<and> htab st' = htab st \<and> localvars st' = []"
proof -
  define m where "m = data st"
  define a where "a = dp st"
  have d: "drop a m = 0 # replicate n 0" using assms(1) by (simp add: m_def a_def)
  then have l: "load m a = Some 0" by (rule load_at)
  have len: "a < length m" "m ! a = 0" using l by (auto simp: load_eq_Some_iff)
  have s: "store m a 0 = Some m" using len by (metis store_Some list_update_id)
  have "cstr m a []" using len by (simp add: cstr_iff)
  then have r: "read_str m a = Some []" by (rule read_cstr)
  obtain e where e: "hdelete_r no_handler None [] flag (htab st) = Some (0, e, htab st)"
    using remove_spec [of "htab st" "[]" no_handler None flag] assms(4,5) by (auto simp: open_table_def)
  have sk: "skip_blank m a = Some a" "name_end m sep a = Some a"
    using l by (simp_all add: skip_blank.simps [of m a] name_end.simps [of m sep a] isblank_def)
  have e1: "import_entry no_handler ini al sep flag st = Some (set_errno e (st\<lparr>data := m, dp := a + 1, htab := htab st\<rparr>))"
    using l sk s r e assms(3)
    by (simp add: localvars_none import_entry_def import_delete_def drop_var_from_set_def Let_def m_def [symmetric] a_def [symmetric])
  let ?st = "set_errno e (st\<lparr>data := m, dp := a + 1, htab := htab st\<rparr>)"
  have st: "data ?st = m" "dp ?st = a + 1" "htab ?st = htab st" "localvars ?st = []" using assms(3) by (simp_all add: set_errno_def split: option.split)
  have nx: "load m (a + 1) = Some 0" if "a + 1 < sz"
  proof -
    have dn: "drop (a + 1) m = replicate n 0" using drop_at [of a m "[0]"] d by simp
    then have "n \<noteq> 0" using that assms(2) by (metis drop_eq_Nil linorder_not_le m_def replicate_empty)
    then have "drop (a + 1) m = 0 # replicate (n - 1) 0" unfolding dn by (cases n) simp_all
    then show ?thesis by (rule load_at)
  qed
  have "import_loop no_handler ini al sep flag sz st = Some ?st"
    using e1 st nx by (simp add: import_loop.simps [of _ _ _ _ _ _ st])
  then show ?thesis using st by blast
qed

section \<open>A new table from a text\<close>

definition fresh_target :: "int \<Rightarrow> 'c hsearch_data \<Rightarrow> bool" where
  "fresh_target flag t \<longleftrightarrow> (table t = Null \<or> hwf t \<and> flag AND H_NOCLEAR = 0) \<and> change_ok t = None"

lemma hdestroy_wf:
  assumes "hwf t"
  shows "hdestroy_r (Some t) = Some (None, Some (t\<lparr>table := Null\<rparr>))"
proof -
  obtain T where T: "table t = Blk T" "tab_ok (hsize t) T" using assms by (rule hwfE)
  have one: "(do { T \<leftarrow> deref (table t); s \<leftarrow> load T i;
      if 0 < used s then do { free (h_key (entry s)); free (h_data (entry s)) } else Some () }) = Some ()" if i: "i \<in> {1..unat (hsize t)}" for i
  proof (cases "0 < used (T ! i)")
    case True
    obtain k v where "h_key (entry (T ! i)) = Blk k" "h_data (entry (T ! i)) = Blk v" using live_slot [OF T(2) i True] by metis
    then show ?thesis using T(1) i tab_ok_length [OF T(2)] by (simp add: load_Some)
  next
    case False
    then show ?thesis using T(1) that tab_ok_length [OF T(2)] by (simp add: load_Some)
  qed
  have "foldM (\<lambda>i _. do { T \<leftarrow> deref (table t); s \<leftarrow> load T i;
      if 0 < used s then do { free (h_key (entry s)); free (h_data (entry s)) } else Some () }) [1..<unat (hsize t) + 1] () = Some (fold (\<lambda>_ _. ()) [1..<unat (hsize t) + 1] ())"
    by (rule foldM_Some) (use one in auto)
  then show ?thesis using T(1) by (simp add: hdestroy_r_def)
qed

lemma himport_lines:
  fixes t0 :: "'c hsearch_data"
  assumes sep: "sep \<noteq> 92" "sep \<noteq> 61" and t0: "fresh_target flag t0"
    and env: "env = concat (map (env_line sep) kvs) @ replicate (Suc n) 0" and ok: "\<And>kv. kv \<in> set kvs \<Longrightarrow> line_ok sep kv"
    and n: "length kvs \<le> 512" "length kvs \<le> 64 + length env div 8"
  shows "\<exists>e t'. himport_r True True no_handler ini all_memory (Some t0) env (length env) sep flag [] = Some (1, e, Some t')
    \<and> open_table t' \<and> vals t' = set_vars kvs (\<lambda>_. None)"
proof -
  let ?t1 = "t0\<lparr>table := Null\<rparr>" and ?n = "min 512 (64 + length env div 8)"
  have u: "unat (of_nat ?n :: u32) = ?n" by (simp add: unat_of_nat)
  let ?t = "?t1\<lparr>table := Blk (replicate (table_size ?n + 1) zero_slot), hsize := of_nat (table_size ?n), filled := 0\<rparr>"
  have le: "?n \<le> 65521" "2 \<le> ?n" by simp_all
  have new: "hwf ?t" "vals ?t = (\<lambda>_. None)" "room ?t = table_size ?n" by (rule new_table [OF le(1)]; simp)+
  have ot: "open_table ?t" using new t0 by (simp add: open_table_def fresh_target_def)
  have cr: "hcreate_r True (of_nat ?n) (Some ?t1) = Some (1, None, Some ?t)"
    using hcreate_eq [of ?t1 "of_nat ?n" True] u le by (simp add: malloc_def del: replicate.simps)
  have "length kvs \<le> ?n" using n by simp
  then have rm: "length kvs \<le> room ?t" unfolding new(3) using table_size_props(3) [OF le(1)] by (rule order_trans)
  let ?st = "\<lparr>data = env, dp = 0, htab = ?t, localvars = [], errno = None\<rparr>"
  have "\<exists>st'. import_loop no_handler ini all_memory sep flag (length env) ?st = Some st' \<and> open_table (htab st')
      \<and> vals (htab st') = set_vars kvs (\<lambda>_. None) \<and> localvars st' = []"
  proof (cases "kvs = []")
    case True
    then show ?thesis using import_loop_empty [of ?st n "length env" ini all_memory sep flag] env ot new(2) by auto
  next
    case False
    then show ?thesis
      using import_loop_lines [OF sep False ok, of ?st "replicate n 0" "length env" ini flag] env ot new(2) rm by auto
  qed
  then obtain st' where st': "import_loop no_handler ini all_memory sep flag (length env) ?st = Some st'" "open_table (htab st')"
      "vals (htab st') = set_vars kvs (\<lambda>_. None)" "localvars st' = []" by blast
  have des: "(if flag AND H_NOCLEAR = 0 \<and> table t0 \<noteq> Null then hdestroy_r (Some t0) else Some (None, Some t0)) = Some (None, Some ?t1)"
  proof (cases "table t0 = Null")
    case False
    then show ?thesis using t0 hdestroy_wf [of t0] by (simp add: fresh_target_def)
  qed (cases t0, simp)
  have cp: "copy_bytes (replicate (length env) 0) 0 env 0 (length env) = Some env" by (simp add: copy_bytes_Some)
  have lim: "(if CONFIG_ENV_MIN_ENTRIES + length env div 8 > CONFIG_ENV_MAX_ENTRIES then CONFIG_ENV_MAX_ENTRIES
      else CONFIG_ENV_MIN_ENTRIES + length env div 8) = ?n"
    by (simp add: CONFIG_ENV_MIN_ENTRIES_def CONFIG_ENV_MAX_ENTRIES_def min_def)
  have nent: "(let nent = CONFIG_ENV_MIN_ENTRIES + length env div 8; nent = (if nent > CONFIG_ENV_MAX_ENTRIES then CONFIG_ENV_MAX_ENTRIES else nent) in
      hcreate_r True (of_nat nent) (Some ?t1)) = Some (1, None, Some ?t)"
    unfolding Let_def lim by (rule cr)
  show ?thesis
    using st' nent unfolding himport_r_def option.case cp des by (simp add: foldM_Nil del: replicate.simps)
qed

section \<open>The map and the lines\<close>

lemma vals_pairs:
  assumes "table t = Blk T" "hwf t"
  shows "vals t k = Some v \<longleftrightarrow> (\<exists>i\<in>{1..unat (hsize t)}. 0 < used (T ! i) \<and> pair_at T i = (k, v))"
proof
  have ok: "tab_ok (hsize t) T" using assms by (simp add: hwf_def)
  show "\<exists>i\<in>{1..unat (hsize t)}. 0 < used (T ! i) \<and> pair_at T i = (k, v)" if "vals t k = Some v"
    using assms(1) ok by (cases rule: vals_cases [where k = k]) (use that in \<open>auto simp: at_key_def pair_at_def intro!: bexI\<close>)
  assume "\<exists>i\<in>{1..unat (hsize t)}. 0 < used (T ! i) \<and> pair_at T i = (k, v)"
  then obtain i where i: "i \<in> {1..unat (hsize t)}" "0 < used (T ! i)" "pair_at T i = (k, v)" by blast
  then show "vals t k = Some v" using live_slot [OF ok i(1,2)] vals_at [OF assms(1) ok i(1)] by (metis prod.inject)
qed

lemma chosen_pairs:
  assumes "table t = Blk T" "hwf t" and "mset is = mset (chosen flag argv T (unat (hsize t)))"
  shows "set (map (pair_at T) is) = {(k, v). vals t k = Some v \<and> selected flag argv k}" and "distinct (map fst (map (pair_at T) is))"
proof -
  have ok: "tab_ok (hsize t) T" using assms by (simp add: hwf_def)
  have st: "set is = {i \<in> {1..unat (hsize t)}. 0 < used (T ! i) \<and> selected flag argv (fst (pair_at T i))}"
    using mset_eq_setD [OF assms(3)] by (auto simp: chosen_def)
  then show "set (map (pair_at T) is) = {(k, v). vals t k = Some v \<and> selected flag argv k}"
    using vals_pairs [OF assms(1,2)] by (auto simp: image_iff) (metis fst_conv)+
  have "distinct (chosen flag argv T (unat (hsize t)))" unfolding chosen_def by (intro distinct_filter distinct_upt)
  then have d: "distinct is" using assms(3) by (metis mset_eq_imp_distinct_iff)
  have "inj_on (\<lambda>i. fst (pair_at T i)) (set is)"
  proof (rule inj_onI)
    fix i j assume a: "i \<in> set is" "j \<in> set is" "fst (pair_at T i) = fst (pair_at T j)"
    have i: "i \<in> {1..unat (hsize t)}" "0 < used (T ! i)" "j \<in> {1..unat (hsize t)}" "0 < used (T ! j)" using a(1,2) unfolding st by auto
    obtain k where "at_key T i k" "fst (pair_at T i) = k" using live_slot [OF ok i(1,2)] by (metis fst_conv)
    moreover obtain l where "at_key T j l" "fst (pair_at T j) = l" using live_slot [OF ok i(3,4)] by (metis fst_conv)
    ultimately show "i = j" using at_key_unique [OF ok _ _ i(1,3)] a(3) by metis
  qed
  then show "distinct (map fst (map (pair_at T) is))" using d by (simp add: distinct_map comp_def)
qed

lemma set_vars_map_of: "distinct (map fst kvs) \<Longrightarrow> set_vars kvs f = f ++ map_of kvs"
proof (induction kvs arbitrary: f)
  case (Cons kv kvs)
  then show ?case by (cases kv) (auto simp: map_add_def fun_eq_iff dom_map_of_conv_image_fst image_iff split: option.splits dest!: map_of_SomeD)
qed simp

lemma set_vars_vals:
  assumes "distinct (map fst kvs)" and "set kvs = {(k, v). f k = Some v}"
  shows "set_vars kvs (\<lambda>_. None) = f"
proof
  fix k
  have "map_of kvs k = Some v \<longleftrightarrow> f k = Some v" for v using assms by (simp add: map_of_eq_Some_iff)
  then show "set_vars kvs (\<lambda>_. None) k = f k" unfolding set_vars_map_of [OF assms(1)] by (metis (no_types, lifting) map_add_find_right map_add_None not_Some_eq)
qed

section \<open>The size of the text\<close>

definition kv_size :: "byte \<Rightarrow> (mem \<times> mem) list \<Rightarrow> nat" where
  "kv_size sep kvs = sum_list (map (item_size sep) kvs)"

definition kv_text :: "byte \<Rightarrow> (mem \<times> mem) list \<Rightarrow> mem" where
  "kv_text sep kvs = concat (map (env_line sep) kvs)"

lemma length_esc_nul: "0 \<notin> set v \<Longrightarrow> length (esc 0 v) = length v + count_list v 92"
  by (induction v) auto

lemma kv_text_fits:
  assumes "\<And>k v. (k, v) \<in> set kvs \<Longrightarrow> 0 \<notin> set v \<and> (sep = 0 \<longrightarrow> count_list v 92 \<le> 2)"
  shows "length (kv_text sep kvs) \<le> kv_size sep kvs"
  using assms
proof (induction kvs)
  case (Cons kv kvs)
  obtain k v where kv: "kv = (k, v)" by (cases kv)
  have "0 \<notin> set v" "sep = 0 \<longrightarrow> count_list v 92 \<le> 2" using Cons.prems [of k v] kv by simp_all
  then have "length (env_line sep kv) \<le> item_size sep kv" using kv by (auto simp: env_line_def item_size_def length_esc_nul)
  moreover have "length (kv_text sep kvs) \<le> kv_size sep kvs" using Cons.IH Cons.prems by (metis list.set_intros(2))
  ultimately show ?case by (simp add: kv_text_def kv_size_def)
qed (simp add: kv_text_def)

lemma kv_text_long:
  assumes "\<And>k v. (k, v) \<in> set kvs \<Longrightarrow> 0 \<notin> set v \<and> 2 < count_list v 92"
  shows "kv_size 0 kvs + length kvs \<le> length (kv_text 0 kvs)"
  using assms
proof (induction kvs)
  case (Cons kv kvs)
  obtain k v where kv: "kv = (k, v)" by (cases kv)
  have "0 \<notin> set v" "2 < count_list v 92" using Cons.prems [of k v] kv by simp_all
  then have "item_size 0 kv + 1 \<le> length (env_line 0 kv)" using kv by (auto simp: env_line_def item_size_def length_esc_nul)
  moreover have "kv_size 0 kvs + length kvs \<le> length (kv_text 0 kvs)" using Cons.IH Cons.prems by (metis list.set_intros(2))
  ultimately show ?case by (simp add: kv_text_def kv_size_def)
qed (simp add: kv_size_def)

lemma kv_size_least: "(\<And>k v. (k, v) \<in> set kvs \<Longrightarrow> 4 \<le> length k + length v) \<Longrightarrow> 8 * length kvs \<le> kv_size sep kvs"
proof (induction kvs)
  case (Cons kv kvs)
  obtain k v where kv: "kv = (k, v)" by (cases kv)
  have "4 \<le> length k + length v" using Cons.prems kv by simp
  then have "8 \<le> item_size sep kv" using kv length_esc [of v sep] by (auto simp: item_size_def)
  moreover have "8 * length kvs \<le> kv_size sep kvs" using Cons.IH Cons.prems by (metis list.set_intros(2))
  ultimately show ?case by (simp add: kv_size_def)
qed simp

lemma hexport_pairs:
  fixes t :: "'c hsearch_data"
  assumes "hwf t" and "\<And>a. a \<in> set argv \<Longrightarrow> is_str a"
  obtains kvs where "distinct (map fst kvs)" "set kvs = {(k, v). vals t k = Some v \<and> selected flag argv k}"
    "(\<forall>k\<in>fst ` set kvs. ascii k) \<longrightarrow> sorted (map fst kvs)" "length kvs \<le> unat (filled t)"
    "hexport_r True (Some t) sep flag (Some Null) 0 argv =
      (if length (kv_text sep kvs) \<le> kv_size sep kvs
       then Some (int (kv_size sep kvs + 1), None, Some (Blk (kv_text sep kvs @ replicate (kv_size sep kvs + 1 - length (kv_text sep kvs)) 0)))
       else None)"
proof -
  obtain T where T: "table t = Blk T" "tab_ok (hsize t) T" using assms(1) by (rule hwfE)
  define S where "S = chosen flag argv T (unat (hsize t))"
  obtain "is" where i: "mset is = mset S" "(\<forall>i\<in>set S. ascii (fst (pair_at T i))) \<longrightarrow> sorted (map (\<lambda>i. fst (pair_at T i)) is)"
     "hexport_r True (Some t) sep flag (Some Null) 0 argv =
      (if length (export_text sep T is) \<le> export_size sep T S
       then Some (int (export_size sep T S + 1), None,
          Some (Blk (export_text sep T is @ replicate (export_size sep T S + 1 - length (export_text sep T is)) 0)))
       else None)"
    using hexport_spec [OF T(1) assms(1), of argv flag sep] assms(2) unfolding S_def is_str_def by blast
  have sz: "export_size sep T S = kv_size sep (map (pair_at T) is)"
    using export_size_perm [OF i(1), of sep T] by (simp add: kv_size_def export_size_def comp_def)
  have tx: "export_text sep T is = kv_text sep (map (pair_at T) is)" by (simp add: export_text_def kv_text_def comp_def)
  have "distinct is" using chosen_pairs(2) [OF T(1) assms(1) i(1) [unfolded S_def]] by (simp add: distinct_map)
  then have "length is = card (set is)" by (simp add: distinct_card)
  also have "\<dots> \<le> card (lives (hsize t) T)"
    using mset_eq_setD [OF i(1)] by (intro card_mono) (auto simp: S_def chosen_def lives_def)
  finally have le: "length (map (pair_at T) is) \<le> unat (filled t)" using assms(1) T(1) by (simp add: hwf_def)
  show thesis
  proof (rule that [OF _ _ _ le])
    show "(\<forall>k\<in>fst ` set (map (pair_at T) is). ascii k) \<longrightarrow> sorted (map fst (map (pair_at T) is))"
      using i(2) mset_eq_setD [OF i(1)] by (auto simp: comp_def)
  qed (use chosen_pairs [OF T(1) assms(1) i(1) [unfolded S_def]] i(3) sz tx in auto)
qed

section \<open>A table with one variable\<close>

definition one_slots :: "mem \<Rightarrow> unit slot list" where
  "one_slots v = [zero_slot, \<lparr>used = 1, entry = \<lparr>h_key = Blk [65], h_data = Blk v, callback = None, h_flags = 0\<rparr>\<rparr>,
     zero_slot, zero_slot, zero_slot, zero_slot]"

definition one_table :: "mem \<Rightarrow> unit hsearch_data" where
  "one_table v = \<lparr>table = Blk (one_slots v), hsize = 5, filled = 1, change_ok = None\<rparr>"

lemma one_slots_nth:
  "one_slots v ! 1 = \<lparr>used = 1, entry = \<lparr>h_key = Blk [65], h_data = Blk v, callback = None, h_flags = 0\<rparr>\<rparr>"
  "one_slots v ! 2 = zero_slot" "one_slots v ! 3 = zero_slot" "one_slots v ! 4 = zero_slot" "one_slots v ! 5 = zero_slot" "length (one_slots v) = 6"
  by (simp_all add: one_slots_def)

lemma one_table_hwf:
  assumes "0 \<notin> set v"
  shows "hwf (one_table v)"
proof -
  have "prime_num 5" by code_simp
  then have sz: "size_ok 5" by (simp add: size_ok_def)
  have z: "used (zero_slot :: unit slot) = 0" by (simp add: zero_slot_def)
  have "slot_ok 5 (one_slots v) 1"
    by (rule slot_ok_home [where k = "[65]" and v = v]; use assms one_slots_nth(1) [of v] in \<open>simp add: hash_letters\<close>)
  moreover have "slot_ok 5 (one_slots v) i" if "i \<in> {2, 3, 4, 5}" for i
    using that one_slots_nth [of v] z unfolding slot_ok_def by auto
  ultimately have "tab_ok 5 (one_slots v)" unfolding tab_ok_def one_to_five using one_slots_nth [of v] z by auto
  moreover have "lives 5 (one_slots v) = {1}" unfolding lives_def one_to_five using one_slots_nth [of v] z by auto
  ultimately show ?thesis using sz by (simp add: hwf_def one_table_def)
qed

lemma one_table_vals:
  assumes "0 \<notin> set v"
  shows "vals (one_table v) k = (if k = [65] then Some v else None)"
proof -
  have "vals (one_table v) k = Some w \<longleftrightarrow> k = [65] \<and> w = v" for w
  proof -
    have z: "used (zero_slot :: unit slot) = 0" by (simp add: zero_slot_def)
    have t: "table (one_table v) = Blk (one_slots v)" "hsize (one_table v) = 5" by (simp_all add: one_table_def)
    show ?thesis
      unfolding vals_pairs [OF t(1) one_table_hwf [OF assms]] t(2) one_to_five using one_slots_nth [of v] z unfolding pair_at_def by (auto simp: zero_slot_def)
  qed
  then show ?thesis by (metis not_None_eq)
qed

section \<open>Theorems\<close>

text \<open>C14 (lib/hashtable.c, \<open>hexport_r\<close> with \<open>*resp == NULL\<close> and \<open>size == 0\<close>; lib/qsort.c). When the keys have seven-bit
  characters, the buffer that is returned holds the selected variables and nothing else, in strictly ascending order of
  their keys, each as the key, \<open>=\<close>, the value with its escapes and the separator, then zeros; the number returned is
  the size of the buffer. If the text is longer than pass 1 computed, pass 2 writes outside of the buffer.\<close>

theorem hexport_sorted_text:
  fixes t :: "'c hsearch_data"
  assumes "hwf t" and "\<And>k. vals t k \<noteq> None \<Longrightarrow> ascii k" and "\<And>a. a \<in> set argv \<Longrightarrow> is_str a"
  shows "\<exists>kvs. sorted_wrt (<) (map fst kvs) \<and> set kvs = {(k, v). vals t k = Some v \<and> selected flag argv k}
    \<and> hexport_r True (Some t) sep flag (Some Null) 0 argv =
      (if length (kv_text sep kvs) \<le> kv_size sep kvs
       then Some (int (kv_size sep kvs + 1), None, Some (Blk (kv_text sep kvs @ replicate (kv_size sep kvs + 1 - length (kv_text sep kvs)) 0)))
       else None)"
proof -
  obtain kvs where kvs: "distinct (map fst kvs)" "set kvs = {(k, v). vals t k = Some v \<and> selected flag argv k}"
    "(\<forall>k\<in>fst ` set kvs. ascii k) \<longrightarrow> sorted (map fst kvs)" "length kvs \<le> unat (filled t)"
    "hexport_r True (Some t) sep flag (Some Null) 0 argv =
      (if length (kv_text sep kvs) \<le> kv_size sep kvs
       then Some (int (kv_size sep kvs + 1), None, Some (Blk (kv_text sep kvs @ replicate (kv_size sep kvs + 1 - length (kv_text sep kvs)) 0)))
       else None)"
    by (rule hexport_pairs [OF assms(1,3), where flag = flag and sep = sep])
  have "\<forall>k\<in>fst ` set kvs. ascii k" using assms(2) kvs(2) by auto
  then have "sorted_wrt (<) (map fst kvs)" using kvs(1,3) by (simp add: strict_sorted_iff)
  then show ?thesis using kvs(2,5) by blast
qed

theorem hexport_sorted_text_witness:
  "\<exists>kvs. sorted_wrt (<) (map fst kvs) \<and> set kvs = {(k, v). vals (one_table [66]) k = Some v \<and> selected 8 [[65]] k}
    \<and> hexport_r True (Some (one_table [66])) 10 8 (Some Null) 0 [[65]] =
      (if length (kv_text 10 kvs) \<le> kv_size 10 kvs
       then Some (int (kv_size 10 kvs + 1), None, Some (Blk (kv_text 10 kvs @ replicate (kv_size 10 kvs + 1 - length (kv_text 10 kvs)) 0)))
       else None)"
  by (rule hexport_sorted_text) (auto simp: one_table_hwf one_table_vals is_str_def ascii_def split: if_splits)

text \<open>C40 (lib/hashtable.c, \<open>hexport_r\<close>). With the separator NUL pass 1 does not count the backslashes that pass 2 puts
  before backslashes: when every value has at least three of them, pass 2 writes past the end of the buffer that was
  allocated.\<close>

theorem hexport_overruns:
  fixes t :: "'c hsearch_data"
  assumes "hwf t" and "vals t k \<noteq> None" and "\<And>k v. vals t k = Some v \<Longrightarrow> is_str v \<and> 2 < count_list v 92"
  shows "hexport_r True (Some t) 0 0 (Some Null) 0 [] = None"
proof -
  obtain kvs where kvs: "set kvs = {(k, v). vals t k = Some v \<and> selected 0 [] k}"
    "hexport_r True (Some t) 0 0 (Some Null) 0 [] =
      (if length (kv_text 0 kvs) \<le> kv_size 0 kvs
       then Some (int (kv_size 0 kvs + 1), None, Some (Blk (kv_text 0 kvs @ replicate (kv_size 0 kvs + 1 - length (kv_text 0 kvs)) 0)))
       else None)"
    by (rule hexport_pairs [OF assms(1), where argv = "[]" and flag = 0 and sep = 0]) simp_all
  have "kvs \<noteq> []" using kvs(1) assms(2) by (auto simp: selected_def)
  moreover have "kv_size 0 kvs + length kvs \<le> length (kv_text 0 kvs)"
    by (rule kv_text_long) (use kvs(1) assms(3) in \<open>auto simp: is_str_def\<close>)
  ultimately have "\<not> length (kv_text 0 kvs) \<le> kv_size 0 kvs" by (cases kvs) simp_all
  then show ?thesis using kvs(2) by simp
qed

theorem hexport_overruns_witness: "hexport_r True (Some (one_table [92, 92, 92])) 0 0 (Some Null) 0 [] = None"
  by (rule hexport_overruns [where k = "[65]"]) (auto simp: one_table_hwf one_table_vals is_str_def split: if_splits)

text \<open>C6 (lib/hashtable.c, \<open>hexport_r\<close> and \<open>himport_r\<close>). With allocations successful and no handlers, a table whose values are not empty, whose keys have no \<open>=\<close>, no
  separator and no blank or \<open>#\<close> at their start, and whose values have, for the separator NUL, at most two backslashes
  each, is exported to a text from which a table with the same variables is imported: into a structure without a table,
  or over an old table that is destroyed. The number of variables is at most the number of entries that \<open>himport_r\<close> asks
  for: 64, or 512 when every variable has at least four characters.\<close>

theorem env_round_trip:
  fixes t t0 :: "'c hsearch_data"
  assumes "hwf t" and "fresh_target flag t0" and "sep \<noteq> 92" and "sep \<noteq> 61"
    and "\<And>k v. vals t k = Some v \<Longrightarrow> line_ok sep (k, v) \<and> (sep = 0 \<longrightarrow> count_list v 92 \<le> 2)"
    and "unat (filled t) \<le> 64 \<or> unat (filled t) \<le> 512 \<and> (\<forall>k v. vals t k = Some v \<longrightarrow> 4 \<le> length k + length v)"
  shows "\<exists>n env e t'. hexport_r True (Some t) sep 0 (Some Null) 0 [] = Some (n, None, Some (Blk env)) \<and> n = int (length env)
    \<and> himport_r True True no_handler ini all_memory (Some t0) env (length env) sep flag [] = Some (1, e, Some t')
    \<and> hwf t' \<and> vals t' = vals t"
proof -
  obtain kvs where kvs: "distinct (map fst kvs)" "set kvs = {(k, v). vals t k = Some v \<and> selected 0 [] k}" "length kvs \<le> unat (filled t)"
    "hexport_r True (Some t) sep 0 (Some Null) 0 [] =
      (if length (kv_text sep kvs) \<le> kv_size sep kvs
       then Some (int (kv_size sep kvs + 1), None, Some (Blk (kv_text sep kvs @ replicate (kv_size sep kvs + 1 - length (kv_text sep kvs)) 0)))
       else None)"
    by (rule hexport_pairs [OF assms(1), where argv = "[]" and flag = 0 and sep = sep]) simp_all
  have st: "set kvs = {(k, v). vals t k = Some v}" using kvs(2) by (simp add: selected_def H_HIDE_DOT_def)
  have ok: "line_ok sep kv" if "kv \<in> set kvs" for kv using that st assms(5) by auto
  have fits: "length (kv_text sep kvs) \<le> kv_size sep kvs"
    by (rule kv_text_fits) (use st assms(5) in \<open>auto simp: line_ok_def\<close>)
  let ?env = "kv_text sep kvs @ replicate (Suc (kv_size sep kvs - length (kv_text sep kvs))) 0"
  have e: "hexport_r True (Some t) sep 0 (Some Null) 0 [] = Some (int (length ?env), None, Some (Blk ?env))"
    using kvs(4) fits by (simp add: Suc_diff_le del: replicate.simps)
  have len: "length ?env = kv_size sep kvs + 1" using fits by simp
  have n: "length kvs \<le> 512" "length kvs \<le> 64 + length ?env div 8"
    using assms(6) kvs(3) kv_size_least [of kvs sep] st unfolding len by auto
  obtain er t' where "himport_r True True no_handler ini all_memory (Some t0) ?env (length ?env) sep flag [] = Some (1, er, Some t')"
      "open_table t'" "vals t' = set_vars kvs (\<lambda>_. None)"
    using himport_lines [OF assms(3,4,2) arg_cong2 [OF kv_text_def refl, of "(@)"] ok n] by blast
  then show ?thesis using e set_vars_vals [OF kvs(1) st] by (metis open_table_def)
qed

theorem env_round_trip_witness:
  "\<exists>n env e t'. hexport_r True (Some (one_table [92, 10])) 10 0 (Some Null) 0 [] = Some (n, None, Some (Blk env)) \<and> n = int (length env)
    \<and> himport_r True True no_handler (\<lambda>_ _. (None, 0)) all_memory (Some full_table) env (length env) 10 0 [] = Some (1, e, Some t')
    \<and> hwf t' \<and> vals t' = vals (one_table [92, 10])"
proof (rule env_round_trip)
  show "fresh_target 0 full_table" using full_table_hwf by (simp add: fresh_target_def) (simp add: full_table_def)
  show "unat (filled (one_table [92, 10])) \<le> 64
      \<or> unat (filled (one_table [92, 10])) \<le> 512 \<and> (\<forall>k v. vals (one_table [92, 10]) k = Some v \<longrightarrow> 4 \<le> length k + length v)"
    by (simp add: one_table_def)
qed (auto simp: one_table_hwf one_table_vals line_ok_def isblank_def split: if_splits)

end
