(* ===== verification/Command_Proofs.thy ===== *)
theory Command_Proofs
  imports Command Env_Proofs
begin

unbundle bit_operations_syntax

text \<open>
  What the command line does, as functions on strings: \<open>words\<close> for the arguments, \<open>expand\<close> for the substitution of
  variables, \<open>tokens\<close> for the separators. The code with its buffers and pointers computes them, truncated to the sizes of
  the buffers.
\<close>

section \<open>Words\<close>

lemma dropWhile_head: "dropWhile P s = c # cs \<Longrightarrow> \<not> P c"
  by (induction s) (auto split: if_splits)

function words :: "mem \<Rightarrow> mem list" where
  "words cs = (let cs = dropWhile isblank cs in
     if cs = [] then [] else takeWhile (\<lambda>c. \<not> isblank c) cs # words (dropWhile (\<lambda>c. \<not> isblank c) cs))"
  by pat_completeness auto
termination
proof (relation "measure length")
  fix cs xs assume x: "xs = dropWhile isblank cs" "xs \<noteq> []"
  obtain y ys where y: "xs = y # ys" using x(2) by (cases xs) simp_all
  then have "\<not> isblank y" using x hd_dropWhile [of isblank cs] by auto
  then have "length (dropWhile (\<lambda>c. \<not> isblank c) xs) \<le> length ys" using y by (simp add: length_dropWhile_le)
  also have "\<dots> < length xs" using y by simp
  also have "\<dots> \<le> length cs" unfolding x(1) by (rule length_dropWhile_le)
  finally show "(dropWhile (\<lambda>c. \<not> isblank c) xs, cs) \<in> measure length" by simp
qed simp

declare words.simps [simp del]

lemma skip_blank_cstr:
  "cstr m a s \<Longrightarrow> skip_blank m a = Some (a + length (takeWhile isblank s))"
proof (induction s arbitrary: a)
  case (Cons c s)
  then show ?case by (auto simp: skip_blank.simps [of m a])
qed (simp add: skip_blank.simps [of m] isblank_def)

lemma word_end_cstr:
  "cstr m a s \<Longrightarrow> word_end m a = Some (a + length (takeWhile (\<lambda>c. \<not> isblank c) s))"
proof (induction s arbitrary: a)
  case (Cons c s)
  then show ?case using cstr_no_nul [OF Cons.prems] by (auto simp: word_end.simps [of m a])
qed (simp add: word_end.simps)

lemma cstr_in_take: "a + length xs < n \<Longrightarrow> cstr (take n m) a xs \<longleftrightarrow> cstr m a xs"
  by (auto simp: cstr_iff drop_take min_def)

lemma words_step:
  assumes "dropWhile isblank s = w @ rest" "w \<noteq> []" "\<forall>c\<in>set w. \<not> isblank c" "rest = [] \<or> isblank (hd rest)"
  shows "words s = w # words rest"
proof -
  have "takeWhile (\<lambda>c. \<not> isblank c) (w @ rest) = w" "dropWhile (\<lambda>c. \<not> isblank c) (w @ rest) = rest"
    using assms(3,4) by (cases rest; simp)+
  then show ?thesis unfolding words.simps [of s] assms(1) using assms(2) by (simp add: Let_def)
qed

lemma parse_args_words:
  assumes "cstr m a s"
  shows "\<exists>m' ps nul. parse_args k m a = Some (m', ps, nul) \<and> length m' = length m \<and> take a m' = take a m
    \<and> read_args m' ps = Some (take k (words s)) \<and> (\<forall>p\<in>set ps. a \<le> p)
    \<and> (nul \<longleftrightarrow> length (words s) < k \<or> length (words s) = k \<and> s \<noteq> [] \<and> \<not> isblank (last s))"
  using assms
proof (induction k arbitrary: m a s)
  case 0
  have "words s = [] \<Longrightarrow> s \<noteq> [] \<Longrightarrow> isblank (last s)" using words.simps [of s] by (auto simp: Let_def split: if_splits)
  then show ?case by auto
next
  case (Suc k)
  let ?b = "length (takeWhile isblank s)"
  define r where "r = dropWhile isblank s"
  have s: "s = takeWhile isblank s @ r" by (simp add: r_def)
  have rd: "r = drop ?b s" unfolding r_def by (simp add: dropWhile_eq_drop)
  have cr: "cstr m (a + ?b) r" unfolding rd by (rule cstr_drop [OF Suc.prems]) (simp add: length_takeWhile_le)
  have sk: "skip_blank m a = Some (a + ?b)" by (rule skip_blank_cstr [OF Suc.prems])
  show ?case
  proof (cases r)
    case Nil
    then have "words s = []" using words.simps [of s] by (simp add: r_def Let_def)
    moreover have "load m (a + ?b) = Some 0" using cr Nil by simp
    ultimately show ?thesis using sk by auto
  next
    case (Cons c cs)
    have ls: "last s = last r" using s Cons by (metis last_appendR list.distinct(1))
    have nb: "\<not> isblank c" using dropWhile_head Cons unfolding r_def by metis
    have c0: "load m (a + ?b) = Some c" "c \<noteq> 0" using cr Cons by auto
    define w where "w = takeWhile (\<lambda>c. \<not> isblank c) r"
    define q where "q = dropWhile (\<lambda>c. \<not> isblank c) r"
    have rq: "r = w @ q" by (simp add: w_def q_def)
    have w: "w \<noteq> []" "\<forall>c\<in>set w. \<not> isblank c" using nb Cons by (auto simp: w_def dest: set_takeWhileD)
    have qb: "q = [] \<or> isblank (hd q)" using hd_dropWhile [of "\<lambda>c. \<not> isblank c" r] by (auto simp: q_def)
    have ws: "words s = w # words q" by (rule words_step [OF _ w qb]) (use rq r_def in simp)
    let ?e = "a + ?b + length w"
    have we: "word_end m (a + ?b) = Some ?e" unfolding w_def by (rule word_end_cstr [OF cr])
    have cq: "cstr m ?e q" using cstr_drop [OF cr, of "length w"] rq by simp
    have no: "0 \<notin> set w" using cstr_no_nul [OF cr] rq by simp
    have "take (length r) (drop (a + ?b) m) = r" using cr by (simp add: cstr_iff)
    from arg_cong [OF this, of "take (length w)"] have tw: "take (length w) (drop (a + ?b) m) = w" "?e < length m"
      using rq cstr_bound [OF cq] by simp_all
    show ?thesis
    proof (cases q)
      case Nil
      then have le: "load m ?e = Some 0" using cq by simp
      have "cstr m (a + ?b) w" using cr rq Nil by simp
      then have "read_str m (a + ?b) = Some w" by (rule read_cstr)
      moreover have "last s = last w" using ls rq Nil by simp
      moreover have "words q = []" using Nil words.simps [of "[]"] by simp
      ultimately show ?thesis using sk c0 we le ws s w rq last_in_set [OF w(1)] by (cases k) auto
    next
      case (Cons d ds)
      have le: "load m ?e = Some d" "d \<noteq> 0" "isblank d" using cq qb Cons by auto
      define m1 where "m1 = m[?e := 0]"
      have st: "store m ?e 0 = Some m1" using tw(2) by (simp add: store_Some m1_def)
      have "cstr m (?e + 1) ds" using cstr_drop [OF cq, of 1] Cons by simp
      then have cd: "cstr m1 (?e + 1) ds" by (simp add: m1_def)
      have wd: "words q = words ds" using le(3) Cons words.simps [of q] words.simps [of ds] by simp
      obtain m' ps nul where m': "parse_args k m1 (?e + 1) = Some (m', ps, nul)" "length m' = length m1" "take (?e + 1) m' = take (?e + 1) m1"
          "read_args m' ps = Some (take k (words ds))" "\<forall>p\<in>set ps. ?e + 1 \<le> p"
          "nul \<longleftrightarrow> length (words ds) < k \<or> length (words ds) = k \<and> ds \<noteq> [] \<and> \<not> isblank (last ds)"
        using Suc.IH [OF cd] by blast
      have "cstr m1 (a + ?b) w" using tw no by (auto simp: cstr_iff m1_def drop_update_swap)
      then have "cstr m' (a + ?b) w" using cstr_in_take [of "a + ?b" w "?e + 1"] m'(3) by (metis less_add_one)
      then have rd: "read_str m' (a + ?b) = Some w" by (rule read_cstr)
      have "take a m' = take a m" using arg_cong [OF m'(3), of "take a"] by (simp add: m1_def min_def)
      moreover have "isblank (last s)" if "ds = []" using that ls rq Cons le(3) by simp
      moreover have "last s = last ds" if "ds \<noteq> []" using that ls rq Cons by simp
      ultimately have lb: "ds \<noteq> [] \<and> \<not> isblank (last ds) \<longleftrightarrow> s \<noteq> [] \<and> \<not> isblank (last s)" "take a m' = take a m"
        using s \<open>r = c # cs\<close> by (cases "ds = []"; auto)+
      show ?thesis using sk c0 we le st m' rd ws wd lb by (auto simp: m1_def)
    qed
  qed
qed

section \<open>Variables\<close>

datatype mode = Plain | Dollar | Name mem | Quoted

definition advance :: "(mem \<Rightarrow> mem) \<Rightarrow> mode \<Rightarrow> byte \<Rightarrow> mem \<Rightarrow> byte \<Rightarrow> mem \<times> mode" where
  "advance g md prev e c =
     (case md of
        Plain \<Rightarrow> if c = 39 \<and> prev \<noteq> 92 then ([], Quoted) else if c = 36 \<and> prev \<noteq> 92 then ([], Dollar) else ([c], Plain)
      | Dollar \<Rightarrow> if c = 40 \<or> c = 123 then ([], Name []) else ([36, c], Plain)
      | Name nm \<Rightarrow> if c = 41 \<or> c = 125 then (g (nm @ e), Plain) else ([], Name (nm @ e @ [c]))
      | Quoted \<Rightarrow> if c = 39 \<and> prev \<noteq> 92 then ([], Plain) else ([c], Quoted))"

text \<open>The text that a string stands for: \<open>$\<close> with a name in brackets is its value, quotes and a level of backslashes go.\<close>

fun expand :: "(mem \<Rightarrow> mem) \<Rightarrow> mode \<Rightarrow> byte \<Rightarrow> mem \<Rightarrow> mem" where
  "expand g md prev [] = []"
| "expand g md prev [c] =
     (if md \<noteq> Quoted \<and> c = 92 \<and> prev \<noteq> 92 then [] else fst (advance g md prev [] c))"
| "expand g md prev (c # d # cs) =
     (if md \<noteq> Quoted \<and> c = 92 \<and> prev \<noteq> 92
      then fst (advance g md 92 [92] d) @ expand g (snd (advance g md 92 [92] d)) d cs
      else fst (advance g md prev [] c) @ expand g (snd (advance g md prev [] c)) c (d # cs))"

definition out_ok :: "mem \<times> nat \<times> nat \<Rightarrow> bool" where
  "out_ok o' \<longleftrightarrow> length (fst o') = CONFIG_SYS_CBSIZE \<and> fst (snd o') + snd (snd o') = CONFIG_SYS_CBSIZE"

definition written :: "mem \<times> nat \<times> nat \<Rightarrow> mem" where
  "written o' = take (fst (snd o')) (fst o')"

lemma put_char_spec:
  assumes "out_ok w" and "snd (snd w) \<noteq> 0"
  obtains w' where "put_char c w = Some w'" "out_ok w'" "written w' = written w @ [c]"
proof -
  obtain res p n where w: "w = (res, p, n)" by (cases w)
  have "p < length res" using assms w by (simp add: out_ok_def)
  then show thesis using that [of "(res[p := c], p + 1, n - 1)"] assms w
    by (simp add: put_char_def store_Some out_ok_def written_def take_Suc_conv_app_nth)
qed

lemma put_value_spec:
  "out_ok (res, p, n) \<Longrightarrow> 0 \<notin> set v \<Longrightarrow> \<exists>w'. put_value v res p n = Some w' \<and> out_ok w' \<and> written w' = take CONFIG_SYS_CBSIZE (written (res, p, n) @ v)"
proof (induction v arbitrary: res p n)
  case Nil
  then show ?case by (simp add: out_ok_def written_def)
next
  case (Cons c v)
  show ?case
  proof (cases "n = 0")
    case True
    then show ?thesis using Cons.prems by (simp add: out_ok_def written_def)
  next
    case False
    then have p: "p < length res" using Cons.prems by (simp add: out_ok_def)
    have "out_ok (res[p := c], p + 1, n - 1)" using Cons.prems False by (simp add: out_ok_def)
    then obtain w' where "put_value v (res[p := c]) (p + 1) (n - 1) = Some w'" "out_ok w'"
        "written w' = take CONFIG_SYS_CBSIZE (written (res[p := c], p + 1, n - 1) @ v)"
      using Cons.IH [of "res[p := c]" "p + 1" "n - 1"] Cons.prems by auto
    then show ?thesis using p Cons.prems(2) False by (auto simp: store_Some written_def take_Suc_conv_app_nth)
  qed
qed

lemma length_written: "out_ok w \<Longrightarrow> length (written w) = CONFIG_SYS_CBSIZE - snd (snd w)"
  by (auto simp: out_ok_def written_def)

lemma macro_value_spec:
  assumes "take k (drop vs m) = nm" "length nm = k" "k < CONFIG_SYS_CBSIZE" "0 \<notin> set nm" "vs \<le> length m"
  shows "macro_value genv m vs k = genv nm"
proof -
  let ?N = CONFIG_SYS_CBSIZE
  have "k \<le> length m - vs" using assms(1,2) by auto
  then have c: "copy_bytes (replicate ?N 0) 0 m vs k = Some (nm @ replicate (?N - k) 0)"
    using assms by (cases "k = 0") (auto simp: copy_bytes_def)
  have r: "replicate (?N - k) 0 = (0 :: byte) # replicate (?N - k - 1) 0" using assms(3) by (cases "?N - k") simp_all
  have s: "store (nm @ replicate (?N - k) 0) k 0 = Some (nm @ replicate (?N - k) 0)"
    unfolding r using assms(2) by (simp add: store_Some list_update_append)
  have "cstr (nm @ replicate (?N - k) 0) 0 nm" unfolding r using assms(2,4) by (auto simp: cstr_iff nth_append)
  then show ?thesis unfolding macro_value_def c using s by (simp add: read_cstr)
qed

text \<open>The number of the state and \<open>varname_start\<close> stand for the mode; \<open>i\<close> is the position in the input.\<close>

definition mode_rel :: "mem \<Rightarrow> nat \<Rightarrow> mode \<Rightarrow> nat \<Rightarrow> nat \<Rightarrow> bool" where
  "mode_rel m i md state vs =
     (case md of Plain \<Rightarrow> state = 0 | Dollar \<Rightarrow> state = 1 | Quoted \<Rightarrow> state = 3
      | Name nm \<Rightarrow> state = 2 \<and> vs \<le> i \<and> i \<le> length m \<and> take (i - vs) (drop vs m) = nm \<and> 0 \<notin> set nm)"

definition name_len :: "mode \<Rightarrow> nat" where
  "name_len md = (case md of Name nm \<Rightarrow> length nm | _ \<Rightarrow> 0)"

text \<open>\<open>genv\<close> answers with a value of \<open>f\<close>, which has strings only.\<close>

definition env_ok :: "(mem \<Rightarrow> mem option option) \<Rightarrow> (mem \<Rightarrow> mem option) \<Rightarrow> bool" where
  "env_ok genv f \<longleftrightarrow> (\<forall>nm. is_str nm \<longrightarrow> genv nm = Some (f nm)) \<and> (\<forall>nm v. f nm = Some v \<longrightarrow> is_str v)"

lemma env_okD: "env_ok genv f \<Longrightarrow> is_str nm \<Longrightarrow> genv nm = Some (f nm)" "env_ok genv f \<Longrightarrow> f nm = Some v \<Longrightarrow> is_str v"
  by (simp_all add: env_ok_def)

definition env_value :: "(mem \<Rightarrow> mem option) \<Rightarrow> mem \<Rightarrow> mem" where
  "env_value f nm = (case f nm of None \<Rightarrow> [] | Some v \<Rightarrow> v)"

lemma take_slice: "vs \<le> i \<Longrightarrow> drop i m = xs @ rest \<Longrightarrow> take (i - vs + length xs) (drop vs m) = take (i - vs) (drop vs m) @ xs"
  unfolding take_add by simp

lemma macro_switch_spec:
  assumes ok: "out_ok w" "snd (snd w) \<noteq> 0" and md: "mode_rel m i md state vs" and raw: "drop i m = e @ c # rest" "0 \<notin> set (e @ [c])"
    and len: "name_len md + length e < CONFIG_SYS_CBSIZE"
    and env: "env_ok genv f"
  shows "\<exists>state' vs' w'. macro_switch genv m (i + length e + 1) c prev state vs w = Some (state', vs', w') \<and> out_ok w'
    \<and> written w' = take CONFIG_SYS_CBSIZE (written w @ fst (advance (env_value f) md prev e c))
    \<and> mode_rel m (i + length e + 1) (snd (advance (env_value f) md prev e c)) state' vs'"
proof -
  have im: "i + length e + 1 \<le> length m" using arg_cong [OF raw(1), of length] by simp
  have short: "length (written w @ [x]) \<le> CONFIG_SYS_CBSIZE" for x using length_written [OF ok(1)] ok by (auto simp: out_ok_def)
  have id: "take CONFIG_SYS_CBSIZE (written w) = written w" "take CONFIG_SYS_CBSIZE (written w @ [x]) = written w @ [x]" for x
    using short [of x] by simp_all
  obtain w1 where w1: "put_char c w = Some w1" "out_ok w1" "written w1 = written w @ [c]" using put_char_spec [OF ok] by blast
  show ?thesis
  proof (cases md)
    case Plain
    then show ?thesis using md ok w1 id by (auto simp: macro_switch_def advance_def mode_rel_def simp del: split_paired_Ex)
  next
    case Quoted
    then show ?thesis using md ok w1 id by (auto simp: macro_switch_def advance_def mode_rel_def simp del: split_paired_Ex)
  next
    case Dollar
    obtain w2 where w2: "put_char 36 w = Some w2" "out_ok w2" "written w2 = written w @ [36]" using put_char_spec [OF ok] by blast
    have "\<exists>w3. (if snd (snd w2) \<noteq> 0 then put_char c w2 else Some w2) = Some w3 \<and> out_ok w3
        \<and> written w3 = take CONFIG_SYS_CBSIZE (written w @ [36, c])"
    proof (cases "snd (snd w2) = 0")
      case True
      then have "length (written w @ [36]) = CONFIG_SYS_CBSIZE" using length_written [OF w2(2)] w2(3) by simp
      then have "take CONFIG_SYS_CBSIZE ((written w @ [36]) @ [c]) = written w @ [36]" by (metis append_eq_conv_conj)
      then show ?thesis using True w2 by simp
    next
      case False
      then obtain w3 where w3: "put_char c w2 = Some w3" "out_ok w3" "written w3 = written w2 @ [c]" using put_char_spec [OF w2(2)] by blast
      then have "length (written w2 @ [c]) \<le> CONFIG_SYS_CBSIZE" using length_written [OF w3(2)] by simp
      then show ?thesis using False w3 w2(3) by simp
    qed
    then show ?thesis using Dollar md ok w2(1) id im by (auto simp: macro_switch_def advance_def mode_rel_def simp del: split_paired_Ex)
  next
    case (Name nm)
    have n: "state = 2" "vs \<le> i" "take (i - vs) (drop vs m) = nm" "0 \<notin> set nm" "i \<le> length m" using md Name by (simp_all add: mode_rel_def)
    have sl: "take (i - vs + length e) (drop vs m) = nm @ e" using take_slice [OF n(2) raw(1)] n(3) by simp
    have sl1: "take (i - vs + length (e @ [c])) (drop vs m) = nm @ e @ [c]" using take_slice [OF n(2), of m "e @ [c]" rest] raw(1) n(3) by simp
    have ln: "length (nm @ e) = i - vs + length e" using arg_cong [OF n(3), of length] n(2,5) by simp
    have "i + length e + 1 - vs - 1 = i - vs + length e" using n(2) by simp
    then have mv: "macro_value genv m vs (i + length e + 1 - vs - 1) = Some (f (nm @ e))"
      using macro_value_spec [OF sl ln, of genv] len Name ln n raw(2) env_okD(1) [OF env, of "nm @ e"] by (simp add: name_len_def is_str_def)
    obtain w2 where w2: "(case f (nm @ e) of None \<Rightarrow> Some w | Some envval \<Rightarrow> (case w of (res, p, outputcnt) \<Rightarrow> put_value envval res p outputcnt)) = Some w2"
        "out_ok w2" "written w2 = take CONFIG_SYS_CBSIZE (written w @ env_value f (nm @ e))"
    proof (cases "f (nm @ e)")
      case None
      then show thesis using that [of w] ok id by (simp add: env_value_def)
    next
      case (Some v)
      obtain res p k where "w = (res, p, k)" by (cases w)
      then show thesis using that put_value_spec [of res p k v] ok(1) env_okD(2) [OF env Some] Some by (auto simp: env_value_def is_str_def)
    qed
    have "i + length e + 1 - vs = i - vs + length (e @ [c])" using n(2) by simp
    then show ?thesis using Name n sl1 mv w2 im raw(2) ok id by (auto simp: macro_switch_def advance_def mode_rel_def simp del: split_paired_Ex)
  qed
qed

lemma take_take_append: "take n (take n xs @ ys) = take n (xs @ ys)"
  by (cases "n \<le> length xs") simp_all

lemma advance_name_len: "name_len (snd (advance g md prev e c)) \<le> name_len md + length e + 1"
  by (auto simp: advance_def name_len_def split: mode.splits)

lemma cstr_drop_eq: "cstr m i cs \<Longrightarrow> \<exists>rest. drop i m = cs @ 0 # rest"
proof -
  assume c: "cstr m i cs"
  have "drop i m = take (length cs) (drop i m) @ drop (length cs) (drop i m)" by (simp only: append_take_drop_id)
  moreover have "drop (length cs) (drop i m) = m ! (i + length cs) # drop (i + length cs + 1) m"
    using cstr_bound [OF c] by (simp add: Cons_nth_drop_Suc add.commute)
  ultimately show ?thesis using c unfolding cstr_iff by metis
qed

lemma macro_loop_spec:
  fixes m :: mem
  assumes env: "env_ok genv f"
  shows "cstr m i cs \<Longrightarrow> out_ok w \<Longrightarrow> mode_rel m i md state vs \<Longrightarrow> name_len md + length cs < CONFIG_SYS_CBSIZE
    \<Longrightarrow> \<exists>w'. macro_loop genv m i (length cs) prev state vs w = Some w' \<and> out_ok w'
      \<and> written w' = take CONFIG_SYS_CBSIZE (written w @ expand (env_value f) md prev cs)"
proof (induction "length cs" arbitrary: i cs w md state vs prev rule: less_induct)
  case less
  note st = macro_loop.simps [of genv m i "length cs" prev state vs w]
  have q: "state = 3 \<longleftrightarrow> md = Quoted" using less.prems(3) by (cases md) (auto simp: mode_rel_def)
  obtain rest where dr: "drop i m = cs @ 0 # rest" using cstr_drop_eq [OF less.prems(1)] by blast
  have nz: "0 \<notin> set cs" by (rule cstr_no_nul [OF less.prems(1)])
  have more: "\<exists>w'. do { (state, vs, w) \<leftarrow> macro_switch genv m (i + length e + 1) c pv state vs w;
        macro_loop genv m (i + length e + 1) (length ds) c state vs w } = Some w' \<and> out_ok w'
      \<and> written w' = take CONFIG_SYS_CBSIZE (written w @ fst (advance (env_value f) md pv e c) @ expand (env_value f) (snd (advance (env_value f) md pv e c)) c ds)"
    if cs: "cs = e @ c # ds" and n: "snd (snd w) \<noteq> 0" for e c ds pv
  proof -
    have le: "name_len md + length e < CONFIG_SYS_CBSIZE" using less.prems(4) cs by simp
    have d: "drop i m = e @ c # ds @ 0 # rest" "0 \<notin> set (e @ [c])" using dr nz cs by simp_all
    obtain state' vs' w1 where w1: "macro_switch genv m (i + length e + 1) c pv state vs w = Some (state', vs', w1)" "out_ok w1"
        "written w1 = take CONFIG_SYS_CBSIZE (written w @ fst (advance (env_value f) md pv e c))"
        "mode_rel m (i + length e + 1) (snd (advance (env_value f) md pv e c)) state' vs'"
      using macro_switch_spec [OF less.prems(2) n less.prems(3) d le env, of pv] by blast
    have cd: "cstr m (i + length e + 1) ds" using cstr_drop [OF less.prems(1), of "length e + 1"] cs by simp
    have nl: "name_len (snd (advance (env_value f) md pv e c)) + length ds < CONFIG_SYS_CBSIZE"
      using advance_name_len [of "env_value f" md pv e c] less.prems(4) cs by simp
    have "length ds < length cs" using cs by simp
    from less.hyps [OF this cd w1(2,4) nl, of c] obtain w2 where w2: "macro_loop genv m (i + length e + 1) (length ds) c state' vs' w1 = Some w2"
        "out_ok w2" "written w2 = take CONFIG_SYS_CBSIZE (written w1 @ expand (env_value f) (snd (advance (env_value f) md pv e c)) c ds)" by blast
    have "written w2 = take CONFIG_SYS_CBSIZE (written w @ fst (advance (env_value f) md pv e c) @ expand (env_value f) (snd (advance (env_value f) md pv e c)) c ds)"
      unfolding w2(3) w1(3) by (simp only: take_take_append append_assoc)
    then show ?thesis using w1(1) w2(1,2) by (simp del: take_append)
  qed
  show ?case
  proof (cases "snd (snd w) = 0")
    case True
    then have "length (written w) = CONFIG_SYS_CBSIZE" using length_written [OF less.prems(2)] by simp
    then show ?thesis using st True less.prems(2) by simp
  next
    case n: False
    show ?thesis
    proof (cases cs)
      case Nil
      have "length (written w) \<le> CONFIG_SYS_CBSIZE" using length_written [OF less.prems(2)] by simp
      then show ?thesis using st Nil less.prems(2) by simp
    next
      case (Cons c ds)
      have lc: "load m i = Some c" using dr Cons by (intro load_at) simp
      show ?thesis
      proof (cases "md \<noteq> Quoted \<and> c = 92 \<and> prev \<noteq> 92")
        case esc: True
        show ?thesis
        proof (cases ds)
          case Nil
          have "length (written w) \<le> CONFIG_SYS_CBSIZE" using length_written [OF less.prems(2)] by simp
          then show ?thesis using st n lc esc q Cons Nil less.prems(2) by simp
        next
          case (Cons d dds)
          have "load m (i + 1) = Some d" using drop_at [of i m "[c]"] dr \<open>cs = c # ds\<close> Cons by (intro load_at) simp
          then show ?thesis using st n lc esc q \<open>cs = c # ds\<close> Cons more [of "[92]" d dds 92] by simp
        qed
      next
        case False
        then show ?thesis using st n lc q Cons more [of "[]" c ds prev] by (cases ds) auto
      qed
    qed
  qed
qed

lemma advance_str:
  assumes "c \<noteq> 0" and "\<And>nm. 0 \<notin> set (g nm)"
  shows "0 \<notin> set (fst (advance g md prev e c))"
  using assms by (auto simp: advance_def split: mode.splits)

lemma expand_str: "0 \<notin> set cs \<Longrightarrow> (\<And>nm. 0 \<notin> set (g nm)) \<Longrightarrow> 0 \<notin> set (expand g md prev cs)"
proof (induction g md prev cs rule: expand.induct)
  case (3 g md prev c d cs)
  have "0 \<notin> set (fst (advance g md 92 [92] d))" "0 \<notin> set (fst (advance g md prev [] c))"
    by (rule advance_str; use 3 in simp)+
  then show ?case using 3 by auto
next
  case (2 g md prev c)
  have "0 \<notin> set (fst (advance g md prev [] c))" by (rule advance_str; use 2 in simp)
  then show ?case by simp
qed simp

lemma process_macros_spec:
  assumes env: "env_ok genv f"
    and t: "cstr m a t" "length t < CONFIG_SYS_CBSIZE" and res: "length res = CONFIG_SYS_CBSIZE"
  shows "\<exists>res'. process_macros genv m a res = Some res' \<and> length res' = CONFIG_SYS_CBSIZE
    \<and> cstr res' 0 (take (CONFIG_SYS_CBSIZE - 1) (expand (env_value f) Plain 0 t))"
proof -
  let ?E = "expand (env_value f) Plain 0 t" and ?N = CONFIG_SYS_CBSIZE
  have N: "0 < ?N" by (simp add: CONFIG_SYS_CBSIZE_def)
  have str: "0 \<notin> set ?E"
    by (rule expand_str) (use env_okD(2) [OF env] cstr_no_nul [OF t(1)] in \<open>auto simp: env_value_def is_str_def split: option.splits\<close>)
  have "out_ok (res, 0, ?N)" "mode_rel m a Plain 0 0" "name_len Plain + length t < ?N"
    using res t(2) by (simp_all add: out_ok_def mode_rel_def name_len_def)
  from macro_loop_spec [OF env t(1) this, where prev = 0] obtain r p n where w: "macro_loop genv m a (length t) 0 0 0 (res, 0, ?N) = Some (r, p, n)"
      "out_ok (r, p, n)" "written (r, p, n) = take ?N ?E" by (auto simp: written_def)
  have r: "length r = ?N" "p + n = ?N" "take p r = take ?N ?E" using w(2,3) by (simp_all add: out_ok_def written_def)
  have pm: "process_macros genv m a res = (if n \<noteq> 0 then store r p 0 else store r (p - 1) 0)"
    using w(1) strlen_cstr [OF t(1)] by (simp add: process_macros_def)
  have lp: "length (take ?N ?E) = p" using arg_cong [OF r(3), of length] r(1,2) by simp
  show ?thesis
  proof (cases "n = 0")
    case False
    then have "length ?E = p" "p < ?N" using lp r(2) by auto
    then have "store r p 0 = Some (r[p := 0])" "cstr (r[p := 0]) 0 (take (?N - 1) ?E)"
      using r str by (auto simp: store_Some cstr_iff)
    then show ?thesis using pm False r(1) by simp
  next
    case True
    then have p: "p = ?N" "?N \<le> length ?E" using lp r(2) by auto
    have tk: "take (?N - 1) r = take (?N - 1) ?E" using arg_cong [OF r(3), of "take (?N - 1)"] p r(1) by simp
    have "store r (p - 1) 0 = Some (r[p - 1 := 0])" using p N r(1) by (simp add: store_Some)
    moreover have "cstr (r[p - 1 := 0]) 0 (take (?N - 1) ?E)"
      using p N r(1) tk str by (auto simp: cstr_iff min_def dest: in_set_takeD)
    ultimately show ?thesis using pm True r(1) by simp
  qed
qed

section \<open>Separators\<close>

text \<open>The length of the first command of a line: \<open>p\<close> is the character before, \<open>f\<close> says that it is the first, \<open>q\<close> that a quote is open.\<close>

fun token_len :: "byte \<Rightarrow> bool \<Rightarrow> bool \<Rightarrow> mem \<Rightarrow> nat" where
  "token_len p f q [] = 0"
| "token_len p f q (c # cs) =
     (let q = (if c = 39 \<and> p \<noteq> 92 then \<not> q else q) in
      if \<not> q \<and> c = 59 \<and> \<not> f \<and> p \<noteq> 92 then 0 else Suc (token_len c False q cs))"

lemma token_len_le: "token_len p f q cs \<le> length cs"
  by (induction p f q cs rule: token_len.induct) (auto simp: Let_def)

function tokens :: "mem \<Rightarrow> mem list" where
  "tokens cs = (if cs = [] then [] else take (token_len 0 True False cs) cs # tokens (drop (Suc (token_len 0 True False cs)) cs))"
  by pat_completeness auto
termination
  by (relation "measure length") auto

declare tokens.simps [simp del]

lemma find_sep_spec:
  "cstr m a cs \<Longrightarrow> (a = 0 \<longrightarrow> cs = [] \<or> hd cs \<noteq> 39) \<Longrightarrow> (0 < a \<longrightarrow> load m (a - 1) = Some p) \<Longrightarrow> str \<le> a
    \<Longrightarrow> find_sep m str a q = Some (a + token_len p (a = str) q cs)"
proof (induction cs arbitrary: a p q)
  case Nil
  then show ?case by (simp add: find_sep.simps [of m])
next
  case (Cons c cs)
  have c: "load m a = Some c" "c \<noteq> 0" "cstr m (a + 1) cs" using Cons.prems(1) by auto
  have "find_sep m str (a + 1) q' = Some (a + 1 + token_len c False q' cs)" for q'
    using Cons.IH [of "a + 1" c q'] c Cons.prems(4) by simp
  then show ?case
    using c Cons.prems(2-4) unfolding find_sep.simps [of m str a q] by (cases "a = 0") (auto simp: Let_def)
qed

lemma find_sep_quote: "load m 0 = Some 39 \<Longrightarrow> find_sep m 0 0 q = None"
  by (simp add: find_sep.simps [of m])

section \<open>Finding a command\<close>

lemma strncmp_take:
  "cstr m a xs \<Longrightarrow> cstr m b ys \<Longrightarrow> n \<le> length xs \<Longrightarrow> \<exists>r. strncmp m a b n = Some r \<and> (r = 0 \<longleftrightarrow> prefix (take n xs) ys)"
proof (induction xs arbitrary: a b ys n)
  case (Cons x xs)
  show ?case
  proof (cases n)
    case (Suc k)
    show ?thesis
    proof (cases ys)
      case Nil
      then show ?thesis using Cons.prems sint_diff_zero [of x 0] Suc by auto
    next
      case (Cons y ys')
      then show ?thesis using Cons.prems Cons.IH [of "a + 1" "b + 1" ys' k] sint_diff_zero [of x y] Suc by auto
    qed
  qed simp
qed simp

lemma str_starts_take:
  "0 \<notin> set c \<Longrightarrow> 0 \<notin> set k \<Longrightarrow> n \<le> length c \<Longrightarrow> str_starts n c k = Some (prefix (take n c) k)"
  using strncmp_take [OF cstr_first [of c "k @ [0]"] cstr_second [of k c], of n] by (auto simp: str_starts_def)

lemma prefix_length_eq: "prefix xs ys \<Longrightarrow> length xs = length ys \<Longrightarrow> ys = xs"
  by (auto simp: prefix_def)

lemma find_loop_spec:
  assumes c: "is_str c" "n \<le> length c" and tbl: "\<And>t. t \<in> set ts \<Longrightarrow> is_str (cmd_name t)"
  shows "find_loop c n ts tmp k = Some (case List.find (\<lambda>t. cmd_name t = take n c) ts of Some t \<Rightarrow> Some t
    | None \<Rightarrow> let hits = filter (\<lambda>t. prefix (take n c) (cmd_name t)) ts in
        if k + length hits = 1 then if hits = [] then tmp else Some (last hits) else None)"
  using tbl
proof (induction ts arbitrary: tmp k)
  case (Cons t ts)
  have st: "str_starts n c (cmd_name t) = Some (prefix (take n c) (cmd_name t))" "strlen (cmd_name t @ [0]) 0 = Some (length (cmd_name t))"
    using str_starts_take [of c "cmd_name t" n] strlen_str [of "cmd_name t"] c Cons.prems [of t] by (simp_all add: is_str_def)
  have eq: "n = length (cmd_name t) \<longleftrightarrow> cmd_name t = take n c" if "prefix (take n c) (cmd_name t)"
    using that c(2) prefix_length_eq [of "take n c" "cmd_name t"] by auto
  have ne: "\<not> prefix (take n c) (cmd_name t) \<Longrightarrow> cmd_name t \<noteq> take n c" by auto
  note IH = Cons.IH [OF Cons.prems [OF list.set_intros(2)]]
  show ?case
  proof (cases "prefix (take n c) (cmd_name t)")
    case True
    then show ?thesis using st eq IH [of "Some t" "k + 1"] by (auto simp: Let_def split: option.splits)
  next
    case False
    then show ?thesis using st ne IH [of tmp k] by (auto simp: Let_def split: option.splits)
  qed
qed (simp add: Let_def)

lemma strchr_dot: "is_str c \<Longrightarrow> strchr (c @ [0]) 0 46 = Some (if 46 \<in> set c then Some (length (takeWhile (\<lambda>x. x \<noteq> 46) c)) else None)"
  using strchr_cstr [OF cstr_first [of c "[]"], of 46] by (auto simp: is_str_def takeWhile_tail)

section \<open>Running a line\<close>

lemma read_args_length: "read_args m ps = Some as \<Longrightarrow> length as = length ps"
  by (induction ps arbitrary: as) (auto simp: bind_eq_Some_conv)

lemma getenv_vals:
  assumes "searchable t" "is_str nm"
  shows "getenv t nm = Some (vals t nm)"
proof -
  obtain T where T: "table t = Blk T" "tab_ok (hsize t) T" using assms(1) by (rule searchableE)
  show ?thesis
    using find_spec [OF assms(1), of nm "\<lambda>_ _ _ _ _. False" "\<lambda>_ _. (None, 0)" True True None 0] assms(2) T tab_ok_length [OF T(2)]
    by (cases "vals t nm") (auto simp: getenv_def is_str_def slot_holds_def load_Some)
qed

lemma vals_str:
  assumes "searchable t" "vals t k = Some v"
  shows "is_str v"
proof -
  obtain T where T: "table t = Blk T" "tab_ok (hsize t) T" using assms(1) by (rule searchableE)
  then show ?thesis
  proof (cases rule: vals_cases [where k = k])
    case (present i w)
    then show ?thesis using at_keyE [OF T(2) present(3,2)] assms(2) by (auto simp: is_str_def)
  qed (use assms(2) in simp)
qed

lemma getenv_ok: "searchable t \<Longrightarrow> env_ok (getenv t) (vals t)"
  using getenv_vals [of t] vals_str [of t] by (auto simp: env_ok_def)

text \<open>The arguments of a command in a state, and what a list of commands does.\<close>

definition args_of :: "('c, 'w) monitor \<Rightarrow> mem \<Rightarrow> mem list" where
  "args_of s t = take CONFIG_SYS_MAXARGS (words (take (CONFIG_SYS_CBSIZE - 1) (expand (env_value (vals (env_htab s))) Plain 0 t)))"

fun run_spec :: "('c, 'w) cmd_tbl_s list \<Rightarrow> int \<Rightarrow> mem list \<Rightarrow> int \<Rightarrow> int \<Rightarrow> ('c, 'w) monitor \<Rightarrow> (int \<times> ('c, 'w) monitor) option" where
  "run_spec tbl flag [] rc rep s = Some (if rc \<noteq> 0 then rc else rep, s)"
| "run_spec tbl flag (t # ts) rc rep s =
     (if args_of s t = [] then run_spec tbl flag ts (-1) rep s
      else do { (r, rep, s) \<leftarrow> cmd_process tbl flag (args_of s t) rep s;
                if ctrlc_was_pressed s then Some (-1, s) else run_spec tbl flag ts (if r \<noteq> 0 then -1 else rc) rep s })"

text \<open>The commands leave a table that can be searched. The counter of its entries may be wrong.\<close>

definition keeps_env :: "('c, 'w) cmd_tbl_s list \<Rightarrow> bool" where
  "keeps_env tbl \<longleftrightarrow> (\<forall>t\<in>set tbl. \<forall>fl argv s r s'. searchable (env_htab s) \<longrightarrow> (\<forall>a\<in>set argv. is_str a)
     \<longrightarrow> cmd t fl argv s = Some (r, s') \<longrightarrow> searchable (env_htab s'))"

lemma words_set: "w \<in> set (words s) \<Longrightarrow> set w \<subseteq> set s"
proof (induction s rule: words.induct)
  case (1 s)
  then show ?case unfolding words.simps [of s] by (auto simp: Let_def split: if_splits dest!: set_takeWhileD set_dropWhileD)
qed

lemma args_of_str:
  assumes "searchable (env_htab s)" "0 \<notin> set t" "a \<in> set (args_of s t)"
  shows "is_str a"
proof -
  have "0 \<notin> set (env_value (vals (env_htab s)) nm)" for nm
    using vals_str [OF assms(1), of nm] by (auto simp: env_value_def is_str_def split: option.splits)
  then have "0 \<notin> set (expand (env_value (vals (env_htab s))) Plain 0 t)" using expand_str [OF assms(2)] by blast
  then show ?thesis using assms(3) unfolding args_of_def is_str_def by (auto dest!: in_set_takeD words_set)
qed

lemma find_loop_mem: "find_loop c n ts tmp k = Some (Some t) \<Longrightarrow> t \<in> set ts \<or> tmp = Some t"
  by (induction ts arbitrary: tmp k) (auto simp: bind_eq_Some_conv split: if_splits)

lemma cmd_process_keeps:
  assumes "keeps_env tbl" "searchable (env_htab s)" "\<forall>a\<in>set argv. is_str a" "cmd_process tbl flag argv rep s = Some (r, rep', s')"
  shows "searchable (env_htab s')"
proof -
  obtain name found where f: "load argv 0 = Some name" "find_cmd_tbl (Some name) tbl = Some found"
    using assms(4) by (auto simp: cmd_process_def bind_eq_Some_conv)
  show ?thesis
  proof (cases found)
    case None
    then show ?thesis using f assms(2,4) by (simp add: cmd_process_def)
  next
    case (Some t)
    then have "t \<in> set tbl" using f(2) find_loop_mem [of _ _ tbl None 0 t] by (auto simp: find_cmd_tbl_def bind_eq_Some_conv)
    then have k: "cmd t fl argv s = Some (x, s1) \<Longrightarrow> searchable (env_htab s1)" for fl x s1 using assms(1-3) unfolding keeps_env_def by blast
    show ?thesis using assms(2,4) f Some k by (auto simp: cmd_process_def Let_def bind_eq_Some_conv split: if_splits prod.splits)
  qed
qed

lemma cstr_update_end:
  assumes "cstr m a xs" "n < length xs"
  shows "cstr (m[a + n := 0]) a (take n xs)"
proof -
  have "take (length xs) (drop a m) = xs" "a + length xs < length m" "0 \<notin> set xs" using assms(1) by (simp_all add: cstr_iff)
  moreover from arg_cong [OF this(1), of "take n"] have "take n (drop a m) = take n xs" using assms(2) by simp
  ultimately show ?thesis using assms(2) by (auto simp: cstr_iff drop_update_swap min_def dest: in_set_takeD)
qed

lemma run_token_spec:
  fixes s :: "('c, 'w) monitor"
  assumes cs: "cstr buf str cs" "cs \<noteq> []" "length cs < CONFIG_SYS_CBSIZE" and fin: "length fin = CONFIG_SYS_CBSIZE"
    and q: "str = 0 \<longrightarrow> hd cs \<noteq> 39" and z: "0 < str \<longrightarrow> load buf (str - 1) = Some 0" and wf: "searchable (env_htab s)"
  defines "n \<equiv> token_len 0 True False cs"
  shows "\<exists>buf' fin' str'. run_token tbl flag (buf, fin, str, rc, rep, s) =
      (if args_of s (take n cs) = [] then Some (Inr (buf', fin', str', -1, rep, s))
       else do { (r, rep, s) \<leftarrow> cmd_process tbl flag (args_of s (take n cs)) rep s;
                 Some (if ctrlc_was_pressed s then Inl (-1, s) else Inr (buf', fin', str', if r \<noteq> 0 then -1 else rc, rep, s)) })
    \<and> length fin' = CONFIG_SYS_CBSIZE \<and> cstr buf' str' (drop (Suc n) cs) \<and> 0 < str'
    \<and> (drop (Suc n) cs \<noteq> [] \<longrightarrow> load buf' (str' - 1) = Some 0)"
proof -
  have sep: "find_sep buf str str False = Some (str + n)"
    unfolding n_def using find_sep_spec [OF cs(1), of 0 str False] q z by simp
  have nl: "n \<le> length cs" unfolding n_def by (rule token_len_le)
  obtain c buf' str' where b: "load buf (str + n) = Some c" "(if c \<noteq> 0 then do { m \<leftarrow> store buf (str + n) 0; Some (m, str + n + 1) } else Some (buf, str + n)) = Some (buf', str')"
      "cstr buf' str (take n cs)" "cstr buf' str' (drop (Suc n) cs)" "0 < str'" "drop (Suc n) cs \<noteq> [] \<longrightarrow> load buf' (str' - 1) = Some 0"
  proof (cases "n < length cs")
    case True
    have bd: "str + n < length buf" using cstr_bound [OF cs(1)] True by simp
    have dn: "cstr buf (str + n) (cs ! n # drop (Suc n) cs)" using cstr_drop [OF cs(1), of n] True by (simp add: Cons_nth_drop_Suc)
    have "cstr buf (str + n + 1) (drop (Suc n) cs)" using dn by simp
    then have "cstr (buf[str + n := 0]) (str + n + 1) (drop (Suc n) cs)" by simp
    then show thesis using that [of "cs ! n" "buf[str + n := 0]" "str + n + 1"] dn cstr_update_end [OF cs(1) True] bd
      by (simp add: store_Some load_Some)
  next
    case False
    then have n: "n = length cs" using nl by simp
    then have "cstr buf (str + n) []" using cstr_drop [OF cs(1), of n] by simp
    then show thesis using that [of 0 buf "str + n"] n cs by simp
  qed
  have len: "length (take n cs) < CONFIG_SYS_CBSIZE" using cs(3) by simp
  obtain fin1 where f1: "process_macros (getenv (env_htab s)) buf' str fin = Some fin1" "length fin1 = CONFIG_SYS_CBSIZE"
      "cstr fin1 0 (take (CONFIG_SYS_CBSIZE - 1) (expand (env_value (vals (env_htab s))) Plain 0 (take n cs)))"
    using process_macros_spec [OF getenv_ok [OF wf] b(3) len fin] by blast
  obtain fin' ps nul where f2: "parse_line fin1 0 = Some (fin', ps, nul)" "length fin' = length fin1" "read_args fin' ps = Some (args_of s (take n cs))"
    using parse_args_words [OF f1(3), of CONFIG_SYS_MAXARGS] unfolding parse_line_def args_of_def by blast
  have e: "ps = [] \<longleftrightarrow> args_of s (take n cs) = []" using read_args_length [OF f2(3)] by auto
  have "run_token tbl flag (buf, fin, str, rc, rep, s) =
      (if args_of s (take n cs) = [] then Some (Inr (buf', fin', str', -1, rep, s))
       else do { (r, rep, s) \<leftarrow> cmd_process tbl flag (args_of s (take n cs)) rep s;
                 Some (if ctrlc_was_pressed s then Inl (-1, s) else Inr (buf', fin', str', if r \<noteq> 0 then -1 else rc, rep, s)) })"
    using sep b(1,2) f1(1) f2(1,3) e by (simp add: run_token_def had_ctrlc_def Let_def)
  then show ?thesis using b(4-6) f1(2) f2(2) by auto
qed

lemma run_tokens_refines:
  fixes s :: "('c, 'w) monitor"
  assumes tbl: "keeps_env tbl"
  shows "cstr buf str cs \<Longrightarrow> length cs < CONFIG_SYS_CBSIZE \<Longrightarrow> length cs < k \<Longrightarrow> length fin = CONFIG_SYS_CBSIZE
    \<Longrightarrow> (str = 0 \<longrightarrow> cs = [] \<or> hd cs \<noteq> 39) \<Longrightarrow> (0 < str \<and> cs \<noteq> [] \<longrightarrow> load buf (str - 1) = Some 0) \<Longrightarrow> searchable (env_htab s)
    \<Longrightarrow> run_tokens tbl flag k (buf, fin, str, rc, rep, s) = run_spec tbl flag (tokens cs) rc rep s"
proof (induction k arbitrary: buf str cs fin rc rep s)
  case (Suc k)
  show ?case
  proof (cases cs)
    case Nil
    then show ?thesis using Suc.prems(1) tokens.simps [of "[]"] by simp
  next
    case (Cons c ds)
    define n where "n = token_len 0 True False cs"
    have c: "load buf str = Some c" "c \<noteq> 0" using Suc.prems(1) Cons by auto
    obtain buf' fin' str' where t: "run_token tbl flag (buf, fin, str, rc, rep, s) =
        (if args_of s (take n cs) = [] then Some (Inr (buf', fin', str', -1, rep, s))
         else do { (r, rep, s) \<leftarrow> cmd_process tbl flag (args_of s (take n cs)) rep s;
                   Some (if ctrlc_was_pressed s then Inl (-1, s) else Inr (buf', fin', str', if r \<noteq> 0 then -1 else rc, rep, s)) })"
        "length fin' = CONFIG_SYS_CBSIZE" "cstr buf' str' (drop (Suc n) cs)" "0 < str'"
        "drop (Suc n) cs \<noteq> [] \<longrightarrow> load buf' (str' - 1) = Some 0"
      using run_token_spec [OF Suc.prems(1) _ Suc.prems(2,4) _ _ Suc.prems(7), of tbl flag rc rep] Suc.prems(5,6) Cons unfolding n_def by blast
    have tk: "tokens cs = take n cs # tokens (drop (Suc n) cs)" using tokens.simps [of cs] Cons by (simp add: n_def)
    have IH: "run_tokens tbl flag k (buf', fin', str', rc', rep', s') = run_spec tbl flag (tokens (drop (Suc n) cs)) rc' rep' s'"
      if "searchable (env_htab s')" for rc' rep' s'
      by (rule Suc.IH [OF t(3)]) (use Suc.prems(2,3) t that Cons in auto)
    show ?thesis
    proof (cases "args_of s (take n cs) = []")
      case True
      then show ?thesis using c t(1) tk IH [OF Suc.prems(7)] by simp
    next
      case False
      have "\<forall>a\<in>set (args_of s (take n cs)). is_str a"
        using args_of_str [OF Suc.prems(7)] cstr_no_nul [OF Suc.prems(1)] by (meson in_set_takeD)
      then show ?thesis using False c t(1) tk IH cmd_process_keeps [OF tbl Suc.prems(7)]
        by (auto simp: bind_eq_Some_conv split: bind_splits)
    qed
  qed
qed simp

end
