(* ===== verification/Command_Line.thy ===== *)
theory Command_Line
  imports Command_Proofs
begin

unbundle bit_operations_syntax

text \<open>
  The theorems of the command line: a line is run as its commands are, one after the other; a variable that was set is
  what its name in a line stands for; how words and commands are found; the result of a list of lines.
\<close>

section \<open>Setting a variable\<close>

lemma join_args_spec:
  "s + sum_list (map (\<lambda>v. length v + 1) vs) \<le> length m \<Longrightarrow>
     join_args vs m s = Some (write_bytes m s (concat (map (\<lambda>v. v @ [32]) vs)), s + sum_list (map (\<lambda>v. length v + 1) vs))"
proof (induction vs arbitrary: m s)
  case (Cons v vs)
  let ?m = "write_bytes m s (v @ [32])"
  have len: "s + length v + 1 \<le> length m" using Cons.prems by simp
  have "store (take s m @ v @ 0 # drop (s + length v + 1) m) (s + length v) 32 = Some (take s m @ v @ 32 # drop (s + length v + 1) m)"
    using len by (simp add: store_Some list_update_append)
  then have "do { m \<leftarrow> copy_bytes m s (v @ [0]) 0 (length v + 1); store m (s + length v) 32 } = Some ?m"
    using len by (simp add: copy_bytes_Some write_bytes_def)
  moreover have "join_args vs ?m (s + length v + 1) = Some (write_bytes ?m (s + length v + 1) (concat (map (\<lambda>v. v @ [32]) vs)), s + length v + 1 + sum_list (map (\<lambda>v. length v + 1) vs))"
    using Cons.IH [of "s + length v + 1" ?m] Cons.prems by simp
  moreover have "write_bytes ?m (s + length v + 1) (concat (map (\<lambda>v. v @ [32]) vs)) = write_bytes m s (concat (map (\<lambda>v. v @ [32]) (v # vs)))"
    using write_bytes_append [of s "v @ [32]" m "concat (map (\<lambda>v. v @ [32]) vs)"] Cons.prems by (simp add: length_concat comp_def)
  ultimately show ?case by (auto simp: bind_eq_Some_conv split: bind_splits)
qed simp

text \<open>The arguments with single blanks between them.\<close>

definition joined :: "mem list \<Rightarrow> mem" where
  "joined vs = butlast (concat (map (\<lambda>v. v @ [32]) vs))"

lemma joined_read:
  assumes "vs \<noteq> []" "\<And>v. v \<in> set vs \<Longrightarrow> is_str v" "length m = sum_list (map (\<lambda>v. length v + 1) vs)"
  shows "\<exists>m' e. join_args vs m 0 = Some (m', e) \<and> (\<exists>m2. (if e \<noteq> 0 then store m' (e - 1) 0 else Some m') = Some m2 \<and> read_str m2 0 = Some (joined vs))
    \<and> is_str (joined vs)"
proof -
  let ?c = "concat (map (\<lambda>v. v @ [32]) vs)" and ?e = "sum_list (map (\<lambda>v. length v + 1) vs)"
  have j: "join_args vs m 0 = Some (?c, ?e)"
    using join_args_spec [of 0 vs m] assms(3) by (simp add: write_bytes_def length_concat comp_def)
  have ce: "length ?c = ?e" by (simp add: length_concat comp_def)
  have ne: "?c \<noteq> []" using assms(1) by (cases vs) simp_all
  have c: "?c = joined vs @ [last ?c]" unfolding joined_def using ne by simp
  have str: "is_str (joined vs)" unfolding joined_def is_str_def using assms(2) by (auto simp: is_str_def dest!: in_set_butlastD split: if_splits)
  have "?c[length (joined vs) := 0] = joined vs @ [0]" using c by (metis list_update_length)
  moreover have l: "length (joined vs) = ?e - 1" "?e \<noteq> 0" using ce ne by (auto simp: joined_def)
  moreover have "0 < length ?c" using ne by (rule length_greater_0_conv [THEN iffD2])
  then have "?e - 1 < length ?c" unfolding ce by (rule diff_less [OF zero_less_one])
  ultimately have "store ?c (?e - 1) 0 = Some (joined vs @ [0])" by (simp only: store_Some)
  moreover have "read_str (joined vs @ [0]) 0 = Some (joined vs)"
    using read_cstr [OF cstr_first [of "joined vs" "[]"]] str by (simp add: is_str_def)
  ultimately show ?thesis using j l(2) str by auto
qed

lemma env_set_name:
  assumes "is_str name" "61 \<notin> set name" "name = [] \<or> hd name \<noteq> 45"
  shows "set_options (Suc n) (Some name # av) fl = Some (Inr (Suc n, Some name # av, fl))" and "strchr (name @ [0]) 0 61 = Some None"
  using assms strchr_cstr [OF cstr_first [of name "[]"], of 61] by (auto simp: is_str_def split: list.splits)

lemma setenv_open:
  fixes s :: "('c, 'w) monitor"
  assumes t: "open_table (env_htab s)" "0 < room (env_htab s)" and nm: "is_str name" "61 \<notin> set name" "name = [] \<or> hd name \<noteq> 45"
    and v: "is_str v" "v \<noteq> []" and buf: "buf (length v + 1) = Blk m" "length m = length v + 1"
  shows "\<exists>t'. setenv no_handler ini True True buf name (Some v) s = Some (0, s\<lparr>env_id := env_id s + 1, env_htab := t'\<rparr>)
    \<and> open_table t' \<and> vals t' = (vals (env_htab s))(name \<mapsto> v)"
proof -
  have jv: "joined [v] = v" by (simp add: joined_def)
  obtain m1 e m2 where j: "join_args [v] m 0 = Some (m1, e)" "(if e \<noteq> 0 then store m1 (e - 1) 0 else Some m1) = Some m2" "read_str m2 0 = Some v"
    using joined_read [of "[v]" m] v buf jv by auto
  obtain r ep t' where h: "hsearch_r no_handler ini True True name (Some v) ENTER H_INTERACTIVE (env_htab s) = Some (r, ep, None, t')"
      "open_table t'" "vals t' = (vals (env_htab s))(name \<mapsto> v)" "ep \<noteq> None"
  proof -
    have nr: "\<not> rejects (env_htab s) e w op fl" for e w op fl using t(1) by (simp add: open_table_def rejects_def)
    obtain r ep err t' where "hsearch_r no_handler ini True True name (Some v) ENTER H_INTERACTIVE (env_htab s) = Some (r, ep, err, t')" "hwf t'"
        "change_ok t' = change_ok (env_htab s)" "r \<noteq> 0" "vals t' = (vals (env_htab s))(name \<mapsto> v) \<and> err = None \<and> ep \<noteq> None"
      using enter_spec [of "env_htab s" name v no_handler ini H_INTERACTIVE] t nm(1) v(1) nr
      unfolding open_table_def no_handler_def is_str_def by (metis option.discI)
    then show thesis using that t(1) by (simp add: open_table_def)
  qed
  have "setenv no_handler ini True True buf name (Some v) s = Some (0, s\<lparr>env_id := env_id s + 1, env_htab := t'\<rparr>)"
    using v(2) j h(1,4) buf(1) env_set_name(1) [OF nm, of 1 "[Some v, None]" H_INTERACTIVE] env_set_name(2) [OF nm]
    by (simp add: setenv_def env_set_def insert_value_def Let_def load_Some numeral_2_eq_2 del: join_args.simps set_options.simps)
  then show ?thesis using h(2,3) by blast
qed

lemma one_table_room: "0 < room (one_table v)" and one_table_change: "change_ok (one_table v) = None"
proof -
  have "2 \<in> empties 5 (one_slots v)" using one_slots_nth(2) [of v] by (simp add: empties_def zero_slot_def)
  then show "0 < room (one_table v)" by (auto simp: room_def one_table_def card_gt_0_iff)
qed (simp add: one_table_def)

section \<open>Plain text\<close>

definition plain_char :: "byte \<Rightarrow> bool" where
  "plain_char c \<longleftrightarrow> c \<noteq> 0 \<and> c \<noteq> 36 \<and> c \<noteq> 39 \<and> c \<noteq> 92"

definition name_char :: "byte \<Rightarrow> bool" where
  "name_char c \<longleftrightarrow> c \<noteq> 0 \<and> c \<noteq> 41 \<and> c \<noteq> 125 \<and> c \<noteq> 92 \<and> c \<noteq> 61"

lemma expand_Cons: "c \<noteq> 92 \<Longrightarrow> expand g md prev (c # cs) = fst (advance g md prev [] c) @ expand g (snd (advance g md prev [] c)) c cs"
  by (cases cs) simp_all

lemma expand_plain: "\<forall>c\<in>set pre. plain_char c \<Longrightarrow> prev \<noteq> 92 \<Longrightarrow> \<exists>prev'. prev' \<noteq> 92 \<and> expand g Plain prev (pre @ rest) = pre @ expand g Plain prev' rest"
proof (induction pre arbitrary: prev)
  case (Cons c pre)
  then have "c \<noteq> 92" "advance g Plain prev [] c = ([c], Plain)" by (auto simp: plain_char_def advance_def)
  then show ?case using Cons.IH [of c] Cons.prems(1) by (auto simp: expand_Cons)
qed auto

lemma expand_name: "\<forall>c\<in>set nm. name_char c \<Longrightarrow> expand g (Name a) prev (nm @ 125 # rest) = g (a @ nm) @ expand g Plain 125 rest"
proof (induction nm arbitrary: a prev)
  case (Cons c nm)
  then have "c \<noteq> 92" "advance g (Name a) prev [] c = ([], Name (a @ [c]))" by (auto simp: name_char_def advance_def)
  then show ?case using Cons.IH [of "a @ [c]" c] Cons.prems(1) by (auto simp: expand_Cons)
qed (simp add: expand_Cons advance_def)

lemma expand_variable:
  assumes "\<forall>c\<in>set pre. plain_char c" "\<forall>c\<in>set nm. name_char c" "\<forall>c\<in>set post. plain_char c"
  shows "expand g Plain 0 (pre @ [36, 123] @ nm @ [125] @ post) = pre @ g nm @ post"
proof -
  have z: "(0 :: byte) \<noteq> 92" by simp
  obtain p where p: "p \<noteq> 92" "expand g Plain 0 (pre @ [36, 123] @ nm @ [125] @ post) = pre @ expand g Plain p ([36, 123] @ nm @ [125] @ post)"
    using expand_plain [OF assms(1), of 0 g "[36, 123] @ nm @ [125] @ post"] z by blast
  have "expand g Plain p ([36, 123] @ nm @ [125] @ post) = g nm @ expand g Plain 125 post"
    using p(1) expand_name [OF assms(2), of g "[]" 123 post] by (simp add: expand_Cons advance_def)
  moreover have "expand g Plain 125 (post @ []) = post @ []" using expand_plain [OF assms(3), of 125 g "[]"] by auto
  ultimately show ?thesis using p(2) by simp
qed

section \<open>Lists of lines\<close>

lemma list_loop_one:
  assumes "cstr m a l" "10 \<notin> set l"
  shows "list_loop tbl cb fin m line a s = Some (m, line, 0, s)"
  using assms
proof (induction l arbitrary: a)
  case (Cons c l)
  then show ?case using Cons.IH [of "a + 1"] by (simp add: list_loop.simps [of tbl cb fin m line a])
qed (simp add: list_loop.simps [of tbl cb fin m])

section \<open>Commands that change the environment\<close>

text \<open>The commands \<open>setenv\<close> and \<open>run\<close> keep the environment searchable, whatever their arguments are and whether or not there is
  room in the table.\<close>

lemma set_options_subset: "set_options n av fl = Some (Inr (n', av', fl')) \<Longrightarrow> set av' \<subseteq> set av"
proof (induction n arbitrary: av fl)
  case (Suc n)
  then show ?case by (auto split: list.splits option.splits if_splits sum.splits dest!: Suc.IH)
qed simp

lemma read_str_str: "read_str m a = Some v \<Longrightarrow> is_str v"
  by (auto simp: read_str_def strlen_def bind_eq_Some_conv is_str_def dest!: strlen_loop_Some simp: cstr_iff)

lemma insert_value_keeps:
  assumes "searchable (env_htab s)" "0 \<notin> set name" "insert_value cb ini True True buf name vs fl s = Some (r, s')"
  shows "searchable (env_htab s')"
proof (cases "s' = s")
  case False
  then obtain m v rc ep err t where v: "read_str m 0 = Some v" and h: "hsearch_r cb ini True True name (Some v) ENTER fl (env_htab s) = Some (rc, ep, err, t)"
      and s': "s' = s\<lparr>env_htab := t\<rparr>"
    using assms(3) by (auto simp: insert_value_def Let_def bind_eq_Some_conv split: if_splits)
  have "0 \<notin> set v" using read_str_str [OF v] by (simp add: is_str_def)
  then show ?thesis using searchable_enter [OF assms(1,2), of v cb ini fl] h s' by simp
qed (use assms(1) in simp)

lemma env_set_keeps:
  assumes "searchable (env_htab s)" "\<And>a. Some a \<in> set av \<Longrightarrow> is_str a" "env_set cb ini True True buf n av s = Some (r, s')"
  shows "searchable (env_htab s')"
proof -
  obtain opts where opts: "set_options n av H_INTERACTIVE = Some opts" using assms(3) by (auto simp: env_set_def bind_eq_Some_conv)
  show ?thesis
  proof (cases opts)
    case (Inr x)
    obtain n' av' fl where x: "opts = Inr (n', av', fl)" using Inr by (cases x) auto
    obtain name where nm: "load av' 0 = Some (Some name)" using assms(3) opts x by (auto simp: env_set_def bind_eq_Some_conv)
    have "Some name \<in> set av'" using nm by (metis load_eq_Some_iff nth_mem)
    then have "Some name \<in> set av" using set_options_subset [of n av H_INTERACTIVE n' av' fl] opts x by auto
    then have str: "0 \<notin> set name" using assms(2) by (simp add: is_str_def)
    have del: "hdelete_r cb None name fl (env_htab s) = Some (rc, err, t) \<Longrightarrow> searchable t" for rc err t
      using searchable_remove [OF assms(1) str, of cb None fl] by auto
    have ins: "insert_value cb ini True True buf name vs fl (s\<lparr>env_id := i\<rparr>) = Some (r, s') \<Longrightarrow> searchable (env_htab s')" for vs i
      using insert_value_keeps [of "s\<lparr>env_id := i\<rparr>" name] assms(1) str by simp
    show ?thesis using assms(1,3) opts x nm del ins by (auto simp: env_set_def Let_def bind_eq_Some_conv split: if_splits)
  qed (use assms(1,3) opts in \<open>simp add: env_set_def\<close>)
qed

lemma setenv_keeps: "searchable (env_htab s) \<Longrightarrow> \<forall>a\<in>set argv. is_str a \<Longrightarrow> do_env_set cb ini True True buf fl argv s = Some (r, s') \<Longrightarrow> searchable (env_htab s')"
proof -
  assume a: "searchable (env_htab s)" "\<forall>a\<in>set argv. is_str a" "do_env_set cb ini True True buf fl argv s = Some (r, s')"
  have "is_str w" if "Some w \<in> set (map Some (tl argv))" for w using that a(2) list.set_sel(2) [of argv] by (cases argv) auto
  then show ?thesis using a env_set_keeps [of s "map Some (tl argv)" cb ini buf "length argv - 1" r s'] by (auto simp: do_env_set_def split: if_splits)
qed

lemma tokens_set: "t \<in> set (tokens cs) \<Longrightarrow> set t \<subseteq> set cs"
proof (induction cs rule: tokens.induct)
  case (1 cs)
  then show ?case unfolding tokens.simps [of cs] by (auto split: if_splits dest: in_set_takeD in_set_dropD)
qed

lemma run_spec_keeps:
  assumes "keeps_env tbl"
  shows "searchable (env_htab s) \<Longrightarrow> \<forall>t\<in>set ts. 0 \<notin> set t \<Longrightarrow> run_spec tbl flag ts rc rep s = Some (r, s') \<Longrightarrow> searchable (env_htab s')"
proof (induction ts arbitrary: rc rep s)
  case (Cons t ts)
  have str: "\<forall>a\<in>set (args_of s t). is_str a" using args_of_str [OF Cons.prems(1)] Cons.prems(2) by (metis list.set_intros(1))
  show ?case
  proof (cases "args_of s t = []")
    case True
    then show ?thesis using Cons by simp
  next
    case False
    then obtain r1 rep1 s1 where p: "cmd_process tbl flag (args_of s t) rep s = Some (r1, rep1, s1)"
        and rest: "s' = s1 \<or> (\<exists>rc1. run_spec tbl flag ts rc1 rep1 s1 = Some (r, s'))"
      using Cons.prems(3) by (auto simp: bind_eq_Some_conv split: if_splits)
    have "searchable (env_htab s1)" by (rule cmd_process_keeps [OF assms Cons.prems(1) str p])
    then show ?thesis using rest Cons.IH Cons.prems(2) by auto
  qed
qed auto

lemma builtin_run_spec:
  fixes s :: "('c, 'w) monitor"
  assumes "keeps_env tbl" and "searchable (env_htab s)" and "is_str l" and "length cmdbuf = CONFIG_SYS_CBSIZE" and "length finaltoken = CONFIG_SYS_CBSIZE"
  shows "builtin_run_command tbl cmdbuf finaltoken (Some l) flag s =
    (if l = [] \<or> CONFIG_SYS_CBSIZE \<le> length l then Some (-1, clear_ctrlc s)
     else if hd l = 39 then None
     else run_spec tbl flag (tokens l) 0 1 (clear_ctrlc s))"
proof (cases "l = [] \<or> CONFIG_SYS_CBSIZE \<le> length l")
  case True
  then show ?thesis using strlen_str [of l] assms(3) by (cases l) (auto simp: builtin_run_command_def Let_def is_str_def load_def)
next
  case False
  define buf where "buf = l @ 0 # drop (length l + 1) cmdbuf"
  have cp: "copy_bytes cmdbuf 0 (l @ [0]) 0 (length l + 1) = Some buf"
    using False assms(4) by (simp add: copy_bytes_Some buf_def)
  have c: "cstr buf 0 l" using assms(3) by (simp add: buf_def cstr_iff is_str_def nth_append)
  have len: "length buf = CONFIG_SYS_CBSIZE" using False assms(4) by (simp add: buf_def)
  obtain x xs where x: "l = x # xs" "x \<noteq> 0" using False assms(3) by (cases l) (auto simp: is_str_def)
  have run: "builtin_run_command tbl cmdbuf finaltoken (Some l) flag s = run_tokens tbl flag (length buf) (buf, finaltoken, 0, 0, 1, clear_ctrlc s)"
    using False x cp strlen_str [of l] assms(3) by (simp add: builtin_run_command_def Let_def is_str_def load_def)
  show ?thesis
  proof (cases "hd l = 39")
    case True
    have "load buf 0 = Some 39" using c x True by simp
    then have "run_token tbl flag (buf, finaltoken, 0, 0, 1, clear_ctrlc s) = None" using find_sep_quote by (simp add: run_token_def)
    moreover obtain k where "length buf = Suc k" using len by (cases "length buf") (simp_all add: CONFIG_SYS_CBSIZE_def)
    ultimately show ?thesis using False True run \<open>load buf 0 = Some 39\<close> by simp
  next
    case q: False
    have "searchable (env_htab (clear_ctrlc s))" using assms(2) by (simp add: clear_ctrlc_def)
    then show ?thesis using run_tokens_refines [OF assms(1) c, of "length buf" finaltoken "clear_ctrlc s" flag 0 1] False q run len assms(5) by simp
  qed
qed

lemma builtin_run_keeps:
  fixes s :: "('c, 'w) monitor"
  assumes "keeps_env tbl" and "searchable (env_htab s)" and "is_str l" and "length cmdbuf = CONFIG_SYS_CBSIZE" and "length finaltoken = CONFIG_SYS_CBSIZE"
    and "builtin_run_command tbl cmdbuf finaltoken (Some l) flag s = Some (r, s')"
  shows "searchable (env_htab s')"
proof -
  have c: "searchable (env_htab (clear_ctrlc s))" using assms(2) by (simp add: clear_ctrlc_def)
  have "\<forall>t\<in>set (tokens l). 0 \<notin> set t" using tokens_set [of _ l] assms(3) by (auto simp: is_str_def)
  then have k: "searchable (env_htab s')" if "run_spec tbl flag (tokens l) 0 1 (clear_ctrlc s) = Some (r, s')"
    using run_spec_keeps [OF assms(1) c _ that] by blast
  have "(if l = [] \<or> CONFIG_SYS_CBSIZE \<le> length l then Some (-1, clear_ctrlc s) else if hd l = 39 then None
      else run_spec tbl flag (tokens l) 0 1 (clear_ctrlc s)) = Some (r, s')"
    using builtin_run_spec [OF assms(1-5), of flag] assms(6) by simp
  then show ?thesis using c k by (auto split: if_splits)
qed

lemma run_vars_keeps:
  fixes s :: "('c, 'w) monitor"
  assumes "keeps_env tbl" and "length cmdbuf = CONFIG_SYS_CBSIZE" and "length finaltoken = CONFIG_SYS_CBSIZE"
  shows "searchable (env_htab s) \<Longrightarrow> \<forall>a\<in>set argv. is_str a \<Longrightarrow> run_vars tbl cmdbuf finaltoken flag argv s = Some (r, s') \<Longrightarrow> searchable (env_htab s')"
proof (induction argv arbitrary: s)
  case (Cons a argv)
  have g: "getenv (env_htab s) a = Some (vals (env_htab s) a)" using getenv_vals [OF Cons.prems(1)] Cons.prems(2) by simp
  show ?case
  proof (cases "vals (env_htab s) a")
    case (Some v)
    then have str: "is_str v" using vals_str [OF Cons.prems(1)] by blast
    obtain r1 s1 where b: "builtin_run_command tbl cmdbuf finaltoken (Some v) flag s = Some (r1, s1)"
        and rest: "s' = s1 \<or> run_vars tbl cmdbuf finaltoken flag argv s1 = Some (r, s')"
      using Cons.prems(3) Some g by (auto simp: run_command_def bind_eq_Some_conv split: if_splits)
    have "searchable (env_htab s1)" by (rule builtin_run_keeps [OF assms(1) Cons.prems(1) str assms(2,3) b])
    then show ?thesis using rest Cons.IH [of s1] Cons.prems(2) by auto
  qed (use g Cons.prems in simp)
qed simp

lemma do_run_keeps:
  assumes "keeps_env tbl" "length cmdbuf = CONFIG_SYS_CBSIZE" "length finaltoken = CONFIG_SYS_CBSIZE"
    "searchable (env_htab s)" "\<forall>a\<in>set argv. is_str a" "do_run tbl cmdbuf finaltoken fl argv s = Some (r, s')"
  shows "searchable (env_htab s')"
  using assms(4-6) run_vars_keeps [OF assms(1-4), of "tl argv" fl r s'] by (cases argv) (auto simp: do_run_def split: if_splits)

text \<open>A table with \<open>setenv\<close> and \<open>run\<close>, in which calls of \<open>run\<close> can be nested to a depth.\<close>

primrec env_commands ::
  "'c cback \<Rightarrow> 'c ini \<Rightarrow> (nat \<Rightarrow> mem ptr) \<Rightarrow> (mem list \<Rightarrow> byte \<Rightarrow> nat \<Rightarrow> mem list option) \<Rightarrow> mem \<Rightarrow> mem \<Rightarrow> nat \<Rightarrow> ('c, 'w) cmd_tbl_s list" where
  "env_commands cb ini buf vc cmdbuf finaltoken 0 = [setenv_entry cb ini buf vc]"
| "env_commands cb ini buf vc cmdbuf finaltoken (Suc n) =
     [run_entry vc cmdbuf finaltoken (env_commands cb ini buf vc cmdbuf finaltoken n), setenv_entry cb ini buf vc]"

lemma env_commands_keep:
  assumes "length cmdbuf = CONFIG_SYS_CBSIZE" "length finaltoken = CONFIG_SYS_CBSIZE"
  shows "keeps_env (env_commands cb ini buf vc cmdbuf finaltoken n :: ('c, 'w) cmd_tbl_s list)"
proof (induction n)
  case 0
  show ?case by (auto simp: keeps_env_def setenv_entry_def intro: setenv_keeps)
next
  case (Suc n)
  then show ?case using do_run_keeps [OF Suc assms] by (auto simp: keeps_env_def setenv_entry_def run_entry_def intro: setenv_keeps)
qed

section \<open>Theorems\<close>

text \<open>C5 (common/main.c, \<open>builtin_run_command\<close> with \<open>process_macros\<close> and \<open>parse_line\<close>). For every line, every state whose
  environment can be searched and every table of commands that leave it so (\<open>setenv\<close> and \<open>run\<close> do, also when the table
  is full), the code over its buffers of 256 bytes does what the functions on strings say: an empty line and one of 256
  characters or more give -1; the line is cut at its separators, every command is expanded with the environment as the
  commands before it left it, cut to 255 characters and 16 words and processed; a control-C ends it. No access is outside
  of a buffer, with one exception: a line that starts with a quote makes the loop read the byte before the buffer.\<close>

theorem run_command_refines:
  fixes s :: "('c, 'w) monitor"
  assumes "keeps_env tbl" and "searchable (env_htab s)" and "is_str l" and "length cmdbuf = CONFIG_SYS_CBSIZE" and "length finaltoken = CONFIG_SYS_CBSIZE"
  shows "builtin_run_command tbl cmdbuf finaltoken (Some l) flag s =
    (if l = [] \<or> CONFIG_SYS_CBSIZE \<le> length l then Some (-1, clear_ctrlc s)
     else if hd l = 39 then None
     else run_spec tbl flag (tokens l) 0 1 (clear_ctrlc s))"
  using assms by (rule builtin_run_spec)

definition no_monitor :: "(unit, unit) monitor" where
  "no_monitor = \<lparr>env_htab = one_table [66], env_id = 0, ctrlc_was_pressed = False, world = ()\<rparr>"

text \<open>The line \<open>setenv a b;run a\<close> with the commands \<open>setenv\<close> and \<open>run\<close>.\<close>

definition monitor_table :: "(unit, unit) cmd_tbl_s list" where
  "monitor_table = env_commands no_handler (\<lambda>_ _. (None, 0)) (\<lambda>n. Blk (replicate n 7)) (\<lambda>_ _ _. Some []) (replicate 256 7) (replicate 256 8) 1"

definition set_and_run :: mem where
  "set_and_run = [115, 101, 116, 101, 110, 118, 32, 97, 32, 98, 59, 114, 117, 110, 32, 97]"

lemma monitor_table_keeps: "keeps_env monitor_table"
  unfolding monitor_table_def by (rule env_commands_keep) (simp_all add: CONFIG_SYS_CBSIZE_def)

theorem run_command_refines_witness:
  "builtin_run_command monitor_table (replicate 256 7) (replicate 256 8) (Some set_and_run) 0 no_monitor =
    (if set_and_run = [] \<or> CONFIG_SYS_CBSIZE \<le> length set_and_run then Some (-1, clear_ctrlc no_monitor)
     else if hd set_and_run = 39 then None
     else run_spec monitor_table 0 (tokens set_and_run) 0 1 (clear_ctrlc no_monitor))"
  by (rule run_command_refines)
     (simp_all add: monitor_table_keeps no_monitor_def hwf_searchable one_table_hwf is_str_def set_and_run_def CONFIG_SYS_CBSIZE_def)

text \<open>C11 (common/cmd_nvedit.c, \<open>setenv\<close>; common/main.c, \<open>process_macros\<close>; lib/hashtable.c). A non-empty value is set, in a table
  with an empty slot and no handlers, for a name without \<open>=\<close>, closing brackets and backslashes and not starting with a
  dash. It is then what the name in \<open>${...}\<close> stands for in a line whose other text has no quotes, backslashes and dollar
  signs; the result is cut to 255 characters.\<close>

theorem setenv_then_macro:
  fixes s :: "('c, 'w) monitor"
  assumes "open_table (env_htab s)" and "0 < room (env_htab s)" and "\<forall>c\<in>set name. name_char c" and "name = [] \<or> hd name \<noteq> 45"
    and "is_str v" and "v \<noteq> []" and "buf (length v + 1) = Blk m" and "length m = length v + 1"
    and "\<forall>c\<in>set pre. plain_char c" and "\<forall>c\<in>set post. plain_char c"
    and "length pre + length name + length post < CONFIG_SYS_CBSIZE - 3" and "length res = CONFIG_SYS_CBSIZE"
  shows "\<exists>s' res'. setenv no_handler ini True True buf name (Some v) s = Some (0, s')
    \<and> process_macros (getenv (env_htab s')) (pre @ [36, 123] @ name @ [125] @ post @ [0]) 0 res = Some res'
    \<and> cstr res' 0 (take (CONFIG_SYS_CBSIZE - 1) (pre @ v @ post))"
proof -
  have nm: "is_str name" "61 \<notin> set name" using assms(3) by (auto simp: is_str_def name_char_def)
  obtain t' where t': "setenv no_handler ini True True buf name (Some v) s = Some (0, s\<lparr>env_id := env_id s + 1, env_htab := t'\<rparr>)"
      "open_table t'" "vals t' = (vals (env_htab s))(name \<mapsto> v)"
    using setenv_open [where buf = buf and v = v, OF assms(1,2) nm assms(4,5,6,7,8)] by blast
  let ?t = "pre @ [36, 123] @ name @ [125] @ post"
  have str: "0 \<notin> set ?t" using assms(3,9,10) by (auto simp: name_char_def plain_char_def)
  have c: "cstr (?t @ [0]) 0 ?t" using cstr_first [OF str, of "[]"] by simp
  have len: "length ?t < CONFIG_SYS_CBSIZE" using assms(11) by simp
  have wf: "hwf t'" using t'(2) by (simp add: open_table_def)
  have ex: "expand (env_value (vals t')) Plain 0 ?t = pre @ v @ post"
    using expand_variable [OF assms(9,3,10)] t'(3) by (simp add: env_value_def)
  obtain res' where "process_macros (getenv t') (?t @ [0]) 0 res = Some res'" "cstr res' 0 (take (CONFIG_SYS_CBSIZE - 1) (pre @ v @ post))"
    using process_macros_spec [OF getenv_ok [OF hwf_searchable [OF wf]] c len assms(12)] unfolding ex by blast
  then show ?thesis using t'(1) by auto
qed

theorem setenv_then_macro_witness:
  "\<exists>s' res'. setenv no_handler (\<lambda>_ _. (None, 0)) True True (\<lambda>n. Blk (replicate n 7)) [97] (Some [98, 99]) no_monitor = Some (0, s')
    \<and> process_macros (getenv (env_htab s')) ([88] @ [36, 123] @ [97] @ [125] @ [89] @ [0]) 0 (replicate 256 8) = Some res'
    \<and> cstr res' 0 (take (CONFIG_SYS_CBSIZE - 1) ([88] @ [98, 99] @ [89]))"
  by (rule setenv_then_macro)
     (auto simp: no_monitor_def open_table_def one_table_hwf one_table_room name_char_def plain_char_def is_str_def CONFIG_SYS_CBSIZE_def one_table_change)

text \<open>(common/main.c, \<open>parse_line\<close>). The pointers in \<open>argv\<close> are to the first 16 words of the line, each ended by a null
  byte, and the line is changed inside itself only. The null pointer behind the last one is there when there are fewer than
  16 words, or 16 with nothing behind the last; otherwise \<open>argv[16]\<close> is not written although the code returns 16.\<close>

theorem parse_line_words:
  assumes "cstr m a l"
  shows "\<exists>m' argv nul. parse_line m a = Some (m', argv, nul) \<and> length m' = length m \<and> take a m' = take a m
    \<and> read_args m' argv = Some (take CONFIG_SYS_MAXARGS (words l))
    \<and> (nul \<longleftrightarrow> length (words l) < CONFIG_SYS_MAXARGS \<or> length (words l) = CONFIG_SYS_MAXARGS \<and> l \<noteq> [] \<and> \<not> isblank (last l))"
  using parse_args_words [OF assms, of CONFIG_SYS_MAXARGS] unfolding parse_line_def by blast

theorem parse_line_words_witness:
  "\<exists>m' argv nul. parse_line [97, 32, 98, 0] 0 = Some (m', argv, nul) \<and> length m' = length [97, 32, 98, 0 :: byte] \<and> take 0 m' = take 0 [97, 32, 98, 0]
    \<and> read_args m' argv = Some (take CONFIG_SYS_MAXARGS (words [97, 32, 98]))
    \<and> (nul \<longleftrightarrow> length (words [97, 32, 98]) < CONFIG_SYS_MAXARGS
        \<or> length (words [97, 32, 98]) = CONFIG_SYS_MAXARGS \<and> [97, 32, 98 :: byte] \<noteq> [] \<and> \<not> isblank (last [97, 32, 98]))"
  by (rule parse_line_words) (simp add: load_def)

text \<open>C26 (common/command.c, \<open>find_cmd_tbl\<close>). Only the part of the word before its first dot counts. A command with just that
  name is found, the first one if there are several; otherwise the only command that starts with it; otherwise none.\<close>

theorem find_cmd_unique:
  assumes "is_str c" and "\<And>t. t \<in> set tbl \<Longrightarrow> is_str (cmd_name t)"
  shows "find_cmd_tbl (Some c) tbl =
    (let key = takeWhile (\<lambda>x. x \<noteq> 46) c in
     Some (case List.find (\<lambda>t. cmd_name t = key) tbl of Some t \<Rightarrow> Some t
       | None \<Rightarrow> (case filter (\<lambda>t. prefix key (cmd_name t)) tbl of [t] \<Rightarrow> Some t | _ \<Rightarrow> None)))"
proof -
  let ?k = "takeWhile (\<lambda>x. x \<noteq> 46) c"
  have len: "length ?k \<le> length c" by (rule length_takeWhile_le)
  have tk: "take (length ?k) c = ?k" by (metis takeWhile_eq_take)
  have "?k = c" if "46 \<notin> set c" unfolding takeWhile_eq_all_conv using that by blast
  then have "46 \<notin> set c \<Longrightarrow> length ?k = length c" by (rule arg_cong)
  then have "find_cmd_tbl (Some c) tbl = find_loop c (length ?k) tbl None 0"
    using strchr_dot [OF assms(1)] strlen_str [of c] assms(1) by (auto simp: find_cmd_tbl_def is_str_def)
  also have "\<dots> = Some (case List.find (\<lambda>t. cmd_name t = ?k) tbl of Some t \<Rightarrow> Some t
       | None \<Rightarrow> (case filter (\<lambda>t. prefix ?k (cmd_name t)) tbl of [t] \<Rightarrow> Some t | _ \<Rightarrow> None))"
    using find_loop_spec [OF assms(1) len, of tbl None 0] assms(2) unfolding tk
    by (auto simp: Let_def split: option.splits list.splits)
  finally show ?thesis by (simp add: Let_def)
qed

definition two_commands :: "(unit, unit) cmd_tbl_s list" where
  "two_commands = [\<lparr>cmd_name = [99, 112], maxargs = 4, repeatable = 1, cmd = (\<lambda>fl argv s. Some (0, s)), is_bootd = False, complete = None\<rparr>,
     \<lparr>cmd_name = [99, 109, 112], maxargs = 4, repeatable = 1, cmd = (\<lambda>fl argv s. Some (1, s)), is_bootd = False, complete = None\<rparr>]"

theorem find_cmd_unique_witness:
  "find_cmd_tbl (Some [99, 112, 46, 98]) two_commands =
    (let key = takeWhile (\<lambda>x. x \<noteq> 46) [99, 112, 46, 98] in
     Some (case List.find (\<lambda>t. cmd_name t = key) two_commands of Some t \<Rightarrow> Some t
       | None \<Rightarrow> (case filter (\<lambda>t. prefix key (cmd_name t)) two_commands of [t] \<Rightarrow> Some t | _ \<Rightarrow> None)))"
  by (rule find_cmd_unique) (auto simp: is_str_def two_commands_def)

text \<open>C28 (common/main.c, \<open>builtin_run_command_list\<close>). For a list of one line the result is 1 when the command succeeded and 0
  when it failed, the opposite of what the comment says and of what a failure in an earlier line gives.\<close>

theorem run_list_inverted:
  assumes "is_str l" and "l \<noteq> []" and "10 \<notin> set l"
  shows "builtin_run_command_list tbl cmdbuf finaltoken (l @ [0]) flag s =
    do { (r, s) \<leftarrow> builtin_run_command tbl cmdbuf finaltoken (Some l) 0 s; Some (if r \<ge> 0 then 1 else 0, s) }"
proof -
  have c: "cstr (l @ [0]) 0 l" using cstr_first [of l "[]"] assms(1) by (simp add: is_str_def)
  then have "list_loop tbl cmdbuf finaltoken (l @ [0]) 0 0 s = Some (l @ [0], 0, 0, s)" using assms(3) by (rule list_loop_one)
  moreover obtain x xs where "l = x # xs" "x \<noteq> 0" using assms(1,2) by (cases l) (auto simp: is_str_def)
  ultimately show ?thesis using read_cstr [OF c] by (simp add: builtin_run_command_list_def load_def)
qed

theorem run_list_inverted_witness:
  "builtin_run_command_list two_commands (replicate 256 7) (replicate 256 8) ([99, 112] @ [0]) 0 no_monitor =
    do { (r, s) \<leftarrow> builtin_run_command two_commands (replicate 256 7) (replicate 256 8) (Some [99, 112]) 0 no_monitor; Some (if r \<ge> 0 then 1 else 0, s) }"
  by (rule run_list_inverted) (simp_all add: is_str_def)

lemma main_loop_line:
  assumes cb: "cstr cb 0 l" and l: "l \<noteq> []" and last: "length lastcommand = CONFIG_SYS_CBSIZE" and len: "length l < CONFIG_SYS_CBSIZE"
  shows "main_loop_pass tbl cmdbuf finaltoken (int (length l)) cb (lastcommand, rc, s) =
      do { (r, s) \<leftarrow> run_command tbl cmdbuf finaltoken (Some l) 0 s;
           Some ((if r \<le> 0 then 0 else hd l) # tl l @ 0 # drop (length l + 1) lastcommand, r, s) }"
proof -
  define b where "b = l @ 0 # drop (length l + 1) lastcommand"
  have "take (length l + 1) cb = l @ [0]" "length l < length cb" using cb by (auto simp: cstr_iff take_Suc_conv_app_nth)
  then have cp: "copy_bytes lastcommand 0 cb 0 (length l + 1) = Some b" using last len by (simp add: copy_bytes_Some b_def)
  have "cstr b 0 l" using cstr_no_nul [OF cb] by (simp add: b_def cstr_iff nth_append)
  then have rd: "read_str b 0 = Some l" by (rule read_cstr)
  have st: "store b 0 0 = Some (0 # tl l @ 0 # drop (length l + 1) lastcommand)" "b = hd l # tl l @ 0 # drop (length l + 1) lastcommand"
    using l by (cases l; simp add: b_def store_Some)+
  have "main_loop_pass tbl cmdbuf finaltoken (int (length l)) cb (lastcommand, rc, s) =
      do { (r, s) \<leftarrow> run_command tbl cmdbuf finaltoken (Some l) 0 s;
           b' \<leftarrow> (if r \<le> 0 then store b 0 0 else Some b); Some (b', r, s) }"
    using l cp rd strlen_cstr [OF cb] by (simp add: main_loop_pass_def)
  also have "\<dots> = do { (r, s) \<leftarrow> run_command tbl cmdbuf finaltoken (Some l) 0 s;
           Some ((if r \<le> 0 then 0 else hd l) # tl l @ 0 # drop (length l + 1) lastcommand, r, s) }"
    using st by (cases "run_command tbl cmdbuf finaltoken (Some l) 0 s") (auto split: prod.splits)
  finally show ?thesis .
qed

lemma main_loop_overflow:
  assumes cb: "cstr cb 0 l" and len: "length lastcommand = CONFIG_SYS_CBSIZE" "CONFIG_SYS_CBSIZE \<le> length l"
  shows "main_loop_pass tbl cmdbuf finaltoken (int (length l)) cb (lastcommand, rc, s) = None"
proof -
  have "copy_bytes lastcommand 0 cb 0 (length l + 1) = None" using len by (simp add: copy_bytes_def)
  moreover have "0 < length l" using len(2) by (rule less_le_trans [rotated]) (simp add: CONFIG_SYS_CBSIZE_def)
  ultimately show ?thesis using strlen_cstr [OF cb] by (simp add: main_loop_pass_def)
qed

lemma main_loop_empty:
  assumes "cstr lastcommand 0 l"
  shows "main_loop_pass tbl cmdbuf finaltoken 0 cb (lastcommand, rc, s) =
    do { (r, s) \<leftarrow> run_command tbl cmdbuf finaltoken (Some l) CMD_FLAG_REPEAT s;
         Some (if r \<le> 0 then lastcommand[0 := 0] else lastcommand, r, s) }"
proof -
  have "0 < length lastcommand" using cstr_bound [OF assms] by (cases lastcommand) auto
  then show ?thesis using read_cstr [OF assms]
    by (cases "run_command tbl cmdbuf finaltoken (Some l) CMD_FLAG_REPEAT s") (auto simp: main_loop_pass_def store_Some)
qed

lemma builtin_run_empty: "builtin_run_command tbl cmdbuf finaltoken (Some []) flag s = Some (-1, clear_ctrlc s)"
  by (simp add: builtin_run_command_def Let_def load_Some)

text \<open>C27 (common/main.c, \<open>main_loop\<close>, with \<open>run_command\<close>). A line whose commands end with the result \<open>r\<close> is followed by an empty
  line, which is meant to repeat the last repeatable command. When \<open>r\<close> is 0 or 1, that is after success and for 1 a
  repeatable command, nothing is run; only when \<open>r\<close> is -1, which says that it was not executed, the line is run again:
  \<open>run_command\<close> returns 0 for success and 1 for an error, where the loop expects a positive number for a command to repeat.\<close>

theorem main_loop_repeat:
  assumes "is_str l" and "l \<noteq> []" and "length l < CONFIG_SYS_CBSIZE" and "length lastcommand = CONFIG_SYS_CBSIZE"
    and "builtin_run_command tbl cmdbuf finaltoken (Some l) 0 s = Some (r, s1)"
  shows "\<exists>last1. main_loop_pass tbl cmdbuf finaltoken (int (length l)) (l @ [0]) (lastcommand, rc, s) = Some (last1, if r = -1 then 1 else 0, s1)
    \<and> main_loop_pass tbl cmdbuf finaltoken 0 [0] (last1, if r = -1 then 1 else 0, s1) =
      (if r = -1
       then do { (r2, s2) \<leftarrow> builtin_run_command tbl cmdbuf finaltoken (Some l) CMD_FLAG_REPEAT s1;
                 Some (if r2 = -1 then last1 else last1[0 := 0], if r2 = -1 then 1 else 0, s2) }
       else Some (last1, 1, clear_ctrlc s1))"
proof -
  let ?rest = "tl l @ 0 # drop (length l + 1) lastcommand"
  define last1 where "last1 = (if r = -1 then hd l else 0) # ?rest"
  have "cstr (l @ [0]) 0 l" using cstr_first [of l "[]"] assms(1) by (simp add: is_str_def)
  then have first: "main_loop_pass tbl cmdbuf finaltoken (int (length l)) (l @ [0]) (lastcommand, rc, s) = Some (last1, if r = -1 then 1 else 0, s1)"
    using main_loop_line [of "l @ [0]" l lastcommand tbl cmdbuf finaltoken rc s] assms by (simp add: run_command_def last1_def)
  show ?thesis
  proof (cases "r = -1")
    case True
    then have "last1 = l @ 0 # drop (length l + 1) lastcommand" using assms(2) by (cases l) (simp_all add: last1_def)
    then have c: "cstr last1 0 l" using assms(1) cstr_first [of l "drop (length l + 1) lastcommand"] by (simp add: is_str_def)
    show ?thesis using first True main_loop_empty [OF c, of tbl cmdbuf finaltoken "[0]" 1 s1]
      by (cases "builtin_run_command tbl cmdbuf finaltoken (Some l) CMD_FLAG_REPEAT s1") (auto simp: run_command_def)
  next
    case False
    then have c: "cstr last1 0 []" by (simp add: last1_def load_Some)
    show ?thesis using first False main_loop_empty [OF c, of tbl cmdbuf finaltoken "[0]" 0 s1] by (auto simp: run_command_def builtin_run_empty)
  qed
qed

text \<open>The command \<open>cp\<close> of the table succeeds and is repeatable; an empty line does not repeat it.\<close>

lemma cp_runs: "builtin_run_command two_commands (replicate 256 7) (replicate 256 8) (Some [99, 112]) 0 no_monitor = Some (1, no_monitor)"
proof -
  have keeps: "keeps_env two_commands" by (simp add: keeps_env_def two_commands_def)
  have args: "args_of no_monitor [99, 112] = [[99, 112]]"
    by (simp add: args_of_def expand_Cons advance_def words.simps isblank_def CONFIG_SYS_CBSIZE_def CONFIG_SYS_MAXARGS_def)
  have "find_cmd_tbl (Some [99, 112]) two_commands = Some (Some (hd two_commands))"
    using strchr_dot [of "[99, 112]"] strlen_str [of "[99, 112]"] str_starts_take [of "[99, 112]" "[99, 112]" "Suc (Suc 0)"]
    by (simp add: find_cmd_tbl_def is_str_def two_commands_def)
  then have "cmd_process two_commands 0 [[99, 112]] 1 no_monitor = Some (0, 1, no_monitor)"
    by (simp add: cmd_process_def load_Some two_commands_def CMD_RET_SUCCESS_def CMD_RET_USAGE_def)
  moreover have "tokens [99, 112] = [[99, 112]]" by (simp add: tokens.simps)
  moreover have "clear_ctrlc no_monitor = no_monitor" "searchable (env_htab no_monitor)" "\<not> ctrlc_was_pressed no_monitor"
    by (simp_all add: clear_ctrlc_def no_monitor_def hwf_searchable one_table_hwf)
  ultimately show ?thesis
    using builtin_run_spec [OF keeps, of no_monitor "[99, 112]" "replicate 256 7" "replicate 256 8" 0] args
    by (simp add: is_str_def CONFIG_SYS_CBSIZE_def)
qed

theorem main_loop_repeat_witness:
  "\<exists>last1. main_loop_pass two_commands (replicate 256 7) (replicate 256 8) 2 [99, 112, 0] (replicate 256 0, 0, no_monitor) = Some (last1, 0, no_monitor)
    \<and> main_loop_pass two_commands (replicate 256 7) (replicate 256 8) 0 [0] (last1, 0, no_monitor) = Some (last1, 1, clear_ctrlc no_monitor)"
  using main_loop_repeat [of "[99, 112]" "replicate 256 0" two_commands "replicate 256 7" "replicate 256 8" no_monitor 1 no_monitor 0] cp_runs
  by (simp add: is_str_def CONFIG_SYS_CBSIZE_def)

end
