(* ===== verification/Line_Editor.thy ===== *)
theory Line_Editor
  imports Command
begin

unbundle bit_operations_syntax

text \<open>
  The line editor of common/main.c: the history, \<open>cread_line\<close> with its keys and escape sequences, and the completion of
  commands in common/command.c. What is written to the console is left out. The characters that are typed are a list.
\<close>

section \<open>History\<close>

definition HIST_MAX :: nat where "HIST_MAX = 20"
definition HIST_SIZE :: nat where "HIST_SIZE = CONFIG_SYS_CBSIZE"

text \<open>\<open>hist_list[i]\<close> is \<open>hist_lines[i]\<close> from \<open>hist_init\<close> on.\<close>

record history =
  hist_max :: int
  hist_add_idx :: int
  hist_cur :: int
  hist_num :: u32
  hist_lines :: "mem list"

definition hist_init :: "history \<Rightarrow> history option" where
  "hist_init h =
     do { ls \<leftarrow> foldM (\<lambda>i ls. do { l \<leftarrow> load ls i; l \<leftarrow> store l 0 0; store ls i l }) [0..<HIST_MAX] (hist_lines h);
          Some \<lparr>hist_max = 0, hist_add_idx = 0, hist_cur = -1, hist_num = 0, hist_lines = ls\<rparr> }"

definition cread_add_to_hist :: "mem \<Rightarrow> history \<Rightarrow> history option" where
  "cread_add_to_hist line h =
     (if hist_add_idx h < 0 then None else
      do { n \<leftarrow> strlen line 0;
           l \<leftarrow> load (hist_lines h) (nat (hist_add_idx h));
           l \<leftarrow> copy_bytes l 0 line 0 (n + 1);
           ls \<leftarrow> store (hist_lines h) (nat (hist_add_idx h)) l;
           let idx = (if hist_add_idx h + 1 \<ge> int HIST_MAX then 0 else hist_add_idx h + 1) in
           Some (h\<lparr>hist_lines := ls, hist_add_idx := idx, hist_max := (if idx > hist_max h then idx else hist_max h), hist_num := hist_num h + 1\<rparr>) })"

definition hist_line :: "history \<Rightarrow> mem option" where
  "hist_line h = (if hist_cur h < 0 then None else load (hist_lines h) (nat (hist_cur h)))"

definition hist_prev :: "history \<Rightarrow> (mem option \<times> history) option" where
  "hist_prev h =
     (if hist_cur h < 0 then Some (None, h)
      else let old_cur = hist_cur h; cur = (if hist_cur h - 1 < 0 then hist_max h else hist_cur h - 1) in
        if cur = hist_add_idx h then Some (None, h\<lparr>hist_cur := old_cur\<rparr>)
        else do { l \<leftarrow> hist_line (h\<lparr>hist_cur := cur\<rparr>); Some (Some l, h\<lparr>hist_cur := cur\<rparr>) })"

definition hist_next :: "history \<Rightarrow> (mem option \<times> history) option" where
  "hist_next h =
     (if hist_cur h < 0 then Some (None, h)
      else if hist_cur h = hist_add_idx h then Some (None, h)
      else let cur = (if hist_cur h + 1 > hist_max h then 0 else hist_cur h + 1) in
        if cur = hist_add_idx h then Some (Some [0], h\<lparr>hist_cur := cur\<rparr>)
        else do { l \<leftarrow> hist_line (h\<lparr>hist_cur := cur\<rparr>); Some (Some l, h\<lparr>hist_cur := cur\<rparr>) })"

section \<open>Completion\<close>

definition CONFIG_SYS_PROMPT :: mem where
  "CONFIG_SYS_PROMPT = map (\<lambda>c. of_nat (of_char c)) ''MX25PDK U-Boot > ''"

text \<open>The loop of \<open>make_argv\<close> is the one of \<open>parse_line\<close> with another bound.\<close>

definition make_argv :: "mem \<Rightarrow> nat \<Rightarrow> (mem \<times> nat list) option" where
  "make_argv m argvsz = do { (m, argv, nul) \<leftarrow> parse_args (argvsz - 1) m 0; Some (m, argv) }"

fun match_loop :: "mem \<Rightarrow> nat \<Rightarrow> nat \<Rightarrow> ('c, 'w) cmd_tbl_s list \<Rightarrow> mem list \<Rightarrow> mem list option" where
  "match_loop c len maxv [] cmdv = Some cmdv"
| "match_loop c len maxv (t # ts) cmdv =
     do { clen \<leftarrow> strlen (cmd_name t @ [0]) 0;
          if clen < len then match_loop c len maxv ts cmdv
          else do {
            r \<leftarrow> memcmp (c @ [0] @ cmd_name t @ [0]) 0 (length c + 1) len;
            if r \<noteq> 0 then match_loop c len maxv ts cmdv
            else if length cmdv \<ge> maxv - 2 then Some (cmdv @ [[46, 46, 46]])
            else match_loop c len maxv ts (cmdv @ [cmd_name t]) } }"

text \<open>Without arguments the loop over all commands never counts \<open>n_found\<close> up.\<close>

definition complete_cmdv :: "('c, 'w) cmd_tbl_s list \<Rightarrow> mem list \<Rightarrow> byte \<Rightarrow> nat \<Rightarrow> mem list option" where
  "complete_cmdv tbl argv last_char maxv =
     (case argv of [] \<Rightarrow> Some []
      | c # rest \<Rightarrow>
        if rest \<noteq> [] \<or> last_char = 0 \<or> isblank last_char
        then do { t \<leftarrow> find_cmd_tbl (Some c) tbl;
                  case t of None \<Rightarrow> Some []
                  | Some t \<Rightarrow> (case complete t of None \<Rightarrow> Some [] | Some f \<Rightarrow> f argv last_char maxv) }
        else do {
          p \<leftarrow> strchr (c @ [0]) 0 46;
          len \<leftarrow> (case p of None \<Rightarrow> strlen (c @ [0]) 0 | Some a \<Rightarrow> Some a);
          match_loop c len maxv tbl [] })"

fun eq_len :: "mem \<Rightarrow> mem \<Rightarrow> nat" where
  "eq_len (x # s) (y # t) = (if y \<noteq> x then 0 else Suc (eq_len s t))"
| "eq_len _ _ = 0"

definition find_common_prefix :: "mem list \<Rightarrow> nat" where
  "find_common_prefix argv =
     (case argv of [] \<Rightarrow> 0 | anchor # ts \<Rightarrow> fold (\<lambda>t len. eq_len (take len anchor) t) ts (length anchor))"

text \<open>The result is what the function returns, the buffer and \<open>*np\<close>. A pointer behind the end of a name is undefined.\<close>

definition cmd_auto_complete ::
  "('c, 'w) cmd_tbl_s list \<Rightarrow> mem \<Rightarrow> mem \<Rightarrow> mem \<Rightarrow> nat \<Rightarrow> (int \<times> mem \<times> nat) option" where
  "cmd_auto_complete tbl tmp_buf prompt buf n =
     (if prompt \<noteq> CONFIG_SYS_PROMPT then Some (0, buf, n)
      else do {
        cnt \<leftarrow> strlen buf 0;
        last_char \<leftarrow> (if cnt \<ge> 1 then load buf (cnt - 1) else Some 0);
        tmp \<leftarrow> copy_bytes tmp_buf 0 buf 0 (cnt + 1);
        (tmp, ps) \<leftarrow> make_argv tmp (CONFIG_SYS_MAXARGS + 1);
        argv \<leftarrow> read_args tmp ps;
        cmdv \<leftarrow> complete_cmdv tbl argv last_char 20;
        case cmdv of
          [] \<Rightarrow> Some (if length argv > 1 then 0 else 1, buf, n)
        | m # ms \<Rightarrow> do {
            arg \<leftarrow> load argv (length argv - 1);
            let k = length arg;
            let j = find_common_prefix cmdv;
            let s = (if ms = [] then Some (if k \<le> length m then Some (drop k m, [32]) else None)
                     else if k < j then Some (Some (take (j - k) (drop k m), [])) else None);
            case s of
              None \<Rightarrow> Some (1, buf, n)
            | Some None \<Rightarrow> None
            | Some (Some (s, sep)) \<Rightarrow>
                if n + (length s + length sep) \<ge> CONFIG_SYS_CBSIZE - 2 then Some (1, buf, n)
                else do { buf \<leftarrow> copy_bytes buf cnt (s @ sep @ [0]) 0 (length s + length sep + 1);
                          Some (1, buf, n + (length s + length sep)) } } })"

section \<open>Editing\<close>

record editor =
  num :: nat
  eol_num :: nat
  buf :: mem
  insert_mode :: bool
  esc_len :: nat
  esc_save :: mem
  hist :: history

definition cread_add_char :: "nat \<Rightarrow> byte \<Rightarrow> bool \<Rightarrow> editor \<Rightarrow> editor option" where
  "cread_add_char len ichar ins e =
     (if (ins \<or> num e = eol_num e) \<and> eol_num e > len - 1 then Some e
      else let e = (if ins \<or> num e = eol_num e then e\<lparr>eol_num := eol_num e + 1\<rparr> else e) in
        if ins
        then let wlen = eol_num e - num e in
          do { b \<leftarrow> (if wlen > 1 then do { (_, b) \<leftarrow> memmove (buf e) (num e + 1) (num e) (wlen - 1); Some b } else Some (buf e));
               b \<leftarrow> store b (num e) ichar;
               Some (e\<lparr>buf := b, num := num e + 1\<rparr>) }
        else do { b \<leftarrow> store (buf e) (num e) ichar; Some (e\<lparr>buf := b, num := num e + 1\<rparr>) })"

definition cread_add_str :: "nat \<Rightarrow> mem \<Rightarrow> bool \<Rightarrow> editor \<Rightarrow> editor option" where
  "cread_add_str len str ins e = foldM (\<lambda>c. cread_add_char len c ins) str e"

definition BEGINNING_OF_LINE :: "editor \<Rightarrow> editor" where
  "BEGINNING_OF_LINE e = e\<lparr>num := 0\<rparr>"

definition ERASE_TO_EOL :: "editor \<Rightarrow> editor" where
  "ERASE_TO_EOL e = (if num e < eol_num e then e\<lparr>eol_num := num e\<rparr> else e)"

definition REFRESH_TO_EOL :: "editor \<Rightarrow> editor" where
  "REFRESH_TO_EOL e = (if num e < eol_num e then e\<lparr>num := eol_num e\<rparr> else e)"

definition key_delete :: "editor \<Rightarrow> editor option" where
  "key_delete e =
     (if num e < eol_num e
      then let wlen = eol_num e - num e - 1 in
        do { b \<leftarrow> (if wlen \<noteq> 0 then do { (_, b) \<leftarrow> memmove (buf e) (num e) (num e + 1) wlen; Some b } else Some (buf e));
             Some (e\<lparr>buf := b, eol_num := eol_num e - 1\<rparr>) }
      else Some e)"

definition key_backspace :: "editor \<Rightarrow> editor option" where
  "key_backspace e =
     (if num e \<noteq> 0
      then let wlen = eol_num e - num e in
        do { (_, b) \<leftarrow> memmove (buf e) (num e - 1) (num e - 1 + 1) wlen;
             Some (e\<lparr>num := num e - 1, buf := b, eol_num := eol_num e - 1\<rparr>) }
      else Some e)"

definition key_history :: "bool \<Rightarrow> editor \<Rightarrow> editor option" where
  "key_history prev e =
     do { (hline, h) \<leftarrow> (if prev then hist_prev (hist e) else hist_next (hist e));
          let e = e\<lparr>esc_len := 0, hist := h\<rparr>;
          case hline of None \<Rightarrow> Some e
          | Some l \<Rightarrow> do {
              let e = ERASE_TO_EOL (BEGINNING_OF_LINE e);
              n \<leftarrow> strlen l 0;
              b \<leftarrow> copy_bytes (buf e) 0 l 0 (n + 1);
              n \<leftarrow> strlen b 0;
              Some (REFRESH_TO_EOL (e\<lparr>buf := b, eol_num := n\<rparr>)) } }"

definition key_tab :: "('c, 'w) cmd_tbl_s list \<Rightarrow> mem \<Rightarrow> mem \<Rightarrow> editor \<Rightarrow> editor option" where
  "key_tab tbl tmp_buf prompt e =
     (if num e < eol_num e then Some e
      else do {
        b \<leftarrow> store (buf e) (num e) 0;
        (r, b, num2) \<leftarrow> cmd_auto_complete tbl tmp_buf prompt b (num e);
        Some (if r \<noteq> 0 then e\<lparr>buf := b, num := num2, eol_num := eol_num e + num2 - num e\<rparr> else e\<lparr>buf := b\<rparr>) })"

text \<open>The last \<open>switch\<close>: \<^term>\<open>None\<close> inside is a control-C, after which the caller empties the buffer and returns.\<close>

definition key_switch :: "('c, 'w) cmd_tbl_s list \<Rightarrow> mem \<Rightarrow> mem \<Rightarrow> nat \<Rightarrow> byte \<Rightarrow> editor \<Rightarrow> editor option option" where
  "key_switch tbl tmp_buf prompt len ichar e =
     (if ichar = 0x1b
      then if esc_len e = 0 then do { es \<leftarrow> store (esc_save e) (esc_len e) ichar; Some (Some (e\<lparr>esc_save := es, esc_len := 1\<rparr>)) }
           else Some (Some (e\<lparr>esc_len := 0\<rparr>))
      else if ichar = 1 then Some (Some (BEGINNING_OF_LINE e))
      else if ichar = 3 then Some None
      else if ichar = 6 then Some (Some (if num e < eol_num e then e\<lparr>num := num e + 1\<rparr> else e))
      else if ichar = 2 then Some (Some (if num e \<noteq> 0 then e\<lparr>num := num e - 1\<rparr> else e))
      else if ichar = 4 then do { e \<leftarrow> key_delete e; Some (Some e) }
      else if ichar = 11 then Some (Some (ERASE_TO_EOL e))
      else if ichar = 5 then Some (Some (REFRESH_TO_EOL e))
      else if ichar = 15 then Some (Some (e\<lparr>insert_mode := \<not> insert_mode e\<rparr>))
      else if ichar = 24 \<or> ichar = 21 then Some (Some (ERASE_TO_EOL (BEGINNING_OF_LINE e)))
      else if ichar = 255 \<or> ichar = 127 \<or> ichar = 8 then do { e \<leftarrow> key_backspace e; Some (Some e) }
      else if ichar = 16 \<or> ichar = 14 then do { e \<leftarrow> key_history (ichar = 16) e; Some (Some e) }
      else if ichar = 9 then do { e \<leftarrow> key_tab tbl tmp_buf prompt e; Some (Some e) }
      else do { e \<leftarrow> cread_add_char len ichar (insert_mode e) e; Some (Some e) })"

text \<open>The body of the loop for a character that is not the end of the line.\<close>

definition arrow_key :: "byte \<Rightarrow> byte option" where
  "arrow_key c = (if c = 68 then Some 2 else if c = 67 then Some 6 else if c = 72 then Some 1
     else if c = 65 then Some 16 else if c = 66 then Some 14 else None)"

definition cread_key :: "('c, 'w) cmd_tbl_s list \<Rightarrow> mem \<Rightarrow> mem \<Rightarrow> nat \<Rightarrow> byte \<Rightarrow> editor \<Rightarrow> editor option option" where
  "cread_key tbl tmp_buf prompt len ichar e =
     (if esc_len e = 0 then key_switch tbl tmp_buf prompt len ichar e
      else if esc_len e = 1
      then if ichar = 91
           then do { es \<leftarrow> store (esc_save e) (esc_len e) ichar; Some (Some (e\<lparr>esc_save := es, esc_len := 2\<rparr>)) }
           else do { e \<leftarrow> cread_add_str len (take (esc_len e) (esc_save e)) (insert_mode e) e; Some (Some (e\<lparr>esc_len := 0\<rparr>)) }
      else case arrow_key ichar of
        Some c \<Rightarrow> key_switch tbl tmp_buf prompt len c (e\<lparr>esc_len := 0\<rparr>)
      | None \<Rightarrow> do {
          es \<leftarrow> store (esc_save e) (esc_len e) ichar;
          let e = e\<lparr>esc_save := es, esc_len := esc_len e + 1\<rparr>;
          e \<leftarrow> cread_add_str len (take (esc_len e) (esc_save e)) (insert_mode e) e;
          Some (Some (e\<lparr>esc_len := 0\<rparr>)) })"

text \<open>\<open>cread_line\<close> on the characters that are typed; the time-out is not used. The result is what it returns, \<open>*len\<close>, the
  buffer and the history; \<^term>\<open>None\<close> inside means that more characters are waited for.\<close>

fun cread_loop :: "('c, 'w) cmd_tbl_s list \<Rightarrow> mem \<Rightarrow> mem \<Rightarrow> nat \<Rightarrow> mem \<Rightarrow> editor \<Rightarrow> (int \<times> nat \<times> mem \<times> history) option option" where
  "cread_loop tbl tmp_buf prompt len [] e = Some None"
| "cread_loop tbl tmp_buf prompt len (ichar # keys) e =
     (if ichar = 10 \<or> ichar = 13
      then do { b \<leftarrow> store (buf e) (eol_num e) 0;
                c \<leftarrow> load b 0;
                h \<leftarrow> (if c \<noteq> 0 \<and> c \<noteq> 33 then cread_add_to_hist b (hist e) else Some (hist e));
                Some (Some (0, eol_num e, b, h\<lparr>hist_cur := hist_add_idx h\<rparr>)) }
      else do { r \<leftarrow> cread_key tbl tmp_buf prompt len ichar e;
                case r of None \<Rightarrow> do { b \<leftarrow> store (buf e) 0 0; Some (Some (-1, len, b, hist e)) }
                | Some e \<Rightarrow> cread_loop tbl tmp_buf prompt len keys e })"

text \<open>\<open>cread_add_str(buf, init_len, 1, ...)\<close> with the buffer itself as the string.\<close>

definition add_initial :: "nat \<Rightarrow> nat \<Rightarrow> editor \<Rightarrow> editor option" where
  "add_initial len n e = foldM (\<lambda>i e. do { c \<leftarrow> load (buf e) i; cread_add_char len c True e }) [0..<n] e"

definition cread_line :: "('c, 'w) cmd_tbl_s list \<Rightarrow> mem \<Rightarrow> mem \<Rightarrow> mem \<Rightarrow> nat \<Rightarrow> mem \<Rightarrow> mem \<Rightarrow> history \<Rightarrow> (int \<times> nat \<times> mem \<times> history) option option" where
  "cread_line tbl tmp_buf prompt b len es keys h =
     do { init_len \<leftarrow> strlen b 0;
          e \<leftarrow> add_initial len init_len \<lparr>num = 0, eol_num = 0, buf = b, insert_mode = True, esc_len = 0, esc_save = es, hist = h\<rparr>;
          cread_loop tbl tmp_buf prompt len keys e }"

text \<open>\<open>readline_into_buffer\<close> after relocation; \<open>esc_save\<close> is uninitialised.\<close>

definition readline_into_buffer ::
  "('c, 'w) cmd_tbl_s list \<Rightarrow> mem \<Rightarrow> mem \<Rightarrow> mem \<Rightarrow> mem \<Rightarrow> mem \<Rightarrow> bool \<times> history \<Rightarrow> (int \<times> mem \<times> bool \<times> history) option option" where
  "readline_into_buffer tbl tmp_buf es prompt b keys st =
     do { h \<leftarrow> (if \<not> fst st then hist_init (snd st) else Some (snd st));
          r \<leftarrow> cread_line tbl tmp_buf prompt b CONFIG_SYS_CBSIZE es keys h;
          case r of None \<Rightarrow> Some None | Some (rc, len, b, h) \<Rightarrow> Some (Some (if rc < 0 then rc else int len, b, True, h)) }"

definition readline ::
  "('c, 'w) cmd_tbl_s list \<Rightarrow> mem \<Rightarrow> mem \<Rightarrow> mem \<Rightarrow> mem \<Rightarrow> mem \<Rightarrow> bool \<times> history \<Rightarrow> (int \<times> mem \<times> bool \<times> history) option option" where
  "readline tbl tmp_buf es prompt console_buffer keys st =
     do { b \<leftarrow> store console_buffer 0 0; readline_into_buffer tbl tmp_buf es prompt b keys st }"

end
