(* ===== verification/Line_Proofs.thy ===== *)
theory Line_Proofs
  imports Line_Editor Env_Proofs
begin

unbundle bit_operations_syntax

text \<open>
  The line editor refines a pair of texts, the one before and the one behind the cursor. For every sequence of keys but
  the tab, the buffer of 257 bytes holds the two texts and no access is outside of it; the line that is returned is what
  the keys make of the pair of texts; a line that was entered comes back with the key for the previous line.
\<close>

section \<open>Texts around a cursor\<close>

record zipper =
  zl :: mem
  zr :: mem
  zins :: bool
  zesc :: nat
  zhist :: history

definition zadd :: "nat \<Rightarrow> zipper \<Rightarrow> byte \<Rightarrow> zipper" where
  "zadd len z c =
     (if (zins z \<or> zr z = []) \<and> len \<le> length (zl z) + length (zr z) then z
      else z\<lparr>zl := zl z @ [c], zr := (if zins z then zr z else tl (zr z))\<rparr>)"

definition zhistory :: "bool \<Rightarrow> zipper \<Rightarrow> zipper" where
  "zhistory p z =
     (case (if p then hist_prev (zhist z) else hist_next (zhist z)) of
        None \<Rightarrow> z
      | Some (None, h) \<Rightarrow> z\<lparr>zhist := h\<rparr>
      | Some (Some l, h) \<Rightarrow> z\<lparr>zl := takeWhile (\<lambda>c. c \<noteq> 0) l, zr := [], zhist := h\<rparr>)"

definition zswitch :: "nat \<Rightarrow> byte \<Rightarrow> zipper \<Rightarrow> zipper option" where
  "zswitch len c z =
     (if c = 27 then Some (z\<lparr>zesc := 1\<rparr>)
      else if c = 1 then Some (z\<lparr>zl := [], zr := zl z @ zr z\<rparr>)
      else if c = 3 then None
      else if c = 6 then Some (if zr z = [] then z else z\<lparr>zl := zl z @ [hd (zr z)], zr := tl (zr z)\<rparr>)
      else if c = 2 then Some (if zl z = [] then z else z\<lparr>zl := butlast (zl z), zr := last (zl z) # zr z\<rparr>)
      else if c = 4 then Some (z\<lparr>zr := tl (zr z)\<rparr>)
      else if c = 11 then Some (z\<lparr>zr := []\<rparr>)
      else if c = 5 then Some (z\<lparr>zl := zl z @ zr z, zr := []\<rparr>)
      else if c = 15 then Some (z\<lparr>zins := \<not> zins z\<rparr>)
      else if c = 24 \<or> c = 21 then Some (z\<lparr>zl := [], zr := []\<rparr>)
      else if c = 255 \<or> c = 127 \<or> c = 8 then Some (z\<lparr>zl := butlast (zl z)\<rparr>)
      else if c = 16 \<or> c = 14 then Some (zhistory (c = 16) z)
      else Some (zadd len z c))"

definition zkey :: "nat \<Rightarrow> byte \<Rightarrow> zipper \<Rightarrow> zipper option" where
  "zkey len c z =
     (if zesc z = 0 then zswitch len c z
      else if zesc z = 1 then Some (if c = 91 then z\<lparr>zesc := 2\<rparr> else (zadd len z 27)\<lparr>zesc := 0\<rparr>)
      else case arrow_key c of
        Some k \<Rightarrow> zswitch len k (z\<lparr>zesc := 0\<rparr>)
      | None \<Rightarrow> Some ((foldl (zadd len) z [27, 91, c])\<lparr>zesc := 0\<rparr>))"

section \<open>The buffer\<close>

definition row_ok :: "mem \<Rightarrow> bool" where
  "row_ok l \<longleftrightarrow> length l = HIST_SIZE + 1 \<and> 0 \<in> set l"

definition hist_ok :: "history \<Rightarrow> bool" where
  "hist_ok h \<longleftrightarrow> length (hist_lines h) = HIST_MAX \<and> (\<forall>l\<in>set (hist_lines h). row_ok l)
     \<and> 0 \<le> hist_add_idx h \<and> hist_add_idx h \<le> hist_max h \<and> hist_max h < int HIST_MAX \<and> -1 \<le> hist_cur h \<and> hist_cur h < int HIST_MAX"

definition ed_rel :: "editor \<Rightarrow> zipper \<Rightarrow> bool" where
  "ed_rel e z \<longleftrightarrow> (\<exists>junk. buf e = zl z @ zr z @ junk) \<and> num e = length (zl z) \<and> eol_num e = length (zl z) + length (zr z)
     \<and> length (buf e) = CONFIG_SYS_CBSIZE + 1 \<and> eol_num e \<le> CONFIG_SYS_CBSIZE
     \<and> insert_mode e = zins z \<and> esc_len e = zesc z \<and> zesc z \<le> 2 \<and> length (esc_save e) = 8
     \<and> (1 \<le> zesc z \<longrightarrow> esc_save e ! 0 = 27) \<and> (zesc z = 2 \<longrightarrow> esc_save e ! 1 = 91)
     \<and> hist e = zhist z \<and> hist_ok (zhist z)"

lemma takeWhile_shorter: "x \<in> set l \<Longrightarrow> \<not> P x \<Longrightarrow> length (takeWhile P l) < length l"
  by (induction l) auto

lemma row_text: "row_ok l \<Longrightarrow> cstr l 0 (takeWhile (\<lambda>c. c \<noteq> 0) l)" "row_ok l \<Longrightarrow> length (takeWhile (\<lambda>c. c \<noteq> 0) l) \<le> HIST_SIZE"
proof -
  assume r: "row_ok l"
  let ?t = "takeWhile (\<lambda>c. c \<noteq> 0) l"
  have lt: "length ?t < length l" using r takeWhile_shorter [of 0 l "\<lambda>c. c \<noteq> 0"] by (auto simp: row_ok_def)
  then show "length ?t \<le> HIST_SIZE" using r by (simp add: row_ok_def)
  show "cstr l 0 ?t"
    unfolding cstr_iff using lt nth_length_takeWhile [OF lt] by (auto simp: takeWhile_eq_take [symmetric] dest: set_takeWhileD)
qed

lemma add_char_rel:
  assumes rel: "ed_rel e z" and len: "len \<le> CONFIG_SYS_CBSIZE" "0 < len"
  shows "\<exists>e'. cread_add_char len c (insert_mode e) e = Some e' \<and> ed_rel e' (zadd len z c) \<and> esc_len e' = esc_len e \<and> esc_save e' = esc_save e
    \<and> insert_mode e' = insert_mode e"
proof -
  obtain junk where b: "buf e = zl z @ zr z @ junk" using rel by (auto simp: ed_rel_def)
  have r: "num e = length (zl z)" "eol_num e = length (zl z) + length (zr z)" "insert_mode e = zins z"
    "length (buf e) = CONFIG_SYS_CBSIZE + 1" "eol_num e \<le> CONFIG_SYS_CBSIZE" using rel by (simp_all add: ed_rel_def)
  have full: "(insert_mode e \<or> num e = eol_num e) \<and> eol_num e > len - 1 \<longleftrightarrow> (zins z \<or> zr z = []) \<and> len \<le> length (zl z) + length (zr z)"
    using r len by auto
  show ?thesis
  proof (cases "(zins z \<or> zr z = []) \<and> len \<le> length (zl z) + length (zr z)")
    case True
    then show ?thesis using full rel by (simp add: cread_add_char_def zadd_def)
  next
    case False
    have junk: "junk \<noteq> []" using b r(2,4,5) by auto
    then obtain j js where j: "junk = j # js" by (cases junk) auto
    show ?thesis
    proof (cases "zins z")
      case ins: True
      have eol: "length (zl z) + length (zr z) < len" using False ins by simp
      have "cread_add_char len c (insert_mode e) e = Some (e\<lparr>eol_num := eol_num e + 1, buf := zl z @ c # zr z @ js, num := num e + 1\<rparr>)"
      proof (cases "zr z")
        case Nil
        then show ?thesis using False full b j r ins by (simp add: cread_add_char_def Let_def store_Some)
      next
        case (Cons y ys)
        have "memmove (buf e) (num e + 1) (num e) (length (zr z)) = Some (num e + 1, write_bytes (buf e) (num e + 1) (take (length (zr z)) (drop (num e) (buf e))))"
          by (rule memmove_area) (use b r(1) j in auto)
        moreover have "write_bytes (buf e) (num e + 1) (take (length (zr z)) (drop (num e) (buf e))) = zl z @ y # zr z @ js"
          unfolding b r(1) write_bytes_def using Cons j by simp
        ultimately have mm: "memmove (buf e) (Suc (length (zl z))) (length (zl z)) (Suc (length ys)) = Some (Suc (length (zl z)), zl z @ y # zr z @ js)"
          using r(1) Cons by simp
        then show ?thesis using False full r ins Cons by (simp add: cread_add_char_def Let_def store_Some)
      qed
      then show ?thesis using rel b j r ins eol False len by (auto simp: ed_rel_def zadd_def)
    next
      case over: False
      have "store (buf e) (num e) c = Some (zl z @ c # tl (zr z) @ (if zr z = [] then js else junk))"
        unfolding b r(1) using j by (cases "zr z") (simp_all add: store_Some)
      then have "cread_add_char len c (insert_mode e) e = Some (e\<lparr>eol_num := (if zr z = [] then eol_num e + 1 else eol_num e),
          buf := zl z @ c # tl (zr z) @ (if zr z = [] then js else junk), num := num e + 1\<rparr>)"
        using False full r over by (cases "zr z") (auto simp: cread_add_char_def Let_def)
      then show ?thesis using rel b j r over False len by (cases "zr z") (auto simp: ed_rel_def zadd_def)
    qed
  qed
qed

lemma add_str_rel:
  assumes "len \<le> CONFIG_SYS_CBSIZE" "0 < len"
  shows "ed_rel e z \<Longrightarrow> \<exists>e'. cread_add_str len cs (insert_mode e) e = Some e' \<and> ed_rel e' (foldl (zadd len) z cs) \<and> esc_len e' = esc_len e \<and> esc_save e' = esc_save e"
proof (induction cs arbitrary: e z)
  case (Cons c cs)
  obtain e1 where e1: "cread_add_char len c (insert_mode e) e = Some e1" "ed_rel e1 (zadd len z c)" "esc_len e1 = esc_len e" "esc_save e1 = esc_save e"
      "insert_mode e1 = insert_mode e"
    using add_char_rel [OF Cons.prems assms, of c] by blast
  then show ?case using Cons.IH [OF e1(2)] by (auto simp: cread_add_str_def)
qed (simp add: cread_add_str_def foldM_Nil)

lemma drop_last: "xs \<noteq> [] \<Longrightarrow> drop (length xs - 1) xs = [last xs]"
  by (induction xs rule: rev_induct) simp_all

lemma drop_append_one: "drop (length xs) (y # xs @ ys) = drop (length xs) (y # xs) @ ys"
  using drop_append [of "length xs" "y # xs" ys] by simp

lemma delete_rel:
  assumes rel: "ed_rel e z"
  shows "\<exists>e'. key_delete e = Some e' \<and> ed_rel e' (z\<lparr>zr := tl (zr z)\<rparr>)"
proof -
  obtain junk where b: "buf e = zl z @ zr z @ junk" using rel by (auto simp: ed_rel_def)
  have r: "num e = length (zl z)" "eol_num e = length (zl z) + length (zr z)" using rel by (simp_all add: ed_rel_def)
  show ?thesis
  proof (cases "zr z")
    case Nil
    then show ?thesis using r rel by (auto simp: key_delete_def ed_rel_def)
  next
    case (Cons y ys)
    define b' where "b' = zl z @ ys @ (if ys = [] then [y] else [last (y # ys)]) @ junk"
    have "(if length ys \<noteq> 0 then do { (_, b) \<leftarrow> memmove (buf e) (num e) (num e + 1) (length ys); Some b } else Some (buf e)) = Some b'"
    proof (cases "ys = []")
      case True
      then show ?thesis using b Cons by (simp add: b'_def)
    next
      case False
      have "memmove (buf e) (num e) (num e + 1) (length ys) = Some (num e, write_bytes (buf e) (num e) (take (length ys) (drop (num e + 1) (buf e))))"
        by (rule memmove_area) (use b r(1) Cons in auto)
      moreover have "drop (length ys) (y # ys) = [last (y # ys)]"
        using False drop_last [of ys] by (cases ys) auto
      then have "write_bytes (buf e) (num e) (take (length ys) (drop (num e + 1) (buf e))) = b'"
        unfolding b r(1) write_bytes_def b'_def using Cons False drop_append_one [of ys y junk] by simp
      ultimately show ?thesis using False by simp
    qed
    then have "key_delete e = Some (e\<lparr>buf := b', eol_num := eol_num e - 1\<rparr>)" using r Cons by (simp add: key_delete_def Let_def)
    then show ?thesis using rel b Cons r by (auto simp: ed_rel_def b'_def)
  qed
qed

lemma backspace_rel:
  assumes rel: "ed_rel e z"
  shows "\<exists>e'. key_backspace e = Some e' \<and> ed_rel e' (z\<lparr>zl := butlast (zl z)\<rparr>)"
proof -
  obtain junk where b: "buf e = zl z @ zr z @ junk" using rel by (auto simp: ed_rel_def)
  have r: "num e = length (zl z)" "eol_num e = length (zl z) + length (zr z)" using rel by (simp_all add: ed_rel_def)
  show ?thesis
  proof (cases "zl z" rule: rev_cases)
    case Nil
    then show ?thesis using r rel by (auto simp: key_backspace_def ed_rel_def)
  next
    case (snoc l y)
    have mv: "memmove (buf e) (num e - 1) (num e - 1 + 1) (length (zr z)) = Some (num e - 1, write_bytes (buf e) (num e - 1) (take (length (zr z)) (drop (num e - 1 + 1) (buf e))))"
      by (rule memmove_area) (use b r(1) snoc in auto)
    have "\<exists>x. write_bytes (buf e) (num e - 1) (take (length (zr z)) (drop (num e - 1 + 1) (buf e))) = l @ zr z @ x # junk"
    proof -
      obtain x where "drop (length (zr z)) (y # zr z) = [x]"
        by (cases "drop (length (zr z)) (y # zr z)") (auto dest: arg_cong [of _ _ length])
      then have "drop (length (zr z)) (y # zr z @ junk) = x # junk" by (metis append_Cons append_Nil drop_append_one)
      then show ?thesis unfolding b r(1) write_bytes_def using snoc by (intro exI [of _ x]) simp
    qed
    then obtain x where "write_bytes (buf e) (num e - 1) (take (length (zr z)) (drop (num e - 1 + 1) (buf e))) = l @ zr z @ x # junk" by blast
    then have "key_backspace e = Some (e\<lparr>num := num e - 1, buf := l @ zr z @ x # junk, eol_num := eol_num e - 1\<rparr>)"
      using mv r snoc by (simp add: key_backspace_def Let_def)
    then show ?thesis using rel b snoc r by (auto simp: ed_rel_def)
  qed
qed

lemma history_step:
  assumes "hist_ok h"
  shows "\<exists>l h'. (if p then hist_prev h else hist_next h) = Some (l, h') \<and> hist_ok h' \<and> (\<forall>r. l = Some r \<longrightarrow> row_ok r \<or> r = [0])"
proof -
  have row: "\<exists>l. hist_line (h\<lparr>hist_cur := c\<rparr>) = Some l \<and> row_ok l" if "0 \<le> c" "c < int HIST_MAX" for c
    using assms that by (auto simp: hist_ok_def hist_line_def load_Some)
  have keep: "hist_ok (h\<lparr>hist_cur := c\<rparr>)" if "-1 \<le> c" "c < int HIST_MAX" for c using assms that by (simp add: hist_ok_def)
  have b: "0 \<le> hist_max h" "hist_max h < int HIST_MAX" "-1 \<le> hist_cur h" "hist_cur h < int HIST_MAX" "0 < HIST_MAX" using assms by (simp_all add: hist_ok_def HIST_MAX_def)
  show ?thesis
  proof (cases "hist_cur h < 0")
    case True
    then show ?thesis using assms by (simp add: hist_prev_def hist_next_def)
  next
    case False
    define c1 where "c1 = (if hist_cur h - 1 < 0 then hist_max h else hist_cur h - 1)"
    define c2 where "c2 = (if hist_cur h + 1 > hist_max h then 0 else hist_cur h + 1)"
    have c: "0 \<le> c1" "c1 < int HIST_MAX" "0 \<le> c2" "c2 < int HIST_MAX" using b False by (auto simp: c1_def c2_def)
    have p: "hist_prev h = (if c1 = hist_add_idx h then Some (None, h\<lparr>hist_cur := hist_cur h\<rparr>)
        else do { l \<leftarrow> hist_line (h\<lparr>hist_cur := c1\<rparr>); Some (Some l, h\<lparr>hist_cur := c1\<rparr>) })"
      using False by (simp add: hist_prev_def c1_def Let_def)
    have n: "hist_next h = (if hist_cur h = hist_add_idx h then Some (None, h) else if c2 = hist_add_idx h then Some (Some [0], h\<lparr>hist_cur := c2\<rparr>)
        else do { l \<leftarrow> hist_line (h\<lparr>hist_cur := c2\<rparr>); Some (Some l, h\<lparr>hist_cur := c2\<rparr>) })"
      using False by (simp add: hist_next_def c2_def Let_def)
    show ?thesis
      using p n row [OF c(1,2)] row [OF c(3,4)] keep [of c1] keep [of c2] keep [of "hist_cur h"] c b assms by (cases p) (auto split: if_splits)
  qed
qed

lemma history_rel:
  assumes rel: "ed_rel e z"
  shows "\<exists>e'. key_history p e = Some e' \<and> ed_rel e' ((zhistory p z)\<lparr>zesc := 0\<rparr>)"
proof -
  have h: "hist e = zhist z" "hist_ok (zhist z)" "length (buf e) = CONFIG_SYS_CBSIZE + 1" using rel by (simp_all add: ed_rel_def)
  obtain l h' where l: "(if p then hist_prev (zhist z) else hist_next (zhist z)) = Some (l, h')" "hist_ok h'" "\<And>r. l = Some r \<Longrightarrow> row_ok r \<or> r = [0]"
    using history_step [OF h(2), of p] by blast
  show ?thesis
  proof (cases l)
    case None
    then show ?thesis using l rel h(1) by (auto simp: key_history_def zhistory_def ed_rel_def)
  next
    case (Some r)
    let ?t = "takeWhile (\<lambda>c. c \<noteq> 0) r"
    have t: "cstr r 0 ?t" "length ?t \<le> CONFIG_SYS_CBSIZE" using l(3) [OF Some] row_text [of r] by (auto simp: HIST_SIZE_def load_def)
    have tr: "take (length ?t + 1) r = ?t @ [0]" using t(1) unfolding cstr_iff by (auto simp: take_Suc_conv_app_nth)
    have cp: "copy_bytes (buf e) 0 r 0 (length ?t + 1) = Some (?t @ 0 # drop (length ?t + 1) (buf e))"
      using t h(3) cstr_bound [OF t(1)] tr by (simp add: copy_bytes_Some)
    have "cstr (?t @ 0 # drop (length ?t + 1) (buf e)) 0 ?t" using cstr_no_nul [OF t(1)] by (simp add: cstr_iff nth_append)
    from strlen_cstr [OF this] have "key_history p e = Some (e\<lparr>esc_len := 0, hist := h', num := length ?t, eol_num := length ?t, buf := ?t @ 0 # drop (length ?t + 1) (buf e)\<rparr>)"
      using l(1) Some h(1) cp strlen_cstr [OF t(1)]
      by (auto simp: key_history_def BEGINNING_OF_LINE_def ERASE_TO_EOL_def REFRESH_TO_EOL_def Let_def)
    then show ?thesis using l Some rel t(2) by (auto simp: zhistory_def ed_rel_def)
  qed
qed

lemma moves:
  assumes rel: "ed_rel e z"
  shows "ed_rel (e\<lparr>esc_save := (esc_save e)[0 := 27], esc_len := Suc 0\<rparr>) (z\<lparr>zesc := Suc 0\<rparr>)"
    "ed_rel (BEGINNING_OF_LINE e) (z\<lparr>zl := [], zr := zl z @ zr z\<rparr>)"
    "zr z \<noteq> [] \<Longrightarrow> ed_rel (e\<lparr>num := Suc (length (zl z))\<rparr>) (z\<lparr>zl := zl z @ [hd (zr z)], zr := tl (zr z)\<rparr>)"
    "zl z \<noteq> [] \<Longrightarrow> ed_rel (e\<lparr>num := length (zl z) - Suc 0\<rparr>) (z\<lparr>zl := butlast (zl z), zr := last (zl z) # zr z\<rparr>)"
    "ed_rel (ERASE_TO_EOL e) (z\<lparr>zr := []\<rparr>)" "ed_rel (REFRESH_TO_EOL e) (z\<lparr>zl := zl z @ zr z, zr := []\<rparr>)"
    "ed_rel (e\<lparr>insert_mode := \<not> zins z\<rparr>) (z\<lparr>zins := \<not> zins z\<rparr>)" "ed_rel (ERASE_TO_EOL (BEGINNING_OF_LINE e)) (z\<lparr>zl := [], zr := []\<rparr>)"
    "ed_rel e z"
proof -
  obtain junk where b: "buf e = zl z @ zr z @ junk" using rel by (auto simp: ed_rel_def)
  note d = ed_rel_def BEGINNING_OF_LINE_def ERASE_TO_EOL_def REFRESH_TO_EOL_def
  show "ed_rel (e\<lparr>esc_save := (esc_save e)[0 := 27], esc_len := Suc 0\<rparr>) (z\<lparr>zesc := Suc 0\<rparr>)"
    "ed_rel (BEGINNING_OF_LINE e) (z\<lparr>zl := [], zr := zl z @ zr z\<rparr>)"
    "ed_rel (e\<lparr>insert_mode := \<not> zins z\<rparr>) (z\<lparr>zins := \<not> zins z\<rparr>)"
    using rel by (simp_all add: d)
  show "ed_rel (ERASE_TO_EOL e) (z\<lparr>zr := []\<rparr>)" "ed_rel (REFRESH_TO_EOL e) (z\<lparr>zl := zl z @ zr z, zr := []\<rparr>)"
    "ed_rel (ERASE_TO_EOL (BEGINNING_OF_LINE e)) (z\<lparr>zl := [], zr := []\<rparr>)"
    using rel by (auto simp: d)
  show "zr z \<noteq> [] \<Longrightarrow> ed_rel (e\<lparr>num := Suc (length (zl z))\<rparr>) (z\<lparr>zl := zl z @ [hd (zr z)], zr := tl (zr z)\<rparr>)"
    using rel by (cases "zr z") (auto simp: d)
  show "zl z \<noteq> [] \<Longrightarrow> ed_rel (e\<lparr>num := length (zl z) - Suc 0\<rparr>) (z\<lparr>zl := butlast (zl z), zr := last (zl z) # zr z\<rparr>)"
    using rel by (cases "zl z" rule: rev_cases) (auto simp: d)
qed (rule rel)

lemma switch_rel:
  assumes rel: "ed_rel e z" "zesc z = 0" and len: "len \<le> CONFIG_SYS_CBSIZE" "0 < len" and c: "c \<noteq> 9"
  shows "case zswitch len c z of None \<Rightarrow> key_switch tbl tmp_buf prompt len c e = Some None
    | Some z' \<Rightarrow> \<exists>e'. key_switch tbl tmp_buf prompt len c e = Some (Some e') \<and> ed_rel e' z'"
proof -
  obtain junk where b: "buf e = zl z @ zr z @ junk" using rel by (auto simp: ed_rel_def)
  have r: "num e = length (zl z)" "eol_num e = length (zl z) + length (zr z)" "insert_mode e = zins z" "esc_len e = 0" "length (esc_save e) = 8"
    using rel by (simp_all add: ed_rel_def)
  consider "c = 4" | "c = 255 \<or> c = 127 \<or> c = 8" | "c = 16 \<or> c = 14" | "c \<in> {27, 1, 3, 6, 2, 11, 5, 15, 24, 21}"
    | "c \<notin> {4, 255, 127, 8, 16, 14, 27, 1, 3, 6, 2, 11, 5, 15, 24, 21}" by blast
  then show ?thesis
  proof cases
    case 1
    then show ?thesis using delete_rel [OF rel(1)] by (auto simp: key_switch_def zswitch_def)
  next
    case 2
    then have "key_switch tbl tmp_buf prompt len c e = do { e \<leftarrow> key_backspace e; Some (Some e) }" "zswitch len c z = Some (z\<lparr>zl := butlast (zl z)\<rparr>)"
      by (elim disjE; simp add: key_switch_def zswitch_def)+
    then show ?thesis using backspace_rel [OF rel(1)] by auto
  next
    case 3
    have "(zhistory p z)\<lparr>zesc := 0\<rparr> = zhistory p z" for p using rel(2) by (auto simp: zhistory_def split: option.splits prod.splits)
    moreover have "key_switch tbl tmp_buf prompt len c e = do { e \<leftarrow> key_history (c = 16) e; Some (Some e) }" "zswitch len c z = Some (zhistory (c = 16) z)"
      using 3 by (elim disjE; simp add: key_switch_def zswitch_def)+
    ultimately show ?thesis using history_rel [OF rel(1), of "c = 16"] by auto
  next
    case 5
    then have "key_switch tbl tmp_buf prompt len c e = do { e \<leftarrow> cread_add_char len c (insert_mode e) e; Some (Some e) }" "zswitch len c z = Some (zadd len z c)"
      using c by (simp_all add: key_switch_def zswitch_def)
    then show ?thesis using add_char_rel [OF rel(1) len, of c] by auto
  next
    case 4
    have es: "store (esc_save e) 0 27 = Some ((esc_save e)[0 := 27])" using r(5) by (simp add: store_Some)
    show ?thesis
      using 4 moves [OF rel(1)] es r by (elim insertE emptyE) (simp_all add: key_switch_def zswitch_def rel(2))
  qed
qed

section \<open>Keys\<close>

lemma add_char_esc: "cread_add_char len c i (e\<lparr>esc_len := k\<rparr>) = do { e \<leftarrow> cread_add_char len c i e; Some (e\<lparr>esc_len := k\<rparr>) }"
  by (simp add: cread_add_char_def Let_def split: bind_splits prod.splits)

lemma add_str_esc: "cread_add_str len cs i (e\<lparr>esc_len := k\<rparr>) = do { e \<leftarrow> cread_add_str len cs i e; Some (e\<lparr>esc_len := k\<rparr>) }"
proof (induction cs arbitrary: e)
  case (Cons c cs)
  then show ?case by (simp add: cread_add_str_def add_char_esc)
qed (simp add: cread_add_str_def foldM_Nil)

lemma ed_rel_no_esc: "ed_rel e z \<Longrightarrow> ed_rel (e\<lparr>esc_len := 0\<rparr>) (z\<lparr>zesc := 0\<rparr>)"
  by (simp add: ed_rel_def)

lemma zadd_esc: "foldl (zadd len) (z\<lparr>zesc := k\<rparr>) cs = (foldl (zadd len) z cs)\<lparr>zesc := k\<rparr>"
proof (induction cs arbitrary: z)
  case (Cons c cs)
  have "zadd len (z\<lparr>zesc := k\<rparr>) c = (zadd len z c)\<lparr>zesc := k\<rparr>" by (simp add: zadd_def)
  then show ?case using Cons by simp
qed simp

lemma key_rel:
  assumes rel: "ed_rel e z" and len: "len \<le> CONFIG_SYS_CBSIZE" "0 < len" and c: "c \<noteq> 9"
  shows "case zkey len c z of None \<Rightarrow> cread_key tbl tmp_buf prompt len c e = Some None
    | Some z' \<Rightarrow> \<exists>e'. cread_key tbl tmp_buf prompt len c e = Some (Some e') \<and> ed_rel e' z'"
proof -
  have r: "esc_len e = zesc z" "length (esc_save e) = 8" "zesc z \<le> 2" using rel by (simp_all add: ed_rel_def)
  consider "zesc z = 0" | "zesc z = 1" | "zesc z = 2" using r(3) by linarith
  then show ?thesis
  proof cases
    case 1
    then show ?thesis using switch_rel [OF rel 1 len c, of tbl tmp_buf prompt] r(1) by (simp add: zkey_def cread_key_def split: option.splits)
  next
    case 2
    have es: "take 1 (esc_save e) = [27]" using rel 2 r(2) by (cases "esc_save e") (auto simp: ed_rel_def)
    obtain e1 where "cread_add_str len [27] (insert_mode e) e = Some e1" "ed_rel e1 (zadd len z 27)"
      using add_str_rel [OF len rel, of "[27]"] by auto
    moreover have "ed_rel (e\<lparr>esc_save := (esc_save e)[1 := 91], esc_len := 2\<rparr>) (z\<lparr>zesc := 2\<rparr>)" using rel 2 by (simp add: ed_rel_def)
    ultimately show ?thesis using 2 r es ed_rel_no_esc by (auto simp: zkey_def cread_key_def store_Some)
  next
    case 3
    have no: "ed_rel (e\<lparr>esc_len := 0\<rparr>) (z\<lparr>zesc := 0\<rparr>)" by (rule ed_rel_no_esc [OF rel])
    show ?thesis
    proof (cases "arrow_key c")
      case (Some k)
      then have "k \<noteq> 9" by (auto simp: arrow_key_def split: if_splits)
      then show ?thesis using Some 3 r(1) switch_rel [OF no _ len, of k tbl tmp_buf prompt] by (simp add: zkey_def cread_key_def split: option.splits)
    next
      case None
      let ?es = "(esc_save e)[2 := c]"
      have "ed_rel (e\<lparr>esc_save := ?es, esc_len := 0\<rparr>) (z\<lparr>zesc := 0\<rparr>)" using rel by (simp add: ed_rel_def)
      from add_str_rel [OF len this, of "[27, 91, c]"] obtain e1 where
        e1: "cread_add_str len [27, 91, c] (insert_mode e) (e\<lparr>esc_save := ?es, esc_len := 0\<rparr>) = Some e1" "ed_rel e1 (foldl (zadd len) (z\<lparr>zesc := 0\<rparr>) [27, 91, c])"
        by auto
      obtain e2 where e2: "cread_add_str len [27, 91, c] (insert_mode e) (e\<lparr>esc_save := ?es\<rparr>) = Some e2" "e1 = e2\<lparr>esc_len := 0\<rparr>"
        using e1(1) add_str_esc [where e = "e\<lparr>esc_save := ?es\<rparr>" and k = 0 and cs = "[27, 91, c]"] by (auto simp: bind_eq_Some_conv)
      have "cread_add_str len [27, 91, c] (insert_mode e) (e\<lparr>esc_save := ?es, esc_len := 3\<rparr>) = Some (e2\<lparr>esc_len := 3\<rparr>)"
        using e2(1) add_str_esc [where e = "e\<lparr>esc_save := ?es\<rparr>" and k = 3 and cs = "[27, 91, c]"] by simp
      moreover have "take 3 ?es = [27, 91, c]" using rel 3 r(2) by (auto simp: ed_rel_def take_Suc_conv_app_nth numeral_eq_Suc)
      ultimately have "cread_key tbl tmp_buf prompt len c e = Some (Some (e2\<lparr>esc_len := 0\<rparr>))"
        using 3 r None by (simp add: cread_key_def store_Some Let_def)
      moreover have "zkey len c z = Some (foldl (zadd len) (z\<lparr>zesc := 0\<rparr>) [27, 91, c])"
        unfolding zadd_esc using 3 None by (simp add: zkey_def)
      ultimately show ?thesis using e1(2) e2(2) by auto
    qed
  qed
qed

section \<open>Lines\<close>

datatype zresult = Waiting | Interrupted history | Line mem history

fun zrun :: "nat \<Rightarrow> mem \<Rightarrow> zipper \<Rightarrow> zresult" where
  "zrun len [] z = Waiting"
| "zrun len (c # keys) z =
     (if c = 10 \<or> c = 13 then Line (zl z @ zr z) (zhist z)
      else case zkey len c z of None \<Rightarrow> Interrupted (zhist z) | Some z' \<Rightarrow> zrun len keys z')"

lemma cstr_front: "0 \<notin> set t \<Longrightarrow> cstr (t @ 0 # j) 0 t"
  by (simp add: cstr_iff nth_append)

lemma takeWhile_front: "0 \<notin> set t \<Longrightarrow> takeWhile (\<lambda>c. c \<noteq> 0) (t @ 0 # j) = t"
  by (induction t) auto

text \<open>A line is put into the history, and the key for the previous line finds it.\<close>

lemma add_to_hist_spec:
  assumes h: "hist_ok h" and b: "cstr b 0 t" "length t \<le> HIST_SIZE"
  shows "\<exists>h' row h2. cread_add_to_hist b h = Some h' \<and> hist_ok (h'\<lparr>hist_cur := hist_add_idx h'\<rparr>)
    \<and> hist_prev (h'\<lparr>hist_cur := hist_add_idx h'\<rparr>) = Some (Some row, h2) \<and> takeWhile (\<lambda>c. c \<noteq> 0) row = t"
proof -
  define i where "i = nat (hist_add_idx h)"
  have i: "hist_add_idx h = int i" "i < HIST_MAX" "int i \<le> hist_max h" "hist_max h < int HIST_MAX" using h by (auto simp: hist_ok_def i_def)
  have row: "row_ok (hist_lines h ! i)" "length (hist_lines h) = HIST_MAX" using h i(2) by (auto simp: hist_ok_def)
  have str: "0 \<notin> set t" by (rule cstr_no_nul [OF b(1)])
  have tb: "take (length t + 1) b = t @ [0]" using b(1) unfolding cstr_iff by (auto simp: take_Suc_conv_app_nth)
  define r where "r = t @ 0 # drop (length t + 1) (hist_lines h ! i)"
  have cp: "copy_bytes (hist_lines h ! i) 0 b 0 (length t + 1) = Some r"
    using row(1) b(2) cstr_bound [OF b(1)] tb by (simp add: copy_bytes_Some row_ok_def r_def)
  have rok: "row_ok r" "takeWhile (\<lambda>c. c \<noteq> 0) r = t" using row(1) b(2) str by (auto simp: row_ok_def r_def takeWhile_front)
  define k where "k = (if i + 1 \<ge> HIST_MAX then 0 else i + 1)"
  define h' where "h' = h\<lparr>hist_lines := (hist_lines h)[i := r], hist_add_idx := int k, hist_max := max (int k) (hist_max h), hist_num := hist_num h + 1\<rparr>"
  have kk: "(if hist_add_idx h + 1 \<ge> int HIST_MAX then 0 else hist_add_idx h + 1) = int k" using i(1) by (auto simp: k_def)
  have "max (int k) (hist_max h) = (if int k > hist_max h then int k else hist_max h)" by (simp add: max_def)
  then have a: "cread_add_to_hist b h = Some h'"
    using strlen_cstr [OF b(1)] i row(2) cp unfolding cread_add_to_hist_def kk by (simp add: load_Some store_Some h'_def Let_def)
  have km: "k < HIST_MAX" using i(2) by (auto simp: k_def)
  have "\<forall>l\<in>set ((hist_lines h)[i := r]). row_ok l" using h rok(1) by (auto simp: hist_ok_def dest: set_update_subset_insert [THEN subsetD])
  then have ok: "hist_ok (h'\<lparr>hist_cur := hist_add_idx h'\<rparr>)" using h km i row(2) by (auto simp: hist_ok_def h'_def)
  have cur: "(if int k - 1 < 0 then hist_max h' else int k - 1) = int i" using i by (auto simp: k_def h'_def)
  have hl: "hist_lines h' = (hist_lines h)[i := r]" "hist_add_idx h' = int k" by (simp_all add: h'_def)
  have ne: "int i \<noteq> int k" using i(2) by (auto simp: k_def HIST_MAX_def)
  have "hist_prev (h'\<lparr>hist_cur := hist_add_idx h'\<rparr>) = Some (Some r, h'\<lparr>hist_cur := int i\<rparr>)"
    using cur ne i(2) row(2) hl by (cases "k = 0") (simp_all add: hist_prev_def hist_line_def Let_def load_Some)
  then show ?thesis using a ok rok(2) by blast
qed

lemma loop_rel:
  assumes len: "len \<le> CONFIG_SYS_CBSIZE" "0 < len"
  shows "ed_rel e z \<Longrightarrow> 9 \<notin> set keys \<Longrightarrow> (case zrun len keys z of
      Waiting \<Rightarrow> cread_loop tbl tmp_buf prompt len keys e = Some None
    | Interrupted h \<Rightarrow> \<exists>b. cread_loop tbl tmp_buf prompt len keys e = Some (Some (-1, len, b, h)) \<and> length b = CONFIG_SYS_CBSIZE + 1 \<and> hist_ok h
    | Line l h \<Rightarrow> \<exists>b h'. cread_loop tbl tmp_buf prompt len keys e = Some (Some (0, length l, b, h')) \<and> length b = CONFIG_SYS_CBSIZE + 1
        \<and> take (length l + 1) b = l @ [0] \<and> hist_ok h'
        \<and> (l \<noteq> [] \<and> hd l \<noteq> 33 \<and> 0 \<notin> set l \<longrightarrow> (\<exists>row h2. hist_prev h' = Some (Some row, h2) \<and> takeWhile (\<lambda>c. c \<noteq> 0) row = l)))"
proof (induction keys arbitrary: e z)
  case (Cons c keys)
  show ?case
  proof (cases "c = 10 \<or> c = 13")
    case True
    define l where "l = zl z @ zr z"
    obtain junk where junk: "buf e = l @ junk" using Cons.prems(1) by (auto simp: ed_rel_def l_def)
    have r: "eol_num e = length l" "length (buf e) = CONFIG_SYS_CBSIZE + 1" "length l \<le> CONFIG_SYS_CBSIZE" "hist e = zhist z" "hist_ok (zhist z)"
      using Cons.prems(1) by (auto simp: ed_rel_def l_def)
    then obtain j js where j: "junk = j # js" using junk by (cases junk) auto
    define b where "b = l @ 0 # js"
    have st: "store (buf e) (eol_num e) 0 = Some b" "length b = CONFIG_SYS_CBSIZE + 1" "take (length l + 1) b = l @ [0]"
      using junk j r by (simp_all add: store_Some b_def)
    define t where "t = takeWhile (\<lambda>c. c \<noteq> 0) l"
    have t: "cstr b 0 t" "length t \<le> HIST_SIZE"
    proof -
      have "takeWhile (\<lambda>c. c \<noteq> 0) b = t" by (simp add: b_def t_def takeWhile_tail)
      moreover have "row_ok b" using st(2) by (simp add: row_ok_def HIST_SIZE_def b_def)
      ultimately show "cstr b 0 t" "length t \<le> HIST_SIZE" using row_text [of b] by simp_all
    qed
    have c0: "load b 0 = Some (if l = [] then 0 else hd l)" by (cases l) (simp_all add: b_def load_def)
    obtain h' row h2 where h': "cread_add_to_hist b (zhist z) = Some h'" "hist_ok (h'\<lparr>hist_cur := hist_add_idx h'\<rparr>)"
        "hist_prev (h'\<lparr>hist_cur := hist_add_idx h'\<rparr>) = Some (Some row, h2)" "takeWhile (\<lambda>c. c \<noteq> 0) row = t"
      using add_to_hist_spec [OF r(5) t] by blast
    have tl: "0 \<notin> set l \<Longrightarrow> t = l" by (auto simp: t_def takeWhile_eq_all_conv)
    have hc: "hist_ok (zhist z\<lparr>hist_cur := hist_add_idx (zhist z)\<rparr>)" using r(5) by (auto simp: hist_ok_def)
    show ?thesis
    proof (cases "l \<noteq> [] \<and> hd l \<noteq> 0 \<and> hd l \<noteq> 33")
      case new: True
      have "cread_loop tbl tmp_buf prompt len (c # keys) e = Some (Some (0, length l, b, h'\<lparr>hist_cur := hist_add_idx h'\<rparr>))"
        using True new st(1) c0 h'(1) r by simp
      then show ?thesis using True st(2,3) h'(2-4) tl by (auto simp: l_def [symmetric])
    next
      case old: False
      have "cread_loop tbl tmp_buf prompt len (c # keys) e = Some (Some (0, length l, b, (zhist z)\<lparr>hist_cur := hist_add_idx (zhist z)\<rparr>))"
        using True old st(1) c0 r by auto
      moreover have "\<not> (l \<noteq> [] \<and> hd l \<noteq> 33 \<and> 0 \<notin> set l)" using old by (metis hd_in_set)
      ultimately show ?thesis using True st(2,3) hc by (auto simp: l_def [symmetric])
    qed
  next
    case False
    have "c \<noteq> 9" "9 \<notin> set keys" using Cons.prems(2) by auto
    note k = key_rel [OF Cons.prems(1) len this(1), of tbl tmp_buf prompt]
    show ?thesis
    proof (cases "zkey len c z")
      case None
      have "store (buf e) 0 0 = Some ((buf e)[0 := 0])" "length (buf e) = CONFIG_SYS_CBSIZE + 1" "hist e = zhist z" "hist_ok (zhist z)"
        using Cons.prems(1) by (auto simp: ed_rel_def store_Some)
      then show ?thesis using None False k by simp
    next
      case (Some z')
      then obtain e' where "cread_key tbl tmp_buf prompt len c e = Some (Some e')" "ed_rel e' z'" using k by auto
      then show ?thesis using Some False Cons.IH [of e' z'] \<open>9 \<notin> set keys\<close> by (simp split: zresult.splits)
    qed
  qed
qed simp

section \<open>Reading a line\<close>

definition hist_ready :: "bool \<times> history \<Rightarrow> bool" where
  "hist_ready st \<longleftrightarrow> (if fst st then hist_ok (snd st)
     else length (hist_lines (snd st)) = HIST_MAX \<and> (\<forall>l\<in>set (hist_lines (snd st)). length l = HIST_SIZE + 1))"

lemma hist_init_ok:
  assumes "length (hist_lines h) = HIST_MAX" "\<forall>l\<in>set (hist_lines h). length l = HIST_SIZE + 1"
  shows "\<exists>h'. hist_init h = Some h' \<and> hist_ok h'"
proof -
  let ?f = "\<lambda>i ls. do { l \<leftarrow> load ls i; l \<leftarrow> store l 0 0; store ls i l } :: mem list option"
  have "\<exists>ls. foldM ?f [0..<n] (hist_lines h) = Some ls \<and> length ls = HIST_MAX \<and> (\<forall>l\<in>set ls. length l = HIST_SIZE + 1) \<and> (\<forall>l\<in>set (take n ls). row_ok l)"
    if "n \<le> HIST_MAX" for n
    using that
  proof (induction n)
    case (Suc n)
    then obtain ls where ls: "foldM ?f [0..<n] (hist_lines h) = Some ls" "length ls = HIST_MAX" "\<forall>l\<in>set ls. length l = HIST_SIZE + 1" "\<forall>l\<in>set (take n ls). row_ok l"
      by auto
    define l where "l = (ls ! n)[0 := 0]"
    have n: "n < length ls" "length (ls ! n) = HIST_SIZE + 1" using Suc.prems ls by auto
    have "?f n ls = Some (ls[n := l])" using n by (simp add: load_Some store_Some l_def)
    then have "foldM ?f [0..<Suc n] (hist_lines h) = Some (ls[n := l])" using ls(1) by (simp add: foldM_append foldM_Nil)
    moreover have "row_ok l" using n(2) by (simp add: row_ok_def l_def) (metis length_greater_0_conv nth_list_update_eq nth_mem length_list_update zero_less_Suc)
    moreover have "take (Suc n) (ls[n := l]) = take n ls @ [l]" using n(1) by (simp add: take_Suc_conv_app_nth)
    moreover have "\<forall>l'\<in>set (ls[n := l]). length l' = HIST_SIZE + 1" using ls(3) n(2) by (auto simp: l_def dest!: set_update_subset_insert [THEN subsetD])
    ultimately show ?case using ls(2,4) by auto
  qed (use assms in \<open>simp add: foldM_Nil\<close>)
  from this [of HIST_MAX] obtain ls where "foldM ?f [0..<HIST_MAX] (hist_lines h) = Some ls" "length ls = HIST_MAX" "\<forall>l\<in>set ls. row_ok l" by auto
  then show ?thesis by (auto simp: hist_init_def hist_ok_def HIST_MAX_def)
qed

definition start_line :: "history \<Rightarrow> zipper" where
  "start_line h = \<lparr>zl = [], zr = [], zins = True, zesc = 0, zhist = h\<rparr>"

lemma readline_spec:
  assumes cb: "length console_buffer = CONFIG_SYS_CBSIZE + 1" and es: "length es = 8" and st: "hist_ready st" and keys: "9 \<notin> set keys"
  shows "\<exists>h0. hist_ok h0 \<and> (fst st \<longrightarrow> h0 = snd st) \<and> (case zrun CONFIG_SYS_CBSIZE keys (start_line h0) of
      Waiting \<Rightarrow> readline tbl tmp_buf es prompt console_buffer keys st = Some None
    | Interrupted h \<Rightarrow> \<exists>b. readline tbl tmp_buf es prompt console_buffer keys st = Some (Some (-1, b, True, h)) \<and> length b = CONFIG_SYS_CBSIZE + 1 \<and> hist_ok h
    | Line l h \<Rightarrow> \<exists>b h'. readline tbl tmp_buf es prompt console_buffer keys st = Some (Some (int (length l), b, True, h'))
        \<and> length b = CONFIG_SYS_CBSIZE + 1 \<and> take (length l + 1) b = l @ [0] \<and> hist_ok h'
        \<and> (l \<noteq> [] \<and> hd l \<noteq> 33 \<and> 0 \<notin> set l \<longrightarrow> (\<exists>row h2. hist_prev h' = Some (Some row, h2) \<and> takeWhile (\<lambda>c. c \<noteq> 0) row = l)))"
proof -
  obtain h0 where h0: "(if \<not> fst st then hist_init (snd st) else Some (snd st)) = Some h0" "hist_ok h0" "fst st \<longrightarrow> h0 = snd st"
    using st hist_init_ok [of "snd st"] by (cases "fst st") (auto simp: hist_ready_def)
  let ?b = "console_buffer[0 := 0]"
  have b: "store console_buffer 0 0 = Some ?b" "strlen ?b 0 = Some 0" "length ?b = CONFIG_SYS_CBSIZE + 1"
    using cb strlen_cstr [of ?b 0 "[]"] by (simp_all add: store_Some load_Some)
  let ?e = "\<lparr>num = 0, eol_num = 0, buf = ?b, insert_mode = True, esc_len = 0, esc_save = es, hist = h0\<rparr>"
  have rel: "ed_rel ?e (start_line h0)" using b(3) es h0(2) by (simp add: ed_rel_def start_line_def)
  have N: "CONFIG_SYS_CBSIZE \<le> CONFIG_SYS_CBSIZE" "0 < CONFIG_SYS_CBSIZE" by (simp_all add: CONFIG_SYS_CBSIZE_def)
  have "readline tbl tmp_buf es prompt console_buffer keys st =
      do { r \<leftarrow> cread_loop tbl tmp_buf prompt CONFIG_SYS_CBSIZE keys ?e;
           case r of None \<Rightarrow> Some None | Some (rc, len, b, h) \<Rightarrow> Some (Some (if rc < 0 then rc else int len, b, True, h)) }"
    using b(1,2) h0(1) by (simp add: readline_def readline_into_buffer_def cread_line_def add_initial_def foldM_Nil)
  then show ?thesis using loop_rel [OF N rel keys, of tbl tmp_buf prompt] h0(2,3) by (intro exI [of _ h0]) (auto split: zresult.splits)
qed

section \<open>Typed text\<close>

definition printing :: "byte \<Rightarrow> bool" where
  "printing c \<longleftrightarrow> 32 \<le> c \<and> c \<noteq> 127 \<and> c \<noteq> 255"

lemma printing_key: "printing c \<Longrightarrow> k < 32 \<or> k = 127 \<or> k = 255 \<Longrightarrow> c \<noteq> k"
  by (auto simp: printing_def word_le_nat_alt word_less_nat_alt)

lemma zkey_printing:
  assumes "printing c" and "zesc z = 0"
  shows "zkey len c z = Some (zadd len z c)" and "c \<noteq> 10" and "c \<noteq> 13" and "c \<noteq> 9" and "c \<noteq> 0"
proof -
  have "c \<noteq> 27" "c \<noteq> 1" "c \<noteq> 3" "c \<noteq> 6" "c \<noteq> 2" "c \<noteq> 4" "c \<noteq> 11" "c \<noteq> 5" "c \<noteq> 15" "c \<noteq> 24" "c \<noteq> 21" "c \<noteq> 255" "c \<noteq> 127" "c \<noteq> 8" "c \<noteq> 16" "c \<noteq> 14"
    by (rule printing_key [OF assms(1)], simp)+
  then show "zkey len c z = Some (zadd len z c)" using assms(2) by (simp add: zkey_def zswitch_def)
  show "c \<noteq> 10" "c \<noteq> 13" "c \<noteq> 9" "c \<noteq> 0" by (rule printing_key [OF assms(1)], simp)+
qed

lemma zrun_typed:
  "\<forall>c\<in>set l. printing c \<Longrightarrow> zesc z = 0 \<Longrightarrow> zins z \<Longrightarrow> zr z = [] \<Longrightarrow> length (zl z) + length l \<le> len
    \<Longrightarrow> zrun len (l @ keys) z = zrun len keys (z\<lparr>zl := zl z @ l\<rparr>)"
proof (induction l arbitrary: z)
  case (Cons c l)
  have c: "printing c" using Cons.prems(1) by simp
  have add: "zadd len z c = z\<lparr>zl := zl z @ [c]\<rparr>" using Cons.prems by (simp add: zadd_def)
  show ?case using zkey_printing [OF c Cons.prems(2)] Cons.IH [of "z\<lparr>zl := zl z @ [c]\<rparr>"] Cons.prems by (simp add: add)
qed simp

lemma zrun_up:
  assumes "hist_prev h = Some (Some row, h2)"
  shows "zrun len [27, 91, 65, 13] (start_line h) = Line (takeWhile (\<lambda>c. c \<noteq> 0) row) h2"
  using assms by (simp add: start_line_def zkey_def zswitch_def arrow_key_def zhistory_def)

section \<open>Properties of the line editor\<close>

text \<open>C10 The line editor over a fixed buffer is the text before and behind a cursor. Whatever is typed (tabulators apart), from
  every history that \<open>hist_init\<close> or earlier lines leave, no character is written or read outside the buffer, the escape
  sequence or the history, and \<open>readline\<close> gives what the abstract editor gives: it waits for more, it returns -1 after a
  control-C, or it returns the length of the line with the line and a NUL in the buffer. The history stays well formed, and
  the line is its previous one unless it is empty or starts with an exclamation mark.\<close>

theorem readline_refines:
  assumes "length console_buffer = CONFIG_SYS_CBSIZE + 1" and "length es = 8" and "hist_ready st" and "9 \<notin> set keys"
  shows "\<exists>h0. hist_ok h0 \<and> (fst st \<longrightarrow> h0 = snd st) \<and> (case zrun CONFIG_SYS_CBSIZE keys (start_line h0) of
      Waiting \<Rightarrow> readline tbl tmp_buf es prompt console_buffer keys st = Some None
    | Interrupted h \<Rightarrow> \<exists>b. readline tbl tmp_buf es prompt console_buffer keys st = Some (Some (-1, b, True, h)) \<and> length b = CONFIG_SYS_CBSIZE + 1 \<and> hist_ok h
    | Line l h \<Rightarrow> \<exists>b h'. readline tbl tmp_buf es prompt console_buffer keys st = Some (Some (int (length l), b, True, h'))
        \<and> length b = CONFIG_SYS_CBSIZE + 1 \<and> take (length l + 1) b = l @ [0] \<and> hist_ok h'
        \<and> (l \<noteq> [] \<and> hd l \<noteq> 33 \<and> 0 \<notin> set l \<longrightarrow> (\<exists>row h2. hist_prev h' = Some (Some row, h2) \<and> takeWhile (\<lambda>c. c \<noteq> 0) row = l)))"
  using assms by (rule readline_spec)

text \<open>A user types \<open>axb\<close>, goes left, rubs out the \<open>x\<close> and ends the line.\<close>

definition no_history :: history where
  "no_history = \<lparr>hist_max = 0, hist_add_idx = 0, hist_cur = -1, hist_num = 0, hist_lines = replicate HIST_MAX (replicate (HIST_SIZE + 1) 0)\<rparr>"

lemma no_history_ready: "hist_ready (False, no_history)"
  by (simp add: hist_ready_def no_history_def HIST_MAX_def HIST_SIZE_def)

theorem readline_refines_witness:
  "\<exists>b h. readline ([] :: (unit, unit) cmd_tbl_s list) [] (replicate 8 0) CONFIG_SYS_PROMPT (replicate (CONFIG_SYS_CBSIZE + 1) 0) [97, 120, 98, 27, 91, 68, 8, 13] (False, no_history)
      = Some (Some (2, b, True, h)) \<and> take 3 b = [97, 98, 0]"
  using readline_refines [of "replicate (CONFIG_SYS_CBSIZE + 1) 0" "replicate 8 0" "(False, no_history)" "[97, 120, 98, 27, 91, 68, 8, 13]" "[] :: (unit, unit) cmd_tbl_s list" "[]" CONFIG_SYS_PROMPT]
  by (auto simp: no_history_ready start_line_def zkey_def zswitch_def zadd_def arrow_key_def CONFIG_SYS_CBSIZE_def numeral_3_eq_3)

text \<open>C18 A line of printable characters that fits the buffer is read back as it was typed, and the up arrow brings it back
  at the next prompt.\<close>

theorem readline_recalls:
  assumes "length console_buffer = CONFIG_SYS_CBSIZE + 1" and "length es = 8" and "length es' = 8" and "hist_ready st"
    and "\<forall>c\<in>set l. printing c" and "l \<noteq> []" and "hd l \<noteq> 33" and "length l \<le> CONFIG_SYS_CBSIZE"
  shows "\<exists>b h b' h'. readline tbl tmp_buf es prompt console_buffer (l @ [13]) st = Some (Some (int (length l), b, True, h)) \<and> take (length l + 1) b = l @ [0]
     \<and> readline tbl tmp_buf es' prompt b [27, 91, 65, 13] (True, h) = Some (Some (int (length l), b', True, h')) \<and> take (length l + 1) b' = l @ [0]"
proof -
  have keys: "9 \<notin> set (l @ [13])" and nul: "0 \<notin> set l" using assms(5) printing_key [of 9 9] printing_key [of 0 0] by auto
  obtain h0 b h row h2 where first: "readline tbl tmp_buf es prompt console_buffer (l @ [13]) st = Some (Some (int (length l), b, True, h))"
      "take (length l + 1) b = l @ [0]" and h: "length b = CONFIG_SYS_CBSIZE + 1" "hist_ok h" "hist_prev h = Some (Some row, h2)" "takeWhile (\<lambda>c. c \<noteq> 0) row = l"
    using readline_spec [OF assms(1,2,4) keys, of tbl tmp_buf prompt] zrun_typed [of l "start_line h0" for h0] assms(5-8) nul by (auto simp: start_line_def)
  have "hist_ready (True, h)" using h(2) by (simp add: hist_ready_def)
  with first show ?thesis using readline_spec [OF h(1) assms(3), of "(True, h)" "[27, 91, 65, 13]" tbl tmp_buf prompt] zrun_up [OF h(3)] h(4) by auto
qed

lemma four_sucs: "take 4 b = take (Suc (Suc (Suc (Suc 0)))) b"
  by (simp add: eval_nat_numeral)

theorem readline_recalls_witness:
  "\<exists>b h b' h'. readline ([] :: (unit, unit) cmd_tbl_s list) [] (replicate 8 0) CONFIG_SYS_PROMPT (replicate (CONFIG_SYS_CBSIZE + 1) 0) [114, 117, 110, 13] (False, no_history)
      = Some (Some (3, b, True, h)) \<and> take 4 b = [114, 117, 110, 0]
     \<and> readline ([] :: (unit, unit) cmd_tbl_s list) [] (replicate 8 1) CONFIG_SYS_PROMPT b [27, 91, 65, 13] (True, h) = Some (Some (3, b', True, h')) \<and> take 4 b' = [114, 117, 110, 0]"
  using readline_recalls [of "replicate (CONFIG_SYS_CBSIZE + 1) 0" "replicate 8 0" "replicate 8 1" "(False, no_history)" "[114, 117, 110]" "[] :: (unit, unit) cmd_tbl_s list" "[]" CONFIG_SYS_PROMPT]
  by (simp add: no_history_ready printing_def CONFIG_SYS_CBSIZE_def four_sucs del: split_paired_Ex)

end
