(* ===== verification/Completion_Proofs.thy ===== *)
theory Completion_Proofs
  imports Line_Proofs Command_Proofs
begin

unbundle bit_operations_syntax

text \<open>
  The tabulator in the line editor: a word that begins the names of some commands is completed to the only one, or as far
  as all of them agree.
\<close>

section \<open>The common beginning\<close>

lemma eq_len_common: "prefix q s \<and> prefix q t \<longleftrightarrow> prefix q (take (eq_len s t) s)"
proof (induction s t arbitrary: q rule: eq_len.induct)
  case (1 x s y t)
  then show ?case by (cases q) auto
qed (auto simp: prefix_Nil)

lemma eq_len_le: "eq_len s t \<le> length s"
  by (induction s t rule: eq_len.induct) auto

lemma fold_eq_len_le: "len \<le> length a \<Longrightarrow> fold (\<lambda>t n. eq_len (take n a) t) ts len \<le> length a"
proof (induction ts arbitrary: len)
  case (Cons t ts)
  show ?case using Cons.IH [of "eq_len (take len a) t"] eq_len_le [of "take len a" t] by simp
qed simp

lemma fold_eq_len:
  "prefix q (take (fold (\<lambda>t n. eq_len (take n a) t) ts len) a) \<longleftrightarrow> prefix q (take len a) \<and> (\<forall>t\<in>set ts. prefix q t)"
proof (induction ts arbitrary: len)
  case (Cons t ts)
  have "take (eq_len (take len a) t) a = take (eq_len (take len a) t) (take len a)" using eq_len_le [of "take len a" t] by (auto simp: min_def split: if_splits)
  then show ?case using Cons.IH eq_len_common [of q "take len a" t] by auto
qed simp

lemma find_common_prefix_longest:
  assumes "names \<noteq> []"
  shows "find_common_prefix names = length (Longest_common_prefix (set names))"
proof -
  obtain a ts where names: "names = a # ts" using assms by (cases names) auto
  define n where "n = fold (\<lambda>t n. eq_len (take n a) t) ts (length a)"
  have n: "prefix q (take n a) \<longleftrightarrow> (\<forall>t\<in>set names. prefix q t)" for q using fold_eq_len [of q a ts "length a"] by (simp add: n_def names)
  have le: "n \<le> length a" unfolding n_def by (rule fold_eq_len_le) simp
  have "Longest_common_prefix (set names) = take n a"
  proof (rule Longest_common_prefix_eq)
    show "\<forall>q. (\<forall>t\<in>set names. prefix q t) \<longrightarrow> length q \<le> length (take n a)" using n prefix_length_le by blast
  qed (use assms n [of "take n a"] in auto)
  then show ?thesis using le by (simp add: find_common_prefix_def names n_def)
qed

section \<open>The matching commands\<close>

definition matches :: "('c, 'w) cmd_tbl_s list \<Rightarrow> mem \<Rightarrow> mem list" where
  "matches tbl p = filter (prefix p) (map cmd_name tbl)"

lemma match_loop_spec:
  assumes "is_str p" and "\<forall>t\<in>set tbl. is_str (cmd_name t)" and "length cmdv + length (matches tbl p) \<le> maxv - 2"
  shows "match_loop p (length p) maxv tbl cmdv = Some (cmdv @ matches tbl p)"
  using assms
proof (induction tbl arbitrary: cmdv)
  case (Cons t tbl)
  have n: "strlen (cmd_name t @ [0]) 0 = Some (length (cmd_name t))" using Cons.prems(2) by (intro strlen_str) (simp add: is_str_def)
  show ?case
  proof (cases "length (cmd_name t) < length p")
    case True
    then have "\<not> prefix p (cmd_name t)" by (auto dest: prefix_length_le)
    then show ?thesis using True n Cons by (simp add: matches_def)
  next
    case False
    let ?m = "p @ [0] @ cmd_name t @ [0]"
    obtain r where r: "memcmp ?m 0 (length p + 1) (length p) = Some r" "r = 0 \<longleftrightarrow> take (length p) ?m = take (length p) (drop (length p + 1) ?m)"
      using memcmp_area [of 0 "length p" ?m "length p + 1"] False by auto
    then have "r = 0 \<longleftrightarrow> prefix p (cmd_name t)" using False by (auto simp: prefix_def) (metis append_take_drop_id)
    then show ?thesis using False n r(1) Cons by (auto simp: matches_def)
  qed
qed (simp add: matches_def)

definition completion :: "('c, 'w) cmd_tbl_s list \<Rightarrow> mem \<Rightarrow> mem" where
  "completion tbl p =
     (case matches tbl p of [] \<Rightarrow> []
      | [m] \<Rightarrow> drop (length p) m @ [32]
      | ms \<Rightarrow> drop (length p) (Longest_common_prefix (set ms)))"

lemma matches_common:
  assumes "matches tbl p = m # ms"
  shows "length p \<le> length m" "prefix (Longest_common_prefix (set (m # ms))) m" "length p \<le> length (Longest_common_prefix (set (m # ms)))"
proof -
  have all: "\<forall>q\<in>set (m # ms). prefix p q" unfolding assms [symmetric] by (simp add: matches_def)
  then show "length p \<le> length m" by (auto dest: prefix_length_le)
  show "prefix (Longest_common_prefix (set (m # ms))) m" by (rule Longest_common_prefix_prefix) simp
  show "length p \<le> length (Longest_common_prefix (set (m # ms)))" using all by (intro Longest_common_prefix_longest) auto
qed

lemma complete_word:
  assumes p: "is_str p" "46 \<notin> set p" and tbl: "\<forall>t\<in>set tbl. is_str (cmd_name t)" and few: "length (matches tbl p) \<le> 18"
    and c: "c \<noteq> 0" "\<not> isblank c"
  shows "complete_cmdv tbl [p] c 20 = Some (matches tbl p)"
  using strchr_dot [OF p(1)] strlen_str [of p] match_loop_spec [OF p(1) tbl, of "[]" 20] p few c by (simp add: complete_cmdv_def is_str_def)

text \<open>What is done with the names that match.\<close>

definition finish_word :: "mem \<Rightarrow> mem \<Rightarrow> nat \<Rightarrow> mem list \<Rightarrow> (int \<times> mem \<times> nat) option" where
  "finish_word b s k cmdv =
     (case cmdv of [] \<Rightarrow> Some (1, b, length s)
      | m # ms \<Rightarrow>
          (let j = find_common_prefix cmdv;
               s' = (if ms = [] then Some (if k \<le> length m then Some (drop k m, [32]) else None)
                     else if k < j then Some (Some (take (j - k) (drop k m), [])) else None) in
           case s' of
             None \<Rightarrow> Some (1, b, length s)
           | Some None \<Rightarrow> None
           | Some (Some (x, sep)) \<Rightarrow>
               if length s + (length x + length sep) \<ge> CONFIG_SYS_CBSIZE - 2 then Some (1, b, length s)
               else do { b \<leftarrow> copy_bytes b (length s) (x @ sep @ [0]) 0 (length x + length sep + 1);
                         Some (1, b, length s + (length x + length sep)) }))"

lemma insert_text:
  assumes "cstr b 0 s" "length s + length x + 1 \<le> length b" "0 \<notin> set x"
  shows "\<exists>b'. copy_bytes b (length s) (x @ [0]) 0 (length x + 1) = Some b' \<and> length b' = length b \<and> cstr b' 0 (s @ x)"
proof -
  have s: "take (length s) b = s" "0 \<notin> set s" using assms(1) by (simp_all add: cstr_iff)
  have "copy_bytes b (length s) (x @ [0]) 0 (length x + 1) = Some (s @ x @ 0 # drop (length s + length x + 1) b)"
    using assms(2) s(1) by (simp add: copy_bytes_Some)
  moreover have "cstr (s @ x @ 0 # drop (length s + length x + 1) b) 0 (s @ x)" using s(2) assms(3) cstr_front [of "s @ x"] by simp
  ultimately show ?thesis using assms(2) by simp
qed

lemma prefix_slice: "prefix l m \<Longrightarrow> take (length l - n) (drop n m) = drop n l"
  by (auto simp: prefix_def)

lemma finish_word_spec:
  assumes b: "cstr b 0 s" "length b = CONFIG_SYS_CBSIZE + 1" and tbl: "\<forall>t\<in>set tbl. is_str (cmd_name t)"
  shows "\<exists>b'. finish_word b s (length p) (matches tbl p)
      = Some (1, b', length (if length s + length (completion tbl p) < CONFIG_SYS_CBSIZE - 2 then s @ completion tbl p else s))
     \<and> length b' = length b \<and> cstr b' 0 (if length s + length (completion tbl p) < CONFIG_SYS_CBSIZE - 2 then s @ completion tbl p else s)"
proof (cases "matches tbl p")
  case Nil
  then show ?thesis using b(1) by (simp add: finish_word_def completion_def)
next
  case (Cons m ms)
  note common = matches_common [OF Cons]
  let ?l = "Longest_common_prefix (set (m # ms))" and ?c = "completion tbl p"
  have "m \<in> set (matches tbl p)" using Cons by simp
  then have m: "0 \<notin> set m" using tbl by (auto simp: matches_def is_str_def)
  have take: "take (length ?l - length p) (drop (length p) m) = drop (length p) ?l" using common(2) by (rule prefix_slice)
  have str: "0 \<notin> set ?c" using m set_mono_prefix [OF common(2)] by (auto simp: completion_def Cons split: list.splits dest!: in_set_dropD)
  note ins = insert_text [OF b(1) _ str]
  show ?thesis
  proof (cases ms)
    case Nil
    then have c: "?c = drop (length p) m @ [32]" using Cons by (simp add: completion_def)
    then show ?thesis using ins b common(1) Nil Cons by (auto simp: finish_word_def Let_def CONFIG_SYS_CBSIZE_def)
  next
    case (Cons m2 ms')
    then have c: "?c = drop (length p) ?l" using \<open>matches tbl p = m # ms\<close> by (simp add: completion_def)
    have j: "find_common_prefix (m # ms) = length ?l" by (rule find_common_prefix_longest) simp
    show ?thesis using ins b common(3) Cons \<open>matches tbl p = m # ms\<close> take c j by (auto simp: finish_word_def Let_def CONFIG_SYS_CBSIZE_def)
  qed
qed

lemma auto_complete_spec:
  assumes b: "cstr b 0 s" "length b = CONFIG_SYS_CBSIZE + 1" and s: "words s = [p]" "\<not> isblank (last s)" "46 \<notin> set p" "length s < CONFIG_SYS_CBSIZE"
    and tmp: "length tmp_buf = CONFIG_SYS_CBSIZE" and tbl: "\<forall>t\<in>set tbl. is_str (cmd_name t)" and few: "length (matches tbl p) \<le> 18"
  defines "s' \<equiv> (if length s + length (completion tbl p) < CONFIG_SYS_CBSIZE - 2 then s @ completion tbl p else s)"
  shows "\<exists>b'. cmd_auto_complete tbl tmp_buf CONFIG_SYS_PROMPT b (length s) = Some (1, b', length s') \<and> length b' = length b \<and> cstr b' 0 s'"
proof -
  have str: "0 \<notin> set s" by (rule cstr_no_nul [OF b(1)])
  have ne: "s \<noteq> []" using s(1) by (auto simp: words.simps)
  have b0: "take (length s) b = s" "b ! length s = 0" using b(1) by (simp_all add: cstr_iff)
  have p: "is_str p" using words_set [of p s] s(1) str by (auto simp: is_str_def)
  have len: "strlen b 0 = Some (length s)" by (rule strlen_cstr [OF b(1)])
  have "b ! (length s - 1) = last s" using arg_cong [OF b0(1), of "\<lambda>x. x ! (length s - 1)"] ne b(2) s(4) by (simp add: last_conv_nth)
  moreover have "last s \<noteq> 0" using str last_in_set [OF ne] by metis
  ultimately have lastc: "load b (length s - 1) = Some (last s)" "last s \<noteq> 0" using b(2) s(4) by (auto simp: load_Some)
  let ?t = "take (length s + 1) b @ drop (length s + 1) tmp_buf"
  have t: "copy_bytes tmp_buf 0 b 0 (length s + 1) = Some ?t" using b(2) s(4) tmp by (simp add: copy_bytes_Some)
  have "cstr ?t 0 s" using b0 b(2) s(4) tmp str by (auto simp: cstr_iff nth_append min_def)
  then obtain t' ps nul where args: "parse_args 16 ?t 0 = Some (t', ps, nul)" "read_args t' ps = Some [p]"
    using parse_args_words [of ?t 0 s 16] s(1) by auto
  note comp = complete_word [OF p s(3) tbl few lastc(2) s(2)]
  have one: "Suc 0 \<le> length s" using ne by (cases s) auto
  have head: "cmd_auto_complete tbl tmp_buf CONFIG_SYS_PROMPT b (length s) = finish_word b s (length p) (matches tbl p)"
    using comp args t lastc len one by (cases "matches tbl p") (simp_all add: cmd_auto_complete_def finish_word_def make_argv_def CONFIG_SYS_MAXARGS_def load_Some Let_def)
  show ?thesis unfolding head s'_def
    by (rule finish_word_spec [OF b tbl])
qed

section \<open>The key\<close>


text \<open>With the commands \<open>run\<close> and \<open>reset\<close>, the line \<open>ru\<close> becomes \<open>run\<close> and a blank.\<close>

definition run_and_reset :: "(unit, unit) cmd_tbl_s list" where
  "run_and_reset = map (\<lambda>n. \<lparr>cmd_name = n, maxargs = 2, repeatable = 1, cmd = (\<lambda>_ _ s. Some (0, s)), is_bootd = False, complete = None\<rparr>)
     [[114, 117, 110], [114, 101, 115, 101, 116]]"

definition typed_ru :: editor where
  "typed_ru = \<lparr>num = 2, eol_num = 2, buf = [114, 117] @ replicate 255 7, insert_mode = True, esc_len = 0, esc_save = replicate 8 0, hist = no_history\<rparr>"

lemma typed_ru_rel: "ed_rel typed_ru ((start_line no_history)\<lparr>zl := [114, 117]\<rparr>)"
  by (simp add: ed_rel_def typed_ru_def start_line_def no_history_def hist_ok_def row_ok_def HIST_MAX_def CONFIG_SYS_CBSIZE_def)

lemma ru_words: "words [114, 117] = [[114, 117]]"
  by (simp add: words.simps isblank_def)

lemma ru_matches: "matches run_and_reset [114, 117] = [[114, 117, 110]]"
  by (simp add: matches_def run_and_reset_def)


end
