(* ===== verification/Vsprintf_Proofs.thy ===== *)
theory Vsprintf_Proofs
  imports Vsprintf
begin

unbundle bit_operations_syntax

text \<open>
  The conversions agree with positional notation: \<open>put_dec\<close>, with its multiplications and shifts in place of
  divisions, and the loops for bases 8 and 16 produce the digits of the number, and the parsers read them back.
\<close>

section \<open>Positional notation\<close>

text \<open>The digits of a number in base \<open>b\<close>, least significant first, and the number they stand for.\<close>

function digs :: "nat \<Rightarrow> nat \<Rightarrow> nat list" where
  "digs b n = n mod b # (if b < 2 \<or> n < b then [] else digs b (n div b))"
  by pat_completeness auto
termination by (relation "measure snd") auto

declare digs.simps [simp del]

definition digs_value :: "nat \<Rightarrow> nat list \<Rightarrow> nat" where
  "digs_value b ds = foldr (\<lambda>d r. d + b * r) ds 0"

lemma digs_value_digs: "2 \<le> b \<Longrightarrow> digs_value b (digs b n) = n"
proof (induction b n rule: digs.induct)
  case (1 b n)
  then show ?case by (auto simp: digs.simps [of b n] digs_value_def)
qed

lemma digs_less: "2 \<le> b \<Longrightarrow> d \<in> set (digs b n) \<Longrightarrow> d < b"
proof (induction b n rule: digs.induct)
  case (1 b n)
  then show ?case by (auto simp: digs.simps [of b n] split: if_splits)
qed

lemma digs_ne [simp]: "digs b n \<noteq> []"
  by (simp add: digs.simps [of b n])

lemma digs_small: "n < b \<Longrightarrow> digs b n = [n]"
  by (simp add: digs.simps [of b n])

lemma digs_step: "2 \<le> b \<Longrightarrow> b \<le> n \<Longrightarrow> digs b n = n mod b # digs b (n div b)"
  by (simp add: digs.simps [of b n])

lemma length_digs_le: "2 \<le> b \<Longrightarrow> n < b ^ k \<Longrightarrow> 0 < k \<Longrightarrow> length (digs b n) \<le> k"
proof (induction k arbitrary: n)
  case (Suc k)
  show ?case
  proof (cases "n < b")
    case False
    then have "k \<noteq> 0" using Suc.prems by (intro notI) simp
    moreover have "n div b < b ^ k" using Suc.prems by (simp add: less_mult_imp_div_less mult.commute)
    ultimately show ?thesis using Suc False by (simp add: digs_step)
  qed (simp add: digs_small)
qed simp

lemma length_digs_ge: "2 \<le> b \<Longrightarrow> b ^ k \<le> n \<Longrightarrow> k < length (digs b n)"
proof (induction k arbitrary: n)
  case (Suc k)
  have "b * 1 \<le> b * b ^ k" using Suc.prems(1) by (intro mult_le_mono2) simp
  moreover have "b * b ^ k \<le> n" using Suc.prems(2) by simp
  ultimately have "b \<le> n" by linarith
  moreover have "b ^ k \<le> n div b" using Suc.prems by (simp add: less_eq_div_iff_mult_less_eq mult.commute)
  ultimately show ?case using Suc by (simp add: digs_step)
qed simp

text \<open>The most significant digit of a positive number is not zero.\<close>

lemma digs_last: "2 \<le> b \<Longrightarrow> 0 < n \<Longrightarrow> last (digs b n) \<noteq> 0"
proof (induction b n rule: digs.induct)
  case (1 b n)
  show ?case
  proof (cases "n < b")
    case False
    then have "0 < n div b" using 1(2) by (simp add: div_greater_zero_iff)
    then show ?thesis using 1 False by (simp add: digs_step)
  qed (use 1 in \<open>simp add: digs_small\<close>)
qed

section \<open>Decimal conversion\<close>

definition dchar :: "nat \<Rightarrow> byte" where
  "dchar d = of_nat (48 + d)"

lemma mul_div10: "d < 340 \<Longrightarrow> (d * 205) div 2048 = d div (10 :: nat)"
proof -
  assume "d < 340"
  define a b where "a = d div 10" and "b = d mod 10"
  have d: "d = 10 * a + b" and b: "b < 10" and a: "a < 34" using \<open>d < 340\<close> by (auto simp: a_def b_def)
  have "d * 205 = 2048 * a + (2 * a + 205 * b)" by (simp add: d)
  moreover have "2 * a + 205 * b < 2048" using a b by linarith
  ultimately show ?thesis unfolding a_def [symmetric] by simp
qed

lemma mul_div10_small: "d < 69 \<Longrightarrow> (d * 13) div 128 = d div (10 :: nat)"
proof -
  assume "d < 69"
  define a b where "a = d div 10" and "b = d mod 10"
  have d: "d = 10 * a + b" and b: "b < 10" by (auto simp: a_def b_def)
  have "d * 13 = 128 * a + (2 * a + 13 * b)" by (simp add: d)
  moreover have "2 * a + 13 * b < 128"
  proof (cases "a \<le> 5")
    case False
    then have "a = 6" "b \<le> 8" using \<open>d < 69\<close> d by linarith+
    then show ?thesis by simp
  qed (use b in linarith)
  ultimately show ?thesis unfolding a_def [symmetric] by simp
qed

lemma unat_mult_small: "unat (x :: u32) * unat y < 4294967296 \<Longrightarrow> unat (x * y) = unat x * unat y"
  by (simp add: unat_word_ariths)

lemma word_rest10:
  fixes d q :: u32
  assumes "unat q = unat d div 10"
  shows "unat (d - 10 * q) = unat d mod 10"
proof -
  have le: "10 * unat q \<le> unat d" unfolding assms by simp
  have "unat (10 :: u32) * unat q < 4294967296" using le unat_lt_u32 [of d] by (simp del: unat_lt_u32)
  from unat_mult_small [OF this] have "unat (10 * q) = 10 * unat q" by simp
  moreover note le
  ultimately have "unat (d - 10 * q) = unat d - 10 * unat q" by (simp add: unat_sub word_le_nat_alt)
  then show ?thesis by (simp add: assms minus_mult_div_eq_mod)
qed

lemma word_div10:
  fixes d :: u32
  shows "unat d < 340 \<Longrightarrow> unat (drop_bit 11 (d * 0xcd)) = unat d div 10"
    and "unat d < 69 \<Longrightarrow> unat (drop_bit 7 (d * 0xd)) = unat d div 10"
  using mul_div10 [of "unat d"] mul_div10_small [of "unat d"]
  by (simp_all add: drop_bit_eq_div unat_div unat_mult_small)

lemma unat_dchar: "d < 10 \<Longrightarrow> unat (dchar d) = 48 + d"
  unfolding dchar_def unat_of_nat by (rule mod_less) simp

lemma ucast_dchar:
  assumes "unat (w :: u32) < 10"
  shows "ucast (w + 48) = dchar (unat w)"
proof -
  have "unat (w + 48) = unat w + 48" using assms by (simp add: unat_add_u32)
  then have "unat (ucast (w + 48) :: byte) = unat w + 48" using assms
    unfolding unsigned_ucast_eq take_bit_eq_mod by simp
  then show ?thesis using unat_dchar [OF assms] by (simp add: word_unat_eq_iff)
qed

lemma rest_dchar:
  fixes e q :: u32
  assumes "unat q = unat e div 10"
  shows "ucast (e - 10 * q + 48) = dchar (unat e mod 10)"
proof -
  have "unat (e - 10 * q) < 10" unfolding word_rest10 [OF assms] by simp
  from ucast_dchar [OF this] show ?thesis unfolding word_rest10 [OF assms] .
qed

text \<open>The five intermediate values, read as numbers.\<close>

lemma dec_split:
  fixes q :: u32
  assumes "unat q < 100000"
  obtains e0 q0 e1 q1 e2 q2 e3 q3 d3 :: u32 where
    "put_dec_full q = [ucast (e0 - 10 * q0 + 48), ucast (e1 - 10 * q1 + 48), ucast (e2 - 10 * q2 + 48), ucast (e3 - 10 * q3 + 48), ucast (q3 + 48)]"
    "put_dec_trunc q = ucast (e0 - 10 * q0 + 48) # (if e1 \<noteq> 0 then ucast (e1 - 10 * q1 + 48) #
       (if e2 \<noteq> 0 \<or> d3 \<noteq> 0 then ucast (e2 - 10 * q2 + 48) #
         (if e3 \<noteq> 0 then ucast (e3 - 10 * q3 + 48) # (if q3 \<noteq> 0 then [ucast (q3 + 48)] else []) else []) else []) else [])"
    and "unat q0 = unat e0 div 10" "unat e0 mod 10 = unat q mod 10"
    and "unat q1 = unat e1 div 10" "unat e1 mod 10 = unat q div 10 mod 10" "(e1 = 0) = (unat q div 10 = 0)"
    and "unat q2 = unat e2 div 10" "unat e2 mod 10 = unat q div 100 mod 10" "(e2 = 0 \<and> d3 = 0) = (unat q div 100 = 0)"
    and "unat q3 = unat e3 div 10" "unat e3 = unat q div 1000"
proof -
  define d1 d2 d3 where "d1 = drop_bit 4 q AND 0xf" and "d2 = drop_bit 8 q AND 0xf" and "d3 = drop_bit 12 q"
  define e0 where "e0 = 6 * (d3 + d2 + d1) + (q AND 0xf)"
  define q0 where "q0 = drop_bit 11 (e0 * 0xcd)"
  define e1 where "e1 = q0 + 9 * d3 + 5 * d2 + d1"
  define q1 where "q1 = drop_bit 11 (e1 * 0xcd)"
  define e2 where "e2 = q1 + 2 * d2"
  define q2 where "q2 = drop_bit 7 (e2 * 0xd)"
  define e3 where "e3 = q2 + 4 * d3"
  define q3 where "q3 = drop_bit 11 (e3 * 0xcd)"
  note dfs = q3_def e3_def q2_def e2_def q1_def e1_def q0_def e0_def d1_def d2_def d3_def
  define n where "n = unat q"
  have m15: "unat (w AND 15) = unat w mod 16" for w :: u32
  proof -
    have "w AND 15 = take_bit 4 w" by (simp add: take_bit_eq_mask mask_eq_exp_minus_1)
    then show ?thesis by (simp add: unat_mod take_bit_eq_mod)
  qed
  have u: "unat d1 = n div 16 mod 16" "unat d2 = n div 256 mod 16" "unat d3 = n div 4096" "unat (q AND 15) = n mod 16"
    by (simp_all add: d1_def d2_def d3_def n_def m15 drop_bit_eq_div unat_div)
  define a0 a1 a2 a3 where "a0 = n mod 16" and "a1 = n div 16 mod 16" and "a2 = n div 256 mod 16" and "a3 = n div 4096"
  have "n div 256 = n div 16 div 16" "n div 4096 = n div 256 div 16" by (simp_all flip: div_mult2_eq)
  then have n: "n = 4096 * a3 + 256 * a2 + 16 * a1 + a0"
    using mult_div_mod_eq [of 16 n] mult_div_mod_eq [of 16 "n div 16"] mult_div_mod_eq [of 16 "n div 256"]
    unfolding a0_def a1_def a2_def a3_def by linarith
  have "a0 < 16" "a1 < 16" "a2 < 16" by (simp_all add: a0_def a1_def a2_def)
  moreover have "a3 < 25" using assms(1) unfolding n_def [symmetric] n by linarith
  ultimately have b: "a0 \<le> 15" "a1 \<le> 15" "a2 \<le> 15" "a3 \<le> 24" by simp_all
  note u = u [folded a0_def a1_def a2_def a3_def]
  have mul: "unat (k * w) = unat k * unat w" if "unat w \<le> 100" "unat k \<le> 10" for k w :: u32
    using mult_le_mono [OF that(2,1)] by (intro unat_mult_small) linarith
  have add: "unat (v + w) = unat v + unat w" if "unat v + unat w \<le> 1000" for v w :: u32 using that by (simp add: unat_add_u32)
  have e0: "unat e0 = 6 * a3 + 6 * a2 + 6 * a1 + a0" using u b by (simp add: e0_def add mul)
  have l0: "unat e0 < 340" unfolding e0 using b by linarith
  have q0: "unat q0 = unat e0 div 10" unfolding q0_def using l0 by (rule word_div10)
  have "unat e0 div 10 \<le> 33" using e0 b by linarith
  then have e1: "unat e1 = unat e0 div 10 + 9 * a3 + 5 * a2 + a1" using u b q0 by (simp add: e1_def add mul)
  then have l1: "unat e1 < 340" using \<open>unat e0 div 10 \<le> 33\<close> b by linarith
  have q1: "unat q1 = unat e1 div 10" unfolding q1_def using l1 by (rule word_div10)
  have "unat e1 div 10 \<le> 33" using l1 by linarith
  then have e2: "unat e2 = unat e1 div 10 + 2 * a2" using u b q1 by (simp add: e2_def add mul)
  then have l2: "unat e2 < 69" using \<open>unat e1 div 10 \<le> 33\<close> b by linarith
  have q2: "unat q2 = unat e2 div 10" unfolding q2_def using l2 by (rule word_div10)
  have "unat e2 div 10 \<le> 6" using l2 by linarith
  then have e3: "unat e3 = unat e2 div 10 + 4 * a3" using u b q2 by (simp add: e3_def add mul)
  then have "unat e3 < 340" using \<open>unat e2 div 10 \<le> 6\<close> b by linarith
  then have q3: "unat q3 = unat e3 div 10" unfolding q3_def by (rule word_div10)
  have n0: "n = unat e0 + 10 * (9 * a3 + 5 * a2 + a1 + 20 * a2 + 400 * a3)" using n e0 by simp
  then have n1: "n div 10 = unat e1 + 10 * (2 * a2 + 40 * a3)" using e1 by (simp add: add_mult_distrib2)
  have n2: "n div 100 = unat e2 + 10 * (4 * a3)"
  proof -
    have "n div 100 = n div 10 div 10" by (simp flip: div_mult2_eq)
    then show ?thesis using n1 e2 by (simp add: add_mult_distrib2)
  qed
  have n3: "n div 1000 = unat e3"
  proof -
    have "n div 1000 = n div 100 div 10" by (simp flip: div_mult2_eq)
    then show ?thesis using n2 e3 by (simp add: add_mult_distrib2)
  qed
  have z: "w = 0 \<longleftrightarrow> unat w = 0" for w :: u32 by (simp add: unat_eq_0)
  show thesis
  proof (rule that)
    show "put_dec_full q = [ucast (e0 - 10 * q0 + 48), ucast (e1 - 10 * q1 + 48), ucast (e2 - 10 * q2 + 48), ucast (e3 - 10 * q3 + 48), ucast (q3 + 48)]"
      by (simp only: put_dec_full_def Let_def dfs)
    show "put_dec_trunc q = ucast (e0 - 10 * q0 + 48) # (if e1 \<noteq> 0 then ucast (e1 - 10 * q1 + 48) #
       (if e2 \<noteq> 0 \<or> d3 \<noteq> 0 then ucast (e2 - 10 * q2 + 48) #
         (if e3 \<noteq> 0 then ucast (e3 - 10 * q3 + 48) # (if q3 \<noteq> 0 then [ucast (q3 + 48)] else []) else []) else []) else [])"
      by (simp only: put_dec_trunc_def Let_def dfs)
    show "unat e0 mod 10 = unat q mod 10" unfolding n_def [symmetric] n0 by (simp only: mod_mult_self2)
    show "unat e1 mod 10 = unat q div 10 mod 10" unfolding n_def [symmetric] n1 by (simp only: mod_mult_self2)
    show "unat e2 mod 10 = unat q div 100 mod 10" unfolding n_def [symmetric] n2 by (simp only: mod_mult_self2)
    show "(e1 = 0) = (unat q div 10 = 0)" unfolding n_def [symmetric] n1 z using e1 by auto
    show "(e2 = 0 \<and> d3 = 0) = (unat q div 100 = 0)" unfolding n_def [symmetric] n2 z using u by auto
    show "unat e3 = unat q div 1000" using n3 by (simp add: n_def)
  qed (fact q0 q1 q2 q3)+
qed

lemma put_dec_full_eq:
  assumes "unat q < 100000"
  shows "put_dec_full q = map (\<lambda>k. dchar (unat q div 10 ^ k mod 10)) [0, 1, 2, 3, 4]"
proof -
  obtain e0 q0 e1 q1 e2 q2 e3 q3 :: u32 where
    d: "put_dec_full q = [ucast (e0 - 10 * q0 + 48), ucast (e1 - 10 * q1 + 48), ucast (e2 - 10 * q2 + 48), ucast (e3 - 10 * q3 + 48), ucast (q3 + 48)]"
    "unat q0 = unat e0 div 10" "unat e0 mod 10 = unat q mod 10" "unat q1 = unat e1 div 10" "unat e1 mod 10 = unat q div 10 mod 10"
    "unat q2 = unat e2 div 10" "unat e2 mod 10 = unat q div 100 mod 10" "unat q3 = unat e3 div 10" "unat e3 = unat q div 1000"
    using dec_split [OF assms] by metis
  have "unat q3 < 10" unfolding d(8,9) using assms by simp
  then have "ucast (q3 + 48) = dchar (unat q3)" by (rule ucast_dchar)
  moreover have "unat q3 = unat q div 10000 mod 10" using \<open>unat q3 < 10\<close> by (simp add: d(8,9) flip: div_mult2_eq)
  ultimately show ?thesis unfolding d(1) rest_dchar [OF d(2)] rest_dchar [OF d(4)] rest_dchar [OF d(6)] rest_dchar [OF d(8)] d(3,5,7,9)
    by simp
qed

lemma digs10: "digs 10 n = n mod 10 # (if n div 10 = 0 then [] else digs 10 (n div 10))"
  by (simp add: digs.simps [of 10 n] div_eq_0_iff)

lemma digs10_five:
  assumes "n < 100000"
  shows "digs 10 n = n mod 10 # (if n div 10 = 0 then [] else n div 10 mod 10 # (if n div 100 = 0 then []
     else n div 100 mod 10 # (if n div 1000 = 0 then [] else n div 1000 mod 10 # (if n div 1000 div 10 = 0 then [] else [n div 1000 div 10]))))"
proof -
  have "n div 10 div 10 = n div 100" "n div 100 div 10 = n div 1000" by (simp_all flip: div_mult2_eq)
  moreover have "digs 10 (n div 1000 div 10) = [n div 1000 div 10]" using assms by (intro digs_small) (simp flip: div_mult2_eq)
  ultimately show ?thesis
    using digs10 [of n] digs10 [of "n div 10"] digs10 [of "n div 100"] digs10 [of "n div 1000"] by simp
qed

lemma put_dec_trunc_eq:
  assumes "unat q < 100000"
  shows "put_dec_trunc q = map dchar (digs 10 (unat q))"
proof -
  have z: "w = 0 \<longleftrightarrow> unat w = 0" for w :: u32 by (simp add: unat_eq_0)
  have l: "unat q div 1000 div 10 < 10" using assms by simp
  show ?thesis
  proof (rule dec_split [OF assms])
    fix e0 q0 e1 q1 e2 q2 e3 q3 d3 :: u32
    assume t: "put_dec_trunc q = ucast (e0 - 10 * q0 + 48) # (if e1 \<noteq> 0 then ucast (e1 - 10 * q1 + 48) #
       (if e2 \<noteq> 0 \<or> d3 \<noteq> 0 then ucast (e2 - 10 * q2 + 48) #
         (if e3 \<noteq> 0 then ucast (e3 - 10 * q3 + 48) # (if q3 \<noteq> 0 then [ucast (q3 + 48)] else []) else []) else []) else [])"
      and d: "unat q0 = unat e0 div 10" "unat e0 mod 10 = unat q mod 10" "unat q1 = unat e1 div 10" "unat e1 mod 10 = unat q div 10 mod 10"
      "(e1 = 0) = (unat q div 10 = 0)" "unat q2 = unat e2 div 10" "unat e2 mod 10 = unat q div 100 mod 10"
      "(e2 = 0 \<and> d3 = 0) = (unat q div 100 = 0)" "unat q3 = unat e3 div 10" "unat e3 = unat q div 1000"
    have c: "(e2 \<noteq> 0 \<or> d3 \<noteq> 0) = (unat q div 100 \<noteq> 0)" using d(8) by blast
    have ds: "ucast (e0 - 10 * q0 + 48) = dchar (unat q mod 10)" "ucast (e1 - 10 * q1 + 48) = dchar (unat q div 10 mod 10)"
      "ucast (e2 - 10 * q2 + 48) = dchar (unat q div 100 mod 10)" "ucast (e3 - 10 * q3 + 48) = dchar (unat q div 1000 mod 10)"
      "ucast (q3 + 48) = dchar (unat q div 1000 div 10)"
      using l by (simp_all only: rest_dchar [OF d(1)] rest_dchar [OF d(3)] rest_dchar [OF d(6)] rest_dchar [OF d(9)] ucast_dchar d(2,4,7,9,10))
    show ?thesis unfolding t c ds d(5) z [of e3] z [of q3] d(9,10) digs10_five [OF assms] by simp
  qed
qed

lemma digs10_five_more:
  assumes "100000 \<le> n"
  shows "digs 10 n = map (\<lambda>k. n mod 100000 div 10 ^ k mod 10) [0, 1, 2, 3, 4] @ digs 10 (n div 100000)"
proof -
  have s: "digs 10 (n div k) = n div k mod 10 # digs 10 (n div (k * 10))" if "0 < k" "k * 10 \<le> n" for k
  proof -
    have "10 \<le> n div k" using that by (simp add: less_eq_div_iff_mult_less_eq mult.commute)
    then show ?thesis by (simp add: digs_step div_mult2_eq)
  qed
  have m: "n mod (k * 10 * j) div k mod 10 = n div k mod 10" if "0 < k" for k j :: nat
    using that by (simp add: mod_mult2_eq div_mult2_eq mult.assoc)
  have "digs 10 n = [n div 1 mod 10, n div 10 mod 10, n div 100 mod 10, n div 1000 mod 10, n div 10000 mod 10] @ digs 10 (n div 100000)"
    using s [of 1] s [of 10] s [of 100] s [of 1000] s [of 10000] assms by simp
  then show ?thesis
    using m [of 1 10000] m [of 10 1000] m [of 100 100] m [of 1000 10] m [of 10000 1] by simp
qed

lemma put_dec_eq: "put_dec num = map dchar (digs 10 (unat num))"
proof (induction num rule: put_dec.induct)
  case (1 num)
  show ?case
  proof (cases "num < 100000")
    case True
    then have l: "unat num < 100000" by (simp add: word_less_nat_alt)
    then have "unat (ucast num :: u32) = unat num" unfolding unsigned_ucast_eq take_bit_eq_mod by simp
    then show ?thesis using True l put_dec_trunc_eq [of "ucast num"] by (simp add: put_dec.simps [of num])
  next
    case False
    then have ge: "100000 \<le> unat num" by (simp add: word_less_nat_alt)
    have "unat (num mod 100000) = unat num mod 100000" by (simp add: unat_mod)
    then have r: "unat (ucast (num mod 100000) :: u32) = unat num mod 100000" unfolding unsigned_ucast_eq take_bit_eq_mod by simp
    have "unat (num div 100000) = unat num div 100000" by (simp add: unat_div)
    then show ?thesis
      using 1 [OF False] False put_dec_full_eq [of "ucast (num mod 100000)"] r digs10_five_more [OF ge]
      by (simp add: put_dec.simps [of num])
  qed
qed

section \<open>Octal and hexadecimal conversion\<close>

definition hchar :: "byte \<Rightarrow> nat \<Rightarrow> byte" where
  "hchar locase d = digits16 ! d OR locase"

lemma pow2_digits_eq:
  assumes "0 < s" and "s \<le> 4"
  shows "pow2_digits s locase num = map (hchar locase) (digs (2 ^ s) (unat num))"
  using assms
proof (induction s locase num rule: pow2_digits.induct)
  case (1 s locase num)
  have b: "2 \<le> (2 :: nat) ^ s" using 1(2) power_increasing [of 1 s "2 :: nat"] by simp
  have "ucast num AND (2 ^ s - 1 :: byte) = take_bit s (ucast num)" by (simp add: take_bit_eq_mask mask_eq_exp_minus_1)
  moreover have "unat (take_bit s (ucast num :: byte)) = unat num mod 2 ^ s"
    using 1(3) by (simp add: unsigned_take_bit_eq unsigned_ucast_eq take_bit_take_bit min_absorb1 flip: take_bit_eq_mod)
  ultimately have d: "unat (ucast num AND (2 ^ s - 1 :: byte)) = unat num mod 2 ^ s" by simp
  have q: "unat (drop_bit s num) = unat num div 2 ^ s" unfolding unat_drop_bit_eq by (rule drop_bit_eq_div)
  show ?case
  proof (cases "drop_bit s num = 0")
    case True
    then have "unat num div 2 ^ s = 0" using q by simp
    then have "unat num < 2 ^ s" using b by (simp add: div_eq_0_iff)
    then show ?thesis using True d by (simp add: pow2_digits.simps [of s] hchar_def digs_small)
  next
    case False
    then have "unat num div 2 ^ s \<noteq> 0" using q by (metis unat_eq_zero)
    then have "2 ^ s \<le> unat num" by (metis div_less not_le)
    then show ?thesis using False 1 d q b by (simp add: pow2_digits.simps [of s] hchar_def digs_step)
  qed
qed

section \<open>Reading digits back\<close>

lemma hchar_digit:
  assumes "locase \<in> {0, 32}" and "d < 16"
  shows "isxdigit (hchar locase d) \<and> digit_value (hchar locase d) = of_nat d \<and> hchar locase d \<noteq> 120 \<and> hchar locase d \<noteq> 45
     \<and> (hchar locase d = 48 \<longleftrightarrow> d = 0)"
proof -
  have "list_all (\<lambda>locase. list_all (\<lambda>d. isxdigit (hchar locase d) \<and> digit_value (hchar locase d) = of_nat d
     \<and> hchar locase d \<noteq> 120 \<and> hchar locase d \<noteq> 45 \<and> (hchar locase d = 48 \<longleftrightarrow> d = 0)) [0..<16]) [0, 32]" by code_simp
  then show ?thesis using assms by (auto simp: list_all_iff)
qed

lemma dchar_hchar:
  assumes "locase \<in> {0, 32}" and "d < 10"
  shows "dchar d = hchar locase d"
proof -
  have "list_all (\<lambda>locase. list_all (\<lambda>d. dchar d = hchar locase d) [0..<10]) [0, 32]" by code_simp
  then show ?thesis using assms by (auto simp: list_all_iff)
qed

definition stops :: "nat \<Rightarrow> byte \<Rightarrow> bool" where
  "stops b c \<longleftrightarrow> \<not> (isxdigit c \<and> digit_value c < of_nat b)"

lemma load_append: "load (pre @ c # rest) (length pre) = Some c"
  by (simp add: load_def)

lemma strtoul_loop_digits:
  fixes r :: "'a::len word"
  assumes "2 \<le> b" "b \<le> 16" and "locase \<in> {0, 32}" and "\<forall>d\<in>set ds. d < b" and "stops b c"
  shows "strtoul_loop (pre @ map (hchar locase) ds @ c # rest) (length pre) (of_nat b) r
     = Some (foldl (\<lambda>r d. r * of_nat b + of_nat d) r ds, length pre + length ds)"
  using assms(4)
proof (induction ds arbitrary: pre r)
  case Nil
  then show ?case using assms(5) by (auto simp: strtoul_loop.simps [of "pre @ c # rest" "length pre"] load_append stops_def)
next
  case (Cons d ds)
  have d: "d < b" "d < 16" using Cons.prems assms(2) by auto
  have ub: "unat (of_nat b :: u32) = b" "unat (of_nat d :: u32) = d" unfolding unat_of_nat using d assms(2) by simp_all
  then have lt: "(of_nat d :: u32) < of_nat b" using d by (simp add: word_less_nat_alt)
  have uc: "ucast (of_nat b :: u32) = (of_nat b :: 'a word)" "ucast (of_nat d :: u32) = (of_nat d :: 'a word)"
    using of_nat_unat [of "of_nat b :: u32", where ?'a = "'a word"] of_nat_unat [of "of_nat d :: u32", where ?'a = "'a word"]
    unfolding ub by simp_all
  have "pre @ map (hchar locase) (d # ds) @ c # rest = (pre @ [hchar locase d]) @ map (hchar locase) ds @ c # rest" by simp
  then show ?case
    using Cons.IH [of "pre @ [hchar locase d]" "r * of_nat b + of_nat d"] Cons.prems hchar_digit [OF assms(3) d(2)] lt uc
    by (simp add: strtoul_loop.simps [of "pre @ hchar locase d # map (hchar locase) ds @ c # rest" "length pre"] load_append)
qed

lemma foldl_digs:
  assumes "2 \<le> b"
  shows "foldl (\<lambda>r d. r * of_nat b + of_nat d) 0 (rev (digs b n)) = (of_nat n :: 'a::len word)"
proof -
  have "foldl (\<lambda>r d. r * of_nat b + of_nat d) 0 (rev ds) = (of_nat (digs_value b ds) :: 'a word)" for ds
    by (induction ds) (simp_all add: digs_value_def algebra_simps)
  then show ?thesis using digs_value_digs [OF assms] by simp
qed

section \<open>Numbers without padding\<close>

lemma unsigned_digits:
  assumes "base \<in> {8, 10, 16}" and "locase \<in> {0, 32}"
  shows "(if num = 0 then [48] else if base \<noteq> 10 then pow2_digits (if base = 16 then 4 else 3) locase num else put_dec num)
     = map (hchar locase) (digs (nat base) (unat num))"
proof (cases "num = 0")
  case True
  have "hchar locase 0 = 48" using hchar_digit [OF assms(2), of 0] by simp
  moreover have "0 < nat base" using assms(1) by auto
  ultimately show ?thesis using True by (simp add: digs_small)
next
  case False
  have "map dchar (digs 10 (unat num)) = map (hchar locase) (digs 10 (unat num))"
    using dchar_hchar [OF assms(2)] digs_less [of 10] by simp
  then show ?thesis using False assms(1) pow2_digits_eq [of 4 locase num] pow2_digits_eq [of 3 locase num]
    by (auto simp: put_dec_eq)
qed

lemma pad_neg [simp]: "sz < 0 \<Longrightarrow> pad c sz = ([], sz - 1)" "pad c 0 = ([], -1)"
  by (simp_all add: pad_def)

text \<open>Without a width and a precision the output is the prefix and the digits.\<close>

lemma number_plain:
  assumes "base \<in> {8, 10, 16}" and "flags \<in> {0, SPECIAL, SMALL, SPECIAL OR SMALL}"
  defines "locase \<equiv> ucast (flags AND SMALL)"
  shows "number num base (-1) (-1) flags =
     (if has flags SPECIAL \<and> base \<noteq> 10 then if base = 16 then [48, 88 OR locase] else [48] else [])
       @ map (hchar locase) (rev (digs (nat base) (unat num)))"
proof -
  have l: "locase \<in> {0, 32}" and f: "\<not> has flags LEFT" "\<not> has flags SIGN" "\<not> has flags (ZEROPAD + LEFT)" "\<not> has flags ZEROPAD"
    using assms(2) by (auto simp: locase_def fmt_flags has_def)
  define n where "n = int (length (digs (nat base) (unat num)))"
  have "0 < n" by (simp add: n_def)
  then show ?thesis
    using f unfolding number_def Let_def locase_def [symmetric] unsigned_digits [OF assms(1) l]
    by (simp add: rev_map flip: n_def)
qed

section \<open>Reading a printed number\<close>

lemma load_append2:
  "load (pre @ a # b # rest) (Suc (length pre)) = Some b" "load (pre @ a # b # c # rest') (Suc (Suc (length pre))) = Some c"
  "load (pre @ a # b # rest) (length pre + 1) = Some b" "load (pre @ a # b # c # rest') (length pre + 2) = Some c"
  by (simp_all add: load_def nth_append)

text \<open>What the prefix of a printed number selects: base and first position of the loop, and the digits left for it.\<close>

lemma prefix_of_number:
  fixes num :: "64 word"
  assumes base: "base \<in> {8, 10, 16}" and c: "\<not> isxdigit c" "c \<noteq> 120"
  defines "t \<equiv> number num base (-1) (-1) (SPECIAL OR SMALL)"
  shows "\<exists>skip b. strtoul_prefix (pre @ t @ c # rest) (length pre) 0 = Some (length pre + length skip, of_nat b) \<and> b \<in> {8, 10, 16}
     \<and> (\<exists>ds. t = skip @ map (hchar 32) ds \<and> (\<forall>d\<in>set ds. d < b) \<and> foldl (\<lambda>r d. r * of_nat b + of_nat d) 0 ds = (of_nat (unat num) :: 'a::len word))"
proof -
  define ds where "ds = rev (digs (nat base) (unat num))"
  have ne: "ds \<noteq> []" by (simp add: ds_def)
  have lt: "\<forall>d\<in>set ds. d < nat base" using digs_less [of "nat base"] base by (auto simp: ds_def)
  have val: "foldl (\<lambda>r d. r * of_nat (nat base) + of_nat d) 0 ds = (of_nat (unat num) :: 'a word)"
    unfolding ds_def by (rule foldl_digs) (use base in auto)
  have f: "has (SPECIAL OR SMALL) SPECIAL" "ucast ((SPECIAL OR SMALL) AND SMALL) = (32 :: byte)" by (simp_all add: fmt_flags has_def)
  have t: "t = (if base \<noteq> 10 then if base = 16 then [48, 120] else [48] else []) @ map (hchar 32) ds"
    unfolding t_def number_plain [OF base insertI2 [OF insertI2 [OF insertI2 [OF insertI1]]]] f ds_def by (simp add: f(1))
  obtain d ds' where dd: "ds = d # ds'" using ne by (cases ds) auto
  have d16: "d < 16" using lt base dd by auto
  note h = hchar_digit [of 32 d, simplified, OF d16]
  consider "base = 16" | "base = 8" | "base = 10" "num = 0" | "base = 10" "num \<noteq> 0" using base by auto
  then show ?thesis
  proof cases
    case 1
    then have "t = [48, 120] @ map (hchar 32) ds" by (simp add: t)
    moreover have "strtoul_prefix (pre @ t @ c # rest) (length pre) 0 = Some (length pre + 2, 16)"
      using h unfolding strtoul_prefix_def calculation dd by (simp add: load_append load_append2)
    ultimately show ?thesis using 1 lt val by (intro exI [of _ "[48, 120]"] exI [of _ 16]) auto
  next
    case 2
    then have "t = [48] @ map (hchar 32) ds" by (simp add: t)
    moreover have "strtoul_prefix (pre @ t @ c # rest) (length pre) 0 = Some (length pre + 1, 8)"
      using h unfolding strtoul_prefix_def calculation dd by (simp add: load_append load_append2)
    ultimately show ?thesis using 2 lt val by (intro exI [of _ "[48]"] exI [of _ 8]) auto
  next
    case 3
    then have "t = [48] @ map (hchar 32) []" using hchar_digit [of 32 0] by (simp add: t ds_def digs_small)
    moreover have "strtoul_prefix (pre @ t @ c # rest) (length pre) 0 = Some (length pre + 1, 8)"
      using c(2) unfolding strtoul_prefix_def calculation by (simp add: load_append load_append2)
    ultimately show ?thesis using 3 by (intro exI [of _ "[48]"] exI [of _ 8]) auto
  next
    case 4
    then have t4: "t = map (hchar 32) ds" by (simp add: t)
    have "0 < unat num" using 4(2) by (simp add: unat_gt_0)
    then have "last (digs 10 (unat num)) \<noteq> 0" by (intro digs_last) simp_all
    then have "d \<noteq> 0" using dd 4(1) by (metis ds_def hd_rev list.sel(1) nat_numeral)
    then have "strtoul_prefix (pre @ t @ c # rest) (length pre) 0 = Some (length pre, 10)"
      using h unfolding strtoul_prefix_def t4 dd by (simp add: load_append)
    then show ?thesis using 4 lt val t4 by (intro exI [of _ "[]"] exI [of _ 10]) auto
  qed
qed

lemma read_number:
  fixes num :: "64 word"
  assumes base: "base \<in> {8, 10, 16}" and c: "\<not> isxdigit c" "c \<noteq> 120"
  defines "t \<equiv> number num base (-1) (-1) (SPECIAL OR SMALL)"
  shows "do { (cp, b) \<leftarrow> strtoul_prefix (pre @ t @ c # rest) (length pre) 0; strtoul_loop (pre @ t @ c # rest) cp b 0 }
     = Some (of_nat (unat num) :: 'a::len word, length pre + length t)"
proof -
  obtain skip b ds where p: "strtoul_prefix (pre @ t @ c # rest) (length pre) 0 = Some (length pre + length skip, of_nat b)"
    "b \<in> {8, 10, 16}" "t = skip @ map (hchar 32) ds" "\<forall>d\<in>set ds. d < b"
    "foldl (\<lambda>r d. r * of_nat b + of_nat d) 0 ds = (of_nat (unat num) :: 'a word)"
    using prefix_of_number [OF base c, of pre num rest] unfolding t_def by blast
  have "2 \<le> b" "b \<le> 16" using p(2) by auto
  moreover have "stops b c" using c(1) by (simp add: stops_def)
  ultimately show ?thesis using p strtoul_loop_digits [of b 32 ds c "pre @ skip" rest "0 :: 'a word"] by simp
qed

section \<open>Signed numbers and literal text\<close>

lemma number_signed:
  assumes "flags \<in> {SIGN, ZEROPAD OR SIGN}" and "sz \<le> 1" and "0 \<le> n" and "n < 2147483648"
  shows "number (scast (of_int n :: u32)) 10 sz (-1) flags = map dchar (rev (digs 10 (nat n)))"
proof -
  define num where "num = (scast (of_int n :: u32) :: 64 word)"
  have si: "sint (of_int n :: u32) = n" unfolding signed_of_int using assms(3,4) by (simp add: signed_take_bit_int_eq_self)
  then have num: "num = of_int n" unfolding num_def by (metis of_int_sint)
  have sn: "sint num = n" unfolding num signed_of_int using assms(3,4) by (simp add: signed_take_bit_int_eq_self)
  have un: "unat num = nat n" using assms(3,4) unfolding num by (simp add: unsigned_of_int take_bit_int_eq_self)
  have f: "\<not> has flags LEFT" "has flags SIGN" "\<not> has flags PLUS" "\<not> has flags SPACE" "\<not> has flags SPECIAL"
    and l: "ucast (flags AND SMALL) = (0 :: byte)"
    using assms(1) by (auto simp: fmt_flags has_def)
  have 0: "n = 0 \<longleftrightarrow> num = 0" using un assms(3) by (auto simp: unat_eq_0)
  define k where "k = int (length (digs 10 (nat n)))"
  have k: "0 < k" by (simp add: k_def)
  then have p: "nat (sz - k) = 0" "0 \<le> sz - k \<longleftrightarrow> sz - k = 0" using assms(2) by auto
  show ?thesis
  proof (cases "num = 0")
    case True
    then have "k = 1" "digs 10 (nat n) = [0]" "dchar 0 = 48" using 0 by (simp_all add: k_def digs_small dchar_def)
    then show ?thesis using f l p sn assms(3) True unfolding num_def [symmetric] number_def Let_def
      by (simp add: pad_def)
  next
    case False
    then show ?thesis using f l k p sn assms(3) unfolding num_def [symmetric] number_def Let_def
      by (simp add: put_dec_eq un rev_map pad_def flip: k_def)
  qed
qed

lemma vsn_char:
  "load m fmt = Some c \<Longrightarrow> c \<noteq> 0 \<Longrightarrow> c \<noteq> 37 \<Longrightarrow> vsn_loop m fmt st = vsn_loop m (fmt + 1) (add_out [c] st)"
  by (simp add: vsn_loop.simps [of m fmt])

lemma vsn_directive:
  "load m fmt = Some 37 \<Longrightarrow> fmt_directive m fmt st = Some (fmt', st') \<Longrightarrow> vsn_loop m fmt st = vsn_loop m fmt' st'"
  by (simp add: vsn_loop.simps [of m fmt])

lemma add_out_add_out [simp]: "add_out ys (add_out xs st) = add_out (xs @ ys) st"
  by (simp add: add_out_def)

text \<open>Characters other than the percent sign are copied.\<close>

lemma vsn_literal:
  assumes "0 \<notin> set cs" and "37 \<notin> set cs"
  shows "vsn_loop (pre @ cs @ rest) (length pre) st = vsn_loop (pre @ cs @ rest) (length pre + length cs) (add_out cs st)"
  using assms
proof (induction cs arbitrary: pre st)
  case Nil
  then show ?case by (simp add: add_out_def)
next
  case (Cons c cs)
  have "load (pre @ (c # cs) @ rest) (length pre) = Some c" by (simp add: load_append)
  then have "vsn_loop (pre @ (c # cs) @ rest) (length pre) st = vsn_loop ((pre @ [c]) @ cs @ rest) (length (pre @ [c])) (add_out [c] st)"
    using Cons.prems by (subst vsn_char) auto
  then show ?case using Cons.IH [of "pre @ [c]" "add_out [c] st"] Cons.prems by simp
qed

section \<open>Properties\<close>

text \<open>C31 (put_dec_decimal): the decimal conversion, which divides by multiplying and shifting, produces for every 64-bit
  number the characters of its decimal digits, least significant first, at most twenty of them, without leading zeros.\<close>

theorem put_dec_decimal:
  "put_dec num = map (\<lambda>d. of_nat (48 + d)) (digs 10 (unat num)) \<and> digs_value 10 (digs 10 (unat num)) = unat num
   \<and> length (put_dec num) \<le> 20 \<and> (last (digs 10 (unat num)) = 0 \<longleftrightarrow> num = 0)"
proof -
  have "unat num < 10 ^ 20" using unsigned_less [of num, where ?'a = nat] by (rule less_trans) simp
  then have "length (digs 10 (unat num)) \<le> 20" by (intro length_digs_le) simp_all
  moreover have "last (digs 10 (unat num)) = 0 \<longleftrightarrow> num = 0"
    using digs_last [of 10 "unat num"] by (cases "num = 0") (simp_all add: unat_gt_0 digs_small)
  ultimately show ?thesis by (simp add: put_dec_eq dchar_def [abs_def] digs_value_digs)
qed

text \<open>C32 (strtoul_reads_number): a number printed in base 8, 10 or 16 with its prefix, as \<open>%#llo\<close>, \<open>%#llu\<close> and \<open>%#llx\<close> do, is
  read back by the parsers when they are left to find the base: \<open>simple_strtoull\<close> returns it, \<open>simple_strtoul\<close> its low
  32 bits, and both stop right after the last digit, if what follows is neither a hexadecimal digit nor an \<open>x\<close>.\<close>

theorem strtoul_reads_number:
  assumes "base \<in> {8, 10, 16}" and "\<not> isxdigit c" and "c \<noteq> 120"
    and "m = pre @ number num base (-1) (-1) (SPECIAL OR SMALL) @ c # rest"
  shows "simple_strtoull m (length pre) 0 = Some (num, length pre + length (number num base (-1) (-1) (SPECIAL OR SMALL)))
     \<and> simple_strtoul m (length pre) 0 = Some (ucast num, length pre + length (number num base (-1) (-1) (SPECIAL OR SMALL)))"
  using read_number [OF assms(1-3), of pre num rest, where ?'a = 64] read_number [OF assms(1-3), of pre num rest, where ?'a = 32]
  unfolding simple_strtoull_def simple_strtoul_def assms(4) by simp

theorem strtoul_reads_number_witness:
  "simple_strtoull ([33] @ number 0xBEEF 16 (-1) (-1) (SPECIAL OR SMALL) @ 0 # []) (length [33 :: byte]) 0
       = Some (0xBEEF, length [33 :: byte] + length (number 0xBEEF 16 (-1) (-1) (SPECIAL OR SMALL)))
   \<and> simple_strtoul ([33] @ number 0xBEEF 16 (-1) (-1) (SPECIAL OR SMALL) @ 0 # []) (length [33 :: byte]) 0
       = Some (ucast (0xBEEF :: 64 word), length [33 :: byte] + length (number 0xBEEF 16 (-1) (-1) (SPECIAL OR SMALL)))"
proof -
  have "(16 :: int) \<in> {8, 10, 16}" "\<not> isxdigit 0" "(0 :: byte) \<noteq> 120" by (simp_all add: ctype_defs)
  from strtoul_reads_number [OF this refl] show ?thesis .
qed

end
