(* ===== verification/Irq.thy ===== *)
theory Irq
  imports Vsprintf_Proofs
begin

unbundle bit_operations_syntax

text \<open>
  arch/arm/lib/interrupts.c: the table of interrupt handlers, the enable bits of the interrupt controller and the
  dispatch of an interrupt. The table and the registers the file writes are the record \<open>avic\<close>, with the status register
  of the processor; a register keeps the value last written to it. A handler is a value of the type \<open>'h\<close>; what it
  does is the parameter \<open>run\<close> of \<open>do_irq\<close>. The console output is not modelled. \<^term>\<open>None\<close> is undefined behaviour.
\<close>

section \<open>State\<close>

definition IRQ_FLAG_INUSE :: u32 where "IRQ_FLAG_INUSE = 0x01"
definition IRQ_DESC_NAME_LEN :: nat where "IRQ_DESC_NAME_LEN = 24"
definition MAX_GPIO_PIN_NUM :: u32 where "MAX_GPIO_PIN_NUM = 128"
definition MXC_INTERNAL_IRQS :: u32 where "MXC_INTERNAL_IRQS = 64"
definition MXC_INT_GPT2 :: u32 where "MXC_INT_GPT2 = 53"
definition MXC_INT_GPT1 :: u32 where "MXC_INT_GPT1 = 54"

lemmas irq_consts = IRQ_FLAG_INUSE_def IRQ_DESC_NAME_LEN_def MAX_GPIO_PIN_NUM_def MXC_INTERNAL_IRQS_def
  MXC_INT_GPT2_def MXC_INT_GPT1_def

record 'h irq_s =
  irq_handler :: "'h option"
  flag :: u32
  irq_name :: mem

record 'h avic =
  def_irq_handler :: "'h irq_s list"
  AVIC_INTENABLEH :: u32
  AVIC_INTENABLEL :: u32
  AVIC_INTENNUM :: u32
  AVIC_INTDISNUM :: u32
  AVIC_INTCNTL :: u32
  AVIC_NIMASK :: u32
  AVIC_INTTYPEH :: u32
  AVIC_INTTYPEL :: u32
  AVIC_NIPRIORITY :: "u32 list"
  cpsr :: u32

section \<open>Processor and controller\<close>

definition enable_interrupts :: "'h avic \<Rightarrow> 'h avic" where
  "enable_interrupts s = s\<lparr>cpsr := cpsr s AND NOT 0x80\<rparr>"

definition disable_interrupts :: "'h avic \<Rightarrow> bool \<times> 'h avic" where
  "disable_interrupts s = (cpsr s AND 0x80 = 0, s\<lparr>cpsr := cpsr s OR 0xc0\<rparr>)"

definition irq_chip_enable :: "u32 \<Rightarrow> 'h avic \<Rightarrow> 'h avic" where
  "irq_chip_enable irq_num s =
     (if 63 < irq_num then s
      else if 31 < irq_num
      then s\<lparr>AVIC_INTENABLEH := AVIC_INTENABLEH s OR push_bit (unat (irq_num - 32)) 1, AVIC_INTENNUM := irq_num\<rparr>
      else s\<lparr>AVIC_INTENABLEL := AVIC_INTENABLEL s OR push_bit (unat irq_num) 1, AVIC_INTENNUM := irq_num\<rparr>)"

definition irq_chip_disable :: "u32 \<Rightarrow> 'h avic \<Rightarrow> 'h avic" where
  "irq_chip_disable irq_num s =
     (if 63 < irq_num then s
      else if 31 < irq_num
      then s\<lparr>AVIC_INTENABLEH := AVIC_INTENABLEH s AND NOT (push_bit (unat (irq_num - 32)) 1), AVIC_INTDISNUM := irq_num\<rparr>
      else s\<lparr>AVIC_INTENABLEL := AVIC_INTENABLEL s AND NOT (push_bit (unat irq_num) 1), AVIC_INTDISNUM := irq_num\<rparr>)"

section \<open>The handler table\<close>

definition defaut_fmt :: mem where "defaut_fmt = [100, 101, 102, 97, 117, 116, 58, 37, 100, 0]"

text \<open>
  The name of an entry: \<open>name\<close> is the object the caller's string starts in, or the null pointer. A long name is cut
  to 23 bytes and the terminator is the one the entry already has.
\<close>

definition set_name :: "u32 \<Rightarrow> mem option \<Rightarrow> mem \<Rightarrow> mem option" where
  "set_name irq_num nm buf =
     (case nm of
       None \<Rightarrow> do { (n, buf, st) \<leftarrow> vsprintf buf defaut_fmt 0 [V32 irq_num]; Some buf }
     | Some str \<Rightarrow>
         do { len \<leftarrow> strlen str 0;
              if IRQ_DESC_NAME_LEN \<le> len then copy_bytes buf 0 str 0 (IRQ_DESC_NAME_LEN - 1)
              else do { (d, m) \<leftarrow> strcpy (buf @ str) 0 (length buf); Some (take (length buf) m) } })"

definition set_irq_handler :: "u32 \<Rightarrow> 'h option \<Rightarrow> mem option \<Rightarrow> 'h avic \<Rightarrow> (int \<times> 'h avic) option" where
  "set_irq_handler irq_num func nm s =
     (if 63 < irq_num then Some (-1, s)
      else do {
        e \<leftarrow> load (def_irq_handler s) (unat irq_num);
        if irq_handler e \<noteq> None then Some (-1, s)
        else do {
          name' \<leftarrow> set_name irq_num nm (irq_name e);
          tab \<leftarrow> store (def_irq_handler s) (unat irq_num)
            (e\<lparr>irq_handler := func, irq_name := name', flag := flag e OR IRQ_FLAG_INUSE\<rparr>);
          Some (0, s\<lparr>def_irq_handler := tab\<rparr>) } })"

definition clr_irq_handler :: "u32 \<Rightarrow> 'h avic \<Rightarrow> 'h avic option" where
  "clr_irq_handler irq_num s =
     (if 63 < irq_num then Some s
      else do {
        e \<leftarrow> load (def_irq_handler s) (unat irq_num);
        (d, nm) \<leftarrow> memset (irq_name e) 0 0 IRQ_DESC_NAME_LEN;
        tab \<leftarrow> store (def_irq_handler s) (unat irq_num)
          (e\<lparr>irq_handler := None, irq_name := nm, flag := flag e AND NOT IRQ_FLAG_INUSE\<rparr>);
        Some (s\<lparr>def_irq_handler := tab\<rparr>) })"

definition init_irq_default_handler :: "'h avic \<Rightarrow> 'h avic option" where
  "init_irq_default_handler s =
     foldM (\<lambda>i s. do {
        e \<leftarrow> load (def_irq_handler s) i;
        (d, nm) \<leftarrow> memset (irq_name e) 0 0 IRQ_DESC_NAME_LEN;
        tab \<leftarrow> store (def_irq_handler s) i (e\<lparr>irq_handler := None, irq_name := nm, flag := 0\<rparr>);
        Some (s\<lparr>def_irq_handler := tab\<rparr>) }) [0..<unat MXC_INTERNAL_IRQS] s"

text \<open>The handler an interrupt number selects: outside the table the read is undefined.\<close>

definition run_irq_handler :: "('h \<Rightarrow> 's \<Rightarrow> 's) \<Rightarrow> u32 \<Rightarrow> 'h avic \<Rightarrow> 's \<Rightarrow> 's option" where
  "run_irq_handler run irq s w =
     do { e \<leftarrow> load (def_irq_handler s) (unat irq);
          case irq_handler e of
            None \<Rightarrow> Some w
          | Some h \<Rightarrow> if flag e AND IRQ_FLAG_INUSE \<noteq> 0 then Some (run h w) else Some w }"

section \<open>Requests\<close>

definition restore_interrupts :: "bool \<Rightarrow> 'h avic \<Rightarrow> 'h avic" where
  "restore_interrupts on s = (if on then enable_interrupts s else s)"

definition irq_request :: "u32 \<Rightarrow> 'h option \<Rightarrow> mem option \<Rightarrow> 'h avic \<Rightarrow> (int \<times> 'h avic) option" where
  "irq_request irq_num func nm s =
     (if irq_num = MXC_INT_GPT1 then Some (-1, s)
      else if MXC_INTERNAL_IRQS + MAX_GPIO_PIN_NUM \<le> irq_num then Some (-1, s)
      else case disable_interrupts s of (on, s) \<Rightarrow>
        do { (ret, s) \<leftarrow> (if irq_num < MXC_INTERNAL_IRQS then set_irq_handler irq_num func nm (irq_chip_enable irq_num s) else Some (0, s));
             Some (ret, restore_interrupts on s) })"

definition irq_request_free :: "u32 \<Rightarrow> 'h avic \<Rightarrow> (int \<times> 'h avic) option" where
  "irq_request_free irq_num s =
     (if MXC_INTERNAL_IRQS + MAX_GPIO_PIN_NUM \<le> irq_num then Some (-1, s)
      else case disable_interrupts s of (on, s) \<Rightarrow>
        do { s \<leftarrow> (if irq_num < MXC_INTERNAL_IRQS then clr_irq_handler irq_num (irq_chip_disable irq_num s) else Some s);
             Some (0, restore_interrupts on s) })"

definition disable_all_interrupts :: "'h avic \<Rightarrow> 'h avic option" where
  "disable_all_interrupts s =
     foldM (\<lambda>irq_num s. clr_irq_handler (of_nat irq_num) (irq_chip_disable (of_nat irq_num) s)) [0..<unat MXC_INTERNAL_IRQS]
       (snd (disable_interrupts s))"

definition arch_interrupt_init :: "'h avic \<Rightarrow> (int \<times> 'h avic) option" where
  "arch_interrupt_init s =
     do { s \<leftarrow> disable_all_interrupts s;
          s \<leftarrow> init_irq_default_handler s;
          Some (0, s\<lparr>AVIC_INTCNTL := push_bit 21 1, AVIC_NIMASK := 0x1f, AVIC_INTENABLEH := 0, AVIC_INTENABLEL := 0,
                    AVIC_INTTYPEH := 0, AVIC_INTTYPEL := 0, AVIC_NIPRIORITY := replicate 8 0\<rparr>) }"

text \<open>\<open>vec\<close> is the vector register: the number of the interrupt in its upper half.\<close>

definition irq_handler_server :: "('h \<Rightarrow> 's \<Rightarrow> 's) \<Rightarrow> u32 \<Rightarrow> 'h avic \<Rightarrow> 's \<Rightarrow> 's option" where
  "irq_handler_server run vec = run_irq_handler run (drop_bit 16 vec)"

definition do_irq :: "('h \<Rightarrow> 's \<Rightarrow> 's) \<Rightarrow> u32 \<Rightarrow> 'h avic \<Rightarrow> 's \<Rightarrow> 's option" where
  "do_irq run vec = irq_handler_server run vec"

section \<open>The abstract table\<close>

text \<open>The interface: a partial map from interrupt numbers to handlers.\<close>

definition arequest :: "nat \<Rightarrow> 'h \<Rightarrow> (nat \<rightharpoonup> 'h) \<Rightarrow> int \<times> (nat \<rightharpoonup> 'h)" where
  "arequest n h tab =
     (if n = 54 \<or> 192 \<le> n then (-1, tab)
      else if 64 \<le> n then (0, tab)
      else if tab n \<noteq> None then (-1, tab) else (0, tab(n \<mapsto> h)))"

definition afree :: "nat \<Rightarrow> (nat \<rightharpoonup> 'h) \<Rightarrow> int \<times> (nat \<rightharpoonup> 'h)" where
  "afree n tab = (if 192 \<le> n then (-1, tab) else (0, tab(n := None)))"

definition handlers :: "'h avic \<Rightarrow> nat \<rightharpoonup> 'h" where
  "handlers s n = (if n < 64 then irq_handler (def_irq_handler s ! n) else None)"

definition enabled :: "'h avic \<Rightarrow> nat \<Rightarrow> bool" where
  "enabled s n \<longleftrightarrow> bit (if 32 \<le> n then AVIC_INTENABLEH s else AVIC_INTENABLEL s) (n mod 32)"

definition entry_ok :: "'h irq_s \<Rightarrow> bool" where
  "entry_ok e \<longleftrightarrow> length (irq_name e) = 24 \<and> irq_name e ! 23 = 0 \<and> (bit (flag e) 0 \<longleftrightarrow> irq_handler e \<noteq> None)"

text \<open>
  Names fit and are terminated, an entry is marked as used exactly when it has a handler, and exactly the interrupts
  with a handler are enabled.
\<close>

definition irq_wf :: "'h avic \<Rightarrow> bool" where
  "irq_wf s \<longleftrightarrow> length (def_irq_handler s) = 64 \<and> (\<forall>n<64. entry_ok (def_irq_handler s ! n) \<and> (enabled s n \<longleftrightarrow> handlers s n \<noteq> None))"

definition name_ok :: "mem option \<Rightarrow> bool" where
  "name_ok nm \<longleftrightarrow> (case nm of None \<Rightarrow> True | Some str \<Rightarrow> \<exists>xs. cstr str 0 xs)"

section \<open>Names\<close>

lemma directive_defaut:
  "fmt_directive defaut_fmt 7 \<lparr>out = o', args = [V32 v], nstores = []\<rparr> =
     Some (9, \<lparr>out = o' @ number (scast v) 10 (-1) (-1) SIGN, args = [], nstores = []\<rparr>)"
proof -
  have l: "load defaut_fmt 8 = Some 100" by (simp add: defaut_fmt_def load_def)
  have f: "fmt_flags_loop defaut_fmt 8 0 = Some (0, 8)" by (simp add: fmt_flags_loop.simps [of defaut_fmt 8] l flag_char_def)
  show ?thesis
    by (simp add: fmt_directive_def f fmt_width_def fmt_precision_def fmt_qualifier_def fmt_convert_def l is_digit_def
        conv_int_def fmt_number_def has_def fmt_flags word_le_nat_alt add_out_def)
qed

abbreviation defaut_text :: "byte list" where
  "defaut_text \<equiv> [100, 101, 102, 97, 117, 116, 58]"

lemma defaut_name:
  assumes "unat v < 64" and "length buf = 24"
  shows "\<exists>t. length t \<le> 9 \<and> set_name v None buf = Some (t @ [0] @ drop (length t + 1) buf)"
proof -
  define s0 where "s0 = \<lparr>out = [], args = [V32 v], nstores = []\<rparr>"
  have e: "defaut_fmt = [] @ defaut_text @ [37, 100, 0]" by (simp add: defaut_fmt_def)
  have z: "0 \<notin> set defaut_text" "37 \<notin> set defaut_text" by simp_all
  have n: "length ([] :: byte list) = 0" "0 + length defaut_text = 7" by simp_all
  have 1: "vsn_loop defaut_fmt 0 s0 = vsn_loop defaut_fmt 7 (add_out defaut_text s0)"
    using vsn_literal [OF z, of "[]" "[37, 100, 0]" s0] unfolding e by (simp only: n)
  have l: "load defaut_fmt 7 = Some 37" "load defaut_fmt 9 = Some 0" by (simp_all add: defaut_fmt_def load_def)
  define ds where "ds = map dchar (rev (digs 10 (unat v)))"
  have "uint v < 2147483648" using assms(1) of_nat_unat [of v, where ?'a = int] by linarith
  then have "number (scast v) 10 (-1) (-1) SIGN = ds"
    using number_signed [of SIGN "-1" "int (unat v)"] by (simp add: ds_def)
  then have "vsn_loop defaut_fmt 0 s0 = Some \<lparr>out = defaut_text @ ds, args = [], nstores = []\<rparr>"
    using 1 vsn_directive [OF l(1) directive_defaut [of defaut_text v]] l(2)
    by (simp add: s0_def add_out_def vsn_loop.simps [of defaut_fmt 9])
  moreover have "length ds \<le> 2" using length_digs_le [of 10 "unat v" 2] assms(1) by (simp add: ds_def)
  ultimately show ?thesis using assms(2)
    by (intro exI [of _ "defaut_text @ ds"]) (simp add: set_name_def vsprintf_def s0_def copy_bytes_def)
qed

lemma set_name_ok:
  assumes "unat v < 64" and "name_ok nm" and "length buf = 24" and "buf ! 23 = 0"
  shows "\<exists>buf'. set_name v nm buf = Some buf' \<and> length buf' = 24 \<and> buf' ! 23 = 0"
proof (cases nm)
  case None
  obtain t where "length t \<le> 9" "set_name v None buf = Some (t @ [0] @ drop (length t + 1) buf)"
    using defaut_name [OF assms(1,3)] by blast
  then show ?thesis using None assms(3,4) by (intro exI [of _ "t @ [0] @ drop (length t + 1) buf"]) (simp add: nth_append)
next
  case (Some str)
  then obtain xs where xs: "cstr str 0 xs" using assms(2) by (auto simp: name_ok_def)
  show ?thesis
  proof (cases "24 \<le> length xs")
    case True
    then have "23 \<le> length str" using cstr_bound [OF xs] by simp
    then show ?thesis using Some xs True assms(3,4) by (simp add: set_name_def strlen_cstr irq_consts copy_bytes_def nth_append)
  next
    case False
    define m where "m = write_bytes (buf @ str) 0 (xs @ [0])"
    have b: "length xs < length str" using cstr_bound [OF xs] by simp
    have "cstr (buf @ str) (length buf) xs" using xs by (simp add: cstr_iff nth_append)
    then have "strcpy_loop (buf @ str) 0 (length buf) = Some m"
      unfolding m_def using assms(3) b by (intro strcpy_loop_cstr) auto
    then have "set_name v nm buf = Some (take 24 m)" using Some xs False assms(3)
      by (simp add: set_name_def strlen_cstr irq_consts strcpy_def)
    moreover have "length (take 24 m) = 24" using assms(3) b by (simp add: m_def)
    moreover have "take 24 m ! 23 = 0" using assms(3,4) b False by (auto simp: m_def nth_write_bytes nth_append)
    ultimately show ?thesis by blast
  qed
qed

section \<open>The code implements the abstract table\<close>

lemma word_le_bounds:
  "63 < (n :: u32) \<longleftrightarrow> 64 \<le> unat n" "n < MXC_INTERNAL_IRQS \<longleftrightarrow> unat n < 64"
  "MXC_INTERNAL_IRQS + MAX_GPIO_PIN_NUM \<le> n \<longleftrightarrow> 192 \<le> unat n" "31 < n \<longleftrightarrow> 32 \<le> unat n" "n = MXC_INT_GPT1 \<longleftrightarrow> unat n = 54"
  by (auto simp: irq_consts word_less_nat_alt word_le_nat_alt word_unat_eq_iff)

lemma chip_enable_bits:
  assumes "unat n < 64" and "m < 64"
  shows "enabled (irq_chip_enable n s) m \<longleftrightarrow> enabled s m \<or> m = unat n"
    "enabled (irq_chip_disable n s) m \<longleftrightarrow> enabled s m \<and> m \<noteq> unat n"
proof -
  have sub: "32 \<le> unat n \<Longrightarrow> unat (n - 32) = unat n - 32" by (simp add: unat_sub word_le_nat_alt)
  have md: "32 \<le> m \<Longrightarrow> m mod 32 = m - 32" "\<not> 32 \<le> m \<Longrightarrow> m mod 32 = m" using assms(2) by (simp_all add: mod_if)
  show "enabled (irq_chip_enable n s) m \<longleftrightarrow> enabled s m \<or> m = unat n"
    using assms sub md by (auto simp: enabled_def irq_chip_enable_def word_le_bounds bit_or_iff bit_exp_iff)
  show "enabled (irq_chip_disable n s) m \<longleftrightarrow> enabled s m \<and> m \<noteq> unat n"
    using assms sub md by (auto simp: enabled_def irq_chip_disable_def word_le_bounds bit_and_iff bit_not_iff bit_exp_iff)
qed

lemma chip_same [simp]:
  "def_irq_handler (irq_chip_enable n s) = def_irq_handler s" "cpsr (irq_chip_enable n s) = cpsr s"
  "def_irq_handler (irq_chip_disable n s) = def_irq_handler s" "cpsr (irq_chip_disable n s) = cpsr s"
  by (simp_all add: irq_chip_enable_def irq_chip_disable_def)

lemma enabled_update [simp]:
  "enabled (s\<lparr>def_irq_handler := t\<rparr>) m = enabled s m" "enabled (s\<lparr>cpsr := c\<rparr>) m = enabled s m"
  "handlers (s\<lparr>cpsr := c\<rparr>) = handlers s" "irq_wf (s\<lparr>cpsr := c\<rparr>) = irq_wf s"
  by (simp_all add: enabled_def handlers_def irq_wf_def fun_eq_iff)

text \<open>The mask that a request takes and gives back: the I bit is as before, the F bit is set.\<close>

lemma mask_bits:
  "(c :: u32) AND 0x80 = 0 \<longleftrightarrow> \<not> bit c 7"
  "\<not> bit c 7 \<Longrightarrow> (c OR 0xc0) AND NOT 0x80 = c OR 0x40"
  "bit c 7 \<Longrightarrow> c OR 0xc0 = c OR 0x40"
proof -
  have e: "(0x80 :: u32) = 2 ^ 7" "(0x40 :: u32) = 2 ^ 6" "(0xc0 :: u32) = 2 ^ 7 OR 2 ^ 6" by simp_all
  show "c AND 0x80 = 0 \<longleftrightarrow> \<not> bit c 7" unfolding e by (rule and_exp_eq_0_iff_not_bit)
  show "\<not> bit c 7 \<Longrightarrow> (c OR 0xc0) AND NOT 0x80 = c OR 0x40"
    unfolding e by (rule bit_word_eqI) (simp only: bit_and_iff bit_or_iff bit_not_iff bit_exp_iff, auto)
  show "bit c 7 \<Longrightarrow> c OR 0xc0 = c OR 0x40"
    unfolding e by (rule bit_word_eqI) (simp only: bit_or_iff bit_exp_iff, auto)
qed

lemma mask_restored:
  "cpsr t = cpsr s OR 0xc0 \<Longrightarrow> restore_interrupts (cpsr s AND 0x80 = 0) t = t\<lparr>cpsr := cpsr s OR 0x40\<rparr>"
  using mask_bits [of "cpsr s"] by (cases "bit (cpsr s) 7") (simp_all add: restore_interrupts_def enable_interrupts_def)

lemma mask_idle: "restore_interrupts (cpsr s AND 0x80 = 0) (s\<lparr>cpsr := cpsr s OR 0xc0\<rparr>) = s\<lparr>cpsr := cpsr s OR 0x40\<rparr>"
  using mask_restored [of "s\<lparr>cpsr := cpsr s OR 0xc0\<rparr>" s] by simp

lemma i_bit_kept: "bit ((c :: u32) OR 0x40) 7 \<longleftrightarrow> bit c 7"
  by (simp add: bit_or_iff bit_numeral_rec)

lemma wf_entry:
  assumes "irq_wf s" and "n < 64"
  obtains e where "load (def_irq_handler s) n = Some e" "entry_ok e" "irq_handler e = handlers s n"
    "\<And>x. store (def_irq_handler s) n x = Some ((def_irq_handler s)[n := x])"
  using that [of "def_irq_handler s ! n"] assms by (auto simp: irq_wf_def load_def store_def handlers_def)

text \<open>Changing one entry together with its enable bit keeps the invariant.\<close>

lemma wf_change:
  assumes "irq_wf s" and "n < 64" and "entry_ok e" and "\<And>m. m < 64 \<Longrightarrow> enabled t m \<longleftrightarrow> (if m = n then irq_handler e \<noteq> None else enabled s m)"
    and "def_irq_handler t = (def_irq_handler s)[n := e]"
  shows "irq_wf t" "handlers t = (handlers s)(n := irq_handler e)"
  using assms by (auto simp: irq_wf_def handlers_def nth_list_update fun_eq_iff)

lemma request_refines:
  assumes "irq_wf s" and "name_ok nm"
  shows "\<exists>s'. irq_request n (Some h) nm s = Some (fst (arequest (unat n) h (handlers s)), s') \<and> irq_wf s'
     \<and> handlers s' = snd (arequest (unat n) h (handlers s)) \<and> (bit (cpsr s') 7 \<longleftrightarrow> bit (cpsr s) 7)"
proof (cases "unat n < 64 \<and> unat n \<noteq> 54")
  case True
  define s0 where "s0 = irq_chip_enable n (s\<lparr>cpsr := cpsr s OR 0xc0\<rparr>)"
  have s0: "def_irq_handler s0 = def_irq_handler s" "cpsr s0 = cpsr s OR 0xc0" by (simp_all add: s0_def)
  have en: "enabled s0 m \<longleftrightarrow> enabled s m \<or> m = unat n" if "m < 64" for m using that True by (simp add: s0_def chip_enable_bits(1))
  have h0: "handlers s0 = handlers s" by (simp add: handlers_def fun_eq_iff s0(1))
  have req: "irq_request n (Some h) nm s = do { (ret, t) \<leftarrow> set_irq_handler n (Some h) nm s0; Some (ret, restore_interrupts (cpsr s AND 0x80 = 0) t) }"
    using True by (simp add: irq_request_def word_le_bounds disable_interrupts_def s0_def)
  obtain e where e: "load (def_irq_handler s) (unat n) = Some e" "entry_ok e" "irq_handler e = handlers s (unat n)"
    "\<And>x. store (def_irq_handler s) (unat n) x = Some ((def_irq_handler s)[unat n := x])" using wf_entry [OF assms(1)] True by blast
  note b7 = i_bit_kept [of "cpsr s"]
  show ?thesis
  proof (cases "handlers s (unat n)")
    case None
    obtain nm' where nm': "set_name n nm (irq_name e) = Some nm'" "length nm' = 24" "nm' ! 23 = 0"
      using set_name_ok [OF _ assms(2), of n "irq_name e"] True e(2) by (auto simp: entry_ok_def)
    define e' where "e' = e\<lparr>irq_handler := Some h, irq_name := nm', flag := flag e OR 1\<rparr>"
    define t where "t = s0\<lparr>def_irq_handler := (def_irq_handler s)[unat n := e'], cpsr := cpsr s OR 0x40\<rparr>"
    have "set_irq_handler n (Some h) nm s0 = Some (0, s0\<lparr>def_irq_handler := (def_irq_handler s)[unat n := e']\<rparr>)"
      using True None e nm' by (simp add: set_irq_handler_def word_le_bounds s0 e'_def irq_consts)
    then have "irq_request n (Some h) nm s = Some (0, t)"
      using req mask_restored [of "s0\<lparr>def_irq_handler := (def_irq_handler s)[unat n := e']\<rparr>" s] s0(2) by (simp add: t_def)
    moreover have "entry_ok e'" using nm' by (simp add: e'_def entry_ok_def bit_or_iff)
    then have "irq_wf t" "handlers t = (handlers s)(unat n := irq_handler e')"
      using wf_change [OF assms(1), of "unat n" e' t] True en by (auto simp: t_def e'_def)
    ultimately show ?thesis using True None b7 by (auto simp: arequest_def e'_def t_def)
  next
    case (Some g)
    have "set_irq_handler n (Some h) nm s0 = Some (-1, s0)" using True Some e by (simp add: set_irq_handler_def word_le_bounds s0)
    then have "irq_request n (Some h) nm s = Some (-1, s0\<lparr>cpsr := cpsr s OR 0x40\<rparr>)" using req mask_restored [of s0 s] s0(2) by simp
    moreover have "irq_wf s0" using assms(1) en Some True by (auto simp: irq_wf_def s0(1) h0)
    ultimately show ?thesis using True Some b7 h0 by (auto simp: arequest_def)
  qed
next
  case False
  show ?thesis
  proof (cases "unat n = 54 \<or> 192 \<le> unat n")
    case True
    then show ?thesis using assms(1) by (auto simp: irq_request_def word_le_bounds arequest_def)
  next
    case nG: False
    then have "irq_request n (Some h) nm s = Some (0, s\<lparr>cpsr := cpsr s OR 0x40\<rparr>)"
      using False by (simp add: irq_request_def word_le_bounds disable_interrupts_def mask_idle)
    then show ?thesis using False nG assms(1) i_bit_kept [of "cpsr s"] by (simp add: arequest_def)
  qed
qed

lemma clear_eq:
  assumes "irq_wf s" and "unat n < 64" and "def_irq_handler t = def_irq_handler s"
  shows "\<exists>e. clr_irq_handler n t = Some (t\<lparr>def_irq_handler := (def_irq_handler s)[unat n := e]\<rparr>) \<and> entry_ok e \<and> irq_handler e = None"
proof -
  obtain e where e: "load (def_irq_handler s) (unat n) = Some e" "entry_ok e"
    "\<And>x. store (def_irq_handler s) (unat n) x = Some ((def_irq_handler s)[unat n := x])" using wf_entry [OF assms(1,2)] by blast
  define nm where "nm = write_bytes (irq_name e) 0 (replicate 24 0)"
  have nm: "memset (irq_name e) 0 0 24 = Some (0, nm)" "length nm = 24" "nm ! 23 = 0"
    using e(2) memset_area [of 0 24 "irq_name e" 0] by (simp_all add: entry_ok_def nm_def nth_write_bytes)
  have "\<not> bit (flag e AND NOT 1) 0" by (simp add: bit_and_iff bit_not_iff)
  then show ?thesis using assms(2,3) e nm
    by (intro exI [of _ "e\<lparr>irq_handler := None, irq_name := nm, flag := flag e AND NOT 1\<rparr>"])
      (simp add: clr_irq_handler_def word_le_bounds irq_consts entry_ok_def)
qed

lemma free_refines:
  assumes "irq_wf s"
  shows "\<exists>s'. irq_request_free n s = Some (fst (afree (unat n) (handlers s)), s') \<and> irq_wf s'
     \<and> handlers s' = snd (afree (unat n) (handlers s)) \<and> (bit (cpsr s') 7 \<longleftrightarrow> bit (cpsr s) 7)"
proof (cases "unat n < 64")
  case True
  define s0 where "s0 = irq_chip_disable n (s\<lparr>cpsr := cpsr s OR 0xc0\<rparr>)"
  have s0: "def_irq_handler s0 = def_irq_handler s" "cpsr s0 = cpsr s OR 0xc0" by (simp_all add: s0_def)
  have en: "enabled s0 m \<longleftrightarrow> enabled s m \<and> m \<noteq> unat n" if "m < 64" for m using that True by (simp add: s0_def chip_enable_bits(2))
  obtain e where e: "clr_irq_handler n s0 = Some (s0\<lparr>def_irq_handler := (def_irq_handler s)[unat n := e]\<rparr>)" "entry_ok e" "irq_handler e = None"
    using clear_eq [OF assms True s0(1)] by blast
  define t where "t = s0\<lparr>def_irq_handler := (def_irq_handler s)[unat n := e], cpsr := cpsr s OR 0x40\<rparr>"
  have "irq_request_free n s = Some (0, t)"
    using True e(1) mask_restored [of "s0\<lparr>def_irq_handler := (def_irq_handler s)[unat n := e]\<rparr>" s] s0(2)
    by (simp add: irq_request_free_def word_le_bounds disable_interrupts_def t_def flip: s0_def)
  moreover have "irq_wf t" "handlers t = (handlers s)(unat n := irq_handler e)"
    using wf_change [OF assms True e(2), of t] en e(3) by (auto simp: t_def)
  ultimately show ?thesis using True e(3) i_bit_kept [of "cpsr s"] by (auto simp: afree_def t_def)
next
  case False
  then have "(handlers s)(unat n := None) = handlers s" by (simp add: handlers_def fun_eq_iff)
  moreover have "irq_request_free n s = (if 192 \<le> unat n then Some (-1, s) else Some (0, s\<lparr>cpsr := cpsr s OR 0x40\<rparr>))"
    using False by (simp add: irq_request_free_def word_le_bounds disable_interrupts_def mask_idle)
  ultimately show ?thesis using assms i_bit_kept [of "cpsr s"] by (simp add: afree_def)
qed

lemma dispatch_eq:
  assumes "irq_wf s"
  shows "do_irq run vec s w = (if unat (drop_bit 16 vec) < 64
     then Some (case handlers s (unat (drop_bit 16 vec)) of None \<Rightarrow> w | Some h \<Rightarrow> run h w) else None)"
proof (cases "unat (drop_bit 16 vec) < 64")
  case True
  obtain e where e: "load (def_irq_handler s) (unat (drop_bit 16 vec)) = Some e" "entry_ok e" "irq_handler e = handlers s (unat (drop_bit 16 vec))"
    using wf_entry [OF assms True] by blast
  have "flag e AND 1 \<noteq> 0 \<longleftrightarrow> bit (flag e) 0" using and_exp_eq_0_iff_not_bit [of "flag e" 0] by simp
  then show ?thesis using True e
    by (auto simp: do_irq_def irq_handler_server_def run_irq_handler_def irq_consts entry_ok_def split: option.splits)
next
  case False
  then show ?thesis using assms by (simp add: do_irq_def irq_handler_server_def run_irq_handler_def load_def irq_wf_def)
qed

section \<open>Initialisation\<close>

text \<open>The static table before it: 64 entries with names of 24 bytes.\<close>

definition irq_static :: "'h avic \<Rightarrow> bool" where
  "irq_static s \<longleftrightarrow> length (def_irq_handler s) = 64 \<and> (\<forall>n<64. length (irq_name (def_irq_handler s ! n)) = 24)"

lemma static_name:
  assumes "irq_static s" and "n < 64"
  shows "memset (irq_name (def_irq_handler s ! n)) 0 0 24 = Some (0, replicate 24 0)"
  using assms memset_area [of 0 24 "irq_name (def_irq_handler s ! n)" 0] by (simp add: irq_static_def write_bytes_def)

lemma static_update: "irq_static s \<Longrightarrow> length (irq_name e) = 24 \<Longrightarrow> irq_static (s\<lparr>def_irq_handler := (def_irq_handler s)[n := e]\<rparr>)"
  by (cases "n < 64") (auto simp: irq_static_def nth_list_update list_update_beyond)

lemma static_clear:
  assumes "irq_static s" and "unat n < 64"
  shows "\<exists>s'. clr_irq_handler n (irq_chip_disable n s) = Some s' \<and> irq_static s'"
proof -
  define t where "t = irq_chip_disable n s"
  have t: "irq_static t" using assms(1) by (simp add: irq_static_def t_def)
  have n: "unat n < length (def_irq_handler t)" using t assms(2) by (simp add: irq_static_def)
  show ?thesis unfolding t_def [symmetric]
    using t n assms(2) static_name [OF t assms(2)] static_update [OF t]
    by (simp add: clr_irq_handler_def word_le_bounds load_def store_def irq_consts)
qed

lemma disable_all_static:
  assumes "irq_static s"
  shows "\<exists>s'. disable_all_interrupts s = Some s' \<and> irq_static s'"
proof -
  have "irq_static (snd (disable_interrupts s))" using assms by (simp add: irq_static_def disable_interrupts_def)
  then show ?thesis unfolding disable_all_interrupts_def
  proof (rule foldM_upto_inv [where I = "\<lambda>_. irq_static"])
    fix i and s :: "'a avic"
    assume "i < unat MXC_INTERNAL_IRQS" "irq_static s"
    moreover from this(1) have "unat (of_nat i :: u32) < 64" by (simp add: irq_consts unat_of_nat)
    ultimately show "\<exists>s'. clr_irq_handler (of_nat i) (irq_chip_disable (of_nat i) s) = Some s' \<and> irq_static s'"
      using static_clear by blast
  qed
qed

definition cleared :: "nat \<Rightarrow> 'h avic \<Rightarrow> bool" where
  "cleared k s \<longleftrightarrow> irq_static s \<and> (\<forall>n<k. irq_handler (def_irq_handler s ! n) = None
     \<and> irq_name (def_irq_handler s ! n) = replicate 24 0 \<and> flag (def_irq_handler s ! n) = 0)"

lemma default_handlers:
  assumes "irq_static s"
  shows "\<exists>t. init_irq_default_handler s = Some t \<and> cleared (unat MXC_INTERNAL_IRQS) t"
  unfolding init_irq_default_handler_def
proof (rule foldM_upto_inv)
  fix k and t :: "'a avic"
  assume "k < unat MXC_INTERNAL_IRQS" and c: "cleared k t"
  then have st: "irq_static t" and k: "k < 64" "k < length (def_irq_handler t)" by (simp_all add: irq_consts cleared_def irq_static_def)
  define e where "e = (def_irq_handler t ! k)\<lparr>irq_handler := None, irq_name := replicate 24 0, flag := 0\<rparr>"
  have "cleared (Suc k) (t\<lparr>def_irq_handler := (def_irq_handler t)[k := e]\<rparr>)"
    using c k static_update [OF st, of e k] by (auto simp: cleared_def e_def nth_list_update less_Suc_eq)
  then show "\<exists>t'. do {
        e \<leftarrow> load (def_irq_handler t) k;
        (d, nm) \<leftarrow> memset (irq_name e) 0 0 IRQ_DESC_NAME_LEN;
        tab \<leftarrow> store (def_irq_handler t) k (e\<lparr>irq_handler := None, irq_name := nm, flag := 0\<rparr>);
        Some (t\<lparr>def_irq_handler := tab\<rparr>) } = Some t' \<and> cleared (Suc k) t'"
    using k static_name [OF st k(1)] by (simp add: load_def store_def IRQ_DESC_NAME_LEN_def e_def)
qed (use assms in \<open>simp add: cleared_def\<close>)

lemma init_wf:
  assumes "irq_static s"
  shows "\<exists>s'. arch_interrupt_init s = Some (0, s') \<and> irq_wf s' \<and> handlers s' = Map.empty"
proof -
  obtain s1 where 1: "disable_all_interrupts s = Some s1" "irq_static s1" using disable_all_static [OF assms] by blast
  obtain s2 where 2: "init_irq_default_handler s1 = Some s2" "cleared 64 s2"
    using default_handlers [OF 1(2)] by (auto simp: MXC_INTERNAL_IRQS_def)
  define s3 where "s3 = s2\<lparr>AVIC_INTCNTL := push_bit 21 1, AVIC_NIMASK := 0x1f, AVIC_INTENABLEH := 0, AVIC_INTENABLEL := 0,
     AVIC_INTTYPEH := 0, AVIC_INTTYPEL := 0, AVIC_NIPRIORITY := replicate 8 0\<rparr>"
  have h: "handlers s3 = Map.empty" using 2(2) by (simp add: handlers_def fun_eq_iff s3_def cleared_def)
  have "\<not> enabled s3 n" for n by (simp add: enabled_def s3_def)
  then have "irq_wf s3" using 2(2) h by (simp add: irq_wf_def entry_ok_def irq_static_def s3_def cleared_def)
  then show ?thesis using 1(1) 2(1) h by (simp add: arch_interrupt_init_def s3_def)
qed

section \<open>The interface for drivers\<close>

datatype ('h, 'n) irq_cmd = Request u32 'h 'n | Free u32

fun irq_run :: "(u32 \<Rightarrow> 'h \<Rightarrow> 'n \<Rightarrow> 'c \<Rightarrow> (int \<times> 'c) option) \<Rightarrow> (u32 \<Rightarrow> 'c \<Rightarrow> (int \<times> 'c) option)
    \<Rightarrow> ('h, 'n) irq_cmd list \<Rightarrow> 'c \<Rightarrow> (int list \<times> 'c) option" where
  "irq_run req fre [] c = Some ([], c)"
| "irq_run req fre (Request n h nm # cmds) c = do { (r, c) \<leftarrow> req n h nm c; (rs, c) \<leftarrow> irq_run req fre cmds c; Some (r # rs, c) }"
| "irq_run req fre (Free n # cmds) c = do { (r, c) \<leftarrow> fre n c; (rs, c) \<leftarrow> irq_run req fre cmds c; Some (r # rs, c) }"

fun airq_run :: "('h, 'n) irq_cmd list \<Rightarrow> (nat \<rightharpoonup> 'h) \<Rightarrow> int list \<times> (nat \<rightharpoonup> 'h)" where
  "airq_run [] tab = ([], tab)"
| "airq_run (Request n h nm # cmds) tab =
     (case arequest (unat n) h tab of (r, tab) \<Rightarrow> case airq_run cmds tab of (rs, tab) \<Rightarrow> (r # rs, tab))"
| "airq_run (Free n # cmds) tab =
     (case afree (unat n) tab of (r, tab) \<Rightarrow> case airq_run cmds tab of (rs, tab) \<Rightarrow> (r # rs, tab))"

fun cmd_name_ok :: "('n \<Rightarrow> bool) \<Rightarrow> ('h, 'n) irq_cmd \<Rightarrow> bool" where
  "cmd_name_ok ok (Request n h nm) = ok nm"
| "cmd_name_ok ok (Free n) = True"

locale irq_service =
  fixes request :: "u32 \<Rightarrow> 'h \<Rightarrow> 'n \<Rightarrow> 'c \<Rightarrow> (int \<times> 'c) option"
    and release :: "u32 \<Rightarrow> 'c \<Rightarrow> (int \<times> 'c) option"
    and table :: "'c \<Rightarrow> nat \<rightharpoonup> 'h"
    and wf_ctl :: "'c \<Rightarrow> bool"
    and ok :: "'n \<Rightarrow> bool"
    and masked :: "'c \<Rightarrow> bool"
  assumes request_law: "wf_ctl c \<Longrightarrow> ok nm \<Longrightarrow>
      \<exists>c'. request n h nm c = Some (fst (arequest (unat n) h (table c)), c') \<and> wf_ctl c' \<and> table c' = snd (arequest (unat n) h (table c))
        \<and> masked c' = masked c"
    and release_law: "wf_ctl c \<Longrightarrow>
      \<exists>c'. release n c = Some (fst (afree (unat n) (table c)), c') \<and> wf_ctl c' \<and> table c' = snd (afree (unat n) (table c))
        \<and> masked c' = masked c"
begin

lemma run_refines:
  assumes "wf_ctl c" and "list_all (cmd_name_ok ok) cmds"
  shows "\<exists>c'. irq_run request release cmds c = Some (fst (airq_run cmds (table c)), c') \<and> wf_ctl c' \<and> table c' = snd (airq_run cmds (table c))
     \<and> masked c' = masked c"
  using assms
proof (induction cmds arbitrary: c)
  case (Cons cmd cmds)
  show ?case
  proof (cases cmd)
    case (Request n h nm)
    obtain c1 where c1: "request n h nm c = Some (fst (arequest (unat n) h (table c)), c1)" "wf_ctl c1" "table c1 = snd (arequest (unat n) h (table c))" "masked c1 = masked c"
      using request_law [of c nm n h] Cons.prems Request by auto
    then show ?thesis using Cons.IH [OF c1(2)] Cons.prems Request by (auto simp: split_beta)
  next
    case (Free n)
    obtain c1 where c1: "release n c = Some (fst (afree (unat n) (table c)), c1)" "wf_ctl c1" "table c1 = snd (afree (unat n) (table c))" "masked c1 = masked c"
      using release_law [of c n] Cons.prems by auto
    then show ?thesis using Cons.IH [OF c1(2)] Cons.prems Free by (auto simp: split_beta)
  qed
qed simp

text \<open>What a driver gets that requests a free interrupt, and what it leaves when it releases it.\<close>

lemma request_installs:
  assumes "wf_ctl c" and "ok nm" and "unat n < 64" and "unat n \<noteq> 54" and "table c (unat n) = None"
  shows "\<exists>c'. request n h nm c = Some (0, c') \<and> wf_ctl c' \<and> table c' = (table c)(unat n \<mapsto> h) \<and> masked c' = masked c"
  using request_law [OF assms(1,2), of n h] assms(3-5) by (simp add: arequest_def)

lemma request_release:
  assumes "wf_ctl c" and "ok nm" and "unat n < 64" and "unat n \<noteq> 54" and "table c (unat n) = None"
  shows "\<exists>c'. irq_run request release [Request n h nm, Free n] c = Some ([0, 0], c') \<and> wf_ctl c' \<and> table c' = table c"
proof -
  have "airq_run [Request n h nm, Free n] (table c) = ([0, 0], table c)"
    using assms(3-5) by (auto simp: arequest_def afree_def)
  then show ?thesis using run_refines [OF assms(1), of "[Request n h nm, Free n]"] assms(2) by auto
qed

end

interpretation avic_irq: irq_service "\<lambda>n h nm. irq_request n (Some h) nm" irq_request_free handlers irq_wf name_ok "\<lambda>s. bit (cpsr s) 7"
proof
  fix c :: "'a avic" and nm n h
  assume "irq_wf c"
  then show "\<exists>c'. irq_request_free n c = Some (fst (afree (unat n) (handlers c)), c') \<and> irq_wf c' \<and> handlers c' = snd (afree (unat n) (handlers c))
      \<and> bit (cpsr c') 7 = bit (cpsr c) 7"
    using free_refines by blast
  show "\<exists>c'. irq_request n (Some h) nm c = Some (fst (arequest (unat n) h (handlers c)), c') \<and> irq_wf c' \<and> handlers c' = snd (arequest (unat n) h (handlers c))
      \<and> bit (cpsr c') 7 = bit (cpsr c) 7"
    if "name_ok nm" using request_refines [OF \<open>irq_wf c\<close> that] by blast
qed

section \<open>Properties\<close>

definition avic_boot :: "'h avic" where
  "avic_boot = \<lparr>def_irq_handler = replicate 64 \<lparr>irq_handler = None, flag = 0, irq_name = replicate 24 0\<rparr>,
     AVIC_INTENABLEH = 7, AVIC_INTENABLEL = 9, AVIC_INTENNUM = 0, AVIC_INTDISNUM = 0, AVIC_INTCNTL = 0, AVIC_NIMASK = 0,
     AVIC_INTTYPEH = 0, AVIC_INTTYPEL = 0, AVIC_NIPRIORITY = [], cpsr = 0x13\<rparr>"

lemma avic_boot_static: "irq_static avic_boot"
  by (simp add: avic_boot_def irq_static_def)

text \<open>C9 (interrupts.c). From the static table, \<open>arch_interrupt_init\<close> followed by any sequence of \<open>irq_request\<close>
  and \<open>irq_request_free\<close> calls is defined and implements a partial map from interrupt numbers to handlers: the calls
  return what the map returns, exactly the interrupts with an entry stay enabled, and an interrupt below 64 runs exactly
  the handler of its entry. A vector of 64 or more, as a spurious interrupt gives, reads outside the table.\<close>

theorem irq_table_refines:
  assumes "irq_static s" and "list_all (cmd_name_ok name_ok) cmds"
  shows "\<exists>s0 s' tab. arch_interrupt_init s = Some (0, s0)
     \<and> irq_run (\<lambda>n h nm. irq_request n (Some h) nm) irq_request_free cmds s0 = Some (fst (airq_run cmds Map.empty), s')
     \<and> tab = snd (airq_run cmds Map.empty) \<and> irq_wf s' \<and> (\<forall>n. n < 64 \<longrightarrow> enabled s' n = (tab n \<noteq> None))
     \<and> (\<forall>vec w. do_irq run vec s' w = (if unat (drop_bit 16 vec) < 64
          then Some (case tab (unat (drop_bit 16 vec)) of None \<Rightarrow> w | Some h \<Rightarrow> run h w) else None))"
proof -
  obtain s0 where s0: "arch_interrupt_init s = Some (0, s0)" "irq_wf s0" "handlers s0 = Map.empty" using init_wf [OF assms(1)] by blast
  obtain s' where s': "irq_run (\<lambda>n h nm. irq_request n (Some h) nm) irq_request_free cmds s0 = Some (fst (airq_run cmds Map.empty), s')"
    "irq_wf s'" "handlers s' = snd (airq_run cmds Map.empty)" using avic_irq.run_refines [OF s0(2) assms(2)] s0(3) by auto
  have "enabled s' n = (handlers s' n \<noteq> None)" if "n < 64" for n using s'(2) that by (simp add: irq_wf_def)
  then show ?thesis using s0(1) s' by (auto intro!: exI [of _ s0] exI [of _ s'] simp: dispatch_eq [OF s'(2)])
qed

theorem irq_table_refines_witness:
  "\<exists>s0 s' tab. arch_interrupt_init avic_boot = Some (0, s0)
     \<and> irq_run (\<lambda>n h nm. irq_request n (Some h) nm) irq_request_free [Request 53 True None, Request 53 False None, Free 53] s0
        = Some (fst (airq_run [Request 53 True (None :: mem option), Request 53 False None, Free 53] Map.empty), s')
     \<and> tab = snd (airq_run [Request 53 True (None :: mem option), Request 53 False None, Free 53] Map.empty) \<and> irq_wf s'
     \<and> (\<forall>n. n < 64 \<longrightarrow> enabled s' n = (tab n \<noteq> None))
     \<and> (\<forall>vec w. do_irq (\<lambda>h w. h # w) vec s' w = (if unat (drop_bit 16 vec) < 64
          then Some (case tab (unat (drop_bit 16 vec)) of None \<Rightarrow> w | Some h \<Rightarrow> h # w) else None))"
  by (rule irq_table_refines [OF avic_boot_static]) (simp add: name_ok_def)

text \<open>(interrupts.c, \<open>irq_request\<close>). For the 128 numbers above the internal interrupts, which the range check accepts,
  a request reports success but registers nothing: table and enable bits are as before, and the interrupt itself
  would read outside the table.\<close>

theorem irq_gpio_dropped:
  assumes "irq_wf s" and "64 \<le> unat n" and "unat n < 192"
  shows "\<exists>s'. irq_request n (Some h) nm s = Some (0, s') \<and> def_irq_handler s' = def_irq_handler s
     \<and> AVIC_INTENABLEH s' = AVIC_INTENABLEH s \<and> AVIC_INTENABLEL s' = AVIC_INTENABLEL s \<and> do_irq run (push_bit 16 n) s' w = None"
proof -
  have r: "irq_request n (Some h) nm s = Some (0, s\<lparr>cpsr := cpsr s OR 0x40\<rparr>)"
    using assms(2,3) by (simp add: irq_request_def word_le_bounds disable_interrupts_def mask_idle)
  have "unat (push_bit 16 n) = unat n * 65536" using assms(3) by (simp add: push_bit_eq_mult unat_word_ariths)
  then have "unat (drop_bit 16 (push_bit 16 n)) = unat n" unfolding unat_drop_bit_eq unfolding drop_bit_eq_div by simp
  then have "do_irq run (push_bit 16 n) (s\<lparr>cpsr := cpsr s OR 0x40\<rparr>) w = None"
    using assms(2) dispatch_eq [of "s\<lparr>cpsr := cpsr s OR 0x40\<rparr>" run "push_bit 16 n" w] assms(1) by simp
  then show ?thesis using r by (intro exI [of _ "s\<lparr>cpsr := cpsr s OR 0x40\<rparr>"]) simp
qed

theorem irq_gpio_dropped_witness:
  "\<exists>s0. arch_interrupt_init avic_boot = Some (0, s0) \<and> (\<exists>s'. irq_request 100 (Some True) None s0 = Some (0, s')
     \<and> def_irq_handler s' = def_irq_handler s0 \<and> AVIC_INTENABLEH s' = AVIC_INTENABLEH s0 \<and> AVIC_INTENABLEL s' = AVIC_INTENABLEL s0
     \<and> do_irq (\<lambda>h w. h # w) (push_bit 16 100) s' [] = None)"
proof -
  obtain s0 :: "bool avic" where "arch_interrupt_init avic_boot = Some (0, s0)" "irq_wf s0" using init_wf [OF avic_boot_static] by blast
  then show ?thesis using irq_gpio_dropped [of s0 100 True None "\<lambda>h w. h # w" "[]"] by simp
qed

end
