(* ===== verification/Spi.thy ===== *)
theory Spi
  imports String_Proofs
begin

unbundle bit_operations_syntax

text \<open>
  hfc_app/hfc_spi: the polled path of the CSPI driver, the control word it programs and the divider it chooses. The
  registers the driver writes are the record \<open>spi_hw\<close>; the words put into the transmit FIFO are kept in order. The
  words the slave answers with are the parameter \<open>rx\<close> and the peripheral clock is \<open>ipg\<close>. The two busy waits
  of a transfer end when the hardware has shifted all words, and have no other effect.
\<close>

section \<open>State\<close>

record mxc_spi_unique_def =
  intr_bit_shift :: nat
  cs_shift :: nat
  bc_shift :: nat
  bc_mask :: u32
  drctrl_shift :: nat
  xfer_complete :: u32
  bc_overflow :: u32
  fifo_size :: u32
  ctrl_reg_addr :: u32
  stat_reg_addr :: u32
  period_reg_addr :: u32
  test_reg_addr :: u32
  reset_reg_addr :: u32
  mode_mask :: u32
  spi_enable :: u32
  xch :: u32
  mode_shift :: nat
  master_enable :: u32
  tx_inten_dif :: nat
  rx_inten_dif :: nat
  int_status_dif :: nat
  low_pol_shift :: nat
  pha_shift :: nat
  ss_ctrl_shift :: nat
  ss_pol_shift :: nat
  max_data_rate :: u32
  data_mask :: u32
  data_shift :: nat
  lbc :: u32
  rx_cnt_off :: nat
  rx_cnt_mask :: u32
  reset_start :: u32
  sclk_ctl_shift :: nat

text \<open>A field the initialiser leaves out, \<open>sclk_ctl_shift\<close>, is zero.\<close>

definition spi_ver_0_7 :: mxc_spi_unique_def where
  "spi_ver_0_7 = \<lparr>intr_bit_shift = 8, cs_shift = 12, bc_shift = 20, bc_mask = 0xFFF, drctrl_shift = 8,
     xfer_complete = push_bit 7 1, bc_overflow = 0, fifo_size = 8, ctrl_reg_addr = 0,
     stat_reg_addr = 0x14, period_reg_addr = 0x18, test_reg_addr = 0x1C, reset_reg_addr = 0x0,
     mode_mask = 0x1, spi_enable = 0x1, xch = push_bit 2 1, mode_shift = 1, master_enable = push_bit 1 1,
     tx_inten_dif = 0, rx_inten_dif = 0, int_status_dif = 0, low_pol_shift = 4, pha_shift = 5,
     ss_ctrl_shift = 6, ss_pol_shift = 7, max_data_rate = 0x7, data_mask = 0x7, data_shift = 16,
     lbc = push_bit 14 1, rx_cnt_off = 4, rx_cnt_mask = push_bit 4 0xF, reset_start = 1,
     sclk_ctl_shift = 0\<rparr>"

definition SPI_CPHA :: byte where "SPI_CPHA = 0x01"
definition SPI_CPOL :: byte where "SPI_CPOL = 0x02"
definition SPI_CS_HIGH :: byte where "SPI_CS_HIGH = 0x04"
definition MXC_CSPICTRL_CSMASK :: byte where "MXC_CSPICTRL_CSMASK = 0x3"

text \<open>\<open>spi_master\<close> says whether the device's \<open>master\<close> pointer is set.\<close>

record spi_device =
  spi_master :: bool
  max_speed_hz :: u32
  chip_select :: byte
  spi_mode :: byte
  bits_per_word :: byte

text \<open>The registers that the code writes. \<open>at_base\<close> is what is written at the base address itself: \<open>reset_reg_addr\<close> is 0.\<close>

record spi_hw =
  CSPICTRL :: u32
  CSPIINT :: u32
  CSPIPERIOD :: u32
  at_base :: u32
  CCM_CGR1 :: u32
  txfifo :: "u32 list"

section \<open>Interrupt mask and clock gate\<close>

definition spi_enable_interrupt :: "u32 \<Rightarrow> spi_hw \<Rightarrow> int \<times> spi_hw" where
  "spi_enable_interrupt irqs hw =
     (if irqs AND NOT (push_bit (intr_bit_shift spi_ver_0_7) 1 - 1) \<noteq> 0 then (-1, hw)
      else (0, hw\<lparr>CSPIINT := irqs OR CSPIINT hw\<rparr>))"

definition spi_disable_interrupt :: "u32 \<Rightarrow> spi_hw \<Rightarrow> int \<times> spi_hw" where
  "spi_disable_interrupt irqs hw =
     (if irqs AND NOT (push_bit (intr_bit_shift spi_ver_0_7) 1 - 1) \<noteq> 0 then (-1, hw)
      else (0, hw\<lparr>CSPIINT := NOT irqs AND CSPIINT hw\<rparr>))"

definition cspi_clk_enable :: "spi_hw \<Rightarrow> spi_hw" where
  "cspi_clk_enable hw = hw\<lparr>CCM_CGR1 := CCM_CGR1 hw OR push_bit 5 1\<rparr>"

definition cspi_clk_disable :: "spi_hw \<Rightarrow> spi_hw" where
  "cspi_clk_disable hw = hw\<lparr>CCM_CGR1 := CCM_CGR1 hw AND NOT (push_bit 5 1)\<rparr>"

section \<open>The divider\<close>

text \<open>\<open>while (divisor >>= 1) shift++;\<close>\<close>

function baud_shift :: "u32 \<Rightarrow> u32 \<Rightarrow> u32" where
  "baud_shift divisor shift =
     (let d = drop_bit 1 divisor in if d \<noteq> 0 then baud_shift d (shift + 1) else shift)"
  by pat_completeness auto
termination
proof (relation "measure (\<lambda>(d, s). unat d)")
  fix divisor shift d :: u32
  assume "d = drop_bit 1 divisor" "d \<noteq> 0"
  then have "unat d = unat divisor div 2" "unat d \<noteq> 0"
    by (simp_all add: drop_bit_eq_div unat_div word_unat_eq_iff)
  then show "((d, shift + 1), divisor, shift) \<in> measure (\<lambda>(d, s). unat d)" by simp
qed simp

declare baud_shift.simps [simp del]

text \<open>\<^term>\<open>None\<close>: a division by zero. The subtraction of two wraps.\<close>

definition spi_find_baudrate :: "u32 \<Rightarrow> u32 \<Rightarrow> u32 option" where
  "spi_find_baudrate ipg baud =
     (if baud = 0 then None
      else let divisor = (ipg + baud div 2) div baud; shift = baud_shift divisor 0 - 2;
               shift = (if max_data_rate spi_ver_0_7 < shift then max_data_rate spi_ver_0_7 else shift)
           in Some (push_bit (data_shift spi_ver_0_7) shift))"

section \<open>Chip select\<close>

text \<open>
  The control word for a device, and the width in bytes of the buffer elements: the choice of the
  \<open>mxc_spi_buf_rx\<close> and \<open>mxc_spi_buf_tx\<close> functions.
\<close>

definition chipselect_ctrl :: "u32 \<Rightarrow> spi_device \<Rightarrow> u32" where
  "chipselect_ctrl rate spi =
     (let v = spi_ver_0_7; xfer_len = ucast (bits_per_word spi) :: u32;
          ctrl_reg = spi_enable v;
          ctrl_reg = ctrl_reg OR (push_bit (cs_shift v) (ucast (chip_select spi AND MXC_CSPICTRL_CSMASK))
                       OR push_bit (mode_shift v) (mode_mask v));
          ctrl_reg = ctrl_reg OR rate;
          ctrl_reg = ctrl_reg OR push_bit (bc_shift v) ((xfer_len - 1) AND bc_mask v);
          ctrl_reg = (if spi_mode spi AND SPI_CPHA \<noteq> 0 then ctrl_reg OR push_bit (pha_shift v) (mode_mask v)
                      else ctrl_reg AND NOT (push_bit (pha_shift v) (mode_mask v)));
          ctrl_reg = (if spi_mode spi AND SPI_CPOL \<noteq> 0 then ctrl_reg OR push_bit (low_pol_shift v) (mode_mask v)
                      else ctrl_reg AND NOT (push_bit (low_pol_shift v) (mode_mask v)));
          ctrl_reg = (if spi_mode spi AND SPI_CS_HIGH \<noteq> 0 then ctrl_reg OR push_bit (ss_pol_shift v) (mode_mask v) else ctrl_reg)
      in ctrl_reg OR push_bit (ss_ctrl_shift v) (mode_mask v))"

definition elem_width :: "spi_device \<Rightarrow> nat" where
  "elem_width spi = (if bits_per_word spi \<le> 8 then 1 else if bits_per_word spi \<le> 16 then 2 else 4)"

definition mxc_spi_chipselect :: "u32 \<Rightarrow> spi_device \<Rightarrow> int \<Rightarrow> spi_hw \<Rightarrow> spi_hw option" where
  "mxc_spi_chipselect ipg spi is_active hw =
     (if is_active = 0 then Some hw
      else if \<not> spi_master spi then None
      else do { rate \<leftarrow> spi_find_baudrate ipg (max_speed_hz spi);
                Some (cspi_clk_disable ((cspi_clk_enable hw)\<lparr>CSPICTRL := chipselect_ctrl rate spi\<rparr>)) })"

section \<open>Transfers\<close>

text \<open>\<open>val = *tx++\<close> and \<open>*rx++ = (type)val\<close> for the three element types.\<close>

definition spi_buf_tx :: "nat \<Rightarrow> mem \<Rightarrow> nat \<Rightarrow> u32 option" where
  "spi_buf_tx width m p =
     (if width = 1 then do { b \<leftarrow> load m p; Some (ucast b) }
      else if width = 2 then do { b0 \<leftarrow> load m p; b1 \<leftarrow> load m (p + 1); Some (le32 b0 b1 0 0) }
      else load32 m p)"

definition spi_buf_rx :: "nat \<Rightarrow> mem \<Rightarrow> nat \<Rightarrow> u32 \<Rightarrow> mem option" where
  "spi_buf_rx width m p val =
     (if width = 1 then store m p (ucast val)
      else if width = 2 then do { m1 \<leftarrow> store m p (ucast val); store m1 (p + 1) (ucast (drop_bit 8 val)) }
      else store32 m p val)"

definition spi_put_tx_data :: "nat \<Rightarrow> mem \<Rightarrow> nat \<Rightarrow> spi_hw \<Rightarrow> spi_hw option" where
  "spi_put_tx_data width buf count hw =
     do { hw1 \<leftarrow> foldM (\<lambda>i hw. do { d \<leftarrow> spi_buf_tx width buf (width * i); Some (hw\<lparr>txfifo := txfifo hw @ [d]\<rparr>) }) [0..<count] hw;
          Some (hw1\<lparr>CSPICTRL := CSPICTRL hw1 OR xch spi_ver_0_7\<rparr>) }"

text \<open>
  A polled transfer with the same buffer for both directions, as \<open>poll_spi_write\<close> requests it. A device
  without a master is reported on the console and the call returns 0. The first wait ends when the hardware has
  cleared the exchange bit. \<open>chipselect_active\<close> and \<open>chipselect_inactive\<close> are never set in this
  driver, so the calls through them do not happen.
\<close>

definition mxc_spi_poll_transfer ::
  "u32 \<Rightarrow> (nat \<Rightarrow> u32) \<Rightarrow> spi_device option \<Rightarrow> mem \<Rightarrow> u32 \<Rightarrow> spi_hw \<Rightarrow> (int \<times> mem \<times> spi_hw) option" where
  "mxc_spi_poll_transfer ipg rx dev buf len hw =
     (case dev of None \<Rightarrow> Some (0, buf, hw)
      | Some spi \<Rightarrow>
        if \<not> spi_master spi then Some (0, buf, hw)
        else do {
          hw \<leftarrow> mxc_spi_chipselect ipg spi 1 hw;
          let hw = cspi_clk_enable hw;
              count = unat (if fifo_size spi_ver_0_7 < len then fifo_size spi_ver_0_7 else len);
              width = elem_width spi in
          do { hw \<leftarrow> spi_put_tx_data width buf count hw;
               let hw = hw\<lparr>CSPICTRL := CSPICTRL hw AND NOT (xch spi_ver_0_7)\<rparr> in
               do {
               buf \<leftarrow> foldM (\<lambda>i m. spi_buf_rx width m (width * i) (rx i)) [0..<count] buf;
               Some (0, buf, cspi_clk_disable hw) } } })"

definition poll_spi_write ::
  "u32 \<Rightarrow> (nat \<Rightarrow> u32) \<Rightarrow> spi_device option \<Rightarrow> mem \<Rightarrow> u32 \<Rightarrow> spi_hw \<Rightarrow> (int \<times> mem \<times> spi_hw) option" where
  "poll_spi_write ipg rx dev buf len hw =
     (if dev = None then Some (-1, buf, hw)
      else do { (r, buf1, hw1) \<leftarrow> mxc_spi_poll_transfer ipg rx dev buf len hw; Some (0, buf1, hw1) })"

text \<open>\<open>max_speed_hz\<close> is unsigned, so the test for a negative speed is never true.\<close>

definition mxc_spi_setup :: "spi_device \<Rightarrow> int \<times> spi_device" where
  "mxc_spi_setup spi =
     (if uint (max_speed_hz spi) < 0 then (-1, spi)
      else (0, if bits_per_word spi = 0 then spi\<lparr>bits_per_word := 8\<rparr> else spi))"

definition spi_setup :: "spi_device \<Rightarrow> int \<times> spi_device" where
  "spi_setup spi = mxc_spi_setup (if bits_per_word spi = 0 then spi\<lparr>bits_per_word := 8\<rparr> else spi)"

definition imx25_spi_setup :: "spi_device \<Rightarrow> u32 \<Rightarrow> byte \<Rightarrow> int \<Rightarrow> spi_device" where
  "imx25_spi_setup spi speed bits ssN =
     snd (spi_setup (spi\<lparr>bits_per_word := bits, max_speed_hz := speed, chip_select := of_int ssN, spi_mode := 0\<rparr>))"

text \<open>
  \<open>mxc_spi_probe\<close>: the device is cleared and bound to its master, the value for a reset written and the module enabled as a master.
  The result of \<open>irq_request\<close> is the parameter \<open>ret\<close>; the pin setup \<open>gpio_init\<close> and the bookkeeping
  of the master's base addresses have no counterpart in the state.
\<close>

definition MXC_CSPIPERIOD_32KHZ :: u32 where "MXC_CSPIPERIOD_32KHZ = push_bit 15 1"

definition mxc_spi_probe :: "int \<Rightarrow> u32 \<Rightarrow> spi_hw \<Rightarrow> int \<times> spi_device \<times> spi_hw" where
  "mxc_spi_probe ret speed hw =
     (let dev = \<lparr>spi_master = False, max_speed_hz = speed, chip_select = 0, spi_mode = 0, bits_per_word = 0\<rparr> in
      if ret \<noteq> 0 then (ret, dev, hw)
      else (let hw = cspi_clk_enable hw;
                hw = hw\<lparr>at_base := reset_start spi_ver_0_7\<rparr>;
                hw = hw\<lparr>CSPICTRL := spi_enable spi_ver_0_7 + master_enable spi_ver_0_7\<rparr>;
                hw = hw\<lparr>CSPIPERIOD := MXC_CSPIPERIOD_32KHZ\<rparr>;
                hw = hw\<lparr>CSPIINT := 0\<rparr>
            in (ret, dev\<lparr>spi_master := True\<rparr>, cspi_clk_disable hw)))"

definition hfc_tft_spi_probe :: "int \<Rightarrow> spi_hw \<Rightarrow> int \<times> spi_device \<times> spi_hw" where
  "hfc_tft_spi_probe ret hw = (case mxc_spi_probe ret 8000000 hw of (_, dev, hw1) \<Rightarrow> (0, dev, hw1))"

text \<open>The bytes of a word in memory, least significant first.\<close>

definition le_bytes :: "u32 \<Rightarrow> byte list" where
  "le_bytes v = [ucast v, ucast (drop_bit 8 v), ucast (drop_bit 16 v), ucast (drop_bit 24 v)]"

section \<open>Proofs\<close>

lemma baud_shift_log:
  "d \<noteq> 0 \<Longrightarrow> \<exists>L. baud_shift d s = s + of_nat L \<and> 2 ^ L \<le> unat d \<and> unat d < 2 ^ (L + 1)"
proof (induction d s rule: baud_shift.induct)
  case (1 d s)
  have half: "unat (drop_bit 1 d) = unat d div 2" by (simp add: drop_bit_eq_div unat_div)
  show ?case
  proof (cases "drop_bit 1 d = 0")
    case True
    have "unat d \<noteq> 0" using 1(2) by (simp add: unat_eq_0)
    moreover have "unat d div 2 = 0" using True half by simp
    ultimately have "unat d = 1" by arith
    then show ?thesis using True by (intro exI [of _ 0]) (simp add: baud_shift.simps [of d])
  next
    case False
    then obtain L where "baud_shift (drop_bit 1 d) (s + 1) = s + 1 + of_nat L"
      and "2 ^ L \<le> unat d div 2" "unat d div 2 < 2 ^ (L + 1)" using 1(1) [OF refl] half by auto
    then show ?thesis using False by (intro exI [of _ "Suc L"]) (auto simp: baud_shift.simps [of d] Let_def)
  qed
qed

lemma baudrate_eq:
  assumes "baud \<noteq> 0" and fit: "unat ipg + unat baud div 2 < 4294967296"
  defines "d \<equiv> (unat ipg + unat baud div 2) div unat baud"
  shows "\<exists>k\<le>7. spi_find_baudrate ipg baud = Some (push_bit 16 (of_nat k)) \<and> (d < 4 \<longrightarrow> k = 7) \<and> (1024 \<le> d \<longrightarrow> k = 7)
     \<and> (4 \<le> d \<and> d < 1024 \<longrightarrow> 2 ^ (k + 2) \<le> d \<and> d < 2 ^ (k + 3))"
proof -
  define dw where "dw = (ipg + baud div 2) div baud"
  have ud: "unat dw = d" using fit by (simp add: dw_def d_def unat_div unat_add_u32)
  define sh where "sh = baud_shift dw 0 - 2"
  have res: "spi_find_baudrate ipg baud = Some (push_bit 16 (if 7 < sh then 7 else sh))"
    using assms(1) by (simp add: spi_find_baudrate_def spi_ver_0_7_def Let_def sh_def dw_def)
  show ?thesis
  proof (cases "d < 4")
    case True
    have "sh = - 2 \<or> sh = - 1"
    proof (cases "dw = 0")
      case False
      then obtain L where L: "baud_shift dw 0 = of_nat L" "2 ^ L \<le> d" using baud_shift_log [of dw 0] ud by auto
      then have "(2 :: nat) ^ L < 2 ^ 2" using True by simp
      then have "L < 2" by (rule power_less_imp_less_exp [rotated]) simp
      then show ?thesis using L(1) by (auto simp: sh_def less_2_cases_iff)
    qed (simp add: sh_def baud_shift.simps)
    then have "7 < sh" by (auto simp: word_less_nat_alt unsigned_minus_1_eq_mask mask_eq_exp_minus_1)
    then show ?thesis using res True by (intro exI [of _ 7]) simp
  next
    case False
    then have "dw \<noteq> 0" using ud by auto
    then obtain L where L: "baud_shift dw 0 = of_nat L" "2 ^ L \<le> d" "d < 2 ^ (L + 1)"
      using baud_shift_log [of dw 0] ud by auto
    have "(2 :: nat) ^ 2 < 2 ^ (L + 1)" using False L(3) by simp
    then have "2 < L + 1" by (rule power_less_imp_less_exp [rotated]) simp
    then have l2: "2 \<le> L" by simp
    have "(2 :: nat) ^ L < 2 ^ 32" using L(2) ud unat_lt_u32 [of dw] by (simp del: unat_lt_u32)
    then have l32: "L < 32" by (rule power_less_imp_less_exp [rotated]) simp
    have sh: "sh = of_nat (L - 2)" using l2 by (simp add: sh_def L(1) of_nat_diff)
    have "unat sh = L - 2" unfolding sh unat_of_nat by (rule mod_less) (use l32 in simp)
    then have cmp: "7 < sh \<longleftrightarrow> 9 < L" using l2 by (auto simp: word_less_nat_alt)
    have hi: "1024 \<le> d \<longleftrightarrow> 9 < L"
    proof
      assume "1024 \<le> d"
      then have "(2 :: nat) ^ 10 < 2 ^ (L + 1)" using L(3) by simp
      then have "10 < L + 1" by (rule power_less_imp_less_exp [rotated]) simp
      then show "9 < L" by simp
    next
      assume "9 < L"
      then have "(2 :: nat) ^ 10 \<le> 2 ^ L" by (intro power_increasing) simp_all
      then show "1024 \<le> d" using L(2) by simp
    qed
    show ?thesis
    proof (cases "9 < L")
      case True
      then show ?thesis using res cmp hi False by (intro exI [of _ 7]) simp
    next
      case le: False
      have "L - 2 + 2 = L" "L - 2 + 3 = L + 1" using l2 by simp_all
      then show ?thesis using res cmp hi le False sh L(2,3) by (intro exI [of _ "L - 2"]) simp
    qed
  qed
qed

lemma elem_width_cases: "elem_width spi \<in> {1, 2, 4}"
  by (simp add: elem_width_def)

lemma spi_buf_tx_Some: "w \<in> {1, 2, 4} \<Longrightarrow> p + w \<le> length m \<Longrightarrow> \<exists>v. spi_buf_tx w m p = Some v"
  by (auto simp: spi_buf_tx_def load_def load32_def)

lemma spi_buf_rx_append:
  assumes "w \<in> {1, 2, 4}" and "length old = w"
  shows "spi_buf_rx w (xs @ old @ ys) (length xs) v = Some (xs @ take w (le_bytes v) @ ys)"
proof -
  consider a where "w = 1" "old = [a]" | a b where "w = 2" "old = [a, b]" | a b c d where "w = 4" "old = [a, b, c, d]"
    using assms by (auto simp: length_Suc_conv numeral_eq_Suc)
  then show ?thesis
    by cases (simp_all add: spi_buf_rx_def store32_def store_def le_bytes_def list_update_append)
qed

lemma spi_buf_rx_eq:
  assumes "w \<in> {1, 2, 4}" and "p + w \<le> length m"
  shows "spi_buf_rx w m p v = Some (take p m @ take w (le_bytes v) @ drop (p + w) m)"
proof -
  have "m = take p m @ take w (drop p m) @ drop (p + w) m" by (metis append_take_drop_id drop_drop add.commute)
  moreover have "length (take w (drop p m)) = w" "length (take p m) = p" using assms(2) by simp_all
  ultimately show ?thesis using spi_buf_rx_append [OF assms(1), of "take w (drop p m)" "take p m" "drop (p + w) m" v] by metis
qed

lemma put_tx:
  assumes "w \<in> {1, 2, 4}" and "w * n \<le> length buf"
  shows "foldM (\<lambda>i hw. do { d \<leftarrow> spi_buf_tx w buf (w * i); Some (hw\<lparr>txfifo := txfifo hw @ [d]\<rparr>) }) [0..<n] hw
     = Some (hw\<lparr>txfifo := txfifo hw @ map (\<lambda>i. the (spi_buf_tx w buf (w * i))) [0..<n]\<rparr>)"
  using assms(2)
proof (induction n)
  case (Suc n)
  have "w * n + w \<le> length buf" using Suc.prems by simp
  from spi_buf_tx_Some [OF assms(1) this] obtain v where v: "spi_buf_tx w buf (w * n) = Some v" ..
  show ?case using Suc v by (simp add: foldM_append foldM_Nil)
qed simp

lemma get_rx:
  assumes "w \<in> {1, 2, 4}" and "w * n \<le> length buf"
  shows "foldM (\<lambda>i m. spi_buf_rx w m (w * i) (rx i)) [0..<n] buf
     = Some (concat (map (\<lambda>i. take w (le_bytes (rx i))) [0..<n]) @ drop (w * n) buf)"
  using assms(2)
proof (induction n)
  case (Suc n)
  have lw: "length (take w (le_bytes v)) = w" for v using assms(1) by (auto simp: le_bytes_def)
  have l: "length (concat (map (\<lambda>i. take w (le_bytes (rx i))) [0..<n])) = w * n"
    by (simp add: length_concat comp_def lw sum_list_triv del: length_take)
  then show ?case
    using Suc spi_buf_rx_eq [OF assms(1), of "w * n" "concat (map (\<lambda>i. take w (le_bytes (rx i))) [0..<n]) @ drop (w * n) buf" "rx n"]
    by (simp add: foldM_append foldM_Nil add.commute)
qed simp

lemma poll_eq:
  assumes m: "spi_master spi" and b: "max_speed_hz spi \<noteq> 0" and f: "elem_width spi * min (unat len) 8 \<le> length buf"
  shows "\<exists>rate. spi_find_baudrate ipg (max_speed_hz spi) = Some rate \<and>
     mxc_spi_poll_transfer ipg rx (Some spi) buf len hw = Some (0,
       concat (map (\<lambda>i. take (elem_width spi) (le_bytes (rx i))) [0..<min (unat len) 8]) @ drop (elem_width spi * min (unat len) 8) buf,
       hw\<lparr>CSPICTRL := chipselect_ctrl rate spi AND NOT 4,
         txfifo := txfifo hw @ map (\<lambda>i. the (spi_buf_tx (elem_width spi) buf (elem_width spi * i))) [0..<min (unat len) 8],
         CCM_CGR1 := CCM_CGR1 hw AND NOT 32\<rparr>)"
proof -
  obtain rate where r: "spi_find_baudrate ipg (max_speed_hz spi) = Some rate"
    using b by (simp add: spi_find_baudrate_def Let_def)
  define n where "n = min (unat len) 8"
  have c: "unat (if fifo_size spi_ver_0_7 < len then fifo_size spi_ver_0_7 else len) = n"
    by (auto simp: spi_ver_0_7_def word_less_nat_alt n_def)
  have g: "(x OR k) AND NOT k = x AND NOT k" "((x AND NOT k) OR k) AND NOT k = x AND NOT k" for x k :: u32
    by (rule bit_word_eqI; auto simp: bit_simps)+
  have g': "(x OR 32) AND - 33 = x AND - (33 :: u32)" "((x AND - 33) OR 32) AND - 33 = x AND - (33 :: u32)"
    "(x OR 4) AND - 5 = x AND - (5 :: u32)" for x
    using g [of x 32] g(1) [of x 4] by simp_all
  have f': "elem_width spi * n \<le> length buf" using f by (simp add: n_def)
  have k: "xch spi_ver_0_7 = 4" "push_bit 5 1 = (32 :: u32)" by (simp_all add: spi_ver_0_7_def)
  show ?thesis unfolding n_def [symmetric]
    by (rule exI [of _ rate])
      (simp only: r m c k mxc_spi_poll_transfer_def mxc_spi_chipselect_def spi_put_tx_data_def cspi_clk_enable_def
        cspi_clk_disable_def Let_def option.case Option.bind_lunit put_tx [OF elem_width_cases f'] get_rx [OF elem_width_cases f']
        spi_hw.simps if_False if_True not_True_eq_False one_neq_zero simp_thms, simp add: g')
qed

section \<open>Properties\<close>

text \<open>(spi_baudrate_power): for a clock and a speed whose sum does not wrap, the field put in bits 16 and up of the
  control register is at most 7. When the rounded quotient d of clock and speed is between 4 and 1023 the field k
  satisfies 2^(k+2) \<open>\<le>\<close> d < 2^(k+3), so the divider 2^(k+2) is the largest power of two not above d. Above that range,
  and also below it, where the subtraction of two wraps, the field is 7, the slowest rate.\<close>

theorem spi_baudrate_power:
  assumes "baud \<noteq> 0" and "unat ipg + unat baud div 2 < 4294967296"
  shows "\<exists>d k. d = (unat ipg + unat baud div 2) div unat baud \<and> k \<le> 7
     \<and> spi_find_baudrate ipg baud = Some (push_bit 16 (of_nat k))
     \<and> (if 4 \<le> d \<and> d < 1024 then 2 ^ (k + 2) \<le> d \<and> d < 2 ^ (k + 3) else k = 7)"
  using baudrate_eq [OF assms] by (auto simp: not_le)

theorem spi_baudrate_power_witness:
  "(1000000 :: u32) \<noteq> 0 \<and> unat (66500000 :: u32) + unat (1000000 :: u32) div 2 < 4294967296
   \<and> (\<exists>d k. d = (unat (66500000 :: u32) + unat (1000000 :: u32) div 2) div unat (1000000 :: u32) \<and> k \<le> 7
     \<and> spi_find_baudrate 66500000 1000000 = Some (push_bit 16 (of_nat k))
     \<and> (if 4 \<le> d \<and> d < 1024 then 2 ^ (k + 2) \<le> d \<and> d < 2 ^ (k + 3) else k = 7))"
  by (intro conjI spi_baudrate_power) simp_all

text \<open>C30 (spi_write_first_eight): \<open>poll_spi_write\<close> on an initialised device with a buffer that holds the elements it
  transfers returns 0. It programs the control word of the device, puts exactly the first min(len, 8) elements of the
  buffer into the transmit FIFO, in order, overwrites those elements with the answers, leaves the rest of the buffer
  unsent and unchanged, and leaves the clock gate closed. Elements after the eighth are dropped without an error.\<close>

theorem spi_write_first_eight:
  assumes "spi_master spi" and "max_speed_hz spi \<noteq> 0" and "elem_width spi * min (unat len) 8 \<le> length buf"
  shows "\<exists>rate. spi_find_baudrate ipg (max_speed_hz spi) = Some rate \<and>
     poll_spi_write ipg rx (Some spi) buf len hw = Some (0,
       concat (map (\<lambda>i. take (elem_width spi) (le_bytes (rx i))) [0..<min (unat len) 8]) @ drop (elem_width spi * min (unat len) 8) buf,
       hw\<lparr>CSPICTRL := chipselect_ctrl rate spi AND NOT 4,
         txfifo := txfifo hw @ map (\<lambda>i. the (spi_buf_tx (elem_width spi) buf (elem_width spi * i))) [0..<min (unat len) 8],
         CCM_CGR1 := CCM_CGR1 hw AND NOT 32\<rparr>)"
  using poll_eq [OF assms, of ipg rx hw] by (auto simp: poll_spi_write_def)

theorem spi_write_first_eight_witness:
  "\<exists>buf hw. poll_spi_write 66500000 (\<lambda>i. 0xAB)
       (Some \<lparr>spi_master = True, max_speed_hz = 1000000, chip_select = 0, spi_mode = 0, bits_per_word = 8\<rparr>)
       [1, 2, 3, 4, 5, 6, 7, 8, 9] 9 \<lparr>CSPICTRL = 0, CSPIINT = 0, CSPIPERIOD = 0, at_base = 0, CCM_CGR1 = 0, txfifo = []\<rparr> = Some (0, buf, hw)
     \<and> txfifo hw = [1, 2, 3, 4, 5, 6, 7, 8] \<and> buf = [0xAB, 0xAB, 0xAB, 0xAB, 0xAB, 0xAB, 0xAB, 0xAB, 9]"
proof -
  define spi where "spi = \<lparr>spi_master = True, max_speed_hz = 1000000, chip_select = 0, spi_mode = 0, bits_per_word = 8\<rparr>"
  define hw where "hw = \<lparr>CSPICTRL = 0, CSPIINT = 0, CSPIPERIOD = 0, at_base = 0, CCM_CGR1 = 0, txfifo = []\<rparr>"
  have w: "elem_width spi = 1" by (simp add: spi_def elem_width_def)
  have u: "[0..<8] = [0, 1, 2, 3, 4, 5, 6, 7 :: nat]" by (simp add: upt_rec)
  have m: "min (unat (9 :: u32)) 8 = 8" by simp
  have h: "spi_master spi" "max_speed_hz spi \<noteq> 0"
    "elem_width spi * min (unat (9 :: u32)) 8 \<le> length [1, 2, 3, 4, 5, 6, 7, 8, 9 :: byte]"
    by (simp_all add: w) (simp_all add: spi_def)
  from spi_write_first_eight [OF h, of 66500000 "\<lambda>i. 0xAB" hw] show ?thesis
    unfolding spi_def [symmetric] hw_def [symmetric] w m u
    by (auto simp: spi_buf_tx_def load_def le_bytes_def hw_def)
qed

end
