(* ===== verification/Board.thy ===== *)
theory Board
  imports Spi Vsprintf_Proofs
begin

unbundle bit_operations_syntax

text \<open>
  hfc_app/hfc_gpio and hfc_app/hfc_misc: the 74HC595 output register behind the SPI bus, the 74HC4051 channel selector
  it drives, the analogue-digital converter and the voltages computed from its samples. Registers and the files'
  statics are the record \<open>board\<close>. Calls of the pin multiplexer and the GPIO functions, and the clock setup of the display,
  are recorded in order in \<open>calls\<close>; a frame sent over SPI is recorded with the words that reached the FIFO. The
  contents of the converter's FIFO after a conversion are the parameter \<open>fifo\<close>. Delays have no effect on the state;
  a busy wait ends with the hardware having set or cleared the bit it polls. \<^term>\<open>None\<close> is undefined behaviour.
\<close>

section \<open>State\<close>

datatype pin = MX25_PIN_CSPI1_RDY | MX25_PIN_RTCK | MX25_PIN_A14 | MX25_PIN_UART1_CTS

datatype pad_ctl = PAD_CTL_DRV_NORMAL | PAD_CTL_PKE_ENABLE | PAD_CTL_PKE_PUD_22K

datatype dev_call =
    mxc_request_iomux_ALT5 pin
  | mxc_iomux_set_pad pin pad_ctl
  | mxc_set_gpio_direction pin int
  | mxc_set_gpio_dataout pin int
  | mxc_get_gpio_datain pin
  | spi_frame "u32 list"
  | tft_gpio_init
  | tft_clock_init

record board =
  hc595_state :: u32
  spi0_dev :: spi_device
  spi0_hw :: spi_hw
  TGCR :: u32
  CCM_14 :: u32
  GCQCR :: u32
  GCQSR :: u32
  GCC0 :: u32
  hfc_adc_ready :: int
  adc_buf :: "u16 list"
  batVoltage :: u32
  misc_init :: int
  calls :: "dev_call list"

definition emit :: "dev_call list \<Rightarrow> board \<Rightarrow> board" where
  "emit cs b = b\<lparr>calls := calls b @ cs\<rparr>"

section \<open>The output register (hfc_gpio.c)\<close>

definition hfc_hc595_data_latch_init :: "board \<Rightarrow> board" where
  "hfc_hc595_data_latch_init = emit [mxc_request_iomux_ALT5 MX25_PIN_CSPI1_RDY, mxc_set_gpio_direction MX25_PIN_CSPI1_RDY 0,
     mxc_set_gpio_dataout MX25_PIN_CSPI1_RDY 0]"

definition hfc_hc595_data_latch_high :: "board \<Rightarrow> board" where
  "hfc_hc595_data_latch_high = emit [mxc_set_gpio_dataout MX25_PIN_CSPI1_RDY 1]"

definition hfc_hc595_data_latch_low :: "board \<Rightarrow> board" where
  "hfc_hc595_data_latch_low = emit [mxc_set_gpio_dataout MX25_PIN_CSPI1_RDY 0]"

text \<open>A shift by a negative number or by 32 and more is undefined.\<close>

definition hc595_update :: "int \<Rightarrow> int \<Rightarrow> u32 \<Rightarrow> u32 option" where
  "hc595_update num value st =
     (if num < 0 \<or> 32 \<le> num then None
      else Some ((st AND NOT (push_bit (nat num) 1)) OR push_bit (nat num) (of_int value)))"

definition hc595_send :: "u32 \<Rightarrow> (nat \<Rightarrow> u32) \<Rightarrow> board \<Rightarrow> board option" where
  "hc595_send ipg rx b =
     (let dev = spi0_dev b;
          dev = (if chip_select dev \<noteq> 2 then imx25_spi_setup dev 1000000 32 2 else dev) in
      do { (r, frame, hw) \<leftarrow> poll_spi_write ipg rx (Some dev) (le_bytes (hc595_state b) @ [0, 0, 0, 0]) 1 (spi0_hw b);
           Some (emit [spi_frame (drop (length (txfifo (spi0_hw b))) (txfifo hw))] (b\<lparr>spi0_dev := dev, spi0_hw := hw\<rparr>)) })"

definition gpio_set_hc595_output :: "u32 \<Rightarrow> (nat \<Rightarrow> u32) \<Rightarrow> int \<Rightarrow> int \<Rightarrow> board \<Rightarrow> board option" where
  "gpio_set_hc595_output ipg rx num value b =
     do { st \<leftarrow> hc595_update num value (hc595_state b);
          b1 \<leftarrow> hc595_send ipg rx (hfc_hc595_data_latch_low (b\<lparr>hc595_state := st\<rparr>));
          Some (hfc_hc595_data_latch_low (hfc_hc595_data_latch_high b1)) }"

definition hfc_battery_charge_gpio_init :: "board \<Rightarrow> board" where
  "hfc_battery_charge_gpio_init = emit [mxc_request_iomux_ALT5 MX25_PIN_RTCK, mxc_iomux_set_pad MX25_PIN_RTCK PAD_CTL_DRV_NORMAL,
     mxc_set_gpio_direction MX25_PIN_RTCK 1]"

definition hfc_libat_measure_control :: "int \<Rightarrow> board \<Rightarrow> board" where
  "hfc_libat_measure_control val = emit [mxc_set_gpio_direction MX25_PIN_RTCK 0, mxc_set_gpio_dataout MX25_PIN_RTCK val]"

text \<open>\<open>datain\<close> is the level of the pin.\<close>

definition hfc_get_libat_charge_status :: "int \<Rightarrow> board \<Rightarrow> int \<times> board" where
  "hfc_get_libat_charge_status datain b = (datain, emit [mxc_set_gpio_direction MX25_PIN_RTCK 1, mxc_get_gpio_datain MX25_PIN_RTCK] b)"

section \<open>Channel selection and the converter (hfc_misc.c)\<close>

definition IMX_ADC_FIFO_MAX :: nat where "IMX_ADC_FIFO_MAX = 16"
definition HC595_RTC_ADEN :: int where "HC595_RTC_ADEN = 21"
definition HC4051_SELECT0 :: int where "HC4051_SELECT0 = 6"
definition HC4051_SELECT1 :: int where "HC4051_SELECT1 = 3"
definition HC4051_SELECT2 :: int where "HC4051_SELECT2 = 7"
definition EXP_AD_ACIN_AD :: u32 where "EXP_AD_ACIN_AD = 7"

lemmas hc_consts = HC595_RTC_ADEN_def HC4051_SELECT0_def HC4051_SELECT1_def HC4051_SELECT2_def EXP_AD_ACIN_AD_def

definition HC4051_opertions :: "u32 \<Rightarrow> (nat \<Rightarrow> u32) \<Rightarrow> u32 \<Rightarrow> board \<Rightarrow> board option" where
  "HC4051_opertions ipg rx channel b =
     (if 7 < channel then Some b
      else let channel = channel AND 0x07 in
        do { b \<leftarrow> gpio_set_hc595_output ipg rx HC4051_SELECT0 (if channel AND 0x01 \<noteq> 0 then 1 else 0) b;
             b \<leftarrow> gpio_set_hc595_output ipg rx HC4051_SELECT1 (if channel AND 0x02 \<noteq> 0 then 1 else 0) b;
             gpio_set_hc595_output ipg rx HC4051_SELECT2 (if channel AND 0x04 \<noteq> 0 then 1 else 0) b })"

definition TGCR_IPG_CLK_EN :: u32 where "TGCR_IPG_CLK_EN = push_bit 0 1"
definition TGCR_TSC_RST :: u32 where "TGCR_TSC_RST = push_bit 1 1"
definition TGCR_POWER_SAVE :: u32 where "TGCR_POWER_SAVE = push_bit 8 0x1"
definition TGCR_INTREFEN :: u32 where "TGCR_INTREFEN = push_bit 10 1"
definition TGCR_POWER_MASK :: u32 where "TGCR_POWER_MASK = push_bit 8 0x3"

lemmas tgcr_consts = TGCR_IPG_CLK_EN_def TGCR_TSC_RST_def TGCR_POWER_SAVE_def TGCR_INTREFEN_def TGCR_POWER_MASK_def

text \<open>The wait of \<open>hfc_adc_init\<close> ends when the module has cleared its reset bit.\<close>

definition hfc_adc_init :: "board \<Rightarrow> int \<times> board" where
  "hfc_adc_init b =
     (let b = b\<lparr>TGCR := TGCR b OR TGCR_IPG_CLK_EN\<rparr>;
          b = b\<lparr>TGCR := TGCR b OR TGCR_TSC_RST\<rparr>;
          b = b\<lparr>TGCR := TGCR b AND NOT TGCR_TSC_RST\<rparr>;
          b = b\<lparr>TGCR := TGCR b AND NOT TGCR_INTREFEN\<rparr>;
          b = b\<lparr>TGCR := (TGCR b AND NOT TGCR_POWER_MASK) OR TGCR_POWER_SAVE\<rparr>
      in (0, b\<lparr>hfc_adc_ready := 1\<rparr>))"

definition enable_adc_clock :: "board \<Rightarrow> board" where
  "enable_adc_clock b = b\<lparr>CCM_14 := CCM_14 b OR push_bit 13 0x1\<rparr>"

definition hfc_adc_module_init :: "board \<Rightarrow> int \<times> board" where
  "hfc_adc_module_init b =
     (if hfc_adc_ready b = 1 then (0, b)
      else let (ret, b) = hfc_adc_init b in (ret, enable_adc_clock b))"

definition CQCR_FQS :: u32 where "CQCR_FQS = push_bit 2 1"
definition CQSR_EOQ :: u32 where "CQSR_EOQ = push_bit 1 1"
definition TSC_GENERAL_ADC_GCC0 :: u32 where "TSC_GENERAL_ADC_GCC0 = 0x175c"
definition CQCR_QSM_FQS :: u32 where "CQCR_QSM_FQS = push_bit 0 0x2"
definition GCQFIFO_ADCOUT_SHIFT :: nat where "GCQFIFO_ADCOUT_SHIFT = 4"

text \<open>Reading out the FIFO: as many entries as it holds, whatever the length of the result array.\<close>

fun adc_drain :: "u32 list \<Rightarrow> nat \<Rightarrow> u16 list \<Rightarrow> u16 list option" where
  "adc_drain [] data_num result = Some result"
| "adc_drain (w # ws) data_num result =
     do { result1 \<leftarrow> store result data_num (ucast (drop_bit GCQFIFO_ADCOUT_SHIFT w)); adc_drain ws (data_num + 1) result1 }"

definition adc_read_general :: "u32 list \<Rightarrow> board \<Rightarrow> (int \<times> board) option" where
  "adc_read_general fifo b =
     (let b = b\<lparr>GCQCR := GCQCR b OR CQCR_FQS\<rparr>;
          b = b\<lparr>GCQSR := GCQSR b OR CQSR_EOQ\<rparr>;
          b = b\<lparr>GCQCR := GCQCR b AND NOT CQCR_FQS\<rparr>;
          b = b\<lparr>GCQSR := GCQSR b OR CQSR_EOQ\<rparr> in
      do { buf \<leftarrow> adc_drain fifo 0 (adc_buf b); Some (0, b\<lparr>adc_buf := buf\<rparr>) })"

definition imx_adc_convert :: "u32 list \<Rightarrow> board \<Rightarrow> (int \<times> board) option" where
  "imx_adc_convert fifo b =
     (let b = b\<lparr>GCQCR := push_bit 8 0xf OR CQCR_QSM_FQS\<rparr>;
          b = b\<lparr>GCC0 := TSC_GENERAL_ADC_GCC0 OR push_bit 16 4 OR push_bit 24 16\<rparr> in
      do { (r, b) \<leftarrow> adc_read_general fifo b; Some (0, b) })"

section \<open>Voltages\<close>

text \<open>The loop of \<open>calc_adc_voltage\<close> over the samples from index \<open>i\<close>: the count, maximum, minimum and sum.\<close>

fun adc_scan :: "u16 list \<Rightarrow> nat \<Rightarrow> u16 \<Rightarrow> u16 \<Rightarrow> u32 \<Rightarrow> nat \<times> u16 \<times> u16 \<times> u32" where
  "adc_scan [] i mx mn sm = (i, mx, mn, sm)"
| "adc_scan (s # ss) i mx mn sm =
     (if s = 0 then (i, mx, mn, sm)
      else adc_scan ss (i + 1) (if s < mx then mx else s) (if mn < s then mn else s) (sm + ucast s))"

definition calc_adc_voltage :: "u16 list \<Rightarrow> u32" where
  "calc_adc_voltage buf =
     (case adc_scan (take IMX_ADC_FIFO_MAX buf) 0 0 0xFFFF 0 of
       (i, mx, mn, sm) \<Rightarrow>
         if i < 4 then 0 else drop_bit 12 ((sm - ucast mx - ucast mn) div of_nat (i - 2) * 1338))"

definition hfc_li_rtc_control :: "u32 \<Rightarrow> (nat \<Rightarrow> u32) \<Rightarrow> int \<Rightarrow> int \<Rightarrow> board \<Rightarrow> board option" where
  "hfc_li_rtc_control ipg rx ch val b =
     (if ch = 0 then Some (hfc_libat_measure_control val b) else gpio_set_hc595_output ipg rx HC595_RTC_ADEN val b)"

text \<open>The result is an \<open>int\<close>: the 32-bit voltage reinterpreted as signed.\<close>

definition get_bat_voltage :: "u32 \<Rightarrow> (nat \<Rightarrow> u32) \<Rightarrow> u32 list \<Rightarrow> int \<Rightarrow> board \<Rightarrow> (int \<times> board) option" where
  "get_bat_voltage ipg rx fifo index b =
     (let (ret, b) = hfc_adc_module_init b in
      if hfc_adc_ready b \<noteq> 0
      then do {
        let b = b\<lparr>adc_buf := replicate IMX_ADC_FIFO_MAX 0\<rparr> in
        do { b \<leftarrow> HC4051_opertions ipg rx (of_int index) b;
             b \<leftarrow> hfc_li_rtc_control ipg rx index 1 b;
             b \<leftarrow> hfc_li_rtc_control ipg rx index 0 b;
             (r, b) \<leftarrow> imx_adc_convert fifo b;
             if r \<noteq> 0 then Some (-1, b)
             else do { b \<leftarrow> hfc_li_rtc_control ipg rx index 1 b;
                       let v = calc_adc_voltage (adc_buf b) in Some (sint v, b\<lparr>batVoltage := v\<rparr>) } } }
      else Some (-1, b))"

definition get_external_supply_voltage :: "u32 \<Rightarrow> (nat \<Rightarrow> u32) \<Rightarrow> u32 list \<Rightarrow> board \<Rightarrow> (int \<times> board) option" where
  "get_external_supply_voltage ipg rx fifo b =
     (let (ret, b) = hfc_adc_module_init b in
      if hfc_adc_ready b \<noteq> 0
      then do { b \<leftarrow> HC4051_opertions ipg rx EXP_AD_ACIN_AD b;
                (r, b) \<leftarrow> imx_adc_convert fifo (b\<lparr>adc_buf := replicate IMX_ADC_FIFO_MAX 0\<rparr>);
                if r \<noteq> 0 then Some (-1, b) else Some (sint (calc_adc_voltage (adc_buf b)), b) }
      else Some (-1, b))"

definition hfc_power_latch_enable :: "board \<Rightarrow> board" where
  "hfc_power_latch_enable = emit [mxc_request_iomux_ALT5 MX25_PIN_A14, mxc_iomux_set_pad MX25_PIN_A14 PAD_CTL_PKE_ENABLE,
     mxc_set_gpio_direction MX25_PIN_A14 0, mxc_set_gpio_dataout MX25_PIN_A14 1]"

section \<open>The misc command\<close>

text \<open>
  The arguments of a command are addresses in the memory \<open>m\<close>; the entry after the last is the null pointer,
  \<^term>\<open>None\<close>. \<open>arg_is\<close> is \<open>strncmp(argv[i], lit, n) == 0\<close>, with the literal \<open>lit\<close> placed after \<open>m\<close>.
\<close>

definition arg_is :: "mem \<Rightarrow> nat option list \<Rightarrow> nat \<Rightarrow> mem \<Rightarrow> nat \<Rightarrow> bool option" where
  "arg_is m argv i lit n = do { a \<leftarrow> load argv i; p \<leftarrow> a; r \<leftarrow> strncmp (m @ lit) p (length m) n; Some (r = 0) }"

definition arg_number :: "mem \<Rightarrow> nat option list \<Rightarrow> nat \<Rightarrow> u32 \<Rightarrow> u32 option" where
  "arg_number m argv i base = do { a \<leftarrow> load argv i; p \<leftarrow> a; (v, e) \<leftarrow> simple_strtoul m p base; Some v }"

definition CMD_RET_USAGE :: int where "CMD_RET_USAGE = -1"

definition lit_init :: mem where "lit_init = [105, 110, 105, 116, 0]"
definition lit_pwr_lock :: mem where "lit_pwr_lock = [112, 119, 114, 45, 108, 111, 99, 107, 0]"
definition lit_hc595 :: mem where "lit_hc595 = [104, 99, 53, 57, 53, 0]"
definition lit_on :: mem where "lit_on = [111, 110, 0]"
definition lit_off :: mem where "lit_off = [111, 102, 102, 0]"
definition lit_adc :: mem where "lit_adc = [97, 100, 99, 0]"
definition lit_battery :: mem where "lit_battery = [98, 97, 116, 116, 101, 114, 121, 0]"
definition lit_rtc :: mem where "lit_rtc = [114, 116, 99, 0]"
definition lit_pwr :: mem where "lit_pwr = [112, 119, 114, 0]"

definition misc_hc595 :: "u32 \<Rightarrow> (nat \<Rightarrow> u32) \<Rightarrow> mem \<Rightarrow> nat option list \<Rightarrow> board \<Rightarrow> board option" where
  "misc_hc595 ipg rx m argv b =
     do { v \<leftarrow> arg_number m argv 2 10;
          let channel = uint (ucast v :: byte) in
          do { on \<leftarrow> arg_is m argv 3 lit_on 2;
               if on then gpio_set_hc595_output ipg rx channel 1 b
               else do { off \<leftarrow> arg_is m argv 3 lit_off 3;
                         if off then gpio_set_hc595_output ipg rx channel 0 b else Some b } } }"

definition misc_adc :: "u32 \<Rightarrow> (nat \<Rightarrow> u32) \<Rightarrow> u32 list \<Rightarrow> mem \<Rightarrow> nat option list \<Rightarrow> board \<Rightarrow> board option" where
  "misc_adc ipg rx fifo m argv b =
     do { bat \<leftarrow> arg_is m argv 2 lit_battery 5;
          if bat then do { (v, b) \<leftarrow> get_bat_voltage ipg rx fifo 0 b; Some b }
          else do { rtc \<leftarrow> arg_is m argv 2 lit_rtc 5;
                    if rtc then do { (v, b) \<leftarrow> get_bat_voltage ipg rx fifo 1 b; Some b } else Some b } }"

definition do_misc :: "u32 \<Rightarrow> (nat \<Rightarrow> u32) \<Rightarrow> u32 list \<Rightarrow> mem \<Rightarrow> int \<Rightarrow> nat option list \<Rightarrow> board \<Rightarrow> (int \<times> board) option" where
  "do_misc ipg rx fifo m argc argv b =
     do { ini \<leftarrow> arg_is m argv 1 lit_init 4;
          let b = (if ini then (hfc_battery_charge_gpio_init (hfc_hc595_data_latch_init b))\<lparr>misc_init := 1\<rparr> else b) in
          if misc_init b = 0 then Some (1, b)
          else if argc < 2 then Some (CMD_RET_USAGE, b)
          else do {
            lck \<leftarrow> arg_is m argv 1 lit_pwr_lock 7;
            if lck then Some (0, hfc_power_latch_enable b)
            else do {
              hc \<leftarrow> arg_is m argv 1 lit_hc595 5;
              if hc then do { b \<leftarrow> misc_hc595 ipg rx m argv b; Some (0, b) }
              else do {
                adc \<leftarrow> arg_is m argv 1 lit_adc 3;
                if adc then do { b \<leftarrow> misc_adc ipg rx fifo m argv b; Some (0, b) }
                else do {
                  pwr \<leftarrow> arg_is m argv 1 lit_pwr 3;
                  if pwr then do { (v, b) \<leftarrow> get_external_supply_voltage ipg rx fifo b; Some (0, b) }
                  else Some (0, b) } } } } }"

end
