(* ===== verification/Board_Proofs.thy ===== *)
theory Board_Proofs
  imports Board
begin

unbundle bit_operations_syntax

text \<open>
  The output register and the selector: what a write to one output line does to the others and what reaches the SPI
  bus; the voltage computed from a set of samples; when a measurement stays within the sample array.
\<close>

section \<open>A register of numbered lines\<close>

text \<open>What a client of the output register relies on: \<open>put n v\<close> sets line \<open>n\<close> and no other.\<close>

locale output_lines =
  fixes put :: "int \<Rightarrow> int \<Rightarrow> 'r \<Rightarrow> 'r option" and line :: "'r \<Rightarrow> nat \<Rightarrow> bool" and lines :: nat
  assumes put_defined: "0 \<le> n \<Longrightarrow> n < int lines \<Longrightarrow> \<exists>r'. put n v r = Some r'"
    and put_line: "put n v r = Some r' \<Longrightarrow> v \<in> {0, 1} \<Longrightarrow> i < lines \<Longrightarrow> line r' i \<longleftrightarrow> (if i = nat n then v = 1 else line r i)"
begin

text \<open>Writing three different lines in a row leaves each with its value and the others alone.\<close>

lemma put_three:
  assumes "0 \<le> n1" "n1 < int lines" "0 \<le> n2" "n2 < int lines" "0 \<le> n3" "n3 < int lines"
    and d: "n1 \<noteq> n2" "n1 \<noteq> n3" "n2 \<noteq> n3" and v: "v1 \<in> {0, 1}" "v2 \<in> {0, 1}" "v3 \<in> {0, 1}"
  shows "\<exists>r1 r2 r3. put n1 v1 r = Some r1 \<and> put n2 v2 r1 = Some r2 \<and> put n3 v3 r2 = Some r3
     \<and> (\<forall>i<lines. line r3 i \<longleftrightarrow> (if i = nat n1 then v1 = 1 else if i = nat n2 then v2 = 1 else if i = nat n3 then v3 = 1 else line r i))"
proof -
  obtain r1 where 1: "put n1 v1 r = Some r1" using put_defined assms(1,2) by blast
  obtain r2 where 2: "put n2 v2 r1 = Some r2" using put_defined assms(3,4) by blast
  obtain r3 where 3: "put n3 v3 r2 = Some r3" using put_defined assms(5,6) by blast
  have "nat n1 \<noteq> nat n2" "nat n1 \<noteq> nat n3" "nat n2 \<noteq> nat n3" using d assms(1-6) by (auto simp: nat_eq_iff)
  then have "\<forall>i<lines. line r3 i \<longleftrightarrow> (if i = nat n1 then v1 = 1 else if i = nat n2 then v2 = 1 else if i = nat n3 then v3 = 1 else line r i)"
    using put_line [OF 1 v(1)] put_line [OF 2 v(2)] put_line [OF 3 v(3)] by auto
  with 1 2 3 show ?thesis by blast
qed

end

lemma hc595_update_bit:
  assumes "hc595_update n v r = Some r'" and "v \<in> {0, 1}" and "i < 32"
  shows "bit r' i \<longleftrightarrow> (if i = nat n then v = 1 else bit r i)"
proof -
  have r': "r' = (r AND NOT (push_bit (nat n) 1)) OR push_bit (nat n) (of_int v)" and n: "nat n < 32"
    using assms(1) by (auto simp: hc595_update_def split: if_splits)
  consider "v = 0" | "v = 1" using assms(2) by auto
  then show ?thesis by cases (use assms(3) n in \<open>auto simp: r' bit_simps\<close>)
qed

interpretation hc595: output_lines hc595_update "bit :: u32 \<Rightarrow> nat \<Rightarrow> bool" 32
  by unfold_locales (use hc595_update_bit in \<open>auto simp: hc595_update_def\<close>)

section \<open>Sending the register\<close>

text \<open>
  The SPI device is bound to its master, and when the chip select is that of the register it is also set up for it;
  any other chip select makes \<open>gpio_set_hc595_output\<close> set it up first.
\<close>

definition spi_ready :: "spi_device \<Rightarrow> bool" where
  "spi_ready dev \<longleftrightarrow> spi_master dev \<and> (chip_select dev = 2 \<longrightarrow> bits_per_word dev = 32 \<and> max_speed_hz dev \<noteq> 0)"

lemma load32_le_bytes: "load32 (le_bytes v @ r) 0 = Some v"
proof -
  have "le32 (ucast v) (ucast (drop_bit 8 v)) (ucast (drop_bit 16 v)) (ucast (drop_bit 24 v)) = v"
  proof (rule bit_word_eqI)
    fix n
    assume "n < LENGTH(32)"
    then show "bit (le32 (ucast v) (ucast (drop_bit 8 v)) (ucast (drop_bit 16 v)) (ucast (drop_bit 24 v))) n \<longleftrightarrow> bit v n"
      by (cases "n < 16"; cases "n < 24") (auto simp: le32_def bit_simps)
  qed
  then show ?thesis by (simp add: load32_def load_def le_bytes_def)
qed

lemma poll_frame:
  assumes "spi_master dev" and "bits_per_word dev = 32" and "max_speed_hz dev \<noteq> 0"
  shows "\<exists>buf hw'. poll_spi_write ipg rx (Some dev) (le_bytes v @ [0, 0, 0, 0]) 1 hw = Some (0, buf, hw') \<and> txfifo hw' = txfifo hw @ [v]"
proof -
  have w: "elem_width dev = 4" by (simp add: elem_width_def assms(2))
  have "elem_width dev * min (unat (1 :: u32)) 8 \<le> length (le_bytes v @ [0, 0, 0, 0 :: byte])" by (simp add: w le_bytes_def)
  from poll_eq [OF assms(1,3) this, of ipg rx hw] show ?thesis
    unfolding w by (auto simp: poll_spi_write_def spi_buf_tx_def load32_le_bytes)
qed

lemma hc595_send_ready:
  assumes "spi_ready (spi0_dev b)"
  shows "\<exists>dev hw. hc595_send ipg rx b = Some (emit [spi_frame [hc595_state b]] (b\<lparr>spi0_dev := dev, spi0_hw := hw\<rparr>)) \<and> spi_ready dev"
proof -
  define dev where "dev = (if chip_select (spi0_dev b) \<noteq> 2 then imx25_spi_setup (spi0_dev b) 1000000 32 2 else spi0_dev b)"
  have d: "spi_master dev" "bits_per_word dev = 32" "max_speed_hz dev \<noteq> 0"
    using assms by (auto simp: dev_def spi_ready_def imx25_spi_setup_def spi_setup_def mxc_spi_setup_def)
  then have r: "spi_ready dev" by (simp add: spi_ready_def)
  obtain buf hw where "poll_spi_write ipg rx (Some dev) (le_bytes (hc595_state b) @ [0, 0, 0, 0]) 1 (spi0_hw b) = Some (0, buf, hw)"
    "txfifo hw = txfifo (spi0_hw b) @ [hc595_state b]" using poll_frame [OF d] by blast
  then show ?thesis using r unfolding hc595_send_def Let_def dev_def [symmetric] by auto
qed

abbreviation latched :: "u32 \<Rightarrow> dev_call list" where
  "latched v \<equiv> [mxc_set_gpio_dataout MX25_PIN_CSPI1_RDY 0, spi_frame [v], mxc_set_gpio_dataout MX25_PIN_CSPI1_RDY 1,
     mxc_set_gpio_dataout MX25_PIN_CSPI1_RDY 0]"

text \<open>\<open>board_eq b b'\<close>: the two states differ at most in the output register, the SPI bus and the calls made.\<close>

definition board_eq :: "board \<Rightarrow> board \<Rightarrow> bool" where
  "board_eq b b' \<longleftrightarrow> b' = b\<lparr>hc595_state := hc595_state b', spi0_dev := spi0_dev b', spi0_hw := spi0_hw b', calls := calls b'\<rparr>"

lemma board_eq_refl [simp]: "board_eq b b"
  by (simp add: board_eq_def)

lemma board_eq_trans [trans]: "board_eq a b \<Longrightarrow> board_eq b c \<Longrightarrow> board_eq a c"
  unfolding board_eq_def by (cases a, cases b, cases c) simp

lemma output_ready:
  assumes "spi_ready (spi0_dev b)" and "hc595_update num value (hc595_state b) = Some st"
  shows "\<exists>b'. gpio_set_hc595_output ipg rx num value b = Some b' \<and> hc595_state b' = st \<and> calls b' = calls b @ latched st
     \<and> spi_ready (spi0_dev b') \<and> board_eq b b'"
proof -
  define b0 where "b0 = hfc_hc595_data_latch_low (b\<lparr>hc595_state := st\<rparr>)"
  have "spi_ready (spi0_dev b0)" using assms(1) by (simp add: b0_def hfc_hc595_data_latch_low_def emit_def)
  from hc595_send_ready [OF this] obtain dev hw where
    "hc595_send ipg rx b0 = Some (emit [spi_frame [hc595_state b0]] (b0\<lparr>spi0_dev := dev, spi0_hw := hw\<rparr>))" "spi_ready dev" by blast
  then show ?thesis using assms(2)
    by (simp add: gpio_set_hc595_output_def b0_def hfc_hc595_data_latch_low_def hfc_hc595_data_latch_high_def emit_def board_eq_def)
qed

lemma output_undefined: "num < 0 \<or> 32 \<le> num \<Longrightarrow> gpio_set_hc595_output ipg rx num value b = None"
  by (auto simp: gpio_set_hc595_output_def hc595_update_def)

text \<open>The selector: bits 6, 3 and 7 of the register become the bits of the channel.\<close>

lemma select_channel:
  assumes "spi_ready (spi0_dev b)"
  shows "\<exists>b'. HC4051_opertions ipg rx channel b = Some b' \<and> spi_ready (spi0_dev b') \<and> board_eq b b'
     \<and> (\<forall>i<32. bit (hc595_state b') i \<longleftrightarrow>
          (if 7 < channel then bit (hc595_state b) i
           else if i = 6 then bit channel 0 else if i = 3 then bit channel 1 else if i = 7 then bit channel 2
           else bit (hc595_state b) i))"
proof (cases "7 < channel")
  case True
  then show ?thesis using assms by (simp add: HC4051_opertions_def)
next
  case False
  have "take_bit 3 channel = channel" using False by (simp add: word_unat_eq_iff take_bit_eq_mod unat_mod not_less word_le_nat_alt)
  then have m: "channel AND 7 = channel" by (simp add: take_bit_eq_mask mask_eq_exp_minus_1)
  define v where "v k = (if bit channel k then 1 else 0 :: int)" for k
  have t: "channel AND 1 \<noteq> 0 \<longleftrightarrow> bit channel 0" "channel AND 2 \<noteq> 0 \<longleftrightarrow> bit channel 1" "channel AND 4 \<noteq> 0 \<longleftrightarrow> bit channel 2"
    using and_exp_eq_0_iff_not_bit [of channel 0] and_exp_eq_0_iff_not_bit [of channel 1] and_exp_eq_0_iff_not_bit [of channel 2]
    by simp_all
  have v: "v k \<in> {0, 1}" "v k = 1 \<longleftrightarrow> bit channel k" for k by (simp_all add: v_def)
  obtain r1 r2 r3 where r: "hc595_update 6 (v 0) (hc595_state b) = Some r1" "hc595_update 3 (v 1) r1 = Some r2"
    "hc595_update 7 (v 2) r2 = Some r3"
    "\<forall>i<32. bit r3 i \<longleftrightarrow> (if i = 6 then v 0 = 1 else if i = 3 then v 1 = 1 else if i = 7 then v 2 = 1 else bit (hc595_state b) i)"
    using hc595.put_three [of 6 3 7 "v 0" "v 1" "v 2" "hc595_state b"] v(1) by auto
  obtain b1 where b1: "gpio_set_hc595_output ipg rx 6 (v 0) b = Some b1" "hc595_state b1 = r1" "spi_ready (spi0_dev b1)" "board_eq b b1"
    using output_ready [OF assms r(1)] by blast
  obtain b2 where b2: "gpio_set_hc595_output ipg rx 3 (v 1) b1 = Some b2" "hc595_state b2 = r2" "spi_ready (spi0_dev b2)" "board_eq b1 b2"
    using output_ready [OF b1(3)] r(2) b1(2) by blast
  obtain b3 where b3: "gpio_set_hc595_output ipg rx 7 (v 2) b2 = Some b3" "hc595_state b3 = r3" "spi_ready (spi0_dev b3)" "board_eq b2 b3"
    using output_ready [OF b2(3)] r(3) b2(2) by blast
  have "HC4051_opertions ipg rx channel b = Some b3"
    using False b1(1) b2(1) b3(1) by (simp add: HC4051_opertions_def m t hc_consts flip: v_def)
  moreover have "board_eq b b3" using b1(4) b2(4) b3(4) board_eq_trans by blast
  ultimately show ?thesis using b3(2,3) r(4) v(2) False by auto
qed

section \<open>Voltages\<close>

text \<open>The mean of the samples without one largest and one smallest, rounded down.\<close>

definition trimmed_mean :: "nat list \<Rightarrow> nat" where
  "trimmed_mean xs = (sum_list xs - Max (set xs) - Min (set xs)) div (length xs - 2)"

definition adc_samples :: "u16 list \<Rightarrow> nat list" where
  "adc_samples buf = map unat (takeWhile (\<lambda>s. s \<noteq> 0) (take IMX_ADC_FIFO_MAX buf))"

lemma adc_scan_eq:
  "adc_scan xs i mx mn sm = (let ys = takeWhile (\<lambda>s. s \<noteq> 0) xs in
     (i + length ys, Max (insert mx (set ys)), Min (insert mn (set ys)), sm + sum_list (map ucast ys)))"
proof (induction xs arbitrary: i mx mn sm)
  case (Cons s xs)
  define A where "A = set (takeWhile (\<lambda>s. s \<noteq> 0) xs)"
  have "finite A" by (simp add: A_def)
  then have "Max (insert mx (insert s A)) = Max (insert (if s < mx then mx else s) A)"
    "Min (insert mn (insert s A)) = Min (insert (if mn < s then mn else s) A)"
    by (cases "A = {}"; auto simp: max_def min_def not_less)+
  then show ?case by (cases "s = 0") (simp_all add: Cons Let_def add.assoc flip: A_def)
qed simp

lemma unat_le_u16: "unat (x :: u16) \<le> 65535"
proof -
  have "(2 :: nat) ^ LENGTH(16) = 65536" by simp
  with unsigned_less [of x, where ?'a = nat] show ?thesis by linarith
qed

lemma mono_unat: "mono (unat :: 'a::len word \<Rightarrow> nat)"
  by (simp add: mono_def word_le_nat_alt)

lemma Max_unat: "xs \<noteq> [] \<Longrightarrow> unat (Max (set xs)) = Max (set (map unat xs))"
  using mono_Max_commute [OF mono_unat, of "set xs"] by simp

lemma Min_unat: "xs \<noteq> [] \<Longrightarrow> unat (Min (set xs)) = Min (set (map unat xs))"
  using mono_Min_commute [OF mono_unat, of "set xs"] by simp

lemma sum_u16: "length xs \<le> 16 \<Longrightarrow> unat (sum_list (map ucast (xs :: u16 list)) :: u32) = sum_list (map unat xs)
     \<and> sum_list (map unat xs) \<le> length xs * 65535"
proof (induction xs)
  case (Cons x xs)
  have x: "unat x \<le> 65535" by (rule unat_le_u16)
  have IH: "unat (sum_list (map ucast xs) :: u32) = sum_list (map unat xs)" "sum_list (map unat xs) \<le> length xs * 65535"
    and l: "length xs \<le> 15" using Cons by simp_all
  have "length xs * 65535 \<le> 15 * 65535" using l by (rule mult_le_mono1)
  then have "unat x + sum_list (map unat xs) < 4294967296" using IH(2) x by linarith
  then show ?case using IH x by (simp add: unat_add_u32 unat_ucast_u32)
qed simp

text \<open>The extremes are two different samples, and what is left lies between them.\<close>

lemma trimmed_sum:
  fixes xs :: "nat list"
  assumes "2 \<le> length xs"
  shows "Max (set xs) + Min (set xs) + (length xs - 2) * Min (set xs) \<le> sum_list xs"
    "sum_list xs \<le> Max (set xs) + Min (set xs) + (length xs - 2) * Max (set xs)"
proof -
  have ne: "xs \<noteq> []" using assms by auto
  obtain k where l2: "length xs = Suc (Suc k)" using assms by (metis Suc_le_D add_2_eq_Suc le_Suc_ex)
  define ys where "ys = remove1 (Max (set xs)) xs"
  have "Max (set xs) \<in> set xs" using ne by simp
  then have ly: "length ys = length xs - 1" and sy: "sum_list xs = Max (set xs) + sum_list ys"
    by (simp_all add: ys_def length_remove1 sum_list_map_remove1 [of _ _ "\<lambda>x. x", simplified])
  have sub: "set ys \<subseteq> set xs" by (simp add: ys_def set_remove1_subset)
  have "length ys * Min (set xs) \<le> sum_list ys"
    using sum_list_mono [of ys "\<lambda>_. Min (set xs)" "\<lambda>x. x"] Min_le [OF _ subsetD [OF sub]] by (simp add: sum_list_triv)
  then show "Max (set xs) + Min (set xs) + (length xs - 2) * Min (set xs) \<le> sum_list xs"
    unfolding sy using l2 by (simp add: ly)
  define zs where "zs = remove1 (Min (set xs)) xs"
  have "Min (set xs) \<in> set xs" using ne by simp
  then have lz: "length zs = length xs - 1" and sz: "sum_list xs = Min (set xs) + sum_list zs"
    by (simp_all add: zs_def length_remove1 sum_list_map_remove1 [of _ _ "\<lambda>x. x", simplified])
  have sub': "set zs \<subseteq> set xs" by (simp add: zs_def set_remove1_subset)
  have "sum_list zs \<le> length zs * Max (set xs)"
    using sum_list_mono [of zs "\<lambda>x. x" "\<lambda>_. Max (set xs)"] Max_ge [OF _ subsetD [OF sub']] by (simp add: sum_list_triv)
  then show "sum_list xs \<le> Max (set xs) + Min (set xs) + (length xs - 2) * Max (set xs)"
    unfolding sz using l2 by (simp add: lz)
qed

lemma trimmed_mean_between:
  assumes "3 \<le> length xs"
  shows "Min (set xs) \<le> trimmed_mean xs" "trimmed_mean xs \<le> Max (set xs)"
proof -
  have k: "0 < length xs - 2" using assms by simp
  note t = trimmed_sum [of xs]
  show "Min (set xs) \<le> trimmed_mean xs"
    unfolding trimmed_mean_def using t(1) assms k by (simp add: less_eq_div_iff_mult_less_eq mult.commute)
  have "sum_list xs - Max (set xs) - Min (set xs) \<le> (length xs - 2) * Max (set xs)" using t(2) assms by simp
  then have "trimmed_mean xs \<le> (length xs - 2) * Max (set xs) div (length xs - 2)" unfolding trimmed_mean_def by (rule div_le_mono)
  then show "trimmed_mean xs \<le> Max (set xs)" using k by simp
qed

lemma calc_eq:
  "unat (calc_adc_voltage buf) =
     (if length (adc_samples buf) < 4 then 0 else trimmed_mean (adc_samples buf) * 1338 div 4096)"
proof -
  define ys where "ys = takeWhile (\<lambda>s. s \<noteq> 0) (take IMX_ADC_FIFO_MAX buf)"
  have xs: "adc_samples buf = map unat ys" by (simp add: adc_samples_def ys_def)
  have l16: "length ys \<le> 16"
    using length_takeWhile_le [of "\<lambda>s. s \<noteq> 0" "take IMX_ADC_FIFO_MAX buf"] by (simp add: ys_def IMX_ADC_FIFO_MAX_def)
  have v: "calc_adc_voltage buf = (if length ys < 4 then 0
      else drop_bit 12 ((sum_list (map ucast ys) - ucast (Max (insert 0 (set ys))) - ucast (Min (insert 0xFFFF (set ys)))) div of_nat (length ys - 2) * 1338))"
    by (simp add: calc_adc_voltage_def adc_scan_eq ys_def Let_def)
  show ?thesis
  proof (cases "length ys < 4")
    case False
    then have ne: "ys \<noteq> []" by auto
    have "Min (set ys) \<le> 0xFFFF" using unat_le_u16 [of "Min (set ys)"] by (simp add: word_le_nat_alt)
    then have mm: "Max (insert 0 (set ys)) = Max (set ys)" "Min (insert 0xFFFF (set ys)) = Min (set ys)"
      using ne by (simp_all only: Max_insert Min_insert finite_set set_empty min_absorb2 max_def word_zero_le if_True not_False_eq_True)
    define S M m n where "S = sum_list (map unat ys)" and "M = Max (set (map unat ys))" and "m = Min (set (map unat ys))"
      and "n = length ys"
    have s: "unat (sum_list (map ucast ys) :: u32) = S" and sb: "S \<le> n * 65535" using sum_u16 [OF l16] by (simp_all add: S_def n_def)
    have Mm: "unat (ucast (Max (set ys)) :: u32) = M" "unat (ucast (Min (set ys)) :: u32) = m"
      using Max_unat [OF ne] Min_unat [OF ne] by (simp_all add: unat_ucast_u32 M_def m_def)
    have le: "M + m \<le> S" using trimmed_sum(1) [of "map unat ys"] False by (simp add: S_def M_def m_def)
    have n: "4 \<le> n" "n \<le> 16" using False l16 by (simp_all add: n_def)
    have S32: "S < 4294967296" using sb n by simp
    define d where "d = (sum_list (map ucast ys) - ucast (Max (set ys)) - ucast (Min (set ys)) :: u32)"
    have d: "unat d = S - M - m" using s Mm le S32 by (simp add: d_def unat_sub_u32 mod_add_diff)
    have q: "unat (d div of_nat (n - 2)) = (S - M - m) div (n - 2)" 
    proof -
      have "unat (of_nat (n - 2) :: u32) = n - 2" unfolding unat_of_nat by (rule mod_less) (use n in simp)
      then show ?thesis unfolding unat_div d by simp
    qed
    have "(S - M - m) div (n - 2) = trimmed_mean (map unat ys)" by (simp add: trimmed_mean_def S_def M_def m_def n_def)
    moreover have "trimmed_mean (map unat ys) \<le> M" using trimmed_mean_between(2) [of "map unat ys"] n by (simp add: M_def n_def)
    moreover have "M \<le> 65535" using unat_le_u16 [of "Max (set ys)"] Max_unat [OF ne] by (simp add: M_def)
    ultimately have t: "unat (d div of_nat (n - 2)) = trimmed_mean (map unat ys)" "trimmed_mean (map unat ys) < 65536" using q by simp_all
    have "unat (d div of_nat (n - 2) * 1338) = trimmed_mean (map unat ys) * 1338" using t by (simp add: unat_word_ariths)
    then have "unat (drop_bit 12 (d div of_nat (n - 2) * 1338)) = trimmed_mean (map unat ys) * 1338 div 4096"
      by (simp add: drop_bit_eq_div unat_div)
    then show ?thesis using False by (simp add: v xs mm flip: d_def n_def)
  qed (simp add: v xs)
qed

text \<open>Reading out the FIFO fits the array exactly when the FIFO has no more entries than the array.\<close>

lemma adc_drain_eq:
  "adc_drain ws k res = (if k + length ws \<le> length res \<or> ws = []
     then Some (take k res @ map (\<lambda>w. ucast (drop_bit 4 w)) ws @ drop (k + length ws) res) else None)"
proof (induction ws arbitrary: k res)
  case (Cons w ws)
  show ?case
  proof (cases "k < length res")
    case True
    then have "take (k + 1) (res[k := x]) = take k res @ [x]" "drop (k + 1 + n) (res[k := x]) = drop (k + 1 + n) res" for x n
      by (simp_all add: take_Suc_conv_app_nth)
    then show ?thesis using True by (auto simp: store_def Cons GCQFIFO_ADCOUT_SHIFT_def)
  qed (simp add: store_def)
qed simp

section \<open>Measuring\<close>

lemma adc_module_init_eq:
  "\<exists>b'. hfc_adc_module_init b = (0, b') \<and> hfc_adc_ready b' = 1 \<and> spi0_dev b' = spi0_dev b \<and> adc_buf b' = adc_buf b
     \<and> calls b' = calls b \<and> hc595_state b' = hc595_state b \<and> misc_init b' = misc_init b"
  by (simp add: hfc_adc_module_init_def hfc_adc_init_def enable_adc_clock_def Let_def)

lemma board_eqD: "board_eq b b' \<Longrightarrow> adc_buf b' = adc_buf b \<and> hfc_adc_ready b' = hfc_adc_ready b \<and> misc_init b' = misc_init b"
  unfolding board_eq_def by (cases b, cases b') simp

text \<open>The samples stored by a conversion into the cleared array.\<close>

definition converted :: "u32 list \<Rightarrow> u16 list" where
  "converted fifo = map (\<lambda>w. ucast (drop_bit 4 w)) fifo @ replicate (16 - length fifo) 0"

lemma convert_eq:
  assumes "adc_buf b = replicate 16 0"
  shows "length fifo \<le> 16 \<Longrightarrow> \<exists>b'. imx_adc_convert fifo b = Some (0, b') \<and> adc_buf b' = converted fifo \<and> spi0_dev b' = spi0_dev b"
    "16 < length fifo \<Longrightarrow> imx_adc_convert fifo b = None"
  using assms by (auto simp: imx_adc_convert_def adc_read_general_def Let_def adc_drain_eq converted_def)

lemma li_rtc_ready:
  assumes "spi_ready (spi0_dev b)"
  shows "\<exists>b'. hfc_li_rtc_control ipg rx ch val b = Some b' \<and> spi_ready (spi0_dev b') \<and> board_eq b b'"
proof (cases "ch = 0")
  case False
  obtain st where "hc595_update HC595_RTC_ADEN val (hc595_state b) = Some st"
    using hc595.put_defined [of HC595_RTC_ADEN val "hc595_state b"] by (auto simp: hc_consts)
  then show ?thesis using output_ready [OF assms] False by (fastforce simp: hfc_li_rtc_control_def)
qed (use assms in \<open>simp add: hfc_li_rtc_control_def hfc_libat_measure_control_def emit_def board_eq_def\<close>)

text \<open>A measurement runs to its end exactly when the FIFO holds no more samples than the array.\<close>

lemma bat_voltage_eq:
  assumes "spi_ready (spi0_dev b)"
  shows "if length fifo \<le> 16
     then \<exists>b'. get_bat_voltage ipg rx fifo index b = Some (sint (calc_adc_voltage (converted fifo)), b')
       \<and> batVoltage b' = calc_adc_voltage (converted fifo) \<and> spi_ready (spi0_dev b')
     else get_bat_voltage ipg rx fifo index b = None"
proof -
  obtain b0 where b0: "hfc_adc_module_init b = (0, b0)" "hfc_adc_ready b0 = 1" "spi0_dev b0 = spi0_dev b"
    using adc_module_init_eq by blast
  define c0 where "c0 = b0\<lparr>adc_buf := replicate IMX_ADC_FIFO_MAX 0\<rparr>"
  have c0: "spi_ready (spi0_dev c0)" "adc_buf c0 = replicate 16 0" using assms b0(3) by (simp_all add: c0_def IMX_ADC_FIFO_MAX_def)
  obtain c1 where c1: "HC4051_opertions ipg rx (of_int index) c0 = Some c1" "spi_ready (spi0_dev c1)" "board_eq c0 c1"
    using select_channel [OF c0(1)] by blast
  obtain c2 where c2: "hfc_li_rtc_control ipg rx index 1 c1 = Some c2" "spi_ready (spi0_dev c2)" "board_eq c1 c2"
    using li_rtc_ready [OF c1(2)] by blast
  obtain c3 where c3: "hfc_li_rtc_control ipg rx index 0 c2 = Some c3" "spi_ready (spi0_dev c3)" "board_eq c2 c3"
    using li_rtc_ready [OF c2(2)] by blast
  have buf: "adc_buf c3 = replicate 16 0" using c0(2) c1(3) c2(3) c3(3) by (simp add: board_eqD)
  note run = get_bat_voltage_def b0(1,2) c1(1) c2(1) c3(1) c0_def [symmetric] Let_def
  show ?thesis
  proof (cases "length fifo \<le> 16")
    case True
    obtain c4 where c4: "imx_adc_convert fifo c3 = Some (0, c4)" "spi_ready (spi0_dev c4)" "adc_buf c4 = converted fifo"
      using convert_eq(1) [OF buf True] c3(2) by auto
    obtain c5 where "hfc_li_rtc_control ipg rx index 1 c4 = Some c5" "spi_ready (spi0_dev c5)" "board_eq c4 c5"
      using li_rtc_ready [OF c4(2)] by blast
    then show ?thesis using True c4 by (simp add: run board_eqD)
  qed (simp add: run convert_eq(2) [OF buf])
qed

text \<open>A measured voltage is at most 21407, so the unsigned value and the \<open>int\<close> agree.\<close>

lemma voltage_range:
  "sint (calc_adc_voltage (converted fifo)) = uint (calc_adc_voltage (converted fifo))"
  "uint (calc_adc_voltage (converted fifo)) \<le> 21407"
proof -
  define v where "v = calc_adc_voltage (converted fifo)"
  have "unat v \<le> 21407"
  proof (cases "length (adc_samples (converted fifo)) < 4")
    case False
    then have ne: "adc_samples (converted fifo) \<noteq> []" by auto
    have "Max (set (adc_samples (converted fifo))) \<in> set (adc_samples (converted fifo))" using ne by (intro Max_in) auto
    then have "Max (set (adc_samples (converted fifo))) \<le> 65535" using unat_le_u16 by (auto simp: adc_samples_def)
    then have "trimmed_mean (adc_samples (converted fifo)) \<le> 65535" using trimmed_mean_between(2) [of "adc_samples (converted fifo)"] False by simp
    then have "trimmed_mean (adc_samples (converted fifo)) * 1338 div 4096 \<le> 65535 * 1338 div 4096" by (intro div_le_mono mult_le_mono1)
    then show ?thesis using False by (simp add: v_def calc_eq)
  qed (simp add: v_def calc_eq)
  then have u: "uint v \<le> 21407" "0 \<le> uint v" using of_nat_unat [of v, where ?'a = int] by linarith+
  then have "sint v = uint v" unfolding sint_uint by (intro signed_take_bit_int_eq_self; simp; linarith)
  then show "sint (calc_adc_voltage (converted fifo)) = uint (calc_adc_voltage (converted fifo))"
    "uint (calc_adc_voltage (converted fifo)) \<le> 21407" using u by (simp_all add: v_def)
qed

section \<open>Properties\<close>

text \<open>C29 (hc595_output_line): with the SPI device ready, writing 0 or 1 to one of the 32 output lines changes that line of the
  shadow register and no other, lowers the latch, sends exactly one SPI word, the new shadow register, raises and lowers
  the latch again, and leaves the device ready for the next write.\<close>

theorem hc595_output_line:
  assumes "spi_ready (spi0_dev b)" and "0 \<le> num" and "num < 32" and "value = 0 \<or> value = 1"
  shows "\<exists>b'. gpio_set_hc595_output ipg rx num value b = Some b'
     \<and> (\<forall>i<32. bit (hc595_state b') i \<longleftrightarrow> (if i = nat num then value = 1 else bit (hc595_state b) i))
     \<and> calls b' = calls b @ [mxc_set_gpio_dataout MX25_PIN_CSPI1_RDY 0, spi_frame [hc595_state b'],
         mxc_set_gpio_dataout MX25_PIN_CSPI1_RDY 1, mxc_set_gpio_dataout MX25_PIN_CSPI1_RDY 0]
     \<and> spi_ready (spi0_dev b')"
proof -
  obtain st where st: "hc595_update num value (hc595_state b) = Some st" using hc595.put_defined assms(2,3) by (metis of_nat_numeral)
  have "bit st i \<longleftrightarrow> (if i = nat num then value = 1 else bit (hc595_state b) i)" if "i < 32" for i
    using hc595.put_line [OF st _ that] assms(4) by auto
  then show ?thesis using output_ready [OF assms(1) st, of ipg rx] by auto
qed

definition board_on :: board where
  "board_on = \<lparr>hc595_state = 5, spi0_dev = \<lparr>spi_master = True, max_speed_hz = 8000000, chip_select = 0, spi_mode = 0, bits_per_word = 0\<rparr>,
     spi0_hw = \<lparr>CSPICTRL = 3, CSPIINT = 0, CSPIPERIOD = 0, at_base = 1, CCM_CGR1 = 0, txfifo = []\<rparr>, TGCR = 0, CCM_14 = 0, GCQCR = 0,
     GCQSR = 0, GCC0 = 0, hfc_adc_ready = 0, adc_buf = replicate 16 0, batVoltage = 0, misc_init = 0, calls = []\<rparr>"

lemma board_on_ready: "spi_ready (spi0_dev board_on)"
  by (simp add: board_on_def spi_ready_def)

theorem hc595_output_line_witness:
  "\<exists>b'. gpio_set_hc595_output 66500000 (\<lambda>_. 0) 7 1 board_on = Some b'
     \<and> (\<forall>i<32. bit (hc595_state b') i \<longleftrightarrow> (if i = nat 7 then (1 :: int) = 1 else bit (hc595_state board_on) i))
     \<and> calls b' = calls board_on @ [mxc_set_gpio_dataout MX25_PIN_CSPI1_RDY 0, spi_frame [hc595_state b'],
         mxc_set_gpio_dataout MX25_PIN_CSPI1_RDY 1, mxc_set_gpio_dataout MX25_PIN_CSPI1_RDY 0]
     \<and> spi_ready (spi0_dev b')"
  by (rule hc595_output_line [OF board_on_ready]) simp_all

text \<open>C24 (adc_trimmed_mean): the voltage computed from the sample array. The samples are those before the first zero, at most sixteen.
  With fewer than four the result is 0; otherwise it is the mean of the samples without one largest and one smallest,
  rounded down, times 1338, divided by 4096. No step wraps around, and the mean lies between the smallest and the largest
  sample.\<close>

theorem adc_trimmed_mean:
  "unat (calc_adc_voltage buf) =
     (if length (adc_samples buf) < 4 then 0 else trimmed_mean (adc_samples buf) * 1338 div 4096)
   \<and> (length (adc_samples buf) < 4 \<or> Min (set (adc_samples buf)) \<le> trimmed_mean (adc_samples buf)
        \<and> trimmed_mean (adc_samples buf) \<le> Max (set (adc_samples buf)))"
  using trimmed_mean_between [of "adc_samples buf"] by (auto simp: calc_eq)

text \<open>C25 (bat_voltage_bounds): with the SPI device ready, a battery measurement is defined exactly when the converter delivers at most
  sixteen words: \<open>adc_read_general\<close> stores every word the FIFO holds without looking at the length of the array. When
  it is defined it returns the voltage of the stored samples, between 0 and 21407.\<close>

theorem bat_voltage_bounds:
  assumes "spi_ready (spi0_dev b)"
  shows "case get_bat_voltage ipg rx fifo index b of
       None \<Rightarrow> 16 < length fifo
     | Some (v, b') \<Rightarrow> length fifo \<le> 16 \<and> v = uint (calc_adc_voltage (converted fifo)) \<and> 0 \<le> v \<and> v \<le> 21407
         \<and> batVoltage b' = calc_adc_voltage (converted fifo) \<and> spi_ready (spi0_dev b')"
  using bat_voltage_eq [OF assms, of fifo ipg rx index] voltage_range [of fifo] by (auto split: if_splits)

theorem bat_voltage_bounds_witness:
  "case get_bat_voltage 66500000 (\<lambda>_. 0) [0xc350, 0xc360, 0xc340, 0xc350, 0xc350] 0 board_on of
       None \<Rightarrow> 16 < length [0xc350, 0xc360, 0xc340, 0xc350, 0xc350 :: u32]
     | Some (v, b') \<Rightarrow> length [0xc350, 0xc360, 0xc340, 0xc350, 0xc350 :: u32] \<le> 16
         \<and> v = uint (calc_adc_voltage (converted [0xc350, 0xc360, 0xc340, 0xc350, 0xc350])) \<and> 0 \<le> v \<and> v \<le> 21407
         \<and> batVoltage b' = calc_adc_voltage (converted [0xc350, 0xc360, 0xc340, 0xc350, 0xc350]) \<and> spi_ready (spi0_dev b')"
  by (rule bat_voltage_bounds [OF board_on_ready])

text \<open>(misc_no_argument): the command \<open>misc\<close> without an argument is undefined in every state: \<open>do_misc\<close> compares
  \<open>argv[1]\<close>, the null pointer, before it looks at \<open>argc\<close>.\<close>

theorem misc_no_argument: "do_misc ipg rx fifo m 1 [Some p, None] b = None"
  by (simp add: do_misc_def arg_is_def load_def)

end
