(* ===== verification/Timer.thy ===== *)
theory Timer
  imports Irq Board_Proofs
begin

unbundle bit_operations_syntax

text \<open>
  hfc_app/hfc_irq: the second general purpose timer, whose interrupt handler makes the tick of the boot loop, and the
  command that starts and stops it. The registers of the timer (each with the value last written to it) and the file's
  globals are the record \<open>gpt\<close>; the handlers the program installs are the datatype \<open>isr\<close>. Delays and console output
  have no effect on the state.
\<close>

section \<open>State\<close>

record gpt =
  GPTCR :: u32
  GPTPR :: u32
  GPTSR :: u32
  GPTIR :: u32
  GPTOCR1 :: u32
  timer_base :: u32
  time_tick :: u32

datatype isr = Gpt2_irq_handler | Mxc_spi_isr

section \<open>Operations\<close>

definition gpt2_irq_handler :: "gpt \<Rightarrow> gpt" where
  "gpt2_irq_handler g =
     (let g = g\<lparr>GPTCR := GPTCR g AND NOT 0x01\<rparr>;
          g = g\<lparr>GPTSR := 0x3F\<rparr>;
          g = g\<lparr>timer_base := timer_base g + 1\<rparr>;
          g = (if 10 < timer_base g then g\<lparr>timer_base := 0, time_tick := 1\<rparr> else g)
      in g\<lparr>GPTCR := GPTCR g OR 0x01\<rparr>)"

text \<open>What a handler does to the timer; the SPI handler does not touch it.\<close>

definition run_isr :: "isr \<Rightarrow> gpt \<Rightarrow> gpt" where
  "run_isr h = (case h of Gpt2_irq_handler \<Rightarrow> gpt2_irq_handler | Mxc_spi_isr \<Rightarrow> id)"

definition lit_gpt2 :: mem where "lit_gpt2 = [103, 112, 116, 50, 0]"

definition gpt2_init :: "isr avic \<times> gpt \<Rightarrow> (int \<times> isr avic \<times> gpt) option" where
  "gpt2_init = (\<lambda>(ic, g).
     let g = g\<lparr>GPTPR := 3600 - 1\<rparr>;
         g = g\<lparr>GPTCR := push_bit 6 2\<rparr>;
         g = g\<lparr>GPTIR := push_bit 0 1\<rparr>;
         g = g\<lparr>GPTOCR1 := 25\<rparr> in
     do { (ret, ic) \<leftarrow> irq_request MXC_INT_GPT2 (Some Gpt2_irq_handler) (Some lit_gpt2) ic;
          let g = g\<lparr>GPTCR := GPTCR g OR 0x01\<rparr> in
          Some (ret, ic, g) })"

text \<open>As written: the register that is changed is the prescaler.\<close>

definition gpt2_finished :: "isr avic \<times> gpt \<Rightarrow> (isr avic \<times> gpt) option" where
  "gpt2_finished = (\<lambda>(ic, g).
     let g = g\<lparr>GPTPR := GPTPR g AND NOT 0x01\<rparr> in
     do { (ret, ic) \<leftarrow> irq_request_free MXC_INT_GPT2 ic; Some (ic, g) })"

definition lit_list :: mem where "lit_list = [108, 105, 115, 116, 0]"
definition lit_timeron :: mem where "lit_timeron = [116, 105, 109, 101, 114, 111, 110, 0]"
definition lit_timeroff :: mem where "lit_timeroff = [116, 105, 109, 101, 114, 111, 102, 102, 0]"

definition do_irq_test :: "mem \<Rightarrow> nat option list \<Rightarrow> isr avic \<times> gpt \<Rightarrow> (int \<times> isr avic \<times> gpt) option" where
  "do_irq_test m argv w =
     do { lst \<leftarrow> arg_is m argv 1 lit_list 4;
          if lst then Some (0, w)
          else do {
            on \<leftarrow> arg_is m argv 1 lit_timeron 7;
            if on then do { (ret, w) \<leftarrow> gpt2_init w; Some (0, w) }
            else do {
              off \<leftarrow> arg_is m argv 1 lit_timeroff 8;
              if off then do { w \<leftarrow> gpt2_finished w; Some (0, w) } else Some (0, w) } } }"

section \<open>The tick\<close>

text \<open>
  The timer runs when its enable bit is set. The period is eleven interrupts: the handler compares after it has counted.
\<close>

definition gpt_ok :: "gpt \<Rightarrow> bool" where
  "gpt_ok g \<longleftrightarrow> bit (GPTCR g) 0 \<and> timer_base g \<le> 10 \<and> time_tick g \<le> 1"

lemma base_step:
  assumes "timer_base g \<le> 10"
  shows "timer_base (gpt2_irq_handler g) = (if timer_base g = 10 then 0 else timer_base g + 1)"
    "time_tick (gpt2_irq_handler g) = (if timer_base g = 10 then 1 else time_tick g)"
    "unat (timer_base (gpt2_irq_handler g)) = (if unat (timer_base g) = 10 then 0 else unat (timer_base g) + 1)"
proof -
  have u: "unat (timer_base g) \<le> 10" using assms by (simp add: word_le_nat_alt)
  then have a: "unat (timer_base g + 1) = unat (timer_base g) + 1" by (simp add: unat_add_u32)
  have e: "timer_base g = 10 \<longleftrightarrow> unat (timer_base g) = 10" by (simp add: word_unat_eq_iff)
  have l: "10 < timer_base g + 1 \<longleftrightarrow> timer_base g = 10" unfolding e word_less_nat_alt a using u by auto
  show "timer_base (gpt2_irq_handler g) = (if timer_base g = 10 then 0 else timer_base g + 1)"
    "time_tick (gpt2_irq_handler g) = (if timer_base g = 10 then 1 else time_tick g)"
    by (simp_all add: gpt2_irq_handler_def Let_def l)
  then show "unat (timer_base (gpt2_irq_handler g)) = (if unat (timer_base g) = 10 then 0 else unat (timer_base g) + 1)"
    using a e by simp
qed

lemma handler_ok: "gpt_ok g \<Longrightarrow> gpt_ok (gpt2_irq_handler g)"
  using base_step [of g] by (auto simp: gpt_ok_def word_le_nat_alt gpt2_irq_handler_def Let_def bit_or_iff)

lemma handler_run:
  assumes "timer_base g \<le> 10"
  shows "timer_base ((gpt2_irq_handler ^^ n) g) \<le> 10 \<and> unat (timer_base ((gpt2_irq_handler ^^ n) g)) = (unat (timer_base g) + n) mod 11
     \<and> time_tick ((gpt2_irq_handler ^^ n) g) = (if 11 \<le> unat (timer_base g) + n then 1 else time_tick g)"
proof (induction n)
  case 0
  then show ?case using assms by (simp add: word_le_nat_alt)
next
  case (Suc n)
  define h where "h = (gpt2_irq_handler ^^ n) g"
  have h: "timer_base h \<le> 10" "unat (timer_base h) = (unat (timer_base g) + n) mod 11"
    "time_tick h = (if 11 \<le> unat (timer_base g) + n then 1 else time_tick g)" using Suc by (simp_all add: h_def)
  have u: "unat (timer_base g) \<le> 10" using assms by (simp add: word_le_nat_alt)
  have e: "timer_base h = 10 \<longleftrightarrow> unat (timer_base h) = 10" by (simp add: word_unat_eq_iff)
  have 1: "unat (timer_base (gpt2_irq_handler h)) = (unat (timer_base g) + Suc n) mod 11"
    unfolding base_step(3) [OF h(1)] h(2) by (simp add: mod_Suc)
  moreover have "timer_base (gpt2_irq_handler h) \<le> 10" using 1 by (simp add: word_le_nat_alt)
  moreover have "(unat (timer_base g) + n) mod 11 = 10 \<Longrightarrow> 11 \<le> unat (timer_base g) + Suc n"
    using mod_less_eq_dividend [of "unat (timer_base g) + n" 11] by linarith
  moreover have "11 \<le> unat (timer_base g) + Suc n \<Longrightarrow> \<not> 11 \<le> unat (timer_base g) + n \<Longrightarrow> (unat (timer_base g) + n) mod 11 = 10"
    by (rule mod_less [THEN trans]) auto
  ultimately show ?case
    using base_step(2) [OF h(1)] h(2,3) e by (auto simp flip: h_def)
qed

section \<open>Starting and stopping\<close>

lemma name_gpt2: "name_ok (Some lit_gpt2)"
  by (auto simp: name_ok_def lit_gpt2_def cstr_iff intro!: exI [of _ "[103, 112, 116, 50]"])

lemma gpt2_init_eq:
  assumes "irq_wf ic" and "handlers ic 53 = None"
  shows "\<exists>ic'. gpt2_init (ic, g) = Some (0, ic', g\<lparr>GPTCR := 0x81, GPTPR := 3599, GPTIR := 1, GPTOCR1 := 25\<rparr>)
     \<and> irq_wf ic' \<and> handlers ic' = (handlers ic)(53 \<mapsto> Gpt2_irq_handler) \<and> bit (cpsr ic') 7 = bit (cpsr ic) 7"
proof -
  obtain ic' where "irq_request MXC_INT_GPT2 (Some Gpt2_irq_handler) (Some lit_gpt2) ic = Some (0, ic')" "irq_wf ic'"
    "handlers ic' = (handlers ic)(53 \<mapsto> Gpt2_irq_handler)" "bit (cpsr ic') 7 = bit (cpsr ic) 7"
    using avic_irq.request_installs [OF assms(1) name_gpt2, of MXC_INT_GPT2 Gpt2_irq_handler] assms(2) by (auto simp: irq_consts)
  then show ?thesis by (simp add: gpt2_init_def Let_def)
qed

lemma dispatch_gpt2:
  assumes "irq_wf ic" and "handlers ic 53 = Some Gpt2_irq_handler"
  shows "do_irq run_isr (push_bit 16 MXC_INT_GPT2) ic g = Some (gpt2_irq_handler g)"
  using dispatch_eq [OF assms(1), of run_isr "push_bit 16 MXC_INT_GPT2" g] assms(2) by (simp add: run_isr_def irq_consts)

section \<open>Properties\<close>

definition gpt_reset :: gpt where
  "gpt_reset = \<lparr>GPTCR = 0, GPTPR = 0, GPTSR = 0, GPTIR = 0, GPTOCR1 = 0, timer_base = 0, time_tick = 0\<rparr>"

text \<open>(hfc_irq.c, \<open>gpt2_irq_handler\<close>). After n interrupts the count is n modulo eleven, from where it stood, and
  the tick is set exactly when eleven have been counted: the tick the boot loop takes for ten milliseconds comes every
  eleven interrupts of one millisecond.\<close>

theorem timer_tick_period:
  assumes "timer_base g \<le> 10"
  shows "unat (timer_base ((gpt2_irq_handler ^^ n) g)) = (unat (timer_base g) + n) mod 11
     \<and> time_tick ((gpt2_irq_handler ^^ n) g) = (if 11 \<le> unat (timer_base g) + n then 1 else time_tick g)"
  using handler_run [OF assms] by blast

theorem timer_tick_period_witness:
  "unat (timer_base ((gpt2_irq_handler ^^ 10) gpt_reset)) = (unat (timer_base gpt_reset) + 10) mod 11
     \<and> time_tick ((gpt2_irq_handler ^^ 10) gpt_reset) = (if 11 \<le> unat (timer_base gpt_reset) + 10 then 1 else time_tick gpt_reset)"
  by (rule timer_tick_period) (simp add: gpt_reset_def)

text \<open>(hfc_irq.c, \<open>gpt2_init\<close> and \<open>gpt2_finished\<close>). With the interrupt free, starting the timer succeeds and its
  interrupt runs the handler. Stopping it takes the handler out and masks the interrupt again, but the timer's enable
  bit stays set: the function clears bit 0 of the prescaler instead, which leaves 3598 there.\<close>

theorem gpt2_start_stop:
  assumes "irq_wf ic" and "handlers ic 53 = None"
  shows "\<exists>ic' g' ic''. gpt2_init (ic, g) = Some (0, ic', g') \<and> GPTCR g' = 0x81 \<and> GPTPR g' = 3599 \<and> irq_wf ic' \<and> enabled ic' 53
     \<and> do_irq run_isr (push_bit 16 MXC_INT_GPT2) ic' g' = Some (gpt2_irq_handler g')
     \<and> gpt2_finished (ic', g') = Some (ic'', g'\<lparr>GPTPR := 3598\<rparr>) \<and> irq_wf ic'' \<and> handlers ic'' = handlers ic \<and> \<not> enabled ic'' 53"
proof -
  define g' where "g' = g\<lparr>GPTCR := 0x81, GPTPR := 3599, GPTIR := 1, GPTOCR1 := 25\<rparr>"
  obtain ic' where 1: "gpt2_init (ic, g) = Some (0, ic', g')" "irq_wf ic'" "handlers ic' = (handlers ic)(53 \<mapsto> Gpt2_irq_handler)"
    using gpt2_init_eq [OF assms] unfolding g'_def by blast
  have keep: "(handlers ic)(53 := None) = handlers ic" using assms(2) by (simp add: fun_upd_idem)
  obtain ic'' where 2: "irq_request_free MXC_INT_GPT2 ic' = Some (0, ic'')" "irq_wf ic''" "handlers ic'' = handlers ic"
    using free_refines [OF 1(2), of MXC_INT_GPT2] 1(3) keep by (auto simp: irq_consts afree_def)
  have "enabled ic' 53" "\<not> enabled ic'' 53" using 1(2,3) 2(2,3) assms(2) by (simp_all add: irq_wf_def)
  moreover have "gpt2_finished (ic', g') = Some (ic'', g'\<lparr>GPTPR := 3598\<rparr>)" using 2(1) by (simp add: gpt2_finished_def g'_def)
  moreover have "do_irq run_isr (push_bit 16 MXC_INT_GPT2) ic' g' = Some (gpt2_irq_handler g')" using dispatch_gpt2 [OF 1(2)] 1(3) by simp
  moreover have "GPTCR g' = 0x81" "GPTPR g' = 3599" by (simp_all add: g'_def)
  ultimately show ?thesis using 1(1,2) 2(2,3) by blast
qed

theorem gpt2_start_stop_witness:
  "\<exists>ic ic' g' ic''. arch_interrupt_init avic_boot = Some (0, ic)
     \<and> gpt2_init (ic, gpt_reset) = Some (0, ic', g') \<and> GPTCR g' = 0x81 \<and> GPTPR g' = 3599 \<and> irq_wf ic' \<and> enabled ic' 53
     \<and> do_irq run_isr (push_bit 16 MXC_INT_GPT2) ic' g' = Some (gpt2_irq_handler g')
     \<and> gpt2_finished (ic', g') = Some (ic'', g'\<lparr>GPTPR := 3598\<rparr>) \<and> irq_wf ic'' \<and> handlers ic'' = handlers ic \<and> \<not> enabled ic'' 53"
proof -
  obtain ic :: "isr avic" where ic: "arch_interrupt_init avic_boot = Some (0, ic)" "irq_wf ic" "handlers ic = Map.empty"
    using init_wf [OF avic_boot_static] by blast
  then have "handlers ic 53 = None" by simp
  from gpt2_start_stop [OF ic(2) this, of gpt_reset] ic(1) show ?thesis by blast
qed

end
