(* ===== verification/Lcd.thy ===== *)
theory Lcd
  imports Board_Proofs Lcd_Font "HOL-Library.Signed_Division"
begin

unbundle bit_operations_syntax

text \<open>
  hfc_app/hfc_lcd: drawing into the frame buffer, the text and battery pictures, the backlight and the controller's
  initialisation over SPI, and the \<open>lcd\<close> command. The frame buffers are lists of 16-bit pixels; a write outside is
  undefined. The pin and clock setup (\<open>tft_gpio_init\<close>, \<open>tft_clock_init\<close>) is recorded as a call.
\<close>

section \<open>State\<close>

definition LCD_XSIZE_TFT :: nat where "LCD_XSIZE_TFT = 240"
definition LCD_YSIZE_TFT :: nat where "LCD_YSIZE_TFT = 320"
definition LCD_GW_XSIZE_TFT :: nat where "LCD_GW_XSIZE_TFT = 240"
definition LCD_GW_YSIZE_TFT :: nat where "LCD_GW_YSIZE_TFT = 200"
definition BAT_CLR_COLOR_TFT :: u16 where "BAT_CLR_COLOR_TFT = 0x0"
definition BAT_FIL_COLOR_TFT :: u16 where "BAT_FIL_COLOR_TFT = 0xdd"
definition BAT_IMG_COLOR_TFT :: u16 where "BAT_IMG_COLOR_TFT = 0x400"

lemmas lcd_consts = LCD_XSIZE_TFT_def LCD_YSIZE_TFT_def LCD_GW_XSIZE_TFT_def LCD_GW_YSIZE_TFT_def
  BAT_CLR_COLOR_TFT_def BAT_FIL_COLOR_TFT_def BAT_IMG_COLOR_TFT_def

type_synonym frame = "u16 list"

record lcd =
  brd :: board
  fb :: frame
  gwfb :: frame
  LPCCR :: u32
  LGWCR :: u32
  tft_spi :: bool
  lcd_init :: int

section \<open>Pixels (lcd_base.c)\<close>

text \<open>The comparisons are as written: the row with the width and the column with the height.\<close>

definition set_pixel :: "u32 \<Rightarrow> u32 \<Rightarrow> u16 \<Rightarrow> frame \<Rightarrow> frame option" where
  "set_pixel x y color f =
     (if unat y < LCD_XSIZE_TFT \<and> unat x < LCD_YSIZE_TFT then store f (unat y * LCD_XSIZE_TFT + unat x) color else Some f)"

definition tft_set_point :: "u16 \<Rightarrow> int \<Rightarrow> frame \<Rightarrow> frame option" where
  "tft_set_point color location f =
     (if location < int (LCD_XSIZE_TFT * LCD_YSIZE_TFT) then if location < 0 then None else store f (nat location) color else Some f)"

definition tft_refresh_screan :: "u16 \<Rightarrow> frame \<Rightarrow> frame option" where
  "tft_refresh_screan color f = foldM (\<lambda>i f. store f i color) [0..<LCD_XSIZE_TFT * LCD_YSIZE_TFT] f"

definition tft_gw_refresh_screan :: "u16 \<Rightarrow> frame \<Rightarrow> frame option" where
  "tft_gw_refresh_screan color f = foldM (\<lambda>i f. store f i color) [0..<LCD_GW_XSIZE_TFT * LCD_GW_YSIZE_TFT] f"

definition fill_frame_buffer :: "int \<Rightarrow> int \<Rightarrow> int \<Rightarrow> int \<Rightarrow> u16 \<Rightarrow> frame \<Rightarrow> frame option" where
  "fill_frame_buffer x0 y0 x1 y1 color f =
     foldM (\<lambda>j f. foldM (\<lambda>i f. set_pixel (of_int i) (of_int j) color f) [x0..x1 - 1] f) [y0..y1 - 1] f"

section \<open>Text\<close>

definition disp_row_nr :: "u32 \<Rightarrow> u32 \<Rightarrow> u16 \<Rightarrow> byte \<Rightarrow> nat \<Rightarrow> frame \<Rightarrow> frame option" where
  "disp_row_nr x y c coldat nr f =
     foldM (\<lambda>i f. if coldat AND drop_bit i 0x80 \<noteq> 0 then set_pixel (x + of_nat i) y c f else Some f) [0..<nr] f"

text \<open>\<open>ASCII24[k]\<close> for an \<open>int\<close> index.\<close>

definition font_byte :: "int \<Rightarrow> byte option" where
  "font_byte k = (if k < 0 then None else load ASCII24 (nat k))"

definition draw_row :: "u32 \<Rightarrow> u32 \<Rightarrow> u16 \<Rightarrow> int \<Rightarrow> nat \<Rightarrow> frame \<Rightarrow> frame option" where
  "draw_row x y color n i f =
     do { bits \<leftarrow> font_byte (n + int i * 2);
          f \<leftarrow> disp_row_nr x (y + of_nat i) color bits 8 f;
          bits \<leftarrow> font_byte (n + int i * 2 + 1);
          disp_row_nr (x + 8) (y + of_nat i) color bits 4 f }"

fun drawchars_24x12 :: "u32 \<Rightarrow> u32 \<Rightarrow> u16 \<Rightarrow> mem \<Rightarrow> nat \<Rightarrow> nat \<Rightarrow> frame \<Rightarrow> frame option" where
  "drawchars_24x12 x y color m str 0 f = Some f"
| "drawchars_24x12 x y color m str (Suc count) f =
     do { c \<leftarrow> load m str;
          f \<leftarrow> foldM (draw_row x y color ((uint c - 0x20) * 48)) [0..<24] f;
          drawchars_24x12 (x + 12) y color m (str + 1) count f }"

definition lcd_put_strings :: "u32 \<Rightarrow> u32 \<Rightarrow> u16 \<Rightarrow> mem \<Rightarrow> nat \<Rightarrow> frame \<Rightarrow> frame option" where
  "lcd_put_strings x y color m str f = do { n \<leftarrow> strlen m str; drawchars_24x12 x y color m str n f }"

text \<open>The format of \<open>lcd_display_voltage\<close>, and the function; \<open>junk\<close> is what its buffer of 16 bytes holds before.\<close>

definition voltage_fmt :: mem where
  "voltage_fmt = [86, 111, 108, 116, 97, 103, 101, 58, 37, 100, 46, 37, 48, 49, 100, 86, 0]"

definition voltage_text :: "mem \<Rightarrow> int \<Rightarrow> mem option" where
  "voltage_text junk volt =
     do { (n, buf, st) \<leftarrow> vsprintf junk voltage_fmt 0 [V32 (of_int (volt sdiv 100)), V32 (of_int ((volt smod 100) sdiv 10))]; Some buf }"

definition lcd_display_voltage :: "mem \<Rightarrow> int \<Rightarrow> frame \<Rightarrow> frame option" where
  "lcd_display_voltage junk volt f =
     do { buf \<leftarrow> voltage_text junk volt;
          f \<leftarrow> fill_frame_buffer 142 100 185 130 0 f;
          lcd_put_strings 52 100 0xff00 buf 0 f }"

section \<open>The battery picture\<close>

definition tft_fill_battery_img :: "frame \<Rightarrow> frame option" where
  "tft_fill_battery_img f =
     do { f \<leftarrow> fill_frame_buffer 69 133 175 139 BAT_IMG_COLOR_TFT f;
          f \<leftarrow> fill_frame_buffer 69 181 175 187 BAT_IMG_COLOR_TFT f;
          f \<leftarrow> fill_frame_buffer 65 145 69 175 BAT_IMG_COLOR_TFT f;
          f \<leftarrow> fill_frame_buffer 69 139 75 181 BAT_IMG_COLOR_TFT f;
          f \<leftarrow> fill_frame_buffer 169 139 175 151 BAT_IMG_COLOR_TFT f;
          fill_frame_buffer 169 169 175 181 BAT_IMG_COLOR_TFT f }"

definition tft_display_battery_icon :: "byte \<Rightarrow> frame \<Rightarrow> frame option" where
  "tft_display_battery_icon icon f =
     (if icon \<in> {1, 2, 3, 4}
      then do { f \<leftarrow> (if icon = 4 \<or> icon = 3 then fill_frame_buffer 77 141 106 179 BAT_FIL_COLOR_TFT f else Some f);
                f \<leftarrow> (if icon \<noteq> 1 then fill_frame_buffer 107 141 136 179 BAT_FIL_COLOR_TFT f else Some f);
                fill_frame_buffer 137 141 167 179 BAT_FIL_COLOR_TFT f }
      else fill_frame_buffer 77 141 167 179 BAT_CLR_COLOR_TFT f)"

section \<open>Backlight and graphic window (lcd_hw.c)\<close>

definition tft_backlight_brightness :: "byte \<Rightarrow> lcd \<Rightarrow> lcd" where
  "tft_backlight_brightness level l = l\<lparr>LPCCR := 0x00A90300 OR ucast level\<rparr>"

definition tft_backlight_on :: "lcd \<Rightarrow> lcd" where "tft_backlight_on = tft_backlight_brightness 127"
definition tft_backlight_off :: "lcd \<Rightarrow> lcd" where "tft_backlight_off = tft_backlight_brightness 1"

definition tft_backlight_open :: "lcd \<Rightarrow> lcd" where
  "tft_backlight_open l = (let regVal = LPCCR l in (tft_backlight_brightness 1 l)\<lparr>LPCCR := regVal OR push_bit 8 0x01\<rparr>)"

definition tft_backlight_close :: "lcd \<Rightarrow> lcd" where
  "tft_backlight_close l = (let regVal = LPCCR l in (tft_backlight_brightness 1 l)\<lparr>LPCCR := regVal AND NOT (push_bit 8 0x01)\<rparr>)"

definition tft_gw_open :: "lcd \<Rightarrow> lcd" where "tft_gw_open l = l\<lparr>LGWCR := LGWCR l OR 0xff400000\<rparr>"
definition tft_gw_close :: "lcd \<Rightarrow> lcd" where "tft_gw_close l = l\<lparr>LGWCR := LGWCR l AND NOT 0x400000\<rparr>"

section \<open>The display controller\<close>

definition on_board :: "(board \<Rightarrow> board) \<Rightarrow> lcd \<Rightarrow> lcd" where
  "on_board g l = l\<lparr>brd := g (brd l)\<rparr>"

definition lcd_reset_pin_init :: "lcd \<Rightarrow> lcd" where
  "lcd_reset_pin_init = on_board (emit [mxc_request_iomux_ALT5 MX25_PIN_UART1_CTS, mxc_iomux_set_pad MX25_PIN_UART1_CTS PAD_CTL_PKE_PUD_22K,
     mxc_set_gpio_direction MX25_PIN_UART1_CTS 0, mxc_set_gpio_dataout MX25_PIN_UART1_CTS 1])"

definition LCM_RES :: "int \<Rightarrow> lcd \<Rightarrow> lcd" where
  "LCM_RES val = on_board (emit [mxc_set_gpio_dataout MX25_PIN_UART1_CTS val])"

text \<open>A 16-bit frame through \<open>tft_spi\<close>, which is null until \<open>tft_fw_init\<close> has set it.\<close>

definition spi_wr :: "u32 \<Rightarrow> (nat \<Rightarrow> u32) \<Rightarrow> u16 \<Rightarrow> lcd \<Rightarrow> lcd option" where
  "spi_wr ipg rx frame l =
     (let b = brd l in
      do { (r, buf, hw) \<leftarrow> poll_spi_write ipg rx (if tft_spi l then Some (spi0_dev b) else None)
             [ucast frame, ucast (drop_bit 8 frame), 0, 0] 1 (spi0_hw b);
           Some (l\<lparr>brd := emit [spi_frame (drop (length (txfifo (spi0_hw b))) (txfifo hw))] (b\<lparr>spi0_hw := hw\<rparr>)\<rparr>) })"

definition SPI_WR_DATA_ID0 :: "u32 \<Rightarrow> (nat \<Rightarrow> u32) \<Rightarrow> byte \<Rightarrow> lcd \<Rightarrow> lcd option" where
  "SPI_WR_DATA_ID0 ipg rx data1 = spi_wr ipg rx (ucast data1 OR push_bit 8 0x01)"

definition SPI_WR_COMMAND_ID0 :: "u32 \<Rightarrow> (nat \<Rightarrow> u32) \<Rightarrow> byte \<Rightarrow> lcd \<Rightarrow> lcd option" where
  "SPI_WR_COMMAND_ID0 ipg rx COMMAND = spi_wr ipg rx (ucast COMMAND)"

datatype ili9341 = Cmd byte | Dat byte

definition ili9341_sequence :: "ili9341 list" where
  "ili9341_sequence =
    [Cmd 0xb9, Dat 0xff, Dat 0x93, Dat 0x42,
     Cmd 0x20,
     Cmd 0x36, Dat 0x48,
     Cmd 0xc0, Dat 0x26, Dat 0x00,
     Cmd 0xc1, Dat 0x10,
     Cmd 0xc5, Dat 0x31, Dat 0x3c,
     Cmd 0xc7, Dat 0xc0,
     Cmd 0xb8, Dat 0x03,
     Cmd 0x2a, Dat 0x00, Dat 0x00, Dat 0x00, Dat 0xef,
     Cmd 0x2b, Dat 0x00, Dat 0x00, Dat 0x01, Dat 0x3f,
     Cmd 0xe0, Dat 0x1f, Dat 0x24, Dat 0x23, Dat 0x0b, Dat 0x0f, Dat 0x08, Dat 0x50, Dat 0xd8, Dat 0x3b, Dat 0x08, Dat 0x0a, Dat 0x00, Dat 0x00, Dat 0x00, Dat 0x00,
     Cmd 0xe1, Dat 0x00, Dat 0x1b, Dat 0x1c, Dat 0x04, Dat 0x10, Dat 0x07, Dat 0x2f, Dat 0x27, Dat 0x44, Dat 0x07, Dat 0x15, Dat 0x0f, Dat 0x3f, Dat 0x3f, Dat 0x1f,
     Cmd 0x3a, Dat 0x55,
     Cmd 0xb0, Dat 0xc2,
     Cmd 0xf6, Dat 0x01, Dat 0x00, Dat 0x06,
     Cmd 0x11,
     Cmd 0x11,
     Cmd 0x29,
     Cmd 0x2c]"

definition ili9341_step :: "u32 \<Rightarrow> (nat \<Rightarrow> u32) \<Rightarrow> ili9341 \<Rightarrow> lcd \<Rightarrow> lcd option" where
  "ili9341_step ipg rx s = (case s of Cmd c \<Rightarrow> SPI_WR_COMMAND_ID0 ipg rx c | Dat d \<Rightarrow> SPI_WR_DATA_ID0 ipg rx d)"

definition init_yushun_ili9341 :: "u32 \<Rightarrow> (nat \<Rightarrow> u32) \<Rightarrow> lcd \<Rightarrow> lcd option" where
  "init_yushun_ili9341 ipg rx l =
     foldM (ili9341_step ipg rx) ili9341_sequence (LCM_RES 1 (LCM_RES 0 (LCM_RES 1 (lcd_reset_pin_init l))))"

text \<open>\<open>ret\<close> is the result of requesting the SPI interrupt.\<close>

definition tft_fw_init :: "u32 \<Rightarrow> (nat \<Rightarrow> u32) \<Rightarrow> int \<Rightarrow> lcd \<Rightarrow> lcd option" where
  "tft_fw_init ipg rx ret l =
     (case hfc_tft_spi_probe ret (spi0_hw (brd l)) of
       (_, dev, hw) \<Rightarrow>
         init_yushun_ili9341 ipg rx (l\<lparr>brd := (brd l)\<lparr>spi0_dev := imx25_spi_setup dev 1000000 9 0, spi0_hw := hw\<rparr>, tft_spi := True\<rparr>))"

definition test_lcd_reg :: "u32 \<Rightarrow> (nat \<Rightarrow> u32) \<Rightarrow> u16 \<Rightarrow> lcd \<Rightarrow> lcd option" where
  "test_lcd_reg ipg rx val = SPI_WR_COMMAND_ID0 ipg rx (ucast (val AND 0xff))"

section \<open>The lcd command (lcd_fun.c)\<close>

definition lit_ledon :: mem where "lit_ledon = [108, 101, 100, 111, 110, 0]"
definition lit_ledoff :: mem where "lit_ledoff = [108, 101, 100, 111, 102, 102, 0]"
definition lit_contrast :: mem where "lit_contrast = [99, 111, 110, 116, 114, 97, 115, 116, 0]"
definition lit_gwon :: mem where "lit_gwon = [103, 119, 111, 110, 0]"
definition lit_gwoff :: mem where "lit_gwoff = [103, 119, 111, 102, 102, 0]"
definition lit_refresh :: mem where "lit_refresh = [114, 101, 102, 114, 101, 115, 104, 0]"
definition lit_gwfresh :: mem where "lit_gwfresh = [103, 119, 102, 114, 101, 115, 104, 0]"
definition lit_reg :: mem where "lit_reg = [114, 101, 103, 0]"
definition lit_vol :: mem where "lit_vol = [118, 111, 108, 0]"

definition on_fb :: "(frame \<Rightarrow> frame option) \<Rightarrow> lcd \<Rightarrow> lcd option" where
  "on_fb g l = do { f \<leftarrow> g (fb l); Some (l\<lparr>fb := f\<rparr>) }"

definition on_gwfb :: "(frame \<Rightarrow> frame option) \<Rightarrow> lcd \<Rightarrow> lcd option" where
  "on_gwfb g l = do { f \<leftarrow> g (gwfb l); Some (l\<lparr>gwfb := f\<rparr>) }"

text \<open>The command with a number: \<open>if (argc < 3) return 2;\<close> and then the argument.\<close>

definition with_number :: "mem \<Rightarrow> int \<Rightarrow> nat option list \<Rightarrow> u32 \<Rightarrow> (u32 \<Rightarrow> lcd \<Rightarrow> lcd option) \<Rightarrow> lcd \<Rightarrow> (int \<times> lcd) option" where
  "with_number m argc argv base g l =
     (if argc < 3 then Some (2, l) else do { v \<leftarrow> arg_number m argv 2 base; l \<leftarrow> g v l; Some (0, l) })"

text \<open>The chain of comparisons: the first branch whose literal is the argument's beginning is taken, none gives \<open>dflt\<close>.\<close>

fun dispatch :: "mem \<Rightarrow> nat option list \<Rightarrow> (mem \<times> nat \<times> 'a option) list \<Rightarrow> 'a option \<Rightarrow> 'a option" where
  "dispatch m argv [] dflt = dflt"
| "dispatch m argv ((lit, n, act) # rest) dflt = do { t \<leftarrow> arg_is m argv 1 lit n; if t then act else dispatch m argv rest dflt }"

text \<open>\<open>lcd vol\<close> does not look at \<open>argc\<close>; it sets \<open>bat_voltage\<close>, which is part of the result.\<close>

definition lcd_branches ::
  "u32 \<Rightarrow> (nat \<Rightarrow> u32) \<Rightarrow> mem \<Rightarrow> mem \<Rightarrow> int \<Rightarrow> nat option list \<Rightarrow> u32 \<Rightarrow> lcd \<Rightarrow> (mem \<times> nat \<times> (int \<times> u32 \<times> lcd) option) list" where
  "lcd_branches ipg rx junk m argc argv bv l =
     (let keep = (\<lambda>r. do { (v, l) \<leftarrow> r; Some (v, bv, l) }) in
      [(lit_ledon, 5, Some (0, bv, tft_backlight_open l)),
       (lit_ledoff, 6, Some (0, bv, tft_backlight_close l)),
       (lit_contrast, 8, keep (with_number m argc argv 10 (\<lambda>v l. Some (tft_backlight_brightness (ucast v) l)) l)),
       (lit_gwon, 4, Some (0, bv, tft_gw_open l)),
       (lit_gwoff, 5, Some (0, bv, tft_gw_close l)),
       (lit_refresh, 7, keep (with_number m argc argv 16 (\<lambda>v. on_fb (tft_refresh_screan (ucast v))) l)),
       (lit_gwfresh, 7, keep (with_number m argc argv 16 (\<lambda>v. on_gwfb (tft_gw_refresh_screan (ucast v))) l)),
       (lit_reg, 3, keep (with_number m argc argv 10 (\<lambda>v. test_lcd_reg ipg rx (ucast v)) l)),
       (lit_battery, 7, do { l \<leftarrow> on_fb tft_fill_battery_img l; l \<leftarrow> on_fb (tft_display_battery_icon 5) l; Some (0, bv, l) }),
       (lit_vol, 3, do { v \<leftarrow> arg_number m argv 2 10; l \<leftarrow> on_fb (lcd_display_voltage junk (sint v)) l; Some (0, v, l) })])"

definition do_lcd_test ::
  "u32 \<Rightarrow> (nat \<Rightarrow> u32) \<Rightarrow> int \<Rightarrow> mem \<Rightarrow> mem \<Rightarrow> int \<Rightarrow> nat option list \<Rightarrow> u32 \<Rightarrow> lcd \<Rightarrow> (int \<times> u32 \<times> lcd) option" where
  "do_lcd_test ipg rx ret junk m argc argv bat_voltage l =
     do { ini \<leftarrow> arg_is m argv 1 lit_init 4;
          l \<leftarrow> (if ini
                then do { l \<leftarrow> tft_fw_init ipg rx ret (on_board (emit [tft_gpio_init, tft_clock_init]) l); Some (l\<lparr>lcd_init := 1\<rparr>) }
                else Some l);
          if lcd_init l = 0 then Some (1, bat_voltage, l)
          else dispatch m argv (lcd_branches ipg rx junk m argc argv bat_voltage l) (Some (0, bat_voltage, l)) }"

end
