(* ===== verification/Lcd_Proofs.thy ===== *)
theory Lcd_Proofs
  imports Lcd
begin

unbundle bit_operations_syntax

text \<open>
  Drawing stays within the frame buffer and changes only the pixels of the shape drawn; the voltage text fits its
  buffer exactly for voltages below 10000 volts.
\<close>

section \<open>Painting\<close>

text \<open>All drawing sets a set of pixels to one colour.\<close>

definition paint :: "nat set \<Rightarrow> u16 \<Rightarrow> frame \<Rightarrow> frame" where
  "paint S c f = map (\<lambda>p. if p \<in> S then c else f ! p) [0..<length f]"

lemma length_paint [simp]: "length (paint S c f) = length f"
  by (simp add: paint_def)

lemma nth_paint [simp]: "p < length f \<Longrightarrow> paint S c f ! p = (if p \<in> S then c else f ! p)"
  by (simp add: paint_def)

lemma paint_empty [simp]: "paint {} c f = f"
  by (rule nth_equalityI) simp_all

lemma paint_paint: "paint S c (paint T c f) = paint (T \<union> S) c f"
  by (rule nth_equalityI) simp_all

definition whole_frame :: "frame \<Rightarrow> bool" where
  "whole_frame f \<longleftrightarrow> length f = 76800"

lemma whole_paint [simp]: "whole_frame (paint S c f) \<longleftrightarrow> whole_frame f"
  by (simp add: whole_frame_def)

text \<open>An operation that paints the set \<open>S\<close>, and loops of such operations.\<close>

definition paints :: "(frame \<Rightarrow> frame option) \<Rightarrow> nat set \<Rightarrow> u16 \<Rightarrow> bool" where
  "paints g S c \<longleftrightarrow> (\<forall>f. whole_frame f \<longrightarrow> g f = Some (paint S c f))"

lemma paintsD: "paints g S c \<Longrightarrow> whole_frame f \<Longrightarrow> g f = Some (paint S c f)"
  by (simp add: paints_def)

lemma paints_Some: "paints Some {} c"
  by (simp add: paints_def)

lemma paints_foldM: "(\<And>i. i \<in> set is \<Longrightarrow> paints (g i) (S i) c) \<Longrightarrow> paints (foldM g is) (\<Union>i\<in>set is. S i) c"
proof (induction "is")
  case (Cons i "is")
  then have "paints (g i) (S i) c" "paints (foldM g is) (\<Union>i\<in>set is. S i) c" by simp_all
  then show ?case by (simp add: paints_def paint_paint)
qed (simp add: paints_def)

definition pixel :: "u32 \<Rightarrow> u32 \<Rightarrow> nat set" where
  "pixel x y = (if unat y < 240 \<and> unat x < 320 then {unat y * 240 + unat x} else {})"

lemma pixel_in_frame: "p \<in> pixel x y \<Longrightarrow> p < 57680"
  by (auto simp: pixel_def split: if_splits)

lemma paints_set_pixel: "paints (set_pixel x y c) (pixel x y) c"
proof -
  have "store f (unat y * 240 + unat x) c = Some (paint {unat y * 240 + unat x} c f)"
    if "unat y < 240" "unat x < 320" "whole_frame f" for f
    using that by (auto simp: store_def whole_frame_def intro!: nth_equalityI)
  then show ?thesis by (auto simp: paints_def set_pixel_def pixel_def lcd_consts)
qed

text \<open>A rectangle within the part of the frame where no row wraps.\<close>

definition rect :: "int \<Rightarrow> int \<Rightarrow> int \<Rightarrow> int \<Rightarrow> nat set" where
  "rect x0 y0 x1 y1 = {p. x0 \<le> int (p mod 240) \<and> int (p mod 240) < x1 \<and> y0 \<le> int (p div 240) \<and> int (p div 240) < y1}"

lemma paints_fill:
  assumes "0 \<le> x0" "x1 \<le> 240" "0 \<le> y0" "y1 \<le> 240"
  shows "paints (fill_frame_buffer x0 y0 x1 y1 c) (rect x0 y0 x1 y1) c"
proof -
  have px: "pixel (of_int i) (of_int j) = {nat j * 240 + nat i}" if "0 \<le> i" "i < 240" "0 \<le> j" "j < 240" for i j
  proof -
    have "unat (of_int i :: u32) = nat i" "unat (of_int j :: u32) = nat j"
      using that by (simp_all add: unsigned_of_int take_bit_int_eq_self)
    moreover have "nat i < 320" "nat j < 240" using that by simp_all
    ultimately show ?thesis by (simp add: pixel_def)
  qed
  have eq: "(\<Union>j\<in>set [y0..y1 - 1]. \<Union>i\<in>set [x0..x1 - 1]. pixel (of_int i) (of_int j)) = rect x0 y0 x1 y1" (is "?L = _")
  proof
    show "?L \<subseteq> rect x0 y0 x1 y1"
    proof
      fix p
      assume "p \<in> ?L"
      then obtain i j where ij: "x0 \<le> i" "i < x1" "y0 \<le> j" "j < y1" "p \<in> pixel (of_int i) (of_int j)" by auto
      then have "p = nat j * 240 + nat i" "nat i < 240" using px [of i j] assms by auto
      then show "p \<in> rect x0 y0 x1 y1" using ij assms by (simp add: rect_def)
    qed
    show "rect x0 y0 x1 y1 \<subseteq> ?L"
    proof
      fix p
      assume p: "p \<in> rect x0 y0 x1 y1"
      define i j where "i = int (p mod 240)" and "j = int (p div 240)"
      have ij: "x0 \<le> i" "i < x1" "y0 \<le> j" "j < y1" using p by (simp_all add: rect_def i_def j_def)
      then have "p \<in> pixel (of_int i) (of_int j)" using px [of i j] assms by (simp add: i_def j_def)
      moreover have "j \<in> set [y0..y1 - 1]" "i \<in> set [x0..x1 - 1]" using ij by simp_all
      ultimately show "p \<in> ?L" by blast
    qed
  qed
  have "fill_frame_buffer x0 y0 x1 y1 c = foldM (\<lambda>j. foldM (\<lambda>i. set_pixel (of_int i) (of_int j) c) [x0..x1 - 1]) [y0..y1 - 1]"
    by (rule ext) (simp add: fill_frame_buffer_def)
  moreover have "paints (foldM (\<lambda>j. foldM (\<lambda>i. set_pixel (of_int i) (of_int j) c) [x0..x1 - 1]) [y0..y1 - 1])
      (\<Union>j\<in>set [y0..y1 - 1]. \<Union>i\<in>set [x0..x1 - 1]. pixel (of_int i) (of_int j)) c"
    by (intro paints_foldM paints_set_pixel)
  ultimately show ?thesis unfolding eq by simp
qed

section \<open>Text\<close>

definition printable :: "byte \<Rightarrow> bool" where
  "printable c \<longleftrightarrow> 32 \<le> unat c \<and> unat c < 128"

lemma paints_row: "\<exists>S. paints (disp_row_nr x y c coldat nr) S c"
proof -
  define S where "S i = (if coldat AND drop_bit i 0x80 \<noteq> 0 then pixel (x + of_nat i) y else {})" for i
  have "paints (\<lambda>f. if coldat AND drop_bit i 0x80 \<noteq> 0 then set_pixel (x + of_nat i) y c f else Some f) (S i) c" for i
    using paints_set_pixel paints_Some by (simp add: S_def paints_def)
  then show ?thesis unfolding disp_row_nr_def by (intro exI [of _ "\<Union>i\<in>set [0..<nr]. S i"] paints_foldM)
qed

lemma paints_draw_row:
  assumes "0 \<le> n" and "n + 48 \<le> 4608" and "i < 24"
  shows "\<exists>S. paints (draw_row x y c n i) S c"
proof -
  have "font_byte k = Some (ASCII24 ! nat k)" if "0 \<le> k" "k < 4608" for k
  proof -
    have "nat k < 4608" using that by simp
    then show ?thesis using that by (simp add: font_byte_def load_def length_ASCII24)
  qed
  then obtain b1 b2 where b: "font_byte (n + int i * 2) = Some b1" "font_byte (n + int i * 2 + 1) = Some b2"
    using assms by simp
  obtain S1 S2 where "paints (disp_row_nr x (y + of_nat i) c b1 8) S1 c" "paints (disp_row_nr (x + 8) (y + of_nat i) c b2 4) S2 c"
    using paints_row by metis
  then show ?thesis by (intro exI [of _ "S1 \<union> S2"]) (simp add: paints_def draw_row_def b paint_paint)
qed

lemma paints_chars:
  assumes "\<forall>c\<in>set cs. printable c" and "s + length cs \<le> length m" and "take (length cs) (drop s m) = cs"
  shows "\<exists>S. paints (drawchars_24x12 x y col m s (length cs)) S col"
  using assms
proof (induction cs arbitrary: x s)
  case Nil
  then show ?case by (intro exI [of _ "{}"]) (simp add: paints_def)
next
  case (Cons c cs)
  have ld: "load m s = Some c" and rest: "take (length cs) (drop (s + 1) m) = cs"
    using Cons.prems(2,3) by (auto simp: load_def take_Suc hd_drop_conv_nth drop_Suc tl_drop split: list.splits)
  have "32 \<le> unat c" "unat c < 128" using Cons.prems(1) by (simp_all add: printable_def)
  then have "32 \<le> uint c" "uint c < 128" using of_nat_unat [of c, where ?'a = int] by linarith+
  then have "0 \<le> (uint c - 0x20) * 48" "(uint c - 0x20) * 48 + 48 \<le> 4608" by simp_all
  then have "\<exists>S. paints (draw_row x y col ((uint c - 0x20) * 48) i) S col" if "i < 24" for i using paints_draw_row that by blast
  then obtain S where "\<And>i. i < 24 \<Longrightarrow> paints (draw_row x y col ((uint c - 0x20) * 48) i) (S i) col" by metis
  then have row: "paints (foldM (draw_row x y col ((uint c - 0x20) * 48)) [0..<24]) (\<Union>i\<in>set [0..<24]. S i) col" by (intro paints_foldM) simp
  obtain T where "paints (drawchars_24x12 (x + 12) y col m (s + 1) (length cs)) T col"
    using Cons.IH [of "s + 1" "x + 12"] Cons.prems rest by auto
  with row show ?case
    by (intro exI [of _ "(\<Union>i\<in>set [0..<24]. S i) \<union> T"]) (simp add: paints_def ld paint_paint)
qed

lemma paints_string:
  assumes "cstr m s cs" and "\<forall>c\<in>set cs. printable c"
  shows "\<exists>S. paints (lcd_put_strings x y col m s) S col"
proof -
  have "strlen m s = Some (length cs)" "s + length cs \<le> length m" "take (length cs) (drop s m) = cs"
    using assms(1) strlen_cstr [OF assms(1)] by (simp_all add: cstr_iff)
  then show ?thesis using paints_chars [OF assms(2), of s m x y col] by (simp add: lcd_put_strings_def paints_def)
qed

section \<open>The voltage text\<close>

definition decimal :: "nat \<Rightarrow> byte list" where
  "decimal n = map dchar (rev (digs 10 n))"

abbreviation fmt_text :: "byte list" where
  "fmt_text \<equiv> [86, 111, 108, 116, 97, 103, 101, 58]"

text \<open>The two directives of the format, as the interpreter reads them.\<close>

lemma directive_d:
  assumes "args st = V32 v # rest"
  shows "fmt_directive voltage_fmt 8 st = Some (10, add_out (number (scast v) 10 (-1) (-1) SIGN) (st\<lparr>args := rest\<rparr>))"
proof -
  have l: "load voltage_fmt 9 = Some 100" by (simp add: voltage_fmt_def load_def)
  have f: "fmt_flags_loop voltage_fmt 9 0 = Some (0, 9)" by (simp add: fmt_flags_loop.simps [of voltage_fmt 9] l flag_char_def)
  show ?thesis
    using assms by (simp add: fmt_directive_def f fmt_width_def fmt_precision_def fmt_qualifier_def fmt_convert_def l is_digit_def
        conv_int_def fmt_number_def has_def fmt_flags word_le_nat_alt)
qed

lemma directive_01d:
  assumes "args st = V32 v # rest"
  shows "fmt_directive voltage_fmt 11 st = Some (15, add_out (number (scast v) 10 1 (-1) (ZEROPAD OR SIGN)) (st\<lparr>args := rest\<rparr>))"
proof -
  have l: "load voltage_fmt 12 = Some 48" "load voltage_fmt 13 = Some 49" "load voltage_fmt 14 = Some 100"
    by (simp_all add: voltage_fmt_def load_def)
  have f: "fmt_flags_loop voltage_fmt 12 0 = Some (1, 13)"
    by (simp add: fmt_flags_loop.simps [of voltage_fmt 12] fmt_flags_loop.simps [of voltage_fmt 13] l flag_char_def fmt_flags)
  have a: "skip_atoi voltage_fmt 13 0 = Some (1, 14)"
    by (simp add: skip_atoi.simps [of voltage_fmt 13] skip_atoi.simps [of voltage_fmt 14] l is_digit_def word_le_nat_alt)
  show ?thesis
    using assms by (simp add: fmt_directive_def f a fmt_width_def fmt_precision_def fmt_qualifier_def fmt_convert_def l is_digit_def
        conv_int_def fmt_number_def has_def fmt_flags word_le_nat_alt)
qed

lemma voltage_out:
  assumes "0 \<le> x" "x < 2147483648" "0 \<le> y" "y < 2147483648"
  shows "\<exists>st. vsn_loop voltage_fmt 0 \<lparr>out = [], args = [V32 (of_int x), V32 (of_int y)], nstores = []\<rparr> = Some st
     \<and> out st = fmt_text @ decimal (nat x) @ [46] @ decimal (nat y) @ [86]"
proof -
  define s0 where "s0 = \<lparr>out = [], args = [V32 (of_int x), V32 (of_int y)], nstores = []\<rparr>"
  have e: "voltage_fmt = [] @ fmt_text @ [37, 100, 46, 37, 48, 49, 100, 86, 0]" by (simp add: voltage_fmt_def)
  have 1: "vsn_loop voltage_fmt 0 s0 = vsn_loop voltage_fmt 8 (add_out fmt_text s0)"
  proof -
    have z: "0 \<notin> set fmt_text" "37 \<notin> set fmt_text" by simp_all
    have n: "length ([] :: byte list) = 0" "0 + length fmt_text = 8" by simp_all
    from vsn_literal [OF z, of "[]" "[37, 100, 46, 37, 48, 49, 100, 86, 0]" s0] show ?thesis unfolding e by (simp only: n)
  qed
  have l: "load voltage_fmt 8 = Some 37" "load voltage_fmt 10 = Some 46" "load voltage_fmt 11 = Some 37"
    "load voltage_fmt 15 = Some 86" "load voltage_fmt 16 = Some 0"
    by (simp_all add: voltage_fmt_def load_def)
  have n: "number (scast (of_int x :: u32)) 10 (-1) (-1) SIGN = decimal (nat x)"
    "number (scast (of_int y :: u32)) 10 1 (-1) (ZEROPAD OR SIGN) = decimal (nat y)"
    using number_signed [of SIGN "-1" x] number_signed [of "ZEROPAD OR SIGN" 1 y] assms by (simp_all add: decimal_def)
  define s1 where "s1 = (add_out (fmt_text @ decimal (nat x)) s0)\<lparr>args := [V32 (of_int y)]\<rparr>"
  have 2: "vsn_loop voltage_fmt 8 (add_out fmt_text s0) = vsn_loop voltage_fmt 10 s1"
    using vsn_directive [OF l(1) directive_d [of "add_out fmt_text s0" "of_int x" "[V32 (of_int y)]"]]
    by (simp add: n s1_def s0_def add_out_def)
  have 3: "vsn_loop voltage_fmt 10 s1 = vsn_loop voltage_fmt 11 (add_out [46] s1)" using vsn_char [OF l(2)] by simp
  define s2 where "s2 = (add_out ([46] @ decimal (nat y)) s1)\<lparr>args := []\<rparr>"
  have 4: "vsn_loop voltage_fmt 11 (add_out [46] s1) = vsn_loop voltage_fmt 15 s2"
    using vsn_directive [OF l(3) directive_01d [of "add_out [46] s1" "of_int y" "[]"]]
    by (simp add: n s1_def s2_def s0_def add_out_def)
  have 5: "vsn_loop voltage_fmt 15 s2 = Some (add_out [86] s2)"
    using vsn_char [OF l(4), of s2] l(5) by (simp add: vsn_loop.simps [of voltage_fmt 16])
  show ?thesis unfolding s0_def [symmetric] 1 2 3 4 5
    by (simp add: s2_def s1_def s0_def add_out_def)
qed

lemma voltage_text_eq:
  assumes "0 \<le> volt" "volt < 2147483648" and "length junk = 16"
  defines "t \<equiv> fmt_text @ decimal (nat (volt div 100)) @ [46] @ decimal (nat (volt mod 100 div 10)) @ [86]"
  shows "voltage_text junk volt = (if volt < 1000000 then Some (t @ [0] @ drop (length t + 1) junk) else None)"
proof -
  have sd: "volt sdiv 100 = volt div 100" "(volt smod 100) sdiv 10 = volt mod 100 div 10"
    using assms(1) by (simp_all add: signed_divide_int_def signed_modulo_int_def sgn_if minus_mult_div_eq_mod)
  have b: "0 \<le> volt div 100" "volt div 100 < 2147483648" "0 \<le> volt mod 100 div 10" "volt mod 100 div 10 < 2147483648"
    using assms(1,2) by (auto intro: pos_imp_zdiv_nonneg_iff [THEN iffD2])
  obtain st where st: "vsn_loop voltage_fmt 0 \<lparr>out = [], args = [V32 (of_int (volt div 100)), V32 (of_int (volt mod 100 div 10))], nstores = []\<rparr> = Some st"
    "out st = t" using voltage_out [OF b] unfolding t_def by blast
  have one: "digs 10 (nat (volt mod 100 div 10)) = [nat (volt mod 100 div 10)]" by (rule digs_small) auto
  have "length (digs 10 (nat (volt div 100))) \<le> 4 \<longleftrightarrow> volt < 1000000"
  proof
    assume "volt < 1000000"
    then have "nat (volt div 100) < 10 ^ 4" by auto
    then show "length (digs 10 (nat (volt div 100))) \<le> 4" by (intro length_digs_le) simp_all
  next
    assume le: "length (digs 10 (nat (volt div 100))) \<le> 4"
    show "volt < 1000000"
    proof (rule ccontr)
      assume "\<not> volt < 1000000"
      then have "10 ^ 4 \<le> nat (volt div 100)" by auto
      then show False using le length_digs_ge [of 10 4] by fastforce
    qed
  qed
  then have "length t + 1 \<le> 16 \<longleftrightarrow> volt < 1000000" by (simp add: t_def decimal_def one)
  then show ?thesis using st assms(3) by (simp add: voltage_text_def vsprintf_def sd copy_bytes_def)
qed

section \<open>Displaying\<close>

lemma printable_dchar: "d < 10 \<Longrightarrow> printable (dchar d)"
  by (simp add: printable_def unat_dchar)

lemma printable_decimal: "c \<in> set (decimal n) \<Longrightarrow> printable c"
  using digs_less [of 10] printable_dchar by (auto simp: decimal_def)

lemma printable_consts: "list_all printable fmt_text" "list_all printable [46]" "list_all printable [86]"
  by (simp_all add: printable_def)

lemma display_voltage_ok:
  assumes "0 \<le> volt" "volt < 1000000" and "length junk = 16" and "whole_frame f"
  shows "\<exists>f'. lcd_display_voltage junk volt f = Some f' \<and> whole_frame f'"
proof -
  define t where "t = fmt_text @ decimal (nat (volt div 100)) @ [46] @ decimal (nat (volt mod 100 div 10)) @ [86]"
  define buf where "buf = t @ [0] @ drop (length t + 1) junk"
  have b: "voltage_text junk volt = Some buf" using voltage_text_eq [of volt junk] assms by (simp add: buf_def t_def)
  have "\<forall>c\<in>set t. printable c"
    using printable_consts printable_decimal unfolding list_all_iff t_def by (simp only: set_append ball_Un) blast
  moreover from this have "0 \<notin> set t" by (auto simp: printable_def)
  then have "cstr buf 0 t" by (simp add: cstr_iff buf_def nth_append)
  ultimately obtain S where "paints (lcd_put_strings 52 100 0xff00 buf 0) S 0xff00" using paints_string by blast
  then show ?thesis using assms(4) paintsD [OF paints_fill [of 142 185 100 130 0], of f]
    by (simp add: lcd_display_voltage_def b paintsD)
qed

lemma paints_battery_img: "\<exists>S. paints tft_fill_battery_img S BAT_IMG_COLOR_TFT"
proof -
  have "paints tft_fill_battery_img (rect 69 133 175 139 \<union> rect 69 181 175 187 \<union> rect 65 145 69 175 \<union> rect 69 139 75 181
      \<union> rect 169 139 175 151 \<union> rect 169 169 175 181) BAT_IMG_COLOR_TFT"
    by (simp add: paints_def tft_fill_battery_img_def paintsD [OF paints_fill] paint_paint Un_assoc)
  then show ?thesis by blast
qed

text \<open>The segments of the battery picture for an icon number.\<close>

definition segments :: "byte \<Rightarrow> nat set" where
  "segments icon = rect 137 141 167 179 \<union> (if icon \<noteq> 1 then rect 107 141 136 179 else {})
     \<union> (if icon = 3 \<or> icon = 4 then rect 77 141 106 179 else {})"

lemma display_icon_eq:
  assumes "whole_frame f"
  shows "tft_display_battery_icon icon f = Some (if icon \<in> {1, 2, 3, 4} then paint (segments icon) BAT_FIL_COLOR_TFT f
     else paint (rect 77 141 167 179) BAT_CLR_COLOR_TFT f)"
proof -
  consider "icon = 1" | "icon = 2" | "icon = 3 \<or> icon = 4" | "icon \<notin> {1, 2, 3, 4}" by blast
  then show ?thesis
    by cases (use assms in \<open>auto simp: tft_display_battery_icon_def segments_def paintsD [OF paints_fill] paint_paint Un_ac\<close>)
qed

section \<open>Properties\<close>

text \<open>C36 (set_pixel_region): drawing a pixel never leaves the frame buffer, whatever its coordinates, and sets exactly one pixel
  or none. The comparisons have width and height exchanged: a pixel with row 240 or more is not drawn although the frame
  has 320 rows, and a column from 240 to 319 lands in the next row.\<close>

theorem set_pixel_region:
  assumes "length f = 76800"
  shows "\<exists>f'. set_pixel x y c f = Some f' \<and> length f' = 76800
     \<and> (\<forall>p<76800. f' ! p = (if unat y < 240 \<and> unat x < 320 \<and> p = unat y * 240 + unat x then c else f ! p))"
  using paintsD [OF paints_set_pixel, of f x y c] assms by (auto simp: whole_frame_def pixel_def)

theorem set_pixel_region_witness:
  "\<exists>f'. set_pixel 250 3 7 (replicate 76800 0) = Some f' \<and> length f' = 76800
     \<and> (\<forall>p<76800. f' ! p = (if unat (3 :: u32) < 240 \<and> unat (250 :: u32) < 320 \<and> p = unat (3 :: u32) * 240 + unat (250 :: u32)
         then 7 else replicate 76800 0 ! p))"
  by (rule set_pixel_region) simp

text \<open>(lcd_voltage_fits): the text of a non-negative voltage fits the 16-byte buffer of \<open>lcd_display_voltage\<close> exactly when
  the voltage is below 1000000 hundredths of a volt; beyond that \<open>sprintf\<close> writes past the end of the buffer. When it
  fits, the whole display operation stays within the frame buffer.\<close>

theorem lcd_voltage_fits:
  assumes "0 \<le> volt" and "volt < 2147483648" and "length junk = 16" and "length f = 76800"
  shows "case lcd_display_voltage junk volt f of None \<Rightarrow> 1000000 \<le> volt | Some f' \<Rightarrow> volt < 1000000 \<and> length f' = 76800"
proof (cases "volt < 1000000")
  case True
  then show ?thesis using display_voltage_ok [of volt junk f] assms by (auto simp: whole_frame_def)
next
  case False
  then show ?thesis using voltage_text_eq [of volt junk] assms by (simp add: lcd_display_voltage_def)
qed

theorem lcd_voltage_fits_witness:
  "case lcd_display_voltage (replicate 16 0) 1234567 (replicate 76800 0) of
     None \<Rightarrow> 1000000 \<le> (1234567 :: int) | Some f' \<Rightarrow> (1234567 :: int) < 1000000 \<and> length f' = 76800"
  by (rule lcd_voltage_fits) simp_all

text \<open>(battery_icon_segments): icon 1 fills the right third of the battery picture, icon 2 the right two thirds, icons 3 and 4
  all three; every other number clears the inside. No other pixel changes.\<close>

theorem battery_icon_segments:
  assumes "length f = 76800"
  shows "\<exists>f'. tft_display_battery_icon icon f = Some f' \<and> length f' = 76800 \<and> (\<forall>p<76800. f' ! p =
     (if icon = 1 \<or> icon = 2 \<or> icon = 3 \<or> icon = 4
      then if p \<in> rect 137 141 167 179 \<or> icon \<noteq> 1 \<and> p \<in> rect 107 141 136 179 \<or> (icon = 3 \<or> icon = 4) \<and> p \<in> rect 77 141 106 179
        then 0xdd else f ! p
      else if p \<in> rect 77 141 167 179 then 0 else f ! p))"
proof -
  have "whole_frame f" using assms by (simp add: whole_frame_def)
  from display_icon_eq [OF this, of icon] show ?thesis
    using assms by (simp add: lcd_consts segments_def)
qed

theorem battery_icon_segments_witness:
  "\<exists>f'. tft_display_battery_icon 2 (replicate 76800 5) = Some f' \<and> length f' = 76800 \<and> (\<forall>p<76800. f' ! p =
     (if (2 :: byte) = 1 \<or> (2 :: byte) = 2 \<or> (2 :: byte) = 3 \<or> (2 :: byte) = 4
      then if p \<in> rect 137 141 167 179 \<or> (2 :: byte) \<noteq> 1 \<and> p \<in> rect 107 141 136 179
          \<or> ((2 :: byte) = 3 \<or> (2 :: byte) = 4) \<and> p \<in> rect 77 141 106 179
        then 0xdd else replicate 76800 5 ! p
      else if p \<in> rect 77 141 167 179 then 0 else replicate 76800 5 ! p))"
  by (rule battery_icon_segments) simp

end
