(* ===== verification/Battery.thy ===== *)
theory Battery
  imports Lcd_Proofs
begin

unbundle bit_operations_syntax

text \<open>
  hfc_app/hfc_battery: the charge level from the measured voltage, its picture and the manager the boot loop calls
  about ten times a second. The file's statics are the record \<open>battery\<close>; the display and the board are the
  record \<^typ>\<open>lcd\<close>.
\<close>

section \<open>Constants and state\<close>

definition BAT_DIS_LEVEL1_LOW :: int where "BAT_DIS_LEVEL1_LOW = 608"
definition BAT_DIS_LEVEL1_HIG :: int where "BAT_DIS_LEVEL1_HIG = 729"
definition BAT_DIS_LEVEL2_LOW :: int where "BAT_DIS_LEVEL2_LOW = 731"
definition BAT_DIS_LEVEL2_HIG :: int where "BAT_DIS_LEVEL2_HIG = 749"
definition BAT_DIS_LEVEL3_LOW :: int where "BAT_DIS_LEVEL3_LOW = 751"
definition BAT_DIS_LEVEL3_HIG :: int where "BAT_DIS_LEVEL3_HIG = 769"
definition BAT_DIS_LEVEL4_LOW :: int where "BAT_DIS_LEVEL4_LOW = 771"
definition BAT_DIS_LEVEL4_HIG :: int where "BAT_DIS_LEVEL4_HIG = 820"
definition BAT_DIS_FULL :: int where "BAT_DIS_FULL = 840"
definition BAT_LEVEL1 :: byte where "BAT_LEVEL1 = 5"
definition BAT_LEVEL2 :: byte where "BAT_LEVEL2 = 4"
definition BAT_LEVEL3 :: byte where "BAT_LEVEL3 = 3"
definition BAT_LEVEL4 :: byte where "BAT_LEVEL4 = 2"
definition BAT_LEVEL5 :: byte where "BAT_LEVEL5 = 1"

lemmas bat_limits = BAT_DIS_LEVEL1_LOW_def BAT_DIS_LEVEL1_HIG_def BAT_DIS_LEVEL2_LOW_def BAT_DIS_LEVEL2_HIG_def
  BAT_DIS_LEVEL3_LOW_def BAT_DIS_LEVEL3_HIG_def BAT_DIS_LEVEL4_LOW_def BAT_DIS_LEVEL4_HIG_def BAT_DIS_FULL_def
lemmas bat_levels = BAT_LEVEL1_def BAT_LEVEL2_def BAT_LEVEL3_def BAT_LEVEL4_def BAT_LEVEL5_def

record battery =
  level :: byte
  counter :: byte
  bat_loop :: byte
  bat_voltage :: u32

section \<open>Operations\<close>

definition level_of :: "int \<Rightarrow> byte" where
  "level_of vol =
     (if vol < BAT_DIS_LEVEL1_LOW then BAT_LEVEL1
      else if BAT_DIS_LEVEL1_LOW \<le> vol \<and> vol \<le> BAT_DIS_LEVEL1_HIG then BAT_LEVEL2
      else if BAT_DIS_LEVEL2_LOW \<le> vol \<and> vol \<le> BAT_DIS_LEVEL2_HIG then BAT_LEVEL2
      else if BAT_DIS_LEVEL3_LOW \<le> vol \<and> vol \<le> BAT_DIS_LEVEL3_HIG then BAT_LEVEL3
      else if BAT_DIS_LEVEL4_LOW \<le> vol \<and> vol \<le> BAT_DIS_LEVEL4_HIG then BAT_LEVEL4
      else if BAT_DIS_LEVEL4_HIG < vol then BAT_LEVEL5
      else BAT_LEVEL2)"

definition battery_level_confirm :: "int \<Rightarrow> battery \<Rightarrow> byte \<times> battery" where
  "battery_level_confirm vol bat = (level_of vol, bat\<lparr>level := level_of vol\<rparr>)"

text \<open>
  The level passed in is the \<open>unsigned char\<close> static; a remainder by level 0 is undefined. The icon number is the
  complement of the remainder, cut to two bits.
\<close>

definition level_icon :: "byte \<Rightarrow> byte \<Rightarrow> byte option" where
  "level_icon cnt lev =
     (if lev = 0 then None else let dicon = uint cnt mod uint lev; dicon = NOT dicon AND 0x3 in Some (of_int dicon))"

definition battery_dis_level :: "byte \<Rightarrow> battery \<times> lcd \<Rightarrow> (battery \<times> lcd) option" where
  "battery_dis_level lev = (\<lambda>(bat, l).
     do { l \<leftarrow> on_fb tft_fill_battery_img l;
          l \<leftarrow> on_fb (tft_display_battery_icon 0) l;
          if lev = BAT_LEVEL5 then do { l \<leftarrow> on_fb (tft_display_battery_icon 4) l; Some (bat, l) }
          else if lev = BAT_LEVEL1 then Some (bat, l)
          else
            let bat = bat\<lparr>counter := counter bat - 1\<rparr>;
                bat = (if counter bat = 0 then bat\<lparr>counter := 120\<rparr> else bat) in
            do { icon \<leftarrow> level_icon (counter bat) lev;
                 l \<leftarrow> on_fb (tft_display_battery_icon icon) l;
                 Some (bat, l) } })"

definition battery_icon_display :: "mem \<Rightarrow> int \<Rightarrow> battery \<times> lcd \<Rightarrow> (battery \<times> lcd) option" where
  "battery_icon_display junk volt = (\<lambda>(bat, l).
     do { l \<leftarrow> on_fb (lcd_display_voltage junk volt) l;
          let (lev, bat) = battery_level_confirm volt bat in
          do { l \<leftarrow> (if lev = BAT_LEVEL5 then on_fb (lcd_display_voltage junk BAT_DIS_FULL) l
                      else if lev = BAT_LEVEL1 then on_fb (lcd_display_voltage junk 0) l else Some l);
               battery_dis_level lev (bat, l) } })"

definition battery_sample :: "u32 \<Rightarrow> (nat \<Rightarrow> u32) \<Rightarrow> u32 list \<Rightarrow> lcd \<Rightarrow> (int \<times> lcd) option" where
  "battery_sample ipg rx fifo l = do { (v, b) \<leftarrow> get_bat_voltage ipg rx fifo 0 (brd l); Some (v, l\<lparr>brd := b\<rparr>) }"

text \<open>\<open>battery_charge_process\<close> is empty. The unsigned voltage is passed on as an \<open>int\<close>.\<close>

definition hfc_battery_manager ::
  "u32 \<Rightarrow> (nat \<Rightarrow> u32) \<Rightarrow> u32 list \<Rightarrow> mem \<Rightarrow> battery \<times> lcd \<Rightarrow> (battery \<times> lcd) option" where
  "hfc_battery_manager ipg rx fifo junk = (\<lambda>(bat, l).
     do { (v, l) \<leftarrow> battery_sample ipg rx fifo l;
          let bat = bat\<lparr>bat_voltage := of_int v, bat_loop := bat_loop bat + 1\<rparr> in
          if 5 < bat_loop bat
          then battery_icon_display junk (sint (bat_voltage bat)) (bat\<lparr>bat_loop := 0\<rparr>, l)
          else Some (bat, l) })"

section \<open>Proofs\<close>

definition bat_ok :: "battery \<Rightarrow> bool" where
  "bat_ok bat \<longleftrightarrow> 1 \<le> counter bat \<and> counter bat \<le> 120 \<and> bat_loop bat \<le> 5"

definition lcd_ok :: "lcd \<Rightarrow> bool" where
  "lcd_ok l \<longleftrightarrow> whole_frame (fb l) \<and> spi_ready (spi0_dev (brd l))"

lemma on_fb_ok: "lcd_ok l \<Longrightarrow> (\<And>f. whole_frame f \<Longrightarrow> \<exists>f'. g f = Some f' \<and> whole_frame f') \<Longrightarrow> \<exists>f'. on_fb g l = Some (l\<lparr>fb := f'\<rparr>) \<and> lcd_ok (l\<lparr>fb := f'\<rparr>)"
  unfolding lcd_ok_def on_fb_def by fastforce

lemma battery_img_ok: "whole_frame f \<Longrightarrow> \<exists>f'. tft_fill_battery_img f = Some f' \<and> whole_frame f'"
  using paints_battery_img by (auto simp: paints_def)

lemma icon_ok: "whole_frame f \<Longrightarrow> \<exists>f'. tft_display_battery_icon icon f = Some f' \<and> whole_frame f'"
  by (simp add: display_icon_eq)

lemma level_of_cases: "level_of vol \<in> {1, 2, 3, 4, 5}"
  by (simp add: level_of_def bat_levels)

text \<open>The counter runs down from 120 to 1 and starts again.\<close>

definition count_down :: "byte \<Rightarrow> byte" where
  "count_down c = (if c - 1 = 0 then 120 else c - 1)"

lemma count_down_range:
  assumes "1 \<le> c" and "c \<le> 120"
  shows "1 \<le> count_down c \<and> count_down c \<le> 120"
proof (cases "c = 1")
  case True
  then show ?thesis by (simp add: count_down_def)
next
  case False
  then have "c - 1 \<noteq> 0" by simp
  then have "0 < unat (c - 1)" by (simp add: unat_gt_0)
  moreover have "unat (c - 1) = unat c - 1" using assms(1) by (simp add: unat_sub)
  moreover have "unat c \<le> 120" using assms(2) by (simp add: word_le_nat_alt)
  ultimately show ?thesis using \<open>c - 1 \<noteq> 0\<close> unfolding count_down_def word_le_nat_alt by auto
qed

text \<open>The icon for a level: 3 down to the empty end of the level's range.\<close>

lemma two_bits_not: "0 \<le> k \<Longrightarrow> k < 4 \<Longrightarrow> NOT k AND 3 = 3 - (k :: int)"
proof -
  assume "0 \<le> k" "k < 4"
  then consider "k = 0" | "k = 1" | "k = 2" | "k = 3" by linarith
  then show ?thesis by cases simp_all
qed

lemma level_icon_eq:
  assumes "lev \<in> {2, 3, 4}"
  shows "level_icon cnt lev = Some (of_int (3 - uint cnt mod uint lev))"
proof -
  have l: "0 < uint lev" "uint lev \<le> 4" "lev \<noteq> 0" using assms by auto
  have "NOT (uint cnt mod uint lev) AND 3 = 3 - uint cnt mod uint lev"
    using l pos_mod_bound [OF l(1), of "uint cnt"] pos_mod_sign [OF l(1), of "uint cnt"] by (intro two_bits_not) linarith+
  then show ?thesis unfolding level_icon_def Let_def using l(3) by (simp only: if_False)
qed

lemma dis_level_ok:
  assumes "lev \<in> {1, 2, 3, 4, 5}" and "bat_ok bat" and "lcd_ok l"
  shows "\<exists>f. battery_dis_level lev (bat, l) =
     Some (if lev \<in> {2, 3, 4} then bat\<lparr>counter := count_down (counter bat)\<rparr> else bat, l\<lparr>fb := f\<rparr>) \<and> lcd_ok (l\<lparr>fb := f\<rparr>)"
proof -
  obtain f1 where f1: "on_fb tft_fill_battery_img l = Some (l\<lparr>fb := f1\<rparr>)" "lcd_ok (l\<lparr>fb := f1\<rparr>)"
    using on_fb_ok [OF assms(3), of tft_fill_battery_img] battery_img_ok by blast
  obtain f2 where f2: "on_fb (tft_display_battery_icon 0) (l\<lparr>fb := f1\<rparr>) = Some (l\<lparr>fb := f2\<rparr>)" "lcd_ok (l\<lparr>fb := f2\<rparr>)"
    using on_fb_ok [OF f1(2), of "tft_display_battery_icon 0"] icon_ok by auto
  have f3: "\<exists>f. on_fb (tft_display_battery_icon icon) (l\<lparr>fb := f2\<rparr>) = Some (l\<lparr>fb := f\<rparr>) \<and> lcd_ok (l\<lparr>fb := f\<rparr>)" for icon
    using on_fb_ok [OF f2(2), of "tft_display_battery_icon icon"] icon_ok by auto
  consider "lev = 1" | "lev = 5" | "lev \<in> {2, 3, 4}" using assms(1) by auto
  then show ?thesis
  proof cases
    case 1
    then show ?thesis using f1(1) f2(1) f3 [of 4] by (auto simp: battery_dis_level_def bat_levels)
  next
    case 2
    then show ?thesis using f1(1) f2 by (auto simp: battery_dis_level_def bat_levels)
  next
    case 3
    define c where "c = count_down (counter bat)"
    obtain icon where "level_icon c lev = Some icon" using level_icon_eq [OF 3] by blast
    moreover obtain f where "on_fb (tft_display_battery_icon icon) (l\<lparr>fb := f2\<rparr>) = Some (l\<lparr>fb := f\<rparr>)" "lcd_ok (l\<lparr>fb := f\<rparr>)" using f3 by blast
    moreover have "(let b = bat\<lparr>counter := counter bat - 1\<rparr> in if counter b = 0 then b\<lparr>counter := 120\<rparr> else b) = bat\<lparr>counter := c\<rparr>"
      by (simp add: c_def count_down_def)
    moreover have "lev \<noteq> 1" "lev \<noteq> 5" using 3 by auto
    ultimately show ?thesis using f1(1) f2(1) 3 by (auto simp: battery_dis_level_def bat_levels Let_def c_def [symmetric])
  qed
qed

lemma voltage_ok:
  assumes "0 \<le> volt" "volt < 1000000" and "length junk = 16" and "lcd_ok l"
  shows "\<exists>f. on_fb (lcd_display_voltage junk volt) l = Some (l\<lparr>fb := f\<rparr>) \<and> lcd_ok (l\<lparr>fb := f\<rparr>)"
  using on_fb_ok [OF assms(4), of "lcd_display_voltage junk volt"] display_voltage_ok [OF assms(1-3)] by blast

text \<open>What the picture leaves of the statics: the level, and the counter for the three blinking levels.\<close>

definition shown :: "int \<Rightarrow> battery \<Rightarrow> battery" where
  "shown volt bat =
     bat\<lparr>level := level_of volt, counter := if level_of volt \<in> {2, 3, 4} then count_down (counter bat) else counter bat\<rparr>"

lemma icon_display_ok:
  assumes "0 \<le> volt" "volt < 1000000" and "length junk = 16" and "bat_ok bat" and "lcd_ok l"
  shows "\<exists>f. battery_icon_display junk volt (bat, l) = Some (shown volt bat, l\<lparr>fb := f\<rparr>) \<and> lcd_ok (l\<lparr>fb := f\<rparr>)"
proof -
  define lev where "lev = level_of volt"
  obtain f1 where f1: "on_fb (lcd_display_voltage junk volt) l = Some (l\<lparr>fb := f1\<rparr>)" "lcd_ok (l\<lparr>fb := f1\<rparr>)"
    using voltage_ok [OF assms(1-3,5)] by blast
  have "\<exists>f. on_fb (lcd_display_voltage junk v) (l\<lparr>fb := f1\<rparr>) = Some (l\<lparr>fb := f\<rparr>) \<and> lcd_ok (l\<lparr>fb := f\<rparr>)" if "v \<in> {0, BAT_DIS_FULL}" for v
    using voltage_ok [OF _ _ assms(3) f1(2), of v] that by (auto simp: BAT_DIS_FULL_def)
  then obtain f2 where f2: "(if lev = BAT_LEVEL5 then on_fb (lcd_display_voltage junk BAT_DIS_FULL) (l\<lparr>fb := f1\<rparr>)
      else if lev = BAT_LEVEL1 then on_fb (lcd_display_voltage junk 0) (l\<lparr>fb := f1\<rparr>) else Some (l\<lparr>fb := f1\<rparr>)) = Some (l\<lparr>fb := f2\<rparr>)"
    "lcd_ok (l\<lparr>fb := f2\<rparr>)"
    using f1(2) by (metis insertI1 insertI2)
  have "bat_ok (bat\<lparr>level := lev\<rparr>)" using assms(4) by (simp add: bat_ok_def)
  from dis_level_ok [OF level_of_cases this f2(2), of volt]
  obtain f3 where "battery_dis_level lev (bat\<lparr>level := lev\<rparr>, l\<lparr>fb := f2\<rparr>) = Some (shown volt bat, l\<lparr>fb := f3\<rparr>)" "lcd_ok (l\<lparr>fb := f3\<rparr>)"
    by (auto simp: lev_def shown_def)
  then show ?thesis
    using f1(1) f2(1) by (auto simp: battery_icon_display_def battery_level_confirm_def lev_def [symmetric])
qed

lemma shown_ok: "bat_ok bat \<Longrightarrow> bat_ok (shown volt bat)"
  using count_down_range by (simp add: bat_ok_def shown_def)

text \<open>One step of the counter is one step of the picture; 120 is a multiple of the three cycle lengths.\<close>

lemma uint_count_down: "1 \<le> c \<Longrightarrow> uint (count_down c) = (if uint c = 1 then 120 else uint c - 1)"
proof -
  assume "1 \<le> c"
  then have "unat (c - 1) = unat c - 1" "1 \<le> unat c" by (simp_all add: unat_sub word_le_nat_alt)
  then have "uint (c - 1) = uint c - 1" using of_nat_unat [of "c - 1", where ?'a = int] of_nat_unat [of c, where ?'a = int] by linarith
  moreover have "c - 1 = 0 \<longleftrightarrow> uint c = 1" unfolding uint_0_iff [symmetric] calculation by auto
  ultimately show ?thesis by (simp add: count_down_def)
qed

lemma blink_mod:
  assumes "L \<in> {2, 3, 4 :: int}" and "1 \<le> c"
  shows "3 - (if c = 1 then 120 else c - 1) mod L = (if c mod L = 0 then 4 - L else 3 - c mod L + 1)"
proof -
  from assms(1) consider "L = 2" | "L = 3" | "L = 4" by auto
  then show ?thesis using assms(2) by cases (simp_all, presburger+)
qed

lemma level_icon_next:
  assumes "lev \<in> {2, 3, 4}" and "1 \<le> c" and "level_icon c lev = Some i"
  shows "level_icon (count_down c) lev = Some (if i = 3 then 4 - lev else i + 1)"
proof -
  have L: "uint lev \<in> {2, 3, 4}" "(of_int (uint lev) :: byte) = lev" using assms(1) by auto
  have c: "1 \<le> uint c" using assms(2) by (simp add: word_le_def)
  define k where "k = uint c mod uint lev"
  have i: "i = of_int (3 - k)" using assms(3) level_icon_eq [OF assms(1)] by (simp add: k_def)
  have "0 \<le> k" "k < 4" using L(1) pos_mod_sign [of "uint lev" "uint c"] pos_mod_bound [of "uint lev" "uint c"] by (auto simp: k_def)
  then consider "k = 0" | "k = 1" | "k = 2" | "k = 3" by linarith
  then have "i = 3 \<longleftrightarrow> k = 0" by cases (simp_all add: i)
  moreover have "level_icon (count_down c) lev = Some (of_int (if k = 0 then 4 - uint lev else 3 - k + 1))"
    unfolding level_icon_eq [OF assms(1)] uint_count_down [OF assms(2)] blink_mod [OF L(1) c] k_def ..
  ultimately show ?thesis by (simp add: i L(2))
qed

text \<open>One call of the manager.\<close>

lemma manager_spec:
  assumes "bat_ok bat" and "lcd_ok l" and "length junk = 16"
  shows "case hfc_battery_manager ipg rx fifo junk (bat, l) of
       None \<Rightarrow> 16 < length fifo
     | Some (bat', l') \<Rightarrow> length fifo \<le> 16 \<and> bat_ok bat' \<and> lcd_ok l' \<and> bat_voltage bat' = calc_adc_voltage (converted fifo)
         \<and> (if bat_loop bat = 5 then bat_loop bat' = 0 \<and> level bat' = level_of (uint (bat_voltage bat'))
            else bat_loop bat' = bat_loop bat + 1 \<and> level bat' = level bat \<and> counter bat' = counter bat \<and> fb l' = fb l)"
proof (cases "length fifo \<le> 16")
  case True
  define v where "v = calc_adc_voltage (converted fifo)"
  obtain b where b: "get_bat_voltage ipg rx fifo 0 (brd l) = Some (sint v, b)" "spi_ready (spi0_dev b)"
    using bat_voltage_eq [of "brd l" fifo ipg rx 0] assms(2) True by (auto simp: lcd_ok_def v_def)
  define bat1 where "bat1 = bat\<lparr>bat_voltage := v, bat_loop := bat_loop bat + 1\<rparr>"
  have l1: "lcd_ok (l\<lparr>brd := b\<rparr>)" using assms(2) b(2) by (simp add: lcd_ok_def)
  have run: "hfc_battery_manager ipg rx fifo junk (bat, l) =
      (if 5 < bat_loop bat1 then battery_icon_display junk (sint v) (bat1\<lparr>bat_loop := 0\<rparr>, l\<lparr>brd := b\<rparr>) else Some (bat1, l\<lparr>brd := b\<rparr>))"
    by (simp add: hfc_battery_manager_def battery_sample_def b(1) bat1_def Let_def)
  have v: "sint v = uint v" "uint v \<le> 21407" "0 \<le> uint v" using voltage_range [of fifo] by (simp_all add: v_def)
  show ?thesis
  proof (cases "bat_loop bat = 5")
    case l5: True
    have "bat_ok (bat1\<lparr>bat_loop := 0\<rparr>)" using assms(1) by (simp add: bat_ok_def bat1_def)
    moreover obtain f where "battery_icon_display junk (uint v) (bat1\<lparr>bat_loop := 0\<rparr>, l\<lparr>brd := b\<rparr>) =
        Some (shown (uint v) (bat1\<lparr>bat_loop := 0\<rparr>), l\<lparr>brd := b, fb := f\<rparr>)" "lcd_ok (l\<lparr>brd := b, fb := f\<rparr>)"
      using icon_display_ok [OF v(3) _ assms(3) calculation l1] v(2) by auto
    ultimately show ?thesis
      using run True l5 shown_ok by (auto simp: v(1) bat1_def v_def [symmetric] shown_def)
  next
    case False
    have "bat_loop bat + 1 \<le> 5"
      using False assms(1) unfolding bat_ok_def word_le_nat_alt by (simp add: unat_word_ariths word_unat_eq_iff)
    then show ?thesis using run True False assms(1) l1 by (auto simp: bat1_def v_def [symmetric] bat_ok_def)
  qed
next
  case False
  then have "get_bat_voltage ipg rx fifo 0 (brd l) = None" using bat_voltage_eq [of "brd l" fifo ipg rx 0] assms(2) by (simp add: lcd_ok_def)
  then show ?thesis using False by (simp add: hfc_battery_manager_def battery_sample_def)
qed

section \<open>Properties\<close>

text \<open>A display as \<open>tft_fw_init\<close> leaves it, and the statics at power-on.\<close>

definition lcd_on :: lcd where
  "lcd_on = \<lparr>brd = board_on, fb = replicate 76800 0, gwfb = [], LPCCR = 0, LGWCR = 0, tft_spi = True, lcd_init = 1\<rparr>"

definition bat_start :: battery where
  "bat_start = \<lparr>level = 0, counter = 120, bat_loop = 0, bat_voltage = 0\<rparr>"

lemma lcd_on_ok: "lcd_ok lcd_on"
  using board_on_ready by (simp add: lcd_ok_def lcd_on_def whole_frame_def)

lemma bat_start_ok: "bat_ok bat_start"
  by (simp add: bat_ok_def bat_start_def)



text \<open>(hfc_battery.c, \<open>battery_dis_level\<close>). A blinking level draws the icon after the one the counter stood for:
  the icons of a level run up to 3 and start again at 4 minus the level, also over the reload of the counter with
  120, and the counter stays between 1 and 120.\<close>

theorem battery_blink:
  assumes "bat_ok bat" and "lev \<in> {BAT_LEVEL2, BAT_LEVEL3, BAT_LEVEL4}" and "level_icon (counter bat) lev = Some i"
  shows "\<exists>c. battery_dis_level lev (bat, l) =
       do { l \<leftarrow> on_fb tft_fill_battery_img l;
            l \<leftarrow> on_fb (tft_display_battery_icon 0) l;
            l \<leftarrow> on_fb (tft_display_battery_icon (if i = 3 then 4 - lev else i + 1)) l;
            Some (bat\<lparr>counter := c\<rparr>, l) }
     \<and> level_icon c lev = Some (if i = 3 then 4 - lev else i + 1) \<and> 1 \<le> c \<and> c \<le> 120"
proof -
  have lev: "lev \<in> {2, 3, 4}" "lev \<noteq> BAT_LEVEL5" "lev \<noteq> BAT_LEVEL1" using assms(2) by (auto simp: bat_levels)
  define c where "c = count_down (counter bat)"
  have n: "level_icon c lev = Some (if i = 3 then 4 - lev else i + 1)"
    using level_icon_next [OF lev(1) _ assms(3)] assms(1) by (simp add: bat_ok_def c_def)
  have "(let b = bat\<lparr>counter := counter bat - 1\<rparr> in if counter b = 0 then b\<lparr>counter := 120\<rparr> else b) = bat\<lparr>counter := c\<rparr>"
    by (simp add: c_def count_down_def)
  then have "battery_dis_level lev (bat, l) =
       do { l \<leftarrow> on_fb tft_fill_battery_img l;
            l \<leftarrow> on_fb (tft_display_battery_icon 0) l;
            l \<leftarrow> on_fb (tft_display_battery_icon (if i = 3 then 4 - lev else i + 1)) l;
            Some (bat\<lparr>counter := c\<rparr>, l) }"
    using lev(2,3) n by (simp add: battery_dis_level_def Let_def)
  then show ?thesis using n count_down_range [of "counter bat"] assms(1) by (auto simp: bat_ok_def c_def)
qed

theorem battery_blink_witness:
  "\<exists>c. battery_dis_level 3 (bat_start, lcd_on) =
       do { l \<leftarrow> on_fb tft_fill_battery_img lcd_on;
            l \<leftarrow> on_fb (tft_display_battery_icon 0) l;
            l \<leftarrow> on_fb (tft_display_battery_icon (if 3 = (3 :: byte) then 4 - 3 else 3 + 1)) l;
            Some (bat_start\<lparr>counter := c\<rparr>, l) }
     \<and> level_icon c 3 = Some (if 3 = (3 :: byte) then 4 - 3 else 3 + 1) \<and> 1 \<le> c \<and> c \<le> 120"
  by (rule battery_blink [OF bat_start_ok]) (simp_all add: bat_levels bat_start_def level_icon_def)

text \<open>(hfc_battery.c, \<open>battery_level_confirm\<close>). The level as a function of the voltage, on every branch. It is
  not monotone: 7.70 V, which no range covers, falls back to the level of 6.08 V, while 7.69 V and 7.71 V show more.\<close>

theorem battery_level_exact:
  "battery_level_confirm vol bat =
     (let lev = (if vol < 608 then 5 else if vol < 751 \<or> vol = 770 then 4 else if vol < 770 then 3 else if vol \<le> 820 then 2 else 1)
      in (lev, bat\<lparr>level := lev\<rparr>))"
  unfolding battery_level_confirm_def level_of_def bat_levels bat_limits Let_def by auto

end
