(* ===== verification/Keypad_Proofs.thy ===== *)
theory Keypad_Proofs
  imports Keypad
begin

unbundle bit_operations_syntax

text \<open>
  The driver against an abstract keypad. The abstract state keeps the set of keys held at the last scan, the codes
  not yet collected, the long-press counter and the debounce state; positions are numbered row by row, so
  that position k is row k div 4 and column k mod 4. \<open>getc_refines\<close> is the simulation.
\<close>

section \<open>The abstract keypad\<close>

record akeypad =
  held :: "nat \<Rightarrow> bool"
  pend :: "nat \<Rightarrow> bool"
  acount :: nat
  along :: bool
  aspecial :: u32
  artkey :: u32
  atremble :: bool

definition positions :: "nat list" where
  "positions = [0..<20]"

definition down :: "(nat \<Rightarrow> bool) \<Rightarrow> nat list" where
  "down pressed = filter pressed positions"

text \<open>Positions whose state did not change since the last scan, the ones the long-press counter counts.\<close>

definition unchanged :: "(nat \<Rightarrow> bool) \<Rightarrow> (nat \<Rightarrow> bool) \<Rightarrow> nat list" where
  "unchanged h pressed = filter (\<lambda>k. h k = pressed k) positions"

definition ascan :: "(nat \<Rightarrow> bool) \<Rightarrow> akeypad \<Rightarrow> akeypad" where
  "ascan pressed a =
     (let n = acount a + length (unchanged (held a) pressed) in
      a\<lparr>held := pressed, pend := (\<lambda>k. pend a k \<or> (pressed k \<and> \<not> held a k)),
        acount := (if 300 < n then n - 301 else n), along := (along a \<or> 300 < n)\<rparr>)"

definition power_keys :: "nat list" where "power_keys = [0, 1, 2, 3]"
definition menu_keys :: "nat list" where "menu_keys = [0, 1, 2, 3, 4, 5, 6, 7, 12, 13, 14, 15]"

text \<open>What \<open>decode_keys\<close> makes of a list of positions: the two combinations, or up to three codes packed into a word.\<close>

definition packed :: "nat list \<Rightarrow> u32" where
  "packed ks = (let c = (\<lambda>i. if i < length ks then of_nat (ks ! i + 1) else 0) in
     push_bit 24 (of_nat (length ks)) OR push_bit 16 (c 2) OR push_bit 8 (c 1) OR c 0)"

definition adecode :: "nat list \<Rightarrow> akeypad \<Rightarrow> akeypad" where
  "adecode ks a =
     (if ks = power_keys then a\<lparr>artkey := KEY_PPOWER, aspecial := KEY_PPOWER\<rparr>
      else if ks = menu_keys then a\<lparr>artkey := KEY_MENU, aspecial := KEY_MENU\<rparr>
      else if length ks = 4 \<or> length ks = 12 then a
      else a\<lparr>artkey := packed ks\<rparr>)"

definition atremble_step :: "nat list \<Rightarrow> akeypad \<Rightarrow> akeypad" where
  "atremble_step ks a =
     (if ks = [] then a
      else if atremble a then (adecode ks a)\<lparr>atremble := False\<rparr>
      else a\<lparr>held := (\<lambda>_. False), atremble := True\<rparr>)"

text \<open>\<^term>\<open>None\<close>: more than sixteen codes do not fit into \<open>k_KeyV\<close>.\<close>

definition agetc :: "(nat \<Rightarrow> bool) \<Rightarrow> akeypad \<Rightarrow> (u32 \<times> akeypad) option" where
  "agetc pressed a =
     (let a1 = ascan pressed a in
      if down pressed = []
      then Some (0, a1\<lparr>held := (\<lambda>_. False), pend := (\<lambda>_. False), acount := 0, along := False, aspecial := 0, atremble := False\<rparr>)
      else
        let long = along a1; a2 = a1\<lparr>along := False\<rparr> in
        if long \<and> aspecial a = KEY_PPOWER then Some (KEY_LONG_POWER, a2)
        else if long \<and> aspecial a = KEY_MENU then Some (KEY_GOTO_MENU, a2)
        else
          let ks = filter (pend a2) positions in
          if 16 < length ks then None
          else Some (of_nat (length (down pressed)), atremble_step ks (a2\<lparr>pend := (\<lambda>_. False)\<rparr>)))"

section \<open>The hardware\<close>

text \<open>
  The keypad port as documented: columns are outputs and read back as written, and with a single column
  driven low, all others high and open drain, row i reads 0 exactly when the key of that row and column is down.
\<close>

definition kpp_wiring :: "(kpp_regs \<Rightarrow> u16) \<Rightarrow> (nat \<Rightarrow> bool) \<Rightarrow> bool" where
  "kpp_wiring pins pressed \<longleftrightarrow>
     (\<forall>r i. 8 \<le> i \<longrightarrow> bit (pins r) i = bit (KPDR r) i) \<and>
     (\<forall>r c i. c < 4 \<and> i < 5 \<and> (\<forall>k<8. bit (KPDR r) (8 + k) = (k \<noteq> c)) \<and> (\<forall>k<4. bit (KPCR r) (8 + k))
        \<longrightarrow> bit (pins r) i = (\<not> pressed (4 * i + c)))"

text \<open>A switch matrix without diodes that behaves so.\<close>

definition matrix_pins :: "(nat \<Rightarrow> bool) \<Rightarrow> kpp_regs \<Rightarrow> u16" where
  "matrix_pins pressed r = (KPDR r AND 0xff00) OR
     horner_sum of_bool 2 (map (\<lambda>i. list_all (\<lambda>c. bit (KPDR r) (8 + c) \<or> \<not> pressed (4 * i + c)) [0..<4]) [0..<5])"

lemma matrix_pins_wiring: "kpp_wiring (matrix_pins pressed) pressed"
proof -
  have all4: "list_all P [0..<4] \<longleftrightarrow> (\<forall>c<4. P c)" for P by (auto simp: list_all_iff)
  have hi: "bit (0xff00 :: u16) i \<longleftrightarrow> 8 \<le> i \<and> i < 16" for i
  proof -
    have "(0xff00 :: u16) = push_bit 8 (mask 8)" by (simp add: mask_eq_exp_minus_1)
    then show ?thesis by (simp only: bit_simps) auto
  qed
  have "bit (matrix_pins pressed r) i \<longleftrightarrow> (8 \<le> i \<and> bit (KPDR r) i) \<or>
      (i < 5 \<and> (\<forall>c<4. bit (KPDR r) (8 + c) \<or> \<not> pressed (4 * i + c)))" for r i
    unfolding matrix_pins_def bit_or_iff bit_and_iff hi all4
    by (auto simp: bit_horner_sum_bit_word_iff dest: bit_imp_le_length)
  then show ?thesis by (auto simp: kpp_wiring_def)
qed

section \<open>The simulation relation\<close>

definition shaped :: "u16 list ptr list ptr \<Rightarrow> (nat \<Rightarrow> u16) \<Rightarrow> bool" where
  "shaped p v \<longleftrightarrow> p = Blk (map (\<lambda>r. Blk (map (\<lambda>c. v (4 * r + c)) [0..<4])) [0..<5])"

definition kp_fixed :: "keypad \<Rightarrow> bool" where
  "kp_fixed kp \<longleftrightarrow> kpp_rows kp = 5 \<and> kpp_cols kp = 4 \<and> (\<exists>v. shaped (release_scancode kp) v)
     \<and> (\<exists>pv. prev_rcmap kp = Blk pv \<and> length pv = 5)"

definition code_of :: "(nat \<Rightarrow> bool) \<Rightarrow> nat \<Rightarrow> u16" where
  "code_of pnd k = (if pnd k then of_nat k else 0xffff)"

definition maps :: "u16 list ptr \<Rightarrow> (nat \<Rightarrow> bool) \<Rightarrow> bool" where
  "maps p h \<longleftrightarrow> (\<exists>m. p = Blk m \<and> length m = 5 \<and> (\<forall>r<5. \<forall>c<4. bit (m ! r) c = h (4 * r + c)))"

definition kp_rel :: "keypad \<Rightarrow> akeypad \<Rightarrow> bool" where
  "kp_rel kp a \<longleftrightarrow> kp_fixed kp \<and> maps (cur_rcmap kp) (held a) \<and> shaped (press_scancode kp) (code_of (pend a))
     \<and> acount a \<le> 300 \<and> long_key_count kp = of_nat (acount a) \<and> mxc_long_key_flag kp = of_bool (along a)
     \<and> special_key kp = aspecial a \<and> rtkey kp = artkey a \<and> key_tremble_times kp = of_bool (atremble a)"

section \<open>Arrays\<close>

lemma upt_small:
  "[0..<4] = [0, 1, 2, 3 :: nat]" "[0..<5] = [0, 1, 2, 3, 4 :: nat]"
  "[0..<12] = [0, 1, 2, 3, 4, 5, 6, 7, 8, 9, 10, 11 :: nat]"
  "[0..<20] = [0, 1, 2, 3, 4, 5, 6, 7, 8, 9, 10, 11, 12, 13, 14, 15, 16, 17, 18, 19 :: nat]"
  by (simp_all add: upt_rec)

lemma pos_split: "c < 4 \<Longrightarrow> 4 * r + c = k \<longleftrightarrow> r = k div 4 \<and> c = k mod (4 :: nat)"
  by auto

lemma shaped_get: "shaped p v \<Longrightarrow> k < 20 \<Longrightarrow> sc_get p (k div 4) (k mod 4) = Some (v k)"
  by (simp add: shaped_def sc_get_def rc_get_def load_def less_mult_imp_div_less)

lemma shaped_set:
  assumes "shaped p v" and k: "k < 20"
  shows "\<exists>p'. sc_set p (k div 4) (k mod 4) x = Some p' \<and> shaped p' (v(k := x))"
proof -
  let ?row = "\<lambda>v r. Blk (map (\<lambda>c. v (4 * r + c)) [0..<4])"
  have k5: "k div 4 < 5" using k by (simp add: less_mult_imp_div_less)
  have "(map (\<lambda>c. v (4 * (k div 4) + c)) [0..<4])[k mod 4 := x] = map (\<lambda>c. (v(k := x)) (4 * (k div 4) + c)) [0..<4]"
    by (rule nth_equalityI) (auto simp: nth_list_update pos_split)
  moreover have "(map (?row v) [0..<5])[k div 4 := ?row (v(k := x)) (k div 4)] = map (?row (v(k := x))) [0..<5]"
    using k5 by (intro nth_equalityI) (auto simp: nth_list_update pos_split)
  ultimately have "sc_set p (k div 4) (k mod 4) x = Some (Blk (map (?row (v(k := x))) [0..<5]))"
    using assms(1) k5 by (simp add: shaped_def sc_set_def rc_set_def load_def store_def)
  then show ?thesis by (simp add: shaped_def)
qed

lemma shaped_clear:
  assumes "shaped p v"
  shows "\<exists>p'. foldM (sc_clear_row 4) [0..<5] p = Some p' \<and> shaped p' (\<lambda>_. 0xffff)"
proof -
  have r: "replicate 4 a = [a, a, a, a]" for a :: u16 by (simp add: numeral_eq_Suc)
  show ?thesis
    using assms by (simp add: shaped_def upt_small sc_clear_row_def rc_fill_def load_def store_def copy_bytes_def r)
qed

lemma maps_get: "maps p h \<Longrightarrow> k < 20 \<Longrightarrow> \<exists>w. rc_get p (k div 4) = Some w \<and> bit w (k mod 4) = h k"
  by (force simp: maps_def rc_get_def load_def less_mult_imp_div_less)

lemma rc_fill5: "length m = 5 \<Longrightarrow> rc_fill (Blk m) x 5 = Some (Blk (replicate 5 x))"
  by (simp add: rc_fill_def copy_bytes_def)

lemma maps_fill: "maps p h \<Longrightarrow> \<exists>p'. rc_fill p 0 5 = Some p' \<and> maps p' (\<lambda>_. False) \<and> p' = Blk (replicate 5 0)"
  by (auto simp: maps_def rc_fill5)

lemma test_bit_zero: "TEST_BIT w i = 0 \<longleftrightarrow> \<not> bit w i"
  by (simp add: TEST_BIT_def push_bit_of_1 and_exp_eq_0_iff_not_bit)

lemma bit_BITSET: "c < 16 \<Longrightarrow> bit (BITSET w c) b \<longleftrightarrow> bit w b \<or> b = c"
  by (auto simp: BITSET_def bit_simps)

section \<open>Sampling\<close>

lemma sample_rows:
  assumes "n \<le> length m" and "n \<le> 16"
  shows "foldM (sample_row v col) [0..<n] (Blk m, k) =
     Some (Blk (map (\<lambda>i. if i < n \<and> \<not> bit v i then BITSET (m ! i) col else m ! i) [0..<length m]),
           k + length (filter (\<lambda>i. \<not> bit v i) [0..<n]))"
  using assms
proof (induction n)
  case 0
  then show ?case by (simp add: map_nth)
next
  case (Suc n)
  let ?m = "map (\<lambda>i. if i < n \<and> \<not> bit v i then BITSET (m ! i) col else m ! i) [0..<length m]"
  have "?m[n := BITSET (m ! n) col] = map (\<lambda>i. if i < Suc n \<and> \<not> bit v i then BITSET (m ! i) col else m ! i) [0..<length m]"
    if "\<not> bit v n" using Suc.prems that by (intro nth_equalityI) (auto simp: nth_list_update)
  moreover have "?m = map (\<lambda>i. if i < Suc n \<and> \<not> bit v i then BITSET (m ! i) col else m ! i) [0..<length m]"
    if "bit v n" using that by (auto simp: less_Suc_eq)
  ultimately show ?case
    using Suc by (auto simp: foldM_append foldM_Nil sample_row_def test_bit_zero rc_get_def rc_set_def load_def store_def)
qed

definition count_cols :: "(nat \<Rightarrow> bool) \<Rightarrow> nat \<Rightarrow> nat" where
  "count_cols pressed c = (\<Sum>j<c. length (filter (\<lambda>i. pressed (4 * i + j)) [0..<5]))"

lemma count_all: "count_cols pressed 4 = length (down pressed)"
proof -
  have l: "length (filter P xs) = sum_list (map (\<lambda>x. of_bool (P x)) xs)" for P and xs :: "nat list"
    by (induction xs) simp_all
  show ?thesis by (simp add: count_cols_def down_def positions_def l upt_small lessThan_nat_numeral lessThan_Suc numeral_eq_Suc ac_simps)
qed

lemma columns_regs:
  assumes "kpp_wiring pins pressed" and "c < 4" and r': "r' = column_low pins c (columns_high pins 4 r)"
  shows "i < 5 \<Longrightarrow> bit (pins r') i = (\<not> pressed (4 * i + c))"
proof -
  have hi: "bit (pins r) i = bit (KPDR r) i" if "8 \<le> i" for r i using assms(1) that by (simp add: kpp_wiring_def)
  have e: "columns_mask 4 = push_bit 8 (mask 4)"
    by (simp add: columns_mask_def mask_eq_exp_minus_1)
  have "(0xff00 :: int) = push_bit 8 (mask 8)" by (simp add: mask_eq_exp_minus_1)
  then have ff: "bit (0xff00 :: int) (8 + k)" if "k < 8" for k using that by (simp only: bit_simps) auto
  have cm: "bit (columns_mask 4) (8 + k)" if "k < 4" for k using that by (simp only: e bit_simps) auto
  have "\<forall>k<8. bit (KPDR r') (8 + k) = (k \<noteq> c)" "\<forall>k<4. bit (KPCR r') (8 + k)"
    unfolding r' using assms(2)
    by (auto simp: column_low_def columns_high_def Let_def bit_and_iff bit_or_iff bit_not_iff bit_push_bit_iff bit_exp_iff hi ff cm)
  then show "i < 5 \<Longrightarrow> bit (pins r') i = (\<not> pressed (4 * i + c))"
    using assms(1,2) unfolding kpp_wiring_def by blast
qed

lemma scan_cols:
  assumes w: "kpp_wiring pins pressed" and kp: "kpp_rows kp = 5" "kpp_cols kp = 4"
  shows "\<exists>s r m. foldM (scan_col pins) [0..<4] (kp\<lparr>cur_rcmap := Blk (replicate 5 0)\<rparr>, 0) = Some s
     \<and> s = (kp\<lparr>regs := r, cur_rcmap := Blk m\<rparr>, count_cols pressed 4) \<and> maps (Blk m) pressed"
proof -
  define I where "I c s \<longleftrightarrow> (\<exists>r m. s = (kp\<lparr>regs := r, cur_rcmap := Blk m\<rparr>, count_cols pressed c) \<and> length m = 5
    \<and> (\<forall>i<5. \<forall>b. bit (m ! i) b = (b < c \<and> pressed (4 * i + b))))" for c s
  have base: "I 0 (kp\<lparr>cur_rcmap := Blk (replicate 5 0)\<rparr>, 0)"
    unfolding I_def by (intro exI [of _ "regs kp"] exI [of _ "replicate 5 0"]) (simp add: count_cols_def)
  have step: "\<exists>s'. scan_col pins c s = Some s' \<and> I (Suc c) s'" if c: "c < 4" and "I c s" for c s
  proof -
    from that(2) obtain r m where s: "s = (kp\<lparr>regs := r, cur_rcmap := Blk m\<rparr>, count_cols pressed c)" "length m = 5"
      and m: "\<forall>i<5. \<forall>b. bit (m ! i) b = (b < c \<and> pressed (4 * i + b))" unfolding I_def by blast
    define r' where "r' = column_low pins c (columns_high pins 4 r)"
    define m' where "m' = map (\<lambda>i. if i < 5 \<and> \<not> bit (pins r') i then BITSET (m ! i) c else m ! i) [0..<5]"
    have row: "bit (pins r') i = (\<not> pressed (4 * i + c))" if "i < 5" for i
      using columns_regs [OF w c r'_def] that by simp
    then have "filter (\<lambda>i. \<not> bit (pins r') i) [0..<5] = filter (\<lambda>i. pressed (4 * i + c)) [0..<5]"
      by (intro filter_cong) auto
    then have "scan_col pins c s = Some (kp\<lparr>regs := r', cur_rcmap := Blk m'\<rparr>, count_cols pressed (Suc c))"
      using sample_rows [of 5 m "pins r'" c] s kp by (simp add: scan_col_def Let_def count_cols_def m'_def flip: r'_def)
    moreover have "\<forall>i<5. \<forall>b. bit (m' ! i) b = (b < Suc c \<and> pressed (4 * i + b))"
      using row m c by (auto simp: m'_def bit_BITSET less_Suc_eq)
    moreover have "length m' = 5" by (simp add: m'_def)
    ultimately show ?thesis unfolding I_def by blast
  qed
  obtain s where s: "foldM (scan_col pins) [0..<4] (kp\<lparr>cur_rcmap := Blk (replicate 5 0)\<rparr>, 0) = Some s" "I 4 s"
    using foldM_upto_inv [where I = I and f = "scan_col pins", OF base step] by blast
  from s(2) obtain r m where "s = (kp\<lparr>regs := r, cur_rcmap := Blk m\<rparr>, count_cols pressed 4)" "maps (Blk m) pressed"
    unfolding I_def maps_def by auto
  with s(1) show ?thesis by blast
qed

section \<open>Comparing the maps\<close>

lemma pos_bit: "c < 8 \<Longrightarrow> drop_bit c (w :: byte) AND 1 \<noteq> 0 \<longleftrightarrow> bit w c"
  by (simp add: and_one_eq bit_iff_odd_drop_bit mod_2_eq_odd)

lemma diff_pos:
  assumes k: "k < 20" and rel: "kpp_cols kp = 4" "maps (prev_rcmap kp) h" "maps (cur_rcmap kp) pressed"
    and ps: "shaped (press_scancode kp) v" and lc: "long_key_count kp = of_nat u" "u \<le> 300"
  shows "\<exists>x y p'. diff_col (k div 4) (k mod 4) kp = Some (kp\<lparr>KPress := x, iKeyState := y, press_scancode := p',
       long_key_count := of_nat (if h k = pressed k then if u = 300 then 0 else u + 1 else u),
       mxc_long_key_flag := (if h k = pressed k \<and> u = 300 then 1 else mxc_long_key_flag kp)\<rparr>)
     \<and> shaped p' (if pressed k \<and> \<not> h k then v(k := of_nat k) else v)"
proof -
  obtain p c where p: "rc_get (prev_rcmap kp) (k div 4) = Some p" "bit p (k mod 4) = h k"
    and c: "rc_get (cur_rcmap kp) (k div 4) = Some c" "bit c (k mod 4) = pressed k"
    using maps_get [OF rel(2) k] maps_get [OF rel(3) k] by blast
  have d: "drop_bit (k mod 4) (ucast (p XOR c) :: byte) AND 1 \<noteq> 0 \<longleftrightarrow> h k \<noteq> pressed k"
    using p(2) c(2) by (subst pos_bit) (auto simp: bit_simps)
  have z: "p AND BITSET 0 (k mod 4) = 0 \<longleftrightarrow> \<not> h k"
    using p(2) by (simp add: BITSET_def push_bit_of_1 and_exp_eq_0_iff_not_bit)
  obtain p' where p': "sc_set (press_scancode kp) (k div 4) (k mod 4) (of_nat k) = Some p'" "shaped p' (v(k := of_nat k))"
    using shaped_set [OF ps k] by blast
  have n: "LONG_KEY_COUNTER < long_key_count kp + 1 \<longleftrightarrow> u = 300"
    using lc by (auto simp: LONG_KEY_COUNTER_def word_less_nat_alt unat_add_u32 unat_of_nat)
  show ?thesis
  proof (cases "h k = pressed k")
    case True
    then have "\<not> drop_bit (k mod 4) (ucast (p XOR c) :: byte) AND 1 \<noteq> 0" using d by simp
    then have "diff_col (k div 4) (k mod 4) kp = Some (if u = 300 then kp\<lparr>long_key_count := 0, mxc_long_key_flag := 1\<rparr>
        else kp\<lparr>long_key_count := long_key_count kp + 1\<rparr>)"
      using p(1) c(1) n by (simp add: diff_col_def Let_def)
    then show ?thesis
      using True ps lc by (intro exI [of _ "KPress kp"] exI [of _ "iKeyState kp"] exI [of _ "press_scancode kp"]) (auto simp: add.commute)
  next
    case False
    then have "drop_bit (k mod 4) (ucast (p XOR c) :: byte) AND 1 \<noteq> 0" using d by simp
    then have "diff_col (k div 4) (k mod 4) kp = Some (if h k then kp else kp\<lparr>KPress := 1, iKeyState := KStateUp, press_scancode := p'\<rparr>)"
      using p(1) c(1) z p'(1) rel(1) by (simp add: diff_col_def Let_def mult.commute [of _ 4])
    then show ?thesis
      using False ps lc p'(2)
      by (intro exI [of _ "if h k then KPress kp else 1"] exI [of _ "if h k then iKeyState kp else KStateUp"]
          exI [of _ "if h k then press_scancode kp else p'"]) auto
  qed
qed

definition bump :: "nat \<Rightarrow> nat" where
  "bump n = (if 300 < n then n - 301 else n)"

lemma diff_all:
  assumes kp: "kpp_rows kp = 5" "kpp_cols kp = 4" "maps (prev_rcmap kp) h" "maps (cur_rcmap kp) pressed"
    and ps: "shaped (press_scancode kp) (code_of pnd)"
    and lc: "long_key_count kp = of_nat u" "u \<le> 300" "mxc_long_key_flag kp = of_bool f"
  defines "t \<equiv> u + length (unchanged h pressed)"
  shows "\<exists>x y p'. foldM diff_row [0..<5] kp = Some (kp\<lparr>KPress := x, iKeyState := y, press_scancode := p',
       long_key_count := of_nat (bump t), mxc_long_key_flag := of_bool (f \<or> 300 < t)\<rparr>)
     \<and> shaped p' (code_of (\<lambda>k. pnd k \<or> pressed k \<and> \<not> h k))"
proof -
  define n_of where "n_of n = u + length (filter (\<lambda>k. h k = pressed k) [0..<n])" for n
  define I where "I n s \<longleftrightarrow> (\<exists>x y p'. s = kp\<lparr>KPress := x, iKeyState := y, press_scancode := p',
       long_key_count := of_nat (bump (n_of n)), mxc_long_key_flag := of_bool (f \<or> 300 < n_of n)\<rparr>
     \<and> shaped p' (code_of (\<lambda>k. pnd k \<or> k < n \<and> pressed k \<and> \<not> h k)))" for n s
  have base: "I 0 kp"
    unfolding I_def n_of_def bump_def using ps lc
    by (intro exI [of _ "KPress kp"] exI [of _ "iKeyState kp"] exI [of _ "press_scancode kp"]) simp
  have step: "\<exists>s'. diff_col (n div 4) (n mod 4) s = Some s' \<and> I (Suc n) s'" if n: "n < 20" and "I n s" for n s
  proof -
    from that(2) obtain x y p' where s: "s = kp\<lparr>KPress := x, iKeyState := y, press_scancode := p',
       long_key_count := of_nat (bump (n_of n)), mxc_long_key_flag := of_bool (f \<or> 300 < n_of n)\<rparr>"
      and p': "shaped p' (code_of (\<lambda>k. pnd k \<or> k < n \<and> pressed k \<and> \<not> h k))" unfolding I_def by blast
    have le: "n_of n \<le> 320" using length_filter_le [of "\<lambda>k. h k = pressed k" "[0..<n]"] n lc(2) unfolding n_of_def by simp
    then have b: "bump (n_of n) \<le> 300" by (auto simp: bump_def)
    have v: "(if pressed n \<and> \<not> h n then (code_of (\<lambda>k. pnd k \<or> k < n \<and> pressed k \<and> \<not> h k))(n := of_nat n)
        else code_of (\<lambda>k. pnd k \<or> k < n \<and> pressed k \<and> \<not> h k)) = code_of (\<lambda>k. pnd k \<or> k < Suc n \<and> pressed k \<and> \<not> h k)"
      by (auto simp: code_of_def less_Suc_eq fun_eq_iff)
    have c: "(if h n = pressed n then if bump (n_of n) = 300 then 0 else bump (n_of n) + 1 else bump (n_of n)) = bump (n_of (Suc n))"
      "(if h n = pressed n \<and> bump (n_of n) = 300 then 1 else of_bool (f \<or> 300 < n_of n)) = (of_bool (f \<or> 300 < n_of (Suc n)) :: u32)"
      using le by (auto simp: n_of_def bump_def)
    have at: "kpp_cols s = 4" "maps (prev_rcmap s) h" "maps (cur_rcmap s) pressed"
      "shaped (press_scancode s) (code_of (\<lambda>k. pnd k \<or> k < n \<and> pressed k \<and> \<not> h k))"
      "long_key_count s = of_nat (bump (n_of n))" using kp p' by (simp_all add: s)
    have fl: "mxc_long_key_flag s = of_bool (f \<or> 300 < n_of n)" by (simp add: s)
    from diff_pos [OF n at b] obtain x1 y1 p1 where
      "diff_col (n div 4) (n mod 4) s = Some (s\<lparr>KPress := x1, iKeyState := y1, press_scancode := p1,
         long_key_count := of_nat (bump (n_of (Suc n))), mxc_long_key_flag := of_bool (f \<or> 300 < n_of (Suc n))\<rparr>)"
      and "shaped p1 (code_of (\<lambda>k. pnd k \<or> k < Suc n \<and> pressed k \<and> \<not> h k))"
      unfolding v fl c by blast
    then show ?thesis unfolding I_def s by auto
  qed
  have "foldM diff_row [0..<5] kp = foldM (\<lambda>r. foldM (diff_col r) [0..<4]) [0..<5] kp"
  proof (rule foldM_cong_inv [where Q = "\<lambda>kp. kpp_cols kp = 4"])
    show "kpp_cols s' = 4" if "kpp_cols s = 4" "foldM (diff_col x) [0..<4] s = Some s'" for x s s'
      by (rule foldM_keeps [OF that(2)]) (use that(1) in \<open>auto simp: diff_col_def Let_def bind_eq_Some_conv split: if_splits\<close>)
  qed (use kp in \<open>simp_all add: diff_row_def\<close>)
  also have "\<dots> = foldM (\<lambda>k. diff_col (k div 4) (k mod 4)) [0..<20] kp" using foldM_nested [of 4 diff_col 5 kp] by simp
  finally obtain s where "foldM diff_row [0..<5] kp = Some s" "I 20 s"
    using foldM_upto_inv [where I = I and f = "\<lambda>k. diff_col (k div 4) (k mod 4)", OF base step] by auto
  moreover have "code_of (\<lambda>k. pnd k \<or> k < 20 \<and> pressed k \<and> \<not> h k) k = code_of (\<lambda>k. pnd k \<or> pressed k \<and> \<not> h k) k" if "k < 20" for k
    using that by (simp add: code_of_def)
  then have "shaped p' (code_of (\<lambda>k. pnd k \<or> k < 20 \<and> pressed k \<and> \<not> h k)) = shaped p' (code_of (\<lambda>k. pnd k \<or> pressed k \<and> \<not> h k))" for p'
    unfolding shaped_def by (intro arg_cong [of _ _ "\<lambda>x. p' = Blk x"] map_cong) auto
  ultimately show ?thesis unfolding I_def n_of_def t_def unchanged_def positions_def by auto
qed

lemma scan_refines:
  assumes rel: "kp_rel kp a" and w: "kpp_wiring pins pressed"
  shows "\<exists>kp'. mxc_kpp_scan_matrix pins stat kp = Some (length (down pressed), kp') \<and> kp_rel kp' (ascan pressed a)
     \<and> k_KeyV kp' = k_KeyV kp"
proof -
  have kp: "kpp_rows kp = 5" "kpp_cols kp = 4" using rel by (simp_all add: kp_rel_def kp_fixed_def)
  obtain m where m: "cur_rcmap kp = Blk m" "length m = 5" using rel by (auto simp: kp_rel_def maps_def)
  obtain pv where pv: "prev_rcmap kp = Blk pv" "length pv = 5" using rel by (auto simp: kp_rel_def kp_fixed_def)
  define r0 where "r0 = (let r = columns_high pins 4 (regs kp) in r\<lparr>KPDR := pins r OR 0xff00\<rparr>)"
  define kp0 where "kp0 = kp\<lparr>prev_rcmap := Blk m, regs := r0\<rparr>"
  have upd: "kp\<lparr>prev_rcmap := Blk m, cur_rcmap := c, regs := r0\<rparr> = kp0\<lparr>cur_rcmap := c\<rparr>" for c by (simp add: kp0_def)
  have "scan_sample pins kp = foldM (scan_col pins) [0..<4] (kp0\<lparr>cur_rcmap := Blk (replicate 5 0)\<rparr>, 0)"
    using m pv kp by (simp add: scan_sample_def rc_copy_def rc_fill5 copy_bytes_def Let_def r0_def flip: upd)
  moreover have "kpp_rows kp0 = 5" "kpp_cols kp0 = 4" using kp by (simp_all add: kp0_def)
  ultimately obtain r m' where ss: "scan_sample pins kp = Some (kp0\<lparr>regs := r, cur_rcmap := Blk m'\<rparr>, length (down pressed))"
    and m': "maps (Blk m') pressed" using scan_cols [OF w, of kp0] by (auto simp: count_all)
  define r2 where "r2 = (let r = r\<lparr>KPDR := 0\<rparr> in
    r\<lparr>KPSR := stat r OR KBD_STAT_KPKD OR KBD_STAT_KPKR OR KBD_STAT_KRSS OR KBD_STAT_KDSC\<rparr>)"
  define kp1 where "kp1 = kp0\<lparr>regs := r2, cur_rcmap := Blk m'\<rparr>"
  have k1: "kpp_rows kp1 = 5" "kpp_cols kp1 = 4" "maps (prev_rcmap kp1) (held a)" "maps (cur_rcmap kp1) pressed"
    "shaped (press_scancode kp1) (code_of (pend a))" "long_key_count kp1 = of_nat (acount a)" "acount a \<le> 300"
    "mxc_long_key_flag kp1 = of_bool (along a)"
    using rel m m' by (simp_all add: kp1_def kp0_def kp kp_rel_def)
  from diff_all [OF k1] obtain x y p' where d: "foldM diff_row [0..<5] kp1 = Some (kp1\<lparr>KPress := x, iKeyState := y,
      press_scancode := p', long_key_count := of_nat (bump (acount a + length (unchanged (held a) pressed))),
      mxc_long_key_flag := of_bool (along a \<or> 300 < acount a + length (unchanged (held a) pressed))\<rparr>)"
    and p': "shaped p' (code_of (\<lambda>k. pend a k \<or> pressed k \<and> \<not> held a k))" by blast
  have le: "length (unchanged (held a) pressed) \<le> 20"
    using length_filter_le [of _ positions] by (simp add: unchanged_def positions_def)
  have "kp0\<lparr>regs := r, cur_rcmap := Blk m', regs := r2\<rparr> = kp1" by (simp add: kp1_def)
  moreover have "kpp_rows kp0 = 5" using kp by (simp add: kp0_def)
  ultimately have "mxc_kpp_scan_matrix pins stat kp = do { kp2 \<leftarrow> foldM diff_row [0..<5] kp1; Some (length (down pressed), kp2) }"
    using ss by (simp add: mxc_kpp_scan_matrix_def Let_def r2_def)
  moreover have "kp_fixed kp1" using rel m by (auto simp: kp_rel_def kp_fixed_def kp1_def kp0_def)
  ultimately show ?thesis
    using rel m' p' le k1(7) d by (auto simp: kp_rel_def kp_fixed_def kp1_def kp0_def ascan_def Let_def bump_def)
qed

section \<open>Collecting the codes\<close>

definition keyv :: "nat list \<Rightarrow> byte list" where
  "keyv ks = of_nat (length ks) # map (\<lambda>k. of_nat (k + 1)) ks @ replicate (16 - length ks) 0"

lemma keyv_Nil: "keyv [] = replicate 17 0"
  by (simp add: keyv_def numeral_eq_Suc)

lemma code_of_iff: "k < 20 \<Longrightarrow> code_of P k \<noteq> 0xffff \<longleftrightarrow> P k"
  by (simp add: code_of_def word_unat_eq_iff unat_of_nat)

lemma collect_pos:
  assumes "shaped (press_scancode kp) (code_of P)" and k: "k < 20" and "k_KeyV kp = keyv ks" and "length ks \<le> 16"
  shows "\<not> P k \<Longrightarrow> collect_col (k div 4) (k mod 4) (kp, 1 + length ks) = Some (kp, 1 + length ks)"
    and "P k \<Longrightarrow> length ks = 16 \<Longrightarrow> collect_col (k div 4) (k mod 4) (kp, 1 + length ks) = None"
    and "P k \<Longrightarrow> length ks < 16 \<Longrightarrow> \<exists>p'. collect_col (k div 4) (k mod 4) (kp, 1 + length ks) =
         Some (kp\<lparr>k_KeyV := keyv (ks @ [k]), press_scancode := p'\<rparr>, 1 + length (ks @ [k])) \<and> shaped p' (code_of (P(k := False)))"
proof -
  have g: "sc_get (press_scancode kp) (k div 4) (k mod 4) = Some (code_of P k)" using shaped_get [OF assms(1) k] .
  obtain p' where p': "sc_set (press_scancode kp) (k div 4) (k mod 4) 0xffff = Some p'" "shaped p' ((code_of P)(k := 0xffff))"
    using shaped_set [OF assms(1) k] by blast
  have e: "(code_of P)(k := 0xffff) = code_of (P(k := False))" by (auto simp: code_of_def fun_eq_iff)
  have len: "length (keyv ks) = 17" using assms(4) by (simp add: keyv_def)
  have kv: "(keyv ks)[0 := of_nat (length ks) + 1, Suc (length ks) := of_nat (k + 1)] = keyv (ks @ [k])" if "length ks < 16"
  proof -
    have "replicate (16 - length ks) (0 :: byte) = 0 # replicate (16 - Suc (length ks)) 0"
      using that by (simp add: Suc_diff_Suc flip: replicate_Suc)
    then show ?thesis by (simp add: keyv_def list_update_append add.commute)
  qed
  have u: "ucast (code_of P k + 1) = (of_nat (k + 1) :: byte)" if "P k"
    using that k by (simp add: code_of_def word_unat_eq_iff unat_of_nat unsigned_ucast_eq take_bit_eq_mod unat_word_ariths)
  note facts = collect_col_def load_def store_def g assms(3) len
  show "\<not> P k \<Longrightarrow> collect_col (k div 4) (k mod 4) (kp, 1 + length ks) = Some (kp, 1 + length ks)"
    using code_of_iff [OF k, of P] by (simp add: facts)
  show "P k \<Longrightarrow> length ks = 16 \<Longrightarrow> collect_col (k div 4) (k mod 4) (kp, 1 + length ks) = None"
    using code_of_iff [OF k, of P] by (simp add: facts)
  have "keyv ks ! 0 = of_nat (length ks)" by (simp add: keyv_def)
  then show "P k \<Longrightarrow> length ks < 16 \<Longrightarrow> \<exists>p'. collect_col (k div 4) (k mod 4) (kp, 1 + length ks) =
       Some (kp\<lparr>k_KeyV := keyv (ks @ [k]), press_scancode := p'\<rparr>, 1 + length (ks @ [k])) \<and> shaped p' (code_of (P(k := False)))"
    using code_of_iff [OF k, of P] p' u kv e by (intro exI [of _ p']) (simp add: facts)
qed

lemma collect_upto:
  assumes kp: "shaped (press_scancode kp) (code_of P)" "k_KeyV kp = replicate 17 0" and "n \<le> 20"
  defines "ks \<equiv> filter P [0..<n]"
  shows "if length ks \<le> 16
     then \<exists>p'. foldM (\<lambda>k. collect_col (k div 4) (k mod 4)) [0..<n] (kp, 1) =
            Some (kp\<lparr>k_KeyV := keyv ks, press_scancode := p'\<rparr>, 1 + length ks) \<and> shaped p' (code_of (\<lambda>k. P k \<and> n \<le> k))
     else foldM (\<lambda>k. collect_col (k div 4) (k mod 4)) [0..<n] (kp, 1) = None"
  using assms(3) unfolding ks_def
proof (induction n)
  case 0
  have "kp\<lparr>k_KeyV := keyv [], press_scancode := press_scancode kp\<rparr> = kp" using kp(2) by (simp add: keyv_Nil)
  then show ?case using kp(1) by (intro if_P [THEN iffD2] exI [of _ "press_scancode kp"]) (simp_all flip: kp(2))
next
  case (Suc n)
  let ?ks = "filter P [0..<n]"
  show ?case
  proof (cases "length ?ks \<le> 16")
    case True
    then obtain p' where f: "foldM (\<lambda>k. collect_col (k div 4) (k mod 4)) [0..<n] (kp, 1) =
        Some (kp\<lparr>k_KeyV := keyv ?ks, press_scancode := p'\<rparr>, 1 + length ?ks)"
      and p': "shaped p' (code_of (\<lambda>k. P k \<and> n \<le> k))" using Suc by auto
    let ?kp = "kp\<lparr>k_KeyV := keyv ?ks, press_scancode := p'\<rparr>"
    have sh: "shaped (press_scancode ?kp) (code_of (\<lambda>k. P k \<and> n \<le> k))" "k_KeyV ?kp = keyv ?ks" using p' by simp_all
    have fin: "(\<lambda>k. P k \<and> n \<le> k)(n := False) = (\<lambda>k. P k \<and> Suc n \<le> k)" by (auto simp: fun_eq_iff)
    have keep: "\<not> P n \<Longrightarrow> (\<lambda>k. P k \<and> n \<le> k) = (\<lambda>k. P k \<and> Suc n \<le> k)" by (auto simp: fun_eq_iff le_eq_less_or_eq Suc_le_eq)
    have "n < 20" using Suc.prems by simp
    note c = collect_pos [OF sh(1) this sh(2) True, unfolded fin]
    consider "\<not> P n" | "P n" "length ?ks = 16" | "P n" "length ?ks < 16" using True by linarith
    then show ?thesis
    proof cases
      case 1
      then show ?thesis using c(1) f p' True keep by (auto simp: foldM_append foldM_Nil)
    next
      case 2
      then show ?thesis using c(2) f by (simp add: foldM_append)
    next
      case 3
      then show ?thesis using c(3) f by (auto simp: foldM_append foldM_Nil)
    qed
  next
    case False
    then show ?thesis using Suc by (simp add: foldM_append)
  qed
qed

lemma collect_all:
  assumes kp: "shaped (press_scancode kp) (code_of P)" "k_KeyV kp = replicate 17 0" and rc: "kpp_cols kp = 4"
  defines "ks \<equiv> filter P positions"
  shows "if length ks \<le> 16
     then \<exists>p'. foldM collect_row [0..<5] (kp, 1) = Some (kp\<lparr>k_KeyV := keyv ks, press_scancode := p'\<rparr>, 1 + length ks)
            \<and> shaped p' (code_of (\<lambda>_. False))
     else foldM collect_row [0..<5] (kp, 1) = None"
proof -
  have "foldM collect_row [0..<5] (kp, 1) = foldM (\<lambda>r. foldM (collect_col r) [0..<4]) [0..<5] (kp, 1)"
  proof (rule foldM_cong_inv [where Q = "\<lambda>s. kpp_cols (fst s) = 4"])
    show "kpp_cols (fst s') = 4" if "kpp_cols (fst s) = 4" "foldM (collect_col x) [0..<4] s = Some s'" for x s s'
      by (rule foldM_keeps [OF that(2)])
        (use that(1) in \<open>auto simp: collect_col_def bind_eq_Some_conv split: if_splits prod.splits\<close>)
  qed (use rc in \<open>auto simp: collect_row_def split: prod.splits\<close>)
  also have "\<dots> = foldM (\<lambda>k. collect_col (k div 4) (k mod 4)) [0..<20] (kp, 1)"
    using foldM_nested [of 4 collect_col 5 "(kp, 1)"] by simp
  finally have f: "foldM collect_row [0..<5] (kp, 1) = foldM (\<lambda>k. collect_col (k div 4) (k mod 4)) [0..<20] (kp, 1)" .
  have e: "shaped p' (code_of (\<lambda>k. P k \<and> 20 \<le> k)) = shaped p' (code_of (\<lambda>_. False))" for p'
    unfolding shaped_def by (intro arg_cong [of _ _ "\<lambda>x. p' = Blk x"] map_cong) (auto simp: code_of_def)
  show ?thesis using collect_upto [OF kp order_refl] unfolding f ks_def positions_def e .
qed

section \<open>Decoding\<close>

lemma byte_code: "k < 20 \<Longrightarrow> (of_nat (k + 1) :: byte) = x \<longleftrightarrow> k + 1 = unat x"
  by (simp only: word_unat_eq_iff unat_of_nat) simp

lemma keyv_head: "length ks \<le> 16 \<Longrightarrow> keyv ks ! 0 = x \<longleftrightarrow> length ks = unat x"
  by (simp add: keyv_def word_unat_eq_iff unat_of_nat)

lemma keyv_nth:
  "1 \<le> i \<Longrightarrow> i \<le> 16 \<Longrightarrow> length ks \<le> 16 \<Longrightarrow>
     keyv ks ! i = (if i \<le> length ks then of_nat (ks ! (i - 1) + 1) else 0)"
  by (auto simp: keyv_def nth_Cons' nth_append)

text \<open>The array holds exactly the codes of a list of positions.\<close>

lemma keyv_is:
  assumes "length ks = length t" and "length t \<le> 16" and "set ks \<subseteq> {..<20}" and "set t \<subseteq> {..<20}"
  shows "list_all (\<lambda>i. keyv ks ! (i + 1) = of_nat (t ! i + 1)) [0..<length t] \<longleftrightarrow> ks = t"
proof -
  have "keyv ks ! (i + 1) = of_nat (t ! i + 1) \<longleftrightarrow> ks ! i = t ! i" if "i < length t" for i
  proof -
    have "ks ! i \<in> set ks" "t ! i \<in> set t" using assms(1) that by simp_all
    then have "ks ! i < 20" "t ! i < 20" using assms(3,4) by auto
    moreover have "keyv ks ! (i + 1) = of_nat (ks ! i + 1)" using that assms(1,2) by (simp add: keyv_nth del: of_nat_add)
    ultimately show ?thesis using byte_code [of "ks ! i" "of_nat (t ! i + 1)"] by (simp only: unat_of_nat) simp
  qed
  then have "list_all (\<lambda>i. keyv ks ! (i + 1) = of_nat (t ! i + 1)) [0..<length t] \<longleftrightarrow> (\<forall>i<length t. ks ! i = t ! i)"
    unfolding list_all_iff set_upt by (simp add: Ball_def del: of_nat_add)
  also have "\<dots> \<longleftrightarrow> ks = t" unfolding list_eq_iff_nth_eq assms(1) by simp
  finally show ?thesis .
qed

lemma decode_four: "length ks = 4 \<Longrightarrow> set ks \<subseteq> {..<20} \<Longrightarrow>
    keyv ks ! 4 = 4 \<and> keyv ks ! 3 = 3 \<and> keyv ks ! 2 = 2 \<and> keyv ks ! 1 = 1 \<longleftrightarrow> ks = power_keys"
proof -
  assume "length ks = 4" "set ks \<subseteq> {..<20}"
  moreover have l: "length power_keys = 4" "set power_keys \<subseteq> {..<20}" by (simp_all add: power_keys_def)
  ultimately have "list_all (\<lambda>i. keyv ks ! (i + 1) = of_nat (power_keys ! i + 1)) [0..<4] \<longleftrightarrow> ks = power_keys"
    using keyv_is [of ks power_keys, unfolded l(1)] by simp
  then show ?thesis by (simp only: upt_small list.pred_inject) (auto simp: power_keys_def simp del: One_nat_def)
qed

lemma decode_twelve: "length ks = 12 \<Longrightarrow> set ks \<subseteq> {..<20} \<Longrightarrow>
    keyv ks ! 12 = 16 \<and> keyv ks ! 11 = 15 \<and> keyv ks ! 10 = 14 \<and> keyv ks ! 9 = 13 \<and> keyv ks ! 8 = 8 \<and> keyv ks ! 7 = 7 \<and> keyv ks ! 6 = 6
      \<and> keyv ks ! 5 = 5 \<and> keyv ks ! 4 = 4 \<and> keyv ks ! 3 = 3 \<and> keyv ks ! 2 = 2 \<and> keyv ks ! 1 = 1 \<longleftrightarrow> ks = menu_keys"
proof -
  assume "length ks = 12" "set ks \<subseteq> {..<20}"
  moreover have l: "length menu_keys = 12" "set menu_keys \<subseteq> {..<20}" by (simp_all add: menu_keys_def)
  ultimately have "list_all (\<lambda>i. keyv ks ! (i + 1) = of_nat (menu_keys ! i + 1)) [0..<12] \<longleftrightarrow> ks = menu_keys"
    using keyv_is [of ks menu_keys, unfolded l(1)] by simp
  then show ?thesis by (simp only: upt_small list.pred_inject) (auto simp: menu_keys_def simp del: One_nat_def)
qed

lemma four_bytes:
  fixes a b c d :: byte
  defines "w \<equiv> push_bit 24 (ucast a) OR push_bit 16 (ucast b) OR push_bit 8 (ucast c) OR ucast d :: u32"
  shows "drop_bit 24 w = ucast a" "w AND 0xff = ucast d"
proof -
  show "drop_bit 24 w = ucast a"
    unfolding w_def by (rule bit_word_eqI) (auto simp: bit_simps dest: bit_imp_le_length)
  have "w AND mask 8 = ucast d"
    unfolding w_def by (rule bit_word_eqI) (auto simp: bit_simps dest: bit_imp_le_length)
  then show "w AND 0xff = ucast d" by (simp add: mask_eq_exp_minus_1)
qed

lemma ucast_small: "n < 256 \<Longrightarrow> ucast (of_nat n :: byte) = (of_nat n :: u32)"
  by (simp add: word_unat_eq_iff unsigned_ucast_eq take_bit_eq_mod unat_of_nat)

lemma packed_keyv:
  assumes "length ks \<le> 16" and "set ks \<subseteq> {..<20}"
  shows "push_bit 24 (ucast (keyv ks ! 0)) OR push_bit 16 (ucast (keyv ks ! 3)) OR push_bit 8 (ucast (keyv ks ! 2)) OR ucast (keyv ks ! 1)
     = packed ks"
proof -
  have "ucast (keyv ks ! i) = (if i - 1 < length ks then of_nat (ks ! (i - 1) + 1) else 0 :: u32)" if "1 \<le> i" "i \<le> 3" for i
  proof (cases "i \<le> length ks")
    case True
    then have "ks ! (i - 1) \<in> set ks" using that by simp
    then have "ks ! (i - 1) < 20" using assms(2) by auto
    then show ?thesis using that True assms(1) ucast_small [of "ks ! (i - 1) + 1"] by (simp add: keyv_nth del: of_nat_add of_nat_Suc) linarith
  next
    case False
    then show ?thesis using that assms(1) by (simp add: keyv_nth) linarith
  qed
  from this [of 1] this [of 2] this [of 3] show ?thesis
    using ucast_small [of "length ks"] assms(1) by (simp add: packed_def keyv_def [of ks])
qed

lemma decode_keys_eq:
  assumes kp: "k_KeyV kp = keyv ks" and ks: "length ks \<le> 16" "set ks \<subseteq> {..<20}"
  shows "decode_keys kp = kp\<lparr>rtkey := (if ks = power_keys then KEY_PPOWER else if ks = menu_keys then KEY_MENU
       else if length ks = 4 \<or> length ks = 12 then rtkey kp else packed ks),
     special_key := (if ks = power_keys then KEY_PPOWER else if ks = menu_keys then KEY_MENU else special_key kp)\<rparr>"
proof -
  have l: "length power_keys = 4" "length menu_keys = 12" by (simp_all add: power_keys_def menu_keys_def)
  have h: "keyv ks ! 0 = 4 \<longleftrightarrow> length ks = 4" "keyv ks ! 0 = 12 \<longleftrightarrow> length ks = 12" using keyv_head [OF ks(1)] by simp_all
  consider "length ks = 4" | "length ks = 12" | "length ks \<noteq> 4" "length ks \<noteq> 12" by blast
  then show ?thesis
  proof cases
    case 1
    then show ?thesis using decode_four [OF 1 ks(2)] h l by (auto simp: decode_keys_def kp Let_def)
  next
    case 2
    then show ?thesis using decode_twelve [OF 2 ks(2)] h l by (auto simp: decode_keys_def kp Let_def)
  next
    case 3
    then show ?thesis using packed_keyv [OF ks] h l by (auto simp: decode_keys_def kp Let_def)
  qed
qed

section \<open>The simulation\<close>

lemma kp_rel_keyv [simp]: "kp_rel (kp\<lparr>k_KeyV := v\<rparr>) a = kp_rel kp a"
  by (simp add: kp_rel_def kp_fixed_def)

lemma tremble_refines:
  assumes rel: "kp_rel kp a" and kv: "k_KeyV kp = keyv ks" and ks: "length ks \<le> 16" "set ks \<subseteq> {..<20}" and "5 \<le> length page0"
  shows "\<exists>kp'. tremble page0 kp = Some kp' \<and> kp_rel kp' (atremble_step ks a)"
proof -
  have h: "0 < keyv ks ! 0 \<longleftrightarrow> ks \<noteq> []"
    using keyv_head [OF ks(1), of 0] by (auto simp: word_less_nat_alt word_unat_eq_iff)
  have kp: "kpp_rows kp = 5" "key_tremble_times kp = of_bool (atremble a)" using rel by (simp_all add: kp_rel_def kp_fixed_def)
  obtain pv where pv: "prev_rcmap kp = Blk pv" "length pv = 5" using rel by (auto simp: kp_rel_def kp_fixed_def)
  obtain cu where cu: "rc_fill (cur_rcmap kp) 0 5 = Some cu" "maps cu (\<lambda>_. False)"
    using rel maps_fill [of "cur_rcmap kp" "held a"] by (auto simp: kp_rel_def)
  consider "ks = []" | "ks \<noteq> []" "atremble a" | "ks \<noteq> []" "\<not> atremble a" by blast
  then show ?thesis
  proof cases
    case 1
    then show ?thesis using rel h kv by (simp add: tremble_def atremble_step_def)
  next
    case 2
    then have "tremble page0 kp = Some ((decode_keys kp)\<lparr>key_tremble_times := 0\<rparr>)" using h kv kp by (simp add: tremble_def)
    then show ?thesis
      using 2 rel decode_keys_eq [OF kv ks]
      by (auto simp: atremble_step_def adecode_def kp_rel_def kp_fixed_def power_keys_def menu_keys_def)
  next
    case 3
    have "rc_copy (prev_rcmap kp) (Blk page0) 5 = Some (Blk (take 5 page0))"
      using pv assms(5) by (simp add: rc_copy_def copy_bytes_def)
    then have "tremble page0 kp = Some (kp\<lparr>prev_rcmap := Blk (take 5 page0), cur_rcmap := cu, key_tremble_times := 1\<rparr>)"
      using 3 h kv kp cu by (simp add: tremble_def)
    then show ?thesis
      using 3 rel cu assms(5) by (auto simp: atremble_step_def kp_rel_def kp_fixed_def)
  qed
qed

lemma release_refines:
  assumes rel: "kp_rel kp a"
  shows "\<exists>kp'. release_all kp = Some kp' \<and> kp_rel kp' (a\<lparr>held := (\<lambda>_. False), pend := (\<lambda>_. False), acount := 0, along := False,
     aspecial := 0, atremble := False\<rparr>)"
proof -
  have kp: "kpp_rows kp = 5" "kpp_cols kp = 4" using rel by (simp_all add: kp_rel_def kp_fixed_def)
  obtain v where "shaped (release_scancode kp) v" using rel by (auto simp: kp_rel_def kp_fixed_def)
  then obtain rs where rs: "foldM (sc_clear_row 4) [0..<5] (release_scancode kp) = Some rs" "shaped rs (\<lambda>_. 0xffff)"
    using shaped_clear by blast
  have "shaped (press_scancode kp) (code_of (pend a))" using rel by (simp add: kp_rel_def)
  then obtain ps where ps: "foldM (sc_clear_row 4) [0..<5] (press_scancode kp) = Some ps" "shaped ps (\<lambda>_. 0xffff)"
    using shaped_clear by blast
  obtain pv where pv: "prev_rcmap kp = Blk pv" "length pv = 5" using rel by (auto simp: kp_rel_def kp_fixed_def)
  obtain cu where cu: "rc_fill (cur_rcmap kp) 0 5 = Some cu" "maps cu (\<lambda>_. False)"
    using rel maps_fill [of "cur_rcmap kp" "held a"] by (auto simp: kp_rel_def)
  have "code_of (\<lambda>_. False) = (\<lambda>_. 0xffff)" by (auto simp: code_of_def fun_eq_iff)
  then show ?thesis
    using kp rs ps pv cu rel by (auto simp: release_all_def rc_fill5 kp_rel_def kp_fixed_def)
qed

lemma getc_refines:
  assumes rel: "kp_rel kp a" and w: "kpp_wiring pins pressed" and st: "stat (regs kp) AND KBD_STAT_KPKD \<noteq> 0"
    and pg: "5 \<le> length page0"
  shows "case agetc pressed a of None \<Rightarrow> mxc_kpp_getc pins stat page0 kp = None
     | Some (v, a') \<Rightarrow> \<exists>kp'. mxc_kpp_getc pins stat page0 kp = Some (v, kp') \<and> kp_rel kp' a'"
proof -
  define kp0 where "kp0 = kp\<lparr>k_KeyV := replicate 17 0\<rparr>"
  define a1 where "a1 = ascan pressed a"
  have "kp_rel kp0 a" using rel by (simp add: kp0_def)
  from scan_refines [OF this w] obtain kp1 where
    scan: "mxc_kpp_scan_matrix pins stat kp0 = Some (length (down pressed), kp1)" and rel1: "kp_rel kp1 a1"
    and kv: "k_KeyV kp1 = replicate 17 0" by (auto simp: kp0_def a1_def)
  have st0: "stat (regs kp0) AND KBD_STAT_KPKD \<noteq> 0" using st by (simp add: kp0_def)
  show ?thesis
  proof (cases "down pressed = []")
    case True
    obtain kp2 where "release_all kp1 = Some kp2" "kp_rel kp2 (a1\<lparr>held := (\<lambda>_. False), pend := (\<lambda>_. False), acount := 0,
        along := False, aspecial := 0, atremble := False\<rparr>)" using release_refines [OF rel1] by blast
    moreover from this(1) have "mxc_kpp_getc pins stat page0 kp = Some (0, kp2)"
      using st0 scan True by (simp add: mxc_kpp_getc_def Let_def flip: kp0_def)
    ultimately show ?thesis using True by (simp add: agetc_def a1_def Let_def)
  next
    case False
    define kp2 where "kp2 = (if mxc_long_key_flag kp1 = 1 then kp1\<lparr>mxc_long_key_flag := 0\<rparr> else kp1)"
    define a2 where "a2 = a1\<lparr>along := False\<rparr>"
    have lg: "mxc_long_key_flag kp1 = 1 \<longleftrightarrow> along a1" using rel1 by (simp add: kp_rel_def)
    have kp2: "(if along a1 then kp1\<lparr>mxc_long_key_flag := 0\<rparr> else kp1) = kp2" using lg by (simp add: kp2_def)
    have rel2: "kp_rel kp2 a2" using rel1 by (auto simp: kp2_def a2_def kp_rel_def kp_fixed_def)
    have k2: "k_KeyV kp2 = replicate 17 0" "kpp_rows kp2 = 5" "kpp_cols kp2 = 4" "shaped (press_scancode kp2) (code_of (pend a2))"
      "special_key kp2 = aspecial a" using rel2 kv by (simp_all add: kp2_def kp_rel_def kp_fixed_def a2_def a1_def ascan_def Let_def)
    have getc: "mxc_kpp_getc pins stat page0 kp =
       (if along a1 \<and> aspecial a = KEY_PPOWER then Some (KEY_LONG_POWER, kp2)
        else if along a1 \<and> aspecial a = KEY_MENU then Some (KEY_GOTO_MENU, kp2)
        else do { (kp3, h) \<leftarrow> foldM collect_row [0..<5] (kp2, 1); kp4 \<leftarrow> tremble page0 kp3;
                  Some (of_nat (length (down pressed)), kp4) })"
      unfolding mxc_kpp_getc_def Let_def kp0_def [symmetric] using st0 scan False k2(2,5) lg
      by (simp only: kp2 if_False length_0_conv bind.bind_lunit prod.case simp_thms)
    let ?ks = "filter (pend a2) positions"
    have ag: "agetc pressed a = (if along a1 \<and> aspecial a = KEY_PPOWER then Some (KEY_LONG_POWER, a2)
        else if along a1 \<and> aspecial a = KEY_MENU then Some (KEY_GOTO_MENU, a2)
        else if 16 < length ?ks then None
        else Some (of_nat (length (down pressed)), atremble_step ?ks (a2\<lparr>pend := (\<lambda>_. False)\<rparr>)))"
      using False by (simp add: agetc_def Let_def a1_def a2_def)
    have in20: "set ?ks \<subseteq> {..<20}" by (auto simp: positions_def)
    show ?thesis
    proof (cases "length ?ks \<le> 16")
      case True
      then obtain p' where c: "foldM collect_row [0..<5] (kp2, 1) = Some (kp2\<lparr>k_KeyV := keyv ?ks, press_scancode := p'\<rparr>, 1 + length ?ks)"
        and p': "shaped p' (code_of (\<lambda>_. False))" using collect_all [OF k2(4,1,3)] by auto
      have "kp_rel (kp2\<lparr>k_KeyV := keyv ?ks, press_scancode := p'\<rparr>) (a2\<lparr>pend := (\<lambda>_. False)\<rparr>)"
        using rel2 p' by (simp add: kp_rel_def kp_fixed_def)
      from tremble_refines [OF this _ True in20 pg] obtain kp4 where
        "tremble page0 (kp2\<lparr>k_KeyV := keyv ?ks, press_scancode := p'\<rparr>) = Some kp4"
        "kp_rel kp4 (atremble_step ?ks (a2\<lparr>pend := (\<lambda>_. False)\<rparr>))" by auto
      then show ?thesis using getc ag c rel2 True by auto
    next
      case False
      then show ?thesis using getc ag rel2 collect_all [OF k2(4,1,3)] by auto
    qed
  qed
qed

section \<open>Initialisation\<close>

definition afresh :: akeypad where
  "afresh = \<lparr>held = (\<lambda>_. False), pend = (\<lambda>_. False), acount = 0, along = False, aspecial = 0, artkey = 0, atremble = False\<rparr>"

text \<open>The statics of the file as the C runtime leaves them.\<close>

definition kp_static :: "keypad \<Rightarrow> bool" where
  "kp_static kp \<longleftrightarrow> cur_rcmap kp = Null \<and> prev_rcmap kp = Null \<and> press_scancode kp = Null \<and> release_scancode kp = Null
     \<and> rtkey kp = 0 \<and> long_key_count kp = 0 \<and> mxc_long_key_flag kp = 0 \<and> special_key kp = 0 \<and> key_tremble_times kp = 0"

lemmas kpd_sizes = CONFIG_MXC_KPD_COLMAX_def CONFIG_MXC_KPD_ROWMAX_def

lemma repl5: "replicate 5 x = [x, x, x, x, x]"
  by (simp add: numeral_eq_Suc)

lemma repl4: "replicate 4 x = [x, x, x, x]"
  by (simp add: numeral_eq_Suc)

lemma alloc_rows_all:
  assumes "press_scancode kp = Blk (replicate 5 Wild)" and "release_scancode kp = Blk (replicate 5 Wild)"
    and "list_all alloc [2..<12]"
  shows "alloc_rows alloc junk 2 [0..<5] kp = Some (True, kp\<lparr>press_scancode := Blk (replicate 5 (Blk junk)),
     release_scancode := Blk (replicate 5 (Blk junk))\<rparr>)"
proof -
  have "[2..<12] = [2, 3, 4, 5, 6, 7, 8, 9, 10, 11 :: nat]" by (simp add: upt_rec)
  then show ?thesis using assms by (simp add: upt_small repl5 store_def malloc_def)
qed

lemma init_ready:
  assumes st: "kp_static kp" and al: "list_all alloc [0..<14]"
  shows "\<exists>kp'. mxc_kpp_init pins stat alloc junk kp = Some (0, kp') \<and> kp_rel kp' afresh"
proof -
  have al: "alloc 0" "alloc 1" "list_all alloc [2..<12]" "alloc 12" "alloc 13" using al by (auto simp: list_all_iff)
  define kp0 where "kp0 = kp\<lparr>kpp_cols := 4, kpp_rows := 5, regs := init_regs pins stat 5 4 (regs kp), mxckpd_keycodes_size := 20,
     press_scancode := Blk (replicate 5 Wild), release_scancode := Blk (replicate 5 Wild)\<rparr>"
  define kp1 where "kp1 = kp0\<lparr>press_scancode := Blk (replicate 5 (Blk (replicate 4 junk))),
     release_scancode := Blk (replicate 5 (Blk (replicate 4 junk)))\<rparr>"
  have rows: "alloc_rows alloc (replicate 4 junk) 2 [0..<5] kp0 = Some (True, kp1)"
    using alloc_rows_all [of kp0 alloc "replicate 4 junk"] al(3) by (simp add: kp0_def kp1_def)
  have sh: "shaped (Blk (replicate 5 (Blk (replicate 4 junk)))) (\<lambda>_. junk)" by (simp add: shaped_def map_replicate_const)
  then obtain ps where ps: "foldM (sc_clear_row 4) [0..<5] (Blk (replicate 5 (Blk (replicate 4 junk)))) = Some ps"
    "shaped ps (\<lambda>_. 0xffff)" using shaped_clear by blast
  have "mxc_kpp_init pins stat alloc junk kp = Some (0, kp1\<lparr>press_scancode := ps, release_scancode := ps,
      cur_rcmap := Blk (replicate 5 0), prev_rcmap := Blk (replicate 5 0)\<rparr>)"
    using al rows ps by (simp add: mxc_kpp_init_def kpd_sizes Let_def malloc_def rc_fill5 kp1_def flip: kp0_def)
  moreover have "code_of (\<lambda>_. False) = (\<lambda>_. 0xffff)" by (auto simp: code_of_def fun_eq_iff)
  ultimately show ?thesis
    using ps(2) st by (auto simp: kp_rel_def kp_fixed_def kp1_def kp0_def afresh_def maps_def kp_static_def)
qed

lemma free_guarded: "(if p \<noteq> Null then free p else Some ()) = (if p = Wild then None else Some ())"
  by (cases p) simp_all

lemma free_rows_iff:
  assumes "length rows = 5"
  shows "free_rows 5 (Blk rows) = (if Wild \<in> set rows then None else Some ())"
proof -
  obtain a b c d e where "rows = [a, b, c, d, e]" using assms by (auto simp: length_Suc_conv numeral_eq_Suc)
  then show ?thesis by (auto simp: free_rows_def upt_small load_def free_guarded)
qed

lemma free_rows_Null: "free_rows n Null = Some ()"
  by (simp add: free_rows_def)

lemma malloc_not_Wild [simp]: "malloc b x \<noteq> Wild" "Wild \<noteq> malloc b x"
  by (simp_all add: malloc_def)

text \<open>Rows are wild until the loop reaches them; a failing row is the null pointer.\<close>

lemma alloc_rows_fail:
  assumes "press_scancode kp = Blk (replicate 5 Wild)" and "release_scancode kp = Blk (replicate 5 Wild)"
    and "\<not> list_all alloc [2..<12]"
  shows "\<exists>kp'. alloc_rows alloc junk 2 [0..<5] kp = Some (False, kp') \<and> kpp_rows kp' = kpp_rows kp \<and> cur_rcmap kp' = cur_rcmap kp
     \<and> prev_rcmap kp' = prev_rcmap kp \<and> (free_rows 5 (press_scancode kp') = None \<longleftrightarrow> \<not> list_all alloc [2..<10])
     \<and> (free_rows 5 (release_scancode kp') = None \<longleftrightarrow> \<not> list_all alloc [2..<10])"
proof -
  have u: "[2..<12] = [2, 3, 4, 5, 6, 7, 8, 9, 10, 11 :: nat]" "[2..<10] = [2, 3, 4, 5, 6, 7, 8, 9 :: nat]" by (simp_all add: upt_rec)
  consider "\<not> (alloc 2 \<and> alloc 3)" | "alloc 2" "alloc 3" "\<not> (alloc 4 \<and> alloc 5)"
    | "alloc 2" "alloc 3" "alloc 4" "alloc 5" "\<not> (alloc 6 \<and> alloc 7)"
    | "alloc 2" "alloc 3" "alloc 4" "alloc 5" "alloc 6" "alloc 7" "\<not> (alloc 8 \<and> alloc 9)"
    | "alloc 2" "alloc 3" "alloc 4" "alloc 5" "alloc 6" "alloc 7" "alloc 8" "alloc 9" "\<not> (alloc 10 \<and> alloc 11)"
    using assms(3) by (auto simp: u)
  then show ?thesis
    by cases (use assms(1,2) in \<open>simp_all add: u upt_small repl5 store_def Let_def free_rows_iff\<close>, blast+)
qed

lemma kpp_fail_iff:
  assumes "kpp_rows kp = 5" and "cur_rcmap kp \<noteq> Wild" and "prev_rcmap kp \<noteq> Wild"
  shows "kpp_fail e kp = None \<longleftrightarrow> free_rows 5 (press_scancode kp) = None \<or> free_rows 5 (release_scancode kp) = None"
  using assms by (simp add: kpp_fail_def mxc_kpp_free_allocated_def free_guarded) (auto simp: bind_eq_None_conv)

lemma init_defined:
  assumes st: "kp_static kp"
  shows "mxc_kpp_init pins stat alloc junk kp = None \<longleftrightarrow>
     alloc 0 \<noteq> alloc 1 \<or> (alloc 0 \<and> alloc 1 \<and> \<not> list_all alloc [2..<10])"
proof -
  define kp0 where "kp0 = kp\<lparr>kpp_cols := 4, kpp_rows := 5, regs := init_regs pins stat 5 4 (regs kp), mxckpd_keycodes_size := 20\<rparr>"
  define kp1 where "kp1 = kp0\<lparr>press_scancode := malloc (alloc 0) (replicate 5 Wild), release_scancode := malloc (alloc 1) (replicate 5 Wild)\<rparr>"
  have k: "kpp_rows kp1 = 5" "cur_rcmap kp1 = Null" "prev_rcmap kp1 = Null" using st by (simp_all add: kp1_def kp0_def kp_static_def)
  have init: "mxc_kpp_init pins stat alloc junk kp = (if \<not> alloc 0 \<or> \<not> alloc 1 then kpp_fail ENOMEM kp1 else do {
     (ok, kp) \<leftarrow> alloc_rows alloc (replicate 4 junk) 2 [0..<5] kp1;
     if \<not> ok then kpp_fail ENOMEM kp
     else let kp = kp\<lparr>cur_rcmap := malloc (alloc 12) (replicate 5 junk), prev_rcmap := malloc (alloc 13) (replicate 5 junk)\<rparr> in
       if \<not> alloc 12 \<or> \<not> alloc 13 then kpp_fail ENOMEM kp
       else do { ps \<leftarrow> foldM (sc_clear_row 4) [0..<5] (press_scancode kp); rs \<leftarrow> foldM (sc_clear_row 4) [0..<5] (release_scancode kp);
         cu \<leftarrow> rc_fill (cur_rcmap kp) 0 5; pv \<leftarrow> rc_fill (prev_rcmap kp) 0 5;
         Some (0, kp\<lparr>press_scancode := ps, release_scancode := rs, cur_rcmap := cu, prev_rcmap := pv\<rparr>) } })"
    unfolding mxc_kpp_init_def kpd_sizes Let_def kp1_def kp0_def by (simp cong: if_cong)
  have wild: "Wild \<in> set (replicate 5 Wild)" by simp
  consider (two) "\<not> alloc 0 \<or> \<not> alloc 1" | (rows) "alloc 0" "alloc 1" "\<not> list_all alloc [2..<12]"
    | (maps) "alloc 0" "alloc 1" "list_all alloc [2..<12]" "\<not> alloc 12 \<or> \<not> alloc 13"
    | (ok) "alloc 0" "alloc 1" "list_all alloc [2..<12]" "alloc 12" "alloc 13" by blast
  then show ?thesis
  proof cases
    case two
    then have "free_rows 5 (press_scancode kp1) = None \<longleftrightarrow> alloc 0" "free_rows 5 (release_scancode kp1) = None \<longleftrightarrow> alloc 1"
      by (simp_all add: kp1_def malloc_def free_rows_iff free_rows_Null)
    then show ?thesis using two init kpp_fail_iff [of kp1] k by auto
  next
    case rows
    have wl: "press_scancode kp1 = Blk (replicate 5 Wild)" "release_scancode kp1 = Blk (replicate 5 Wild)"
      using rows(1,2) by (simp_all add: kp1_def malloc_def)
    obtain kp2 where kp2: "alloc_rows alloc (replicate 4 junk) 2 [0..<5] kp1 = Some (False, kp2)"
      "kpp_rows kp2 = 5" "cur_rcmap kp2 \<noteq> Wild" "prev_rcmap kp2 \<noteq> Wild"
      "free_rows 5 (press_scancode kp2) = None \<longleftrightarrow> \<not> list_all alloc [2..<10]"
      "free_rows 5 (release_scancode kp2) = None \<longleftrightarrow> \<not> list_all alloc [2..<10]"
      using alloc_rows_fail [OF wl rows(3), of "replicate 4 junk"] unfolding k by auto
    have "mxc_kpp_init pins stat alloc junk kp = kpp_fail ENOMEM kp2" unfolding init kp2(1) using rows(1,2) by simp
    then show ?thesis using kpp_fail_iff [OF kp2(2-4)] kp2(5,6) rows(1,2) by simp
  next
    case maps
    then have "alloc_rows alloc (replicate 4 junk) 2 [0..<5] kp1 = Some (True, kp1\<lparr>press_scancode := Blk (replicate 5 (Blk (replicate 4 junk))),
        release_scancode := Blk (replicate 5 (Blk (replicate 4 junk)))\<rparr>)"
      by (intro alloc_rows_all) (simp_all add: kp1_def malloc_def)
    moreover have "list_all alloc [2..<10]" using maps(3) by (auto simp: list_all_iff)
    ultimately show ?thesis
      using maps init k by (simp add: kpp_fail_iff free_rows_iff malloc_def)
  next
    case ok
    moreover have "list_all alloc [0..<14]"
    proof -
      have "[0..<14] = [0, 1] @ [2..<12] @ [12, 13 :: nat]" by (simp add: upt_rec)
      then show ?thesis using ok by simp
    qed
    moreover have "list_all alloc [2..<10]" using ok(3) by (auto simp: list_all_iff)
    ultimately show ?thesis using init_ready [OF st, of alloc pins stat junk] by auto
  qed
qed

section \<open>Holding a combination\<close>

fun getc_run :: "(kpp_regs \<Rightarrow> u16) \<Rightarrow> (kpp_regs \<Rightarrow> u16) \<Rightarrow> u16 list \<Rightarrow> nat \<Rightarrow> keypad \<Rightarrow> (u32 list \<times> keypad) option" where
  "getc_run pins stat page0 0 kp = Some ([], kp)"
| "getc_run pins stat page0 (Suc n) kp =
     do { (v, kp1) \<leftarrow> mxc_kpp_getc pins stat page0 kp; (vs, kp2) \<leftarrow> getc_run pins stat page0 n kp1; Some (v # vs, kp2) }"

fun agetc_run :: "(nat \<Rightarrow> bool) \<Rightarrow> nat \<Rightarrow> akeypad \<Rightarrow> (u32 list \<times> akeypad) option" where
  "agetc_run pressed 0 a = Some ([], a)"
| "agetc_run pressed (Suc n) a =
     do { (v, a1) \<leftarrow> agetc pressed a; (vs, a2) \<leftarrow> agetc_run pressed n a1; Some (v # vs, a2) }"

lemma getc_run_refines:
  assumes w: "kpp_wiring pins pressed" and st: "\<And>r. stat r AND KBD_STAT_KPKD \<noteq> 0" and pg: "5 \<le> length page0"
    and "kp_rel kp a" and "agetc_run pressed n a = Some (vs, a')"
  shows "\<exists>kp'. getc_run pins stat page0 n kp = Some (vs, kp') \<and> kp_rel kp' a'"
  using assms(4,5)
proof (induction n arbitrary: kp a vs)
  case (Suc n)
  obtain v a1 ws where 1: "agetc pressed a = Some (v, a1)" "agetc_run pressed n a1 = Some (ws, a')" "vs = v # ws"
    using Suc.prems(2) by (auto simp: bind_eq_Some_conv)
  obtain kp1 where "mxc_kpp_getc pins stat page0 kp = Some (v, kp1)" "kp_rel kp1 a1"
    using getc_refines [where stat = stat, OF Suc.prems(1) w st pg] 1(1) by auto
  moreover obtain kp2 where "getc_run pins stat page0 n kp1 = Some (ws, kp2)" "kp_rel kp2 a'"
    using Suc.IH [OF calculation(2) 1(2)] by blast
  ultimately show ?case using 1(3) by simp
qed simp

definition menu :: "nat \<Rightarrow> bool" where
  "menu k \<longleftrightarrow> k \<in> set menu_keys"

definition amenu :: "nat \<Rightarrow> akeypad" where
  "amenu n = \<lparr>held = menu, pend = (\<lambda>_. False), acount = n, along = False, aspecial = KEY_MENU, artkey = KEY_MENU, atremble = False\<rparr>"

lemma menu_down: "down menu = menu_keys" "filter menu positions = menu_keys"
  by (simp_all add: down_def positions_def upt_small menu_def menu_keys_def)

lemma menu_first:
  "agetc menu afresh = Some (12, afresh\<lparr>acount := 8, atremble := True\<rparr>)"
  "agetc menu (afresh\<lparr>acount := 8, atremble := True\<rparr>) = Some (12, amenu 16)"
proof -
  have u: "length (unchanged (\<lambda>_. False) menu) = 8"
    by (simp add: unchanged_def positions_def upt_small menu_def menu_keys_def)
  have m: "length menu_keys = 12" "menu_keys \<noteq> []" "menu_keys \<noteq> power_keys" by (simp_all add: menu_keys_def power_keys_def)
  show "agetc menu afresh = Some (12, afresh\<lparr>acount := 8, atremble := True\<rparr>)"
    using u m menu_down by (simp add: agetc_def afresh_def ascan_def Let_def atremble_step_def)
  show "agetc menu (afresh\<lparr>acount := 8, atremble := True\<rparr>) = Some (12, amenu 16)"
    using u m menu_down by (simp add: agetc_def afresh_def ascan_def Let_def atremble_step_def adecode_def amenu_def)
qed

lemma menu_steady: "agetc menu (amenu n) = (if 280 < n then Some (KEY_GOTO_MENU, amenu (n - 281)) else Some (12, amenu (n + 20)))"
proof -
  have u: "length (unchanged menu menu) = 20" by (simp add: unchanged_def positions_def)
  have m: "length menu_keys = 12" "menu_keys \<noteq> []" by (simp_all add: menu_keys_def)
  have k: "KEY_MENU \<noteq> KEY_PPOWER" by (simp add: KEY_MENU_def KEY_PPOWER_def)
  show ?thesis using u m menu_down(1) k by (simp add: agetc_def ascan_def Let_def amenu_def atremble_step_def)
qed

lemma menu_wait: "16 + 20 * n \<le> 300 \<Longrightarrow> agetc_run menu n (amenu 16) = Some (replicate n 12, amenu (16 + 20 * n))"
proof -
  have "m + 20 * n \<le> 300 \<Longrightarrow> agetc_run menu n (amenu m) = Some (replicate n 12, amenu (m + 20 * n))" for m
    by (induction n arbitrary: m) (simp_all add: menu_steady add.assoc)
  then show "16 + 20 * n \<le> 300 \<Longrightarrow> ?thesis" .
qed

lemma agetc_run_add:
  "agetc_run pressed (m + n) a = do { (vs, a1) \<leftarrow> agetc_run pressed m a; (ws, a2) \<leftarrow> agetc_run pressed n a1; Some (vs @ ws, a2) }"
  by (induction m arbitrary: a) (auto split: bind_splits)

lemma menu_hold_abs: "agetc_run menu 17 afresh = Some (replicate 16 12 @ [KEY_GOTO_MENU], amenu 15)"
proof -
  have two: "agetc_run menu (Suc (Suc n)) afresh = Some (12 # 12 # vs, a)" if "agetc_run menu n (amenu 16) = Some (vs, a)" for n vs a
    using that menu_first by simp
  have "agetc_run menu (14 + 1) (amenu 16) = Some (replicate 14 12 @ [KEY_GOTO_MENU], amenu 15)"
    unfolding agetc_run_add using menu_wait [of 14] by (simp add: menu_steady)
  from two [OF this] have "agetc_run menu (Suc (Suc (14 + 1))) afresh = Some (replicate (Suc (Suc 14)) 12 @ [KEY_GOTO_MENU], amenu 15)"
    by (simp only: replicate_Suc append_Cons)
  moreover have "Suc (Suc (14 + 1)) = 17" "Suc (Suc 14) = 16" by simp_all
  ultimately show ?thesis by (simp only:)
qed

section \<open>Properties\<close>

text \<open>A keypad as \<open>mxc_kpp_init\<close> leaves it, and one before it.\<close>

definition kp_boot :: keypad where
  "kp_boot = \<lparr>regs = \<lparr>KPCR = 0, KPSR = 0, KDDR = 0, KPDR = 0\<rparr>, iKeyState = KStateUp, kpp_rows = 0, kpp_cols = 0, KPress = 0,
     cur_rcmap = Null, prev_rcmap = Null, k_KeyV = replicate 17 0, rtkey = 0, long_key_count = 0, mxc_long_key_flag = 0,
     special_key = 0, press_scancode = Null, release_scancode = Null, mxckpd_keycodes_size = 0, key_tremble_times = 0\<rparr>"

definition kp_up :: keypad where
  "kp_up = kp_boot\<lparr>kpp_rows := 5, kpp_cols := 4, cur_rcmap := Blk (replicate 5 0), prev_rcmap := Blk (replicate 5 0),
     press_scancode := Blk (replicate 5 (Blk (replicate 4 0xffff))), release_scancode := Blk (replicate 5 (Blk (replicate 4 0xffff)))\<rparr>"

lemma kp_boot_static: "kp_static kp_boot"
  by (simp add: kp_boot_def kp_static_def)

lemma kp_up_rel: "kp_rel kp_up afresh"
proof -
  have "code_of (\<lambda>_. False) = (\<lambda>_. 0xffff)" by (auto simp: code_of_def fun_eq_iff)
  moreover have "shaped (Blk (replicate 5 (Blk (replicate 4 0xffff)))) (\<lambda>_. 0xffff)" by (simp add: shaped_def map_replicate_const)
  ultimately show ?thesis
    by (auto simp: kp_up_def kp_boot_def kp_rel_def kp_fixed_def afresh_def maps_def)
qed

text \<open>C7 (hfc_keyb.c, \<open>mxc_kpp_getc\<close>). On a port wired as documented, a read of the keypad simulates the abstract
  keypad: the matrix, edges, debounce, decoding and long-press counter follow it, what the previous map was
  overwritten with from address 0 never matters, and the read is undefined exactly when more than sixteen
  new codes have to be collected.\<close>

theorem keypad_getc_refines:
  assumes "kp_rel kp a" and "kpp_wiring pins pressed" and "stat (regs kp) AND KBD_STAT_KPKD \<noteq> 0" and "5 \<le> length page0"
  shows "case agetc pressed a of None \<Rightarrow> mxc_kpp_getc pins stat page0 kp = None
     | Some (v, a') \<Rightarrow> \<exists>kp'. mxc_kpp_getc pins stat page0 kp = Some (v, kp') \<and> kp_rel kp' a'"
  using getc_refines [where stat = stat, OF assms] .

theorem keypad_getc_refines_witness:
  "case agetc menu afresh of None \<Rightarrow> mxc_kpp_getc (matrix_pins menu) (\<lambda>_. 1) (replicate 5 9) kp_up = None
     | Some (v, a') \<Rightarrow> \<exists>kp'. mxc_kpp_getc (matrix_pins menu) (\<lambda>_. 1) (replicate 5 9) kp_up = Some (v, kp') \<and> kp_rel kp' a'"
  by (rule keypad_getc_refines [OF kp_up_rel matrix_pins_wiring]) (simp_all add: KBD_STAT_KPKD_def)

text \<open>(hfc_keyb.c). From power-on, with every allocation successful, holding exactly the twelve keys of the menu
  combination makes the seventeenth read, and none before it, return \<open>KEY_GOTO_MENU\<close>: the counter
  compared with \<open>LONG_KEY_COUNTER\<close> counts unchanged matrix positions, twenty per read, not reads.\<close>

theorem keypad_menu_hold:
  assumes "kp_static kp" and "list_all alloc [0..<14]" and "kpp_wiring pins menu" and "\<And>r. stat r AND KBD_STAT_KPKD \<noteq> 0"
    and "5 \<le> length page0"
  shows "\<exists>kp1 kp2. mxc_kpp_init pins stat alloc junk kp = Some (0, kp1)
     \<and> getc_run pins stat page0 17 kp1 = Some (replicate 16 12 @ [KEY_GOTO_MENU], kp2)"
proof -
  obtain kp1 where "mxc_kpp_init pins stat alloc junk kp = Some (0, kp1)" "kp_rel kp1 afresh"
    using init_ready [OF assms(1,2)] by blast
  then show ?thesis using getc_run_refines [where stat = stat, OF assms(3-5) _ menu_hold_abs] by blast
qed

theorem keypad_menu_hold_witness:
  "\<exists>kp1 kp2. mxc_kpp_init (matrix_pins menu) (\<lambda>_. 1) (\<lambda>_. True) 7 kp_boot = Some (0, kp1)
     \<and> getc_run (matrix_pins menu) (\<lambda>_. 1) (replicate 5 9) 17 kp1 = Some (replicate 16 12 @ [KEY_GOTO_MENU], kp2)"
  by (rule keypad_menu_hold [OF kp_boot_static _ matrix_pins_wiring]) (simp_all add: KBD_STAT_KPKD_def list_all_iff)

text \<open>(hfc_keyb.c, \<open>mxc_kpp_init\<close>). The out-of-memory path is undefined exactly when one of the two row tables
  or one of the first four rows cannot be allocated: \<open>mxc_kpp_free_allocated\<close> then frees row
  pointers that were never written. Otherwise the call returns.\<close>

theorem keypad_init_defined:
  assumes "kp_static kp"
  shows "mxc_kpp_init pins stat alloc junk kp = None \<longleftrightarrow>
     alloc 0 \<noteq> alloc 1 \<or> (alloc 0 \<and> alloc 1 \<and> \<not> list_all alloc [2..<10])"
  using init_defined [OF assms] .

theorem keypad_init_defined_witness:
  "mxc_kpp_init (\<lambda>_. 0) (\<lambda>_. 0) (\<lambda>n. n < 3) 7 kp_boot = None \<longleftrightarrow>
     (0 < (3 :: nat)) \<noteq> (1 < (3 :: nat)) \<or> (0 < (3 :: nat) \<and> 1 < (3 :: nat) \<and> \<not> list_all (\<lambda>n. n < (3 :: nat)) [2..<10])"
  by (rule keypad_init_defined [OF kp_boot_static])

text \<open>(hfc_keyb.c, \<open>mxc_kpp_getc\<close>). Pressing more than sixteen keys at once writes past the end of the
  17-byte array \<open>k_KeyV\<close>.\<close>

theorem keypad_overflow:
  assumes "kp_rel kp afresh" and "kpp_wiring pins pressed" and "stat (regs kp) AND KBD_STAT_KPKD \<noteq> 0"
    and "5 \<le> length page0" and "16 < length (down pressed)"
  shows "mxc_kpp_getc pins stat page0 kp = None"
proof -
  have "unchanged (\<lambda>_. False) pressed = filter (\<lambda>k. \<not> pressed k) positions" by (simp add: unchanged_def)
  then have "length (unchanged (\<lambda>_. False) pressed) \<le> 20" using length_filter_le [of _ positions] by (simp add: positions_def)
  then have "agetc pressed afresh = None"
    using assms(5) by (auto simp: agetc_def afresh_def ascan_def Let_def down_def)
  then show ?thesis using getc_refines [where stat = stat, OF assms(1-4)] by simp
qed

theorem keypad_overflow_witness:
  "mxc_kpp_getc (matrix_pins (\<lambda>_. True)) (\<lambda>_. 1) (replicate 5 9) kp_up = None"
  by (rule keypad_overflow [OF kp_up_rel matrix_pins_wiring]) (simp_all add: KBD_STAT_KPKD_def down_def positions_def)

text \<open>(hfc_keyb.c, \<open>mxc_getkey\<close>). What a decoded press leaves in \<open>rtkey\<close> is returned once: the code of a single
  key, 0 for a combination; the special values the function tests for first are never stored, so long
  presses are not reported by it.\<close>

theorem keypad_getkey_single:
  assumes "rtkey kp = packed ks" and "ks \<noteq> []" and "length ks \<le> 16" and "set ks \<subseteq> {..<20}"
    and "special_key kp \<in> {0, KEY_PPOWER, KEY_MENU}"
  shows "mxc_getkey kp = (if length ks = 1 then of_nat (hd ks + 1) else 0, kp\<lparr>rtkey := 0\<rparr>)"
proof -
  have sp: "special_key kp \<noteq> KEY_LONG_POWER" "special_key kp \<noteq> KEY_GOTO_MENU"
    using assms(5) by (auto simp: KEY_LONG_POWER_def KEY_GOTO_MENU_def KEY_PPOWER_def KEY_MENU_def)
  have k0: "keyv ks ! 0 = of_nat (length ks)" "keyv ks ! 1 = of_nat (hd ks + 1)" using assms(2,3)
    by (simp_all add: keyv_def hd_conv_nth nth_append)
  have pk: "drop_bit 24 (rtkey kp) = ucast (keyv ks ! 0)" "rtkey kp AND 0xff = ucast (keyv ks ! 1)"
    unfolding assms(1) packed_keyv [OF assms(3,4), symmetric] by (rule four_bytes)+
  have "hd ks < 20" using assms(2,4) hd_in_set by blast
  then have v: "drop_bit 24 (rtkey kp) = of_nat (length ks)" "rtkey kp AND 0xff = of_nat (hd ks + 1)"
    unfolding pk k0 using assms(3) ucast_small [of "length ks"] ucast_small [of "hd ks + 1"] by simp_all
  have "drop_bit 24 (rtkey kp) \<noteq> 0" using v(1) assms(2,3) by (simp add: word_unat_eq_iff unat_of_nat)
  then have "rtkey kp \<noteq> 0" by auto
  then have "0 < rtkey kp" by (simp add: word_neq_0_conv)
  moreover have "drop_bit 24 (rtkey kp) = 1 \<longleftrightarrow> length ks = 1" using v(1) assms(3) by (simp add: word_unat_eq_iff unat_of_nat)
  ultimately show ?thesis using sp v(2) by (simp add: mxc_getkey_def Let_def)
qed

theorem keypad_getkey_single_witness:
  "mxc_getkey (kp_up\<lparr>rtkey := packed [6]\<rparr>) = (if length [6 :: nat] = 1 then of_nat (hd [6] + 1) else 0, kp_up\<lparr>rtkey := packed [6], rtkey := 0\<rparr>)"
  by (rule keypad_getkey_single) (simp_all add: kp_up_def kp_boot_def)

end
