(* ===== verification/Boot_Loop.thy ===== *)
theory Boot_Loop
  imports Timer Battery Keypad_Proofs
begin

unbundle bit_operations_syntax

text \<open>
  arch/arm/lib/board.c, the part of \<open>board_init_r\<close> written for this board: the start of the interrupt controller, the
  timer and the keypad, and the loop that waits for the debug or the menu key. The loop is cut where the timer's interrupt
  can change what it reads, the tick: \<open>loop_step\<close> runs to the next cut, \<open>boot_step\<close> interleaves it with interrupts, and
  \<open>boot_pass\<close> is the loop body in one piece. Everything the hardware decides in a step, the keypad's pins and status, what
  address 0 holds, the words of the SPI slave and of the converter, the stack contents the voltage text is written over
  and the byte waiting at the console, is the record \<open>loop_env\<close>. \<^term>\<open>None\<close> is undefined behaviour. Console output,
  delays and \<open>hfc_nand_init\<close>, which touches none of this state, are left out.
\<close>

section \<open>State\<close>

record loop_env =
  e_pins :: "kpp_regs \<Rightarrow> u16"
  e_stat :: "kpp_regs \<Rightarrow> u16"
  e_page0 :: "u16 list"
  e_ipg :: u32
  e_rx :: "nat \<Rightarrow> u32"
  e_fifo :: "u32 list"
  e_junk :: mem
  e_con :: "byte option"

datatype loop_pc =
    At_tick | At_clear | At_count | At_sys | At_init | At_bat | At_con | At_key
  | Out_debug | Out_recovery

record boot =
  ic :: "isr avic"
  timer :: gpt
  battery_loop :: u32
  sys_loop :: u32
  system_init :: u32
  bkey :: u32
  kpd :: keypad
  bat :: battery
  disp :: lcd
  pc :: loop_pc

definition MXC_INT_CSPI1 :: u32 where "MXC_INT_CSPI1 = 14"
definition lit_cspi1_irq :: mem where "lit_cspi1_irq = [99, 115, 112, 105, 49, 95, 105, 114, 113, 0]"

section \<open>Start\<close>

text \<open>The return values of the three calls are not looked at.\<close>

definition boot_start :: "(kpp_regs \<Rightarrow> u16) \<Rightarrow> (kpp_regs \<Rightarrow> u16) \<Rightarrow> (nat \<Rightarrow> bool) \<Rightarrow> u16 \<Rightarrow> boot \<Rightarrow> boot option" where
  "boot_start pins stat alloc junk s =
     do { (_, c) \<leftarrow> arch_interrupt_init (ic s);
          let c = enable_interrupts c in
          do { (_, c, g) \<leftarrow> gpt2_init (c, timer s);
               (_, kp) \<leftarrow> mxc_kpp_init pins stat alloc junk (kpd s);
               Some (s\<lparr>ic := c, timer := g, kpd := kp, bkey := 0, pc := At_tick\<rparr>) } }"

section \<open>The loop body\<close>

definition loop_count :: "loop_env \<Rightarrow> boot \<Rightarrow> boot option" where
  "loop_count e s =
     (let s = s\<lparr>battery_loop := battery_loop s + 1\<rparr>;
          s = s\<lparr>sys_loop := sys_loop s + 1\<rparr> in
      do { (k, kp) \<leftarrow> mxc_kpp_getc (e_pins e) (e_stat e) (e_page0 e) (kpd s); Some (s\<lparr>bkey := k, kpd := kp\<rparr>) })"

definition loop_sys :: "boot \<Rightarrow> boot" where
  "loop_sys s = (if 25 < sys_loop s then s\<lparr>sys_loop := 0, disp := tft_backlight_brightness 255 (disp s)\<rparr> else s)"

text \<open>\<open>tft_fw_init\<close> with the interrupt its probe of the SPI master requests.\<close>

definition tft_fw_init_irq :: "u32 \<Rightarrow> (nat \<Rightarrow> u32) \<Rightarrow> isr avic \<times> lcd \<Rightarrow> (isr avic \<times> lcd) option" where
  "tft_fw_init_irq ipg rx = (\<lambda>(c, l).
     do { (ret, c) \<leftarrow> irq_request MXC_INT_CSPI1 (Some Mxc_spi_isr) (Some lit_cspi1_irq) c;
          l \<leftarrow> tft_fw_init ipg rx ret l;
          Some (c, l) })"

definition loop_init :: "loop_env \<Rightarrow> boot \<Rightarrow> boot option" where
  "loop_init e s =
     (if system_init s = 0
      then let s = s\<lparr>system_init := 1\<rparr>;
               l = tft_backlight_brightness 0 (on_board (emit [tft_gpio_init, tft_clock_init]) (disp s)) in
        do { (c, l) \<leftarrow> tft_fw_init_irq (e_ipg e) (e_rx e) (ic s, l);
             let l = l\<lparr>lcd_init := 1\<rparr>;
                 l = on_board hfc_battery_charge_gpio_init (on_board hfc_hc595_data_latch_init l) in
             do { l \<leftarrow> on_fb (tft_refresh_screan 0) l;
                  l \<leftarrow> on_fb tft_fill_battery_img l;
                  l \<leftarrow> on_fb (tft_display_battery_icon 0) l;
                  l \<leftarrow> on_fb (lcd_display_voltage (e_junk e) 0) l;
                  Some (s\<lparr>ic := c, disp := l\<rparr>) } }
      else Some s)"

definition loop_battery :: "loop_env \<Rightarrow> boot \<Rightarrow> boot option" where
  "loop_battery e s =
     (if 10 < battery_loop s
      then do { (b, l) \<leftarrow> hfc_battery_manager (e_ipg e) (e_rx e) (e_fifo e) (e_junk e) (bat s, disp s);
                Some (s\<lparr>battery_loop := 0, bat := b, disp := l\<rparr>) }
      else Some s)"

definition loop_console :: "loop_env \<Rightarrow> boot \<Rightarrow> boot" where
  "loop_console e s =
     (case e_con e of None \<Rightarrow> s | Some c \<Rightarrow> if c = 0x1b then s\<lparr>bkey := KEY_GOTO_DBG\<rparr> else s)"

definition loop_exit :: "boot \<Rightarrow> loop_pc" where
  "loop_exit s = (if bkey s = KEY_GOTO_DBG then Out_debug else if bkey s = KEY_GOTO_MENU then Out_recovery else At_tick)"

definition boot_pass :: "loop_env \<Rightarrow> boot \<Rightarrow> boot option" where
  "boot_pass e s =
     do { s \<leftarrow> (if time_tick (timer s) = 1 then loop_count e (s\<lparr>timer := (timer s)\<lparr>time_tick := 0\<rparr>\<rparr>) else Some s);
          s \<leftarrow> loop_init e (loop_sys s);
          s \<leftarrow> loop_battery e s;
          let s = loop_console e s in
          Some (s\<lparr>pc := loop_exit s\<rparr>) }"

section \<open>Interleaving\<close>

definition loop_step :: "loop_env \<Rightarrow> boot \<Rightarrow> boot option" where
  "loop_step e s =
     (case pc s of
       At_tick \<Rightarrow> Some (s\<lparr>pc := if time_tick (timer s) = 1 then At_clear else At_sys\<rparr>)
     | At_clear \<Rightarrow> Some (s\<lparr>timer := (timer s)\<lparr>time_tick := 0\<rparr>, pc := At_count\<rparr>)
     | At_count \<Rightarrow> do { s \<leftarrow> loop_count e s; Some (s\<lparr>pc := At_sys\<rparr>) }
     | At_sys \<Rightarrow> Some ((loop_sys s)\<lparr>pc := At_init\<rparr>)
     | At_init \<Rightarrow> do { s \<leftarrow> loop_init e s; Some (s\<lparr>pc := At_bat\<rparr>) }
     | At_bat \<Rightarrow> do { s \<leftarrow> loop_battery e s; Some (s\<lparr>pc := At_con\<rparr>) }
     | At_con \<Rightarrow> Some ((loop_console e s)\<lparr>pc := At_key\<rparr>)
     | At_key \<Rightarrow> Some (s\<lparr>pc := loop_exit s\<rparr>)
     | Out_debug \<Rightarrow> Some s
     | Out_recovery \<Rightarrow> Some s)"

text \<open>The timer's interrupt, delivered when timer, controller and processor let it through.\<close>

definition irq_open :: "boot \<Rightarrow> bool" where
  "irq_open s \<longleftrightarrow> bit (GPTCR (timer s)) 0 \<and> enabled (ic s) 53 \<and> \<not> bit (cpsr (ic s)) 7"

definition take_irq :: "boot \<Rightarrow> boot option" where
  "take_irq s = do { g \<leftarrow> do_irq run_isr (push_bit 16 MXC_INT_GPT2) (ic s) (timer s); Some (s\<lparr>timer := g\<rparr>) }"

inductive boot_step :: "(loop_env \<Rightarrow> bool) \<Rightarrow> boot \<Rightarrow> boot \<Rightarrow> bool" for E where
  irq: "irq_open s \<Longrightarrow> take_irq s = Some s' \<Longrightarrow> boot_step E s s'"
| loop: "E e \<Longrightarrow> loop_step e s = Some s' \<Longrightarrow> boot_step E s s'"

inductive_cases boot_stepE: "boot_step E s s'"

inductive boot_reach :: "(loop_env \<Rightarrow> bool) \<Rightarrow> boot \<Rightarrow> boot \<Rightarrow> bool" for E s where
  start: "boot_reach E s s"
| more: "boot_reach E s t \<Longrightarrow> boot_step E t u \<Longrightarrow> boot_reach E s u"

text \<open>A run with its interrupts and its keypad reads counted.\<close>

inductive boot_run :: "(loop_env \<Rightarrow> bool) \<Rightarrow> boot \<Rightarrow> nat \<Rightarrow> nat \<Rightarrow> boot \<Rightarrow> bool" for E s where
  none: "boot_run E s 0 0 s"
| irq: "boot_run E s i r t \<Longrightarrow> irq_open t \<Longrightarrow> take_irq t = Some u \<Longrightarrow> boot_run E s (i + 1) r u"
| loop: "boot_run E s i r t \<Longrightarrow> E e \<Longrightarrow> loop_step e t = Some u \<Longrightarrow> boot_run E s i (if pc t = At_count then r + 1 else r) u"

section \<open>Display set-up\<close>

lemma foldM_total:
  assumes "P s" and "\<And>x s. P s \<Longrightarrow> \<exists>s'. g x s = Some s' \<and> P s'"
  shows "\<exists>s'. foldM g xs s = Some s' \<and> P s'"
  using assms(1)
proof (induction xs arbitrary: s)
  case (Cons x xs)
  obtain s1 where "g x s = Some s1" "P s1" using assms(2) Cons.prems by blast
  then show ?case using Cons.IH by simp
qed simp

text \<open>The display's SPI device as \<open>tft_fw_init\<close> sets it up, with an untouched frame.\<close>

definition lcd_wired :: "frame \<Rightarrow> lcd \<Rightarrow> bool" where
  "lcd_wired f l \<longleftrightarrow> spi_master (spi0_dev (brd l)) \<and> bits_per_word (spi0_dev (brd l)) = 9 \<and> max_speed_hz (spi0_dev (brd l)) = 1000000
     \<and> chip_select (spi0_dev (brd l)) = 0 \<and> fb l = f"

lemma spi_wr_wired:
  assumes "lcd_wired f l"
  shows "\<exists>l'. spi_wr ipg rx w l = Some l' \<and> lcd_wired f l'"
proof (cases "tft_spi l")
  case True
  define b where "b = [ucast w, ucast (drop_bit 8 w), 0, 0 :: byte]"
  have ew: "elem_width (spi0_dev (brd l)) = 2" using assms by (simp add: lcd_wired_def elem_width_def)
  have "elem_width (spi0_dev (brd l)) * min (unat (1 :: u32)) 8 \<le> length b" by (simp add: ew b_def)
  from poll_eq [where ipg = ipg and rx = rx and hw = "spi0_hw (brd l)", OF _ _ this] assms obtain b' hw where
    "mxc_spi_poll_transfer ipg rx (Some (spi0_dev (brd l))) b 1 (spi0_hw (brd l)) = Some (0, b', hw)"
    by (auto simp: lcd_wired_def)
  then have "poll_spi_write ipg rx (Some (spi0_dev (brd l))) b 1 (spi0_hw (brd l)) = Some (0, b', hw)" by (simp add: poll_spi_write_def)
  then show ?thesis using True assms by (simp add: spi_wr_def Let_def lcd_wired_def emit_def flip: b_def)
next
  case False
  then show ?thesis using assms by (simp add: spi_wr_def Let_def lcd_wired_def emit_def poll_spi_write_def)
qed

lemma fw_init_wired: "\<exists>l'. tft_fw_init ipg rx 0 l = Some l' \<and> lcd_wired (fb l) l'"
proof -
  obtain dev hw where p: "hfc_tft_spi_probe 0 (spi0_hw (brd l)) = (0, dev, hw)" "spi_master dev"
    by (simp add: hfc_tft_spi_probe_def mxc_spi_probe_def Let_def)
  define l0 where "l0 = l\<lparr>brd := (brd l)\<lparr>spi0_dev := imx25_spi_setup dev 1000000 9 0, spi0_hw := hw\<rparr>, tft_spi := True\<rparr>"
  define l1 where "l1 = LCM_RES 1 (LCM_RES 0 (LCM_RES 1 (lcd_reset_pin_init l0)))"
  have "lcd_wired (fb l) l1"
    using p(2) by (simp add: lcd_wired_def l1_def l0_def LCM_RES_def lcd_reset_pin_init_def on_board_def emit_def imx25_spi_setup_def
        spi_setup_def mxc_spi_setup_def)
  then have "\<exists>l'. foldM (ili9341_step ipg rx) ili9341_sequence l1 = Some l' \<and> lcd_wired (fb l) l'"
  proof (rule foldM_total)
    fix x l'
    assume "lcd_wired (fb l) l'"
    then show "\<exists>l''. ili9341_step ipg rx x l' = Some l'' \<and> lcd_wired (fb l) l''"
      by (cases x) (simp_all add: ili9341_step_def SPI_WR_COMMAND_ID0_def SPI_WR_DATA_ID0_def spi_wr_wired)
  qed
  then show ?thesis by (simp add: tft_fw_init_def p(1) init_yushun_ili9341_def l0_def l1_def)
qed

lemma wired_ok: "lcd_wired f l \<Longrightarrow> whole_frame f \<Longrightarrow> lcd_ok l"
  by (simp add: lcd_wired_def lcd_ok_def spi_ready_def)

lemma refresh_ok: "whole_frame f \<Longrightarrow> \<exists>f'. tft_refresh_screan c f = Some f' \<and> whole_frame f'"
  unfolding tft_refresh_screan_def
  by (rule foldM_upto_inv [where I = "\<lambda>_. whole_frame"]) (simp_all add: whole_frame_def store_def lcd_consts)

lemma name_cspi1: "name_ok (Some lit_cspi1_irq)"
  by (auto simp: name_ok_def lit_cspi1_irq_def cstr_iff intro!: exI [of _ "[99, 115, 112, 105, 49, 95, 105, 114, 113]"])

lemma fw_init_irq_ok:
  assumes "irq_wf c" and "handlers c 14 = None" and "whole_frame (fb l)"
  shows "\<exists>c' l'. tft_fw_init_irq ipg rx (c, l) = Some (c', l') \<and> irq_wf c' \<and> handlers c' = (handlers c)(14 \<mapsto> Mxc_spi_isr)
     \<and> bit (cpsr c') 7 = bit (cpsr c) 7 \<and> lcd_ok l'"
proof -
  obtain c' where "irq_request MXC_INT_CSPI1 (Some Mxc_spi_isr) (Some lit_cspi1_irq) c = Some (0, c')" "irq_wf c'"
    "handlers c' = (handlers c)(14 \<mapsto> Mxc_spi_isr)" "bit (cpsr c') 7 = bit (cpsr c) 7"
    using avic_irq.request_installs [OF assms(1) name_cspi1, of MXC_INT_CSPI1 Mxc_spi_isr] assms(2) by (auto simp: MXC_INT_CSPI1_def)
  moreover obtain l' where "tft_fw_init ipg rx 0 l = Some l'" "lcd_wired (fb l) l'" using fw_init_wired by blast
  ultimately show ?thesis using wired_ok assms(3) by (simp add: tft_fw_init_irq_def)
qed

lemma loop_init_ok:
  assumes "irq_wf (ic s)" and "handlers (ic s) 14 = None" and "whole_frame (fb (disp s))" and "length (e_junk e) = 16" and "system_init s = 0"
  shows "\<exists>c l. loop_init e s = Some (s\<lparr>system_init := 1, ic := c, disp := l\<rparr>) \<and> irq_wf c \<and> handlers c = (handlers (ic s))(14 \<mapsto> Mxc_spi_isr)
     \<and> bit (cpsr c) 7 = bit (cpsr (ic s)) 7 \<and> lcd_ok l"
proof -
  define l0 where "l0 = tft_backlight_brightness 0 (on_board (emit [tft_gpio_init, tft_clock_init]) (disp s))"
  have "whole_frame (fb l0)" using assms(3) by (simp add: l0_def tft_backlight_brightness_def on_board_def)
  then obtain c l1 where 1: "tft_fw_init_irq (e_ipg e) (e_rx e) (ic s, l0) = Some (c, l1)" "irq_wf c"
    "handlers c = (handlers (ic s))(14 \<mapsto> Mxc_spi_isr)" "bit (cpsr c) 7 = bit (cpsr (ic s)) 7" "lcd_ok l1"
    using fw_init_irq_ok [OF assms(1,2)] by blast
  define l2 where "l2 = on_board hfc_battery_charge_gpio_init (on_board hfc_hc595_data_latch_init (l1\<lparr>lcd_init := 1\<rparr>))"
  have "lcd_ok l2" using 1(5) by (simp add: l2_def lcd_ok_def on_board_def hfc_battery_charge_gpio_init_def hfc_hc595_data_latch_init_def emit_def)
  then obtain f3 where 3: "on_fb (tft_refresh_screan 0) l2 = Some (l2\<lparr>fb := f3\<rparr>)" "lcd_ok (l2\<lparr>fb := f3\<rparr>)"
    using on_fb_ok [of l2 "tft_refresh_screan 0"] refresh_ok by blast
  obtain f4 where 4: "on_fb tft_fill_battery_img (l2\<lparr>fb := f3\<rparr>) = Some (l2\<lparr>fb := f4\<rparr>)" "lcd_ok (l2\<lparr>fb := f4\<rparr>)"
    using on_fb_ok [OF 3(2), of tft_fill_battery_img] battery_img_ok by auto
  obtain f5 where 5: "on_fb (tft_display_battery_icon 0) (l2\<lparr>fb := f4\<rparr>) = Some (l2\<lparr>fb := f5\<rparr>)" "lcd_ok (l2\<lparr>fb := f5\<rparr>)"
    using on_fb_ok [OF 4(2), of "tft_display_battery_icon 0"] icon_ok by auto
  obtain f6 where 6: "on_fb (lcd_display_voltage (e_junk e) 0) (l2\<lparr>fb := f5\<rparr>) = Some (l2\<lparr>fb := f6\<rparr>)" "lcd_ok (l2\<lparr>fb := f6\<rparr>)"
    using voltage_ok [OF _ _ assms(4) 5(2), of 0] by auto
  have "loop_init e s = Some (s\<lparr>system_init := 1, ic := c, disp := l2\<lparr>fb := f6\<rparr>\<rparr>)"
    using assms(5) 1(1) 3(1) 4(1) 5(1) 6(1) by (simp add: loop_init_def Let_def flip: l0_def l2_def)
  then show ?thesis using 1 6(2) by blast
qed

section \<open>Keypad reads\<close>

text \<open>
  The keypad in a state the driver can reach, with nothing pending outside the positions \<open>K\<close>. Sixteen positions are what
  \<open>k_KeyV\<close> holds.
\<close>

definition kpd_ok :: "nat set \<Rightarrow> keypad \<Rightarrow> bool" where
  "kpd_ok K kp \<longleftrightarrow> (\<exists>a. kp_rel kp a \<and> (\<forall>k. pend a k \<longrightarrow> k \<in> K))"

lemma pend_tremble: "pend (atremble_step ks a) = pend a"
  by (simp add: atremble_step_def adecode_def)

lemma agetc_within:
  assumes "finite K" and "card K \<le> 16" and "\<forall>k. pressed k \<longrightarrow> k \<in> K" and "\<forall>k. pend a k \<longrightarrow> k \<in> K"
  shows "\<exists>v a'. agetc pressed a = Some (v, a') \<and> (\<forall>k. pend a' k \<longrightarrow> k \<in> K)"
proof -
  define a1 where "a1 = ascan pressed a"
  have p1: "\<forall>k. pend a1 k \<longrightarrow> k \<in> K" using assms(3,4) by (simp add: a1_def ascan_def Let_def)
  have "length (filter (pend a1) positions) = card (set (filter (pend a1) positions))"
    by (rule distinct_card [symmetric]) (simp add: positions_def)
  also have "\<dots> \<le> card K" using p1 by (intro card_mono [OF assms(1)]) auto
  finally have "length (filter (pend a1) positions) \<le> 16" using assms(2) by simp
  then show ?thesis using p1 by (simp add: agetc_def Let_def pend_tremble flip: a1_def)
qed

lemma getc_ok:
  assumes "kpd_ok K kp" and "finite K" and "card K \<le> 16" and "kpp_wiring pins pressed" and "\<forall>k. pressed k \<longrightarrow> k \<in> K" and "5 \<le> length page0"
  shows "\<exists>v kp'. mxc_kpp_getc pins stat page0 kp = Some (v, kp') \<and> kpd_ok K kp'"
proof -
  obtain a where a: "kp_rel kp a" "\<forall>k. pend a k \<longrightarrow> k \<in> K" using assms(1) by (auto simp: kpd_ok_def)
  show ?thesis
  proof (cases "stat (regs kp) AND KBD_STAT_KPKD = 0")
    case True
    then have "mxc_kpp_getc pins stat page0 kp = Some (0, kp\<lparr>k_KeyV := replicate 17 0\<rparr>)" by (simp add: mxc_kpp_getc_def Let_def)
    then show ?thesis using a by (auto simp: kpd_ok_def)
  next
    case False
    obtain v a' where "agetc pressed a = Some (v, a')" "\<forall>k. pend a' k \<longrightarrow> k \<in> K" using agetc_within [OF assms(2,3,5) a(2)] by blast
    moreover from this(1) obtain kp' where "mxc_kpp_getc pins stat page0 kp = Some (v, kp')" "kp_rel kp' a'"
      using getc_refines [where stat = stat, OF a(1) assms(4) False assms(6)] by auto
    ultimately show ?thesis by (auto simp: kpd_ok_def)
  qed
qed

section \<open>The invariant\<close>

definition env_ok :: "nat set \<Rightarrow> loop_env \<Rightarrow> bool" where
  "env_ok K e \<longleftrightarrow> (\<exists>pressed. kpp_wiring (e_pins e) pressed \<and> (\<forall>k. pressed k \<longrightarrow> k \<in> K))
     \<and> 5 \<le> length (e_page0 e) \<and> length (e_junk e) = 16 \<and> length (e_fifo e) \<le> 16"

definition up :: "loop_pc set" where
  "up = {At_bat, At_con, At_key, Out_debug, Out_recovery}"

definition counters_ok :: "boot \<Rightarrow> bool" where
  "counters_ok s \<longleftrightarrow> unat (battery_loop s) \<le> (if pc s \<in> {At_sys, At_init, At_bat} then 11 else 10)
     \<and> unat (sys_loop s) \<le> (if pc s = At_sys then 26 else 25)"

definition irqs_ok :: "boot \<Rightarrow> bool" where
  "irqs_ok s \<longleftrightarrow> irq_wf (ic s) \<and> handlers (ic s) 53 = Some Gpt2_irq_handler \<and> \<not> bit (cpsr (ic s)) 7 \<and> gpt_ok (timer s)
     \<and> (if pc s = At_clear then time_tick (timer s) = 1 else True)"

definition display_ok :: "boot \<Rightarrow> bool" where
  "display_ok s \<longleftrightarrow> bat_ok (bat s) \<and> whole_frame (fb (disp s))
     \<and> (if system_init s = 0 then handlers (ic s) 14 = None \<and> pc s \<notin> up else lcd_ok (disp s))"

definition boot_inv :: "nat set \<Rightarrow> boot \<Rightarrow> bool" where
  "boot_inv K s \<longleftrightarrow> counters_ok s \<and> irqs_ok s \<and> display_ok s \<and> kpd_ok K (kpd s)"

lemma inv_open: "boot_inv K s \<Longrightarrow> irq_open s"
  by (auto simp: boot_inv_def irqs_ok_def irq_open_def gpt_ok_def irq_wf_def)

lemma inv_irq:
  assumes "boot_inv K s"
  shows "take_irq s = Some (s\<lparr>timer := gpt2_irq_handler (timer s)\<rparr>)" "boot_inv K (s\<lparr>timer := gpt2_irq_handler (timer s)\<rparr>)"
proof -
  have t: "irq_wf (ic s)" "handlers (ic s) 53 = Some Gpt2_irq_handler" "gpt_ok (timer s)" using assms by (simp_all add: boot_inv_def irqs_ok_def)
  show "take_irq s = Some (s\<lparr>timer := gpt2_irq_handler (timer s)\<rparr>)" using dispatch_gpt2 [OF t(1,2)] by (simp add: take_irq_def)
  have "time_tick (gpt2_irq_handler (timer s)) = 1" if "time_tick (timer s) = 1" using base_step(2) [of "timer s"] t(3) that by (simp add: gpt_ok_def)
  then show "boot_inv K (s\<lparr>timer := gpt2_irq_handler (timer s)\<rparr>)"
    using assms handler_ok [OF t(3)] by (auto simp: boot_inv_def counters_ok_def irqs_ok_def display_ok_def)
qed

lemmas inv_defs = boot_inv_def counters_ok_def irqs_ok_def display_ok_def up_def

lemma lcd_brightness [simp]: "fb (tft_backlight_brightness v l) = fb l" "lcd_ok (tft_backlight_brightness v l) = lcd_ok l"
  by (simp_all add: tft_backlight_brightness_def lcd_ok_def)

lemma inv_count:
  assumes "boot_inv K s" and "pc s = At_count" and "finite K" "card K \<le> 16" and "env_ok K e"
  shows "\<exists>s'. loop_step e s = Some s' \<and> boot_inv K s'"
proof -
  obtain pressed where "kpp_wiring (e_pins e) pressed" "\<forall>k. pressed k \<longrightarrow> k \<in> K" "5 \<le> length (e_page0 e)"
    using assms(5) by (auto simp: env_ok_def)
  moreover have "kpd_ok K (kpd s)" using assms(1) by (simp add: boot_inv_def)
  ultimately obtain v kp where g: "mxc_kpp_getc (e_pins e) (e_stat e) (e_page0 e) (kpd s) = Some (v, kp)" "kpd_ok K kp"
    using getc_ok [OF _ assms(3,4), of "kpd s" "e_pins e" pressed "e_page0 e" "e_stat e"] by blast
  define s' where "s' = s\<lparr>battery_loop := battery_loop s + 1, sys_loop := sys_loop s + 1, bkey := v, kpd := kp, pc := At_sys\<rparr>"
  have "loop_step e s = Some s'" using g(1) assms(2) by (simp add: loop_step_def loop_count_def Let_def s'_def)
  moreover have "unat (battery_loop s + 1) \<le> 11" "unat (sys_loop s + 1) \<le> 26"
    using assms(1,2) by (simp_all add: inv_defs unat_add_u32)
  then have "boot_inv K s'" using assms(1,2) g(2) by (auto simp: inv_defs s'_def)
  ultimately show ?thesis by blast
qed

lemma inv_init:
  assumes "boot_inv K s" and "pc s = At_init" and "env_ok K e"
  shows "\<exists>s'. loop_step e s = Some s' \<and> boot_inv K s'"
proof (cases "system_init s = 0")
  case True
  have "irq_wf (ic s)" "handlers (ic s) 14 = None" "whole_frame (fb (disp s))" using assms(1) True by (simp_all add: inv_defs)
  then obtain c l where 1: "loop_init e s = Some (s\<lparr>system_init := 1, ic := c, disp := l\<rparr>)" "irq_wf c" "handlers c = (handlers (ic s))(14 \<mapsto> Mxc_spi_isr)"
    "bit (cpsr c) 7 = bit (cpsr (ic s)) 7" "lcd_ok l"
    using loop_init_ok [of s e] True assms(3) by (auto simp: env_ok_def)
  define s' where "s' = s\<lparr>system_init := 1, ic := c, disp := l, pc := At_bat\<rparr>"
  have "loop_step e s = Some s'" using 1(1) assms(2) by (simp add: loop_step_def s'_def)
  moreover have "boot_inv K s'" using assms(1,2) 1(2-5) by (auto simp: inv_defs s'_def lcd_ok_def)
  ultimately show ?thesis by blast
next
  case False
  then have "loop_step e s = Some (s\<lparr>pc := At_bat\<rparr>)" using assms(2) by (simp add: loop_step_def loop_init_def)
  then show ?thesis using assms(1,2) False by (auto simp: inv_defs)
qed

lemma manager_ok:
  assumes "bat_ok b" and "lcd_ok l" and "length junk = 16" and "length fifo \<le> 16"
  shows "\<exists>b' l'. hfc_battery_manager ipg rx fifo junk (b, l) = Some (b', l') \<and> bat_ok b' \<and> lcd_ok l'"
  using manager_spec [where ipg = ipg and rx = rx and fifo = fifo, OF assms(1-3)] assms(4) by (auto split: option.splits)

lemma inv_battery:
  assumes "boot_inv K s" and "pc s = At_bat" and "env_ok K e"
  shows "\<exists>s'. loop_step e s = Some s' \<and> boot_inv K s'"
proof -
  have i: "bat_ok (bat s)" "lcd_ok (disp s)" "system_init s \<noteq> 0" using assms(1,2) by (auto simp: inv_defs split: if_splits)
  show ?thesis
  proof (cases "10 < battery_loop s")
    case True
    obtain b l where 1: "hfc_battery_manager (e_ipg e) (e_rx e) (e_fifo e) (e_junk e) (bat s, disp s) = Some (b, l)" "bat_ok b" "lcd_ok l"
      using manager_ok [OF i(1,2)] assms(3) unfolding env_ok_def by blast
    define s' where "s' = s\<lparr>battery_loop := 0, bat := b, disp := l, pc := At_con\<rparr>"
    have "loop_step e s = Some s'" using 1(1) True assms(2) by (simp add: loop_step_def loop_battery_def s'_def)
    moreover have "boot_inv K s'" using assms(1,2) 1(2,3) i(3) by (auto simp: inv_defs s'_def lcd_ok_def)
    ultimately show ?thesis by blast
  next
    case False
    then have "loop_step e s = Some (s\<lparr>pc := At_con\<rparr>)" using assms(2) by (simp add: loop_step_def loop_battery_def)
    moreover have "unat (battery_loop s) \<le> 10" using False by (simp add: word_less_nat_alt)
    ultimately show ?thesis using assms(1,2) i(3) by (auto simp: inv_defs)
  qed
qed

lemma inv_sys:
  assumes "boot_inv K s" and "pc s = At_sys"
  shows "boot_inv K ((loop_sys s)\<lparr>pc := At_init\<rparr>)"
proof (cases "25 < sys_loop s")
  case True
  then show ?thesis using assms by (auto simp: inv_defs loop_sys_def)
next
  case False
  then have "unat (sys_loop s) \<le> 25" by (simp add: word_less_nat_alt)
  then show ?thesis using assms False by (auto simp: inv_defs loop_sys_def)
qed

lemma inv_loop:
  assumes "boot_inv K s" and "finite K" "card K \<le> 16" and "env_ok K e"
  shows "\<exists>s'. loop_step e s = Some s' \<and> boot_inv K s'"
proof (cases "pc s")
  case At_count
  then show ?thesis using inv_count assms by blast
next
  case At_sys
  then show ?thesis using inv_sys [OF assms(1)] by (simp add: loop_step_def)
next
  case At_init
  then show ?thesis using inv_init assms by blast
next
  case At_bat
  then show ?thesis using inv_battery assms by blast
next
  case At_con
  then show ?thesis using assms(1) by (auto simp: loop_step_def loop_console_def inv_defs split: option.splits)
next
  case At_key
  then show ?thesis using assms(1) by (auto simp: loop_step_def loop_exit_def inv_defs)
qed (use assms(1) in \<open>auto simp: loop_step_def inv_defs gpt_ok_def\<close>)

lemma inv_step: "boot_inv K s \<Longrightarrow> finite K \<Longrightarrow> card K \<le> 16 \<Longrightarrow> boot_step (env_ok K) s s' \<Longrightarrow> boot_inv K s'"
  using inv_irq inv_loop by (fastforce elim: boot_stepE)

lemma inv_reach: "boot_reach (env_ok K) s t \<Longrightarrow> finite K \<Longrightarrow> card K \<le> 16 \<Longrightarrow> boot_inv K s \<Longrightarrow> boot_inv K t"
  by (induction rule: boot_reach.induct) (auto intro: inv_step)

section \<open>Start\<close>

definition boot_zero :: "boot \<Rightarrow> bool" where
  "boot_zero s \<longleftrightarrow> irq_static (ic s) \<and> timer_base (timer s) = 0 \<and> time_tick (timer s) = 0 \<and> battery_loop s = 0 \<and> sys_loop s = 0
     \<and> system_init s = 0 \<and> kp_static (kpd s) \<and> bat_ok (bat s) \<and> whole_frame (fb (disp s))"

text \<open>What the calls before the keypad's leave.\<close>

lemma start_irqs:
  assumes "boot_zero s"
  shows "\<exists>c c' g. arch_interrupt_init (ic s) = Some (0, c) \<and> gpt2_init (enable_interrupts c, timer s) = Some (0, c', g)
     \<and> irq_wf c' \<and> handlers c' = [53 \<mapsto> Gpt2_irq_handler] \<and> \<not> bit (cpsr c') 7 \<and> gpt_ok g \<and> time_tick g = 0 \<and> timer_base g = 0"
proof -
  obtain c where c: "arch_interrupt_init (ic s) = Some (0, c)" "irq_wf c" "handlers c = Map.empty"
    using init_wf assms unfolding boot_zero_def by blast
  have b: "\<not> bit (cpsr (enable_interrupts c)) 7" "irq_wf (enable_interrupts c)" "handlers (enable_interrupts c) = Map.empty"
    using c(2,3) mask_bits(1) [of "cpsr c AND NOT 0x80"] by (simp_all add: enable_interrupts_def and.assoc)
  then have "handlers (enable_interrupts c) 53 = None" by simp
  from gpt2_init_eq [OF b(2) this, of "timer s"] obtain c' where
    "gpt2_init (enable_interrupts c, timer s) = Some (0, c', (timer s)\<lparr>GPTCR := 0x81, GPTPR := 3599, GPTIR := 1, GPTOCR1 := 25\<rparr>)"
    "irq_wf c'" "handlers c' = [53 \<mapsto> Gpt2_irq_handler]" "\<not> bit (cpsr c') 7" using b by auto
  then show ?thesis using c(1) assms by (auto simp: boot_zero_def gpt_ok_def)
qed

lemma start_inv:
  assumes "boot_zero s" and "list_all alloc [0..<14]"
  shows "\<exists>s0. boot_start pins stat alloc junk s = Some s0 \<and> boot_inv K s0 \<and> kp_rel (kpd s0) afresh \<and> pc s0 = At_tick
     \<and> time_tick (timer s0) = 0 \<and> timer_base (timer s0) = 0"
proof -
  obtain c c' g where 1: "arch_interrupt_init (ic s) = Some (0, c)" "gpt2_init (enable_interrupts c, timer s) = Some (0, c', g)"
    "irq_wf c'" "handlers c' = [53 \<mapsto> Gpt2_irq_handler]" "\<not> bit (cpsr c') 7" "gpt_ok g" "time_tick g = 0" "timer_base g = 0" using start_irqs [OF assms(1)] by blast
  have "kp_static (kpd s)" using assms(1) by (simp add: boot_zero_def)
  then obtain kp where 2: "mxc_kpp_init pins stat alloc junk (kpd s) = Some (0, kp)" "kp_rel kp afresh"
    using init_ready [OF _ assms(2)] by blast
  define s0 where "s0 = s\<lparr>ic := c', timer := g, kpd := kp, bkey := 0, pc := At_tick\<rparr>"
  have "boot_start pins stat alloc junk s = Some s0" using 1(1,2) 2(1) by (simp add: boot_start_def s0_def Let_def)
  moreover have "kpd_ok K kp" using 2(2) by (auto simp: kpd_ok_def afresh_def intro!: exI [of _ afresh])
  then have "boot_inv K s0" using assms(1) 1(3-6) by (simp add: inv_defs boot_zero_def s0_def)
  ultimately show ?thesis using 2(2) 1(7,8) by (auto simp: s0_def)
qed

section \<open>Passes\<close>

fun loop_steps :: "loop_env \<Rightarrow> nat \<Rightarrow> boot \<Rightarrow> boot option" where
  "loop_steps e 0 s = Some s"
| "loop_steps e (Suc n) s = do { s \<leftarrow> loop_step e s; loop_steps e n s }"

lemma inv_steps:
  "boot_inv K s \<Longrightarrow> finite K \<Longrightarrow> card K \<le> 16 \<Longrightarrow> env_ok K e \<Longrightarrow> \<exists>s'. loop_steps e n s = Some s' \<and> boot_inv K s'"
proof (induction n arbitrary: s)
  case (Suc n)
  obtain s1 where "loop_step e s = Some s1" "boot_inv K s1" using inv_loop [OF Suc.prems] by blast
  then show ?case using Suc.IH [OF _ Suc.prems(2-4)] by simp
qed simp

text \<open>The parts of the body do not look at the program counter.\<close>

lemma parts_pc:
  "loop_count e (s\<lparr>pc := p\<rparr>) = map_option (\<lambda>s. s\<lparr>pc := p\<rparr>) (loop_count e s)"
  "loop_sys (s\<lparr>pc := p\<rparr>) = (loop_sys s)\<lparr>pc := p\<rparr>"
  "loop_init e (s\<lparr>pc := p\<rparr>) = map_option (\<lambda>s. s\<lparr>pc := p\<rparr>) (loop_init e s)"
  "loop_battery e (s\<lparr>pc := p\<rparr>) = map_option (\<lambda>s. s\<lparr>pc := p\<rparr>) (loop_battery e s)"
  "loop_console e (s\<lparr>pc := p\<rparr>) = (loop_console e s)\<lparr>pc := p\<rparr>"
  "loop_exit (s\<lparr>pc := p\<rparr>) = loop_exit s"
  by (auto simp: loop_count_def loop_sys_def loop_init_def loop_battery_def loop_console_def loop_exit_def Let_def
      split: bind_splits option.splits)

lemma map_option_bind: "map_option f m \<bind> g = m \<bind> (\<lambda>x. g (f x))"
  by (cases m) simp_all

lemma six_steps:
  assumes "pc s = At_sys"
  shows "loop_steps e 5 s = do { s \<leftarrow> loop_init e (loop_sys s); s \<leftarrow> loop_battery e s; let s = loop_console e s in Some (s\<lparr>pc := loop_exit s\<rparr>) }"
proof -
  have five: "(5 :: nat) = Suc (Suc (Suc (Suc (Suc 0))))" by simp
  show ?thesis unfolding five loop_steps.simps
    by (simp add: loop_step_def assms parts_pc map_option_bind Let_def)
qed

lemma pass_steps:
  assumes "pc s = At_tick"
  shows "loop_steps e (if time_tick (timer s) = 1 then 8 else 6) s = boot_pass e s"
proof (cases "time_tick (timer s) = 1")
  case True
  have eight: "(8 :: nat) = Suc (Suc (Suc 5))" by simp
  have "loop_steps e 5 (u\<lparr>pc := At_sys\<rparr>) = do { s \<leftarrow> loop_init e (loop_sys u); s \<leftarrow> loop_battery e s; let s = loop_console e s in Some (s\<lparr>pc := loop_exit s\<rparr>) }" for u
    using six_steps [of "u\<lparr>pc := At_sys\<rparr>" e] by (simp add: parts_pc map_option_bind Let_def)
  then show ?thesis using True assms unfolding eight
    by (simp add: loop_step_def parts_pc map_option_bind boot_pass_def del: Suc_numeral)
next
  case False
  have six: "(6 :: nat) = Suc 5" by simp
  show ?thesis using False assms six_steps [of "s\<lparr>pc := At_sys\<rparr>" e] unfolding six
    by (simp add: loop_step_def boot_pass_def parts_pc map_option_bind Let_def del: Suc_numeral)
qed

lemma inv_pass:
  assumes "boot_inv K s" and "finite K" "card K \<le> 16" and "env_ok K e" and "pc s = At_tick"
  shows "\<exists>s'. boot_pass e s = Some s' \<and> boot_inv K s'"
  using inv_steps [OF assms(1-4)] pass_steps [OF assms(5)] by metis

text \<open>Keypad and key through a pass: the read on a tick, and the console.\<close>

lemma parts_key:
  "loop_init e s = Some s' \<Longrightarrow> kpd s' = kpd s \<and> bkey s' = bkey s"
  "loop_battery e s = Some s' \<Longrightarrow> kpd s' = kpd s \<and> bkey s' = bkey s"
  "kpd (loop_sys s) = kpd s \<and> bkey (loop_sys s) = bkey s"
  "kpd (loop_console e s) = kpd s"
  by (auto simp: loop_init_def loop_battery_def loop_sys_def loop_console_def Let_def bind_eq_Some_conv split: if_splits option.splits)

lemma pass_key:
  assumes "boot_pass e s = Some s'"
  shows "pc s' = loop_exit s'"
    "e_con e = Some 0x1b \<Longrightarrow> bkey s' = KEY_GOTO_DBG"
    "time_tick (timer s) = 1 \<Longrightarrow> e_con e \<noteq> Some 0x1b \<Longrightarrow> mxc_kpp_getc (e_pins e) (e_stat e) (e_page0 e) (kpd s) = Some (bkey s', kpd s')"
proof -
  obtain s1 s2 s3 where 1: "(if time_tick (timer s) = 1 then loop_count e (s\<lparr>timer := (timer s)\<lparr>time_tick := 0\<rparr>\<rparr>) else Some s) = Some s1"
    and 2: "loop_init e (loop_sys s1) = Some s2" and 3: "loop_battery e s2 = Some s3"
    and s': "s' = (loop_console e s3)\<lparr>pc := loop_exit (loop_console e s3)\<rparr>"
    using assms by (auto simp: boot_pass_def bind_eq_Some_conv Let_def)
  show "pc s' = loop_exit s'" by (simp add: s' parts_pc)
  show "e_con e = Some 0x1b \<Longrightarrow> bkey s' = KEY_GOTO_DBG" by (simp add: s' loop_console_def)
  assume t: "time_tick (timer s) = 1" "e_con e \<noteq> Some 0x1b"
  have "bkey s' = bkey s1" "kpd s' = kpd s1" using t(2) parts_key(1) [OF 2] parts_key(2) [OF 3] parts_key(3) [of s1]
    by (auto simp: s' loop_console_def split: option.splits)
  then show "mxc_kpp_getc (e_pins e) (e_stat e) (e_page0 e) (kpd s) = Some (bkey s', kpd s')"
    using 1 t(1) by (auto simp: loop_count_def Let_def bind_eq_Some_conv)
qed

text \<open>A round: a number of timer interrupts and, while the loop has not been left, a pass.\<close>

fun take_irqs :: "nat \<Rightarrow> boot \<Rightarrow> boot option" where
  "take_irqs 0 s = Some s"
| "take_irqs (Suc n) s = do { s \<leftarrow> take_irq s; take_irqs n s }"

definition boot_round :: "nat \<times> loop_env \<Rightarrow> boot \<Rightarrow> boot option" where
  "boot_round = (\<lambda>(n, e) s. do { s \<leftarrow> take_irqs n s; if pc s = At_tick then boot_pass e s else Some s })"

lemma take_irqs_eq:
  "boot_inv K s \<Longrightarrow> take_irqs n s = Some (s\<lparr>timer := (gpt2_irq_handler ^^ n) (timer s)\<rparr>) \<and> boot_inv K (s\<lparr>timer := (gpt2_irq_handler ^^ n) (timer s)\<rparr>)"
proof (induction n arbitrary: s)
  case (Suc n)
  have "boot_inv K (s\<lparr>timer := gpt2_irq_handler (timer s)\<rparr>)" using inv_irq(2) [OF Suc.prems] .
  from Suc.IH [OF this] show ?case using inv_irq(1) [OF Suc.prems] by (simp add: funpow_swap1)
qed simp

lemma eleven_ticks:
  assumes "boot_inv K s" and "11 \<le> n"
  shows "time_tick ((gpt2_irq_handler ^^ n) (timer s)) = 1"
  using handler_run [of "timer s" n] assms by (simp add: inv_defs gpt_ok_def)

definition menu_env :: "loop_env \<Rightarrow> bool" where
  "menu_env e \<longleftrightarrow> kpp_wiring (e_pins e) menu \<and> (\<forall>r. e_stat e r AND KBD_STAT_KPKD \<noteq> 0) \<and> 5 \<le> length (e_page0 e) \<and> length (e_junk e) = 16
     \<and> length (e_fifo e) \<le> 16 \<and> e_con e \<noteq> Some 0x1b"

lemma menu_env_ok: "menu_env e \<Longrightarrow> env_ok (set menu_keys) e"
  by (auto simp: menu_env_def env_ok_def menu_def)

lemma menu_set: "finite (set menu_keys)" "card (set menu_keys) \<le> 16"
  by (simp_all add: menu_keys_def)

lemma round_menu:
  assumes "boot_inv (set menu_keys) s" and "pc s = At_tick" and "kp_rel (kpd s) a" and "agetc menu a = Some (v, a')" and "menu_env e" and "11 \<le> n"
  shows "\<exists>s'. boot_round (n, e) s = Some s' \<and> boot_inv (set menu_keys) s' \<and> kp_rel (kpd s') a' \<and> bkey s' = v \<and> pc s' = loop_exit s'"
proof -
  define t where "t = s\<lparr>timer := (gpt2_irq_handler ^^ n) (timer s)\<rparr>"
  have t: "take_irqs n s = Some t" "boot_inv (set menu_keys) t" "pc t = At_tick" "kpd t = kpd s" "time_tick (timer t) = 1"
    using take_irqs_eq [OF assms(1)] eleven_ticks [OF assms(1,6)] assms(2) by (simp_all add: t_def)
  obtain s' where s': "boot_pass e t = Some s'" "boot_inv (set menu_keys) s'"
    using inv_pass [OF t(2) menu_set menu_env_ok [OF assms(5)] t(3)] by blast
  have w: "kpp_wiring (e_pins e) menu" "e_stat e (regs (kpd s)) AND KBD_STAT_KPKD \<noteq> 0" "5 \<le> length (e_page0 e)" "e_con e \<noteq> Some 0x1b"
    using assms(5) by (simp_all add: menu_env_def)
  have "mxc_kpp_getc (e_pins e) (e_stat e) (e_page0 e) (kpd s) = Some (bkey s', kpd s')" using pass_key(3) [OF s'(1) t(5) w(4)] t(4) by simp
  then have "bkey s' = v" "kp_rel (kpd s') a'" using getc_refines [where stat = "e_stat e", OF assms(3) w(1-3)] assms(4) by auto
  then show ?thesis using t(1,3) s' pass_key(1) [OF s'(1)] by (simp add: boot_round_def)
qed

lemma rounds_menu:
  assumes "boot_inv (set menu_keys) s" and "pc s = At_tick" and "kp_rel (kpd s) a" and "agetc_run menu (length rs) a = Some (vs, a')"
    and "list_all (\<lambda>(n, e). 11 \<le> n \<and> menu_env e) rs" and "KEY_GOTO_DBG \<notin> set vs" "KEY_GOTO_MENU \<notin> set vs"
  shows "\<exists>t. foldM boot_round rs s = Some t \<and> boot_inv (set menu_keys) t \<and> pc t = At_tick \<and> kp_rel (kpd t) a'"
  using assms
proof (induction rs arbitrary: s a vs)
  case (Cons r rs)
  obtain n e where r: "r = (n, e)" by (cases r)
  obtain v a1 ws where 1: "agetc menu a = Some (v, a1)" "agetc_run menu (length rs) a1 = Some (ws, a')" "vs = v # ws"
    using Cons.prems(4) by (auto simp: bind_eq_Some_conv)
  obtain t where t: "boot_round r s = Some t" "boot_inv (set menu_keys) t" "kp_rel (kpd t) a1" "bkey t = v" "pc t = loop_exit t"
    using round_menu [OF Cons.prems(1-3) 1(1), of e n] Cons.prems(5) r by auto
  have "pc t = At_tick" using t(4,5) 1(3) Cons.prems(6,7) by (auto simp: loop_exit_def)
  then show ?case using Cons.IH [OF t(2) _ t(3) 1(2)] Cons.prems(5-7) 1(3) t(1) by simp
qed auto

lemma menu_hold_split:
  "\<exists>b. agetc_run menu 16 afresh = Some (replicate 16 12, b) \<and> agetc menu b = Some (KEY_GOTO_MENU, amenu 15)"
proof -
  have "agetc_run menu (16 + 1) afresh = Some (replicate 16 12 @ [KEY_GOTO_MENU], amenu 15)" using menu_hold_abs by simp
  then obtain vs b ws where "agetc_run menu 16 afresh = Some (vs, b)" "agetc_run menu 1 b = Some (ws, amenu 15)" "vs @ ws = replicate 16 12 @ [KEY_GOTO_MENU]"
    unfolding agetc_run_add by (auto simp: bind_eq_Some_conv)
  moreover from this(2) obtain v where "agetc menu b = Some (v, amenu 15)" "ws = [v]" by (auto simp: bind_eq_Some_conv)
  ultimately show ?thesis by auto
qed

lemma menu_hold_rounds:
  assumes "boot_inv (set menu_keys) s0" and "pc s0 = At_tick" and "kp_rel (kpd s0) afresh" and "length rs = 17"
    and "list_all (\<lambda>(n, e). 11 \<le> n \<and> menu_env e) rs"
  shows "(\<exists>t. foldM boot_round (butlast rs) s0 = Some t \<and> pc t = At_tick) \<and> (\<exists>t. foldM boot_round rs s0 = Some t \<and> pc t = Out_recovery)"
proof -
  obtain b where b: "agetc_run menu 16 afresh = Some (replicate 16 12, b)" "agetc menu b = Some (KEY_GOTO_MENU, amenu 15)" using menu_hold_split by blast
  have rs: "rs = butlast rs @ [last rs]" "length (butlast rs) = 16" using assms(4) append_butlast_last_id [of rs] by fastforce+
  have l: "list_all (\<lambda>(n, e). 11 \<le> n \<and> menu_env e) (butlast rs @ [last rs])" using assms(5) rs(1) by simp
  have k: "KEY_GOTO_DBG \<notin> set (replicate 16 12)" "KEY_GOTO_MENU \<notin> set (replicate 16 12)" by (simp_all add: KEY_GOTO_DBG_def KEY_GOTO_MENU_def)
  obtain t where t: "foldM boot_round (butlast rs) s0 = Some t" "boot_inv (set menu_keys) t" "pc t = At_tick" "kp_rel (kpd t) b"
    using rounds_menu [OF assms(1-3), of "butlast rs"] b(1) rs(2) l k by auto
  obtain n e where ne: "last rs = (n, e)" by (cases "last rs")
  obtain u where "boot_round (n, e) t = Some u" "bkey u = KEY_GOTO_MENU" "pc u = loop_exit u"
    using round_menu [OF t(2-4) b(2), of e n] l ne by auto
  then have "foldM boot_round (butlast rs @ [last rs]) s0 = Some u" "pc u = Out_recovery"
    using t(1) ne by (simp_all add: foldM_append loop_exit_def KEY_GOTO_DBG_def KEY_GOTO_MENU_def)
  then show ?thesis using t(1,3) rs(1) by auto
qed

section \<open>Ticks and reads\<close>

text \<open>Ticks that have been made but not yet counted by a read.\<close>

definition owed :: "boot \<Rightarrow> nat" where
  "owed s = of_bool (time_tick (timer s) = 1) + of_bool (pc s = At_count)"

lemma owed_irq:
  assumes "timer_base (timer s) \<le> 10"
  shows "11 * owed (s\<lparr>timer := gpt2_irq_handler (timer s)\<rparr>) + unat (timer_base (gpt2_irq_handler (timer s))) \<le> 11 * owed s + unat (timer_base (timer s)) + 1"
proof -
  have "timer_base (timer s) = 10 \<longleftrightarrow> unat (timer_base (timer s)) = 10" by (simp add: word_unat_eq_iff)
  then show ?thesis using base_step(2,3) [OF assms] by (cases "unat (timer_base (timer s)) = 10") (simp_all add: owed_def)
qed

lemma parts_timer:
  "loop_count e s = Some u \<Longrightarrow> timer u = timer s \<and> pc u = pc s"
  "loop_init e s = Some u \<Longrightarrow> timer u = timer s \<and> pc u = pc s"
  "loop_battery e s = Some u \<Longrightarrow> timer u = timer s \<and> pc u = pc s"
  "timer (loop_sys s) = timer s \<and> pc (loop_sys s) = pc s"
  "timer (loop_console e s) = timer s \<and> pc (loop_console e s) = pc s"
  by (auto simp: loop_count_def loop_init_def loop_battery_def loop_sys_def loop_console_def Let_def bind_eq_Some_conv
      split: if_splits option.splits)

lemma owed_loop:
  assumes "boot_inv K s" and "loop_step e s = Some s'"
  shows "owed s' + of_bool (pc s = At_count) \<le> owed s \<and> timer_base (timer s') = timer_base (timer s)"
proof -
  have c: "pc s = At_clear \<Longrightarrow> time_tick (timer s) = 1" using assms(1) by (auto simp: inv_defs)
  show ?thesis using assms(2) c
    by (cases "pc s") (auto simp: loop_step_def owed_def bind_eq_Some_conv loop_exit_def parts_timer(4,5) dest: parts_timer(1-3) split: if_splits)
qed

lemma run_reads:
  assumes "boot_run (env_ok K) s i r t" and "finite K" "card K \<le> 16" and "boot_inv K s" and "owed s = 0"
  shows "boot_inv K t \<and> 11 * (r + owed t) + unat (timer_base (timer t)) \<le> i + unat (timer_base (timer s))"
  using assms(1)
proof (induction rule: boot_run.induct)
  case none
  then show ?case using assms(4,5) by simp
next
  case (irq i r t u)
  then have u: "u = t\<lparr>timer := gpt2_irq_handler (timer t)\<rparr>" "boot_inv K u" using inv_irq [of K t] by auto
  moreover have "timer_base (timer t) \<le> 10" using irq by (simp add: inv_defs gpt_ok_def)
  ultimately show ?case using irq owed_irq [of t] by simp
next
  case (loop i r t e u)
  then have "boot_inv K u" using inv_loop [OF _ assms(2,3)] by fastforce
  moreover have "owed u + of_bool (pc t = At_count) \<le> owed t" "timer_base (timer u) = timer_base (timer t)" using owed_loop loop by blast+
  ultimately show ?case using loop by (auto split: if_splits)
qed

section \<open>Failures\<close>

text \<open>A device without a master sends nothing.\<close>

definition lcd_mute :: "u32 list \<Rightarrow> lcd \<Rightarrow> bool" where
  "lcd_mute ws l \<longleftrightarrow> \<not> spi_master (spi0_dev (brd l)) \<and> txfifo (spi0_hw (brd l)) = ws"

lemma spi_wr_mute: "lcd_mute ws l \<Longrightarrow> \<exists>l'. spi_wr ipg rx w l = Some l' \<and> lcd_mute ws l'"
  by (cases "tft_spi l") (simp_all add: lcd_mute_def spi_wr_def Let_def emit_def poll_spi_write_def mxc_spi_poll_transfer_def)

lemma fw_init_mute:
  assumes "ret \<noteq> 0"
  shows "\<exists>l'. tft_fw_init ipg rx ret l = Some l' \<and> lcd_mute (txfifo (spi0_hw (brd l))) l'"
proof -
  obtain dev where p: "hfc_tft_spi_probe ret (spi0_hw (brd l)) = (0, dev, spi0_hw (brd l))" "\<not> spi_master dev"
    using assms by (simp add: hfc_tft_spi_probe_def mxc_spi_probe_def Let_def)
  define l0 where "l0 = l\<lparr>brd := (brd l)\<lparr>spi0_dev := imx25_spi_setup dev 1000000 9 0, spi0_hw := spi0_hw (brd l)\<rparr>, tft_spi := True\<rparr>"
  define l1 where "l1 = LCM_RES 1 (LCM_RES 0 (LCM_RES 1 (lcd_reset_pin_init l0)))"
  have "lcd_mute (txfifo (spi0_hw (brd l))) l1"
    using p(2) by (simp add: lcd_mute_def l1_def l0_def LCM_RES_def lcd_reset_pin_init_def on_board_def emit_def imx25_spi_setup_def
        spi_setup_def mxc_spi_setup_def)
  then have "\<exists>l'. foldM (ili9341_step ipg rx) ili9341_sequence l1 = Some l' \<and> lcd_mute (txfifo (spi0_hw (brd l))) l'"
  proof (rule foldM_total)
    fix x l'
    assume "lcd_mute (txfifo (spi0_hw (brd l))) l'"
    then show "\<exists>l''. ili9341_step ipg rx x l' = Some l'' \<and> lcd_mute (txfifo (spi0_hw (brd l))) l''"
      by (cases x) (simp_all add: ili9341_step_def SPI_WR_COMMAND_ID0_def SPI_WR_DATA_ID0_def spi_wr_mute)
  qed
  then show ?thesis by (simp add: tft_fw_init_def p(1) init_yushun_ili9341_def l0_def l1_def)
qed

lemma failed_init:
  assumes "kp_static kp" and "\<not> alloc 0" and "\<not> alloc 1"
  shows "\<exists>kp'. mxc_kpp_init pins stat alloc junk kp = Some (-12, kp') \<and> prev_rcmap kp' = Null"
  using assms by (simp add: mxc_kpp_init_def Let_def kpd_sizes kpp_fail_def mxc_kpp_free_allocated_def free_rows_def malloc_def kp_static_def ENOMEM_def)

lemma getc_null:
  assumes "prev_rcmap kp = Null" and "stat (regs kp) AND KBD_STAT_KPKD \<noteq> 0"
  shows "mxc_kpp_getc pins stat page0 kp = None"
  using assms by (simp add: mxc_kpp_getc_def Let_def mxc_kpp_scan_matrix_def scan_sample_def rc_copy_def)

section \<open>Properties\<close>

text \<open>The board at reset, and a step with the menu keys held.\<close>

definition boot_reset :: boot where
  "boot_reset = \<lparr>ic = avic_boot, timer = gpt_reset, battery_loop = 0, sys_loop = 0, system_init = 0, bkey = 0, kpd = kp_boot, bat = bat_start,
     disp = lcd_on, pc = At_tick\<rparr>"

definition held_env :: loop_env where
  "held_env = \<lparr>e_pins = matrix_pins menu, e_stat = (\<lambda>_. 1), e_page0 = replicate 5 9, e_ipg = 66500000, e_rx = (\<lambda>_. 0), e_fifo = [],
     e_junk = replicate 16 0, e_con = None\<rparr>"

lemma boot_reset_zero: "boot_zero boot_reset"
  using avic_boot_static kp_boot_static bat_start_ok lcd_on_ok
  by (simp add: boot_zero_def boot_reset_def gpt_reset_def lcd_ok_def)

lemma held_env_menu: "menu_env held_env"
  using matrix_pins_wiring by (simp add: menu_env_def held_env_def KBD_STAT_KPKD_def)

text \<open>C1 (board.c, \<open>board_init_r\<close>). After a start with every allocation successful, consider all runs in which the hardware
  behaves as \<open>env_ok K\<close> says in every step: the keypad is wired as its driver expects and the keys that are ever pressed
  are in one set of at most sixteen, the half-words that the driver reads through a null pointer are there, and the
  converter's FIFO holds at most sixteen words. Every state that the loop and the
  timer's interrupts can reach, in whatever order they come, keeps the invariant: counters within their bounds, the tick 0
  or 1, the handler installed and its interrupt open, the keypad, battery and display states well formed, the display set
  up before the battery manager runs. In each such state both an interrupt and the next step of the loop are defined.\<close>

theorem boot_safe:
  assumes "boot_zero s" and "list_all alloc [0..<14]" and "finite K" and "card K \<le> 16"
  shows "\<exists>s0. boot_start pins stat alloc junk s = Some s0 \<and>
     (\<forall>t e. boot_reach (env_ok K) s0 t \<and> env_ok K e \<longrightarrow> boot_inv K t \<and> irq_open t \<and> take_irq t \<noteq> None \<and> loop_step e t \<noteq> None)"
proof -
  obtain s0 where s0: "boot_start pins stat alloc junk s = Some s0" "boot_inv K s0" using start_inv [OF assms(1,2)] by blast
  have "boot_inv K t \<and> irq_open t \<and> take_irq t \<noteq> None \<and> loop_step e t \<noteq> None" if "boot_reach (env_ok K) s0 t" "env_ok K e" for t e
  proof -
    have t: "boot_inv K t" using inv_reach [OF that(1) assms(3,4) s0(2)] .
    show ?thesis using t inv_open [OF t] inv_irq(1) [OF t] inv_loop [OF t assms(3,4) that(2)] by auto
  qed
  then show ?thesis using s0(1) by blast
qed

theorem boot_safe_witness:
  "\<exists>s0. boot_start (matrix_pins menu) (\<lambda>_. 1) (\<lambda>_. True) 7 boot_reset = Some s0 \<and>
     (\<forall>t e. boot_reach (env_ok (set menu_keys)) s0 t \<and> env_ok (set menu_keys) e \<longrightarrow> boot_inv (set menu_keys) t \<and> irq_open t
        \<and> take_irq t \<noteq> None \<and> loop_step e t \<noteq> None)"
  by (rule boot_safe [OF boot_reset_zero _ menu_set]) (simp add: list_all_iff)



text \<open>C19 (board.c and hfc_irq.c). However interrupts and steps of the loop are interleaved, r reads of the keypad need at least
  11 r timer interrupts: a tick is counted once, and one that comes between the test and the clearing of the tick is lost
  rather than counted twice.\<close>

theorem boot_reads_bounded:
  assumes "boot_zero s" and "list_all alloc [0..<14]" and "finite K" and "card K \<le> 16"
  shows "\<exists>s0. boot_start pins stat alloc junk s = Some s0 \<and> (\<forall>i r t. boot_run (env_ok K) s0 i r t \<longrightarrow> 11 * r \<le> i)"
proof -
  obtain s0 where s0: "boot_start pins stat alloc junk s = Some s0" "boot_inv K s0" "pc s0 = At_tick" "time_tick (timer s0) = 0"
    "timer_base (timer s0) = 0"
    using start_inv [OF assms(1,2)] by blast
  have "11 * r \<le> i" if "boot_run (env_ok K) s0 i r t" for i r t
    using run_reads [OF that assms(3,4) s0(2)] s0(3-5) by (simp add: owed_def)
  then show ?thesis using s0(1) by blast
qed

theorem boot_reads_bounded_witness:
  "\<exists>s0. boot_start (matrix_pins menu) (\<lambda>_. 1) (\<lambda>_. True) 7 boot_reset = Some s0
     \<and> (\<forall>i r t. boot_run (env_ok (set menu_keys)) s0 i r t \<longrightarrow> 11 * r \<le> i)"
  by (rule boot_reads_bounded [OF boot_reset_zero _ menu_set]) (simp add: list_all_iff)

text \<open>(board.c line 753 with hfc_keyb.c). The result of \<open>mxc_kpp_init\<close> is not looked at: when its first two allocations fail it
  returns -ENOMEM, the start goes on, and the first pass with a tick and a key down reads through a null pointer.\<close>

theorem boot_keypad_failure:
  assumes "boot_zero s" and "\<not> alloc 0" and "\<not> alloc 1" and "\<And>r. e_stat e r AND KBD_STAT_KPKD \<noteq> 0" and "11 \<le> n"
  shows "\<exists>s0. boot_start pins stat alloc junk s = Some s0 \<and> boot_round (n, e) s0 = None"
proof -
  obtain c c' g where 1: "arch_interrupt_init (ic s) = Some (0, c)" "gpt2_init (enable_interrupts c, timer s) = Some (0, c', g)"
    "irq_wf c'" "handlers c' = [53 \<mapsto> Gpt2_irq_handler]" "gpt_ok g" using start_irqs [OF assms(1)] by blast
  have "kp_static (kpd s)" using assms(1) by (simp add: boot_zero_def)
  then obtain kp where 2: "mxc_kpp_init pins stat alloc junk (kpd s) = Some (-12, kp)" "prev_rcmap kp = Null" using failed_init assms(2,3) by blast
  define s0 where "s0 = s\<lparr>ic := c', timer := g, kpd := kp, bkey := 0, pc := At_tick\<rparr>"
  have st: "boot_start pins stat alloc junk s = Some s0" using 1(1,2) 2(1) by (simp add: boot_start_def s0_def Let_def)
  have "take_irqs m (s0\<lparr>timer := h\<rparr>) = Some (s0\<lparr>timer := (gpt2_irq_handler ^^ m) h\<rparr>)" for m h
    using dispatch_gpt2 [OF 1(3)] 1(4) by (induction m arbitrary: h) (simp_all add: take_irq_def s0_def funpow_swap1)
  moreover have "s0\<lparr>timer := g\<rparr> = s0" by (cases s) (simp add: s0_def)
  ultimately have "take_irqs n s0 = Some (s0\<lparr>timer := (gpt2_irq_handler ^^ n) g\<rparr>)" by metis
  moreover have "time_tick ((gpt2_irq_handler ^^ n) g) = 1" using handler_run [of g n] 1(5) assms(5) by (simp add: gpt_ok_def)
  then have "boot_pass e (s0\<lparr>timer := (gpt2_irq_handler ^^ n) g\<rparr>) = None"
    using getc_null [where stat = "e_stat e", OF 2(2) assms(4)] by (simp add: boot_pass_def loop_count_def s0_def)
  ultimately show ?thesis using st by (auto simp: boot_round_def s0_def)
qed

theorem boot_keypad_failure_witness:
  "\<exists>s0. boot_start (matrix_pins menu) (\<lambda>_. 1) (\<lambda>_. False) 7 boot_reset = Some s0 \<and> boot_round (11, held_env) s0 = None"
  by (rule boot_keypad_failure [OF boot_reset_zero]) (simp_all add: held_env_def KBD_STAT_KPKD_def)

text \<open>(hfc_spi.c, \<open>mxc_spi_probe\<close>, called by \<open>tft_fw_init\<close>). Setting the display up a second time, as the command \<open>lcd init\<close> does
  after the boot loop has done it, disconnects the SPI device: the probe clears it before it requests the interrupt, the
  request fails because the handler is still installed, and the whole controller sequence then runs without a word being
  sent.\<close>

theorem lcd_reinit_mute:
  assumes "irq_wf c" and "handlers c 14 \<noteq> None"
  shows "\<exists>c' l'. tft_fw_init_irq ipg rx (c, l) = Some (c', l') \<and> \<not> spi_master (spi0_dev (brd l'))
     \<and> txfifo (spi0_hw (brd l')) = txfifo (spi0_hw (brd l)) \<and> handlers c' = handlers c"
proof -
  obtain c' where "irq_request MXC_INT_CSPI1 (Some Mxc_spi_isr) (Some lit_cspi1_irq) c = Some (-1, c')" "handlers c' = handlers c"
    using request_refines [OF assms(1) name_cspi1, of MXC_INT_CSPI1 Mxc_spi_isr] assms(2) by (auto simp: MXC_INT_CSPI1_def arequest_def)
  moreover obtain l' where "tft_fw_init ipg rx (-1) l = Some l'" "lcd_mute (txfifo (spi0_hw (brd l))) l'" using fw_init_mute [of "-1" ipg rx l] by auto
  ultimately show ?thesis by (auto simp: tft_fw_init_irq_def lcd_mute_def)
qed

theorem lcd_reinit_mute_witness:
  "\<exists>c0 c l. arch_interrupt_init avic_boot = Some (0, c0) \<and> tft_fw_init_irq 66500000 (\<lambda>_. 0) (c0, lcd_on) = Some (c, l)
     \<and> (\<exists>c' l'. tft_fw_init_irq 66500000 (\<lambda>_. 0) (c, l) = Some (c', l') \<and> \<not> spi_master (spi0_dev (brd l'))
        \<and> txfifo (spi0_hw (brd l')) = txfifo (spi0_hw (brd l)) \<and> handlers c' = handlers c)"
proof -
  obtain c0 :: "isr avic" where c0: "arch_interrupt_init avic_boot = Some (0, c0)" "irq_wf c0" "handlers c0 = Map.empty"
    using init_wf [OF avic_boot_static] by blast
  then have "handlers c0 14 = None" "whole_frame (fb lcd_on)" using lcd_on_ok by (simp_all add: lcd_ok_def)
  then obtain c l where c: "tft_fw_init_irq 66500000 (\<lambda>_. 0) (c0, lcd_on) = Some (c, l)" "irq_wf c" "handlers c = (handlers c0)(14 \<mapsto> Mxc_spi_isr)"
    using fw_init_irq_ok [OF c0(2)] by blast
  then have "handlers c 14 \<noteq> None" by simp
  from lcd_reinit_mute [OF c(2) this] show ?thesis using c0(1) c(1) by blast
qed

end
