(* ===== verification/Spec2Isabelle.thy ===== *)
theory Spec2Isabelle
  imports Cycle_Buff String_Proofs Circbuf Lmb_Proofs Sha256 Sha1 Md5 Aes_Proofs Crc_Proofs Command_Line Completion_Proofs Boot_Loop
begin

text \<open>
  A verification of the program's own code in this repository: the ring buffer of \<^verbatim>\<open>cycle_buff\<close> and, of the
  U-Boot fork \<^verbatim>\<open>hfc-boot\<close> for an i.MX25 board, the application code in \<^verbatim>\<open>hfc_app\<close>, the interrupt layer and boot
  loop written for it in \<^verbatim>\<open>arch/arm/lib\<close>, the command line of the monitor in \<^verbatim>\<open>common\<close>, and the library code these
  rest on in \<^verbatim>\<open>lib\<close>.

  \<^bold>\<open>How the parts interact.\<close> After power-on \<^verbatim>\<open>board_init_r\<close> starts the interrupt controller, the timer and the
  keypad and enters a loop. The timer's interrupt handler makes a tick; on a tick the loop reads the keypad, every
  eleventh tick it runs the battery manager, which measures a voltage through the converter and the output register on
  the SPI bus and draws it, and it leaves for the debug or the recovery mode when the console or the keypad says so. In the
  debug mode the monitor reads lines with an editor that has a history and completion, substitutes variables of the
  environment, which is a hash table with a text form, and calls commands. The string, formatting and hash functions are U-Boot's; the ring buffer is a separate program.

  \<^bold>\<open>Theories, in the order of their imports.\<close>

  \<^item> \<^verbatim>\<open>Prelude\<close>: machine types, checked memory access, folds in the option monad, word arithmetic.
  \<^item> \<^verbatim>\<open>Byte_Queue\<close>: the interface of a byte queue as a locale. \<^verbatim>\<open>Cycle_Buff\<close> (cycle_buff/cycle_buff.c, app.c) and
    \<^verbatim>\<open>Circbuf\<close> (lib/circbuf.c) model the two ring buffers and interpret it: streams are conserved, retries send again what
    was tried, the circular buffer keeps the newest bytes.
  \<^item> \<^verbatim>\<open>Ctype\<close>, \<^verbatim>\<open>String_Lib\<close>, \<^verbatim>\<open>String_Proofs\<close> (lib/ctype.c, lib/string.c): the string functions over one memory, their
    contracts, and the equality of the word-wise copies with their byte-wise meaning.
  \<^item> \<^verbatim>\<open>Lmb\<close>, \<^verbatim>\<open>Lmb_Proofs\<close> (lib/lmb.c): the region tables as sets of addresses; allocation is sound.
  \<^item> \<^verbatim>\<open>Block_Hash\<close>: the padding and buffering shared by the hashes, and the locale of a hash over a stream;
    \<^verbatim>\<open>Sha256\<close>, \<^verbatim>\<open>Sha1\<close>, \<^verbatim>\<open>Md5\<close> (lib/sha256.c, sha1.c, md5.c) interpret it and relate the unrolled compression functions to
    the standards' formulas.
  \<^item> \<^verbatim>\<open>Aes\<close>, \<^verbatim>\<open>Aes_Tables\<close>, \<^verbatim>\<open>Aes_Proofs\<close> (lib/aes.c): the tables are the field products, encryption is FIPS 197, decryption
    inverts it.
  \<^item> \<^verbatim>\<open>Crc\<close>, \<^verbatim>\<open>Crc_Proofs\<close> (lib/crc32.c, crc16.c, crc7.c): the locale \<open>checksum\<close>, interpreted on the first two; the table-driven
    code is the shift register, and changes within a burst are detected.
  \<^item> \<^verbatim>\<open>Vsprintf\<close>, \<^verbatim>\<open>Vsprintf_Proofs\<close> (lib/vsprintf.c): number parsing and formatted output; decimal conversion by
    multiplication is decimal.
  \<^item> \<^verbatim>\<open>Keypad\<close>, \<^verbatim>\<open>Keypad_Proofs\<close> (hfc_app/hfc_key): the matrix scan, debounce, decoding and long press, the allocation paths,
    and the simulation of an abstract keypad.
  \<^item> \<^verbatim>\<open>Hashtable\<close>, \<^verbatim>\<open>Hash_Probe\<close>, \<^verbatim>\<open>Hashtable_Proofs\<close>, \<^verbatim>\<open>Hash_Store\<close> (lib/hashtable.c): the table that holds the environment.
    The size is a prime, double hashing visits every slot, and setting, removing and finding a variable refine a finite
    map (the locales \<open>var_store\<close> and \<open>open_store\<close>, interpreted on the table); what goes wrong when no slot is empty or
    memory runs out, and that even then the table stays searchable.
  \<^item> \<^verbatim>\<open>Qsort\<close> (lib/qsort.c): the shell sort, inside the locale \<open>comparator\<close>. \<^verbatim>\<open>Env_Text\<close>, \<^verbatim>\<open>Env_Export\<close>, \<^verbatim>\<open>Env_Proofs\<close>
    (lib/hashtable.c, \<open>hexport_r\<close> and \<open>himport_r\<close>): the text form of the environment. The comparison of the keys
    interprets the locale, the text is sorted and importing it gives the same map; where the computed size is too small.
  \<^item> \<^verbatim>\<open>Command\<close>, \<^verbatim>\<open>Command_Proofs\<close>, \<^verbatim>\<open>Command_Line\<close> (common/main.c from line 1198 and the loop of \<open>main_loop\<close>,
    common/command.c, and of common/cmd_nvedit.c \<open>getenv\<close> and \<open>setenv\<close>): the built-in command parser over its buffers of 256
    bytes refines functions on strings that cut a line into commands, expand variables and cut words; commands are found by
    unique abbreviations; a variable that was set is what its macro gives; \<open>setenv\<close> and nested
    \<open>run\<close> keep the environment searchable, which is all that the refinement asks of commands; where results are inverted
    and commands forgotten.
  \<^item> \<^verbatim>\<open>Line_Editor\<close>, \<^verbatim>\<open>Line_Proofs\<close>, \<^verbatim>\<open>Completion_Proofs\<close> (common/main.c, lines 604 to 1051, and the completion of
    common/command.c): the history, the keys and escape sequences, and the completion. The editor refines a text with a
    cursor, a line comes back with the arrow key, and a tabulator completes the only match or the common beginning.
  \<^item> \<^verbatim>\<open>Spi\<close>, \<^verbatim>\<open>Board\<close>, \<^verbatim>\<open>Board_Proofs\<close> (hfc_app/hfc_spi, hfc_gpio, hfc_misc): polled SPI, the output register, the converter
    and the voltage.
  \<^item> \<^verbatim>\<open>Lcd_Font\<close>, \<^verbatim>\<open>Lcd\<close>, \<^verbatim>\<open>Lcd_Proofs\<close> (hfc_app/hfc_lcd): drawing into the frame buffer, text, the battery picture, the
    controller's set-up and the lcd command.
  \<^item> \<^verbatim>\<open>Battery\<close> (hfc_app/hfc_battery): the level, its blinking picture and the manager.
  \<^item> \<^verbatim>\<open>Irq\<close> (arch/arm/lib/interrupts.c): the handler table as a partial map, with the locale \<open>irq_service\<close> for the
    drivers that request interrupts; \<^verbatim>\<open>Timer\<close> (hfc_app/hfc_irq): the tick.
  \<^item> \<^verbatim>\<open>Boot_Loop\<close> (arch/arm/lib/board.c, lines 689 to 823): the composition. A step relation interleaves the loop with
    timer interrupts; an invariant over all reachable states shows that no step is undefined; a run with the menu keys held
    reaches the recovery mode.

  \<^bold>\<open>Conventions.\<close> Files' static variables and device registers are records, one per component, passed explicitly.
  \<^term>\<open>None\<close> is behaviour that C leaves undefined (an access outside an object, through a null or freed pointer, a
  division by zero, a shift by 32 or more), or a loop that never ends; a theorem that concludes \<open>Some _\<close> excludes both.
  Errors the code reports are values. Hardware answers (pins, received words, converter samples, allocation results, the
  console) are parameters, as are the contents of uninitialised memory. Calls of the pin multiplexer and frames sent
  over SPI are recorded in order.

  \<^bold>\<open>Bounds and fuel.\<close> Loops that do not follow the structure of their data have termination proofs, or are partial
  functions that the theorems show to return (the search for a prime size). The probing of the hash table is bounded by
  its size, and the loop over the commands of a line by the size of its buffer, which the theorems show to be enough. In \<^verbatim>\<open>Boot_Loop\<close> a pass through the body is six or eight steps. The set of sixteen keys in the invariant is what
  the keypad's array of codes holds.

  \<^bold>\<open>Not modelled.\<close> Of U-Boot's monitor the boot delay, the other parser (hush, not configured), reading a line before
  relocation and the commands themselves other than \<open>run\<close> and \<open>setenv\<close>, which are values in the command table; network, file systems, drivers and the code of other boards; third-party
  decompressors and the device tree library; of the modelled files, the interrupt-driven SPI transfer (nothing calls it),
  the fixed pin and clock set-up sequences (recorded as calls) and console output. Delays have no effect on the state.
\<close>

section \<open>From the keys to the commands\<close>

lemma readline_typed:
  assumes "length console_buffer = CONFIG_SYS_CBSIZE + 1" and "length es = 8" and "hist_ready st"
    and "\<forall>c\<in>set l. printing c" and "length l \<le> CONFIG_SYS_CBSIZE"
  shows "\<exists>b h. readline tbl tmp_buf es prompt console_buffer (l @ [13]) st = Some (Some (int (length l), b, True, h)) \<and> cstr b 0 l \<and> hist_ok h"
proof -
  have keys: "9 \<notin> set (l @ [13])" and nul: "0 \<notin> set l" using assms(4) printing_key [of 9 9] printing_key [of 0 0] by auto
  obtain b h where b: "readline tbl tmp_buf es prompt console_buffer (l @ [13]) st = Some (Some (int (length l), b, True, h))"
      "take (length l + 1) b = l @ [0]" "length b = CONFIG_SYS_CBSIZE + 1" "hist_ok h"
    using readline_spec [OF assms(1-3) keys, of tbl tmp_buf prompt] zrun_typed [of l "start_line h0" for h0] assms(4,5) by (auto simp: start_line_def)
  have "b = (l @ [0]) @ drop (length l + 1) b" using append_take_drop_id [of "length l + 1" b] unfolding b(2) by simp
  then have "cstr b 0 l" using cstr_front [OF nul, of "drop (length l + 1) b"] by simp
  then show ?thesis using b by blast
qed

text \<open>C4 (common/main.c, \<open>main_loop\<close>, \<open>readline\<close>, \<open>run_command\<close>). A non-empty line of at most 256 printable characters is typed at the
  prompt, from every history, with an environment that can be searched and commands that leave it so. It is edited,
  copied, cut into commands, expanded and executed as its text says, and \<open>lastcommand\<close> keeps it only when it failed. Two
  kinds of lines are undefined: one of 256 characters is copied past the end of \<open>lastcommand\<close>, and one that starts with a
  quote makes the parser read the byte before its buffer.\<close>

theorem typed_line_runs:
  fixes s :: "('c, 'w) monitor"
  assumes "length console_buffer = CONFIG_SYS_CBSIZE + 1" and "length es = 8" and "hist_ready st"
    and "\<forall>c\<in>set l. printing c" and "l \<noteq> []" and "length l \<le> CONFIG_SYS_CBSIZE"
    and "keeps_env tbl" and "searchable (env_htab s)"
    and "length cmdbuf = CONFIG_SYS_CBSIZE" and "length finaltoken = CONFIG_SYS_CBSIZE" and "length lastcommand = CONFIG_SYS_CBSIZE"
  shows "\<exists>b h. readline tbl tmp_buf es CONFIG_SYS_PROMPT console_buffer (l @ [13]) st = Some (Some (int (length l), b, True, h)) \<and> hist_ok h
     \<and> main_loop_pass tbl cmdbuf finaltoken (int (length l)) b (lastcommand, rc, s) =
       (if length l = CONFIG_SYS_CBSIZE \<or> hd l = 39 then None
        else do { (r, s) \<leftarrow> run_spec tbl 0 (tokens l) 0 1 (clear_ctrlc s);
                  Some ((if r = -1 then hd l else 0) # tl l @ 0 # drop (length l + 1) lastcommand, if r = -1 then 1 else 0, s) })"
proof -
  obtain b h where b: "readline tbl tmp_buf es CONFIG_SYS_PROMPT console_buffer (l @ [13]) st = Some (Some (int (length l), b, True, h))" "cstr b 0 l" "hist_ok h"
    using readline_typed [OF assms(1-4,6), of tbl tmp_buf CONFIG_SYS_PROMPT] by auto
  have str: "is_str l" using cstr_no_nul [OF b(2)] by (simp add: is_str_def)
  have "main_loop_pass tbl cmdbuf finaltoken (int (length l)) b (lastcommand, rc, s) =
       (if length l = CONFIG_SYS_CBSIZE \<or> hd l = 39 then None
        else do { (r, s) \<leftarrow> run_spec tbl 0 (tokens l) 0 1 (clear_ctrlc s);
                  Some ((if r = -1 then hd l else 0) # tl l @ 0 # drop (length l + 1) lastcommand, if r = -1 then 1 else 0, s) })"
  proof (cases "length l = CONFIG_SYS_CBSIZE")
    case True
    then show ?thesis using main_loop_overflow [OF b(2) assms(11)] by simp
  next
    case False
    then have len: "length l < CONFIG_SYS_CBSIZE" using assms(6) by simp
    then show ?thesis
      using main_loop_line [OF b(2) assms(5,11) len, of tbl cmdbuf finaltoken rc s] builtin_run_spec [OF assms(7,8) str assms(9,10), of 0] assms(5)
      by (cases "run_spec tbl 0 (tokens l) 0 1 (clear_ctrlc s)") (auto simp: run_command_def)
  qed
  then show ?thesis using b(1,3) by blast
qed

text \<open>The line \<open>setenv a b;run a\<close>, with the commands \<open>setenv\<close> and \<open>run\<close>, is typed after a reset.\<close>

theorem typed_line_runs_witness:
  "\<exists>b h. readline monitor_table [] (replicate 8 0) CONFIG_SYS_PROMPT (replicate 257 0) (set_and_run @ [13]) (False, no_history) = Some (Some (int (length set_and_run), b, True, h)) \<and> hist_ok h
     \<and> main_loop_pass monitor_table (replicate 256 7) (replicate 256 8) (int (length set_and_run)) b (replicate 256 0, 0, no_monitor) =
       (if length set_and_run = CONFIG_SYS_CBSIZE \<or> hd set_and_run = 39 then None
        else do { (r, s) \<leftarrow> run_spec monitor_table 0 (tokens set_and_run) 0 1 (clear_ctrlc no_monitor);
                  Some ((if r = -1 then hd set_and_run else 0) # tl set_and_run @ 0 # drop (length set_and_run + 1) (replicate 256 0), if r = -1 then 1 else 0, s) })"
  by (rule typed_line_runs)
     (simp_all add: no_history_ready printing_def monitor_table_keeps set_and_run_def no_monitor_def hwf_searchable one_table_hwf CONFIG_SYS_CBSIZE_def)

end
